(* ===== verification/Prelude.thy ===== *)
theory Prelude
  imports Main "HOL-Library.Word"
begin

text \<open>
  Shared vocabulary of the development.

  \<^item> Failures. Every internal assertion, user error, unsupported case and thrown exception of the
    C++ code is a value of \<open>taco_error\<close>; a fallible operation returns a value of type
    \<open>'a res\<close>. Assertions are modelled as enabled (\<open>TACO_ASSERTS\<close>, include/taco/error.h).
  \<^item> Sequencing. \<open>bindR\<close> stops at the first failure, \<open>mapR\<close> visits a vector from left to
    right and stops at the first failure.
  \<^item> Machine integers. \<open>wrapU n\<close> and \<open>wrapS n\<close> reduce an integer to an unsigned or
    two's complement \<open>n\<close>-bit value; \<open>c_div\<close> and \<open>c_rem\<close> are C's truncating division.
\<close>

named_theorems res_simps \<open>rewriting of fallible computations\<close>
named_theorems wrap_simps \<open>rewriting of wrap-around arithmetic\<close>

subsection \<open>Failures\<close>

datatype taco_error =
    IAssert        \<comment> \<open>taco_iassert failed\<close>
  | IError         \<comment> \<open>taco_ierror, taco_unreachable\<close>
  | UError         \<comment> \<open>taco_uerror, taco_uassert\<close>
  | TAssert        \<comment> \<open>taco_tassert, taco_terror\<close>
  | NotSupported   \<comment> \<open>taco_not_supported_yet\<close>
  | OutOfRange     \<comment> \<open>a throwing at() of a container\<close>
  | DivByZero      \<comment> \<open>an integer division by zero\<close>
  | Overflow       \<comment> \<open>signed arithmetic out of the range of its type, undefined in C++\<close>
  | BadMemory      \<comment> \<open>an access outside an allocated array, or to an unset variable\<close>
  | TypeError      \<comment> \<open>a value used at a type it does not have\<close>
  | NoReturn       \<comment> \<open>the computation does not return\<close>

type_synonym 'a res = "taco_error + 'a"

abbreviation ok :: "'a \<Rightarrow> 'a res" where "ok \<equiv> Inr"
abbreviation err :: "taco_error \<Rightarrow> 'a res" where "err \<equiv> Inl"

definition bindR :: "'a res \<Rightarrow> ('a \<Rightarrow> 'b res) \<Rightarrow> 'b res" where
  "bindR m f = (case m of Inl e \<Rightarrow> Inl e | Inr x \<Rightarrow> f x)"

definition assertR :: "taco_error \<Rightarrow> bool \<Rightarrow> 'a res \<Rightarrow> 'a res" where
  "assertR e b m = (if b then m else Inl e)"

fun mapR :: "('a \<Rightarrow> 'b res) \<Rightarrow> 'a list \<Rightarrow> 'b list res" where
  "mapR f [] = Inr []"
| "mapR f (x # xs) =
     (case f x of Inl e \<Rightarrow> Inl e
      | Inr y \<Rightarrow> (case mapR f xs of Inl e \<Rightarrow> Inl e | Inr ys \<Rightarrow> Inr (y # ys)))"

lemma bindR_Inl [simp, res_simps]: "bindR (Inl e) f = Inl e"
  by (simp add: bindR_def)

lemma bindR_Inr [simp, res_simps]: "bindR (Inr x) f = f x"
  by (simp add: bindR_def)

lemma bindR_eq_Inr [res_simps]: "bindR m f = Inr y \<longleftrightarrow> (\<exists>x. m = Inr x \<and> f x = Inr y)"
  by (cases m) (auto simp: bindR_def)

lemma bindR_eq_Inl [res_simps]:
  "bindR m f = Inl e \<longleftrightarrow> m = Inl e \<or> (\<exists>x. m = Inr x \<and> f x = Inl e)"
  by (cases m) (auto simp: bindR_def)

lemma bindR_cong [fundef_cong]:
  "m = m' \<Longrightarrow> (\<And>x. m' = Inr x \<Longrightarrow> f x = f' x) \<Longrightarrow> bindR m f = bindR m' f'"
  by (cases m') (auto simp: bindR_def)

lemma bindR_assoc: "bindR (bindR m f) g = bindR m (\<lambda>x. bindR (f x) g)"
  by (cases m) auto

lemma assertR_True [simp, res_simps]: "assertR e True m = m"
  by (simp add: assertR_def)

lemma assertR_False [simp, res_simps]: "assertR e False m = Inl e"
  by (simp add: assertR_def)

lemma assertR_eq_Inr [res_simps]: "assertR e b m = Inr x \<longleftrightarrow> b \<and> m = Inr x"
  by (simp add: assertR_def)

lemma assertR_cong [fundef_cong]:
  "b = b' \<Longrightarrow> (b' \<Longrightarrow> m = m') \<Longrightarrow> assertR e b m = assertR e b' m'"
  by (simp add: assertR_def)

lemma mapR_cong [fundef_cong]:
  "xs = ys \<Longrightarrow> (\<And>x. x \<in> set ys \<Longrightarrow> f x = g x) \<Longrightarrow> mapR f xs = mapR g ys"
  by (induction ys arbitrary: xs) (auto split: sum.splits)

lemma mapR_eq_Inr:
  "mapR f xs = Inr ys \<longleftrightarrow> list_all2 (\<lambda>x y. f x = Inr y) xs ys"
proof (induction xs arbitrary: ys)
  case Nil
  then show ?case by auto
next
  case (Cons x xs)
  then show ?case
    by (cases "f x"; cases "mapR f xs") (auto simp: list_all2_Cons1)
qed

lemma mapR_length: "mapR f xs = Inr ys \<Longrightarrow> length ys = length xs"
  by (auto simp: mapR_eq_Inr dest: list_all2_lengthD)

lemma mapR_total: "(\<And>x. x \<in> set xs \<Longrightarrow> \<exists>y. f x = Inr y) \<Longrightarrow> \<exists>ys. mapR f xs = Inr ys"
  by (induction xs) (fastforce split: sum.splits)+

lemma mapR_ok: "(\<And>x. x \<in> set xs \<Longrightarrow> f x = Inr (g x)) \<Longrightarrow> mapR f xs = Inr (map g xs)"
  by (induction xs) auto

subsection \<open>Machine integers\<close>

definition wrapU :: "nat \<Rightarrow> int \<Rightarrow> int" where
  "wrapU n x = x mod 2 ^ n"

definition wrapS :: "nat \<Rightarrow> int \<Rightarrow> int" where
  "wrapS n x = (x + 2 ^ (n - 1)) mod 2 ^ n - 2 ^ (n - 1)"

text \<open>C's integer division truncates towards zero, and the remainder takes the sign of the
  dividend.\<close>

definition c_div :: "int \<Rightarrow> int \<Rightarrow> int" where
  "c_div a b = sgn a * sgn b * (\<bar>a\<bar> div \<bar>b\<bar>)"

definition c_rem :: "int \<Rightarrow> int \<Rightarrow> int" where
  "c_rem a b = a - c_div a b * b"

lemma wrapU_range: "0 \<le> wrapU n x \<and> wrapU n x < 2 ^ n"
  by (simp add: wrapU_def)

lemma wrapS_range:
  assumes "0 < n" shows "- (2 ^ (n - 1)) \<le> wrapS n x \<and> wrapS n x < 2 ^ (n - 1)"
proof -
  have "(2::int) ^ n = 2 * 2 ^ (n - 1)"
    using assms by (metis power_Suc Suc_diff_1)
  moreover have "0 \<le> (x + 2 ^ (n - 1)) mod 2 ^ n" "(x + 2 ^ (n - 1)) mod 2 ^ n < 2 ^ n"
    by simp_all
  ultimately show ?thesis by (simp add: wrapS_def)
qed

lemma wrapU_id [wrap_simps]: "0 \<le> x \<Longrightarrow> x < 2 ^ n \<Longrightarrow> wrapU n x = x"
  by (simp add: wrapU_def)

lemma wrapS_id [wrap_simps]:
  assumes "0 < n" "- (2 ^ (n - 1)) \<le> x" "x < 2 ^ (n - 1)"
  shows "wrapS n x = x"
proof -
  have "(2::int) ^ n = 2 * 2 ^ (n - 1)"
    using assms(1) by (metis power_Suc Suc_diff_1)
  with assms(2,3) have "0 \<le> x + 2 ^ (n - 1)" "x + 2 ^ (n - 1) < 2 ^ n" by linarith+
  then show ?thesis by (simp add: wrapS_def)
qed

lemma wrapU_mod: "wrapU n x mod 2 ^ n = x mod 2 ^ n"
  by (simp add: wrapU_def)

lemma wrapS_mod: "wrapS n x mod 2 ^ n = x mod 2 ^ n"
proof -
  have "wrapS n x mod 2 ^ n = (x + 2 ^ (n - 1) - 2 ^ (n - 1)) mod 2 ^ n"
    unfolding wrapS_def by (rule mod_diff_left_eq)
  then show ?thesis by simp
qed

lemma wrapU_cong: "x mod 2 ^ n = y mod 2 ^ n \<Longrightarrow> wrapU n x = wrapU n y"
  by (simp add: wrapU_def)

lemma wrapS_cong: "x mod 2 ^ n = y mod 2 ^ n \<Longrightarrow> wrapS n x = wrapS n y"
  unfolding wrapS_def by (metis mod_add_left_eq)

lemma wrapU_zero [simp]: "wrapU n 0 = 0"
  by (simp add: wrapU_def)

lemma wrapS_zero [simp]: "0 < n \<Longrightarrow> wrapS n 0 = 0"
  by (rule wrapS_id) auto

lemma c_div_nonneg: "0 \<le> a \<Longrightarrow> 0 \<le> b \<Longrightarrow> c_div a b = a div b"
  by (cases "a = 0"; cases "b = 0") (auto simp: c_div_def sgn_if)

lemma c_div_one [simp]: "c_div a 1 = a"
  by (simp add: c_div_def) (metis mult.commute abs_mult_sgn)

lemma c_div_rem: "c_div a b * b + c_rem a b = a"
  by (simp add: c_rem_def)


subsection \<open>Decimal printing\<close>

definition digit_char :: "nat \<Rightarrow> char" where
  "digit_char d = ''0123456789'' ! d"

fun show_nat :: "nat \<Rightarrow> string" where
  "show_nat n = (if n < 10 then [digit_char n] else show_nat (n div 10) @ [digit_char (n mod 10)])"

declare show_nat.simps [simp del]

end
