(* ===== verification/Datatypes.thy ===== *)
theory Datatypes
  imports Prelude
begin

text \<open>
  The component type system of src/type.cpp and include/taco/type.h: the kinds of
  \<open>Datatype\<close>, its predicates and sizes, type promotion (\<open>max_type\<close>), and the equality of
  dimensions, shapes and tensor types.
\<close>

subsection \<open>Kinds\<close>

datatype Kind =
    Bool
  | UInt8 | UInt16 | UInt32 | UInt64 | UInt128
  | Int8 | Int16 | Int32 | Int64 | Int128
  | Float32 | Float64
  | Complex64 | Complex128
  | Undefined

text \<open>The class \<open>Datatype\<close> holds one field, its kind.\<close>

type_synonym Datatype = Kind

definition isBool :: "Datatype \<Rightarrow> bool" where
  "isBool k \<longleftrightarrow> k = Bool"

definition isUInt :: "Datatype \<Rightarrow> bool" where
  "isUInt k \<longleftrightarrow> k = UInt8 \<or> k = UInt16 \<or> k = UInt32 \<or> k = UInt64 \<or> k = UInt128"

definition isInt :: "Datatype \<Rightarrow> bool" where
  "isInt k \<longleftrightarrow> k = Int8 \<or> k = Int16 \<or> k = Int32 \<or> k = Int64 \<or> k = Int128"

definition isFloat :: "Datatype \<Rightarrow> bool" where
  "isFloat k \<longleftrightarrow> k = Float32 \<or> k = Float64"

definition isComplex :: "Datatype \<Rightarrow> bool" where
  "isComplex k \<longleftrightarrow> k = Complex64 \<or> k = Complex128"

lemmas kind_preds = isBool_def isUInt_def isInt_def isFloat_def isComplex_def

text \<open>\<open>sizeof(bool)\<close> is 1 on the supported targets, and is returned as a number of bits.\<close>

fun getNumBits :: "Datatype \<Rightarrow> int res" where
  "getNumBits Bool = ok 1"
| "getNumBits UInt8 = ok 8"
| "getNumBits Int8 = ok 8"
| "getNumBits UInt16 = ok 16"
| "getNumBits Int16 = ok 16"
| "getNumBits UInt32 = ok 32"
| "getNumBits Int32 = ok 32"
| "getNumBits Float32 = ok 32"
| "getNumBits UInt64 = ok 64"
| "getNumBits Int64 = ok 64"
| "getNumBits Float64 = ok 64"
| "getNumBits Complex64 = ok 64"
| "getNumBits Complex128 = ok 128"
| "getNumBits Int128 = ok 128"
| "getNumBits UInt128 = ok 128"
| "getNumBits Undefined = err IError"

definition getNumBytes :: "Datatype \<Rightarrow> int res" where
  "getNumBytes k = bindR (getNumBits k) (\<lambda>n. ok ((n + 7) div 8))"

definition UInt_bits :: "int \<Rightarrow> Datatype res" where
  "UInt_bits bits =
     (if bits = 8 then ok UInt8
      else if bits = 16 then ok UInt16
      else if bits = 32 then ok UInt32
      else if bits = 64 then ok UInt64
      else if bits = 128 then ok UInt128
      else err IError)"

definition Int_bits :: "int \<Rightarrow> Datatype res" where
  "Int_bits bits =
     (if bits = 8 then ok Int8
      else if bits = 16 then ok Int16
      else if bits = 32 then ok Int32
      else if bits = 64 then ok Int64
      else if bits = 128 then ok Int128
      else err IError)"

definition Float_bits :: "int \<Rightarrow> Datatype res" where
  "Float_bits bits =
     (if bits = 32 then ok Float32
      else if bits = 64 then ok Float64
      else err IError)"

definition Complex_bits :: "int \<Rightarrow> Datatype res" where
  "Complex_bits bits =
     (if bits = 64 then ok Complex64
      else if bits = 128 then ok Complex128
      else err IError)"

text \<open>The namespace-level constants \<open>taco::UInt128\<close> and \<open>taco::Int128\<close>, as initialised.\<close>

definition global_UInt128 :: Datatype where "global_UInt128 = Int128"
definition global_Int128 :: Datatype where "global_Int128 = UInt128"

subsection \<open>Type promotion\<close>

definition max_type :: "Datatype \<Rightarrow> Datatype \<Rightarrow> Datatype res" where
  "max_type a b =
     (if a = b then ok a
      else if isComplex a \<or> isComplex b then
        (if a = Complex128 \<or> b = Complex128 \<or> a = Float64 \<or> b = Float64
         then ok Complex128 else ok Complex64)
      else if isFloat a \<or> isFloat b then
        (if a = Float64 \<or> b = Float64 then ok Float64 else ok Float32)
      else
        bindR (getNumBits a) (\<lambda>na. bindR (getNumBits b) (\<lambda>nb.
          if isInt a \<or> isInt b then Int_bits (if na > nb then na else nb)
          else UInt_bits (if na > nb then na else nb))))"

subsection \<open>Dimensions, shapes and tensor types\<close>

text \<open>\<open>Dimension::Content\<close>; an index variable is named by its identity.\<close>

record Dimension =
  dim_size :: nat
  dim_indexVar :: "nat option"

definition Dimension_variable :: Dimension where
  "Dimension_variable = \<lparr>dim_size = 0, dim_indexVar = None\<rparr>"

definition Dimension_fixed :: "nat \<Rightarrow> Dimension res" where
  "Dimension_fixed n =
     assertR IAssert (n > 0) (ok \<lparr>dim_size = n, dim_indexVar = None\<rparr>)"

definition Dimension_indexVar :: "nat \<Rightarrow> Dimension" where
  "Dimension_indexVar v = \<lparr>dim_size = 0, dim_indexVar = Some v\<rparr>"

definition isFixed :: "Dimension \<Rightarrow> bool" where
  "isFixed d \<longleftrightarrow> dim_size d > 0"

definition isIndexVarSized :: "Dimension \<Rightarrow> bool" where
  "isIndexVarSized d \<longleftrightarrow> dim_indexVar d \<noteq> None"

definition isVariable :: "Dimension \<Rightarrow> bool" where
  "isVariable d \<longleftrightarrow> dim_size d = 0 \<and> \<not> isIndexVarSized d"

definition getIndexVarSize :: "Dimension \<Rightarrow> nat res" where
  "getIndexVarSize d = (case dim_indexVar d of None \<Rightarrow> err IAssert | Some v \<Rightarrow> ok v)"

definition dim_eq :: "Dimension \<Rightarrow> Dimension \<Rightarrow> bool" where
  "dim_eq a b =
     (if isFixed a \<noteq> isFixed b then False
      else if isFixed a \<and> isFixed b \<and> dim_size a \<noteq> dim_size b then False
      else True)"

type_synonym Shape = "Dimension list"

text \<open>The loop of \<open>operator==(Shape, Shape)\<close> from index \<open>i\<close> on.\<close>

fun shape_eq_from :: "nat \<Rightarrow> Shape \<Rightarrow> Shape \<Rightarrow> bool" where
  "shape_eq_from 0 a b = True"
| "shape_eq_from (Suc n) a b =
     (let i = length a - Suc n in
      if \<not> dim_eq (a ! i) (b ! i) then False else shape_eq_from n a b)"

definition shape_eq :: "Shape \<Rightarrow> Shape \<Rightarrow> bool" where
  "shape_eq a b = (if length a \<noteq> length b then False else shape_eq_from (length a) a b)"

record TensorType =
  dtype :: Datatype
  shape :: Shape

definition type_eq :: "TensorType \<Rightarrow> TensorType \<Rightarrow> bool" where
  "type_eq a b =
     (if dtype a \<noteq> dtype b then False
      else if \<not> shape_eq (shape a) (shape b) then False
      else True)"

definition isScalarType :: "TensorType \<Rightarrow> bool" where
  "isScalarType t \<longleftrightarrow> length (shape t) = 0"


subsection \<open>Printing\<close>

text \<open>\<open>operator<<\<close> for \<open>Datatype\<close> prints the C name, for \<open>Datatype::Kind\<close> the
  enumerator.\<close>

definition print_Datatype :: "Datatype \<Rightarrow> string res" where
  "print_Datatype t =
     (if isBool t then ok ''bool''
      else if isInt t then
        bindR (getNumBits t) (\<lambda>n. ok (''int'' @ show_nat (nat n) @ ''_t''))
      else if isUInt t then
        bindR (getNumBits t) (\<lambda>n. ok (''uint'' @ show_nat (nat n) @ ''_t''))
      else if t = Float32 then ok ''float''
      else if t = Float64 then ok ''double''
      else if t = Complex64 then ok ''float complex''
      else if t = Complex128 then ok ''double complex''
      else ok ''Undefined'')"

fun print_Kind :: "Kind \<Rightarrow> string" where
  "print_Kind Bool = ''Bool''"
| "print_Kind UInt8 = ''UInt8''"
| "print_Kind UInt16 = ''UInt16''"
| "print_Kind UInt32 = ''UInt32''"
| "print_Kind UInt64 = ''UInt64''"
| "print_Kind UInt128 = ''UInt128''"
| "print_Kind Int8 = ''Int8''"
| "print_Kind Int16 = ''Int16''"
| "print_Kind Int32 = ''Int32''"
| "print_Kind Int64 = ''Int64''"
| "print_Kind Int128 = ''Int128''"
| "print_Kind Float32 = ''Float32''"
| "print_Kind Float64 = ''Float64''"
| "print_Kind Complex64 = ''Complex64''"
| "print_Kind Complex128 = ''Complex128''"
| "print_Kind Undefined = ''Undefined''"

subsection \<open>Facts about kinds\<close>

lemma kind_partition:
  "isBool k \<or> isUInt k \<or> isInt k \<or> isFloat k \<or> isComplex k \<or> k = Undefined"
  by (cases k) (simp_all add: kind_preds)

text \<open>The six classes the predicates split the kinds into. Rewriting the predicates to the class
  decides any combination of them.\<close>

datatype kind_class = CBool | CUInt | CInt | CFloat | CComplex | CUndefined

definition kclass :: "Datatype \<Rightarrow> kind_class" where
  "kclass k =
     (if isBool k then CBool else if isUInt k then CUInt else if isInt k then CInt
      else if isFloat k then CFloat else if isComplex k then CComplex else CUndefined)"

definition isIntegral :: "Datatype \<Rightarrow> bool" where
  "isIntegral k \<longleftrightarrow> isInt k \<or> isUInt k"

lemma kclass_iff:
  "isBool k \<longleftrightarrow> kclass k = CBool" "isUInt k \<longleftrightarrow> kclass k = CUInt" "isInt k \<longleftrightarrow> kclass k = CInt"
  "isFloat k \<longleftrightarrow> kclass k = CFloat" "isComplex k \<longleftrightarrow> kclass k = CComplex"
  "k = Bool \<longleftrightarrow> kclass k = CBool" "k = Undefined \<longleftrightarrow> kclass k = CUndefined"
  "isIntegral k \<longleftrightarrow> kclass k = CInt \<or> kclass k = CUInt"
  by (cases k; simp add: kclass_def kind_preds isIntegral_def)+

text \<open>The promotion order: \<open>a\<close> is below \<open>b\<close> when \<open>b\<close> absorbs it.\<close>

definition promotes :: "Datatype \<Rightarrow> Datatype \<Rightarrow> bool" where
  "promotes a b \<longleftrightarrow> max_type a b = ok b"

lemma max_type_idem [simp]: "max_type a a = ok a"
  by (simp add: max_type_def)

lemma max_type_table:
  "max_type a b = max_type b a"
  "a \<noteq> Undefined \<Longrightarrow> b \<noteq> Undefined \<Longrightarrow>
     \<exists>c. max_type a b = ok c \<and> c \<noteq> Undefined \<and> max_type a c = ok c \<and> max_type b c = ok c"
  by (cases a; cases b; simp add: max_type_def kind_preds Int_bits_def UInt_bits_def)+


text \<open>Promotion as a total operation, on the kinds it is defined for.\<close>

definition join_kind :: "Datatype \<Rightarrow> Datatype \<Rightarrow> Datatype" where
  "join_kind a b = (case max_type a b of Inl e \<Rightarrow> Undefined | Inr c \<Rightarrow> c)"

definition all_kinds :: "Kind list" where
  "all_kinds = [Bool, UInt8, UInt16, UInt32, UInt64, UInt128, Int8, Int16, Int32, Int64, Int128,
     Float32, Float64, Complex64, Complex128]"

lemma all_kinds: "k \<noteq> Undefined \<Longrightarrow> k \<in> set all_kinds"
  by (cases k) (simp_all add: all_kinds_def)

lemma join_kind_assoc_all:
  "list_all (\<lambda>a. list_all (\<lambda>b. list_all (\<lambda>c.
     join_kind (join_kind a b) c = join_kind a (join_kind b c)) all_kinds) all_kinds) all_kinds"
  by code_simp

lemma join_kind_assoc:
  assumes "a \<noteq> Undefined" "b \<noteq> Undefined" "c \<noteq> Undefined"
  shows "join_kind (join_kind a b) c = join_kind a (join_kind b c)"
  using join_kind_assoc_all assms by (simp add: list_all_iff all_kinds)


subsection \<open>Promotion as a least upper bound\<close>

text \<open>What the expression constructors rely on when they promote operand types.\<close>

locale promotion =
  fixes join :: "'k \<Rightarrow> 'k \<Rightarrow> 'k" and good :: "'k \<Rightarrow> bool"
  assumes join_good: "good a \<Longrightarrow> good b \<Longrightarrow> good (join a b)"
    and join_comm: "join a b = join b a"
    and join_idem: "join a a = a"
    and join_assoc: "good a \<Longrightarrow> good b \<Longrightarrow> good c \<Longrightarrow> join (join a b) c = join a (join b c)"
begin

lemma upper: "good a \<Longrightarrow> good b \<Longrightarrow> join a (join a b) = join a b"
  by (metis join_assoc join_idem)

lemma least:
  assumes "good a" "good b" "good d" "join a d = d" "join b d = d"
  shows "join (join a b) d = d"
  using assms by (simp add: join_assoc)

lemma order_trans:
  "good a \<Longrightarrow> good b \<Longrightarrow> good c \<Longrightarrow> join a b = b \<Longrightarrow> join b c = c \<Longrightarrow> join a c = c"
  by (metis join_assoc)

lemma order_antisym: "join a b = b \<Longrightarrow> join b a = a \<Longrightarrow> a = b"
  by (metis join_comm)

end

lemma max_type_join:
  assumes "a \<noteq> Undefined" "b \<noteq> Undefined" shows "max_type a b = ok (join_kind a b)"
  using max_type_table(2) [OF assms] by (auto simp: join_kind_def)

lemma join_kind_defined:
  assumes "a \<noteq> Undefined" "b \<noteq> Undefined" shows "join_kind a b \<noteq> Undefined"
  using max_type_table(2) [OF assms] max_type_join [OF assms] by auto

interpretation kinds: promotion join_kind "\<lambda>k. k \<noteq> Undefined"
  by unfold_locales
    (simp_all add: join_kind_defined join_kind_assoc,
     simp_all add: join_kind_def max_type_table(1))

lemma promotes_join:
  assumes "a \<noteq> Undefined" "b \<noteq> Undefined"
  shows "promotes a b \<longleftrightarrow> join_kind a b = b"
  using max_type_join [OF assms] by (simp add: promotes_def)

text \<open>(C27) Type promotion is total on the defined kinds, does not depend on the order of the
  operands, and computes the least upper bound of the two types in the promotion order.\<close>

theorem max_type_least_upper_bound:
  assumes "a \<noteq> Undefined" "b \<noteq> Undefined"
  shows "\<exists>c. max_type a b = ok c \<and> max_type b a = ok c \<and> promotes a c \<and> promotes b c \<and>
    (\<forall>d. d \<noteq> Undefined \<and> promotes a d \<and> promotes b d \<longrightarrow> promotes c d)"
proof -
  let ?c = "join_kind a b"
  have c: "?c \<noteq> Undefined" using assms by (rule join_kind_defined)
  have "promotes a ?c"
    using kinds.upper [OF assms] assms c by (simp add: promotes_join)
  moreover have "promotes b ?c"
    using kinds.upper [OF assms(2,1)] assms c by (simp add: promotes_join kinds.join_comm [of a b])
  moreover have "promotes ?c d" if "d \<noteq> Undefined" "promotes a d" "promotes b d" for d
    using that assms c kinds.least [OF assms that(1)] by (simp add: promotes_join)
  ultimately show ?thesis
    using max_type_join [OF assms] max_type_table(1) [of a b] by auto
qed

theorem max_type_least_upper_bound_witness:
  "\<exists>c. max_type Int32 UInt64 = ok c \<and> max_type UInt64 Int32 = ok c \<and> promotes Int32 c \<and>
    promotes UInt64 c \<and> (\<forall>d. d \<noteq> Undefined \<and> promotes Int32 d \<and> promotes UInt64 d \<longrightarrow> promotes c d)"
  by (rule max_type_least_upper_bound) simp_all

subsection \<open>Sizes and constructors\<close>

lemma bits_roundtrip:
  "isUInt k \<Longrightarrow> bindR (getNumBits k) UInt_bits = ok k"
  "isInt k \<Longrightarrow> bindR (getNumBits k) Int_bits = ok k"
  "isFloat k \<Longrightarrow> bindR (getNumBits k) Float_bits = ok k"
  "isComplex k \<Longrightarrow> bindR (getNumBits k) Complex_bits = ok k"
  by (auto simp: kind_preds UInt_bits_def Int_bits_def Float_bits_def Complex_bits_def)

text \<open>Promotion of integers never narrows.\<close>

lemma max_type_integral_bits:
  assumes "isInt a \<or> isUInt a" "isInt b \<or> isUInt b" "max_type a b = ok c"
    "getNumBits a = ok na" "getNumBits b = ok nb" "getNumBits c = ok nc"
  shows "nc = max na nb \<and> (isInt c \<longleftrightarrow> isInt a \<or> isInt b)"
  using assms
  by (cases a; cases b) (auto simp: max_type_def kind_preds Int_bits_def UInt_bits_def)

subsection \<open>Equality of types\<close>

lemma dim_eq_iff: "dim_eq a b \<longleftrightarrow> dim_size a = dim_size b"
  by (auto simp: dim_eq_def isFixed_def)

lemma shape_eq_from_iff:
  "n \<le> length a \<Longrightarrow> length a = length b \<Longrightarrow>
   shape_eq_from n a b \<longleftrightarrow> (\<forall>i. length a - n \<le> i \<and> i < length a \<longrightarrow> dim_size (a ! i) = dim_size (b ! i))"
proof (induction n a b rule: shape_eq_from.induct)
  case (1 a b)
  then show ?case by auto
next
  case (2 n a b)
  have "(\<forall>i. length a - Suc n \<le> i \<and> i < length a \<longrightarrow> dim_size (a ! i) = dim_size (b ! i)) \<longleftrightarrow>
    dim_size (a ! (length a - Suc n)) = dim_size (b ! (length a - Suc n)) \<and>
    (\<forall>i. length a - n \<le> i \<and> i < length a \<longrightarrow> dim_size (a ! i) = dim_size (b ! i))"
    (is "?all \<longleftrightarrow> ?hd \<and> ?tl")
  proof
    assume ?all
    then show "?hd \<and> ?tl" using "2.prems"(1) by auto
  next
    assume *: "?hd \<and> ?tl"
    show ?all
    proof (intro allI impI)
      fix i assume "length a - Suc n \<le> i \<and> i < length a"
      with * "2.prems"(1) show "dim_size (a ! i) = dim_size (b ! i)"
        by (cases "i = length a - Suc n") auto
    qed
  qed
  with 2 show ?case by (auto simp: Let_def dim_eq_iff)
qed

lemma shape_eq_iff: "shape_eq a b \<longleftrightarrow> map dim_size a = map dim_size b"
proof (cases "length a = length b")
  case True
  then show ?thesis
    using shape_eq_from_iff [of "length a" a b]
    by (auto simp: shape_eq_def list_eq_iff_nth_eq)
next
  case False
  then show ?thesis by (auto simp: shape_eq_def dest: map_eq_imp_length_eq)
qed

text \<open>Two tensor types are equal exactly when their component types and the sizes of all
  their dimensions agree, a variable dimension counting as size 0.\<close>

theorem type_eq_equivalence:
  "type_eq a b \<longleftrightarrow> dtype a = dtype b \<and> map dim_size (shape a) = map dim_size (shape b)"
  by (auto simp: type_eq_def shape_eq_iff)

subsection \<open>Printed names identify types\<close>

lemma show_nat_widths [simp]:
  "show_nat 8 = ''8''" "show_nat 16 = ''16''" "show_nat 32 = ''32''" "show_nat 64 = ''64''"
  "show_nat 128 = ''128''"
  by (simp_all add: show_nat.simps digit_char_def)

text \<open>(C32) Every component type prints, and no other type prints the same name.\<close>

theorem print_Datatype_injective:
  "(print_Datatype a = print_Datatype b) = (a = b) \<and> (\<exists>s. print_Datatype a = ok s)"
  by (cases a; cases b) (simp_all add: print_Datatype_def kind_preds)

end
