(* ===== verification/TypedValue.thy ===== *)
theory TypedValue
  imports Datatypes
begin

text \<open>
  Dynamically typed components: src/storage/typed_value.cpp and
  include/taco/storage/typed_value.h. A \<open>ComponentTypeUnion\<close> is 16 bytes of memory, read and
  written little-endian through the member of the component's kind; bytes that no member of the
  kind covers are never looked at, and a default-initialised union is modelled as zero.
  Floating-point and complex arithmetic and conversions on the bit patterns are the machine's: they
  are a parameter (\<open>fpu\<close>) of the operations that use them. \<open>uint128Value\<close> and \<open>int128Value\<close> are declared as
  64-bit members, and are modelled so.
\<close>

subsection \<open>The union\<close>

type_synonym component_union = "128 word"

record fpu =
  fp_add :: "Kind \<Rightarrow> int \<Rightarrow> int \<Rightarrow> int"
  fp_mul :: "Kind \<Rightarrow> int \<Rightarrow> int \<Rightarrow> int"
  fp_div :: "Kind \<Rightarrow> int \<Rightarrow> int \<Rightarrow> int"
  fp_neg :: "Kind \<Rightarrow> int \<Rightarrow> int"
  fp_sqrt :: "Kind \<Rightarrow> int \<Rightarrow> int"
  fp_conv :: "Kind \<Rightarrow> Kind \<Rightarrow> int \<Rightarrow> int"
  fp_of_int :: "Kind \<Rightarrow> int \<Rightarrow> int"
  fp_to_index :: "Kind \<Rightarrow> int \<Rightarrow> int"
  fp_gt :: "Kind \<Rightarrow> int \<Rightarrow> int \<Rightarrow> bool"
  fp_eq :: "Kind \<Rightarrow> int \<Rightarrow> int \<Rightarrow> bool"

fun member_bits :: "Kind \<Rightarrow> nat" where
  "member_bits Bool = 8"
| "member_bits UInt8 = 8"
| "member_bits UInt16 = 16"
| "member_bits UInt32 = 32"
| "member_bits UInt64 = 64"
| "member_bits UInt128 = 64"
| "member_bits Int8 = 8"
| "member_bits Int16 = 16"
| "member_bits Int32 = 32"
| "member_bits Int64 = 64"
| "member_bits Int128 = 64"
| "member_bits Float32 = 32"
| "member_bits Float64 = 64"
| "member_bits Complex64 = 64"
| "member_bits Complex128 = 128"
| "member_bits Undefined = 0"

definition read_bits :: "nat \<Rightarrow> component_union \<Rightarrow> int" where
  "read_bits n m = wrapU n (uint m)"

definition write_bits :: "nat \<Rightarrow> component_union \<Rightarrow> int \<Rightarrow> component_union" where
  "write_bits n m v = word_of_int (uint m div 2 ^ n * 2 ^ n + v mod 2 ^ n)"

text \<open>The value of the member of kind \<open>k\<close>, as the C++ code reads it: 0 or 1 for \<open>bool\<close>, a
  signed or unsigned integer, or a bit pattern.\<close>

definition member_get :: "Kind \<Rightarrow> component_union \<Rightarrow> int" where
  "member_get k m =
     (if k = Bool then (if read_bits 8 m = 0 then 0 else 1)
      else if isInt k then wrapS (member_bits k) (uint m)
      else read_bits (member_bits k) m)"

definition member_put :: "Kind \<Rightarrow> component_union \<Rightarrow> int \<Rightarrow> component_union" where
  "member_put k m v =
     write_bits (member_bits k) m (if k = Bool then (if v = 0 then 0 else 1) else v)"

text \<open>The result of storing an integer in the member: conversion to the member's type.\<close>

definition conv :: "Kind \<Rightarrow> int \<Rightarrow> int" where
  "conv k x =
     (if k = Bool then (if x = 0 then 0 else 1)
      else if isInt k then wrapS (member_bits k) x
      else wrapU (member_bits k) x)"

lemma member_bits_le: "member_bits k \<le> 128"
  by (cases k) simp_all

lemma member_bits_int: "isInt k \<Longrightarrow> 0 < member_bits k"
  by (auto simp: kind_preds)

lemma uint_write_bits:
  assumes "n \<le> 128"
  shows "uint (write_bits n m v) = uint m div 2 ^ n * 2 ^ n + v mod 2 ^ n"
proof -
  let ?z = "uint m div 2 ^ n * 2 ^ n + v mod 2 ^ n"
  have nonneg: "0 \<le> ?z" by (intro add_nonneg_nonneg mult_nonneg_nonneg) (simp_all add: pos_imp_zdiv_nonneg_iff)
  have pow: "(2::int) ^ 128 = 2 ^ (128 - n) * 2 ^ n"
    using assms by (simp flip: power_add)
  have "uint m < 2 ^ 128" using uint_lt2p [of m] by simp
  then have m: "uint m < 2 ^ (128 - n) * 2 ^ n" unfolding pow .
  have "uint m = uint m div 2 ^ n * 2 ^ n + uint m mod 2 ^ n" by (rule div_mult_mod_eq [symmetric])
  moreover have "0 \<le> uint m mod 2 ^ n" by simp
  ultimately have "uint m div 2 ^ n * 2 ^ n < 2 ^ (128 - n) * 2 ^ n" using m by linarith
  then have "uint m div 2 ^ n < 2 ^ (128 - n)" by simp
  then have "uint m div 2 ^ n + 1 \<le> 2 ^ (128 - n)" by linarith
  then have "(uint m div 2 ^ n + 1) * 2 ^ n \<le> 2 ^ (128 - n) * 2 ^ n"
    by (rule mult_right_mono) simp
  moreover have "v mod 2 ^ n < 2 ^ n" by simp
  ultimately have "?z < 2 ^ 128"
    unfolding pow by (simp only: distrib_right mult_1)
  with nonneg have "?z mod 2 ^ 128 = ?z" by (rule mod_pos_pos_trivial)
  then have "?z mod 2 ^ LENGTH(128) = ?z" by simp
  then show ?thesis
    unfolding write_bits_def uint_word_of_int .
qed

lemma read_write_bits: "n \<le> 128 \<Longrightarrow> read_bits n (write_bits n m v) = v mod 2 ^ n"
  by (simp add: read_bits_def uint_write_bits wrapU_def)

lemma write_bits_frame:
  "n \<le> 128 \<Longrightarrow> uint (write_bits n m v) div 2 ^ n = uint m div 2 ^ n"
  by (simp add: uint_write_bits div_add1_eq)

lemma write_bits_mod: "n \<le> 128 \<Longrightarrow> uint (write_bits n m v) mod 2 ^ n = v mod 2 ^ n"
  using read_write_bits [of n m v] by (simp only: read_bits_def wrapU_def)

lemma member_get_put_Bool: "member_get Bool (member_put Bool m v) = conv Bool v"
proof -
  have "read_bits 8 (write_bits 8 m w) = w mod 256" for w
    using read_write_bits [of 8 m w] by simp
  then show ?thesis by (simp add: member_get_def member_put_def conv_def)
qed

lemma member_get_put_other:
  assumes "k \<noteq> Bool" shows "member_get k (member_put k m v) = conv k v"
proof (cases "isInt k")
  case True
  have "wrapS (member_bits k) (uint (write_bits (member_bits k) m v)) = wrapS (member_bits k) v"
    by (rule wrapS_cong) (rule write_bits_mod [OF member_bits_le])
  with assms True show ?thesis by (simp add: member_get_def member_put_def conv_def)
next
  case False
  with assms show ?thesis
    by (simp add: member_get_def member_put_def conv_def read_write_bits [OF member_bits_le] wrapU_def)
qed

lemma member_get_put [simp]: "member_get k (member_put k m v) = conv k v"
  by (cases "k = Bool") (simp_all add: member_get_put_Bool member_get_put_other)

lemma member_put_frame:
  "uint (member_put k m v) div 2 ^ member_bits k = uint m div 2 ^ member_bits k"
  by (simp add: member_put_def write_bits_frame [OF member_bits_le])


subsection \<open>Wrap-around arithmetic as an interface\<close>

text \<open>What the constant folder and the index arithmetic rely on: converting an operand to the
  type before or after adding, subtracting or multiplying gives the same result. Everything else
  about modular arithmetic follows once, here.\<close>

locale wrap_arith =
  fixes cv :: "'k \<Rightarrow> int \<Rightarrow> int" and integral :: "'k \<Rightarrow> bool"
  assumes cv_add_left: "integral k \<Longrightarrow> cv k (cv k x + y) = cv k (x + y)"
    and cv_mul_left: "integral k \<Longrightarrow> cv k (cv k x * y) = cv k (x * y)"
begin

lemma cv_idem: "integral k \<Longrightarrow> cv k (cv k x) = cv k x"
  using cv_add_left [of k x 0] by simp

lemma cv_add_right: "integral k \<Longrightarrow> cv k (x + cv k y) = cv k (x + y)"
  using cv_add_left [of k y x] by (simp add: add.commute)

lemma cv_mul_right: "integral k \<Longrightarrow> cv k (x * cv k y) = cv k (x * y)"
  using cv_mul_left [of k y x] by (simp add: mult.commute)

lemma cv_neg: "integral k \<Longrightarrow> cv k (- cv k x) = cv k (- x)"
  using cv_mul_right [of k "-1" x] by simp

lemma cv_diff_left: "integral k \<Longrightarrow> cv k (cv k x - y) = cv k (x - y)"
  using cv_add_left [of k x "- y"] by simp

lemma cv_diff_right: "integral k \<Longrightarrow> cv k (x - cv k y) = cv k (x - y)"
  using cv_add_right [of k x "- cv k y"] cv_add_right [of k x "- y"] cv_neg [of k y] by simp

lemma cv_add_assoc: "integral k \<Longrightarrow> cv k (cv k (x + y) + z) = cv k (x + cv k (y + z))"
  by (simp add: cv_add_left cv_add_right add.assoc)

lemma cv_mul_assoc: "integral k \<Longrightarrow> cv k (cv k (x * y) * z) = cv k (x * cv k (y * z))"
  by (simp add: cv_mul_left cv_mul_right mult.assoc)

lemma cv_sub_add: "integral k \<Longrightarrow> cv k (cv k (x - y) + z) = cv k (x + cv k (z - y))"
  by (simp add: cv_add_left cv_add_right algebra_simps)

end

lemma conv_Int: "isInt k \<Longrightarrow> conv k x = wrapS (member_bits k) x"
  and conv_UInt: "isUInt k \<Longrightarrow> conv k x = wrapU (member_bits k) x"
  by (simp_all add: conv_def kclass_iff)

lemma conv_mod_cong:
  assumes "isIntegral k" "x mod 2 ^ member_bits k = y mod 2 ^ member_bits k"
  shows "conv k x = conv k y"
  using assms(1) wrapS_cong [OF assms(2)] wrapU_cong [OF assms(2)]
  by (auto simp: conv_Int conv_UInt isIntegral_def)

lemma conv_mod:
  assumes "isIntegral k" shows "conv k x mod 2 ^ member_bits k = x mod 2 ^ member_bits k"
  using assms wrapS_mod [of "member_bits k" x] wrapU_mod [of "member_bits k" x]
  by (auto simp: conv_Int conv_UInt isIntegral_def)

interpretation conv: wrap_arith conv isIntegral
proof unfold_locales
  fix k x y assume k: "isIntegral k"
  show "conv k (conv k x + y) = conv k (x + y)"
    by (rule conv_mod_cong [OF k]) (metis conv_mod [OF k] mod_add_left_eq)
  show "conv k (conv k x * y) = conv k (x * y)"
    by (rule conv_mod_cong [OF k]) (metis conv_mod [OF k] mod_mult_left_eq)
qed

lemma conv_range_Int:
  assumes "isInt k" shows "- (2 ^ (member_bits k - 1)) \<le> conv k x \<and> conv k x < 2 ^ (member_bits k - 1)"
  using wrapS_range [OF member_bits_int [OF assms]] by (simp add: conv_Int [OF assms])

lemma conv_range_UInt:
  assumes "isUInt k" shows "0 \<le> conv k x \<and> conv k x < 2 ^ member_bits k"
  using wrapU_range [of "member_bits k" x] by (simp add: conv_UInt [OF assms])

lemma conv_zero [simp]: "conv k 0 = 0"
  using member_bits_int by (auto simp: conv_def)

lemma conv_Bool [simp]: "conv Bool x = (if x = 0 then 0 else 1)"
  by (simp add: conv_def)

lemma conv_one: "isIntegral k \<Longrightarrow> conv k 1 = 1"
  by (cases k) (simp_all add: conv_def isIntegral_def kind_preds wrapS_def wrapU_def)

lemma member_get_conv: "member_get k m = conv k (member_get k m)"
proof (cases "isIntegral k")
  case True
  then show ?thesis
    by (auto simp: member_get_def conv_def read_bits_def isIntegral_def wrapS_mod
        intro: wrapS_cong [symmetric] simp: wrapU_def)
next
  case False
  then show ?thesis
    by (auto simp: member_get_def conv_def read_bits_def isIntegral_def wrapU_def)
qed

subsection \<open>Where C++ computes\<close>

text \<open>Operands narrower than \<open>int\<close> are promoted to it, those of the wider signed types are added in 64 bits; there an
  overflow is undefined, and is the failure \<open>Overflow\<close> here. The result is then converted to the member's type, modulo its width.
  The wider unsigned types compute modulo their width.\<close>

fun signed_bits :: "Kind \<Rightarrow> nat option" where
  "signed_bits Bool = Some 32"
| "signed_bits UInt8 = Some 32"
| "signed_bits UInt16 = Some 32"
| "signed_bits Int8 = Some 32"
| "signed_bits Int16 = Some 32"
| "signed_bits Int32 = Some 32"
| "signed_bits Int64 = Some 64"
| "signed_bits Int128 = Some 64"
| "signed_bits k = None"

definition overflows :: "Kind \<Rightarrow> int \<Rightarrow> bool" where
  "overflows k z \<longleftrightarrow> (case signed_bits k of None \<Rightarrow> False | Some n \<Rightarrow> z < - (2 ^ (n - 1)) \<or> 2 ^ (n - 1) \<le> z)"

definition put_result :: "Kind \<Rightarrow> component_union \<Rightarrow> int \<Rightarrow> component_union res" where
  "put_result k m z = assertR Overflow (\<not> overflows k z) (ok (member_put k m z))"

text \<open>What is left of the result is the result, for the signed types as wide as the computation.\<close>

lemma conv_not_overflowing: "k \<in> {Int32, Int64, Int128} \<Longrightarrow> \<not> overflows k z \<Longrightarrow> conv k z = z"
  by (auto simp: overflows_def conv_def kind_preds intro!: wrapS_id)

subsection \<open>TypedComponent\<close>

definition tc_getAsIndex :: "fpu \<Rightarrow> Datatype \<Rightarrow> component_union \<Rightarrow> int res" where
  "tc_getAsIndex F dType mem =
     (if isBool dType \<or> isUInt dType \<or> isInt dType then ok (wrapU 64 (member_get dType mem))
      else if isFloat dType then ok (fp_to_index F dType (member_get dType mem))
      else err IError)"

definition tc_set :: "Datatype \<Rightarrow> component_union \<Rightarrow> component_union \<Rightarrow> component_union res" where
  "tc_set dType mem v =
     (if dType = Undefined then err IError else ok (member_put dType mem (member_get dType v)))"

definition tc_setInt :: "fpu \<Rightarrow> Datatype \<Rightarrow> component_union \<Rightarrow> int \<Rightarrow> component_union res" where
  "tc_setInt F dType mem v =
     (if isBool dType \<or> isUInt dType \<or> isInt dType then ok (member_put dType mem v)
      else if isFloat dType \<or> isComplex dType then ok (member_put dType mem (fp_of_int F dType v))
      else err IError)"

definition tc_add ::
  "fpu \<Rightarrow> Datatype \<Rightarrow> component_union \<Rightarrow> component_union \<Rightarrow> component_union \<Rightarrow> component_union res" where
  "tc_add F dType result a b =
     (let x = member_get dType a; y = member_get dType b in
      if isBool dType \<or> isUInt dType \<or> isInt dType then put_result dType result (x + y)
      else if isFloat dType \<or> isComplex dType then ok (member_put dType result (fp_add F dType x y))
      else err IError)"

definition tc_addInt ::
  "fpu \<Rightarrow> Datatype \<Rightarrow> component_union \<Rightarrow> component_union \<Rightarrow> int \<Rightarrow> component_union res" where
  "tc_addInt F dType result a b =
     (let x = member_get dType a in
      if isBool dType then put_result dType result (x + (if b = 0 then 0 else 1))
      else if isUInt dType \<or> isInt dType then put_result dType result (x + b)
      else if isFloat dType \<or> isComplex dType
        then ok (member_put dType result (fp_add F dType x (fp_of_int F dType b)))
      else err IError)"

definition tc_negate ::
  "fpu \<Rightarrow> Datatype \<Rightarrow> component_union \<Rightarrow> component_union \<Rightarrow> component_union res" where
  "tc_negate F dType result a =
     (let x = member_get dType a in
      if isBool dType \<or> isUInt dType then err IError
      else if isInt dType then put_result dType result (- x)
      else if isFloat dType \<or> isComplex dType then ok (member_put dType result (fp_neg F dType x))
      else err IError)"

definition tc_multiply ::
  "fpu \<Rightarrow> Datatype \<Rightarrow> component_union \<Rightarrow> component_union \<Rightarrow> component_union \<Rightarrow> component_union res" where
  "tc_multiply F dType result a b =
     (let x = member_get dType a; y = member_get dType b in
      if isBool dType then ok (member_put dType result (if x \<noteq> 0 \<and> y \<noteq> 0 then 1 else 0))
      else if isUInt dType \<or> isInt dType then put_result dType result (x * y)
      else if isFloat dType \<or> isComplex dType then ok (member_put dType result (fp_mul F dType x y))
      else err IError)"

definition tc_multiplyInt ::
  "fpu \<Rightarrow> Datatype \<Rightarrow> component_union \<Rightarrow> component_union \<Rightarrow> int \<Rightarrow> component_union res" where
  "tc_multiplyInt F dType result a b =
     (let x = member_get dType a in
      if isBool dType then ok (member_put dType result (if x \<noteq> 0 \<and> b \<noteq> 0 then 1 else 0))
      else if isUInt dType \<or> isInt dType then put_result dType result (x * b)
      else if isFloat dType \<or> isComplex dType
        then ok (member_put dType result (fp_mul F dType x (fp_of_int F dType b)))
      else err IError)"


subsection \<open>TypedComponentVal\<close>

record TypedComponentVal =
  tc_type :: Datatype
  tc_val :: component_union

definition tcv_default :: TypedComponentVal where
  "tcv_default = \<lparr>tc_type = Undefined, tc_val = 0\<rparr>"

definition tcv_of_type :: "Datatype \<Rightarrow> TypedComponentVal" where
  "tcv_of_type t = \<lparr>tc_type = t, tc_val = 0\<rparr>"

definition tcv_const :: "fpu \<Rightarrow> Datatype \<Rightarrow> int \<Rightarrow> TypedComponentVal res" where
  "tcv_const F t c = bindR (tc_setInt F t 0 c) (\<lambda>u. ok \<lparr>tc_type = t, tc_val = u\<rparr>)"

definition tcv_getAsIndex :: "fpu \<Rightarrow> TypedComponentVal \<Rightarrow> int res" where
  "tcv_getAsIndex F v = tc_getAsIndex F (tc_type v) (tc_val v)"

definition tcv_set :: "TypedComponentVal \<Rightarrow> TypedComponentVal \<Rightarrow> TypedComponentVal res" where
  "tcv_set v w =
     assertR IAssert (tc_type v = tc_type w)
       (bindR (tc_set (tc_type v) (tc_val v) (tc_val w)) (\<lambda>u. ok (v\<lparr>tc_val := u\<rparr>)))"

definition tcv_setInt :: "fpu \<Rightarrow> TypedComponentVal \<Rightarrow> int \<Rightarrow> TypedComponentVal res" where
  "tcv_setInt F v c = bindR (tc_setInt F (tc_type v) (tc_val v) c) (\<lambda>u. ok (v\<lparr>tc_val := u\<rparr>))"

definition tcv_add :: "fpu \<Rightarrow> TypedComponentVal \<Rightarrow> TypedComponentVal \<Rightarrow> TypedComponentVal res" where
  "tcv_add F v w =
     assertR IAssert (tc_type v = tc_type w)
       (bindR (tc_add F (tc_type v) (tc_val (tcv_of_type (tc_type v))) (tc_val v) (tc_val w))
         (\<lambda>u. ok \<lparr>tc_type = tc_type v, tc_val = u\<rparr>))"

definition tcv_neg :: "fpu \<Rightarrow> TypedComponentVal \<Rightarrow> TypedComponentVal res" where
  "tcv_neg F v =
     bindR (tc_negate F (tc_type v) (tc_val (tcv_of_type (tc_type v))) (tc_val v))
       (\<lambda>u. ok \<lparr>tc_type = tc_type v, tc_val = u\<rparr>)"

definition tcv_sub :: "fpu \<Rightarrow> TypedComponentVal \<Rightarrow> TypedComponentVal \<Rightarrow> TypedComponentVal res" where
  "tcv_sub F v w =
     assertR IAssert (tc_type v = tc_type w)
       (if isUInt (tc_type v)
        then ok \<lparr>tc_type = tc_type v,
                 tc_val = member_put (tc_type v) (tc_val (tcv_of_type (tc_type v)))
                   (member_get (tc_type v) (tc_val v) - member_get (tc_type v) (tc_val w))\<rparr>
        else bindR (tcv_neg F w) (\<lambda>n. tcv_add F n v))"

definition tcv_mul :: "fpu \<Rightarrow> TypedComponentVal \<Rightarrow> TypedComponentVal \<Rightarrow> TypedComponentVal res" where
  "tcv_mul F v w =
     assertR IAssert (tc_type v = tc_type w)
       (bindR (tc_multiply F (tc_type v) (tc_val (tcv_of_type (tc_type v))) (tc_val v) (tc_val w))
         (\<lambda>u. ok \<lparr>tc_type = tc_type v, tc_val = u\<rparr>))"

definition tcv_addInt :: "fpu \<Rightarrow> TypedComponentVal \<Rightarrow> int \<Rightarrow> TypedComponentVal res" where
  "tcv_addInt F v c =
     bindR (tc_addInt F (tc_type v) (tc_val (tcv_of_type (tc_type v))) (tc_val v) c)
       (\<lambda>u. ok \<lparr>tc_type = tc_type v, tc_val = u\<rparr>)"

definition tcv_mulInt :: "fpu \<Rightarrow> TypedComponentVal \<Rightarrow> int \<Rightarrow> TypedComponentVal res" where
  "tcv_mulInt F v c =
     bindR (tc_multiplyInt F (tc_type v) (tc_val (tcv_of_type (tc_type v))) (tc_val v) c)
       (\<lambda>u. ok \<lparr>tc_type = tc_type v, tc_val = u\<rparr>)"

text \<open>The increment operators return a value and leave the object in a state:
  \<open>(returned, object)\<close>.\<close>

definition tcv_preinc :: "fpu \<Rightarrow> TypedComponentVal \<Rightarrow> (TypedComponentVal \<times> TypedComponentVal) res" where
  "tcv_preinc F v =
     bindR (tcv_addInt F v 1) (\<lambda>s. bindR (tcv_set v s) (\<lambda>v'. ok (v, v')))"

definition tcv_postinc :: "fpu \<Rightarrow> TypedComponentVal \<Rightarrow> (TypedComponentVal \<times> TypedComponentVal) res" where
  "tcv_postinc F v =
     bindR (tcv_addInt F v 1) (\<lambda>s. bindR (tcv_set v s) (\<lambda>v'. ok (v', v')))"

subsection \<open>TypedComponentPtr\<close>

record TypedComponentPtr =
  tp_type :: Datatype
  tp_addr :: int

definition tcp_plus :: "TypedComponentPtr \<Rightarrow> int \<Rightarrow> TypedComponentPtr res" where
  "tcp_plus p n =
     bindR (getNumBytes (tp_type p)) (\<lambda>b. ok (p\<lparr>tp_addr := tp_addr p + n * b\<rparr>))"

subsection \<open>Comparisons\<close>

definition tcv_gt :: "fpu \<Rightarrow> TypedComponentVal \<Rightarrow> TypedComponentVal \<Rightarrow> bool res" where
  "tcv_gt F a b =
     assertR IAssert (tc_type a = tc_type b)
       (let t = tc_type a; x = member_get t (tc_val a); y = member_get t (tc_val b) in
        if isBool t \<or> isUInt t \<or> isInt t then ok (x > y)
        else if isFloat t then ok (fp_gt F t x y)
        else err IError)"

definition tcv_eq :: "fpu \<Rightarrow> TypedComponentVal \<Rightarrow> TypedComponentVal \<Rightarrow> bool res" where
  "tcv_eq F a b =
     assertR IAssert (tc_type a = tc_type b)
       (let t = tc_type a; x = member_get t (tc_val a); y = member_get t (tc_val b) in
        if isBool t \<or> isUInt t \<or> isInt t then ok (x = y)
        else if isFloat t then ok (fp_eq F t x y)
        else err IError)"

definition tcv_ge :: "fpu \<Rightarrow> TypedComponentVal \<Rightarrow> TypedComponentVal \<Rightarrow> bool res" where
  "tcv_ge F a b = bindR (tcv_gt F a b) (\<lambda>g. if g then ok True else tcv_eq F a b)"

definition tcv_lt :: "fpu \<Rightarrow> TypedComponentVal \<Rightarrow> TypedComponentVal \<Rightarrow> bool res" where
  "tcv_lt F a b = bindR (tcv_ge F a b) (\<lambda>g. ok (\<not> g))"

definition tcv_le :: "fpu \<Rightarrow> TypedComponentVal \<Rightarrow> TypedComponentVal \<Rightarrow> bool res" where
  "tcv_le F a b = bindR (tcv_gt F a b) (\<lambda>g. ok (\<not> g))"

definition tcv_neq :: "fpu \<Rightarrow> TypedComponentVal \<Rightarrow> TypedComponentVal \<Rightarrow> bool res" where
  "tcv_neq F a b = bindR (tcv_eq F a b) (\<lambda>g. ok (\<not> g))"

text \<open>Against a C++ \<open>int\<close>: the unsigned members are first cast to \<open>signed\<close>, that is to 32 bits.\<close>

definition tcv_gt_int :: "fpu \<Rightarrow> TypedComponentVal \<Rightarrow> int \<Rightarrow> bool res" where
  "tcv_gt_int F a c =
     (let t = tc_type a; x = member_get t (tc_val a) in
      if isUInt t then ok (wrapS 32 x > c)
      else if isBool t \<or> isInt t then ok (x > c)
      else if isFloat t then ok (fp_gt F t x (fp_of_int F t c))
      else err IError)"

definition tcv_eq_int :: "fpu \<Rightarrow> TypedComponentVal \<Rightarrow> int \<Rightarrow> bool res" where
  "tcv_eq_int F a c =
     (let t = tc_type a; x = member_get t (tc_val a) in
      if isUInt t then ok (wrapS 32 x = c)
      else if isBool t \<or> isInt t then ok (x = c)
      else if isFloat t then ok (fp_eq F t x (fp_of_int F t c))
      else err IError)"

definition tcv_ge_int :: "fpu \<Rightarrow> TypedComponentVal \<Rightarrow> int \<Rightarrow> bool res" where
  "tcv_ge_int F a c = bindR (tcv_gt_int F a c) (\<lambda>g. if g then ok True else tcv_eq_int F a c)"

definition tcv_lt_int :: "fpu \<Rightarrow> TypedComponentVal \<Rightarrow> int \<Rightarrow> bool res" where
  "tcv_lt_int F a c = bindR (tcv_ge_int F a c) (\<lambda>g. ok (\<not> g))"

definition tcv_le_int :: "fpu \<Rightarrow> TypedComponentVal \<Rightarrow> int \<Rightarrow> bool res" where
  "tcv_le_int F a c = bindR (tcv_gt_int F a c) (\<lambda>g. ok (\<not> g))"

definition tcv_neq_int :: "fpu \<Rightarrow> TypedComponentVal \<Rightarrow> int \<Rightarrow> bool res" where
  "tcv_neq_int F a c = bindR (tcv_eq_int F a c) (\<lambda>g. ok (\<not> g))"

subsection \<open>Functional behaviour\<close>

definition tc_value :: "TypedComponentVal \<Rightarrow> int" where
  "tc_value v = member_get (tc_type v) (tc_val v)"

lemma tc_value_conv: "tc_value v = conv (tc_type v) (tc_value v)"
  unfolding tc_value_def by (rule member_get_conv)

text \<open>On integers, unless the computation overflows, the result is the integer one reduced to the width of the type.\<close>

lemma put_result_value:
  "put_result k m z = (if overflows k z then err Overflow else ok (member_put k m z))"
  by (simp add: put_result_def assertR_def)

lemma tcv_add_integral:
  assumes "isIntegral (tc_type a)" "tc_type a = tc_type b"
  shows "if overflows (tc_type a) (tc_value a + tc_value b) then tcv_add F a b = err Overflow
    else \<exists>r. tcv_add F a b = ok r \<and> tc_type r = tc_type a \<and> tc_value r = conv (tc_type a) (tc_value a + tc_value b)"
  using assms by (auto simp: tcv_add_def tc_add_def tc_value_def put_result_value Let_def kclass_iff)

lemma tcv_mul_integral:
  assumes "isIntegral (tc_type a)" "tc_type a = tc_type b"
  shows "if overflows (tc_type a) (tc_value a * tc_value b) then tcv_mul F a b = err Overflow
    else \<exists>r. tcv_mul F a b = ok r \<and> tc_type r = tc_type a \<and> tc_value r = conv (tc_type a) (tc_value a * tc_value b)"
  using assms by (auto simp: tcv_mul_def tc_multiply_def tc_value_def put_result_value Let_def kclass_iff)

lemma tcv_neg_integral:
  assumes "isInt (tc_type a)"
  shows "if overflows (tc_type a) (- tc_value a) then tcv_neg F a = err Overflow
    else \<exists>r. tcv_neg F a = ok r \<and> tc_type r = tc_type a \<and> tc_value r = conv (tc_type a) (- tc_value a)"
  using assms by (auto simp: tcv_neg_def tc_negate_def tc_value_def put_result_value Let_def kclass_iff)

text \<open>Signed subtraction adds the negated operand: it overflows where the negation does, too.\<close>

lemma tcv_sub_integral:
  assumes "isIntegral (tc_type a)" "tc_type a = tc_type b"
  shows "tcv_sub F a b = err Overflow \<and> isInt (tc_type a) \<or>
    (\<exists>r. tcv_sub F a b = ok r \<and> tc_type r = tc_type a \<and> tc_value r = conv (tc_type a) (tc_value a - tc_value b))"
proof (cases "isUInt (tc_type a)")
  case True
  then show ?thesis using assms by (simp add: tcv_sub_def tc_value_def)
next
  case False
  then have i: "isInt (tc_type b)" using assms by (simp add: kclass_iff)
  show ?thesis
  proof (cases "overflows (tc_type b) (- tc_value b)")
    case True
    then show ?thesis using tcv_neg_integral [OF i, of F] False i assms by (simp add: tcv_sub_def)
  next
    case no: False
    obtain n where n: "tcv_neg F b = ok n" "tc_type n = tc_type b" "tc_value n = conv (tc_type b) (- tc_value b)"
      using tcv_neg_integral [OF i, of F] no by auto
    have "tcv_add F n a = err Overflow \<or>
        (\<exists>r. tcv_add F n a = ok r \<and> tc_type r = tc_type n \<and> tc_value r = conv (tc_type n) (tc_value n + tc_value a))"
      using tcv_add_integral [of n a F] assms n(2) i by (auto simp: kclass_iff split: if_splits)
    with n False i assms show ?thesis
      by (auto simp: tcv_sub_def conv.cv_add_left)
  qed
qed

text \<open>A concrete machine whose floating-point unit does nothing, for closed examples.\<close>

definition fpu_null :: fpu where
  "fpu_null = \<lparr>fp_add = (\<lambda>k x y. 0), fp_mul = (\<lambda>k x y. 0), fp_div = (\<lambda>k x y. 0),
     fp_neg = (\<lambda>k x. 0), fp_sqrt = (\<lambda>k x. 0), fp_conv = (\<lambda>k k' x. 0),
     fp_of_int = (\<lambda>k x. 0), fp_to_index = (\<lambda>k x. 0), fp_gt = (\<lambda>k x y. False), fp_eq = (\<lambda>k x y. False)\<rparr>"

definition tcv_int :: "Datatype \<Rightarrow> int \<Rightarrow> TypedComponentVal" where
  "tcv_int t x = \<lparr>tc_type = t, tc_val = member_put t 0 x\<rparr>"

lemma tcv_int_type [simp]: "tc_type (tcv_int t x) = t"
  by (simp add: tcv_int_def)

lemma tcv_int_value [simp]: "tc_value (tcv_int t x) = conv t x"
  by (simp add: tc_value_def tcv_int_def)

subsection \<open>Properties\<close>

text \<open>A difference that is an \<open>int\<close> may not be computed: the least \<open>int\<close> has no negation.\<close>

lemma tcv_sub_least:
  "tcv_sub F (tcv_int Int32 (-1)) (tcv_int Int32 (- (2 ^ 31))) = err Overflow" "\<not> overflows Int32 (-1 - (- (2 ^ 31)))"
proof -
  have "tc_value (tcv_int Int32 (- (2 ^ 31))) = - (2 ^ 31)" by (simp add: conv_def kind_preds wrapS_def)
  then have "overflows Int32 (- tc_value (tcv_int Int32 (- (2 ^ 31))))" unfolding overflows_def by simp
  then have "tcv_neg F (tcv_int Int32 (- (2 ^ 31))) = err Overflow"
    using tcv_neg_integral [of "tcv_int Int32 (- (2 ^ 31))" F] by (simp add: kind_preds)
  then show "tcv_sub F (tcv_int Int32 (-1)) (tcv_int Int32 (- (2 ^ 31))) = err Overflow"
    by (simp add: tcv_sub_def assertR_def kind_preds)
  show "\<not> overflows Int32 (-1 - (- (2 ^ 31)))" by (simp add: overflows_def)
qed

text \<open>(C28) Storing through the typed interface writes only the bytes of the component's type: the
  rest of the union is unchanged, and the value read back is the stored one converted to the type.\<close>

theorem tc_store_frame:
  assumes "tc_setInt F k m v = ok m' \<or> tc_set k m w = ok m'"
  shows "uint m' div 2 ^ member_bits k = uint m div 2 ^ member_bits k \<and>
    (tc_set k m w = ok m' \<longrightarrow> member_get k m' = member_get k w) \<and>
    (tc_setInt F k m v = ok m' \<and> isIntegral k \<longrightarrow> member_get k m' = conv k v)"
proof -
  have "\<exists>x. m' = member_put k m x"
    using assms by (auto simp: tc_setInt_def tc_set_def split: if_splits)
  moreover have "tc_set k m w = ok m' \<Longrightarrow> member_get k m' = member_get k w"
    by (auto simp: tc_set_def member_get_conv [symmetric] split: if_splits)
  moreover have "tc_setInt F k m v = ok m' \<Longrightarrow> isIntegral k \<Longrightarrow> member_get k m' = conv k v"
    by (auto simp: tc_setInt_def isIntegral_def split: if_splits)
  ultimately show ?thesis by (auto simp: member_put_frame)
qed

theorem tc_store_frame_witness:
  "uint (member_put Int16 (-1) 7) div 2 ^ 16 = uint (-1 :: component_union) div 2 ^ 16"
  using tc_store_frame [of fpu_null Int16 "-1" 7 "member_put Int16 (-1) 7" 0]
  by (simp add: tc_setInt_def kind_preds)

text \<open>On integer and boolean components the six comparison operators, which are all derived
  from \<open>>\<close> and \<open>==\<close>, are the comparisons of the represented integers.\<close>

theorem tcv_compare_integral:
  assumes "isIntegral t \<or> isBool t" "tc_type a = t" "tc_type b = t"
  shows "tcv_gt F a b = ok (tc_value a > tc_value b) \<and> tcv_ge F a b = ok (tc_value a \<ge> tc_value b) \<and>
    tcv_lt F a b = ok (tc_value a < tc_value b) \<and> tcv_le F a b = ok (tc_value a \<le> tc_value b) \<and>
    tcv_eq F a b = ok (tc_value a = tc_value b) \<and> tcv_neq F a b = ok (tc_value a \<noteq> tc_value b)"
proof -
  have gt: "tcv_gt F a b = ok (tc_value a > tc_value b)"
    using assms by (auto simp: tcv_gt_def tc_value_def isIntegral_def Let_def)
  have eq: "tcv_eq F a b = ok (tc_value a = tc_value b)"
    using assms by (auto simp: tcv_eq_def tc_value_def isIntegral_def Let_def)
  show ?thesis
    by (auto simp: gt eq tcv_ge_def tcv_lt_def tcv_le_def tcv_neq_def)
qed

theorem tcv_compare_integral_witness:
  "tcv_lt fpu_null (tcv_int Int8 (-3)) (tcv_int Int8 5) = ok True"
  using tcv_compare_integral [of Int8 "tcv_int Int8 (-3)" "tcv_int Int8 5" fpu_null]
  by (simp add: isIntegral_def kind_preds conv_def wrapS_def)

text \<open>(C30) On floating-point components that are unordered (neither greater nor equal, a NaN), the
  derived operators \<open><\<close> and \<open><=\<close> both answer true, although IEEE comparison answers false.\<close>

theorem tcv_compare_unordered:
  assumes "isFloat t" "tc_type a = t" "tc_type b = t"
    "\<not> fp_gt F t (tc_value a) (tc_value b)" "\<not> fp_eq F t (tc_value a) (tc_value b)"
  shows "tcv_lt F a b = ok True \<and> tcv_le F a b = ok True \<and> tcv_ge F a b = ok False \<and> tcv_gt F a b = ok False"
proof -
  have gt: "tcv_gt F a b = ok False"
    using assms by (auto simp: tcv_gt_def tc_value_def kind_preds Let_def)
  have eq: "tcv_eq F a b = ok False"
    using assms by (auto simp: tcv_eq_def tc_value_def kind_preds Let_def)
  show ?thesis by (simp add: gt eq tcv_ge_def tcv_lt_def tcv_le_def)
qed

theorem tcv_compare_unordered_witness:
  "tcv_lt fpu_null (tcv_int Float64 1) (tcv_int Float64 1) = ok True"
  using tcv_compare_unordered [of Float64 "tcv_int Float64 1" "tcv_int Float64 1" fpu_null]
  by (simp add: kind_preds fpu_null_def)

text \<open>(C31) The comparison \<open>>\<close> of an unsigned component with a C++ \<open>int\<close> is right for every such \<open>int\<close> exactly
  when the component's value fits in 31 bits; larger values are truncated by the cast to
  \<open>signed\<close> before the comparison.\<close>

theorem tcv_gt_int_unsigned:
  assumes "isUInt (tc_type a)"
  shows "(\<forall>c. - (2 ^ 31) \<le> c \<and> c < 2 ^ 31 \<longrightarrow> tcv_gt_int F a c = ok (tc_value a > c)) \<longleftrightarrow> tc_value a < 2 ^ 31"
proof -
  have gt: "tcv_gt_int F a c = ok (wrapS 32 (tc_value a) > c)" for c
    using assms by (simp add: tcv_gt_int_def tc_value_def Let_def)
  have nonneg: "0 \<le> tc_value a"
    using conv_range_UInt [OF assms, of "tc_value a"] tc_value_conv [of a] by simp
  show ?thesis
  proof (cases "tc_value a < 2 ^ 31")
    case True
    then have "wrapS 32 (tc_value a) = tc_value a"
      using nonneg by (intro wrapS_id) simp_all
    with True show ?thesis by (simp add: gt)
  next
    case False
    moreover have "wrapS 32 (tc_value a) < 2 ^ 31"
      using wrapS_range [of 32 "tc_value a"] by simp
    ultimately have "tcv_gt_int F a (2 ^ 31 - 1) \<noteq> ok (tc_value a > 2 ^ 31 - 1)"
      by (simp add: gt)
    moreover have "- (2 ^ 31) \<le> (2 ^ 31 - 1 :: int) \<and> (2 ^ 31 - 1 :: int) < 2 ^ 31" by simp
    ultimately show ?thesis using False by blast
  qed
qed

theorem tcv_gt_int_unsigned_witness:
  "\<exists>c\<ge>- 2147483648. c < 2147483648 \<and> tcv_gt_int fpu_null (tcv_int UInt64 4294967296) c \<noteq> ok (c < 4294967296)"
  using tcv_gt_int_unsigned [of "tcv_int UInt64 4294967296" fpu_null]
  by (auto simp: kind_preds conv_def wrapU_def)

text \<open>The increment operators add one modulo the width, or overflow; the prefix form returns the value before
  the increment and the postfix form the value after it.\<close>

theorem tcv_increments:
  assumes "isIntegral (tc_type v)" "\<not> overflows (tc_type v) (tc_value v + 1)"
  shows "\<exists>s. tcv_preinc F v = ok (v, s) \<and> tcv_postinc F v = ok (s, s) \<and> tc_type s = tc_type v \<and>
    tc_value s = conv (tc_type v) (tc_value v + 1)"
  using assms
  by (auto simp: tcv_preinc_def tcv_postinc_def tcv_addInt_def tc_addInt_def tcv_set_def tc_set_def put_result_value
      tc_value_def Let_def kclass_iff conv.cv_idem)

theorem tcv_increments_witness:
  "\<exists>s. tcv_preinc fpu_null (tcv_int UInt8 255) = ok (tcv_int UInt8 255, s) \<and> tc_value s = 0"
  using tcv_increments [of "tcv_int UInt8 255" fpu_null]
  by (auto simp: isIntegral_def kind_preds conv_def wrapU_def overflows_def)

end
