(* ===== verification/TypedIndex.thy ===== *)
theory TypedIndex
  imports TypedValue
begin

text \<open>
  Dynamically typed indices (src/storage/typed_index.cpp, include/taco/storage/typed_index.h): like typed
  components, but in a union of 8 bytes, and only for the integer kinds of at most 64 bits.
\<close>

subsection \<open>The union\<close>

type_synonym index_union = "64 word"

text \<open>Its members are those of the low half of a component union.\<close>

definition im_get :: "Kind \<Rightarrow> index_union \<Rightarrow> int" where
  "im_get k m = member_get k (ucast m)"

definition im_put :: "Kind \<Rightarrow> index_union \<Rightarrow> int \<Rightarrow> index_union" where
  "im_put k m v = ucast (member_put k (ucast m) v)"

definition is_index_kind :: "Kind \<Rightarrow> bool" where
  "is_index_kind k \<longleftrightarrow> k \<in> {UInt8, UInt16, UInt32, UInt64, Int8, Int16, Int32, Int64}"

lemma index_kind_cases [case_names UInt8 UInt16 UInt32 UInt64 Int8 Int16 Int32 Int64]:
  "is_index_kind k \<Longrightarrow> (k = UInt8 \<Longrightarrow> P) \<Longrightarrow> (k = UInt16 \<Longrightarrow> P) \<Longrightarrow> (k = UInt32 \<Longrightarrow> P) \<Longrightarrow> (k = UInt64 \<Longrightarrow> P) \<Longrightarrow>
    (k = Int8 \<Longrightarrow> P) \<Longrightarrow> (k = Int16 \<Longrightarrow> P) \<Longrightarrow> (k = Int32 \<Longrightarrow> P) \<Longrightarrow> (k = Int64 \<Longrightarrow> P) \<Longrightarrow> P"
  by (auto simp: is_index_kind_def)

lemma index_kind_integral: "is_index_kind k \<Longrightarrow> isIntegral k \<and> k \<noteq> Bool"
  by (erule index_kind_cases) (simp_all add: isIntegral_def kind_preds)

lemma index_kind_bits: "is_index_kind k \<Longrightarrow> member_bits k \<le> 64 \<and> 0 < member_bits k"
  by (erule index_kind_cases) simp_all

lemma uint_ucast_64_128 [simp]: "uint (ucast (m :: 64 word) :: 128 word) = uint m"
proof -
  have "uint m < 2 ^ 64" using uint_lt2p [of m] by simp
  then show ?thesis by (simp add: unsigned_ucast_eq take_bit_int_eq_self)
qed

lemma im_get_wrap:
  "is_index_kind k \<Longrightarrow> im_get k m = conv k (uint m)"
  using index_kind_integral [of k] by (simp add: im_get_def member_get_def conv_def read_bits_def)

lemma im_get_put:
  assumes "is_index_kind k" shows "im_get k (im_put k m v) = conv k v"
proof -
  let ?w = "member_put k (ucast m) v :: 128 word"
  have n: "member_bits k \<le> 64" using index_kind_bits [OF assms] by simp
  have "uint (ucast ?w :: 64 word) mod 2 ^ member_bits k = uint ?w mod 2 ^ member_bits k"
  proof -
    have "(2::int) ^ member_bits k dvd 2 ^ 64" by (rule le_imp_power_dvd) (rule n)
    then have "uint ?w mod 2 ^ 64 mod 2 ^ member_bits k = uint ?w mod 2 ^ member_bits k" by (rule mod_mod_cancel)
    then show ?thesis by (simp add: unsigned_ucast_eq take_bit_eq_mod)
  qed
  then have "conv k (uint (ucast ?w :: 64 word)) = conv k (uint ?w)"
    by (intro conv_mod_cong) (use index_kind_integral [OF assms] in auto)
  also have "\<dots> = member_get k ?w"
    using index_kind_integral [OF assms] by (simp add: member_get_def conv_def read_bits_def)
  finally show ?thesis by (simp add: im_put_def im_get_wrap [OF assms])
qed

subsection \<open>TypedIndex\<close>

definition ti_getAsIndex :: "Datatype \<Rightarrow> index_union \<Rightarrow> int res" where
  "ti_getAsIndex dType mem =
     (if is_index_kind dType then ok (wrapU 64 (im_get dType mem)) else err IError)"

definition ti_set :: "Datatype \<Rightarrow> index_union \<Rightarrow> index_union \<Rightarrow> index_union res" where
  "ti_set dType mem v = (if is_index_kind dType then ok (im_put dType mem (im_get dType v)) else err IError)"

definition ti_setInt :: "Datatype \<Rightarrow> index_union \<Rightarrow> int \<Rightarrow> index_union res" where
  "ti_setInt dType mem v = (if is_index_kind dType then ok (im_put dType mem v) else err IError)"

text \<open>Signed computations that overflow fail, as those of components do.\<close>

definition put_index :: "Datatype \<Rightarrow> index_union \<Rightarrow> int \<Rightarrow> index_union res" where
  "put_index dType m z = assertR Overflow (\<not> overflows dType z) (ok (im_put dType m z))"

definition ti_add :: "Datatype \<Rightarrow> index_union \<Rightarrow> index_union \<Rightarrow> index_union \<Rightarrow> index_union res" where
  "ti_add dType result a b =
     (if is_index_kind dType then put_index dType result (im_get dType a + im_get dType b) else err IError)"

definition ti_addInt :: "Datatype \<Rightarrow> index_union \<Rightarrow> index_union \<Rightarrow> int \<Rightarrow> index_union res" where
  "ti_addInt dType result a b =
     (if is_index_kind dType then put_index dType result (im_get dType a + b) else err IError)"

definition ti_multiply :: "Datatype \<Rightarrow> index_union \<Rightarrow> index_union \<Rightarrow> index_union \<Rightarrow> index_union res" where
  "ti_multiply dType result a b =
     (if is_index_kind dType then put_index dType result (im_get dType a * im_get dType b) else err IError)"

definition ti_multiplyInt :: "Datatype \<Rightarrow> index_union \<Rightarrow> index_union \<Rightarrow> int \<Rightarrow> index_union res" where
  "ti_multiplyInt dType result a b =
     (if is_index_kind dType then put_index dType result (im_get dType a * b) else err IError)"

subsection \<open>TypedIndexVal\<close>

record TypedIndexVal =
  ti_type :: Datatype
  ti_val :: index_union

definition tiv_default :: TypedIndexVal where
  "tiv_default = \<lparr>ti_type = Undefined, ti_val = 0\<rparr>"

definition tiv_of_type :: "Datatype \<Rightarrow> TypedIndexVal" where
  "tiv_of_type t = \<lparr>ti_type = t, ti_val = 0\<rparr>"

definition tiv_const :: "Datatype \<Rightarrow> int \<Rightarrow> TypedIndexVal res" where
  "tiv_const t c = bindR (ti_setInt t 0 c) (\<lambda>u. ok \<lparr>ti_type = t, ti_val = u\<rparr>)"

definition tiv_getAsIndex :: "TypedIndexVal \<Rightarrow> int res" where
  "tiv_getAsIndex v = ti_getAsIndex (ti_type v) (ti_val v)"

definition tiv_set :: "TypedIndexVal \<Rightarrow> TypedIndexVal \<Rightarrow> TypedIndexVal res" where
  "tiv_set v w =
     assertR IAssert (ti_type v = ti_type w)
       (bindR (ti_set (ti_type v) (ti_val v) (ti_val w)) (\<lambda>u. ok (v\<lparr>ti_val := u\<rparr>)))"

definition tiv_setInt :: "TypedIndexVal \<Rightarrow> int \<Rightarrow> TypedIndexVal res" where
  "tiv_setInt v c = bindR (ti_setInt (ti_type v) (ti_val v) c) (\<lambda>u. ok (v\<lparr>ti_val := u\<rparr>))"

text \<open>From a component: its type is taken over.\<close>

definition tiv_setComponent :: "TypedIndexVal \<Rightarrow> TypedComponentVal \<Rightarrow> TypedIndexVal res" where
  "tiv_setComponent v w =
     (let t = tc_type w in
      if is_index_kind t then ok \<lparr>ti_type = t, ti_val = im_put t (ti_val v) (member_get t (tc_val w))\<rparr>
      else err IError)"

definition tiv_add :: "TypedIndexVal \<Rightarrow> TypedIndexVal \<Rightarrow> TypedIndexVal res" where
  "tiv_add v w =
     assertR IAssert (ti_type v = ti_type w)
       (bindR (ti_add (ti_type v) (ti_val (tiv_of_type (ti_type v))) (ti_val v) (ti_val w))
         (\<lambda>u. ok \<lparr>ti_type = ti_type v, ti_val = u\<rparr>))"

definition tiv_mul :: "TypedIndexVal \<Rightarrow> TypedIndexVal \<Rightarrow> TypedIndexVal res" where
  "tiv_mul v w =
     assertR IAssert (ti_type v = ti_type w)
       (bindR (ti_multiply (ti_type v) (ti_val (tiv_of_type (ti_type v))) (ti_val v) (ti_val w))
         (\<lambda>u. ok \<lparr>ti_type = ti_type v, ti_val = u\<rparr>))"

definition tiv_addInt :: "TypedIndexVal \<Rightarrow> int \<Rightarrow> TypedIndexVal res" where
  "tiv_addInt v c =
     bindR (ti_addInt (ti_type v) (ti_val (tiv_of_type (ti_type v))) (ti_val v) c)
       (\<lambda>u. ok \<lparr>ti_type = ti_type v, ti_val = u\<rparr>)"

definition tiv_mulInt :: "TypedIndexVal \<Rightarrow> int \<Rightarrow> TypedIndexVal res" where
  "tiv_mulInt v c =
     bindR (ti_multiplyInt (ti_type v) (ti_val (tiv_of_type (ti_type v))) (ti_val v) c)
       (\<lambda>u. ok \<lparr>ti_type = ti_type v, ti_val = u\<rparr>)"

text \<open>\<open>(returned, object)\<close>, as for components: prefix returns the old value, postfix the new one.\<close>

definition tiv_preinc :: "TypedIndexVal \<Rightarrow> (TypedIndexVal \<times> TypedIndexVal) res" where
  "tiv_preinc v = bindR (tiv_addInt v 1) (\<lambda>s. bindR (tiv_set v s) (\<lambda>v'. ok (v, v')))"

definition tiv_postinc :: "TypedIndexVal \<Rightarrow> (TypedIndexVal \<times> TypedIndexVal) res" where
  "tiv_postinc v = bindR (tiv_addInt v 1) (\<lambda>s. bindR (tiv_set v s) (\<lambda>v'. ok (v', v')))"

subsection \<open>TypedIndexPtr\<close>

record TypedIndexPtr =
  tip_type :: Datatype
  tip_addr :: int

definition tip_plus :: "TypedIndexPtr \<Rightarrow> int \<Rightarrow> TypedIndexPtr res" where
  "tip_plus p n =
     bindR (getNumBytes (tip_type p)) (\<lambda>b. ok (p\<lparr>tip_addr := tip_addr p + n * b\<rparr>))"

subsection \<open>Comparisons\<close>

definition tiv_gt :: "TypedIndexVal \<Rightarrow> TypedIndexVal \<Rightarrow> bool res" where
  "tiv_gt a b =
     assertR IAssert (ti_type a = ti_type b)
       (if is_index_kind (ti_type a)
        then ok (im_get (ti_type a) (ti_val a) > im_get (ti_type a) (ti_val b)) else err IError)"

definition tiv_eq :: "TypedIndexVal \<Rightarrow> TypedIndexVal \<Rightarrow> bool res" where
  "tiv_eq a b =
     assertR IAssert (ti_type a = ti_type b)
       (if is_index_kind (ti_type a)
        then ok (im_get (ti_type a) (ti_val a) = im_get (ti_type a) (ti_val b)) else err IError)"

definition tiv_ge :: "TypedIndexVal \<Rightarrow> TypedIndexVal \<Rightarrow> bool res" where
  "tiv_ge a b = bindR (tiv_gt a b) (\<lambda>g. if g then ok True else tiv_eq a b)"

definition tiv_lt :: "TypedIndexVal \<Rightarrow> TypedIndexVal \<Rightarrow> bool res" where
  "tiv_lt a b = bindR (tiv_ge a b) (\<lambda>g. ok (\<not> g))"

definition tiv_le :: "TypedIndexVal \<Rightarrow> TypedIndexVal \<Rightarrow> bool res" where
  "tiv_le a b = bindR (tiv_gt a b) (\<lambda>g. ok (\<not> g))"

definition tiv_neq :: "TypedIndexVal \<Rightarrow> TypedIndexVal \<Rightarrow> bool res" where
  "tiv_neq a b = bindR (tiv_eq a b) (\<lambda>g. ok (\<not> g))"

text \<open>Against an \<open>int\<close>: unsigned members are first cast to \<open>signed\<close>.\<close>

definition tiv_gt_int :: "TypedIndexVal \<Rightarrow> int \<Rightarrow> bool res" where
  "tiv_gt_int a c =
     (let t = ti_type a; x = im_get t (ti_val a) in
      if \<not> is_index_kind t then err IError
      else if isUInt t then ok (wrapS 32 x > c) else ok (x > c))"

definition tiv_eq_int :: "TypedIndexVal \<Rightarrow> int \<Rightarrow> bool res" where
  "tiv_eq_int a c =
     (let t = ti_type a; x = im_get t (ti_val a) in
      if \<not> is_index_kind t then err IError
      else if isUInt t then ok (wrapS 32 x = c) else ok (x = c))"

definition tiv_ge_int :: "TypedIndexVal \<Rightarrow> int \<Rightarrow> bool res" where
  "tiv_ge_int a c = bindR (tiv_gt_int a c) (\<lambda>g. if g then ok True else tiv_eq_int a c)"

definition tiv_lt_int :: "TypedIndexVal \<Rightarrow> int \<Rightarrow> bool res" where
  "tiv_lt_int a c = bindR (tiv_ge_int a c) (\<lambda>g. ok (\<not> g))"

definition tiv_le_int :: "TypedIndexVal \<Rightarrow> int \<Rightarrow> bool res" where
  "tiv_le_int a c = bindR (tiv_gt_int a c) (\<lambda>g. ok (\<not> g))"

definition tiv_neq_int :: "TypedIndexVal \<Rightarrow> int \<Rightarrow> bool res" where
  "tiv_neq_int a c = bindR (tiv_eq_int a c) (\<lambda>g. ok (\<not> g))"

subsection \<open>Functional behaviour\<close>

definition ti_value :: "TypedIndexVal \<Rightarrow> int" where
  "ti_value v = im_get (ti_type v) (ti_val v)"

text \<open>The component with the type and value of an index.\<close>

definition as_component :: "TypedIndexVal \<Rightarrow> TypedComponentVal" where
  "as_component v = \<lparr>tc_type = ti_type v, tc_val = ucast (ti_val v)\<rparr>"

lemma as_component_simps [simp]:
  "tc_type (as_component v) = ti_type v" "tc_value (as_component v) = ti_value v"
  "member_get (ti_type v) (tc_val (as_component v)) = ti_value v"
  by (simp_all add: as_component_def tc_value_def ti_value_def im_get_def)

lemma ti_value_conv: "is_index_kind (ti_type v) \<Longrightarrow> conv (ti_type v) (ti_value v) = ti_value v"
  using index_kind_integral [of "ti_type v"] im_get_wrap [of "ti_type v" "ti_val v"]
  by (simp add: ti_value_def conv.cv_idem)

text \<open>The value that a computation leaves.\<close>

definition computed :: "Datatype \<Rightarrow> int \<Rightarrow> int res" where
  "computed t z = (if overflows t z then err Overflow else ok (conv t z))"

lemma tiv_arith_value:
  assumes "is_index_kind (ti_type a)" "ti_type a = ti_type b"
  shows "map_sum id ti_value (tiv_add a b) = computed (ti_type a) (ti_value a + ti_value b)"
    "map_sum id ti_value (tiv_mul a b) = computed (ti_type a) (ti_value a * ti_value b)"
    "map_sum id ti_value (tiv_addInt a c) = computed (ti_type a) (ti_value a + c)"
    "map_sum id ti_value (tiv_mulInt a c) = computed (ti_type a) (ti_value a * c)"
  using assms
  by (auto simp: tiv_add_def tiv_mul_def tiv_addInt_def tiv_mulInt_def ti_add_def ti_multiply_def ti_addInt_def
      ti_multiplyInt_def ti_value_def im_get_put put_index_def assertR_def computed_def)

lemma tiv_const_value: "is_index_kind t \<Longrightarrow> \<exists>r. tiv_const t c = ok r \<and> ti_type r = t \<and> ti_value r = conv t c"
  by (auto simp: tiv_const_def ti_setInt_def ti_value_def im_get_put)

lemma tiv_compare:
  assumes "is_index_kind (ti_type a)" "ti_type a = ti_type b"
  shows "tiv_gt a b = ok (ti_value a > ti_value b)" "tiv_eq a b = ok (ti_value a = ti_value b)"
    "tiv_ge a b = ok (ti_value a \<ge> ti_value b)" "tiv_lt a b = ok (ti_value a < ti_value b)"
    "tiv_le a b = ok (ti_value a \<le> ti_value b)" "tiv_neq a b = ok (ti_value a \<noteq> ti_value b)"
  using assms
  by (auto simp: tiv_gt_def tiv_eq_def tiv_ge_def tiv_lt_def tiv_le_def tiv_neq_def ti_value_def)

lemma index_kind_class: "is_index_kind k \<Longrightarrow> kclass k = CInt \<or> kclass k = CUInt"
  using index_kind_integral [of k] by (simp add: kclass_iff)

lemma component_arith:
  assumes "is_index_kind (ti_type a)" "ti_type a = ti_type b"
  shows "map_sum id tc_value (tcv_add F (as_component a) (as_component b)) = computed (ti_type a) (ti_value a + ti_value b)"
    "map_sum id tc_value (tcv_mul F (as_component a) (as_component b)) = computed (ti_type a) (ti_value a * ti_value b)"
    "map_sum id tc_value (tcv_addInt F (as_component a) c) = computed (ti_type a) (ti_value a + c)"
    "map_sum id tc_value (tcv_mulInt F (as_component a) c) = computed (ti_type a) (ti_value a * c)"
  using index_kind_class [OF assms(1)] assms(2)
  by (auto simp: tcv_add_def tcv_mul_def tcv_addInt_def tcv_mulInt_def tc_add_def tc_multiply_def tc_addInt_def
      tc_multiplyInt_def tc_value_def ti_value_def im_get_def as_component_def put_result_value computed_def Let_def kclass_iff)

lemma component_compare:
  assumes "is_index_kind (ti_type a)" "ti_type a = ti_type b"
  shows "tcv_gt F (as_component a) (as_component b) = ok (ti_value a > ti_value b)"
    "tcv_eq F (as_component a) (as_component b) = ok (ti_value a = ti_value b)"
    "tcv_gt_int F (as_component a) c = tiv_gt_int a c" "tcv_eq_int F (as_component a) c = tiv_eq_int a c"
    "tcv_getAsIndex F (as_component a) = tiv_getAsIndex a"
  using index_kind_class [OF assms(1)] assms
  by (auto simp: tcv_gt_def tcv_eq_def tcv_gt_int_def tcv_eq_int_def tiv_gt_int_def tiv_eq_int_def tiv_getAsIndex_def
      tcv_getAsIndex_def tc_getAsIndex_def ti_getAsIndex_def ti_value_def im_get_def as_component_def Let_def kclass_iff)

text \<open>(C29) Typed indices and typed components, which are implemented twice, agree: on the kinds an index may
  have, the arithmetic and the comparisons of indices give the values that those of the components with
  the same type and value give, and fail by an overflow where those do.\<close>

theorem typed_index_in_sync:
  assumes "is_index_kind (ti_type a)" "ti_type a = ti_type b"
  shows "map_sum id ti_value (tiv_add a b) = map_sum id tc_value (tcv_add F (as_component a) (as_component b)) \<and>
    map_sum id ti_value (tiv_mul a b) = map_sum id tc_value (tcv_mul F (as_component a) (as_component b)) \<and>
    map_sum id ti_value (tiv_addInt a c) = map_sum id tc_value (tcv_addInt F (as_component a) c) \<and>
    map_sum id ti_value (tiv_mulInt a c) = map_sum id tc_value (tcv_mulInt F (as_component a) c) \<and>
    tiv_gt a b = tcv_gt F (as_component a) (as_component b) \<and> tiv_eq a b = tcv_eq F (as_component a) (as_component b) \<and>
    tiv_gt_int a c = tcv_gt_int F (as_component a) c \<and> tiv_eq_int a c = tcv_eq_int F (as_component a) c \<and>
    tiv_getAsIndex a = tcv_getAsIndex F (as_component a)"
  using tiv_arith_value(1,2) [OF assms] tiv_arith_value(3,4) [OF assms, of c] component_arith(1,2) [OF assms, of F]
    component_arith(3,4) [OF assms, of F c] component_compare(1,2,5) [OF assms, of F]
    component_compare(3,4) [OF assms, of F c] tiv_compare [OF assms] by auto

lemma typed_index_in_sync_witness:
  "\<exists>a b. map_sum id ti_value (tiv_add a b) = ok (- 6) \<and> map_sum id tc_value (tcv_add fpu_null (as_component a) (as_component b)) = ok (- 6)"
proof -
  let ?a = "\<lparr>ti_type = Int8, ti_val = 125\<rparr>"
  have "map_sum id ti_value (tiv_add ?a ?a) = ok (- 6)" by code_simp
  with typed_index_in_sync [of ?a ?a fpu_null 0] show ?thesis
    by (intro exI [of _ ?a]) (simp add: is_index_kind_def)
qed

end
