(* ===== verification/IR.thy ===== *)
theory IR
  imports TypedValue
begin

text \<open>
  The intermediate representation: the node classes of include/taco/ir/ir.h and their \<open>make\<close>
  constructors of src/ir/ir.cpp, as far as they build expressions and loop-free statements
  (\<open>For::make\<close>, which rewrites the loop body, is in theory \<open>For_Make\<close>).

  An expression handle is a shared pointer to an immutable node, and \<open>==\<close> on handles compares
  pointers. \<open>Var\<close> and \<open>GetProperty\<close> nodes are the ones whose identity matters (they are keys of the
  maps the compiler keeps); they carry their address. The fifteen binary classes share one
  constructor with the class as a tag, as the templates \<open>visitBinaryOp<T>\<close> treat them; the two
  unary and the two n-ary classes likewise.
\<close>

subsection \<open>Nodes\<close>

datatype TensorProperty =
    POrder | PDimension | PComponentSize | PModeOrdering | PModeTypes | PIndices | PValues | PValuesSize

datatype unop = OpNeg | OpSqrt

datatype binop =
    OpAdd | OpSub | OpMul | OpDiv | OpRem
  | OpBitAnd | OpBitOr
  | OpEq | OpNeq | OpGt | OpLt | OpGte | OpLte
  | OpAnd | OpOr

datatype naryop = OpMin | OpMax

datatype expr =
    Literal Datatype component_union
  | Var nat string Datatype bool bool bool
      \<comment> \<open>address, name, type, \<open>is_ptr\<close>, \<open>is_tensor\<close>, \<open>is_parameter\<close>\<close>
  | Unary unop Datatype expr
  | Binary binop Datatype expr expr
  | Nary naryop Datatype "expr list"
  | Cast Datatype expr
  | Call Datatype string "expr list"
  | Load Datatype expr expr
  | Malloc Datatype expr
  | Sizeof Datatype TensorType
  | GetProperty nat Datatype expr TensorProperty int int string
      \<comment> \<open>address, type, tensor, property, mode, index, name\<close>

abbreviation "Neg \<equiv> Unary OpNeg"
abbreviation "Sqrt \<equiv> Unary OpSqrt"
abbreviation "Add \<equiv> Binary OpAdd"
abbreviation "Sub \<equiv> Binary OpSub"
abbreviation "Mul \<equiv> Binary OpMul"
abbreviation "Div \<equiv> Binary OpDiv"
abbreviation "Rem \<equiv> Binary OpRem"
abbreviation "And \<equiv> Binary OpAnd"
abbreviation "Or \<equiv> Binary OpOr"
abbreviation "Lt \<equiv> Binary OpLt"
abbreviation "Eq \<equiv> Binary OpEq"

datatype ParallelUnit =
    NotParallel | DefaultUnit | GPUBlock | GPUWarp | GPUThread | CPUThread | CPUVector
  | CPUThreadGroupReduction | GPUBlockReduction | GPUWarpReduction

datatype LoopKind = Serial | Static | Dynamic | Runtime | Vectorized | Static_Chunked

text \<open>An undefined statement handle \<open>Stmt()\<close> is \<open>None\<close> where a statement may be missing.\<close>

datatype stmt =
    Block "stmt list"
  | Scope stmt
  | Store expr expr expr bool ParallelUnit
  | IfThenElse expr stmt "stmt option"
  | Case "(expr \<times> stmt) list" bool
  | Switch "(expr \<times> stmt) list" expr
  | For expr expr expr expr stmt LoopKind ParallelUnit nat int
      \<comment> \<open>var, start, end, increment, contents, kind, unit, \<open>unrollFactor\<close>, \<open>vec_width\<close>\<close>
  | While expr stmt LoopKind int
  | Function string stmt "expr list" "expr list"
  | VarDecl expr expr
  | Assign expr expr bool ParallelUnit
  | Yield "expr list" expr
  | Allocate expr expr "expr option" bool bool
      \<comment> \<open>var, \<open>num_elements\<close>, \<open>old_elements\<close>, \<open>is_realloc\<close>, \<open>clear\<close>\<close>
  | Free expr
  | Comment string
  | BlankLine
  | Print string "expr list"
  | Continue
  | Sort "expr list"
  | Break

text \<open>\<open>Expr::type()\<close>.\<close>

fun etype :: "expr \<Rightarrow> Datatype" where
  "etype (Literal t _) = t"
| "etype (Var _ _ t _ _ _) = t"
| "etype (Unary _ t _) = t"
| "etype (Binary _ t _ _) = t"
| "etype (Nary _ t _) = t"
| "etype (Cast t _) = t"
| "etype (Call t _ _) = t"
| "etype (Load t _ _) = t"
| "etype (Malloc t _) = t"
| "etype (Sizeof t _) = t"
| "etype (GetProperty _ t _ _ _ _ _) = t"

text \<open>\<open>isa<T>\<close> and \<open>to<T>\<close> for the classes the compiler tests.\<close>

fun as_Literal :: "expr \<Rightarrow> (Datatype \<times> component_union) option" where
  "as_Literal (Literal t v) = Some (t, v)"
| "as_Literal _ = None"

fun as_Var :: "expr \<Rightarrow> (nat \<times> string \<times> Datatype \<times> bool \<times> bool \<times> bool) option" where
  "as_Var (Var a n t p s m) = Some (a, n, t, p, s, m)"
| "as_Var _ = None"

fun as_Binary :: "binop \<Rightarrow> expr \<Rightarrow> (Datatype \<times> expr \<times> expr) option" where
  "as_Binary op (Binary op' t a b) = (if op = op' then Some (t, a, b) else None)"
| "as_Binary op _ = None"

fun isGetProperty :: "expr \<Rightarrow> bool" where
  "isGetProperty (GetProperty _ _ _ _ _ _ _) = True"
| "isGetProperty _ = False"

definition isVar :: "expr \<Rightarrow> bool" where
  "isVar e \<longleftrightarrow> as_Var e \<noteq> None"

definition isPtrVar :: "expr \<Rightarrow> bool" where
  "isPtrVar e = (case as_Var e of Some (_, _, _, p, _, _) \<Rightarrow> p | None \<Rightarrow> False)"

lemma as_Literal_Some [simp]: "as_Literal e = Some (t, v) \<longleftrightarrow> e = Literal t v"
  by (cases e) auto

lemma as_Binary_Some [simp]: "as_Binary op e = Some (t, a, b) \<longleftrightarrow> e = Binary op t a b"
  by (cases e) auto

lemma as_Var_Some [simp]: "as_Var e = Some (a, n, t, p, s, m) \<longleftrightarrow> e = Var a n t p s m"
  by (cases e) auto

subsection \<open>Literals\<close>

text \<open>\<open>Literal::make(TypedComponentVal, Datatype)\<close>: only the bytes of the type are kept.\<close>

definition Literal_make :: "TypedComponentVal \<Rightarrow> Datatype \<Rightarrow> expr res" where
  "Literal_make val t =
     bindR (getNumBytes t) (\<lambda>_.
       assertR IAssert (t = tc_type val)
         (bindR (tc_set t 0 (tc_val val)) (\<lambda>u. ok (Literal t u))))"

text \<open>The template \<open>Literal::make(T val, Datatype)\<close>, for a C++ integer \<open>val\<close> of the type of kind
  \<open>ct\<close>: the bytes of \<open>val\<close> are reread at the literal's type, which must not be wider.\<close>

definition Literal_make_from :: "Kind \<Rightarrow> int \<Rightarrow> Datatype \<Rightarrow> expr res" where
  "Literal_make_from ct val t =
     assertR BadMemory (member_bits t \<le> member_bits ct)
       (bindR (tc_set t 0 (member_put ct 0 val)) (\<lambda>u. Literal_make \<lparr>tc_type = t, tc_val = u\<rparr> t))"

definition Literal_int :: "int \<Rightarrow> expr res" where
  "Literal_int val = Literal_make_from Int32 val Int32"

fun Literal_zero :: "Datatype \<Rightarrow> expr res" where
  "Literal_zero UInt128 = err NotSupported"
| "Literal_zero Int128 = err NotSupported"
| "Literal_zero Undefined = err IError"
| "Literal_zero t = Literal_make_from t 0 t"

definition getTypedVal :: "Datatype \<Rightarrow> component_union \<Rightarrow> TypedComponentVal" where
  "getTypedVal t v = \<lparr>tc_type = t, tc_val = v\<rparr>"

definition getBoolValue :: "Datatype \<Rightarrow> component_union \<Rightarrow> bool res" where
  "getBoolValue t v = assertR IAssert (isBool t) (ok (member_get Bool v \<noteq> 0))"

definition getIntValue :: "Datatype \<Rightarrow> component_union \<Rightarrow> int res" where
  "getIntValue t v =
     assertR IAssert (isInt t) (if t = Int128 then err NotSupported else ok (member_get t v))"

definition getUIntValue :: "Datatype \<Rightarrow> component_union \<Rightarrow> int res" where
  "getUIntValue t v =
     assertR IAssert (isUInt t) (if t = UInt128 then err NotSupported else ok (member_get t v))"

text \<open>\<open>equalsScalar\<close>, for the integral arguments it is called with.\<close>

definition equalsScalar :: "fpu \<Rightarrow> Datatype \<Rightarrow> component_union \<Rightarrow> int \<Rightarrow> bool res" where
  "equalsScalar F t v scalar =
     (if t = UInt128 \<or> t = Int128 \<or> t = Undefined then err NotSupported
      else if isFloat t \<or> isComplex t then ok (fp_eq F t (member_get t v) (fp_of_int F t scalar))
      else ok (member_get t v = conv t scalar))"

subsection \<open>Expression constructors\<close>

definition Var_make :: "nat \<Rightarrow> string \<Rightarrow> Datatype \<Rightarrow> bool \<Rightarrow> bool \<Rightarrow> bool \<Rightarrow> expr" where
  "Var_make addr n t is_ptr is_tensor is_parameter = Var addr n t is_ptr is_tensor is_parameter"

definition Neg_make :: "expr \<Rightarrow> expr" where
  "Neg_make a = Neg (etype a) a"

definition Sqrt_make :: "expr \<Rightarrow> expr" where
  "Sqrt_make a = Sqrt (etype a) a"

definition max_expr_type :: "expr \<Rightarrow> expr \<Rightarrow> Datatype res" where
  "max_expr_type a b = max_type (etype a) (etype b)"

definition Add_make_typed :: "expr \<Rightarrow> expr \<Rightarrow> Datatype \<Rightarrow> expr res" where
  "Add_make_typed a b t =
     assertR IAssert ((\<not> isBool (etype a) \<or> isPtrVar a) \<and> (\<not> isBool (etype b) \<or> isPtrVar b))
       (ok (Add t a b))"

definition Add_make :: "expr \<Rightarrow> expr \<Rightarrow> expr res" where
  "Add_make a b = bindR (max_expr_type a b) (Add_make_typed a b)"

definition Sub_make_typed :: "expr \<Rightarrow> expr \<Rightarrow> Datatype \<Rightarrow> expr res" where
  "Sub_make_typed a b t =
     assertR IAssert (\<not> isBool (etype a) \<and> \<not> isBool (etype b)) (ok (Sub t a b))"

definition Sub_make :: "expr \<Rightarrow> expr \<Rightarrow> expr res" where
  "Sub_make a b = bindR (max_expr_type a b) (Sub_make_typed a b)"

definition Mul_make_typed :: "expr \<Rightarrow> expr \<Rightarrow> Datatype \<Rightarrow> expr res" where
  "Mul_make_typed a b t =
     assertR IAssert (\<not> isBool (etype a) \<and> \<not> isBool (etype b)) (ok (Mul t a b))"

definition Mul_make :: "expr \<Rightarrow> expr \<Rightarrow> expr res" where
  "Mul_make a b = bindR (max_expr_type a b) (Mul_make_typed a b)"

definition Div_make_typed :: "expr \<Rightarrow> expr \<Rightarrow> Datatype \<Rightarrow> expr res" where
  "Div_make_typed a b t =
     assertR IAssert (\<not> isBool (etype a) \<and> \<not> isBool (etype b)) (ok (Div t a b))"

definition Div_make :: "expr \<Rightarrow> expr \<Rightarrow> expr res" where
  "Div_make a b = bindR (max_expr_type a b) (Div_make_typed a b)"

definition Rem_make_typed :: "expr \<Rightarrow> expr \<Rightarrow> Datatype \<Rightarrow> expr res" where
  "Rem_make_typed a b t =
     assertR IAssert (\<not> isBool (etype a) \<and> \<not> isBool (etype b)) (ok (Rem t a b))"

definition Rem_make :: "expr \<Rightarrow> expr \<Rightarrow> expr res" where
  "Rem_make a b = bindR (max_expr_type a b) (Rem_make_typed a b)"

definition Min_make_typed :: "expr list \<Rightarrow> Datatype \<Rightarrow> expr" where
  "Min_make_typed operands t = Nary OpMin t operands"

definition Min_make2 :: "expr \<Rightarrow> expr \<Rightarrow> expr res" where
  "Min_make2 a b = bindR (max_expr_type a b) (\<lambda>t. ok (Min_make_typed [a, b] t))"

definition Min_make :: "expr list \<Rightarrow> expr res" where
  "Min_make operands =
     (case operands of [] \<Rightarrow> err IAssert | x # _ \<Rightarrow> ok (Min_make_typed operands (etype x)))"

definition Max_make_typed :: "expr list \<Rightarrow> Datatype \<Rightarrow> expr" where
  "Max_make_typed operands t = Nary OpMax t operands"

definition Max_make2 :: "expr \<Rightarrow> expr \<Rightarrow> expr res" where
  "Max_make2 a b =
     bindR (max_expr_type a b) (\<lambda>t.
       assertR IAssert (\<not> isBool (etype a) \<and> \<not> isBool (etype b)) (ok (Max_make_typed [a, b] t)))"

definition Max_make :: "expr list \<Rightarrow> expr res" where
  "Max_make operands =
     (case operands of [] \<Rightarrow> err IAssert | x # _ \<Rightarrow> ok (Max_make_typed operands (etype x)))"

text \<open>\<open>UInt()\<close> is the unsigned type of the width of \<open>unsigned int\<close>.\<close>

definition BitAnd_make :: "expr \<Rightarrow> expr \<Rightarrow> expr" where
  "BitAnd_make a b = Binary OpBitAnd UInt32 a b"

definition BitOr_make :: "expr \<Rightarrow> expr \<Rightarrow> expr" where
  "BitOr_make a b = Binary OpBitOr UInt32 a b"

definition Eq_make :: "expr \<Rightarrow> expr \<Rightarrow> expr" where
  "Eq_make a b = Binary OpEq Bool a b"

definition Neq_make :: "expr \<Rightarrow> expr \<Rightarrow> expr" where
  "Neq_make a b = Binary OpNeq Bool a b"

definition Gt_make :: "expr \<Rightarrow> expr \<Rightarrow> expr" where
  "Gt_make a b = Binary OpGt Bool a b"

definition Lt_make :: "expr \<Rightarrow> expr \<Rightarrow> expr" where
  "Lt_make a b = Binary OpLt Bool a b"

definition Gte_make :: "expr \<Rightarrow> expr \<Rightarrow> expr" where
  "Gte_make a b = Binary OpGte Bool a b"

definition Lte_make :: "expr \<Rightarrow> expr \<Rightarrow> expr" where
  "Lte_make a b = Binary OpLte Bool a b"

definition Or_make :: "expr \<Rightarrow> expr \<Rightarrow> expr" where
  "Or_make a b = Binary OpOr Bool a b"

definition And_make :: "expr \<Rightarrow> expr \<Rightarrow> expr" where
  "And_make a b = Binary OpAnd Bool a b"

definition Cast_make :: "expr \<Rightarrow> Datatype \<Rightarrow> expr" where
  "Cast_make a newType = Cast newType a"

definition Call_make :: "string \<Rightarrow> expr list \<Rightarrow> Datatype \<Rightarrow> expr" where
  "Call_make func args t = Call t func args"

definition Load_make :: "expr \<Rightarrow> expr \<Rightarrow> expr res" where
  "Load_make arr loc =
     assertR IAssert (isInt (etype loc) \<or> isUInt (etype loc)) (ok (Load (etype arr) arr loc))"

definition Load_make0 :: "expr \<Rightarrow> expr res" where
  "Load_make0 arr = bindR (Literal_make_from Int64 0 Int64) (Load_make arr)"

text \<open>\<open>Malloc::make\<close> leaves the node's type at the default \<open>Float()\<close>.\<close>

definition Malloc_make :: "expr \<Rightarrow> expr" where
  "Malloc_make size_e = Malloc Float64 size_e"

definition Sizeof_make :: "TensorType \<Rightarrow> expr" where
  "Sizeof_make t = Sizeof UInt64 t"

definition GetProperty_make5 ::
  "nat \<Rightarrow> expr \<Rightarrow> TensorProperty \<Rightarrow> int \<Rightarrow> int \<Rightarrow> string \<Rightarrow> expr" where
  "GetProperty_make5 addr tensor prop mode index nm =
     GetProperty addr (if prop = PValues then etype tensor else Int32) tensor prop mode index nm"

definition GetProperty_make :: "nat \<Rightarrow> expr \<Rightarrow> TensorProperty \<Rightarrow> int \<Rightarrow> expr res" where
  "GetProperty_make addr tensor prop mode =
     (case as_Var tensor of
        None \<Rightarrow> err BadMemory
      | Some (_, tn, _, _, _, _) \<Rightarrow>
          (let gp = GetProperty addr (if prop = PValues then etype tensor else Int32) tensor prop mode 0;
               num = show_nat (nat (mode + 1))
           in case prop of
                POrder \<Rightarrow> ok (gp (tn @ ''_order''))
              | PDimension \<Rightarrow> ok (gp (tn @ num @ ''_dimension''))
              | PComponentSize \<Rightarrow> ok (gp (tn @ ''_csize''))
              | PModeOrdering \<Rightarrow> ok (gp (tn @ num @ ''_mode_ordering''))
              | PModeTypes \<Rightarrow> ok (gp (tn @ num @ ''_mode_type''))
              | PIndices \<Rightarrow> err IError
              | PValues \<Rightarrow> ok (gp (tn @ ''_vals''))
              | PValuesSize \<Rightarrow> ok (gp (tn @ ''_vals_size''))))"


text \<open>\<open>T::make\<close> for the class \<open>T\<close> a template is instantiated with.\<close>

fun Binary_make :: "binop \<Rightarrow> expr \<Rightarrow> expr \<Rightarrow> expr res" where
  "Binary_make OpAdd a b = Add_make a b"
| "Binary_make OpSub a b = Sub_make a b"
| "Binary_make OpMul a b = Mul_make a b"
| "Binary_make OpDiv a b = Div_make a b"
| "Binary_make OpRem a b = Rem_make a b"
| "Binary_make OpBitAnd a b = ok (BitAnd_make a b)"
| "Binary_make OpBitOr a b = ok (BitOr_make a b)"
| "Binary_make OpEq a b = ok (Eq_make a b)"
| "Binary_make OpNeq a b = ok (Neq_make a b)"
| "Binary_make OpGt a b = ok (Gt_make a b)"
| "Binary_make OpLt a b = ok (Lt_make a b)"
| "Binary_make OpGte a b = ok (Gte_make a b)"
| "Binary_make OpLte a b = ok (Lte_make a b)"
| "Binary_make OpAnd a b = ok (And_make a b)"
| "Binary_make OpOr a b = ok (Or_make a b)"

fun Unary_make :: "unop \<Rightarrow> expr \<Rightarrow> expr" where
  "Unary_make OpNeg a = Neg_make a"
| "Unary_make OpSqrt a = Sqrt_make a"

fun Nary_make :: "naryop \<Rightarrow> expr list \<Rightarrow> expr res" where
  "Nary_make OpMin es = Min_make es"
| "Nary_make OpMax es = Max_make es"

named_theorems makes \<open>the constructors, unfolded\<close>

declare Neg_make_def [makes] Sqrt_make_def [makes] Add_make_def [makes] Add_make_typed_def [makes]
  Sub_make_def [makes] Sub_make_typed_def [makes] Mul_make_def [makes] Mul_make_typed_def [makes]
  Div_make_def [makes] Div_make_typed_def [makes] Rem_make_def [makes] Rem_make_typed_def [makes]
  Min_make_def [makes] Min_make_typed_def [makes] Max_make_def [makes] Max_make_typed_def [makes]
  BitAnd_make_def [makes] BitOr_make_def [makes] Eq_make_def [makes] Neq_make_def [makes]
  Gt_make_def [makes] Lt_make_def [makes] Gte_make_def [makes] Lte_make_def [makes]
  Or_make_def [makes] And_make_def [makes] Cast_make_def [makes] Call_make_def [makes]
  Load_make_def [makes] Malloc_make_def [makes] GetProperty_make5_def [makes]

subsection \<open>Statement constructors\<close>

definition nop :: "stmt option \<Rightarrow> bool" where
  "nop s = (case s of None \<Rightarrow> True | Some (Block xs) \<Rightarrow> xs = [] | Some _ \<Rightarrow> False)"

definition Block_make :: "stmt option list \<Rightarrow> stmt" where
  "Block_make stmts = Block (map the (filter (\<lambda>s. \<not> nop s) stmts))"

text \<open>\<open>Block::blanks\<close>: the first statement, then every other one after a blank line.\<close>

fun blanks_rest :: "stmt option list \<Rightarrow> stmt list" where
  "blanks_rest [] = []"
| "blanks_rest (s # ss) = (if nop s then blanks_rest ss else BlankLine # the s # blanks_rest ss)"

fun blanks_first :: "stmt option list \<Rightarrow> stmt list" where
  "blanks_first [] = []"
| "blanks_first (s # ss) = (if nop s then blanks_first ss else the s # blanks_rest ss)"

definition Block_blanks :: "stmt option list \<Rightarrow> stmt" where
  "Block_blanks stmts = Block (blanks_first stmts)"

fun is_Scope :: "stmt \<Rightarrow> bool" where
  "is_Scope (Scope s) = True"
| "is_Scope _ = False"

definition Scope_make :: "stmt \<Rightarrow> stmt" where
  "Scope_make scopedStmt = (if is_Scope scopedStmt then scopedStmt else Scope scopedStmt)"

definition Store_make :: "expr \<Rightarrow> expr \<Rightarrow> expr \<Rightarrow> bool \<Rightarrow> ParallelUnit \<Rightarrow> stmt" where
  "Store_make arr loc data use_atomics atomic_parallel_unit = Store arr loc data use_atomics atomic_parallel_unit"

definition IfThenElse_make :: "expr \<Rightarrow> stmt \<Rightarrow> stmt option \<Rightarrow> stmt res" where
  "IfThenElse_make cond thn otherwise =
     assertR IAssert (isBool (etype cond))
       (ok (IfThenElse cond (Scope_make thn) (map_option Scope_make otherwise)))"

definition Case_make :: "(expr \<times> stmt) list \<Rightarrow> bool \<Rightarrow> stmt res" where
  "Case_make clauses alwaysMatch =
     assertR IAssert (\<forall>(c, s) \<in> set clauses. isBool (etype c))
       (ok (Case (map (\<lambda>(c, s). (c, Scope_make s)) clauses) alwaysMatch))"

definition Switch_make :: "(expr \<times> stmt) list \<Rightarrow> expr \<Rightarrow> stmt res" where
  "Switch_make cases controlExpr =
     assertR IAssert (\<forall>(c, s) \<in> set cases. isUInt (etype c))
       (ok (Switch (map (\<lambda>(c, s). (c, Scope_make s)) cases) controlExpr))"

definition While_make :: "expr \<Rightarrow> stmt \<Rightarrow> LoopKind \<Rightarrow> int \<Rightarrow> stmt" where
  "While_make cond contents kind vec_width = While cond (Scope_make contents) kind vec_width"

definition Function_make :: "string \<Rightarrow> expr list \<Rightarrow> expr list \<Rightarrow> stmt \<Rightarrow> stmt" where
  "Function_make nm outputs inputs body = Function nm (Scope_make body) inputs outputs"

definition VarDecl_make :: "expr \<Rightarrow> expr \<Rightarrow> stmt res" where
  "VarDecl_make var rhs = assertR IAssert (isVar var) (ok (VarDecl var rhs))"

definition Assign_make :: "expr \<Rightarrow> expr \<Rightarrow> bool \<Rightarrow> ParallelUnit \<Rightarrow> stmt res" where
  "Assign_make lhs rhs use_atomics atomic_parallel_unit =
     assertR IAssert (isVar lhs \<or> isGetProperty lhs) (ok (Assign lhs rhs use_atomics atomic_parallel_unit))"

definition Yield_make :: "expr list \<Rightarrow> expr \<Rightarrow> stmt res" where
  "Yield_make coords val = assertR IAssert (\<forall>c \<in> set coords. isVar c) (ok (Yield coords val))"

definition Allocate_make :: "expr \<Rightarrow> expr \<Rightarrow> bool \<Rightarrow> expr option \<Rightarrow> bool \<Rightarrow> stmt res" where
  "Allocate_make var num_elements is_realloc old_elements clear =
     assertR IAssert (isGetProperty var \<or> isPtrVar var)
      (assertR IAssert (isInt (etype num_elements) \<or> isUInt (etype num_elements))
        (assertR IAssert (\<not> is_realloc \<or> old_elements \<noteq> None)
          (ok (Allocate var num_elements old_elements is_realloc clear))))"

definition Free_make :: "expr \<Rightarrow> stmt res" where
  "Free_make var = assertR IAssert (isGetProperty var \<or> isPtrVar var) (ok (Free var))"

text \<open>\<open>Function::getReturnType\<close> visits the yields of the body in order: the first one fixes the
  types, the others must agree with it.\<close>

fun yields :: "stmt \<Rightarrow> (expr list \<times> expr) list" where
  "yields (Block ss) = concat (map yields ss)"
| "yields (Scope s) = yields s"
| "yields (IfThenElse c t None) = yields t"
| "yields (IfThenElse c t (Some f)) = yields t @ yields f"
| "yields (Case cs _) = concat (map (\<lambda>(c, s). yields s) cs)"
| "yields (Switch cs _) = concat (map (\<lambda>(c, s). yields s) cs)"
| "yields (For _ _ _ _ s _ _ _ _) = yields s"
| "yields (While _ s _ _) = yields s"
| "yields (Function _ s _ _) = yields s"
| "yields (Yield cs v) = [(cs, v)]"
| "yields _ = []"

fun infer_return :: "Datatype list \<times> Datatype \<Rightarrow> (expr list \<times> expr) list \<Rightarrow> (Datatype list \<times> Datatype) res" where
  "infer_return (cts, vt) [] = ok (cts, vt)"
| "infer_return (cts, vt) ((cs, v) # ys) =
     (if vt \<noteq> Undefined then
        assertR IAssert (vt = etype v)
         (assertR IAssert (length cts = length cs)
           (assertR IAssert (list_all2 (\<lambda>t c. t = etype c) cts cs) (infer_return (cts, vt) ys)))
      else infer_return (cts @ map etype cs, etype v) ys)"

definition getReturnType :: "stmt \<Rightarrow> (Datatype list \<times> Datatype) res" where
  "getReturnType func = infer_return ([], Undefined) (yields func)"

end
