(* ===== verification/IR_Visitor.thy ===== *)
theory IR_Visitor
  imports IR
begin

text \<open>
  The default traversal of src/ir/ir_visitor.cpp (\<open>IRVisitor\<close>), as the sequence of nodes it visits, and
  the visitor of \<open>Function::getReturnType\<close> as one instance of it.
\<close>

datatype node = NExpr expr | NStmt stmt

subsection \<open>The nodes a visitor sees, in order\<close>

text \<open>A visitor's \<open>visit\<close> method runs on a node before the method recurses into the children.\<close>

fun visit_expr :: "expr \<Rightarrow> expr list" where
  "visit_expr (Literal t v) = [Literal t v]"
| "visit_expr (Var ad n t p ts m) = [Var ad n t p ts m]"
| "visit_expr (Unary op t a) = Unary op t a # visit_expr a"
| "visit_expr (Binary op t a b) = Binary op t a b # visit_expr a @ visit_expr b"
| "visit_expr (Nary op t es) = Nary op t es # concat (map visit_expr es)"
| "visit_expr (Cast t a) = Cast t a # visit_expr a"
| "visit_expr (Call t f es) = Call t f es # concat (map visit_expr es)"
| "visit_expr (Load t arr loc) = Load t arr loc # visit_expr arr @ visit_expr loc"
| "visit_expr (Malloc t e) = Malloc t e # visit_expr e"
| "visit_expr (Sizeof t ty) = [Sizeof t ty]"
| "visit_expr (GetProperty ad t tensor pr mode ix nm) =
     GetProperty ad t tensor pr mode ix nm # visit_expr tensor"

definition visit_exprs :: "expr list \<Rightarrow> node list" where
  "visit_exprs es = concat (map (\<lambda>e. map NExpr (visit_expr e)) es)"

text \<open>\<open>VarDecl\<close> visits only its right-hand side, \<open>Function\<close> only its body, \<open>Allocate\<close> not the old size.\<close>

fun visit_stmt :: "stmt \<Rightarrow> node list" where
  "visit_stmt (Block ss) = NStmt (Block ss) # concat (map visit_stmt ss)"
| "visit_stmt (Scope s) = NStmt (Scope s) # visit_stmt s"
| "visit_stmt (Store arr loc d at pu) = NStmt (Store arr loc d at pu) # visit_exprs [arr, loc, d]"
| "visit_stmt (IfThenElse c t None) = NStmt (IfThenElse c t None) # visit_exprs [c] @ visit_stmt t"
| "visit_stmt (IfThenElse c t (Some f)) =
     NStmt (IfThenElse c t (Some f)) # visit_exprs [c] @ visit_stmt t @ visit_stmt f"
| "visit_stmt (Case cs m) =
     NStmt (Case cs m) # concat (map (\<lambda>(c, s). visit_exprs [c] @ visit_stmt s) cs)"
| "visit_stmt (Switch cs e) =
     NStmt (Switch cs e) # visit_exprs [e] @ concat (map (\<lambda>(c, s). visit_exprs [c] @ visit_stmt s) cs)"
| "visit_stmt (For v a b i s k pu uf vw) =
     NStmt (For v a b i s k pu uf vw) # visit_exprs [v, a, b, i] @ visit_stmt s"
| "visit_stmt (While c s k vw) = NStmt (While c s k vw) # visit_exprs [c] @ visit_stmt s"
| "visit_stmt (Function n s is os) = NStmt (Function n s is os) # visit_stmt s"
| "visit_stmt (VarDecl v r) = NStmt (VarDecl v r) # visit_exprs [r]"
| "visit_stmt (Assign l r at pu) = NStmt (Assign l r at pu) # visit_exprs [l, r]"
| "visit_stmt (Yield cs v) = NStmt (Yield cs v) # visit_exprs (cs @ [v])"
| "visit_stmt (Allocate v n old re cl) = NStmt (Allocate v n old re cl) # visit_exprs [v, n]"
| "visit_stmt (Free v) = NStmt (Free v) # visit_exprs [v]"
| "visit_stmt (Comment c) = [NStmt (Comment c)]"
| "visit_stmt BlankLine = [NStmt BlankLine]"
| "visit_stmt (Print f es) = NStmt (Print f es) # visit_exprs es"
| "visit_stmt Continue = [NStmt Continue]"
| "visit_stmt (Sort es) = NStmt (Sort es) # visit_exprs es"
| "visit_stmt Break = [NStmt Break]"

subsection \<open>Properties\<close>

fun as_Yield :: "node \<Rightarrow> (expr list \<times> expr) option" where
  "as_Yield (NStmt (Yield cs v)) = Some (cs, v)"
| "as_Yield _ = None"

lemma map_filter_append: "List.map_filter f (xs @ ys) = List.map_filter f xs @ List.map_filter f ys"
  by (simp add: List.map_filter_def)

lemma as_Yield_exprs [simp]: "List.map_filter as_Yield (visit_exprs es) = []"
proof -
  have "List.map_filter as_Yield (map NExpr es) = []" for es
    by (induction es) (auto simp: List.map_filter_simps)
  then show ?thesis
    by (induction es) (auto simp: visit_exprs_def List.map_filter_simps map_filter_append)
qed

lemma map_filter_concat:
  "List.map_filter f (concat xss) = concat (map (List.map_filter f) xss)"
  by (induction xss) (auto simp: List.map_filter_simps map_filter_append)

text \<open>\<open>Function::getReturnType\<close> infers the type from exactly the \<open>Yield\<close> statements the default
  traversal reaches, in the order it reaches them.\<close>

theorem yields_visited: "yields s = List.map_filter as_Yield (visit_stmt s)"
  by (induction s rule: yields.induct)
    (auto simp: List.map_filter_simps map_filter_append map_filter_concat comp_def split_beta
      intro!: arg_cong [where f = concat])

subsection \<open>What the constructors establish\<close>

text \<open>The invariant of the nodes that \<open>make\<close> returns: some of the type rules the constructors apply and the
  operands they refuse. The promoted type of an arithmetic operation is not part of it, and casts, calls, variables and
  lists of operands may have any type; that the types of the operands are those of the result is what the verifier checks.\<close>

definition no_bool_operand :: "binop \<Rightarrow> expr \<Rightarrow> bool" where
  "no_bool_operand op a \<longleftrightarrow> \<not> isBool (etype a) \<or> op = OpAdd \<and> isPtrVar a"

fun made_node :: "expr \<Rightarrow> bool" where
  "made_node (Literal t v) = (t \<noteq> Undefined)"
| "made_node (Unary op t a) = (t = etype a)"
| "made_node (Binary op t a b) =
     (if op \<in> {OpAdd, OpSub, OpMul, OpDiv, OpRem} then no_bool_operand op a \<and> no_bool_operand op b
      else if op \<in> {OpBitAnd, OpBitOr} then t = UInt32
      else t = Bool)"
| "made_node (Load t arr loc) = (t = etype arr \<and> (isInt (etype loc) \<or> isUInt (etype loc)))"
| "made_node (Malloc t e) = (t = Float64)"
| "made_node (Sizeof t ty) = (t = UInt64)"
| "made_node (GetProperty ad t tensor pr mode ix nm) = (t = (if pr = PValues then etype tensor else Int32))"
| "made_node _ = True"

definition made :: "expr \<Rightarrow> bool" where
  "made e \<longleftrightarrow> (\<forall>x \<in> set (visit_expr e). made_node x)"

lemma made_simps [simp]:
  "made (Literal t v) \<longleftrightarrow> t \<noteq> Undefined"
  "made (Var ad n t p ts m)"
  "made (Unary uop t a) \<longleftrightarrow> t = etype a \<and> made a"
  "made (Binary op t a b) \<longleftrightarrow> made_node (Binary op t a b) \<and> made a \<and> made b"
  "made (Nary nop' t es) \<longleftrightarrow> (\<forall>e \<in> set es. made e)"
  "made (Cast t a) \<longleftrightarrow> made a"
  "made (Call t f es) \<longleftrightarrow> (\<forall>e \<in> set es. made e)"
  "made (Load t arr loc) \<longleftrightarrow> made_node (Load t arr loc) \<and> made arr \<and> made loc"
  "made (Malloc t e) \<longleftrightarrow> t = Float64 \<and> made e"
  "made (Sizeof t ty) \<longleftrightarrow> t = UInt64"
  "made (GetProperty ad t tensor pr mode ix nm) \<longleftrightarrow> t = (if pr = PValues then etype tensor else Int32) \<and> made tensor"
  by (auto simp: made_def simp del: made_node.simps(3,4) split: if_splits)

lemma Literal_make_made: "Literal_make v t = ok e \<Longrightarrow> made e"
  by (cases t) (auto simp: Literal_make_def tc_set_def getNumBytes_def res_simps split: if_splits)

text \<open>Every constructor, applied to operands that satisfy the invariant of the nodes, fails or
  returns a node that satisfies it.\<close>

theorem constructors_made:
  assumes "made a" "made b" "\<forall>x \<in> set es. made x"
  shows "(\<forall>v t e. Literal_make v t = ok e \<longrightarrow> made e) \<and>
    (\<forall>op. made (Unary_make op a)) \<and>
    (\<forall>op e. Binary_make op a b = ok e \<longrightarrow> made e) \<and>
    (\<forall>op e. Nary_make op es = ok e \<longrightarrow> made e) \<and>
    (\<forall>e. Min_make2 a b = ok e \<or> Max_make2 a b = ok e \<longrightarrow> made e) \<and>
    (\<forall>t. made (Cast_make a t)) \<and> (\<forall>f t. made (Call_make f es t)) \<and>
    (\<forall>e. Load_make a b = ok e \<longrightarrow> made e) \<and>
    made (Malloc_make a) \<and> (\<forall>ty. made (Sizeof_make ty)) \<and>
    (\<forall>ad pr mode ix nm. made (GetProperty_make5 ad a pr mode ix nm)) \<and>
    (\<forall>ad pr mode e. GetProperty_make ad a pr mode = ok e \<longrightarrow> made e)"
proof (intro conjI allI impI)
  fix op e assume "Binary_make op a b = ok e"
  with assms show "made e"
    by (cases op) (auto simp: makes res_simps no_bool_operand_def)
next
  fix op e assume "Nary_make op es = ok e"
  with assms show "made e"
    by (cases op) (auto simp: makes split: list.splits)
next
  fix ad pr mode e assume "GetProperty_make ad a pr mode = ok e"
  with assms show "made e"
    by (cases pr) (auto simp: GetProperty_make_def Let_def split: option.splits prod.splits)
next
  fix op show "made (Unary_make op a)" using assms by (cases op) (auto simp: makes)
qed (use assms in \<open>auto simp: makes res_simps Literal_make_made Min_make2_def Max_make2_def
  Sizeof_make_def\<close>)

theorem constructors_made_witness:
  "\<exists>e. Binary_make OpAdd (Var 0 ''i'' Int32 False False False) (Literal Int32 1) = ok e \<and> made e"
proof -
  let ?i = "Var 0 ''i'' Int32 False False False"
  have "\<forall>op e. Binary_make op ?i (Literal Int32 1) = ok e \<longrightarrow> made e"
    using constructors_made [of ?i "Literal Int32 1" "[]"] by simp
  moreover have "\<exists>e. Binary_make OpAdd ?i (Literal Int32 1) = ok e"
    by (simp add: makes max_expr_type_def isBool_def)
  ultimately show ?thesis by blast
qed

lemma visit_expr_self: "e \<in> set (visit_expr e)"
  by (cases e) auto

lemma visit_expr_trans: "x \<in> set (visit_expr y) \<Longrightarrow> y \<in> set (visit_expr e) \<Longrightarrow> x \<in> set (visit_expr e)"
  by (induction e rule: visit_expr.induct) (auto; blast)+

end
