(* ===== verification/IR_Verifier.thy ===== *)
theory IR_Verifier
  imports IR_Visitor
begin

text \<open>
  The IR verifier of src/ir/ir_verifier.cpp. It accumulates a text of messages, one per violated
  condition; the model keeps the list of messages, each naming the condition and the node.
\<close>

datatype message =
    OperandTypesDiffer expr
  | LeftTypeDiffers expr
  | RightTypeDiffers expr
  | OperandType expr
  | Deprecated expr
  | LoadType expr
  | CondNotBool stmt
  | ControlNotInteger stmt
  | ClauseNotLiteral stmt
  | StoreType stmt
  | StartType stmt
  | EndType stmt
  | IncrementType stmt
  | LoopVarNotVar stmt
  | LhsNotVar stmt
  | SideTypesDiffer stmt

definition complain :: "bool \<Rightarrow> message \<Rightarrow> message list" where
  "complain c m = (if c then [m] else [])"

lemma complain_simps [simp]: "complain c m = [] \<longleftrightarrow> \<not> c" "set (complain c m) = (if c then {m} else {})"
  by (auto simp: complain_def)

definition verify_operand_types_consistent :: "expr \<Rightarrow> expr \<Rightarrow> expr \<Rightarrow> message list" where
  "verify_operand_types_consistent op a b = complain (etype a \<noteq> etype b) (OperandTypesDiffer op)"

definition verify_operand_types_consistent_with_result :: "expr \<Rightarrow> Datatype \<Rightarrow> expr \<Rightarrow> expr \<Rightarrow> message list" where
  "verify_operand_types_consistent_with_result op tp a b =
     complain (etype a \<noteq> tp) (LeftTypeDiffers op) @ complain (etype b \<noteq> tp) (RightTypeDiffers op)"

text \<open>The checks of one binary node; \<open>Rem\<close> is rejected without a look at its operands.\<close>

fun verify_binary :: "binop \<Rightarrow> Datatype \<Rightarrow> expr \<Rightarrow> expr \<Rightarrow> message list" where
  "verify_binary OpRem tp a b = [Deprecated (Binary OpRem tp a b)]"
| "verify_binary op tp a b =
     (if op \<in> {OpAdd, OpSub, OpMul, OpDiv, OpBitAnd, OpBitOr}
      then verify_operand_types_consistent_with_result (Binary op tp a b) tp a b
      else if op \<in> {OpAnd, OpOr}
      then complain (etype a \<noteq> tp \<or> etype b \<noteq> tp \<or> \<not> isBool tp) (OperandType (Binary op tp a b))
      else verify_operand_types_consistent (Binary op tp a b) a b)"

fun verify_expr :: "expr \<Rightarrow> message list" where
  "verify_expr (Literal t v) = []"
| "verify_expr (Var ad n t p ts m) = []"
| "verify_expr (Unary op t a) = verify_expr a"
| "verify_expr (Binary op t a b) =
     verify_binary op t a b @ (if op = OpRem then [] else verify_expr a @ verify_expr b)"
| "verify_expr (Nary op t es) =
     concat (map (\<lambda>x. complain (etype x \<noteq> t) (OperandType (Nary op t es)) @ verify_expr x) es)"
| "verify_expr (Cast t a) = verify_expr a"
| "verify_expr (Call t f es) = concat (map verify_expr es)"
| "verify_expr (Load t arr loc) =
     complain (t \<noteq> etype arr) (LoadType (Load t arr loc)) @ verify_expr arr @ verify_expr loc"
| "verify_expr (Malloc t e) = verify_expr e"
| "verify_expr (Sizeof t ty) = []"
| "verify_expr (GetProperty ad t tensor pr mode ix nm) = verify_expr tensor"

definition verify_exprs :: "expr list \<Rightarrow> message list" where
  "verify_exprs es = concat (map verify_expr es)"

definition isInteger :: "Datatype \<Rightarrow> bool" where
  "isInteger t \<longleftrightarrow> isInt t \<or> isUInt t"

definition is_literal :: "expr \<Rightarrow> bool" where
  "is_literal e \<longleftrightarrow> as_Literal e \<noteq> None"

fun verify_stmt :: "stmt \<Rightarrow> message list" where
  "verify_stmt (Block ss) = concat (map verify_stmt ss)"
| "verify_stmt (Scope s) = verify_stmt s"
| "verify_stmt (Store arr loc d at pu) =
     complain (etype arr \<noteq> etype d) (StoreType (Store arr loc d at pu)) @ verify_exprs [arr, d, loc]"
| "verify_stmt (IfThenElse c t None) =
     complain (\<not> isBool (etype c)) (CondNotBool (IfThenElse c t None)) @ verify_expr c @ verify_stmt t"
| "verify_stmt (IfThenElse c t (Some f)) =
     complain (\<not> isBool (etype c)) (CondNotBool (IfThenElse c t (Some f))) @ verify_expr c
       @ verify_stmt t @ verify_stmt f"
| "verify_stmt (Case cs m) =
     concat (map (\<lambda>(c, s). complain (\<not> isBool (etype c)) (CondNotBool (Case cs m)) @ verify_expr c
       @ verify_stmt s) cs)"
| "verify_stmt (Switch cs e) =
     complain (\<not> isInteger (etype e)) (ControlNotInteger (Switch cs e)) @ verify_expr e
       @ concat (map (\<lambda>(c, s).
           complain (\<not> is_literal c \<or> \<not> isInteger (etype c)) (ClauseNotLiteral (Switch cs e))
             @ verify_stmt s) cs)"
| "verify_stmt (For v a b i s k pu uf vw) =
     (let op = For v a b i s k pu uf vw; t = etype v in
        complain (etype a \<noteq> t) (StartType op) @ complain (etype b \<noteq> t) (EndType op)
        @ complain (etype i \<noteq> t) (IncrementType op) @ complain (\<not> isVar v) (LoopVarNotVar op)
        @ verify_exprs [a, b, i] @ verify_stmt s)"
| "verify_stmt (While c s k vw) =
     complain (\<not> isBool (etype c)) (CondNotBool (While c s k vw)) @ verify_expr c @ verify_stmt s"
| "verify_stmt (Function n s is os) = verify_stmt s"
| "verify_stmt (VarDecl v r) =
     complain (\<not> isVar v) (LhsNotVar (VarDecl v r))
       @ complain (etype v \<noteq> etype r) (SideTypesDiffer (VarDecl v r)) @ verify_exprs [v, r]"
| "verify_stmt (Assign l r at pu) =
     complain (\<not> isVar l \<and> \<not> isGetProperty l) (LhsNotVar (Assign l r at pu))
       @ complain (etype l \<noteq> etype r) (SideTypesDiffer (Assign l r at pu)) @ verify_exprs [l, r]"
| "verify_stmt (Yield cs v) = verify_exprs (cs @ [v])"
| "verify_stmt (Allocate v n old re cl) =
     complain (\<not> isVar v \<and> \<not> isGetProperty v) (LhsNotVar (Allocate v n old re cl)) @ verify_expr n"
| "verify_stmt (Free v) = verify_expr v"
| "verify_stmt (Comment c) = []"
| "verify_stmt BlankLine = []"
| "verify_stmt (Print f es) = verify_exprs es"
| "verify_stmt Continue = []"
| "verify_stmt (Sort es) = verify_exprs es"
| "verify_stmt Break = []"

text \<open>The two entry points return whether there are messages.\<close>

definition verify_Expr :: "expr \<Rightarrow> bool \<times> message list" where
  "verify_Expr e = (let messages = verify_expr e in (messages \<noteq> [], messages))"

definition verify_Stmt :: "stmt \<Rightarrow> bool \<times> message list" where
  "verify_Stmt s = (let messages = verify_stmt s in (messages \<noteq> [], messages))"

subsection \<open>Properties\<close>

abbreviation accepted :: "expr \<Rightarrow> bool" where
  "accepted e \<equiv> verify_expr e = []"

lemma verify_binary_accepts:
  "verify_binary op t a b = [] \<longleftrightarrow>
     op \<noteq> OpRem \<and>
     (op \<in> {OpAdd, OpSub, OpMul, OpDiv, OpBitAnd, OpBitOr} \<longrightarrow> etype a = t \<and> etype b = t) \<and>
     (op \<in> {OpAnd, OpOr} \<longrightarrow> t = Bool \<and> etype a = Bool \<and> etype b = Bool) \<and>
     (op \<in> {OpEq, OpNeq, OpGt, OpLt, OpGte, OpLte} \<longrightarrow> etype a = etype b)"
  by (cases op)
    (auto simp: verify_operand_types_consistent_def verify_operand_types_consistent_with_result_def
      isBool_def)

lemma verify_binary_not_Rem: "verify_binary op t a b = [] \<Longrightarrow> op \<noteq> OpRem"
  by auto

text \<open>An accepted expression has no rejected part: the verifier reaches every node below it that
  the default traversal reaches, \<open>Rem\<close> apart, which it rejects.\<close>

theorem accepted_parts:
  assumes "accepted e" "x \<in> set (visit_expr e)"
  shows "accepted x"
  using assms
proof (induction e rule: visit_expr.induct)
  case (4 op t a b)
  then have "op \<noteq> OpRem" using verify_binary_not_Rem by auto
  with 4 show ?case by auto
qed (auto split: if_splits)

lemma accepted_parts_witness:
  "accepted (Var 0 ''i'' Int32 False False False) \<and>
   accepted (Binary OpAdd Int32 (Var 0 ''i'' Int32 False False False) (Var 1 ''j'' Int32 False False False))"
proof -
  let ?i = "Var 0 ''i'' Int32 False False False" and ?j = "Var 1 ''j'' Int32 False False False"
  have a: "accepted (Binary OpAdd Int32 ?i ?j)"
    by (simp add: verify_operand_types_consistent_with_result_def)
  have "accepted ?i" by (rule accepted_parts [OF a]) simp
  with a show ?thesis by blast
qed

text \<open>The entry points answer true for the expressions and statements that do have a message, that
  is, for the ill-formed ones, although they are documented to check well-formedness.\<close>

theorem verify_true_iff_rejected:
  "(fst (verify_Expr e) \<longleftrightarrow> (\<exists>m. m \<in> set (snd (verify_Expr e)))) \<and>
   (fst (verify_Stmt s) \<longleftrightarrow> (\<exists>m. m \<in> set (snd (verify_Stmt s))))"
  by (simp add: verify_Expr_def verify_Stmt_def Let_def ex_in_conv)

end
