(* ===== verification/IR_Semantics.thy ===== *)
theory IR_Semantics
  imports IR
begin

text \<open>
  The meaning of IR expressions: the reference that the simplifier and the PochiVM backend are
  checked against. It is the C semantics the nodes are printed to, with every node computing in the
  type it carries: integers at their width (wrapping, the signed ones too, whose overflow C leaves
  undefined: the generated code is taken to be compiled with wrap-around), floating-point operations by the machine's
  \<open>fpu\<close>, \<open>&&\<close> and \<open>||\<close> short-circuiting, division by zero and reads of unset variables or outside
  an array as failures. Every scalar value is an integer: a truth value 0 or 1, an integer, or the
  bit pattern of a float.
\<close>

subsection \<open>State\<close>

text \<open>A scalar or array is named by the identity of its variable, or by the tensor, property, mode
  and index of a \<open>GetProperty\<close> (all nodes for one property name one location).\<close>

datatype location = LVar nat | LProp nat TensorProperty int int

fun location_of :: "expr \<Rightarrow> location option" where
  "location_of (Var addr _ _ _ _ _) = Some (LVar addr)"
| "location_of (GetProperty _ _ (Var ta _ _ _ _ _) prop mode index _) = Some (LProp ta prop mode index)"
| "location_of _ = None"

record state =
  scalars :: "location \<Rightarrow> int option"
  arrays :: "location \<Rightarrow> int list option"
  ext_calls :: "string \<Rightarrow> int list \<Rightarrow> int res"

subsection \<open>Operators\<close>

text \<open>A value changes its representation only where the types differ.\<close>

definition convert :: "fpu \<Rightarrow> Datatype \<Rightarrow> Datatype \<Rightarrow> int \<Rightarrow> int" where
  "convert F from to x =
     (if from = to then x
      else if isFloat from \<or> isComplex from then conv to (fp_conv F from to x)
      else if isFloat to \<or> isComplex to then conv to (fp_of_int F to x)
      else conv to x)"

definition arith :: "fpu \<Rightarrow> binop \<Rightarrow> Datatype \<Rightarrow> int \<Rightarrow> int \<Rightarrow> int res" where
  "arith F op t x y =
     (if isIntegral t then
        (case op of
           OpAdd \<Rightarrow> ok (conv t (x + y))
         | OpSub \<Rightarrow> ok (conv t (x - y))
         | OpMul \<Rightarrow> ok (conv t (x * y))
         | OpDiv \<Rightarrow> (if y = 0 then err DivByZero else ok (conv t (c_div x y)))
         | OpRem \<Rightarrow> (if y = 0 then err DivByZero else ok (conv t (c_rem x y)))
         | OpBitAnd \<Rightarrow> ok (conv t (and x y))
         | OpBitOr \<Rightarrow> ok (conv t (or x y))
         | _ \<Rightarrow> err TypeError)
      else if isFloat t \<or> isComplex t then
        (case op of
           OpAdd \<Rightarrow> ok (fp_add F t x y)
         | OpSub \<Rightarrow> ok (fp_add F t x (fp_neg F t y))
         | OpMul \<Rightarrow> ok (fp_mul F t x y)
         | OpDiv \<Rightarrow> ok (fp_div F t x y)
         | _ \<Rightarrow> err TypeError)
      else err TypeError)"

definition compare :: "fpu \<Rightarrow> binop \<Rightarrow> Datatype \<Rightarrow> int \<Rightarrow> int \<Rightarrow> int res" where
  "compare F op t x y =
     (let gt = (if isFloat t then fp_gt F t x y else x > y);
          lt = (if isFloat t then fp_gt F t y x else x < y);
          eq = (if isFloat t \<or> isComplex t then fp_eq F t x y else x = y)
      in if t = Undefined then err TypeError
         else if isComplex t \<and> op \<noteq> OpEq \<and> op \<noteq> OpNeq then err TypeError
         else case op of
           OpEq \<Rightarrow> ok (of_bool eq)
         | OpNeq \<Rightarrow> ok (of_bool (\<not> eq))
         | OpGt \<Rightarrow> ok (of_bool gt)
         | OpLt \<Rightarrow> ok (of_bool lt)
         | OpGte \<Rightarrow> ok (of_bool (gt \<or> eq))
         | OpLte \<Rightarrow> ok (of_bool (lt \<or> eq))
         | _ \<Rightarrow> err TypeError)"

definition is_arith :: "binop \<Rightarrow> bool" where
  "is_arith op \<longleftrightarrow> op \<in> {OpAdd, OpSub, OpMul, OpDiv, OpRem, OpBitAnd, OpBitOr}"

definition is_compare :: "binop \<Rightarrow> bool" where
  "is_compare op \<longleftrightarrow> op \<in> {OpEq, OpNeq, OpGt, OpLt, OpGte, OpLte}"

definition binary_value :: "fpu \<Rightarrow> binop \<Rightarrow> Datatype \<Rightarrow> Datatype \<Rightarrow> Datatype \<Rightarrow> int \<Rightarrow> int \<Rightarrow> int res" where
  "binary_value F op t ta tb x y =
     (if is_arith op then arith F op t (convert F ta t x) (convert F tb t y)
      else bindR (max_type ta tb) (\<lambda>ct. compare F op ct (convert F ta ct x) (convert F tb ct y)))"

fun unary_value :: "fpu \<Rightarrow> unop \<Rightarrow> Datatype \<Rightarrow> int \<Rightarrow> int res" where
  "unary_value F OpNeg t x =
     (if isIntegral t then ok (conv t (- x))
      else if isFloat t \<or> isComplex t then ok (fp_neg F t x)
      else err TypeError)"
| "unary_value F OpSqrt t x = (if isFloat t then ok (fp_sqrt F t x) else err TypeError)"

definition pick :: "fpu \<Rightarrow> naryop \<Rightarrow> Datatype \<Rightarrow> int \<Rightarrow> int \<Rightarrow> int" where
  "pick F op t x y =
     (case op of
        OpMin \<Rightarrow> (if (if isFloat t then fp_gt F t y x else x < y) then x else y)
      | OpMax \<Rightarrow> (if (if isFloat t then fp_gt F t x y else x > y) then x else y))"

fun nary_value :: "fpu \<Rightarrow> naryop \<Rightarrow> Datatype \<Rightarrow> int list \<Rightarrow> int res" where
  "nary_value F op t [] = err TypeError"
| "nary_value F op t [x] = ok x"
| "nary_value F op t (x # xs) = bindR (nary_value F op t xs) (\<lambda>y. ok (pick F op t x y))"

definition sizeof_value :: "TensorType \<Rightarrow> int res" where
  "sizeof_value ty =
     bindR (getNumBytes (dtype ty)) (\<lambda>b. ok (conv UInt64 (b * prod_list (map (int \<circ> dim_size) (shape ty)))))"

definition read_array :: "state \<Rightarrow> expr \<Rightarrow> int \<Rightarrow> int res" where
  "read_array s arr i =
     (case location_of arr of
        None \<Rightarrow> err TypeError
      | Some l \<Rightarrow>
          (case arrays s l of
             None \<Rightarrow> err BadMemory
           | Some xs \<Rightarrow> (if 0 \<le> i \<and> i < int (length xs) then ok (xs ! nat i) else err BadMemory)))"

definition read_scalar :: "state \<Rightarrow> expr \<Rightarrow> int res" where
  "read_scalar s e =
     (case location_of e of
        None \<Rightarrow> err TypeError
      | Some l \<Rightarrow> (case scalars s l of None \<Rightarrow> err BadMemory | Some x \<Rightarrow> ok x))"

subsection \<open>Evaluation\<close>

text \<open>A variable or array element is read at the type of the node, as memory is.\<close>

definition typed :: "Datatype \<Rightarrow> int res \<Rightarrow> int res" where
  "typed t m = bindR m (\<lambda>x. ok (conv t x))"

fun eval :: "fpu \<Rightarrow> state \<Rightarrow> expr \<Rightarrow> int res" where
  "eval F s (Literal t v) = ok (member_get t v)"
| "eval F s (Var a n t p ts m) =
     (if p \<or> ts then err TypeError else typed t (read_scalar s (Var a n t p ts m)))"
| "eval F s (Unary op t a) = bindR (eval F s a) (\<lambda>x. unary_value F op t (convert F (etype a) t x))"
| "eval F s (Binary op t a b) =
     (if op = OpAnd then
        bindR (eval F s a) (\<lambda>x. if x = 0 then ok 0
          else bindR (eval F s b) (\<lambda>y. ok (of_bool (y \<noteq> 0))))
      else if op = OpOr then
        bindR (eval F s a) (\<lambda>x. if x \<noteq> 0 then ok 1
          else bindR (eval F s b) (\<lambda>y. ok (of_bool (y \<noteq> 0))))
      else
        bindR (eval F s a) (\<lambda>x. bindR (eval F s b) (\<lambda>y.
          binary_value F op t (etype a) (etype b) x y)))"
| "eval F s (Nary op t es) =
     bindR (mapR (\<lambda>e. bindR (eval F s e) (\<lambda>x. ok (convert F (etype e) t x))) es) (nary_value F op t)"
| "eval F s (Cast t a) = bindR (eval F s a) (\<lambda>x. ok (convert F (etype a) t x))"
| "eval F s (Call t f es) = bindR (mapR (eval F s) es) (\<lambda>xs. typed t (ext_calls s f xs))"
| "eval F s (Load t arr loc) = bindR (eval F s loc) (\<lambda>i. typed t (read_array s arr i))"
| "eval F s (Malloc t e) = err TypeError"
| "eval F s (Sizeof t ty) = sizeof_value ty"
| "eval F s (GetProperty a t tensor prop mode index n) =
     (if prop = PValues \<or> prop = PIndices then err TypeError
      else typed t (read_scalar s (GetProperty a t tensor prop mode index n)))"

end
