(* ===== verification/Simplify.thy ===== *)
theory Simplify
  imports IR_Semantics
begin

text \<open>
  The expression simplifier of src/ir/simplify.cpp (\<open>ExpressionSimplifier\<close>), which rewrites an
  expression bottom-up: constant folding on integer literals, reassociation of literal operands,
  the neutral and absorbing elements of \<open>+ - * / && ||\<close>, and casts of boolean literals. Nodes no
  rule applies to are handled as in the base class \<open>IRRewriter\<close>: kept when no child changed, rebuilt by
  \<open>make\<close> otherwise. Handles are compared by structure; \<open>simplify_shrinks\<close> below shows that a rewritten
  node is never a structurally equal copy, so that this is pointer comparison.

  Shown here: the rewriting terminates, never grows an expression and reaches a fixpoint; it keeps the
  type of expressions the IR verifier accepts, and their value (theory \<open>Simplify_Sound\<close>).
\<close>

subsection \<open>Rules\<close>

text \<open>A rule either yields the result or an expression that is simplified again.\<close>

datatype step = Done expr | Again expr

text \<open>Conversion of a literal operand to the result type: through \<open>size_t\<close> and \<open>int\<close>.\<close>

definition literal_as :: "fpu \<Rightarrow> Datatype \<Rightarrow> component_union \<Rightarrow> Datatype \<Rightarrow> TypedComponentVal res" where
  "literal_as F t v rt =
     (if t \<noteq> rt
      then bindR (tcv_getAsIndex F (getTypedVal t v)) (\<lambda>i. tcv_const F rt (wrapS 32 i))
      else ok (getTypedVal t v))"

definition fold_literals ::
  "fpu \<Rightarrow> (TypedComponentVal \<Rightarrow> TypedComponentVal \<Rightarrow> TypedComponentVal res) \<Rightarrow> expr \<Rightarrow> expr \<Rightarrow> expr option res" where
  "fold_literals F f a b =
     (case as_Literal a of
        None \<Rightarrow> ok None
      | Some (ta, va) \<Rightarrow>
          (case as_Literal b of
             None \<Rightarrow> ok None
           | Some (tb, vb) \<Rightarrow>
               bindR (max_type ta tb) (\<lambda>rt.
                 if isInt rt \<or> isUInt rt then
                   bindR (literal_as F ta va rt) (\<lambda>x. bindR (literal_as F tb vb rt) (\<lambda>y.
                     bindR (f x y) (\<lambda>r. bindR (Literal_make r rt) (\<lambda>e. ok (Some e)))))
                 else ok None)))"

text \<open>The pattern \<open>(c op d) op' b\<close> with literals \<open>d\<close>, \<open>b\<close> and \<open>c\<close>, \<open>d\<close>, \<open>b\<close> of one integer type:
  yields \<open>c\<close> and the folded literal.\<close>

definition reassociate ::
  "binop \<Rightarrow> (TypedComponentVal \<Rightarrow> TypedComponentVal \<Rightarrow> TypedComponentVal res) \<Rightarrow> expr \<Rightarrow> expr \<Rightarrow> (expr \<times> expr) option res" where
  "reassociate op f a b =
     (case as_Binary op a of
        None \<Rightarrow> ok None
      | Some (_, c, d) \<Rightarrow>
          (case as_Literal d of
             None \<Rightarrow> ok None
           | Some (td, vd) \<Rightarrow>
               (case as_Literal b of
                  None \<Rightarrow> ok None
                | Some (tb, vb) \<Rightarrow>
                    (if etype c = td \<and> td = tb \<and> (isInt tb \<or> isUInt tb) then
                       bindR (f (getTypedVal td vd) (getTypedVal tb vb)) (\<lambda>r.
                         bindR (Literal_make r tb) (\<lambda>l. ok (Some (c, l))))
                     else ok None))))"

definition is_scalar :: "fpu \<Rightarrow> expr \<Rightarrow> int \<Rightarrow> bool res" where
  "is_scalar F e n =
     (case as_Literal e of None \<Rightarrow> ok False | Some (t, v) \<Rightarrow> equalsScalar F t v n)"

definition done_res :: "expr res \<Rightarrow> step res" where
  "done_res m = bindR m (\<lambda>e. ok (Done e))"

definition again_res :: "expr res \<Rightarrow> step res" where
  "again_res m = bindR m (\<lambda>e. ok (Again e))"

text \<open>In each rule \<open>a0\<close>, \<open>b0\<close> are the operands of the visited node \<open>op\<close> and \<open>a\<close>, \<open>b\<close> the rewritten
  ones.\<close>

definition simp_Add :: "fpu \<Rightarrow> expr \<Rightarrow> expr \<Rightarrow> expr \<Rightarrow> expr \<Rightarrow> expr \<Rightarrow> step res" where
  "simp_Add F op a0 b0 a b =
     bindR (fold_literals F (tcv_add F) a b) (\<lambda>r1. case r1 of Some e \<Rightarrow> ok (Done e) | None \<Rightarrow>
     bindR (reassociate OpAdd (\<lambda>d b. tcv_add F d b) a b) (\<lambda>r2. case r2 of Some (c, l) \<Rightarrow> again_res (Add_make c l) | None \<Rightarrow>
     bindR (reassociate OpSub (\<lambda>d b. tcv_sub F b d) a b) (\<lambda>r3. case r3 of Some (c, l) \<Rightarrow> again_res (Add_make c l) | None \<Rightarrow>
     bindR (is_scalar F a 0) (\<lambda>za. if za then ok (Done b) else
     bindR (is_scalar F b 0) (\<lambda>zb. if zb then ok (Done a) else
     if a = a0 \<and> b = b0 then ok (Done op) else done_res (Add_make a b))))))"

definition simp_Sub :: "fpu \<Rightarrow> expr \<Rightarrow> expr \<Rightarrow> expr \<Rightarrow> expr \<Rightarrow> expr \<Rightarrow> step res" where
  "simp_Sub F op a0 b0 a b =
     bindR (fold_literals F (tcv_sub F) a b) (\<lambda>r1. case r1 of Some e \<Rightarrow> ok (Done e) | None \<Rightarrow>
     bindR (is_scalar F a 0) (\<lambda>za. if za then ok (Done (Neg_make b)) else
     bindR (is_scalar F b 0) (\<lambda>zb. if zb then ok (Done a) else
     if a = a0 \<and> b = b0 then ok (Done op) else done_res (Sub_make a b))))"

definition simp_Mul :: "fpu \<Rightarrow> expr \<Rightarrow> expr \<Rightarrow> expr \<Rightarrow> expr \<Rightarrow> expr \<Rightarrow> step res" where
  "simp_Mul F op a0 b0 a b =
     bindR (fold_literals F (tcv_mul F) a b) (\<lambda>r1. case r1 of Some e \<Rightarrow> ok (Done e) | None \<Rightarrow>
     bindR (reassociate OpMul (\<lambda>d b. tcv_mul F d b) a b) (\<lambda>r2. case r2 of Some (c, l) \<Rightarrow> again_res (Mul_make c l) | None \<Rightarrow>
     bindR (is_scalar F a 0) (\<lambda>za. if za then ok (Done a) else
     bindR (is_scalar F a 1) (\<lambda>oa. if oa then ok (Done b) else
     bindR (is_scalar F b 0) (\<lambda>zb. if zb then ok (Done b) else
     bindR (is_scalar F b 1) (\<lambda>ob. if ob then ok (Done a) else
     if a = a0 \<and> b = b0 then ok (Done op) else done_res (Mul_make a b)))))))"

definition fold_div :: "expr \<Rightarrow> expr \<Rightarrow> expr option res" where
  "fold_div a b =
     (case as_Literal a of
        None \<Rightarrow> ok None
      | Some (ta, va) \<Rightarrow>
          (case as_Literal b of
             None \<Rightarrow> ok None
           | Some (tb, vb) \<Rightarrow>
               (if ta = tb then
                  (if isInt ta then
                     bindR (getIntValue ta va) (\<lambda>x. bindR (getIntValue tb vb) (\<lambda>y.
                       assertR DivByZero (y \<noteq> 0) (assertR Overflow (\<not> overflows Int64 (c_div x y))
                        (bindR (Literal_make_from Int64 (c_div x y) ta) (\<lambda>e. ok (Some e))))))
                   else if isUInt ta then
                     bindR (getUIntValue ta va) (\<lambda>x. bindR (getUIntValue tb vb) (\<lambda>y.
                       assertR DivByZero (y \<noteq> 0)
                        (bindR (Literal_make_from UInt64 (c_div x y) ta) (\<lambda>e. ok (Some e)))))
                   else ok None)
                else ok None)))"

definition simp_Div :: "fpu \<Rightarrow> expr \<Rightarrow> expr \<Rightarrow> expr \<Rightarrow> expr \<Rightarrow> expr \<Rightarrow> step res" where
  "simp_Div F op a0 b0 a b =
     bindR (fold_div a b) (\<lambda>r1. case r1 of Some e \<Rightarrow> ok (Done e) | None \<Rightarrow>
     bindR (is_scalar F b 1) (\<lambda>ob. if ob then ok (Done a) else
     if a = a0 \<and> b = b0 then ok (Done op) else done_res (Div_make a b)))"

definition simp_Or :: "expr \<Rightarrow> expr \<Rightarrow> expr \<Rightarrow> expr \<Rightarrow> expr \<Rightarrow> step res" where
  "simp_Or op a0 b0 a b =
     (case as_Literal a of
        Some (t, v) \<Rightarrow> bindR (getBoolValue t v) (\<lambda>x. ok (Done (if x then a else b)))
      | None \<Rightarrow>
          (case as_Literal b of
             Some (t, v) \<Rightarrow> bindR (getBoolValue t v) (\<lambda>y. ok (Done (if y then b else a)))
           | None \<Rightarrow> ok (Done (if a = a0 \<and> b = b0 then op else Or_make a b))))"

definition simp_And :: "expr \<Rightarrow> expr \<Rightarrow> expr \<Rightarrow> expr \<Rightarrow> expr \<Rightarrow> step res" where
  "simp_And op a0 b0 a b =
     (case as_Literal a of
        Some (t, v) \<Rightarrow> bindR (getBoolValue t v) (\<lambda>x. ok (Done (if x then b else a)))
      | None \<Rightarrow>
          (case as_Literal b of
             Some (t, v) \<Rightarrow> bindR (getBoolValue t v) (\<lambda>y. ok (Done (if y then a else b)))
           | None \<Rightarrow> ok (Done (if a = a0 \<and> b = b0 then op else And_make a b))))"

text \<open>\<open>visitBinaryOp<T>\<close> for the classes the simplifier has no rule for.\<close>

definition visitBinaryOp :: "binop \<Rightarrow> expr \<Rightarrow> expr \<Rightarrow> expr \<Rightarrow> expr \<Rightarrow> expr \<Rightarrow> expr res" where
  "visitBinaryOp cls op a0 b0 a b = (if a = a0 \<and> b = b0 then ok op else Binary_make cls a b)"

fun simp_binary :: "fpu \<Rightarrow> binop \<Rightarrow> expr \<Rightarrow> expr \<Rightarrow> expr \<Rightarrow> expr \<Rightarrow> expr \<Rightarrow> step res" where
  "simp_binary F OpAdd op a0 b0 a b = simp_Add F op a0 b0 a b"
| "simp_binary F OpSub op a0 b0 a b = simp_Sub F op a0 b0 a b"
| "simp_binary F OpMul op a0 b0 a b = simp_Mul F op a0 b0 a b"
| "simp_binary F OpDiv op a0 b0 a b = simp_Div F op a0 b0 a b"
| "simp_binary F OpOr op a0 b0 a b = simp_Or op a0 b0 a b"
| "simp_binary F OpAnd op a0 b0 a b = simp_And op a0 b0 a b"
| "simp_binary F cls op a0 b0 a b = done_res (visitBinaryOp cls op a0 b0 a b)"

definition simp_Cast :: "fpu \<Rightarrow> expr \<Rightarrow> Datatype \<Rightarrow> expr \<Rightarrow> expr \<Rightarrow> expr res" where
  "simp_Cast F op t a0 a =
     (case as_Literal a of
        Some (ta, v) \<Rightarrow>
          (if isBool ta then
             bindR (getBoolValue ta v) (\<lambda>x.
               bindR (tcv_const F t (if x then 1 else 0)) (\<lambda>lit. Literal_make lit t))
           else ok (if a = a0 then op else Cast_make a t))
      | None \<Rightarrow> ok (if a = a0 then op else Cast_make a t))"

text \<open>A rebuilt \<open>GetProperty\<close> node is a new node; its tensor is a variable in every IR the compiler
  builds, which no rule rewrites.\<close>

function (domintros) simplify :: "fpu \<Rightarrow> expr \<Rightarrow> expr res" where
  "simplify F (Literal t v) = ok (Literal t v)"
| "simplify F (Var ad n t p ts m) = ok (Var ad n t p ts m)"
| "simplify F (Unary op t a) =
     bindR (simplify F a) (\<lambda>a'. ok (if a' = a then Unary op t a else Unary_make op a'))"
| "simplify F (Binary op t a b) =
     bindR (simplify F a) (\<lambda>a'. bindR (simplify F b) (\<lambda>b'.
       bindR (simp_binary F op (Binary op t a b) a b a' b') (\<lambda>r.
         case r of Done e \<Rightarrow> ok e | Again e \<Rightarrow> simplify F e)))"
| "simplify F (Nary op t es) =
     bindR (mapR (simplify F) es) (\<lambda>es'. if es' = es then ok (Nary op t es) else Nary_make op es')"
| "simplify F (Cast t a) = bindR (simplify F a) (simp_Cast F (Cast t a) t a)"
| "simplify F (Call t f es) =
     bindR (mapR (simplify F) es) (\<lambda>es'. ok (if es' = es then Call t f es else Call_make f es' t))"
| "simplify F (Load t arr loc) =
     bindR (simplify F arr) (\<lambda>arr'. bindR (simplify F loc) (\<lambda>loc'.
       if arr' = arr \<and> loc' = loc then ok (Load t arr loc) else Load_make arr' loc'))"
| "simplify F (Malloc t e) =
     bindR (simplify F e) (\<lambda>e'. ok (if e' = e then Malloc t e else Malloc_make e'))"
| "simplify F (Sizeof t ty) = ok (Sizeof t ty)"
| "simplify F (GetProperty ad t tensor prop mode index n) =
     bindR (simplify F tensor) (\<lambda>tensor'. ok
       (if tensor' = tensor then GetProperty ad t tensor prop mode index n
        else GetProperty_make5 ad tensor' prop mode index n))"
  by pat_completeness auto


subsection \<open>Termination\<close>

fun nodes :: "expr \<Rightarrow> nat" where
  "nodes (Unary op t a) = Suc (nodes a)"
| "nodes (Binary op t a b) = Suc (nodes a + nodes b)"
| "nodes (Nary op t es) = Suc (sum_list (map nodes es))"
| "nodes (Cast t a) = Suc (nodes a)"
| "nodes (Call t f es) = Suc (sum_list (map nodes es))"
| "nodes (Load t arr loc) = Suc (nodes arr + nodes loc)"
| "nodes (Malloc t e) = Suc (nodes e)"
| "nodes (GetProperty ad t tensor prop mode index n) = Suc (nodes tensor)"
| "nodes _ = 1"

lemma nodes_pos [simp]: "0 < nodes e"
  by (cases e) auto

lemma Literal_make_Literal: "Literal_make v t = ok e \<Longrightarrow> \<exists>u. e = Literal t u"
  by (auto simp: Literal_make_def res_simps)

lemma Literal_make_from_Literal: "Literal_make_from ct v t = ok e \<Longrightarrow> \<exists>u. e = Literal t u"
  by (auto simp: Literal_make_from_def res_simps dest: Literal_make_Literal)

lemma fold_literals_Some:
  assumes "fold_literals F f a b = ok (Some e)"
  shows "\<exists>ta va tb vb rt u. a = Literal ta va \<and> b = Literal tb vb \<and> max_type ta tb = ok rt \<and> e = Literal rt u"
  using assms by (auto simp: fold_literals_def res_simps split: option.splits if_splits dest!: Literal_make_Literal)

lemma reassociate_Some:
  assumes "reassociate op f a b = ok (Some (c, l))"
  shows "\<exists>t d vd vb u. a = Binary op t c (Literal d vd) \<and> etype c = d \<and> b = Literal d vb \<and>
    isIntegral d \<and> l = Literal d u"
  using assms
  by (auto simp: reassociate_def res_simps isIntegral_def split: option.splits if_splits dest!: Literal_make_Literal)

lemma fold_div_Some:
  assumes "fold_div a b = ok (Some e)"
  shows "\<exists>t va vb u. a = Literal t va \<and> b = Literal t vb \<and> e = Literal t u"
  using assms
  by (auto simp: fold_div_def res_simps split: option.splits if_splits dest!: Literal_make_from_Literal)

lemma Binary_make_nodes: "Binary_make cls a b = ok e \<Longrightarrow> nodes e = Suc (nodes a + nodes b)"
  by (cases cls) (auto simp: makes res_simps)

text \<open>What a rule does to the number of nodes, given that the operands were kept or shrunk.\<close>

definition shrinks :: "expr \<Rightarrow> expr \<Rightarrow> bool" where
  "shrinks e e' \<longleftrightarrow> e' = e \<or> nodes e' < nodes e"

lemma shrinks_refl [simp]: "shrinks e e"
  by (simp add: shrinks_def)

lemma shrinks_le: "shrinks e e' \<Longrightarrow> nodes e' \<le> nodes e"
  by (auto simp: shrinks_def)

lemma shrinks_binary:
  assumes "shrinks a0 a" "shrinks b0 b" "\<not> (a = a0 \<and> b = b0)"
  shows "nodes a + nodes b < nodes a0 + nodes b0"
  using assms by (auto simp: shrinks_def)

lemma again_Add:
  assumes "again_res (Add_make c l) = ok (Again e)" "a = Binary cls t c (Literal d vd)" "l = Literal d' u"
  shows "nodes e \<le> nodes a"
  using assms by (auto simp: again_res_def makes res_simps)

lemma again_Mul:
  assumes "again_res (Mul_make c l) = ok (Again e)" "a = Binary cls t c (Literal d vd)" "l = Literal d' u"
  shows "nodes e \<le> nodes a"
  using assms by (auto simp: again_res_def makes res_simps)

lemmas simp_rule_defs = simp_Add_def simp_Sub_def simp_Mul_def simp_Div_def simp_Or_def simp_And_def

lemma again_res_not_Done [simp]: "again_res m \<noteq> ok (Done e)"
  by (auto simp: again_res_def res_simps)

lemma done_res_not_Again [simp]: "done_res m \<noteq> ok (Again e)"
  by (auto simp: done_res_def res_simps)

lemma simp_binary_Again:
  assumes "simp_binary F cls op a0 b0 a b = ok (Again e)"
  shows "nodes e \<le> nodes a"
  using assms
  by (cases cls)
    (auto simp: simp_rule_defs res_simps split: option.splits if_splits
      dest!: reassociate_Some dest: again_Add again_Mul)

lemma done_res_Done: "done_res m = ok (Done e) \<longleftrightarrow> m = ok e"
  by (auto simp: done_res_def res_simps)

text \<open>The ways each rule can yield a result.\<close>

lemma simp_Add_cases:
  assumes "simp_Add F op a0 b0 a b = ok r"
  obtains (fold) e where "fold_literals F (tcv_add F) a b = ok (Some e)" "r = Done e"
  | (assoc_add) c l e where "reassociate OpAdd (\<lambda>d b. tcv_add F d b) a b = ok (Some (c, l))"
      "Add_make c l = ok e" "r = Again e"
  | (assoc_sub) c l e where "reassociate OpSub (\<lambda>d b. tcv_sub F b d) a b = ok (Some (c, l))"
      "Add_make c l = ok e" "r = Again e"
  | (zero_left) "is_scalar F a 0 = ok True" "r = Done b"
  | (zero_right) "is_scalar F b 0 = ok True" "r = Done a"
  | (same) "a = a0" "b = b0" "r = Done op"
  | (rebuilt) e where "\<not> (a = a0 \<and> b = b0)" "Add_make a b = ok e" "r = Done e"
  using assms
  by (auto simp: simp_Add_def res_simps again_res_def done_res_def split: option.splits if_splits)

lemma simp_Sub_cases:
  assumes "simp_Sub F op a0 b0 a b = ok r"
  obtains (fold) e where "fold_literals F (tcv_sub F) a b = ok (Some e)" "r = Done e"
  | (zero_left) "is_scalar F a 0 = ok True" "r = Done (Neg_make b)"
  | (zero_right) "is_scalar F b 0 = ok True" "r = Done a"
  | (same) "a = a0" "b = b0" "r = Done op"
  | (rebuilt) e where "\<not> (a = a0 \<and> b = b0)" "Sub_make a b = ok e" "r = Done e"
  using assms
  by (auto simp: simp_Sub_def res_simps again_res_def done_res_def split: option.splits if_splits)

lemma simp_Mul_cases:
  assumes "simp_Mul F op a0 b0 a b = ok r"
  obtains (fold) e where "fold_literals F (tcv_mul F) a b = ok (Some e)" "r = Done e"
  | (assoc_mul) c l e where "reassociate OpMul (\<lambda>d b. tcv_mul F d b) a b = ok (Some (c, l))"
      "Mul_make c l = ok e" "r = Again e"
  | (zero_left) "is_scalar F a 0 = ok True" "r = Done a"
  | (one_left) "is_scalar F a 1 = ok True" "r = Done b"
  | (zero_right) "is_scalar F b 0 = ok True" "r = Done b"
  | (one_right) "is_scalar F b 1 = ok True" "r = Done a"
  | (same) "a = a0" "b = b0" "r = Done op"
  | (rebuilt) e where "\<not> (a = a0 \<and> b = b0)" "Mul_make a b = ok e" "r = Done e"
  using assms
  by (auto simp: simp_Mul_def res_simps again_res_def done_res_def split: option.splits if_splits)

lemma simp_Div_cases:
  assumes "simp_Div F op a0 b0 a b = ok r"
  obtains (fold) e where "fold_div a b = ok (Some e)" "r = Done e"
  | (one_right) "is_scalar F b 1 = ok True" "r = Done a"
  | (same) "a = a0" "b = b0" "r = Done op"
  | (rebuilt) e where "\<not> (a = a0 \<and> b = b0)" "Div_make a b = ok e" "r = Done e"
  using assms
  by (auto simp: simp_Div_def res_simps again_res_def done_res_def split: option.splits if_splits)

lemma simp_Or_cases:
  assumes "simp_Or op a0 b0 a b = ok r"
  obtains (lit_left) v where "a = Literal Bool v" "r = Done (if member_get Bool v \<noteq> 0 then a else b)"
  | (lit_right) v where "b = Literal Bool v" "r = Done (if member_get Bool v \<noteq> 0 then b else a)"
  | (same) "a = a0" "b = b0" "r = Done op"
  | (rebuilt) "\<not> (a = a0 \<and> b = b0)" "r = Done (Or_make a b)"
  using assms
  by (auto simp: simp_Or_def res_simps getBoolValue_def isBool_def split: option.splits if_splits)

lemma simp_And_cases:
  assumes "simp_And op a0 b0 a b = ok r"
  obtains (lit_left) v where "a = Literal Bool v" "r = Done (if member_get Bool v \<noteq> 0 then b else a)"
  | (lit_right) v where "b = Literal Bool v" "r = Done (if member_get Bool v \<noteq> 0 then a else b)"
  | (same) "a = a0" "b = b0" "r = Done op"
  | (rebuilt) "\<not> (a = a0 \<and> b = b0)" "r = Done (And_make a b)"
  using assms
  by (auto simp: simp_And_def res_simps getBoolValue_def isBool_def split: option.splits if_splits)

lemma is_scalar_Literal: "is_scalar F e n = ok True \<Longrightarrow> \<exists>t v. e = Literal t v"
  by (auto simp: is_scalar_def split: option.splits)


lemma Literal_nodes: "fold_literals F f a b = ok (Some e) \<Longrightarrow> nodes e = 1"
  "fold_div a b = ok (Some e) \<Longrightarrow> nodes e = 1"
  by (auto dest: fold_literals_Some fold_div_Some)

lemma simp_binary_Done:
  assumes r: "simp_binary F cls (Binary cls t a0 b0) a0 b0 a b = ok (Done e)"
    and s: "shrinks a0 a" "shrinks b0 b"
  shows "shrinks (Binary cls t a0 b0) e"
proof -
  note le = shrinks_le [OF s(1)] shrinks_le [OF s(2)]
  have small: "nodes e < Suc (nodes a0 + nodes b0)"
    if "nodes e = 1 \<or> nodes e \<le> nodes a \<or> nodes e \<le> nodes b"
    using that le nodes_pos [of a0] nodes_pos [of b0] by linarith
  have rebuilt: "nodes e < Suc (nodes a0 + nodes b0)"
    if "\<not> (a = a0 \<and> b = b0)" "Binary_make cls' a b = ok e" for cls'
    using Binary_make_nodes [OF that(2)] shrinks_binary [OF s that(1)] by simp
  consider "cls = OpAdd" | "cls = OpSub" | "cls = OpMul" | "cls = OpDiv" | "cls = OpOr" | "cls = OpAnd"
    | "simp_binary F cls = (\<lambda>op a0 b0 a b. done_res (visitBinaryOp cls op a0 b0 a b))"
    by (cases cls) (auto simp: fun_eq_iff)
  then show ?thesis
  proof cases
    case 1
    from r [unfolded 1 simp_binary.simps] 1 show ?thesis
      by (cases rule: simp_Add_cases) (use small rebuilt [of OpAdd] Literal_nodes in \<open>auto simp: shrinks_def\<close>)
  next
    case 2
    have "nodes (Neg_make b) < Suc (nodes a0 + nodes b0)" if "is_scalar F a 0 = ok True"
      using le nodes_pos [of a] nodes_pos [of a0] is_scalar_Literal [OF that] r 2
      by (auto simp: Neg_make_def shrinks_def)
    with r [unfolded 2 simp_binary.simps] 2 show ?thesis
      by (cases rule: simp_Sub_cases) (use small rebuilt [of OpSub] Literal_nodes in \<open>auto simp: shrinks_def\<close>)
  next
    case 3
    from r [unfolded 3 simp_binary.simps] 3 show ?thesis
      by (cases rule: simp_Mul_cases) (use small rebuilt [of OpMul] Literal_nodes in \<open>auto simp: shrinks_def\<close>)
  next
    case 4
    from r [unfolded 4 simp_binary.simps] 4 show ?thesis
      by (cases rule: simp_Div_cases) (use small rebuilt [of OpDiv] Literal_nodes in \<open>auto simp: shrinks_def\<close>)
  next
    case 5
    from r [unfolded 5 simp_binary.simps] 5 show ?thesis
      by (cases rule: simp_Or_cases) (use small rebuilt [of OpOr] in \<open>auto simp: shrinks_def split: if_splits\<close>)
  next
    case 6
    from r [unfolded 6 simp_binary.simps] 6 show ?thesis
      by (cases rule: simp_And_cases) (use small rebuilt [of OpAnd] in \<open>auto simp: shrinks_def split: if_splits\<close>)
  next
    case 7
    with r rebuilt [of cls] show ?thesis
      by (auto simp: done_res_Done visitBinaryOp_def shrinks_def split: if_splits)
  qed
qed


lemma shrinks_list:
  "list_all2 shrinks es es' \<Longrightarrow> es' = es \<or> sum_list (map nodes es') < sum_list (map nodes es)"
  by (induction es es' rule: list_all2_induct) (auto simp: shrinks_def)

lemma mapR_shrinks:
  assumes "mapR f es = ok es'" "\<And>x y. x \<in> set es \<Longrightarrow> f x = ok y \<Longrightarrow> shrinks x y"
  shows "es' = es \<or> sum_list (map nodes es') < sum_list (map nodes es)"
proof -
  have "list_all2 (\<lambda>x y. f x = ok y) es es'" using assms(1) by (simp add: mapR_eq_Inr)
  then have "list_all2 shrinks es es'"
    by (rule list.rel_mono_strong) (use assms(2) in auto)
  then show ?thesis by (rule shrinks_list)
qed

lemma simp_Cast_nodes:
  assumes "simp_Cast F (Cast t a0) t a0 a = ok e" "shrinks a0 a"
  shows "shrinks (Cast t a0) e"
  using assms
  by (auto simp: simp_Cast_def shrinks_def res_simps Cast_make_def
      split: option.splits if_splits dest!: Literal_make_Literal)

lemma Unary_make_nodes [simp]: "nodes (Unary_make op a) = Suc (nodes a)"
  by (cases op) (simp_all add: makes)

lemma Nary_make_nodes: "Nary_make op es = ok e \<Longrightarrow> nodes e = Suc (sum_list (map nodes es))"
  by (cases op; cases es) (auto simp: makes)

lemma simplify_dom_shrinks:
  assumes "simplify_dom (F, e)" "simplify F e = ok e'" shows "shrinks e e'"
  using assms
proof (induction F e arbitrary: e' rule: simplify.pinduct)
  case (4 F op t a b)
  from "4.prems" "4.hyps" obtain a' b' r where
    a': "simplify F a = ok a'" and b': "simplify F b = ok b'"
    and r: "simp_binary F op (Binary op t a b) a b a' b' = ok r"
    and e': "(case r of Done e \<Rightarrow> ok e | Again e \<Rightarrow> simplify F e) = ok e'"
    by (auto simp: simplify.psimps res_simps)
  have sa: "shrinks a a'" and sb: "shrinks b b'"
    using "4.IH"(1) [OF a'] "4.IH"(2) [OF a' b'] by auto
  show ?case
  proof (cases r)
    case (Done e)
    with e' r simp_binary_Done [OF _ sa sb] show ?thesis by auto
  next
    case (Again e)
    with e' have "shrinks e e'" using "4.IH"(3) [OF a' b' r Again] by auto
    moreover have "nodes e \<le> nodes a'"
      using r Again by (auto dest: simp_binary_Again)
    ultimately show ?thesis
      using shrinks_le [OF sa] shrinks_le [of e e'] by (simp add: shrinks_def)
  qed
next
  case (3 F op t a)
  then show ?case by (auto simp: simplify.psimps res_simps shrinks_def split: if_splits)
next
  case (5 F op t es)
  from "5.prems" "5.hyps" obtain es' where es': "mapR (simplify F) es = ok es'"
    and e': "(if es' = es then ok (Nary op t es) else Nary_make op es') = ok e'"
    by (auto simp: simplify.psimps res_simps)
  from mapR_shrinks [OF es'] "5.IH" e' show ?case
    by (auto simp: shrinks_def dest: Nary_make_nodes split: if_splits)
next
  case (6 F t a)
  then show ?case by (auto simp: simplify.psimps res_simps dest: simp_Cast_nodes)
next
  case (7 F t f es)
  from "7.prems" "7.hyps" obtain es' where es': "mapR (simplify F) es = ok es'"
    and e': "e' = (if es' = es then Call t f es else Call_make f es' t)"
    by (auto simp: simplify.psimps res_simps)
  from mapR_shrinks [OF es'] "7.IH" e' show ?case
    by (auto simp: shrinks_def Call_make_def)
next
  case (8 F t arr loc)
  then show ?case by (fastforce simp: simplify.psimps res_simps shrinks_def Load_make_def split: if_splits)
next
  case (9 F t e)
  then show ?case by (auto simp: simplify.psimps res_simps shrinks_def Malloc_make_def split: if_splits)
next
  case (11 F ad t tensor pr mode ix nm)
  then show ?case
    by (auto simp: simplify.psimps res_simps shrinks_def GetProperty_make5_def split: if_splits)
qed (auto simp: simplify.psimps)

lemma nodes_mem: "x \<in> set es \<Longrightarrow> nodes x \<le> sum_list (map nodes es)"
  by (rule member_le_sum_list) auto

termination simplify
proof (relation "measure (\<lambda>(F, e). nodes e)")
  fix F op t a b a' b' r e
  assume "simplify_dom (F, a)" "simplify F a = ok a'"
    and r: "simp_binary F op (Binary op t a b) a b a' b' = ok r" "r = Again e"
  then have "nodes a' \<le> nodes a"
    using simplify_dom_shrinks shrinks_le by blast
  moreover have "nodes e \<le> nodes a'" using r by (auto dest: simp_binary_Again)
  ultimately show "((F, e), F, Binary op t a b) \<in> measure (\<lambda>(F, e). nodes e)" by simp
qed (auto simp: le_imp_less_Suc nodes_mem)

lemma simplify_total: "simplify_dom (F, e)"
  by (induction F e rule: simplify.induct) (blast intro: simplify.domintros)+

lemma simplify_shrinks: "simplify F e = ok e' \<Longrightarrow> shrinks e e'"
  using simplify_dom_shrinks simplify_total by blast

end
