(* ===== verification/Simplify_Sound.thy ===== *)
theory Simplify_Sound
  imports Simplify IR_Verifier
begin

text \<open>
  The simplifier against the semantics of expressions: on expressions built by the constructors and
  accepted by the verifier it keeps the type, the invariants and the value. Floating-point operands
  are excluded from its literal rules, which are not valid in IEEE arithmetic (\<open>0 * x\<close>, \<open>0 + x\<close>).
\<close>

subsection \<open>Well-formed expressions\<close>

text \<open>A non-integral operand that no literal rule fires on: one that is not and cannot become a
  literal, or a literal other than 0 and 1.\<close>

fun inert :: "fpu \<Rightarrow> expr \<Rightarrow> bool" where
  "inert F (Literal t v) \<longleftrightarrow> equalsScalar F t v 0 = ok False \<and> equalsScalar F t v 1 = ok False"
| "inert F (Cast t a) \<longleftrightarrow> etype a \<noteq> Bool"
| "inert F _ \<longleftrightarrow> True"

fun inert_node :: "fpu \<Rightarrow> expr \<Rightarrow> bool" where
  "inert_node F (Binary op t a b) \<longleftrightarrow>
     (op \<in> {OpAdd, OpSub, OpMul, OpDiv} \<longrightarrow> isFloat t \<or> isComplex t \<longrightarrow> inert F a \<and> inert F b)"
| "inert_node F _ \<longleftrightarrow> True"

definition inert_floats :: "fpu \<Rightarrow> expr \<Rightarrow> bool" where
  "inert_floats F e \<longleftrightarrow> (\<forall>x \<in> set (visit_expr e). inert_node F x)"

lemma inert_floats_simps [simp]:
  "inert_floats F (Literal t v)"
  "inert_floats F (Var ad n t p ts m)"
  "inert_floats F (Unary uop t a) \<longleftrightarrow> inert_floats F a"
  "inert_floats F (Binary op t a b) \<longleftrightarrow> inert_node F (Binary op t a b) \<and> inert_floats F a \<and> inert_floats F b"
  "inert_floats F (Nary nop' t es) \<longleftrightarrow> (\<forall>e \<in> set es. inert_floats F e)"
  "inert_floats F (Cast t a) \<longleftrightarrow> inert_floats F a"
  "inert_floats F (Call t f es) \<longleftrightarrow> (\<forall>e \<in> set es. inert_floats F e)"
  "inert_floats F (Load t arr loc) \<longleftrightarrow> inert_floats F arr \<and> inert_floats F loc"
  "inert_floats F (Malloc t e) \<longleftrightarrow> inert_floats F e"
  "inert_floats F (Sizeof t ty)"
  "inert_floats F (GetProperty ad t tensor pr mode ix nm) \<longleftrightarrow> inert_floats F tensor"
  by (auto simp: inert_floats_def simp del: inert_node.simps(1))

definition good :: "fpu \<Rightarrow> expr \<Rightarrow> bool" where
  "good F e \<longleftrightarrow> accepted e \<and> made e \<and> inert_floats F e"

definition arith_op :: "binop \<Rightarrow> bool" where
  "arith_op op \<longleftrightarrow> op \<in> {OpAdd, OpSub, OpMul, OpDiv}"

text \<open>The type rule of a binary node that is accepted and was made by its constructor.\<close>

definition binary_ok :: "fpu \<Rightarrow> binop \<Rightarrow> Datatype \<Rightarrow> expr \<Rightarrow> expr \<Rightarrow> bool" where
  "binary_ok F op t a b \<longleftrightarrow>
     (if arith_op op then
        etype a = t \<and> etype b = t \<and> no_bool_operand op a \<and> no_bool_operand op b \<and>
        (isFloat t \<or> isComplex t \<longrightarrow> inert F a \<and> inert F b)
      else if op \<in> {OpBitAnd, OpBitOr} then t = UInt32 \<and> etype a = t \<and> etype b = t
      else if op \<in> {OpAnd, OpOr} then t = Bool \<and> etype a = t \<and> etype b = t
      else op \<noteq> OpRem \<and> t = Bool \<and> etype a = etype b)"

lemma good_simps [simp]:
  "good F (Literal t v) \<longleftrightarrow> t \<noteq> Undefined"
  "good F (Var ad n t p ts m)"
  "good F (Unary uop t a) \<longleftrightarrow> t = etype a \<and> good F a"
  "good F (Nary nop' t es) \<longleftrightarrow> (\<forall>e \<in> set es. etype e = t \<and> good F e)"
  "good F (Cast t a) \<longleftrightarrow> good F a"
  "good F (Call t f es) \<longleftrightarrow> (\<forall>e \<in> set es. good F e)"
  "good F (Load t arr loc) \<longleftrightarrow> t = etype arr \<and> isInteger (etype loc) \<and> good F arr \<and> good F loc"
  "good F (Malloc t e) \<longleftrightarrow> t = Float64 \<and> good F e"
  "good F (Sizeof t ty) \<longleftrightarrow> t = UInt64"
  "good F (GetProperty ad t tensor pr mode ix nm) \<longleftrightarrow>
     t = (if pr = PValues then etype tensor else Int32) \<and> good F tensor"
  by (auto simp: good_def isInteger_def)

lemma good_Binary [simp]:
  "good F (Binary op t a b) \<longleftrightarrow> binary_ok F op t a b \<and> good F a \<and> good F b"
proof -
  have "good F (Binary op t a b) \<longleftrightarrow>
    verify_binary op t a b = [] \<and> op \<noteq> OpRem \<and> made_node (Binary op t a b) \<and> inert_node F (Binary op t a b)
    \<and> good F a \<and> good F b"
    by (auto simp: good_def simp del: made_node.simps inert_node.simps)
  also have "\<dots> \<longleftrightarrow> binary_ok F op t a b \<and> good F a \<and> good F b"
    by (cases op) (auto simp: verify_binary_accepts binary_ok_def arith_op_def simp del: verify_binary.simps)
  finally show ?thesis .
qed

subsection \<open>Values have the type of the expression\<close>

lemma conv_idem: "conv t (conv t x) = conv t x"
proof (cases "isIntegral t \<or> t = Bool")
  case True
  then show ?thesis using conv.cv_idem by auto
next
  case False
  then have "conv t y = wrapU (member_bits t) y" for y
    by (simp only: conv_def isIntegral_def de_Morgan_disj if_False)
  then show ?thesis by (simp only: wrapU_def mod_mod_trivial)
qed

definition discrete :: "Datatype \<Rightarrow> bool" where
  "discrete t \<longleftrightarrow> isIntegral t \<or> t = Bool"

lemma conv_of_bool [simp]: "conv Bool (of_bool b) = of_bool b"
  by simp

lemma convert_typed: "(from = to \<Longrightarrow> conv to x = x) \<Longrightarrow> conv to (convert F from to x) = convert F from to x"
  by (auto simp: convert_def conv_idem)

lemma arith_integral: "arith F op t x y = ok v \<Longrightarrow> isIntegral t \<Longrightarrow> \<exists>w. v = conv t w"
  by (cases op) (auto simp: arith_def split: if_splits)

lemma arith_typed:
  assumes "arith F op t x y = ok v" "discrete t" shows "conv t v = v"
proof -
  have "t \<noteq> Bool" using assms(1) by (auto simp: arith_def isIntegral_def kind_preds)
  with assms(2) have "isIntegral t" by (simp add: discrete_def)
  from arith_integral [OF assms(1) this] show ?thesis by (auto simp: conv_idem)
qed

lemma compare_typed: "compare F op t x y = ok v \<Longrightarrow> conv Bool v = v"
  by (cases op) (auto simp: compare_def Let_def split: if_splits)

lemma pick_cases: "pick F op t x y = x \<or> pick F op t x y = y"
  by (cases op) (auto simp: pick_def)

lemma nary_value_mem: "nary_value F op t xs = ok v \<Longrightarrow> v \<in> set xs"
proof (induction xs arbitrary: v rule: nary_value.induct)
  case (3 F op t x y ys)
  then obtain w where w: "nary_value F op t (y # ys) = ok w" "v = pick F op t x w"
    by (auto simp: res_simps)
  with 3 have "w \<in> set (y # ys)" by blast
  with w show ?case using pick_cases [of F op t x w] by auto
qed auto

lemma eval_typed:
  assumes "good F e" "eval F s e = ok v" "discrete (etype e)"
  shows "conv (etype e) v = v"
  using assms
proof (induction e arbitrary: v)
  case (Literal t u)
  then show ?case using member_get_conv [of t u] by simp
next
  case (Unary op t a)
  then show ?case
    by (cases op) (auto simp: res_simps conv_idem discrete_def kind_preds isIntegral_def split: if_splits)
next
  case (Binary op t a b)
  show ?case
  proof (cases "op = OpAnd \<or> op = OpOr")
    case True
    with Binary.prems show ?thesis
      by (auto simp: binary_ok_def arith_op_def res_simps split: if_splits)
  next
    case False
    with Binary.prems obtain x y where v: "binary_value F op t (etype a) (etype b) x y = ok v"
      by (auto simp: res_simps)
    show ?thesis
    proof (cases "is_arith op")
      case True
      with v Binary.prems(3) arith_typed show ?thesis by (auto simp: binary_value_def)
    next
      case cmp: False
      with False Binary.prems(1) have "t = Bool"
        by (auto simp: is_arith_def binary_ok_def arith_op_def)
      with cmp v compare_typed show ?thesis by (fastforce simp: binary_value_def res_simps)
    qed
  qed
next
  case (Nary op t es)
  then obtain xs where xs: "mapR (\<lambda>e. bindR (eval F s e) (\<lambda>x. ok (convert F (etype e) t x))) es = ok xs"
    and v: "nary_value F op t xs = ok v"
    by (auto simp: res_simps)
  from nary_value_mem [OF v] xs obtain e x where "e \<in> set es" "eval F s e = ok x" "v = convert F (etype e) t x"
    by (auto simp: mapR_eq_Inr list_all2_conv_all_nth in_set_conv_nth res_simps) metis
  with Nary show ?case by (auto simp: convert_def)
next
  case (Cast t a)
  then show ?case by (auto simp: res_simps intro!: convert_typed)
next
  case (Sizeof t ty)
  then show ?case by (auto simp: sizeof_value_def res_simps conv_idem)
qed (auto simp: res_simps typed_def conv_idem split: if_splits)

subsection \<open>Soundness of one rewriting\<close>

text \<open>What it means that \<open>e\<close> may be replaced by \<open>e'\<close>.\<close>

definition sound :: "fpu \<Rightarrow> expr \<Rightarrow> expr \<Rightarrow> bool" where
  "sound F e e' \<longleftrightarrow> etype e' = etype e \<and> good F e' \<and>
     (isVar e \<longrightarrow> e' = e) \<and>
     ((isFloat (etype e) \<or> isComplex (etype e)) \<and> inert F e \<longrightarrow> inert F e') \<and>
     (\<forall>s v. eval F s e = ok v \<longrightarrow> eval F s e' = ok v)"

lemma soundD:
  assumes "sound F e e'"
  shows "etype e' = etype e" "good F e'" "isVar e \<Longrightarrow> e' = e"
    "isFloat (etype e) \<or> isComplex (etype e) \<Longrightarrow> inert F e \<Longrightarrow> inert F e'"
    "eval F s e = ok v \<Longrightarrow> eval F s e' = ok v"
  using assms by (auto simp: sound_def)

lemma sound_refl: "good F e \<Longrightarrow> sound F e e"
  by (simp add: sound_def)

lemma sound_trans: "sound F a b \<Longrightarrow> sound F b c \<Longrightarrow> sound F a c"
  by (auto simp: sound_def)

lemma isVar_simps [simp]:
  "\<not> isVar (Binary op t a b)" "\<not> isVar (Literal t v)" "\<not> isVar (Cast t a)" "\<not> isVar (Unary uop t a)"
  "isVar (Var ad n t p ts m)"
  by (auto simp: isVar_def)

lemma ptr_isVar: "isPtrVar e \<Longrightarrow> isVar e"
  by (auto simp: isPtrVar_def isVar_def split: option.splits)

lemma no_bool_sound: "sound F a a' \<Longrightarrow> no_bool_operand op a \<Longrightarrow> no_bool_operand op a'"
  by (auto simp: no_bool_operand_def dest: ptr_isVar soundD(1,3))

text \<open>Operands of a node may be replaced.\<close>

lemma sound_Binary:
  assumes "good F (Binary op t a b)" "sound F a a'" "sound F b b'"
  shows "sound F (Binary op t a b) (Binary op t a' b')"
proof -
  have "binary_ok F op t a' b'"
    using assms soundD(1) [OF assms(2)] soundD(1) [OF assms(3)]
      no_bool_sound [OF assms(2)] no_bool_sound [OF assms(3)]
      soundD(4) [OF assms(2)] soundD(4) [OF assms(3)]
    by (auto simp: binary_ok_def split: if_splits)
  moreover have "eval F s (Binary op t a' b') = ok v" if "eval F s (Binary op t a b) = ok v" for s v
    using that soundD(1) [OF assms(2)] soundD(1) [OF assms(3)]
      soundD(5) [OF assms(2), of s] soundD(5) [OF assms(3), of s]
    by (cases "eval F s a"; cases "eval F s b") (auto split: if_splits)
  ultimately show ?thesis
    using soundD(2) [OF assms(2)] soundD(2) [OF assms(3)] by (simp add: sound_def)
qed

lemma mapR_mono:
  assumes "list_all2 (\<lambda>x y. \<forall>v. f x = ok v \<longrightarrow> g y = ok v) xs ys" "mapR f xs = ok vs"
  shows "mapR g ys = ok vs"
  using assms by (induction xs ys arbitrary: vs rule: list_all2_induct) (auto split: sum.splits)

lemma sound_Nary:
  assumes "good F (Nary op t es)" "list_all2 (sound F) es es'"
  shows "sound F (Nary op t es) (Nary op t es')"
proof -
  have "\<forall>e \<in> set es'. etype e = t \<and> good F e"
    using assms by (auto simp: list_all2_conv_all_nth in_set_conv_nth) (metis nth_mem soundD(1,2))+
  moreover have "eval F s (Nary op t es') = ok v" if "eval F s (Nary op t es) = ok v" for s v
  proof -
    let ?f = "\<lambda>e. bindR (eval F s e) (\<lambda>x. ok (convert F (etype e) t x))"
    have "list_all2 (\<lambda>x y. \<forall>v. ?f x = ok v \<longrightarrow> ?f y = ok v) es es'"
      using assms(2) by (rule list.rel_mono_strong) (auto simp: res_simps sound_def)
    from mapR_mono [OF this] that show ?thesis by (auto simp: res_simps)
  qed
  ultimately show ?thesis by (auto simp: sound_def isVar_def)
qed

lemma sound_Call:
  assumes "good F (Call t f es)" "list_all2 (sound F) es es'"
  shows "sound F (Call t f es) (Call t f es')"
proof -
  have "\<forall>e \<in> set es'. good F e"
    using assms by (auto simp: list_all2_conv_all_nth in_set_conv_nth) (metis soundD(2))+
  moreover have "eval F s (Call t f es') = ok v" if "eval F s (Call t f es) = ok v" for s v
  proof -
    have "list_all2 (\<lambda>x y. \<forall>v. eval F s x = ok v \<longrightarrow> eval F s y = ok v) es es'"
      using assms(2) by (rule list.rel_mono_strong) (auto simp: sound_def)
    from mapR_mono [OF this] that show ?thesis by (auto simp: res_simps)
  qed
  ultimately show ?thesis by (auto simp: sound_def isVar_def)
qed

lemma sound_Cast:
  assumes "sound F a a'" shows "sound F (Cast t a) (Cast t a')"
  using soundD [OF assms] by (auto simp: sound_def res_simps)

lemma sound_Unary:
  assumes "t = etype a" "sound F a a'" shows "sound F (Unary op t a) (Unary op t a')"
  using assms(1) soundD [OF assms(2)] by (auto simp: sound_def res_simps)

subsection \<open>The literal rules\<close>

lemma kind_cases: "isIntegral t \<or> t = Bool \<or> t = Undefined \<or> isFloat t \<or> isComplex t"
  by (cases t) (simp_all add: isIntegral_def kind_preds)

lemma convert_same [simp]: "convert F t t x = x"
  by (simp add: convert_def)

lemma binary_value_same [simp]:
  "arith_op op \<Longrightarrow> binary_value F op t t t x y = arith F op t x y"
  by (auto simp: binary_value_def arith_op_def is_arith_def)

lemma eval_arith:
  assumes "arith_op op" "etype a = t" "etype b = t"
  shows "eval F s (Binary op t a b) =
    bindR (eval F s a) (\<lambda>x. bindR (eval F s b) (\<lambda>y. arith F op t x y))"
  using assms by (auto simp: arith_op_def binary_value_def is_arith_def intro!: bindR_cong)

lemma Literal_make_value:
  assumes "Literal_make r t = ok e"
  shows "tc_type r = t \<and> (\<exists>u. e = Literal t u \<and> member_get t u = tc_value r)"
  using assms
  by (auto simp: Literal_make_def tc_set_def res_simps tc_value_def member_get_conv [symmetric] split: if_splits)

lemma fold_literals_sound:
  assumes "fold_literals F f (Literal t va) (Literal t vb) = ok (Some e)"
  shows "\<exists>r u. f (getTypedVal t va) (getTypedVal t vb) = ok r \<and> isIntegral t \<and>
    e = Literal t u \<and> member_get t u = tc_value r"
  using assms
  by (auto simp: fold_literals_def literal_as_def isIntegral_def res_simps split: if_splits
      dest!: Literal_make_value)

lemma reassociate_sound:
  assumes "reassociate op f a b = ok (Some (c, l))"
  shows "\<exists>t d vd vb r u. a = Binary op t c (Literal d vd) \<and> b = Literal d vb \<and> etype c = d \<and> isIntegral d \<and>
    f (getTypedVal d vd) (getTypedVal d vb) = ok r \<and> l = Literal d u \<and> member_get d u = tc_value r"
  using assms
  by (auto simp: reassociate_def isIntegral_def res_simps split: if_splits option.splits
      dest!: Literal_make_value)

lemma typed_value [simp]: "tc_value (getTypedVal t v) = member_get t v" "tc_type (getTypedVal t v) = t"
  by (simp_all add: tc_value_def getTypedVal_def)

lemma is_scalar_True:
  assumes "is_scalar F x n = ok True"
  shows "\<exists>t v. x = Literal t v \<and> equalsScalar F t v n = ok True"
  using assms by (auto simp: is_scalar_def split: option.splits)

lemma scalar_operand:
  assumes good: "good F x" "etype x = t" "no_bool_operand op x" "isFloat t \<or> isComplex t \<longrightarrow> inert F x"
    and x: "is_scalar F x n = ok True" "n = 0 \<or> n = 1"
  shows "isIntegral t \<and> eval F s x = ok n"
proof -
  obtain v where v: "x = Literal t v" "equalsScalar F t v n = ok True"
    using is_scalar_True [OF x(1)] good(2) by auto
  have "t \<noteq> Bool" using good(3) v(1) by (auto simp: no_bool_operand_def isPtrVar_def isBool_def)
  moreover have "t \<noteq> Undefined" using good(1) v(1) by simp
  moreover have "\<not> (isFloat t \<or> isComplex t)" using good(4) v x(2) by auto
  ultimately have t: "isIntegral t" using kind_cases [of t] by blast
  then have "\<not> isFloat t" "\<not> isComplex t" by (auto simp: isIntegral_def kind_preds)
  with v(2) have "member_get t v = conv t n" by (simp add: equalsScalar_def split: if_splits)
  with t x(2) v(1) show ?thesis by (auto simp: conv_one)
qed

text \<open>A binary arithmetic node whose operands are well-formed.\<close>

lemma good_arith:
  assumes "good F (Binary op t a b)" "arith_op op"
  shows "good F a" "good F b" "etype a = t" "etype b = t" "no_bool_operand op a" "no_bool_operand op b"
    "isFloat t \<or> isComplex t \<longrightarrow> inert F a" "isFloat t \<or> isComplex t \<longrightarrow> inert F b"
  using assms by (auto simp: binary_ok_def)

lemma sound_arithI:
  assumes g: "good F (Binary op t a b)" "arith_op op" and t: "isIntegral t"
    and e: "etype e = t" "good F e"
    and v: "\<And>s x y v. eval F s a = ok x \<Longrightarrow> eval F s b = ok y \<Longrightarrow> conv t x = x \<Longrightarrow> conv t y = y \<Longrightarrow>
      arith F op t x y = ok v \<Longrightarrow> eval F s e = ok v"
  shows "sound F (Binary op t a b) e"
proof -
  have d: "discrete t" using t by (simp add: discrete_def)
  have "eval F s e = ok v" if ev: "eval F s (Binary op t a b) = ok v" for s v
  proof -
    from ev obtain x y where "eval F s a = ok x" "eval F s b = ok y" "arith F op t x y = ok v"
      unfolding eval_arith [OF g(2) good_arith(3,4) [OF g]] by (auto simp: res_simps)
    moreover from this have "conv t x = x" "conv t y = y"
      using eval_typed [OF good_arith(1) [OF g], of s x] eval_typed [OF good_arith(2) [OF g], of s y] d
        good_arith(3,4) [OF g] by auto
    ultimately show ?thesis using v by blast
  qed
  moreover have "\<not> (isFloat t \<or> isComplex t)" using t by (auto simp: isIntegral_def kind_preds)
  ultimately show ?thesis using e by (auto simp: sound_def)
qed

lemma integral_defined: "isIntegral t \<Longrightarrow> t \<noteq> Undefined"
  by (auto simp: isIntegral_def kind_preds)

lemma binary_ok_arith:
  "arith_op op \<Longrightarrow> isIntegral t \<Longrightarrow> etype a = t \<Longrightarrow> etype b = t \<Longrightarrow> binary_ok F op t a b"
  by (auto simp: binary_ok_def no_bool_operand_def isIntegral_def kind_preds)

lemma arith_op_simps [simp]: "arith_op OpAdd" "arith_op OpSub" "arith_op OpMul" "arith_op OpDiv"
  by (simp_all add: arith_op_def)

lemma Add_make_same: "Add_make a b = ok e \<Longrightarrow> etype a = t \<Longrightarrow> etype b = t \<Longrightarrow> e = Binary OpAdd t a b"
  by (auto simp: makes max_expr_type_def res_simps)

lemma Sub_make_same: "Sub_make a b = ok e \<Longrightarrow> etype a = t \<Longrightarrow> etype b = t \<Longrightarrow> e = Binary OpSub t a b"
  by (auto simp: makes max_expr_type_def res_simps)

lemma Mul_make_same: "Mul_make a b = ok e \<Longrightarrow> etype a = t \<Longrightarrow> etype b = t \<Longrightarrow> e = Binary OpMul t a b"
  by (auto simp: makes max_expr_type_def res_simps)

lemma Div_make_same: "Div_make a b = ok e \<Longrightarrow> etype a = t \<Longrightarrow> etype b = t \<Longrightarrow> e = Binary OpDiv t a b"
  by (auto simp: makes max_expr_type_def res_simps)

lemma tcv_add_value: "tcv_add F x y = ok r \<Longrightarrow> isIntegral (tc_type x) \<Longrightarrow> tc_type x = tc_type y \<Longrightarrow>
    tc_value r = conv (tc_type x) (tc_value x + tc_value y)"
  using tcv_add_integral [of x y F] by (auto split: if_splits)

lemma tcv_sub_value: "tcv_sub F x y = ok r \<Longrightarrow> isIntegral (tc_type x) \<Longrightarrow> tc_type x = tc_type y \<Longrightarrow>
    tc_value r = conv (tc_type x) (tc_value x - tc_value y)"
  using tcv_sub_integral [of x y F] by auto

lemma tcv_mul_value: "tcv_mul F x y = ok r \<Longrightarrow> isIntegral (tc_type x) \<Longrightarrow> tc_type x = tc_type y \<Longrightarrow>
    tc_value r = conv (tc_type x) (tc_value x * tc_value y)"
  using tcv_mul_integral [of x y F] by (auto split: if_splits)

lemma arith_integral_simps [simp]:
  "isIntegral t \<Longrightarrow> arith F OpAdd t x y = ok (conv t (x + y))"
  "isIntegral t \<Longrightarrow> arith F OpSub t x y = ok (conv t (x - y))"
  "isIntegral t \<Longrightarrow> arith F OpMul t x y = ok (conv t (x * y))"
  "isIntegral t \<Longrightarrow> arith F OpDiv t x y = (if y = 0 then err DivByZero else ok (conv t (c_div x y)))"
  by (simp_all add: arith_def)

fun step_expr :: "step \<Rightarrow> expr" where
  "step_expr (Done e) = e"
| "step_expr (Again e) = e"

lemma sound_simp_Add:
  assumes g: "good F (Add t a b)" and r: "simp_Add F op a0 b0 a b = ok r"
    and op: "a = a0 \<Longrightarrow> b = b0 \<Longrightarrow> op = Add t a b"
  shows "sound F (Add t a b) (step_expr r)"
proof -
  note ga = good_arith [OF g arith_op_simps(1)]
  note ca = scalar_operand [OF ga(1,3,5,7)] and cb = scalar_operand [OF ga(2,4,6,8)]
  from r show ?thesis
  proof (cases rule: simp_Add_cases)
    case (fold e)
    from fold_literals_Some [OF fold(1)] ga(3,4) obtain va vb where lit: "a = Literal t va" "b = Literal t vb"
      by auto
    from fold_literals_sound [OF fold(1) [unfolded lit]] obtain x u where
      x: "tcv_add F (getTypedVal t va) (getTypedVal t vb) = ok x" "isIntegral t" "e = Literal t u"
        "member_get t u = tc_value x" by blast
    from tcv_add_value [OF x(1)] x lit show ?thesis unfolding fold(2) step_expr.simps
      by (intro sound_arithI [OF g]) (auto simp: integral_defined)
  next
    case (assoc_add c l e)
    from reassociate_sound [OF assoc_add(1)] obtain t' d vd vb x u where
      q: "a = Binary OpAdd t' c (Literal d vd)" "b = Literal d vb" "etype c = d" "isIntegral d"
        "tcv_add F (getTypedVal d vd) (getTypedVal d vb) = ok x" "l = Literal d u"
        "member_get d u = tc_value x" by blast
    have d: "d = t" "t' = t" using q ga by auto
    have e: "e = Add t c l" using Add_make_same [OF assoc_add(2)] q d by simp
    have gc: "good F c" using ga(1) q by simp
    have "conv t (conv t (x' + member_get t vd) + member_get t vb) = conv t (x' + member_get t u)" for x'
      using tcv_add_value [OF q(5)] q(4,7) d by (simp add: conv.cv_add_assoc)
    with q d gc show ?thesis unfolding assoc_add(3) e step_expr.simps
      by (intro sound_arithI [OF g])
        (auto simp: binary_ok_arith integral_defined eval_arith res_simps)
  next
    case (assoc_sub c l e)
    from reassociate_sound [OF assoc_sub(1)] obtain t' d vd vb x u where
      q: "a = Binary OpSub t' c (Literal d vd)" "b = Literal d vb" "etype c = d" "isIntegral d"
        "tcv_sub F (getTypedVal d vb) (getTypedVal d vd) = ok x" "l = Literal d u"
        "member_get d u = tc_value x" by blast
    have d: "d = t" "t' = t" using q ga by auto
    have e: "e = Add t c l" using Add_make_same [OF assoc_sub(2)] q d by simp
    have gc: "good F c" using ga(1) q by simp
    have "conv t (conv t (x' - member_get t vd) + member_get t vb) = conv t (x' + member_get t u)" for x'
      using tcv_sub_value [OF q(5)] q(4,7) d by (simp add: conv.cv_sub_add)
    with q d gc show ?thesis unfolding assoc_sub(3) e step_expr.simps
      by (intro sound_arithI [OF g])
        (auto simp: binary_ok_arith integral_defined eval_arith res_simps)
  next
    case zero_left
    with ca [OF zero_left(1)] ga(1-4) show ?thesis unfolding zero_left(2) step_expr.simps
      by (intro sound_arithI [OF g]) auto
  next
    case zero_right
    with cb [OF zero_right(1)] ga(1-4) show ?thesis unfolding zero_right(2) step_expr.simps
      by (intro sound_arithI [OF g]) auto
  next
    case same
    with op g show ?thesis by (simp add: sound_refl)
  next
    case (rebuilt e)
    with Add_make_same [OF rebuilt(2) ga(3,4)] g show ?thesis by (simp add: sound_refl)
  qed
qed

lemma sound_simp_Sub:
  assumes g: "good F (Sub t a b)" and r: "simp_Sub F op a0 b0 a b = ok r"
    and op: "a = a0 \<Longrightarrow> b = b0 \<Longrightarrow> op = Sub t a b"
  shows "sound F (Sub t a b) (step_expr r)"
proof -
  note ga = good_arith [OF g arith_op_simps(2)]
  note ca = scalar_operand [OF ga(1,3,5,7)] and cb = scalar_operand [OF ga(2,4,6,8)]
  from r show ?thesis
  proof (cases rule: simp_Sub_cases)
    case (fold e)
    from fold_literals_Some [OF fold(1)] ga(3,4) obtain va vb where lit: "a = Literal t va" "b = Literal t vb"
      by auto
    from fold_literals_sound [OF fold(1) [unfolded lit]] obtain x u where
      x: "tcv_sub F (getTypedVal t va) (getTypedVal t vb) = ok x" "isIntegral t" "e = Literal t u"
        "member_get t u = tc_value x" by blast
    from tcv_sub_value [OF x(1)] x lit show ?thesis unfolding fold(2) step_expr.simps
      by (intro sound_arithI [OF g]) (auto simp: integral_defined)
  next
    case zero_left
    with ca [OF zero_left(1)] ga show ?thesis unfolding zero_left(2) step_expr.simps
      by (intro sound_arithI [OF g]) (auto simp: Neg_make_def)
  next
    case zero_right
    with cb [OF zero_right(1)] ga(1-4) show ?thesis unfolding zero_right(2) step_expr.simps
      by (intro sound_arithI [OF g]) auto
  next
    case same
    with op g show ?thesis by (simp add: sound_refl)
  next
    case (rebuilt e)
    with Sub_make_same [OF rebuilt(2) ga(3,4)] g show ?thesis by (simp add: sound_refl)
  qed
qed

lemma sound_simp_Mul:
  assumes g: "good F (Mul t a b)" and r: "simp_Mul F op a0 b0 a b = ok r"
    and op: "a = a0 \<Longrightarrow> b = b0 \<Longrightarrow> op = Mul t a b"
  shows "sound F (Mul t a b) (step_expr r)"
proof -
  note ga = good_arith [OF g arith_op_simps(3)]
  note ca = scalar_operand [OF ga(1,3,5,7)] and cb = scalar_operand [OF ga(2,4,6,8)]
  from r show ?thesis
  proof (cases rule: simp_Mul_cases)
    case (fold e)
    from fold_literals_Some [OF fold(1)] ga(3,4) obtain va vb where lit: "a = Literal t va" "b = Literal t vb"
      by auto
    from fold_literals_sound [OF fold(1) [unfolded lit]] obtain x u where
      x: "tcv_mul F (getTypedVal t va) (getTypedVal t vb) = ok x" "isIntegral t" "e = Literal t u"
        "member_get t u = tc_value x" by blast
    from tcv_mul_value [OF x(1)] x lit show ?thesis unfolding fold(2) step_expr.simps
      by (intro sound_arithI [OF g]) (auto simp: integral_defined)
  next
    case (assoc_mul c l e)
    from reassociate_sound [OF assoc_mul(1)] obtain t' d vd vb x u where
      q: "a = Binary OpMul t' c (Literal d vd)" "b = Literal d vb" "etype c = d" "isIntegral d"
        "tcv_mul F (getTypedVal d vd) (getTypedVal d vb) = ok x" "l = Literal d u"
        "member_get d u = tc_value x" by blast
    have d: "d = t" "t' = t" using q ga by auto
    have e: "e = Mul t c l" using Mul_make_same [OF assoc_mul(2)] q d by simp
    have gc: "good F c" using ga(1) q by simp
    have "conv t (conv t (x' * member_get t vd) * member_get t vb) = conv t (x' * member_get t u)" for x'
      using tcv_mul_value [OF q(5)] q(4,7) d by (simp add: conv.cv_mul_assoc)
    with q d gc show ?thesis unfolding assoc_mul(3) e step_expr.simps
      by (intro sound_arithI [OF g])
        (auto simp: binary_ok_arith integral_defined eval_arith res_simps)
  next
    case zero_left
    with ca [OF zero_left(1)] ga(1-4) show ?thesis unfolding zero_left(2) step_expr.simps
      by (intro sound_arithI [OF g]) auto
  next
    case one_left
    with ca [OF one_left(1)] ga(1-4) show ?thesis unfolding one_left(2) step_expr.simps
      by (intro sound_arithI [OF g]) auto
  next
    case zero_right
    with cb [OF zero_right(1)] ga(1-4) show ?thesis unfolding zero_right(2) step_expr.simps
      by (intro sound_arithI [OF g]) auto
  next
    case one_right
    with cb [OF one_right(1)] ga(1-4) show ?thesis unfolding one_right(2) step_expr.simps
      by (intro sound_arithI [OF g]) auto
  next
    case same
    with op g show ?thesis by (simp add: sound_refl)
  next
    case (rebuilt e)
    with Mul_make_same [OF rebuilt(2) ga(3,4)] g show ?thesis by (simp add: sound_refl)
  qed
qed

lemma member_get_put_wider:
  assumes "isIntegral t" "isIntegral ct" "member_bits t \<le> member_bits ct"
  shows "member_get t (member_put ct 0 v) = conv t v"
proof -
  have ne: "t \<noteq> Bool" "ct \<noteq> Bool" using assms by (auto simp: isIntegral_def kind_preds)
  have u: "uint (member_put ct 0 v) = v mod 2 ^ member_bits ct"
    using ne by (simp add: member_put_def uint_write_bits [OF member_bits_le])
  have "v mod 2 ^ member_bits ct mod 2 ^ member_bits t = v mod 2 ^ member_bits t"
    using assms(3) by (simp add: mod_mod_cancel le_imp_power_dvd)
  then have "conv t (v mod 2 ^ member_bits ct) = conv t v"
    by (rule conv_mod_cong [OF assms(1)])
  moreover have "member_get t m = conv t (uint m)" for m
    using ne by (simp add: member_get_def conv_def read_bits_def)
  ultimately show ?thesis using u by simp
qed

lemma Literal_make_from_value:
  assumes "Literal_make_from ct v t = ok e" "isIntegral t" "isIntegral ct"
  shows "\<exists>u. e = Literal t u \<and> member_get t u = conv t v"
  using assms
  by (auto simp: Literal_make_from_def res_simps tc_set_def tc_value_def member_get_put_wider conv_idem
      split: if_splits dest!: Literal_make_value)

lemma fold_div_sound:
  assumes "fold_div a b = ok (Some e)" "etype a = t"
  shows "\<exists>va vb u. a = Literal t va \<and> b = Literal t vb \<and> e = Literal t u \<and> isIntegral t \<and>
    member_get t u = conv t (c_div (member_get t va) (member_get t vb))"
proof -
  have i: "isIntegral Int64" "isIntegral UInt64" by (simp_all add: isIntegral_def kind_preds)
  show ?thesis
    using assms
    by (auto simp: fold_div_def res_simps getIntValue_def getUIntValue_def isIntegral_def
        split: option.splits if_splits
        dest!: Literal_make_from_value [OF _ _ i(1)] Literal_make_from_value [OF _ _ i(2)])
qed

lemma sound_simp_Div:
  assumes g: "good F (Div t a b)" and r: "simp_Div F op a0 b0 a b = ok r"
    and op: "a = a0 \<Longrightarrow> b = b0 \<Longrightarrow> op = Div t a b"
  shows "sound F (Div t a b) (step_expr r)"
proof -
  note ga = good_arith [OF g arith_op_simps(4)]
  note cb = scalar_operand [OF ga(2,4,6,8)]
  from r show ?thesis
  proof (cases rule: simp_Div_cases)
    case (fold e)
    from fold_div_sound [OF fold(1) ga(3)] obtain va vb u where
      "a = Literal t va" "b = Literal t vb" "e = Literal t u" "isIntegral t"
      "member_get t u = conv t (c_div (member_get t va) (member_get t vb))" by blast
    then show ?thesis unfolding fold(2) step_expr.simps
      by (intro sound_arithI [OF g]) (auto simp: integral_defined split: if_splits)
  next
    case one_right
    with cb [OF one_right(1)] ga(1-4) show ?thesis unfolding one_right(2) step_expr.simps
      by (intro sound_arithI [OF g]) auto
  next
    case same
    with op g show ?thesis by (simp add: sound_refl)
  next
    case (rebuilt e)
    with Div_make_same [OF rebuilt(2) ga(3,4)] g show ?thesis by (simp add: sound_refl)
  qed
qed

subsection \<open>The boolean rules and the whole simplifier\<close>

lemma member_get_Bool: "member_get Bool v = 0 \<or> member_get Bool v = 1"
  by (simp add: member_get_def)

lemma sound_boolI:
  assumes g: "good F (Binary op t a b)" "op = OpAnd \<or> op = OpOr"
    and e: "etype e = Bool" "good F e"
    and v: "\<And>s v. eval F s (Binary op t a b) = ok v \<Longrightarrow>
      (\<And>x. eval F s a = ok x \<Longrightarrow> x = 0 \<or> x = 1) \<Longrightarrow> (\<And>y. eval F s b = ok y \<Longrightarrow> y = 0 \<or> y = 1) \<Longrightarrow>
      eval F s e = ok v"
  shows "sound F (Binary op t a b) e"
proof -
  have t: "t = Bool" "etype a = Bool" "etype b = Bool" and gab: "good F a" "good F b"
    using g by (auto simp: binary_ok_def arith_op_def)
  have "eval F s x = ok y \<Longrightarrow> y = 0 \<or> y = 1" if "x = a \<or> x = b" for s x y
    using eval_typed [of F x s y] that t gab by (auto simp: discrete_def split: if_splits)
  with v have "eval F s (Binary op t a b) = ok w \<Longrightarrow> eval F s e = ok w" for s w by blast
  then show ?thesis using e t by (auto simp: sound_def kind_preds simp del: eval.simps)
qed

lemma sound_simp_Or:
  assumes g: "good F (Or t a b)" and r: "simp_Or op a0 b0 a b = ok r"
    and op: "a = a0 \<Longrightarrow> b = b0 \<Longrightarrow> op = Or t a b"
  shows "sound F (Or t a b) (step_expr r)"
proof -
  have t: "t = Bool" "etype a = Bool" "etype b = Bool" and gab: "good F a" "good F b"
    using g by (auto simp: binary_ok_def arith_op_def)
  from r show ?thesis
  proof (cases rule: simp_Or_cases)
    case (lit_left v)
    then show ?thesis using t gab member_get_Bool [of v]
      by (intro sound_boolI [OF g]) (auto simp: res_simps split: if_splits)
  next
    case (lit_right v)
    then show ?thesis using t gab member_get_Bool [of v]
      by (intro sound_boolI [OF g]) (auto simp: res_simps split: if_splits)
  next
    case same
    with op g show ?thesis by (simp add: sound_refl)
  next
    case rebuilt
    with g t show ?thesis by (simp add: sound_refl Or_make_def)
  qed
qed

lemma sound_simp_And:
  assumes g: "good F (And t a b)" and r: "simp_And op a0 b0 a b = ok r"
    and op: "a = a0 \<Longrightarrow> b = b0 \<Longrightarrow> op = And t a b"
  shows "sound F (And t a b) (step_expr r)"
proof -
  have t: "t = Bool" "etype a = Bool" "etype b = Bool" and gab: "good F a" "good F b"
    using g by (auto simp: binary_ok_def arith_op_def)
  from r show ?thesis
  proof (cases rule: simp_And_cases)
    case (lit_left v)
    then show ?thesis using t gab member_get_Bool [of v]
      by (intro sound_boolI [OF g]) (auto simp: res_simps split: if_splits)
  next
    case (lit_right v)
    then show ?thesis using t gab member_get_Bool [of v]
      by (intro sound_boolI [OF g]) (auto simp: res_simps split: if_splits)
  next
    case same
    with op g show ?thesis by (simp add: sound_refl)
  next
    case rebuilt
    with g t show ?thesis by (simp add: sound_refl And_make_def)
  qed
qed

lemma sound_visitBinaryOp:
  assumes g: "good F (Binary cls t a b)" and r: "visitBinaryOp cls op a0 b0 a b = ok e"
    and op: "a = a0 \<Longrightarrow> b = b0 \<Longrightarrow> op = Binary cls t a b" and na: "\<not> arith_op cls"
  shows "sound F (Binary cls t a b) e"
proof (cases "a = a0 \<and> b = b0")
  case True
  with r op g show ?thesis by (simp add: visitBinaryOp_def sound_refl)
next
  case False
  with r have "Binary_make cls a b = ok e" by (simp add: visitBinaryOp_def split: if_splits)
  with g na have "e = Binary cls t a b"
    by (cases cls) (auto simp: makes binary_ok_def arith_op_def)
  with g show ?thesis by (simp add: sound_refl)
qed

lemma sound_simp_binary:
  assumes g: "good F (Binary cls t a b)" and r: "simp_binary F cls op a0 b0 a b = ok r"
    and op: "a = a0 \<Longrightarrow> b = b0 \<Longrightarrow> op = Binary cls t a b"
  shows "sound F (Binary cls t a b) (step_expr r)"
proof -
  consider "cls = OpAdd" | "cls = OpSub" | "cls = OpMul" | "cls = OpDiv" | "cls = OpOr" | "cls = OpAnd"
    | "\<not> arith_op cls" "simp_binary F cls = (\<lambda>op a0 b0 a b. done_res (visitBinaryOp cls op a0 b0 a b))"
    using g by (cases cls) (auto simp: fun_eq_iff arith_op_def binary_ok_def)
  then show ?thesis
  proof cases
    case 7
    with r obtain e where "visitBinaryOp cls op a0 b0 a b = ok e" "r = Done e"
      by (auto simp: done_res_def res_simps)
    with sound_visitBinaryOp [OF g _ op 7(1)] show ?thesis by auto
  qed (use assms sound_simp_Add sound_simp_Sub sound_simp_Mul sound_simp_Div sound_simp_Or
      sound_simp_And in auto)
qed

lemma tcv_const_value:
  assumes "tcv_const F t n = ok x"
  shows "t \<noteq> Undefined \<and> tc_value x = conv t (if isFloat t \<or> isComplex t then fp_of_int F t n else n)"
  using assms
  by (auto simp: tcv_const_def tc_setInt_def res_simps tc_value_def kind_preds split: if_splits)

lemma sound_simp_Cast:
  assumes g: "good F a" and r: "simp_Cast F op t a0 a = ok e" and op: "a = a0 \<Longrightarrow> op = Cast t a"
  shows "sound F (Cast t a) e"
proof (cases "\<exists>v. a = Literal Bool v")
  case True
  then obtain v where a: "a = Literal Bool v" by blast
  with r obtain x where x: "tcv_const F t (if member_get Bool v \<noteq> 0 then 1 else 0) = ok x" "Literal_make x t = ok e"
    by (auto simp: simp_Cast_def getBoolValue_def isBool_def res_simps)
  from tcv_const_value [OF x(1)] Literal_make_value [OF x(2)] obtain u where
    "t \<noteq> Undefined" "e = Literal t u" "member_get t u =
      conv t (if isFloat t \<or> isComplex t then fp_of_int F t (member_get Bool v) else member_get Bool v)"
    using member_get_Bool [of v] by auto
  moreover have "\<not> (isFloat Bool \<or> isComplex Bool)" by (simp add: kind_preds)
  ultimately show ?thesis using a member_get_Bool [of v]
    by (auto simp: sound_def convert_def kind_preds)
next
  case False
  then have "e = Cast t a"
    using r op by (auto simp: simp_Cast_def isBool_def Cast_make_def split: option.splits if_splits)
  with g show ?thesis by (simp add: sound_refl)
qed

lemma mapR_sound:
  assumes "mapR (simplify F) es = ok es'" "\<forall>e \<in> set es. good F e"
    "\<And>e e'. e \<in> set es \<Longrightarrow> simplify F e = ok e' \<Longrightarrow> good F e \<Longrightarrow> sound F e e'"
  shows "list_all2 (sound F) es es'"
  using assms(1) unfolding mapR_eq_Inr
  by (rule list.rel_mono_strong) (use assms(2,3) in auto)

lemma location_of_sound:
  assumes "sound F arr arr'" "simplify F arr = ok arr'" "location_of arr = Some l"
  shows "location_of arr' = Some l"
  using assms by (cases arr rule: location_of.cases) auto

lemma Nary_make_same:
  "Nary_make op es = ok e \<Longrightarrow> \<forall>x \<in> set es. etype x = t \<Longrightarrow> e = Nary op t es"
  by (cases op; cases es) (auto simp: makes)

lemma simplify_sound:
  assumes "simplify F e = ok e'" "good F e"
  shows "sound F e e'"
  using assms
proof (induction F e arbitrary: e' rule: simplify.induct)
  case (3 F op t a)
  then obtain a' where a': "simplify F a = ok a'" "good F a" "t = etype a"
    and e': "e' = (if a' = a then Unary op t a else Unary_make op a')"
    by (auto simp: res_simps)
  have s: "sound F a a'" using "3.IH" a' by blast
  have "e' = Unary op t a'" using e' a'(3) soundD(1) [OF s] by (cases op) (auto simp: makes)
  with sound_Unary [OF a'(3) s] show ?case by simp
next
  case (4 F op t a b)
  then obtain a' b' r where a': "simplify F a = ok a'" and b': "simplify F b = ok b'"
    and r: "simp_binary F op (Binary op t a b) a b a' b' = ok r"
    and e': "(case r of Done e \<Rightarrow> ok e | Again e \<Rightarrow> simplify F e) = ok e'"
    by (auto simp: res_simps)
  have s: "sound F (Binary op t a b) (Binary op t a' b')"
    using sound_Binary "4.prems"(2) "4.IH"(1) [OF a'] "4.IH"(2) [OF a' b'] by simp
  from sound_simp_binary [OF soundD(2) [OF s] r] have "sound F (Binary op t a' b') (step_expr r)" by simp
  with s have sr: "sound F (Binary op t a b) (step_expr r)" by (rule sound_trans)
  show ?case
  proof (cases r)
    case (Done e)
    with sr e' show ?thesis by simp
  next
    case (Again e)
    with e' sr have "sound F e e'" using "4.IH"(3) [OF a' b' r Again] by (auto simp: sound_def)
    with sr Again show ?thesis using sound_trans by auto
  qed
next
  case (5 F op t es)
  then obtain es' where es': "mapR (simplify F) es = ok es'"
    and e': "(if es' = es then ok (Nary op t es) else Nary_make op es') = ok e'"
    by (auto simp: res_simps)
  have s: "sound F (Nary op t es) (Nary op t es')"
    using sound_Nary [OF "5.prems"(2)] mapR_sound [OF es'] "5.IH" "5.prems"(2) by auto
  have "\<forall>x \<in> set es'. etype x = t" using soundD(2) [OF s] by simp
  with e' have "e' = Nary op t es'" by (auto split: if_splits dest: Nary_make_same)
  with s show ?case by simp
next
  case (6 F t a)
  then obtain a' where a': "simplify F a = ok a'" "simp_Cast F (Cast t a) t a a' = ok e'"
    by (auto simp: res_simps)
  have s: "sound F a a'" using "6.IH" a' "6.prems"(2) by simp
  from a'(2) have "a' = a \<Longrightarrow> Cast t a = Cast t a'" by simp
  with sound_simp_Cast [OF soundD(2) [OF s] a'(2)] have "sound F (Cast t a') e'" .
  with sound_Cast [OF s] show ?case by (rule sound_trans)
next
  case (7 F t f es)
  then obtain es' where es': "mapR (simplify F) es = ok es'"
    and e': "e' = Call t f es'"
    by (auto simp: res_simps Call_make_def split: if_splits)
  have "sound F (Call t f es) (Call t f es')"
    using sound_Call [OF "7.prems"(2)] mapR_sound [OF es'] "7.IH" "7.prems"(2) by auto
  with e' show ?case by simp
next
  case (8 F t arr loc)
  then obtain arr' loc' where al: "simplify F arr = ok arr'" "simplify F loc = ok loc'"
    and e': "(if arr' = arr \<and> loc' = loc then ok (Load t arr loc) else Load_make arr' loc') = ok e'"
    by (auto simp: res_simps)
  have s: "sound F arr arr'" "sound F loc loc'" using "8.IH" al "8.prems"(2) by auto
  have e: "e' = Load t arr' loc'"
    using e' "8.prems"(2) soundD(1) [OF s(1)] by (auto simp: Load_make_def res_simps split: if_splits)
  have "read_array st arr i = ok v \<Longrightarrow> read_array st arr' i = ok v" for st i v
    using location_of_sound [OF s(1) al(1)] by (auto simp: read_array_def split: option.splits)
  then show ?case
    using e "8.prems"(2) soundD(1,2,5) [OF s(1)] soundD(1,2,5) [OF s(2)]
    by (auto simp: sound_def isVar_def res_simps typed_def)
next
  case (9 F t a)
  then obtain a' where a': "simplify F a = ok a'" "e' = Malloc t a'"
    by (auto simp: res_simps Malloc_make_def)
  with "9.IH" "9.prems"(2) have "sound F a a'" by simp
  with a' "9.prems"(2) show ?case by (auto simp: sound_def isVar_def)
next
  case (11 F ad t tensor pr mode ix nm)
  then obtain tensor' where t': "simplify F tensor = ok tensor'"
    and e': "e' = (if tensor' = tensor then GetProperty ad t tensor pr mode ix nm
      else GetProperty_make5 ad tensor' pr mode ix nm)"
    by (auto simp: res_simps)
  have s: "sound F tensor tensor'" using "11.IH" t' "11.prems"(2) by simp
  have e: "e' = GetProperty ad t tensor' pr mode ix nm"
    using e' "11.prems"(2) soundD(1) [OF s] by (auto simp: GetProperty_make5_def)
  have "read_scalar st (GetProperty ad t tensor pr mode ix nm) = ok v \<Longrightarrow>
    read_scalar st (GetProperty ad t tensor' pr mode ix nm) = ok v" for st v
    using t' by (cases tensor) (auto simp: read_scalar_def)
  with e "11.prems"(2) soundD(1,2) [OF s] show ?case
    by (auto simp: sound_def isVar_def res_simps typed_def)
qed (auto simp: sound_refl)

subsection \<open>The simplifier returns\<close>

text \<open>Expressions without 128-bit integers, which \<open>equalsScalar\<close> does not support, and without casts to
  the undefined type.\<close>

fun small_node :: "expr \<Rightarrow> bool" where
  "small_node (Literal t v) \<longleftrightarrow> t \<noteq> UInt128 \<and> t \<noteq> Int128"
| "small_node (Cast t a) \<longleftrightarrow> t \<noteq> UInt128 \<and> t \<noteq> Int128 \<and> t \<noteq> Undefined"
| "small_node _ \<longleftrightarrow> True"

definition small :: "expr \<Rightarrow> bool" where
  "small e \<longleftrightarrow> (\<forall>x \<in> set (visit_expr e). small_node x)"

lemma small_simps [simp]:
  "small (Literal t v) \<longleftrightarrow> t \<noteq> UInt128 \<and> t \<noteq> Int128"
  "small (Var ad n t p ts m)"
  "small (Unary uop t a) \<longleftrightarrow> small a"
  "small (Binary op t a b) \<longleftrightarrow> small a \<and> small b"
  "small (Nary nop' t es) \<longleftrightarrow> (\<forall>e \<in> set es. small e)"
  "small (Cast t a) \<longleftrightarrow> t \<noteq> UInt128 \<and> t \<noteq> Int128 \<and> t \<noteq> Undefined \<and> small a"
  "small (Call t f es) \<longleftrightarrow> (\<forall>e \<in> set es. small e)"
  "small (Load t arr loc) \<longleftrightarrow> small arr \<and> small loc"
  "small (Malloc t e) \<longleftrightarrow> small e"
  "small (Sizeof t ty)"
  "small (GetProperty ad t tensor pr mode ix nm) \<longleftrightarrow> small tensor"
  by (auto simp: small_def)

text \<open>Every outcome is a small expression, an overflow of folded literals or, where the flag allows it, a division by zero.\<close>

definition returns :: "bool \<Rightarrow> ('a \<Rightarrow> bool) \<Rightarrow> 'a res \<Rightarrow> bool" where
  "returns d P m \<longleftrightarrow> (case m of Inr x \<Rightarrow> P x | Inl e \<Rightarrow> e = Overflow \<or> d \<and> e = DivByZero)"

lemma returns_simps [simp]: "returns d P (ok x) \<longleftrightarrow> P x" "returns d P (err e) \<longleftrightarrow> e = Overflow \<or> d \<and> e = DivByZero"
  by (simp_all add: returns_def)

lemma returns_bind:
  "returns d P m \<Longrightarrow> (\<And>x. m = ok x \<Longrightarrow> P x \<Longrightarrow> returns d Q (f x)) \<Longrightarrow> returns d Q (bindR m f)"
  by (cases m) auto

lemma returns_mono: "returns d P m \<Longrightarrow> (d \<Longrightarrow> d') \<Longrightarrow> (\<And>x. m = ok x \<Longrightarrow> P x \<Longrightarrow> Q x) \<Longrightarrow> returns d' Q m"
  by (cases m) auto

lemma Literal_make_returns: "tc_type r = t \<Longrightarrow> t \<noteq> Undefined \<Longrightarrow> \<exists>u. Literal_make r t = ok (Literal t u)"
  by (cases t) (simp_all add: Literal_make_def tc_set_def getNumBytes_def)

lemma is_scalar_returns: "good F e \<Longrightarrow> small e \<Longrightarrow> returns d (\<lambda>_. True) (is_scalar F e n)"
  by (auto simp: is_scalar_def equalsScalar_def split: option.split)

definition closed_op :: "(TypedComponentVal \<Rightarrow> TypedComponentVal \<Rightarrow> TypedComponentVal res) \<Rightarrow> bool" where
  "closed_op f \<longleftrightarrow> (\<forall>x y. isIntegral (tc_type x) \<longrightarrow> tc_type x = tc_type y \<longrightarrow>
     f x y = err Overflow \<or> (\<exists>r. f x y = ok r \<and> tc_type r = tc_type x))"

lemma closed_ops: "closed_op (tcv_add F)" "closed_op (tcv_sub F)" "closed_op (tcv_mul F)"
  "closed_op (\<lambda>d b. tcv_add F d b)" "closed_op (\<lambda>d b. tcv_sub F b d)" "closed_op (\<lambda>d b. tcv_mul F d b)"
  unfolding closed_op_def using tcv_add_integral [of _ _ F] tcv_sub_integral [of _ _ F] tcv_mul_integral [of _ _ F] by metis+

lemma fold_literals_returns:
  assumes f: "closed_op f" and t: "etype a = t" "etype b = t" "small a"
  shows "returns d (\<lambda>r. \<forall>e. r = Some e \<longrightarrow> small e) (fold_literals F f a b)"
proof (cases "(\<exists>va vb. a = Literal t va \<and> b = Literal t vb) \<and> isIntegral t")
  case True
  then obtain va vb where lit: "a = Literal t va" "b = Literal t vb" "isIntegral t" by blast
  with f consider "f (getTypedVal t va) (getTypedVal t vb) = err Overflow"
    | r where "f (getTypedVal t va) (getTypedVal t vb) = ok r" "tc_type r = t"
    unfolding closed_op_def by (metis typed_value(2))
  then show ?thesis
  proof cases
    case 1
    then show ?thesis using lit by (simp add: fold_literals_def literal_as_def)
  next
    case r: 2
    obtain u where "Literal_make r t = ok (Literal t u)"
      using Literal_make_returns [OF r(2) integral_defined [OF lit(3)]] by blast
    then show ?thesis using lit t(3) r by (simp add: fold_literals_def literal_as_def)
  qed
next
  case False
  with t show ?thesis
    by (auto simp: fold_literals_def isIntegral_def split: option.split)
qed

lemma reassociate_returns:
  assumes f: "closed_op f" and s: "small b"
  shows "returns d (\<lambda>r. \<forall>c l. r = Some (c, l) \<longrightarrow> small l \<and> etype l = etype c \<and> isIntegral (etype c))
    (reassociate op f a b)"
proof (cases "\<exists>t' c d' vd vb. a = Binary op t' c (Literal d' vd) \<and> b = Literal d' vb \<and> etype c = d' \<and> isIntegral d'")
  case True
  then obtain t' c d' vd vb where
    lit: "a = Binary op t' c (Literal d' vd)" "b = Literal d' vb" "etype c = d'" "isIntegral d'" by blast
  with f consider "f (getTypedVal d' vd) (getTypedVal d' vb) = err Overflow"
    | r where "f (getTypedVal d' vd) (getTypedVal d' vb) = ok r" "tc_type r = d'"
    unfolding closed_op_def by (metis typed_value(2))
  then show ?thesis
  proof cases
    case 1
    then show ?thesis using lit by (simp add: reassociate_def isIntegral_def)
  next
    case r: 2
    obtain u where "Literal_make r d' = ok (Literal d' u)"
      using Literal_make_returns [OF r(2) integral_defined [OF lit(4)]] by blast
    then show ?thesis using lit s r by (simp add: reassociate_def isIntegral_def)
  qed
next
  case False
  then show ?thesis
    by (auto simp: reassociate_def isIntegral_def split: option.split)
qed

lemma reassociate_operand: "reassociate op f a b = ok (Some (c, l)) \<Longrightarrow> small a \<Longrightarrow> small c"
  by (auto dest!: reassociate_Some)

lemma arith_make_returns:
  assumes "etype a = t" "etype b = t" "no_bool_operand op a" "no_bool_operand op b" "small a" "small b" "arith_op op"
  shows "returns d small (Binary_make op a b)"
  using assms by (auto simp: makes max_expr_type_def arith_op_def no_bool_operand_def)

lemma integral_make_returns:
  "etype b = etype a \<Longrightarrow> isIntegral (etype a) \<Longrightarrow> small a \<Longrightarrow> small b \<Longrightarrow> arith_op op \<Longrightarrow>
    returns d small (Binary_make op a b)"
  by (rule arith_make_returns) (auto simp: no_bool_operand_def isIntegral_def kind_preds)

text \<open>The steps a rule is a sequence of.\<close>

abbreviation small_step :: "bool \<Rightarrow> step res \<Rightarrow> bool" where
  "small_step d \<equiv> returns d (\<lambda>r. small (step_expr r))"

lemma step_Done: "small e \<Longrightarrow> small_step d (ok (Done e))"
  by simp

lemma step_make:
  "returns d small m \<Longrightarrow> small_step d (done_res m)" "returns d small m \<Longrightarrow> small_step d (again_res m)"
  by (auto simp: done_res_def again_res_def intro!: returns_bind)

lemma step_fold:
  assumes "closed_op f" "etype a = etype b" "small a" "small_step d k"
  shows "small_step d (bindR (fold_literals F f a b) (\<lambda>r. case r of Some e \<Rightarrow> ok (Done e) | None \<Rightarrow> k))"
  by (rule returns_bind [OF fold_literals_returns [OF assms(1,2) refl assms(3)]])
    (use assms(4) in \<open>simp split: option.split\<close>)

lemma step_reassociate:
  assumes "closed_op f" "small a" "small b" "small_step d k"
    and m: "\<And>c l. etype l = etype c \<Longrightarrow> isIntegral (etype c) \<Longrightarrow> small c \<Longrightarrow> small l \<Longrightarrow> returns d small (m c l)"
  shows "small_step d (bindR (reassociate op f a b)
    (\<lambda>r. case r of Some (c, l) \<Rightarrow> again_res (m c l) | None \<Rightarrow> k))"
  by (rule returns_bind [OF reassociate_returns [OF assms(1,3)]])
    (use assms(2,4) m in \<open>auto split: option.split intro!: step_make dest: reassociate_operand\<close>)

lemma step_scalar:
  assumes "good F e" "small e" "small_step d x" "small_step d k"
  shows "small_step d (bindR (is_scalar F e n) (\<lambda>z. if z then x else k))"
  by (rule returns_bind [OF is_scalar_returns [OF assms(1,2)]]) (use assms(3,4) in auto)

lemma step_same: "small op \<Longrightarrow> small_step d k \<Longrightarrow> small_step d (if a = a0 \<and> b = b0 then ok (Done op) else k)"
  by simp

lemmas steps = step_fold step_reassociate step_scalar step_same step_make step_Done closed_ops

lemma simp_Add_returns:
  assumes g: "good F (Add t a b)" and s: "small a" "small b" "small op"
  shows "small_step d (simp_Add F op a0 b0 a b)"
proof -
  note ga = good_arith [OF g arith_op_simps(1)]
  have e: "etype a = etype b" using ga by simp
  have "returns d small (Add_make a b)"
    using arith_make_returns [OF ga(3-6) s(1,2)] by simp
  moreover have "returns d small (Add_make c l)"
    if "etype l = etype c" "isIntegral (etype c)" "small c" "small l" for c l
    using integral_make_returns [OF that, of OpAdd] by simp
  ultimately show ?thesis unfolding simp_Add_def by (intro steps e ga s)
qed

lemma simp_Sub_returns:
  assumes g: "good F (Sub t a b)" and s: "small a" "small b" "small op"
  shows "small_step d (simp_Sub F op a0 b0 a b)"
proof -
  note ga = good_arith [OF g arith_op_simps(2)]
  have e: "etype a = etype b" using ga by simp
  have "returns d small (Sub_make a b)" "small (Neg_make b)"
    using arith_make_returns [OF ga(3-6) s(1,2)] s by (simp_all add: Neg_make_def)
  then show ?thesis unfolding simp_Sub_def by (intro steps e ga s)
qed

lemma simp_Mul_returns:
  assumes g: "good F (Mul t a b)" and s: "small a" "small b" "small op"
  shows "small_step d (simp_Mul F op a0 b0 a b)"
proof -
  note ga = good_arith [OF g arith_op_simps(3)]
  have e: "etype a = etype b" using ga by simp
  have "returns d small (Mul_make a b)"
    using arith_make_returns [OF ga(3-6) s(1,2)] by simp
  moreover have "returns d small (Mul_make c l)"
    if "etype l = etype c" "isIntegral (etype c)" "small c" "small l" for c l
    using integral_make_returns [OF that, of OpMul] by simp
  ultimately show ?thesis unfolding simp_Mul_def by (intro steps e ga s)
qed

lemma Literal_make_from_returns:
  assumes "isIntegral t" "member_bits t \<le> member_bits ct"
  shows "\<exists>u. Literal_make_from ct v t = ok (Literal t u)"
  using assms integral_defined [OF assms(1)]
    Literal_make_returns [of "\<lparr>tc_type = t, tc_val = member_put t 0 (member_get t (member_put ct 0 v))\<rparr>" t]
  by (simp add: Literal_make_from_def tc_set_def)

lemma fold_div_returns:
  assumes "small a"
  shows "returns True (\<lambda>r. \<forall>e. r = Some e \<longrightarrow> small e) (fold_div a b)"
proof (cases "\<exists>t va vb. a = Literal t va \<and> b = Literal t vb \<and> isIntegral t")
  case True
  then obtain t va vb where lit: "a = Literal t va" "b = Literal t vb" "isIntegral t" by blast
  have w: "member_bits t \<le> 64" "t \<noteq> UInt128" "t \<noteq> Int128"
    using lit assms by (cases t; simp add: isIntegral_def kind_preds)+
  have "\<exists>u. Literal_make_from Int64 x t = ok (Literal t u)" "\<exists>u. Literal_make_from UInt64 x t = ok (Literal t u)" for x
    using Literal_make_from_returns [OF lit(3)] w by simp_all
  then obtain mi mu where
    "\<And>x. Literal_make_from Int64 x t = ok (Literal t (mi x))"
    "\<And>x. Literal_make_from UInt64 x t = ok (Literal t (mu x))"
    by metis
  with lit w show ?thesis
    by (auto simp: fold_div_def getIntValue_def getUIntValue_def isIntegral_def assertR_def)
next
  case False
  then show ?thesis by (auto simp: fold_div_def isIntegral_def split: option.split)
qed

lemma step_fold_div:
  assumes "small a" "small_step True k"
  shows "small_step True (bindR (fold_div a b) (\<lambda>r. case r of Some e \<Rightarrow> ok (Done e) | None \<Rightarrow> k))"
  by (rule returns_bind [OF fold_div_returns [OF assms(1)]]) (use assms(2) in \<open>simp split: option.split\<close>)

lemma simp_Div_returns:
  assumes g: "good F (Div t a b)" and s: "small a" "small b" "small op"
  shows "small_step True (simp_Div F op a0 b0 a b)"
proof -
  note ga = good_arith [OF g arith_op_simps(4)]
  have m: "returns True small (Div_make a b)"
    using arith_make_returns [OF ga(3-6) s(1,2)] by simp
  show ?thesis unfolding simp_Div_def by (intro step_fold_div steps m s ga)
qed

lemma simp_Or_returns:
  "good F (Or t a b) \<Longrightarrow> small a \<Longrightarrow> small b \<Longrightarrow> small op \<Longrightarrow> small_step d (simp_Or op a0 b0 a b)"
  by (cases "as_Literal a"; cases "as_Literal b")
    (auto simp: simp_Or_def getBoolValue_def binary_ok_def arith_op_def isBool_def Or_make_def)

lemma simp_And_returns:
  "good F (And t a b) \<Longrightarrow> small a \<Longrightarrow> small b \<Longrightarrow> small op \<Longrightarrow> small_step d (simp_And op a0 b0 a b)"
  by (cases "as_Literal a"; cases "as_Literal b")
    (auto simp: simp_And_def getBoolValue_def binary_ok_def arith_op_def isBool_def And_make_def)

lemma visitBinaryOp_returns:
  assumes "good F (Binary cls t a b)" "\<not> arith_op cls" "small a" "small b" "small op"
  shows "returns d small (visitBinaryOp cls op a0 b0 a b)"
  using assms by (cases cls) (auto simp: visitBinaryOp_def binary_ok_def arith_op_def makes)

lemma simp_binary_returns:
  assumes g: "good F (Binary cls t a b)" and s: "small a" "small b" "small op"
  shows "small_step (cls = OpDiv) (simp_binary F cls op a0 b0 a b)"
proof -
  consider "cls = OpAdd" | "cls = OpSub" | "cls = OpMul" | "cls = OpDiv" | "cls = OpOr" | "cls = OpAnd"
    | "\<not> arith_op cls" "simp_binary F cls = (\<lambda>op a0 b0 a b. done_res (visitBinaryOp cls op a0 b0 a b))"
    using g by (cases cls) (auto simp: fun_eq_iff arith_op_def binary_ok_def)
  then show ?thesis
  proof cases
    case 1 with simp_Add_returns [OF g [unfolded 1] s] show ?thesis by simp
  next
    case 2 with simp_Sub_returns [OF g [unfolded 2] s] show ?thesis by simp
  next
    case 3 with simp_Mul_returns [OF g [unfolded 3] s] show ?thesis by simp
  next
    case 4 with simp_Div_returns [OF g [unfolded 4] s] show ?thesis by simp
  next
    case 5 with simp_Or_returns [OF g [unfolded 5] s] show ?thesis by simp
  next
    case 6 with simp_And_returns [OF g [unfolded 6] s] show ?thesis by simp
  next
    case 7 with visitBinaryOp_returns [OF g 7(1) s] show ?thesis by (simp add: step_make)
  qed
qed

lemma mapR_returns:
  assumes "\<And>x. x \<in> set xs \<Longrightarrow> returns d P (f x)"
  shows "returns d (\<lambda>ys. \<forall>y \<in> set ys. P y) (mapR f xs)"
  using assms
proof (induction xs)
  case (Cons x xs)
  then have "returns d P (f x)" "returns d (\<lambda>ys. \<forall>y \<in> set ys. P y) (mapR f xs)" by auto
  then show ?case by (cases "f x"; cases "mapR f xs") auto
qed simp

lemma simp_Cast_returns:
  assumes "small (Cast t a)" "small op" shows "returns d small (simp_Cast F op t a0 a)"
proof -
  have "returns d small (bindR (tcv_const F t n) (\<lambda>lit. Literal_make lit t))" for n
  proof -
    have "\<exists>x. tcv_const F t n = ok x \<and> tc_type x = t"
      using assms(1) by (cases t) (auto simp: tcv_const_def tc_setInt_def kind_preds)
    then obtain x where x: "tcv_const F t n = ok x" "tc_type x = t" by blast
    with Literal_make_returns [OF x(2)] assms(1) show ?thesis by fastforce
  qed
  with assms show ?thesis
    by (auto simp: simp_Cast_def getBoolValue_def Cast_make_def split: option.split)
qed

lemma simplify_returns:
  assumes "good F e" "small e"
  shows "returns True small (simplify F e)"
  using assms
proof (induction F e rule: simplify.induct)
  case (3 F op t a)
  then have "returns True small (simplify F a)" by simp
  then show ?case unfolding simplify.simps
    by (rule returns_bind) (use "3.prems" in \<open>cases op; auto simp: makes\<close>)
next
  case (4 F op t a b)
  have "returns True small (simplify F a)" using 4 by simp
  then show ?case unfolding simplify.simps
  proof (rule returns_bind)
    fix a' assume a': "simplify F a = ok a'" "small a'"
    have sa: "sound F a a'" using simplify_sound a'(1) "4.prems" by simp
    have "returns True small (simplify F b)" using 4 a' by simp
    then show "returns True small (bindR (simplify F b) (\<lambda>b'.
       bindR (simp_binary F op (Binary op t a b) a b a' b') (\<lambda>r. case r of Done e \<Rightarrow> ok e | Again e \<Rightarrow> simplify F e)))"
    proof (rule returns_bind)
      fix b' assume b': "simplify F b = ok b'" "small b'"
      have sb: "sound F b b'" using simplify_sound b'(1) "4.prems" by simp
      have s: "sound F (Binary op t a b) (Binary op t a' b')" by (rule sound_Binary [OF "4.prems"(1) sa sb])
      have "small_step (op = OpDiv) (simp_binary F op (Binary op t a b) a b a' b')"
        by (rule simp_binary_returns [OF soundD(2) [OF s]]) (use a' b' "4.prems" in auto)
      then have "small_step True (simp_binary F op (Binary op t a b) a b a' b')"
        by (rule returns_mono) auto
      then show "returns True small (bindR (simp_binary F op (Binary op t a b) a b a' b')
          (\<lambda>r. case r of Done e \<Rightarrow> ok e | Again e \<Rightarrow> simplify F e))"
      proof (rule returns_bind)
        fix r assume r: "simp_binary F op (Binary op t a b) a b a' b' = ok r" "small (step_expr r)"
        show "returns True small (case r of Done e \<Rightarrow> ok e | Again e \<Rightarrow> simplify F e)"
        proof (cases r)
          case (Done e)
          with r show ?thesis by simp
        next
          case (Again e)
          have "good F e"
            using sound_simp_binary [OF soundD(2) [OF s] r(1)] Again by (simp add: sound_def)
          with "4.IH"(3) [OF a'(1) b'(1) r(1) Again] r(2) Again show ?thesis by simp
        qed
      qed
    qed
  qed
next
  case (5 F op t es)
  have "returns True (\<lambda>es. \<forall>e \<in> set es. small e) (mapR (simplify F) es)"
    by (rule mapR_returns) (use 5 in auto)
  then show ?case unfolding simplify.simps
  proof (rule returns_bind)
    fix es' assume es': "mapR (simplify F) es = ok es'" "\<forall>e \<in> set es'. small e"
    have "es' \<noteq> es \<Longrightarrow> es' \<noteq> []" using mapR_length [OF es'(1)] by auto
    then show "returns True small (if es' = es then ok (Nary op t es) else Nary_make op es')"
      using es' "5.prems" by (cases op; cases es') (auto simp: makes)
  qed
next
  case (6 F t a)
  have "returns True small (simplify F a)" using 6 by simp
  then show ?case unfolding simplify.simps
    by (rule returns_bind) (use "6.prems" in \<open>auto intro!: simp_Cast_returns\<close>)
next
  case (7 F t f es)
  have "returns True (\<lambda>es. \<forall>e \<in> set es. small e) (mapR (simplify F) es)"
    by (rule mapR_returns) (use 7 in auto)
  then show ?case unfolding simplify.simps
    by (rule returns_bind) (use "7.prems" in \<open>auto simp: makes\<close>)
next
  case (8 F t arr loc)
  have "returns True small (simplify F arr)" using 8 by simp
  then show ?case unfolding simplify.simps
  proof (rule returns_bind)
    fix arr' assume arr': "simplify F arr = ok arr'" "small arr'"
    have "returns True small (simplify F loc)" using 8 arr' by simp
    then show "returns True small (bindR (simplify F loc) (\<lambda>loc'.
       if arr' = arr \<and> loc' = loc then ok (Load t arr loc) else Load_make arr' loc'))"
    proof (rule returns_bind)
      fix loc' assume loc': "simplify F loc = ok loc'" "small loc'"
      have "etype loc' = etype loc" using simplify_sound [OF loc'(1)] "8.prems" by (simp add: sound_def)
      with arr' loc' "8.prems"
      show "returns True small (if arr' = arr \<and> loc' = loc then ok (Load t arr loc) else Load_make arr' loc')"
        by (auto simp: makes isInteger_def)
    qed
  qed
next
  case (9 F t a)
  have "returns True small (simplify F a)" using 9 by simp
  then show ?case unfolding simplify.simps
    by (rule returns_bind) (use "9.prems" in \<open>auto simp: makes\<close>)
next
  case (11 F ad t tensor pr mode ix nm)
  have "returns True small (simplify F tensor)" using 11 by simp
  then show ?case unfolding simplify.simps
    by (rule returns_bind) (use "11.prems" in \<open>auto simp: makes\<close>)
qed auto

subsection \<open>Properties\<close>


text \<open>(C26) The simplified expression is the expression itself or has strictly fewer nodes, so that
  simplifying until nothing changes ends.\<close>

theorem simplify_decreases:
  assumes "simplify F e = ok e'"
  shows "e' = e \<or> nodes e' < nodes e"
  using simplify_shrinks [OF assms] by (simp add: shrinks_def)

text \<open>The example \<open>(i + 2) + 3\<close>, which becomes \<open>i + 5\<close>.\<close>

definition example_i :: expr where
  "example_i = Var 0 ''i'' Int32 False False False"

definition example_sum :: expr where
  "example_sum = Binary OpAdd Int32 (Binary OpAdd Int32 example_i (Literal Int32 2)) (Literal Int32 3)"

lemma example_sum_simplified:
  "simplify fpu_null example_sum = ok (Binary OpAdd Int32 example_i (Literal Int32 5))"
  by code_simp

definition example_state :: state where
  "example_state = \<lparr>scalars = (\<lambda>l. if l = LVar 0 then Some 7 else None), arrays = (\<lambda>_. None),
     ext_calls = (\<lambda>_ _. err TypeError)\<rparr>"


lemma simplify_decreases_witness:
  "nodes (Binary OpAdd Int32 example_i (Literal Int32 5)) < nodes example_sum"
  using simplify_decreases [OF example_sum_simplified] by (simp add: example_sum_def)


text \<open>The three outcomes: the example is simplified, dividing by a literal zero is, and the sum of the literals
  is not an \<open>int\<close>.\<close>

definition example_folded :: "expr \<Rightarrow> expr" where
  "example_folded e = Binary OpAdd Int32 (Binary OpAdd Int32 example_i (Literal Int32 2147483647)) e"

lemma example_outcomes:
  "simplify fpu_null (Binary OpDiv Int32 (Literal Int32 1) (Literal Int32 0)) = err DivByZero"
  "simplify fpu_null (example_folded (Literal Int32 1)) = err Overflow"
  by code_simp+


text \<open>A floating-point product with the literal 0 is replaced by 0 and loses the value of the other operand, a NaN or
  infinity included: where the product is not 0 the value changes.\<close>

definition example_f :: expr where
  "example_f = Var 0 ''f'' Float64 False False False"

lemma simplify_float_zero:
  "simplify F (Binary OpMul Float64 example_f (Literal Float64 z)) = ok (Literal Float64 z)"
  if "equalsScalar F Float64 z 0 = ok True"
  using that by (simp add: example_f_def simp_Mul_def fold_literals_def reassociate_def is_scalar_def isInt_def isUInt_def)

text \<open>Folding two integer literals of different types converts the operand of the narrower type
  through \<open>int\<close>: the folded sum uses the operand's low 32 bits read as a signed number, which is not
  the operand when it is not in the range of \<open>int\<close>.\<close>

theorem simplify_mixed_fold:
  assumes "t \<in> {UInt8, UInt16, UInt32, UInt64, Int8, Int16, Int32}"
    "\<not> overflows Int64 (wrapS 32 (member_get t u) + member_get Int64 v)"
  shows "\<exists>w. simplify F (Binary OpAdd Int64 (Literal t u) (Literal Int64 v)) = ok (Literal Int64 w) \<and>
    member_get Int64 w = wrapS 32 (member_get t u) + member_get Int64 v"
proof -
  have m: "max_type t Int64 = ok Int64" "t \<noteq> Int64" "isBool t \<or> isUInt t \<or> isInt t"
    using assms by (auto simp: max_type_def kind_preds Int_bits_def)
  have i: "isIntegral Int64" "isInt Int64" "\<not> isUInt Int64" "\<not> isBool Int64"
    by (simp_all add: isIntegral_def kind_preds)
  have w: "wrapS 32 (wrapU 64 x) = wrapS 32 x" for x
    by (rule wrapS_cong) (simp add: wrapU_def mod_mod_cancel)
  have c: "conv Int64 (wrapS 32 x) = wrapS 32 x" for x
    using wrapS_range [of 32 x] by (auto simp: conv_def kind_preds intro!: wrapS_id)
  obtain x where x: "literal_as F t u Int64 = ok x" "tc_type x = Int64"
    "tc_value x = wrapS 32 (member_get t u)"
    using m i c by (auto simp: literal_as_def tcv_getAsIndex_def tc_getAsIndex_def tcv_const_def tc_setInt_def
        tc_value_def getTypedVal_def w)
  obtain r where r: "tcv_add F x (getTypedVal Int64 v) = ok r" "tc_type r = Int64"
    "tc_value r = wrapS 32 (member_get t u) + member_get Int64 v"
    using tcv_add_integral [of x "getTypedVal Int64 v" F] x i assms(2) by (auto simp: conv_not_overflowing)
  have "Literal_make r Int64 = ok (Literal Int64 (member_put Int64 0 (tc_value r)))"
    using r(2) by (simp add: Literal_make_def tc_set_def tc_value_def getNumBytes_def)
  then show ?thesis
    using m i x r by (simp add: simp_Add_def fold_literals_def literal_as_def conv_not_overflowing [OF _ assms(2)])
qed

lemma simplify_mixed_fold_witness:
  "\<exists>w. simplify fpu_null (Binary OpAdd Int64 (Literal UInt32 4294967295) (Literal Int64 0)) = ok (Literal Int64 w) \<and>
    member_get Int64 w = -1 \<and> member_get UInt32 4294967295 = 4294967295"
proof -
  have v: "member_get UInt32 4294967295 = 4294967295" "member_get Int64 0 = 0"
    by (simp_all add: member_get_def kind_preds read_bits_def wrapU_def wrapS_def)
  have c: "wrapS 32 4294967295 + 0 = -1"
    by (simp add: wrapS_def)
  show ?thesis
    using simplify_mixed_fold [of UInt32 4294967295 0 fpu_null] unfolding v c by (auto simp: overflows_def)
qed

end
