(* ===== verification/Stmt_Semantics.thy ===== *)
theory Stmt_Semantics
  imports IR_Semantics
begin

text \<open>
  The meaning of IR statements, as a big-step relation: the semantics of the C code the statements are
  printed to (src/codegen/codegen_c.cpp, src/ir/ir_printer.cpp). Statements that suspend, print or sort,
  and function definitions, have no rule.
\<close>

subsection \<open>Steps\<close>

datatype flow = Fall | Brk | Cont

definition set_scalar :: "location \<Rightarrow> int \<Rightarrow> state \<Rightarrow> state" where
  "set_scalar l v s = s\<lparr>scalars := (scalars s)(l := Some v)\<rparr>"

definition set_array :: "location \<Rightarrow> int list option \<Rightarrow> state \<Rightarrow> state" where
  "set_array l v s = s\<lparr>arrays := (arrays s)(l := v)\<rparr>"

text \<open>Declarations and assignments: the right-hand side is converted to the type of the variable.\<close>

definition assign :: "fpu \<Rightarrow> expr \<Rightarrow> expr \<Rightarrow> state \<Rightarrow> state res" where
  "assign F lhs rhs s =
     (case location_of lhs of
        None \<Rightarrow> err TypeError
      | Some l \<Rightarrow> bindR (eval F s rhs) (\<lambda>x. ok (set_scalar l (convert F (etype rhs) (etype lhs) x) s)))"

definition store :: "fpu \<Rightarrow> expr \<Rightarrow> expr \<Rightarrow> expr \<Rightarrow> state \<Rightarrow> state res" where
  "store F arr loc data s =
     bindR (eval F s loc) (\<lambda>i. bindR (eval F s data) (\<lambda>x.
       case location_of arr of
         None \<Rightarrow> err TypeError
       | Some l \<Rightarrow>
           (case arrays s l of
              None \<Rightarrow> err BadMemory
            | Some xs \<Rightarrow>
                (if 0 \<le> i \<and> i < int (length xs)
                 then ok (set_array l (Some (xs[nat i := convert F (etype data) (etype arr) x])) s)
                 else err BadMemory))))"

text \<open>The contents a new allocation may have: unspecified for \<open>malloc\<close>, zero for \<open>calloc\<close>, the old
  prefix for \<open>realloc\<close>.\<close>

definition allocated :: "bool \<Rightarrow> bool \<Rightarrow> int list option \<Rightarrow> int list \<Rightarrow> bool" where
  "allocated is_realloc clear old new \<longleftrightarrow>
     (if is_realloc
      then (case old of None \<Rightarrow> True
            | Some xs \<Rightarrow> (\<forall>k < min (length xs) (length new). new ! k = xs ! k))
      else clear \<longrightarrow> new = replicate (length new) 0)"

text \<open>The clause of a \<open>Case\<close> that is taken: the first whose condition holds, and the last one unconditionally
  when the clauses always match (but a single clause is printed as a plain \<open>if\<close>).\<close>

fun choose_rest :: "fpu \<Rightarrow> bool \<Rightarrow> (expr \<times> stmt) list \<Rightarrow> state \<Rightarrow> stmt option res" where
  "choose_rest F m [] s = ok None"
| "choose_rest F m ((c, b) # cs) s =
     (if m \<and> cs = [] then ok (Some b)
      else bindR (eval F s c) (\<lambda>x. if x \<noteq> 0 then ok (Some b) else choose_rest F m cs s))"

fun choose_clause :: "fpu \<Rightarrow> bool \<Rightarrow> (expr \<times> stmt) list \<Rightarrow> state \<Rightarrow> stmt option res" where
  "choose_clause F m [] s = ok None"
| "choose_clause F m ((c, b) # cs) s =
     bindR (eval F s c) (\<lambda>x. if x \<noteq> 0 then ok (Some b) else choose_rest F m cs s)"

fun switch_to :: "fpu \<Rightarrow> int \<Rightarrow> (expr \<times> stmt) list \<Rightarrow> state \<Rightarrow> stmt option res" where
  "switch_to F x [] s = ok None"
| "switch_to F x ((c, b) # cs) s =
     bindR (eval F s c) (\<lambda>y. if x = y then ok (Some b) else switch_to F x cs s)"

text \<open>What happens between two iterations: the increment of a \<open>for\<close> loop, nothing in a \<open>while\<close>.\<close>

definition advance :: "fpu \<Rightarrow> (expr \<times> expr) option \<Rightarrow> state \<Rightarrow> state res" where
  "advance F upd s =
     (case upd of None \<Rightarrow> ok s
      | Some (v, i) \<Rightarrow> assign F v (Binary OpAdd (etype v) v i) s)"

inductive exec :: "fpu \<Rightarrow> stmt \<Rightarrow> state \<Rightarrow> flow \<Rightarrow> state \<Rightarrow> bool"
  and execs :: "fpu \<Rightarrow> stmt list \<Rightarrow> state \<Rightarrow> flow \<Rightarrow> state \<Rightarrow> bool"
  and loops :: "fpu \<Rightarrow> expr \<Rightarrow> (expr \<times> expr) option \<Rightarrow> stmt \<Rightarrow> state \<Rightarrow> state \<Rightarrow> bool"
  for F where
  Block: "execs F ss s fl s' \<Longrightarrow> exec F (Block ss) s fl s'"
| Scope: "exec F b s fl s' \<Longrightarrow> exec F (Scope b) s fl s'"
| Store: "store F arr loc data s = ok s' \<Longrightarrow> exec F (Store arr loc data at pu) s Fall s'"
| IfTrue: "eval F s c = ok x \<Longrightarrow> x \<noteq> 0 \<Longrightarrow> exec F t s fl s' \<Longrightarrow> exec F (IfThenElse c t f) s fl s'"
| IfFalse: "eval F s c = ok 0 \<Longrightarrow> exec F f s fl s' \<Longrightarrow> exec F (IfThenElse c t (Some f)) s fl s'"
| IfSkip: "eval F s c = ok 0 \<Longrightarrow> exec F (IfThenElse c t None) s Fall s"
| CaseSome: "choose_clause F m cs s = ok (Some b) \<Longrightarrow> exec F b s fl s' \<Longrightarrow> exec F (Case cs m) s fl s'"
| CaseNone: "choose_clause F m cs s = ok None \<Longrightarrow> exec F (Case cs m) s Fall s"
| SwitchSome: "eval F s e = ok x \<Longrightarrow> switch_to F x cs s = ok (Some b) \<Longrightarrow> exec F b s fl s' \<Longrightarrow>
    exec F (Switch cs e) s (if fl = Brk then Fall else fl) s'"
| SwitchNone: "eval F s e = ok x \<Longrightarrow> switch_to F x cs s = ok None \<Longrightarrow> exec F (Switch cs e) s Fall s"
| For: "assign F v a s = ok s1 \<Longrightarrow> loops F (Binary OpLt Bool v e) (Some (v, i)) b s1 s' \<Longrightarrow>
    exec F (For v a e i b k pu uf vw) s Fall s'"
| While: "loops F c None b s s' \<Longrightarrow> exec F (While c b k vw) s Fall s'"
| VarDecl: "assign F v r s = ok s' \<Longrightarrow> exec F (VarDecl v r) s Fall s'"
| Assign: "assign F l r s = ok s' \<Longrightarrow> exec F (Assign l r at pu) s Fall s'"
| Allocate: "eval F s n = ok k \<Longrightarrow> location_of v = Some l \<Longrightarrow> int (length new) = k \<Longrightarrow>
    allocated is_realloc clear (arrays s l) new \<Longrightarrow>
    exec F (Allocate v n old is_realloc clear) s Fall (set_array l (Some new) s)"
| Free: "location_of v = Some l \<Longrightarrow> exec F (Free v) s Fall (set_array l None s)"
| Comment: "exec F (Comment c) s Fall s"
| BlankLine: "exec F BlankLine s Fall s"
| Continue: "exec F Continue s Cont s"
| Break: "exec F Break s Brk s"
| Nil: "execs F [] s Fall s"
| Cons: "exec F b s Fall s1 \<Longrightarrow> execs F bs s1 fl s' \<Longrightarrow> execs F (b # bs) s fl s'"
| Stop: "exec F b s fl s' \<Longrightarrow> fl \<noteq> Fall \<Longrightarrow> execs F (b # bs) s fl s'"
| Exit: "eval F s c = ok 0 \<Longrightarrow> loops F c upd b s s"
| Loop: "eval F s c = ok x \<Longrightarrow> x \<noteq> 0 \<Longrightarrow> exec F b s fl s1 \<Longrightarrow> fl \<noteq> Brk \<Longrightarrow> advance F upd s1 = ok s2 \<Longrightarrow>
    loops F c upd b s2 s' \<Longrightarrow> loops F c upd b s s'"
| Leave: "eval F s c = ok x \<Longrightarrow> x \<noteq> 0 \<Longrightarrow> exec F b s Brk s' \<Longrightarrow> loops F c upd b s s'"

inductive_cases BlockE [elim!]: "exec F (Block ss) s fl s'"
inductive_cases ScopeE [elim!]: "exec F (Scope b) s fl s'"
inductive_cases StoreE [elim!]: "exec F (Store arr loc data at pu) s fl s'"
inductive_cases IfE: "exec F (IfThenElse c t f) s fl s'"
inductive_cases CaseE: "exec F (Case cs m) s fl s'"
inductive_cases SwitchE: "exec F (Switch cs e) s fl s'"
inductive_cases ForE: "exec F (For v a e i b k pu uf vw) s fl s'"
inductive_cases WhileE: "exec F (While c b k vw) s fl s'"
inductive_cases VarDeclE [elim!]: "exec F (VarDecl v r) s fl s'"
inductive_cases AssignE [elim!]: "exec F (Assign l r at pu) s fl s'"
inductive_cases AllocateE: "exec F (Allocate v n old is_realloc clear) s fl s'"
inductive_cases FreeE [elim!]: "exec F (Free v) s fl s'"
inductive_cases NilE [elim!]: "execs F [] s fl s'"
inductive_cases ConsE: "execs F (b # bs) s fl s'"

inductive_simps exec_simps:
  "exec F (Block ss) s fl s'" "exec F (Scope b) s fl s'" "exec F (VarDecl v r) s fl s'"
  "exec F (Assign l r at pu) s fl s'" "exec F (Comment c) s fl s'" "exec F BlankLine s fl s'"
  "exec F (IfThenElse c t f) s fl s'" "exec F (Store arr loc data at pu) s fl s'"

inductive_simps execs_simps: "execs F [] s fl s'" "execs F (b # bs) s fl s'"

lemma execs_append:
  "execs F xs s Fall s1 \<Longrightarrow> execs F ys s1 fl s' \<Longrightarrow> execs F (xs @ ys) s fl s'"
  by (induction xs arbitrary: s) (auto elim!: ConsE intro: exec_execs_loops.intros)

subsection \<open>An interpreter\<close>

text \<open>Runs a statement with a bound on the depth of the execution; a new allocation is filled with zeros. It
  computes executions.\<close>

definition new_array :: "bool \<Rightarrow> int list option \<Rightarrow> nat \<Rightarrow> int list" where
  "new_array is_realloc old n =
     (case old of
        Some xs \<Rightarrow> if is_realloc then take n (xs @ replicate n 0) else replicate n 0
      | None \<Rightarrow> replicate n 0)"

lemma new_array: "length (new_array r old n) = n" "allocated r c old (new_array r old n)"
  by (auto simp: new_array_def allocated_def nth_append split: option.split)

fun run :: "nat \<Rightarrow> fpu \<Rightarrow> stmt \<Rightarrow> state \<Rightarrow> (flow \<times> state) res"
  and runs :: "nat \<Rightarrow> fpu \<Rightarrow> stmt list \<Rightarrow> state \<Rightarrow> (flow \<times> state) res"
  and run_loop :: "nat \<Rightarrow> fpu \<Rightarrow> expr \<Rightarrow> (expr \<times> expr) option \<Rightarrow> stmt \<Rightarrow> state \<Rightarrow> state res" where
  "run 0 F b s = err NoReturn"
| "run (Suc n) F (Block ss) s = runs n F ss s"
| "run (Suc n) F (Scope b) s = run n F b s"
| "run (Suc n) F (Store arr loc d at pu) s = bindR (store F arr loc d s) (\<lambda>s'. ok (Fall, s'))"
| "run (Suc n) F (IfThenElse c t f) s =
     bindR (eval F s c) (\<lambda>x. if x \<noteq> 0 then run n F t s
       else case f of None \<Rightarrow> ok (Fall, s) | Some g \<Rightarrow> run n F g s)"
| "run (Suc n) F (Case cs m) s =
     bindR (choose_clause F m cs s) (\<lambda>r. case r of None \<Rightarrow> ok (Fall, s) | Some b \<Rightarrow> run n F b s)"
| "run (Suc n) F (For v a e i b k pu uf vw) s =
     bindR (assign F v a s) (\<lambda>s1.
       bindR (run_loop n F (Binary OpLt Bool v e) (Some (v, i)) b s1) (\<lambda>s'. ok (Fall, s')))"
| "run (Suc n) F (While c b k vw) s = bindR (run_loop n F c None b s) (\<lambda>s'. ok (Fall, s'))"
| "run (Suc n) F (VarDecl v r) s = bindR (assign F v r s) (\<lambda>s'. ok (Fall, s'))"
| "run (Suc n) F (Assign l r at pu) s = bindR (assign F l r s) (\<lambda>s'. ok (Fall, s'))"
| "run (Suc n) F (Allocate v k old is_realloc clear) s =
     bindR (eval F s k) (\<lambda>x. case location_of v of
       None \<Rightarrow> err TypeError
     | Some l \<Rightarrow> (if x < 0 then err BadMemory
         else ok (Fall, set_array l (Some (new_array is_realloc (arrays s l) (nat x))) s)))"
| "run (Suc n) F (Free v) s =
     (case location_of v of None \<Rightarrow> err TypeError | Some l \<Rightarrow> ok (Fall, set_array l None s))"
| "run (Suc n) F (Comment c) s = ok (Fall, s)"
| "run (Suc n) F BlankLine s = ok (Fall, s)"
| "run (Suc n) F Continue s = ok (Cont, s)"
| "run (Suc n) F Break s = ok (Brk, s)"
| "run (Suc n) F _ s = err TypeError"
| "runs 0 F bs s = err NoReturn"
| "runs (Suc n) F [] s = ok (Fall, s)"
| "runs (Suc n) F (b # bs) s =
     bindR (run n F b s) (\<lambda>(fl, s1). if fl = Fall then runs n F bs s1 else ok (fl, s1))"
| "run_loop 0 F c upd b s = err NoReturn"
| "run_loop (Suc n) F c upd b s =
     bindR (eval F s c) (\<lambda>x. if x = 0 then ok s
       else bindR (run n F b s) (\<lambda>(fl, s1). if fl = Brk then ok s1
         else bindR (advance F upd s1) (\<lambda>s2. run_loop n F c upd b s2)))"

lemma run_sound:
  "run n F b s = ok (fl, s') \<Longrightarrow> exec F b s fl s'"
  "runs n F bs s = ok (fl, s') \<Longrightarrow> execs F bs s fl s'"
  "run_loop n F c upd b s = ok s' \<Longrightarrow> loops F c upd b s s'"
proof (induction n F b s and n F bs s and n F c upd b s arbitrary: fl s' and fl s' and s' rule: run_runs_run_loop.induct)
  case (11 n F v k old is_realloc clear s)
  then obtain x where x: "eval F s k = ok x" by (auto simp: res_simps)
  with 11 obtain l where l: "location_of v = Some l" "0 \<le> x" "fl = Fall"
    "s' = set_array l (Some (new_array is_realloc (arrays s l) (nat x))) s"
    by (auto split: option.splits if_splits)
  show ?case unfolding l
    by (rule exec_execs_loops.Allocate [OF x l(1)]) (use l(2) in \<open>simp_all add: new_array\<close>)
next
  case (5 n F c t f s)
  then show ?case
    by (cases f) (auto simp: res_simps split: if_splits intro: exec_execs_loops.intros)
next
  case (6 n F cs m s)
  then obtain r where r: "choose_clause F m cs s = ok r" by (auto simp: res_simps)
  with 6 show ?case by (cases r) (auto intro: exec_execs_loops.intros)
next
  case (22 n F c upd b s)
  then obtain x where x: "eval F s c = ok x" by (auto simp: res_simps)
  show ?case
  proof (cases "x = 0")
    case True
    with 22(3) x show ?thesis by (auto intro: exec_execs_loops.Exit)
  next
    case False
    with 22(3) x obtain fl s1 where b: "run n F b s = ok (fl, s1)" by (auto simp: res_simps)
    with 22(1) [OF x False] have e: "exec F b s fl s1" by blast
    show ?thesis
    proof (cases "fl = Brk")
      case True
      with 22(3) x False b e show ?thesis by (auto intro: exec_execs_loops.Leave)
    next
      case nb: False
      with 22(3) x False b obtain s2 where s2: "advance F upd s1 = ok s2" "run_loop n F c upd b s2 = ok s'"
        by (auto simp: res_simps)
      have "loops F c upd b s2 s'" by (rule 22(2) [OF x False b refl nb s2])
      from Loop [OF x False e nb s2(1) this] show ?thesis .
    qed
  qed
qed (auto simp: res_simps split: if_splits intro: exec_execs_loops.intros split: option.splits)

text \<open>A scalar at the end of a run.\<close>

definition run_reads :: "nat \<Rightarrow> fpu \<Rightarrow> stmt \<Rightarrow> state \<Rightarrow> location \<Rightarrow> int option res" where
  "run_reads n F b s l = bindR (run n F b s) (\<lambda>(fl, s'). assertR TypeError (fl = Fall) (ok (scalars s' l)))"

lemma run_reads_exec:
  "run_reads n F b s l = ok v \<Longrightarrow> \<exists>s'. exec F b s Fall s' \<and> scalars s' l = v"
  by (auto simp: run_reads_def res_simps dest: run_sound(1))

end
