(* ===== verification/IR_Rewriter.thy ===== *)
theory IR_Rewriter
  imports Simplify
begin

text \<open>
  \<open>For::make\<close> of src/ir/ir.cpp and the statement part of \<open>IRRewriter\<close> (src/ir/ir_rewriter.cpp), with the
  rewriting of expressions as a parameter (the virtual \<open>visit\<close> methods a subclass overrides). Building a
  loop is stateful: it takes fresh variables and numbers the cached bounds with a static counter.

  A statement is rebuilt when one of its parts was rewritten to a different statement; the parts are
  compared by structure, which is what comparing the handles amounts to, since a rebuilt node differs
  from the visited one in a part.
\<close>

subsection \<open>The state of the constructors\<close>

record builder =
  next_addr :: nat          \<comment> \<open>the address of the next node whose identity matters\<close>
  num_vars_cached :: nat    \<comment> \<open>the static counter of \<open>For::make\<close>\<close>

text \<open>Computations with a state that may fail.\<close>

type_synonym ('s, 'a) stateful = "'s \<Rightarrow> ('a \<times> 's) res"

type_synonym 'a build = "(builder, 'a) stateful"

definition retB :: "'a \<Rightarrow> ('s, 'a) stateful" where
  "retB x = (\<lambda>b. ok (x, b))"

definition liftB :: "'a res \<Rightarrow> ('s, 'a) stateful" where
  "liftB m = (\<lambda>b. bindR m (\<lambda>x. ok (x, b)))"

definition bindB :: "('s, 'a) stateful \<Rightarrow> ('a \<Rightarrow> ('s, 'b) stateful) \<Rightarrow> ('s, 'b) stateful" where
  "bindB m f = (\<lambda>b. bindR (m b) (\<lambda>(x, b'). f x b'))"

definition updateB :: "('s \<Rightarrow> 's) \<Rightarrow> ('s, unit) stateful" where
  "updateB f = (\<lambda>b. ok ((), f b))"

fun mapB :: "('a \<Rightarrow> ('s, 'b) stateful) \<Rightarrow> 'a list \<Rightarrow> ('s, 'b list) stateful" where
  "mapB f [] = retB []"
| "mapB f (x # xs) = bindB (f x) (\<lambda>y. bindB (mapB f xs) (\<lambda>ys. retB (y # ys)))"

lemma retB_ok [res_simps]: "retB x b = ok (y, b') \<longleftrightarrow> y = x \<and> b' = b"
  by (auto simp: retB_def)

lemma liftB_ok [res_simps]: "liftB m b = ok (y, b') \<longleftrightarrow> m = ok y \<and> b' = b"
  by (auto simp: liftB_def res_simps)

lemma bindB_ok [res_simps]:
  "bindB m f b = ok (y, b') \<longleftrightarrow> (\<exists>x b1. m b = ok (x, b1) \<and> f x b1 = ok (y, b'))"
  by (auto simp: bindB_def res_simps)

lemma updateB_ok [res_simps]: "updateB f b = ok (y, b') \<longleftrightarrow> b' = f b"
  by (auto simp: updateB_def)

lemma bindB_retB [simp]: "bindB (retB x) f = f x"
  by (simp add: bindB_def retB_def)

lemma bindB_update_id [simp]: "bindB (updateB id) (\<lambda>_. m) = m" "bindB m (\<lambda>x. bindB (updateB id) (\<lambda>_. f x)) = bindB m f"
  by (simp_all add: bindB_def updateB_def)

lemma bindB_cong [fundef_cong]:
  "m = m' \<Longrightarrow> (\<And>x. f x = f' x) \<Longrightarrow> bindB m f = bindB m' f'"
  by (auto simp: bindB_def)

lemma mapB_cong [fundef_cong]:
  "xs = ys \<Longrightarrow> (\<And>x. x \<in> set ys \<Longrightarrow> f x = g x) \<Longrightarrow> mapB f xs = mapB g ys"
  by (induction ys arbitrary: xs) (auto intro!: bindB_cong)

lemma mapB_liftB: "mapB (\<lambda>x. liftB (f x)) xs = liftB (mapR f xs)"
proof (induction xs)
  case (Cons x xs)
  then show ?case
    by (cases "f x"; cases "mapR f xs") (auto simp: fun_eq_iff bindB_def liftB_def retB_def)
qed (simp add: retB_def liftB_def)

text \<open>The address of a node to be made.\<close>

definition fresh :: "nat build" where
  "fresh b = ok (next_addr b, b\<lparr>next_addr := Suc (next_addr b)\<rparr>)"

subsection \<open>For::make\<close>

text \<open>Simplifying until nothing changes.\<close>

function simplify_fix :: "fpu \<Rightarrow> expr \<Rightarrow> expr res" where
  "simplify_fix F e = bindR (simplify F e) (\<lambda>e'. if e' = e then ok e else simplify_fix F e')"
  by pat_completeness auto

termination simplify_fix
  by (relation "measure (\<lambda>(F, e). nodes e)") (auto dest: simplify_shrinks simp: shrinks_def)

declare simplify_fix.simps [simp del]

text \<open>The loads the rewriter \<open>RewriteArrayAccesses\<close> visits: it does not descend below a load.\<close>

fun outer_loads :: "expr \<Rightarrow> expr list" where
  "outer_loads (Unary op t a) = outer_loads a"
| "outer_loads (Binary op t a b) = outer_loads a @ outer_loads b"
| "outer_loads (Nary op t es) = concat (map outer_loads es)"
| "outer_loads (Cast t a) = outer_loads a"
| "outer_loads (Call t f es) = concat (map outer_loads es)"
| "outer_loads (Load t arr loc) = [Load t arr loc]"
| "outer_loads (Malloc t e) = outer_loads e"
| "outer_loads (GetProperty ad t tensor pr mode ix nm) = outer_loads tensor"
| "outer_loads _ = []"

definition loads_of :: "expr list \<Rightarrow> expr list" where
  "loads_of es = concat (map outer_loads es)"

fun stmt_loads :: "stmt \<Rightarrow> expr list" where
  "stmt_loads (Block ss) = concat (map stmt_loads ss)"
| "stmt_loads (Scope s) = stmt_loads s"
| "stmt_loads (Store arr loc d at pu) = loads_of [arr, loc, d]"
| "stmt_loads (IfThenElse c t None) = loads_of [c] @ stmt_loads t"
| "stmt_loads (IfThenElse c t (Some f)) = loads_of [c] @ stmt_loads t @ stmt_loads f"
| "stmt_loads (Case cs m) = concat (map (\<lambda>(c, s). loads_of [c] @ stmt_loads s) cs)"
| "stmt_loads (Switch cs e) = loads_of [e] @ concat (map (\<lambda>(c, s). loads_of [c] @ stmt_loads s) cs)"
| "stmt_loads (For v a b i s k pu uf vw) = loads_of [v, a, b, i] @ stmt_loads s"
| "stmt_loads (While c s k vw) = loads_of [c] @ stmt_loads s"
| "stmt_loads (Function n s is os) = stmt_loads s @ loads_of (is @ os)"
| "stmt_loads (VarDecl v r) = loads_of [v, r]"
| "stmt_loads (Assign l r at pu) = loads_of [l, r]"
| "stmt_loads (Yield cs v) = loads_of (cs @ [v])"
| "stmt_loads (Allocate v n old re cl) = loads_of [v, n]"
| "stmt_loads (Free v) = loads_of [v]"
| "stmt_loads (Print f es) = loads_of es"
| "stmt_loads (Sort es) = loads_of es"
| "stmt_loads _ = []"

fun load_loc :: "expr \<Rightarrow> expr" where
  "load_loc (Load t arr loc) = loc"
| "load_loc e = e"

text \<open>\<open>RewriteArrayAccesses\<close> simplifies the location of each load, and then leaves the load as it is:
  the code that would replace it follows a \<open>return\<close>.\<close>

definition rewrite_array_accesses :: "fpu \<Rightarrow> stmt \<Rightarrow> stmt res" where
  "rewrite_array_accesses F s = bindR (mapR (simplify_fix F \<circ> load_loc) (stmt_loads s)) (\<lambda>_. ok s)"

definition For_make ::
  "fpu \<Rightarrow> expr \<Rightarrow> expr \<Rightarrow> expr \<Rightarrow> expr \<Rightarrow> stmt \<Rightarrow> LoopKind \<Rightarrow> ParallelUnit \<Rightarrow> nat \<Rightarrow> int \<Rightarrow> stmt build" where
  "For_make F var start bound increment body kind parallel_unit unrollFactor vec_width =
     bindB
       (if \<not> isVar bound then
          bindB fresh (\<lambda>addr b.
            let v = Var_make addr (''endbound_'' @ show_nat (num_vars_cached b)) (etype bound) False False False
            in bindB (liftB (VarDecl_make v bound)) (\<lambda>d. retB ([d], v))
                 (b\<lparr>num_vars_cached := Suc (num_vars_cached b)\<rparr>))
        else retB ([], bound))
       (\<lambda>(decls, end').
          bindB (liftB (rewrite_array_accesses F (Scope_make body))) (\<lambda>contents.
            retB (Block (decls @
              [For var start end' increment contents kind parallel_unit unrollFactor vec_width]))))"

subsection \<open>IRRewriter\<close>

text \<open>The virtual methods of the class: the rewriting of expressions, a method that may handle a statement
  itself (and otherwise leaves it to the default traversal), the actions around the traversal of a
  \<open>Scope\<close>, and the making of loops in the state of the rewriter.\<close>

record 's rewriter =
  rw_expr :: "expr \<Rightarrow> ('s, expr) stateful"
  rw_visit :: "stmt \<Rightarrow> ('s, stmt option) stateful"
  rw_enter :: "'s \<Rightarrow> 's"
  rw_leave :: "'s \<Rightarrow> 's"
  rw_for :: "expr \<Rightarrow> expr \<Rightarrow> expr \<Rightarrow> expr \<Rightarrow> stmt \<Rightarrow> LoopKind \<Rightarrow> ParallelUnit \<Rightarrow> nat \<Rightarrow> int \<Rightarrow> ('s, stmt) stateful"

definition rewrite_clauses ::
  "(expr \<Rightarrow> ('s, expr) stateful) \<Rightarrow> (stmt \<Rightarrow> ('s, stmt) stateful) \<Rightarrow> (expr \<times> stmt) list \<Rightarrow> ('s, (expr \<times> stmt) list) stateful" where
  "rewrite_clauses fe fs cs = mapB (\<lambda>(c, s). bindB (fe c) (\<lambda>c'. bindB (fs s) (\<lambda>s'. retB (c', s')))) cs"

lemma rewrite_clauses_cong [fundef_cong]:
  "cs = cs' \<Longrightarrow> fe = fe' \<Longrightarrow> (\<And>c s. (c, s) \<in> set cs' \<Longrightarrow> fs s = fs' s) \<Longrightarrow>
    rewrite_clauses fe fs cs = rewrite_clauses fe' fs' cs'"
  unfolding rewrite_clauses_def by (intro mapB_cong) (auto intro!: bindB_cong)

definition rebuild :: "bool \<Rightarrow> stmt \<Rightarrow> ('s, stmt) stateful \<Rightarrow> ('s, stmt) stateful" where
  "rebuild same op m = (if same then retB op else m)"

definition visit_or :: "'s rewriter \<Rightarrow> stmt \<Rightarrow> ('s, stmt) stateful \<Rightarrow> ('s, stmt) stateful" where
  "visit_or R op m = bindB (rw_visit R op) (\<lambda>r. case r of Some s \<Rightarrow> retB s | None \<Rightarrow> m)"

lemma visit_or_cong [fundef_cong]:
  "R = R' \<Longrightarrow> op = op' \<Longrightarrow> m = m' \<Longrightarrow> visit_or R op m = visit_or R' op' m'"
  by simp

text \<open>Some parts get lost on rebuilding: a rewritten \<open>Yield\<close> keeps its old coordinates, and rewritten
  \<open>Allocate\<close>, \<open>Store\<close> and \<open>Assign\<close> nodes are made with the default \<open>clear = false\<close> and
  \<open>atomic_parallel_unit = NotParallel\<close>.\<close>

fun rewrite_with :: "'s rewriter \<Rightarrow> stmt \<Rightarrow> ('s, stmt) stateful" where
  "rewrite_with R (Block ss) = visit_or R (Block ss) (
     bindB (mapB (rewrite_with R) ss) (\<lambda>ss'.
       rebuild (ss' = ss) (Block ss) (retB (Block_make (map Some ss')))))"
| "rewrite_with R (Scope s) = visit_or R (Scope s) (
     bindB (updateB (rw_enter R)) (\<lambda>_. bindB (rewrite_with R s) (\<lambda>s'. bindB (updateB (rw_leave R)) (\<lambda>_.
       rebuild (s' = s) (Scope s) (retB (Scope_make s'))))))"
| "rewrite_with R (Store arr loc d at pu) = visit_or R (Store arr loc d at pu) (
     bindB (rw_expr R arr) (\<lambda>arr'. bindB (rw_expr R loc) (\<lambda>loc'. bindB (rw_expr R d) (\<lambda>d'.
       rebuild (arr' = arr \<and> loc' = loc \<and> d' = d) (Store arr loc d at pu)
         (retB (Store_make arr' loc' d' at NotParallel))))))"
| "rewrite_with R (IfThenElse c t f) = visit_or R (IfThenElse c t f) (
     bindB (rw_expr R c) (\<lambda>c'. bindB (rewrite_with R t) (\<lambda>t'.
       bindB (case f of None \<Rightarrow> retB None | Some g \<Rightarrow> bindB (rewrite_with R g) (\<lambda>g'. retB (Some g'))) (\<lambda>f'.
         rebuild (c' = c \<and> t' = t \<and> f' = f) (IfThenElse c t f) (liftB (IfThenElse_make c' t' f'))))))"
| "rewrite_with R (Case cs m) = visit_or R (Case cs m) (
     bindB (rewrite_clauses (rw_expr R) (rewrite_with R) cs) (\<lambda>cs'.
       rebuild (cs' = cs) (Case cs m) (liftB (Case_make cs' m))))"
| "rewrite_with R (Switch cs e) = visit_or R (Switch cs e) (
     bindB (rw_expr R e) (\<lambda>e'. bindB (rewrite_clauses (rw_expr R) (rewrite_with R) cs) (\<lambda>cs'.
       rebuild (e' = e \<and> cs' = cs) (Switch cs e) (liftB (Switch_make cs' e')))))"
| "rewrite_with R (For v a e i s k pu uf vw) = visit_or R (For v a e i s k pu uf vw) (
     bindB (rw_expr R v) (\<lambda>v'. bindB (rw_expr R a) (\<lambda>a'. bindB (rw_expr R e) (\<lambda>e'. bindB (rw_expr R i) (\<lambda>i'.
       bindB (rewrite_with R s) (\<lambda>s'.
         rebuild (v' = v \<and> a' = a \<and> e' = e \<and> i' = i \<and> s' = s) (For v a e i s k pu uf vw)
           (rw_for R v' a' e' i' s' k pu uf vw)))))))"
| "rewrite_with R (While c s k vw) = visit_or R (While c s k vw) (
     bindB (rw_expr R c) (\<lambda>c'. bindB (rewrite_with R s) (\<lambda>s'.
       rebuild (c' = c \<and> s' = s) (While c s k vw) (retB (While_make c' s' k vw)))))"
| "rewrite_with R (Function n s inputs outputs) = visit_or R (Function n s inputs outputs) (
     bindB (rewrite_with R s) (\<lambda>s'. bindB (mapB (rw_expr R) inputs) (\<lambda>is'. bindB (mapB (rw_expr R) outputs) (\<lambda>os'.
       rebuild (s' = s \<and> is' = inputs \<and> os' = outputs) (Function n s inputs outputs)
         (retB (Function_make n os' is' s'))))))"
| "rewrite_with R (VarDecl v r) = visit_or R (VarDecl v r) (
     bindB (rw_expr R v) (\<lambda>v'. bindB (rw_expr R r) (\<lambda>r'.
       rebuild (v' = v \<and> r' = r) (VarDecl v r) (liftB (VarDecl_make v' r')))))"
| "rewrite_with R (Assign l r at pu) = visit_or R (Assign l r at pu) (
     bindB (rw_expr R l) (\<lambda>l'. bindB (rw_expr R r) (\<lambda>r'.
       rebuild (l' = l \<and> r' = r) (Assign l r at pu) (liftB (Assign_make l' r' at NotParallel)))))"
| "rewrite_with R (Yield cs v) = visit_or R (Yield cs v) (
     bindB (mapB (rw_expr R) cs) (\<lambda>cs'. bindB (rw_expr R v) (\<lambda>v'.
       rebuild (v' = v \<and> cs' = cs) (Yield cs v) (liftB (Yield_make cs v')))))"
| "rewrite_with R (Allocate v n old re cl) = visit_or R (Allocate v n old re cl) (
     bindB (rw_expr R v) (\<lambda>v'. bindB (rw_expr R n) (\<lambda>n'.
       rebuild (v' = v \<and> n' = n) (Allocate v n old re cl) (liftB (Allocate_make v' n' re old False)))))"
| "rewrite_with R (Free v) = visit_or R (Free v) (
     bindB (rw_expr R v) (\<lambda>v'. rebuild (v' = v) (Free v) (liftB (Free_make v'))))"
| "rewrite_with R (Print f es) = visit_or R (Print f es) (
     bindB (mapB (rw_expr R) es) (\<lambda>es'. rebuild (es' = es) (Print f es) (retB (Print f es'))))"
| "rewrite_with R (Sort es) = visit_or R (Sort es) (
     bindB (mapB (rw_expr R) es) (\<lambda>es'. rebuild (es' = es) (Sort es) (retB (Sort es'))))"
| "rewrite_with R (Comment c) = visit_or R (Comment c) (
     retB (Comment c))"
| "rewrite_with R BlankLine = visit_or R BlankLine (
     retB BlankLine)"
| "rewrite_with R Continue = visit_or R Continue (
     retB Continue)"
| "rewrite_with R Break = visit_or R Break (
     retB Break)"

text \<open>A rewriter that only overrides the rewriting of expressions, by a function without state.\<close>

definition plain_rewriter :: "fpu \<Rightarrow> (expr \<Rightarrow> expr res) \<Rightarrow> builder rewriter" where
  "plain_rewriter F fe =
     \<lparr>rw_expr = (\<lambda>e. liftB (fe e)), rw_visit = (\<lambda>_. retB None), rw_enter = id, rw_leave = id,
      rw_for = For_make F\<rparr>"

lemma plain_rewriter_simps [simp]:
  "rw_expr (plain_rewriter F fe) e = liftB (fe e)" "visit_or (plain_rewriter F fe) op m = m"
  "rw_enter (plain_rewriter F fe) = id" "rw_leave (plain_rewriter F fe) = id"
  "rw_for (plain_rewriter F fe) = For_make F"
  by (simp_all add: plain_rewriter_def visit_or_def)

lemma plain_rewriter_expr: "rw_expr (plain_rewriter F fe) = (\<lambda>e. liftB (fe e))"
  by (simp add: fun_eq_iff)

definition rewrite_stmt :: "fpu \<Rightarrow> (expr \<Rightarrow> expr res) \<Rightarrow> stmt \<Rightarrow> stmt build" where
  "rewrite_stmt F fe = rewrite_with (plain_rewriter F fe)"

lemma rewrite_stmt_simps [simp]:
  "rewrite_stmt F fe (Block ss) = bindB (mapB (rewrite_stmt F fe) ss) (\<lambda>ss'.
       rebuild (ss' = ss) (Block ss) (retB (Block_make (map Some ss'))))"
  "rewrite_stmt F fe (Scope s) = bindB (rewrite_stmt F fe s) (\<lambda>s'. rebuild (s' = s) (Scope s) (retB (Scope_make s')))"
  "rewrite_stmt F fe (Store arr loc d at pu) = bindB (liftB (fe arr)) (\<lambda>arr'. bindB (liftB (fe loc)) (\<lambda>loc'. bindB (liftB (fe d)) (\<lambda>d'.
       rebuild (arr' = arr \<and> loc' = loc \<and> d' = d) (Store arr loc d at pu)
         (retB (Store_make arr' loc' d' at NotParallel)))))"
  "rewrite_stmt F fe (IfThenElse c t f) = bindB (liftB (fe c)) (\<lambda>c'. bindB (rewrite_stmt F fe t) (\<lambda>t'.
       bindB (case f of None \<Rightarrow> retB None | Some g \<Rightarrow> bindB (rewrite_stmt F fe g) (\<lambda>g'. retB (Some g'))) (\<lambda>f'.
         rebuild (c' = c \<and> t' = t \<and> f' = f) (IfThenElse c t f) (liftB (IfThenElse_make c' t' f')))))"
  "rewrite_stmt F fe (Case cs m) = bindB (rewrite_clauses (\<lambda>e. liftB (fe e)) (rewrite_stmt F fe) cs) (\<lambda>cs'.
       rebuild (cs' = cs) (Case cs m) (liftB (Case_make cs' m)))"
  "rewrite_stmt F fe (Switch cs e) = bindB (liftB (fe e)) (\<lambda>e'. bindB (rewrite_clauses (\<lambda>e. liftB (fe e)) (rewrite_stmt F fe) cs) (\<lambda>cs'.
       rebuild (e' = e \<and> cs' = cs) (Switch cs e) (liftB (Switch_make cs' e'))))"
  "rewrite_stmt F fe (For v a e i s k pu uf vw) = bindB (liftB (fe v)) (\<lambda>v'. bindB (liftB (fe a)) (\<lambda>a'. bindB (liftB (fe e)) (\<lambda>e'. bindB (liftB (fe i)) (\<lambda>i'.
       bindB (rewrite_stmt F fe s) (\<lambda>s'.
         rebuild (v' = v \<and> a' = a \<and> e' = e \<and> i' = i \<and> s' = s) (For v a e i s k pu uf vw)
           (For_make F v' a' e' i' s' k pu uf vw))))))"
  "rewrite_stmt F fe (While c s k vw) = bindB (liftB (fe c)) (\<lambda>c'. bindB (rewrite_stmt F fe s) (\<lambda>s'.
       rebuild (c' = c \<and> s' = s) (While c s k vw) (retB (While_make c' s' k vw))))"
  "rewrite_stmt F fe (Function nm s inputs outputs) = bindB (rewrite_stmt F fe s) (\<lambda>s'. bindB (liftB (mapR fe inputs)) (\<lambda>is'. bindB (liftB (mapR fe outputs)) (\<lambda>os'.
       rebuild (s' = s \<and> is' = inputs \<and> os' = outputs) (Function nm s inputs outputs)
         (retB (Function_make nm os' is' s')))))"
  "rewrite_stmt F fe (VarDecl v r) = bindB (liftB (fe v)) (\<lambda>v'. bindB (liftB (fe r)) (\<lambda>r'.
       rebuild (v' = v \<and> r' = r) (VarDecl v r) (liftB (VarDecl_make v' r'))))"
  "rewrite_stmt F fe (Assign l r at pu) = bindB (liftB (fe l)) (\<lambda>l'. bindB (liftB (fe r)) (\<lambda>r'.
       rebuild (l' = l \<and> r' = r) (Assign l r at pu) (liftB (Assign_make l' r' at NotParallel))))"
  "rewrite_stmt F fe (Yield xs v) = bindB (liftB (mapR fe xs)) (\<lambda>xs'. bindB (liftB (fe v)) (\<lambda>v'.
       rebuild (v' = v \<and> xs' = xs) (Yield xs v) (liftB (Yield_make xs v'))))"
  "rewrite_stmt F fe (Allocate v n old re cl) = bindB (liftB (fe v)) (\<lambda>v'. bindB (liftB (fe n)) (\<lambda>n'.
       rebuild (v' = v \<and> n' = n) (Allocate v n old re cl) (liftB (Allocate_make v' n' re old False))))"
  "rewrite_stmt F fe (Free v) = bindB (liftB (fe v)) (\<lambda>v'. rebuild (v' = v) (Free v) (liftB (Free_make v')))"
  "rewrite_stmt F fe (Print fmt es) = bindB (liftB (mapR fe es)) (\<lambda>es'. rebuild (es' = es) (Print fmt es) (retB (Print fmt es')))"
  "rewrite_stmt F fe (Sort es) = bindB (liftB (mapR fe es)) (\<lambda>es'. rebuild (es' = es) (Sort es) (retB (Sort es')))"
  "rewrite_stmt F fe (Comment txt) = retB (Comment txt)"
  "rewrite_stmt F fe BlankLine = retB BlankLine"
  "rewrite_stmt F fe Continue = retB Continue"
  "rewrite_stmt F fe Break = retB Break"
  unfolding rewrite_stmt_def by (simp_all add: plain_rewriter_expr mapB_liftB)

end
