(* ===== verification/Stmt_Sound.thy ===== *)
theory Stmt_Sound
  imports Simplify_Sound Stmt_Semantics IR_Rewriter
begin

text \<open>
  Rewriting statements: what a subclass of \<open>IRRewriter\<close> has to guarantee of its rewriting of expressions
  (locale \<open>expr_rewriter\<close>) for the rewritten statement to have every execution of the old one, and the
  caching of loop bounds by \<open>For::make\<close>.
\<close>

lemma isVar_location: "isVar e \<Longrightarrow> \<exists>k. location_of e = Some k"
  by (cases e) (auto simp: isVar_def)

lemma isVar_good: "isVar e \<Longrightarrow> good F e"
  by (cases e) (auto simp: isVar_def)

subsection \<open>Well-formed statements\<close>

text \<open>The expressions are well-formed, loops have a cached bound, as \<open>For::make\<close> leaves them, and no
  allocation is to be cleared (rebuilding it would lose that). Statements that have no execution (functions, yields,
  prints and sorts) are left out; the body of a function is a statement of its own.\<close>

fun stmt_good :: "fpu \<Rightarrow> stmt \<Rightarrow> bool" where
  "stmt_good F (Block ss) \<longleftrightarrow> (\<forall>s \<in> set ss. stmt_good F s)"
| "stmt_good F (Scope s) \<longleftrightarrow> stmt_good F s"
| "stmt_good F (Store arr loc d at pu) \<longleftrightarrow> good F arr \<and> good F loc \<and> good F d"
| "stmt_good F (IfThenElse c t f) \<longleftrightarrow> good F c \<and> stmt_good F t \<and> (case f of None \<Rightarrow> True | Some g \<Rightarrow> stmt_good F g)"
| "stmt_good F (Case cs m) \<longleftrightarrow> (\<forall>(c, s) \<in> set cs. good F c \<and> stmt_good F s)"
| "stmt_good F (Switch cs e) \<longleftrightarrow> good F e \<and> (\<forall>(c, s) \<in> set cs. good F c \<and> stmt_good F s)"
| "stmt_good F (For v a e i s k pu uf vw) \<longleftrightarrow>
     isVar v \<and> isVar e \<and> good F a \<and> good F i \<and> stmt_good F s"
| "stmt_good F (While c s k vw) \<longleftrightarrow> good F c \<and> stmt_good F s"
| "stmt_good F (Function n s inputs outputs) \<longleftrightarrow> False"
| "stmt_good F (VarDecl v r) \<longleftrightarrow> good F v \<and> good F r"
| "stmt_good F (Assign l r at pu) \<longleftrightarrow> good F l \<and> good F r"
| "stmt_good F (Yield cs v) \<longleftrightarrow> False"
| "stmt_good F (Allocate v n old re cl) \<longleftrightarrow> good F v \<and> good F n \<and> \<not> cl"
| "stmt_good F (Free v) \<longleftrightarrow> good F v"
| "stmt_good F (Print f es) \<longleftrightarrow> False"
| "stmt_good F (Sort es) \<longleftrightarrow> False"
| "stmt_good F _ \<longleftrightarrow> True"

text \<open>Every execution of \<open>s\<close> is one of \<open>s'\<close>.\<close>

definition refines :: "fpu \<Rightarrow> stmt \<Rightarrow> stmt \<Rightarrow> bool" where
  "refines F s s' \<longleftrightarrow> (\<forall>st fl st'. exec F s st fl st' \<longrightarrow> exec F s' st fl st')"

lemma refinesI: "(\<And>st fl st'. exec F s st fl st' \<Longrightarrow> exec F s' st fl st') \<Longrightarrow> refines F s s'"
  by (simp add: refines_def)

lemma refinesD: "refines F s s' \<Longrightarrow> exec F s st fl st' \<Longrightarrow> exec F s' st fl st'"
  by (simp add: refines_def)

lemma refines_refl [simp]: "refines F s s"
  by (simp add: refines_def)

lemma refines_trans: "refines F a b \<Longrightarrow> refines F b c \<Longrightarrow> refines F a c"
  by (simp add: refines_def)

lemma refines_Scope_make [simp]: "exec F (Scope_make s) st fl st' \<longleftrightarrow> exec F s st fl st'"
  by (cases s) (auto simp: Scope_make_def intro: exec_execs_loops.intros)

lemma stmt_good_Scope_make [simp]: "stmt_good F (Scope_make s) \<longleftrightarrow> stmt_good F s"
  by (cases s) (auto simp: Scope_make_def)

lemma refines_Scope: "refines F s s' \<Longrightarrow> refines F (Scope s) (Scope s')"
  by (auto simp: refines_def intro: exec_execs_loops.intros)

lemma execs_refine:
  "list_all2 (refines F) ss ss' \<Longrightarrow> execs F ss st fl st' \<Longrightarrow> execs F ss' st fl st'"
  by (induction ss ss' arbitrary: st rule: list_all2_induct)
    (auto elim!: ConsE intro: exec_execs_loops.intros dest: refinesD)

lemma nop_Some: "nop (Some s) \<longleftrightarrow> s = Block []"
  by (auto simp: nop_def split: stmt.splits)

lemma Block_make_Some: "Block_make (map Some ss) = Block (filter (\<lambda>s. s \<noteq> Block []) ss)"
  by (induction ss) (auto simp: Block_make_def nop_Some)

lemma execs_filter: "execs F ss st fl st' \<Longrightarrow> execs F (filter (\<lambda>s. s \<noteq> Block []) ss) st fl st'"
  by (induction ss arbitrary: st) (auto elim!: ConsE intro: exec_execs_loops.intros)

lemma refines_Block_make:
  "list_all2 (refines F) ss ss' \<Longrightarrow> refines F (Block ss) (Block_make (map Some ss'))"
  by (auto simp: Block_make_Some intro!: refinesI Block execs_filter intro: execs_refine)

lemma loops_refine:
  assumes "loops F c upd b st st'"
    and "\<And>s v. eval F s c = ok v \<Longrightarrow> eval F s c' = ok v" "refines F b b'"
    and "\<And>s s'. advance F upd s = ok s' \<Longrightarrow> advance F upd' s = ok s'"
  shows "loops F c' upd' b' st st'"
  using assms
  by (induction rule: exec_execs_loops.inducts(3) [where ?P1.0 = "\<lambda>_ _ _ _. True" and ?P2.0 = "\<lambda>_ _ _ _. True"])
    (auto intro: exec_execs_loops.intros dest: refinesD)

subsection \<open>What a rewriting of expressions guarantees\<close>

lemma Switch_taken:
  assumes "eval F s e = ok x" "switch_to F x cs s = ok (Some b)" "exec F b s fl s'"
  shows "fl = Brk \<Longrightarrow> exec F (Switch cs e) s Fall s'" "fl \<noteq> Brk \<Longrightarrow> exec F (Switch cs e) s fl s'"
  using SwitchSome [OF assms] by auto

locale expr_rewriter =
  fixes F :: fpu and fe :: "expr \<Rightarrow> expr res"
  assumes fe_sound: "good F e \<Longrightarrow> fe e = ok e' \<Longrightarrow> sound F e e'"
    and fe_location: "fe e = ok e' \<Longrightarrow> location_of e = Some l \<Longrightarrow> location_of e' = Some l"
begin

lemma fe_var: "fe e = ok e' \<Longrightarrow> good F e \<Longrightarrow> isVar e \<Longrightarrow> e' = e"
  by (rule soundD(3) [OF fe_sound])

lemma fe_good: "fe e = ok e' \<Longrightarrow> good F e \<Longrightarrow> good F e'"
  by (rule soundD(2) [OF fe_sound])

lemma fe_type: "fe e = ok e' \<Longrightarrow> good F e \<Longrightarrow> etype e' = etype e"
  by (rule soundD(1) [OF fe_sound])

lemma fe_eval: "fe e = ok e' \<Longrightarrow> good F e \<Longrightarrow> eval F s e = ok v \<Longrightarrow> eval F s e' = ok v"
  by (rule soundD(5) [OF fe_sound])

lemma assign_rewritten:
  assumes "fe l = ok l'" "fe r = ok r'" "good F l" "good F r" "assign F l r s = ok s'"
  shows "assign F l' r' s = ok s'"
  using assms(5) fe_location [OF assms(1)] fe_type [OF assms(1,3)] fe_type [OF assms(2,4)] fe_eval [OF assms(2,4)]
  by (auto simp: assign_def res_simps split: option.splits)

lemma store_rewritten:
  assumes "fe arr = ok arr'" "fe loc = ok loc'" "fe d = ok d'" "good F arr" "good F loc" "good F d"
    "store F arr loc d s = ok s'"
  shows "store F arr' loc' d' s = ok s'"
proof -
  from assms(7) obtain i x l where ev: "eval F s loc = ok i" "eval F s d = ok x" and l: "location_of arr = Some l"
    by (auto simp: store_def res_simps split: option.splits)
  have "eval F s loc' = ok i" "eval F s d' = ok x" "location_of arr' = Some l"
    "etype arr' = etype arr" "etype d' = etype d"
    using assms ev l by (auto intro: fe_eval fe_location fe_type)
  with assms(7) ev l show ?thesis by (cases "arrays s l") (auto simp: store_def split: if_splits)
qed

lemma choose_rest_rewritten:
  assumes "list_all2 (\<lambda>(c, b) (c', b'). fe c = ok c' \<and> good F c \<and> refines F b b') cs cs'"
    "choose_rest F m cs s = ok r"
  shows "\<exists>r'. choose_rest F m cs' s = ok r' \<and> rel_option (refines F) r r'"
  using assms
proof (induction cs cs' arbitrary: r rule: list_all2_induct)
  case (Cons x cs y cs')
  obtain c b c' b' where xy: "x = (c, b)" "y = (c', b')" "fe c = ok c'" "good F c" "refines F b b'"
    using Cons.hyps by (cases x; cases y) auto
  show ?case
  proof (cases "m \<and> cs = []")
    case True
    with Cons xy show ?thesis by auto
  next
    case False
    moreover from this have "\<not> (m \<and> cs' = [])" using Cons.hyps by auto
    moreover from False Cons.prems xy(1) obtain v where "eval F s c = ok v"
      by (auto simp: res_simps simp del: de_Morgan_conj)
    moreover from this have "eval F s c' = ok v" by (rule fe_eval [OF xy(3,4)])
    ultimately show ?thesis using Cons.prems Cons.IH [of r] xy
      by (cases "v = 0") (auto split: if_splits)
  qed
qed auto

lemma choose_clause_rewritten:
  assumes "list_all2 (\<lambda>(c, b) (c', b'). fe c = ok c' \<and> good F c \<and> refines F b b') cs cs'"
    "choose_clause F m cs s = ok r"
  shows "\<exists>r'. choose_clause F m cs' s = ok r' \<and> rel_option (refines F) r r'"
proof (cases cs)
  case Nil
  with assms show ?thesis by simp
next
  case (Cons x xs)
  then obtain y ys where cs': "cs' = y # ys" using assms(1) by (auto simp: list_all2_Cons1)
  obtain c b c' b' where xy: "x = (c, b)" "y = (c', b')" "fe c = ok c'" "good F c" "refines F b b'"
    using assms(1) Cons cs' by (cases x; cases y) auto
  from assms(2) Cons xy(1) obtain v where v: "eval F s c = ok v" by (auto simp: res_simps)
  then have "eval F s c' = ok v" by (rule fe_eval [OF xy(3,4)])
  with v assms Cons cs' xy choose_rest_rewritten [of xs ys m s r] show ?thesis
    by (cases "v = 0") (auto split: if_splits)
qed

lemma switch_to_rewritten:
  assumes "list_all2 (\<lambda>(c, b) (c', b'). fe c = ok c' \<and> good F c \<and> refines F b b') cs cs'"
    "switch_to F x cs s = ok r"
  shows "\<exists>r'. switch_to F x cs' s = ok r' \<and> rel_option (refines F) r r'"
  using assms
proof (induction cs cs' arbitrary: r rule: list_all2_induct)
  case (Cons p cs q cs')
  obtain c b c' b' where xy: "p = (c, b)" "q = (c', b')" "fe c = ok c'" "good F c" "refines F b b'"
    using Cons.hyps by (cases p; cases q) auto
  from Cons.prems xy(1) obtain v where v: "eval F s c = ok v" by (auto simp: res_simps)
  then have "eval F s c' = ok v" by (rule fe_eval [OF xy(3,4)])
  with v Cons.prems Cons.IH [of r] xy show ?case
    by (cases "x = v") auto
qed auto

lemma mapB_fe: "mapR fe es = ok es' \<Longrightarrow> \<forall>e \<in> set es. good F e \<Longrightarrow> \<forall>e \<in> set es'. good F e"
  by (auto simp: mapR_eq_Inr list_all2_conv_all_nth in_set_conv_nth) (metis fe_good nth_mem)

text \<open>Rewriting keeps statements well-formed, keeps all executions and builds no variable.\<close>

definition rewritten :: "stmt \<Rightarrow> builder \<Rightarrow> stmt \<Rightarrow> builder \<Rightarrow> bool" where
  "rewritten s b s' b' \<longleftrightarrow> stmt_good F s' \<and> refines F s s' \<and> b' = b"

lemma mapB_rewritten:
  assumes "mapB f ss b = ok (ss', b')" "\<forall>s \<in> set ss. stmt_good F s"
    "\<And>s b s' b'. s \<in> set ss \<Longrightarrow> f s b = ok (s', b') \<Longrightarrow> stmt_good F s \<Longrightarrow> rewritten s b s' b'"
  shows "b' = b \<and> list_all2 (\<lambda>s s'. stmt_good F s' \<and> refines F s s') ss ss'"
  using assms
proof (induction ss arbitrary: b ss' b')
  case (Cons s ss)
  from Cons.prems(1) obtain s1 b1 ss1 where 1: "f s b = ok (s1, b1)" "mapB f ss b1 = ok (ss1, b')" "ss' = s1 # ss1"
    by (auto simp: res_simps)
  have "rewritten s b s1 b1" using Cons.prems(2,3) 1(1) by simp
  moreover have "b' = b1 \<and> list_all2 (\<lambda>s s'. stmt_good F s' \<and> refines F s s') ss ss1"
    using Cons.IH [OF 1(2)] Cons.prems(2,3) by simp
  ultimately show ?case using 1(3) by (simp add: rewritten_def)
qed (simp add: res_simps)

lemma clauses_rewritten:
  assumes "rewrite_clauses (\<lambda>e. liftB (fe e)) f cs b = ok (cs', b')" "\<forall>(c, s) \<in> set cs. good F c \<and> stmt_good F s"
    "\<And>c s b s' b'. (c, s) \<in> set cs \<Longrightarrow> f s b = ok (s', b') \<Longrightarrow> stmt_good F s \<Longrightarrow> rewritten s b s' b'"
  shows "b' = b \<and> (\<forall>(c, s) \<in> set cs'. good F c \<and> stmt_good F s) \<and>
    list_all2 (\<lambda>(c, s) (c', s'). fe c = ok c' \<and> good F c \<and> refines F s s') cs cs'"
  using assms
proof (induction cs arbitrary: b cs' b')
  case (Cons p cs)
  obtain c s where p: "p = (c, s)" by force
  from Cons.prems(1) p obtain c1 s1 b1 cs1 where 1: "fe c = ok c1" "f s b = ok (s1, b1)"
    "rewrite_clauses (\<lambda>e. liftB (fe e)) f cs b1 = ok (cs1, b')" "cs' = (c1, s1) # cs1"
    by (auto simp: rewrite_clauses_def res_simps)
  have g: "good F c" using Cons.prems(2) p by simp
  have "rewritten s b s1 b1" by (rule Cons.prems(3) [of c, OF _ 1(2)]) (use Cons.prems(2) p in auto)
  moreover have "b' = b1 \<and> (\<forall>(c, s) \<in> set cs1. good F c \<and> stmt_good F s) \<and>
    list_all2 (\<lambda>(c, s) (c', s'). fe c = ok c' \<and> good F c \<and> refines F s s') cs cs1"
  proof (rule Cons.IH [OF 1(3)])
    show "\<forall>(c, s) \<in> set cs. good F c \<and> stmt_good F s" using Cons.prems(2) by simp
  next
    fix c s b s' b' assume "(c, s) \<in> set cs" "f s b = ok (s', b')" "stmt_good F s"
    then show "rewritten s b s' b'" by (intro Cons.prems(3) [of c]) auto
  qed
  ultimately show ?case using 1(1,4) p g fe_good [OF 1(1) g] by (simp add: rewritten_def)
qed (simp add: rewrite_clauses_def res_simps)

lemma rebuild_ok [res_simps]:
  "rebuild same op m b = ok (s', b') \<longleftrightarrow> (if same then s' = op \<and> b' = b else m b = ok (s', b'))"
  by (auto simp: rebuild_def res_simps)

lemma rewritten_refl: "stmt_good F s \<Longrightarrow> rewritten s b s b"
  by (simp add: rewritten_def)

lemma rewrite_array_accesses_id: "rewrite_array_accesses F s = ok s' \<Longrightarrow> s' = s"
  by (auto simp: rewrite_array_accesses_def res_simps)

lemma For_make_cached:
  assumes "For_make F v a e i s k pu uf vw b = ok (s', b')" "isVar e"
  shows "s' = Block [For v a e i (Scope_make s) k pu uf vw] \<and> b' = b"
  using assms by (auto simp: For_make_def res_simps dest: rewrite_array_accesses_id)

lemma refines_For:
  assumes "fe a = ok a'" "good F a" "fe i = ok i'" "good F i" "refines F s s'" "isVar v"
  shows "refines F (For v a e i s k pu uf vw) (For v a' e i' s' k pu uf vw)"
proof (rule refinesI)
  fix st fl st' assume "exec F (For v a e i s k pu uf vw) st fl st'"
  then obtain st1 where fl: "fl = Fall" and as: "assign F v a st = ok st1"
    and l: "loops F (Binary OpLt Bool v e) (Some (v, i)) s st1 st'"
    by (auto elim: ForE)
  have "assign F v a' st = ok st1"
    using as fe_type [OF assms(1,2)] fe_eval [OF assms(1,2)]
    by (auto simp: assign_def res_simps split: option.splits)
  moreover have "advance F (Some (v, i')) x = ok y" if "advance F (Some (v, i)) x = ok y" for x y
    using that fe_type [OF assms(3,4)] fe_eval [OF assms(3,4), of x]
    by (auto simp: advance_def assign_def res_simps split: option.splits)
  from loops_refine [OF l _ assms(5) this]
  have "loops F (Binary OpLt Bool v e) (Some (v, i')) s' st1 st'" by blast
  ultimately show "exec F (For v a' e i' s' k pu uf vw) st fl st'"
    unfolding fl by (rule exec_execs_loops.For)
qed

lemma refines_Block1: "refines F s s' \<Longrightarrow> refines F s (Block [s'])"
  by (auto simp: refines_def exec_simps execs_simps intro: Nil)

lemma rewrite_stmt_rewritten':
  assumes "rewrite_stmt F0 fe s b = ok (s', b')" "stmt_good F0 s" "F0 = F"
  shows "rewritten s b s' b'"
  using assms
proof (induction F0 s arbitrary: b s' b' rule: stmt_good.induct)
  case (1 F' ss)
  note [simp] = "1.prems"(3)
  from 1 obtain ss' b1 where ss': "mapB (rewrite_stmt F fe) ss b = ok (ss', b1)"
    and r: "ss' = ss \<and> s' = Block ss \<and> b' = b1 \<or> s' = Block_make (map Some ss') \<and> b' = b1"
    by (auto simp: res_simps split: if_splits)
  have "b1 = b \<and> list_all2 (\<lambda>s s'. stmt_good F s' \<and> refines F s s') ss ss'"
    by (rule mapB_rewritten [OF ss']) (use 1 in auto)
  then have g: "b1 = b" "\<forall>s \<in> set ss'. stmt_good F s" "list_all2 (refines F) ss ss'"
    by (auto simp: list_all2_conv_all_nth in_set_conv_nth)
  from refines_Block_make [OF g(3)] g(1,2) r "1.prems"(2) show ?case
    by (auto simp: rewritten_def Block_make_Some split: if_splits)
next
  case (2 F' s)
  note [simp] = "2.prems"(3)
  from 2 obtain s1 b1 where s1: "rewrite_stmt F fe s b = ok (s1, b1)"
    and r: "s1 = s \<and> s' = Scope s \<and> b' = b1 \<or> s' = Scope_make s1 \<and> b' = b1"
    by (auto simp: res_simps split: if_splits)
  have "rewritten s b s1 b1" using 2 s1 by simp
  with r show ?case
    by (auto simp: rewritten_def refines_def split: if_splits)
next
  case (3 F' arr loc d at pu)
  note [simp] = "3.prems"(3)
  from 3 obtain arr' loc' d' where e: "fe arr = ok arr'" "fe loc = ok loc'" "fe d = ok d'"
    and r: "s' = Store arr loc d at pu \<and> arr' = arr \<and> loc' = loc \<and> d' = d \<or> s' = Store arr' loc' d' at NotParallel"
    and b: "b' = b"
    by (auto simp: res_simps Store_make_def split: if_splits)
  have g: "good F arr" "good F loc" "good F d" using 3 by auto
  show ?case using store_rewritten [OF e g] r b g fe_good [OF e(1)] fe_good [OF e(2)] fe_good [OF e(3)]
    by (auto simp: rewritten_def refines_def intro: exec_execs_loops.Store)
next
  case (7 F' v a e i s k pu uf vw)
  note [simp] = "7.prems"(3)
  from 7 obtain v' a' e' i' s1 b1 where
    f: "fe v = ok v'" "fe a = ok a'" "fe e = ok e'" "fe i = ok i'" and s1: "rewrite_stmt F fe s b = ok (s1, b1)"
    and r: "a' = a \<and> i' = i \<and> s1 = s \<and> s' = For v a e i s k pu uf vw \<and> b' = b1 \<or>
      For_make F v' a' e' i' s1 k pu uf vw b1 = ok (s', b')"
    by (auto simp: res_simps split: if_splits)
  have v: "isVar v" "isVar e" "good F a" "good F i" using "7.prems" by auto
  have gv: "good F v" "good F e" using v by (auto simp: isVar_def)
  have ve: "v' = v" "e' = e" using f v gv fe_var by auto
  have w: "rewritten s b s1 b1" using 7 s1 by simp
  then have b1: "b1 = b" and s: "refines F s (Scope_make s1)" "stmt_good F s1"
    by (auto simp: rewritten_def refines_def)
  from refines_Block1 [OF refines_For [OF f(2) v(3) f(4) v(4) s(1) v(1)]]
  have "refines F (For v a e i s k pu uf vw) (Block [For v a' e i' (Scope_make s1) k pu uf vw])" .
  moreover have "good F a'" "good F i'" using fe_good [OF f(2)] fe_good [OF f(4)] v by auto
  ultimately show ?case
    using r ve b1 s v For_make_cached [of v a' e i' s1 k pu uf vw b1 s' b']
    by (auto simp: rewritten_def split: if_splits)
next
  case (8 F' c s k vw)
  note [simp] = "8.prems"(3)
  from 8 obtain c' s1 b1 where c': "fe c = ok c'" and s1: "rewrite_stmt F fe s b = ok (s1, b1)"
    and r: "s' = While c s k vw \<and> c' = c \<and> s1 = s \<and> b' = b1 \<or> s' = While c' (Scope_make s1) k vw \<and> b' = b1"
    by (auto simp: res_simps While_make_def split: if_splits)
  have g: "good F c" and "rewritten s b s1 b1" using 8 s1 by auto
  then have b1: "b1 = b" and s: "refines F s (Scope_make s1)" "stmt_good F s1"
    by (auto simp: rewritten_def refines_def)
  have "refines F (While c s k vw) (While c' (Scope_make s1) k vw)"
    by (auto simp: refines_def elim!: WhileE intro!: exec_execs_loops.While
        intro: loops_refine [OF _ fe_eval [OF c' g] s(1)])
  with r b1 s g fe_good [OF c' g] "8.prems"(2) show ?case
    by (auto simp: rewritten_def)
next
  case (4 F' c t f)
  note [simp] = "4.prems"(3)
  from 4 obtain c' t1 b1 f1 b2 where c': "fe c = ok c'" and t1: "rewrite_stmt F fe t b = ok (t1, b1)"
    and f1: "(case f of None \<Rightarrow> retB None | Some g \<Rightarrow> bindB (rewrite_stmt F fe g) (\<lambda>g'. retB (Some g'))) b1 = ok (f1, b2)"
    and r: "s' = IfThenElse c t f \<and> c' = c \<and> t1 = t \<and> f1 = f \<and> b' = b2 \<or>
      s' = IfThenElse c' (Scope_make t1) (map_option Scope_make f1) \<and> b' = b2"
    by (auto simp: res_simps IfThenElse_make_def split: if_splits)
  have g: "good F c" and t: "rewritten t b t1 b1" using 4 t1 by auto
  have f2: "b2 = b1 \<and> rel_option (\<lambda>g g'. refines F g g' \<and> stmt_good F g') f f1"
    using f1 4 by (auto simp: res_simps rewritten_def split: option.splits)
  have "refines F (IfThenElse c t f) (IfThenElse c' (Scope_make t1) (map_option Scope_make f1))"
    using f2 t fe_eval [OF c' g]
    by (auto simp: refines_def rewritten_def exec_simps option.rel_sel split: option.splits)
  with r f2 t g fe_good [OF c' g] "4.prems"(2) show ?case
    by (auto simp: rewritten_def option.rel_sel split: option.splits)
next
  case (5 F' cs m)
  note [simp] = "5.prems"(3)
  from 5 obtain cs' b1 where cs': "rewrite_clauses (\<lambda>e. liftB (fe e)) (rewrite_stmt F fe) cs b = ok (cs', b1)"
    and r: "s' = Case cs m \<and> b' = b1 \<or> s' = Case (map (\<lambda>(c, s). (c, Scope_make s)) cs') m \<and> b' = b1"
    by (auto simp: res_simps Case_make_def split: if_splits)
  have "b1 = b \<and> (\<forall>(c, s) \<in> set cs'. good F c \<and> stmt_good F s) \<and>
    list_all2 (\<lambda>(c, s) (c', s'). fe c = ok c' \<and> good F c \<and> refines F s s') cs cs'"
    by (rule clauses_rewritten [OF cs']) (use 5 in auto)
  then have b1: "b1 = b" and g: "\<forall>(c, s) \<in> set cs'. good F c \<and> stmt_good F s"
    and l: "list_all2 (\<lambda>(c, s) (c', s'). fe c = ok c' \<and> good F c \<and> refines F s s') cs
      (map (\<lambda>(c, s). (c, Scope_make s)) cs')"
    by (auto simp: list_all2_conv_all_nth refines_def split: prod.splits)
  have "refines F (Case cs m) (Case (map (\<lambda>(c, s). (c, Scope_make s)) cs') m)"
    by (rule refinesI, erule CaseE)
      (auto dest!: choose_clause_rewritten [OF l] simp: option_rel_Some1
        intro: exec_execs_loops.CaseSome [OF _ refinesD] exec_execs_loops.CaseNone)
  moreover have "stmt_good F (Case (map (\<lambda>(c, s). (c, Scope_make s)) cs') m)" using g by fastforce
  ultimately show ?case using r b1 "5.prems"(2) by (auto simp: rewritten_def)
next
  case (6 F' cs e)
  note [simp] = "6.prems"(3)
  from 6 obtain e' cs' b1 where e': "fe e = ok e'" and cs': "rewrite_clauses (\<lambda>e. liftB (fe e)) (rewrite_stmt F fe) cs b = ok (cs', b1)"
    and r: "s' = Switch cs e \<and> b' = b1 \<or> s' = Switch (map (\<lambda>(c, s). (c, Scope_make s)) cs') e' \<and> b' = b1"
    by (auto simp: res_simps Switch_make_def split: if_splits)
  have ge: "good F e" using 6 by auto
  have "b1 = b \<and> (\<forall>(c, s) \<in> set cs'. good F c \<and> stmt_good F s) \<and>
    list_all2 (\<lambda>(c, s) (c', s'). fe c = ok c' \<and> good F c \<and> refines F s s') cs cs'"
    by (rule clauses_rewritten [OF cs']) (use 6 in auto)
  then have b1: "b1 = b" and g: "\<forall>(c, s) \<in> set cs'. good F c \<and> stmt_good F s"
    and l: "list_all2 (\<lambda>(c, s) (c', s'). fe c = ok c' \<and> good F c \<and> refines F s s') cs
      (map (\<lambda>(c, s). (c, Scope_make s)) cs')"
    by (auto simp: list_all2_conv_all_nth refines_def split: prod.splits)
  have "refines F (Switch cs e) (Switch (map (\<lambda>(c, s). (c, Scope_make s)) cs') e')"
    by (rule refinesI, erule SwitchE)
      (auto dest!: switch_to_rewritten [OF l] fe_eval [OF e' ge] simp: option_rel_Some1
        intro: Switch_taken(1) [OF _ _ refinesD refl] Switch_taken(2) [OF _ _ refinesD] exec_execs_loops.SwitchNone)
  moreover have "stmt_good F (Switch (map (\<lambda>(c, s). (c, Scope_make s)) cs') e')"
    using g fe_good [OF e' ge] by fastforce
  ultimately show ?case using r b1 "6.prems"(2) by (auto simp: rewritten_def)
next
  case (10 F' v r)
  note [simp] = "10.prems"(3)
  from 10 obtain v' r' where e: "fe v = ok v'" "fe r = ok r'"
    and r: "s' = VarDecl v r \<and> v' = v \<and> r' = r \<or> s' = VarDecl v' r'" and b: "b' = b"
    by (auto simp: res_simps VarDecl_make_def split: if_splits)
  have g: "good F v" "good F r" using 10 by auto
  show ?case using assign_rewritten [OF e g] r b g fe_good [OF e(1)] fe_good [OF e(2)]
    by (auto simp: rewritten_def refines_def intro: exec_execs_loops.VarDecl)
next
  case (11 F' l r at pu)
  note [simp] = "11.prems"(3)
  from 11 obtain l' r' where e: "fe l = ok l'" "fe r = ok r'"
    and r: "s' = Assign l r at pu \<and> l' = l \<and> r' = r \<or> s' = Assign l' r' at NotParallel" and b: "b' = b"
    by (auto simp: res_simps Assign_make_def split: if_splits)
  have g: "good F l" "good F r" using 11 by auto
  show ?case using assign_rewritten [OF e g] r b g fe_good [OF e(1)] fe_good [OF e(2)]
    by (auto simp: rewritten_def refines_def intro: exec_execs_loops.Assign)
next
  case (13 F' v n old re cl)
  note [simp] = "13.prems"(3)
  from 13 obtain v' n' where e: "fe v = ok v'" "fe n = ok n'"
    and r: "s' = Allocate v n old re cl \<and> v' = v \<and> n' = n \<or> s' = Allocate v' n' old re False" and b: "b' = b"
    by (auto simp: res_simps Allocate_make_def split: if_splits)
  have g: "good F v" "good F n" "\<not> cl" using 13 by auto
  have "refines F (Allocate v n old re cl) (Allocate v' n' old re False)"
    by (rule refinesI, erule AllocateE)
      (use g(3) in \<open>auto intro!: exec_execs_loops.Allocate fe_eval [OF e(2) g(2)] dest: fe_location [OF e(1)]\<close>)
  with r b g fe_good [OF e(1)] fe_good [OF e(2)] show ?case by (auto simp: rewritten_def)
next
  case (14 F' v)
  note [simp] = "14.prems"(3)
  from 14 obtain v' where e: "fe v = ok v'" and r: "s' = Free v \<and> v' = v \<or> s' = Free v'" and b: "b' = b"
    by (auto simp: res_simps Free_make_def split: if_splits)
  have g: "good F v" using 14 by auto
  from r b g fe_good [OF e g] fe_location [OF e] show ?case
    by (auto simp: rewritten_def refines_def intro: exec_execs_loops.Free)
qed (auto simp: res_simps intro: rewritten_refl)

lemmas rewrite_stmt_rewritten = rewrite_stmt_rewritten' [OF _ _ refl]

end

subsection \<open>The rewritings of the compiler\<close>

lemma simplify_location:
  "simplify F e = ok e' \<Longrightarrow> location_of e = Some l \<Longrightarrow> location_of e' = Some l"
  by (cases e rule: location_of.cases) auto

interpretation simplifier: expr_rewriter F "simplify F" for F
  by unfold_locales (auto intro: simplify_sound simplify_location)

text \<open>The base class, which overrides nothing.\<close>

interpretation base: expr_rewriter F "\<lambda>e. ok e" for F
  by unfold_locales (auto intro: sound_refl)

subsection \<open>Properties\<close>


definition example_update :: stmt where
  "example_update = Assign example_i example_sum False NotParallel"

definition example_builder :: builder where
  "example_builder = \<lparr>next_addr = 10, num_vars_cached = 0\<rparr>"


text \<open>Rebuilding an allocation because its size was simplified forgets that the memory was to be
  cleared.\<close>

theorem rewrite_drops_clear:
  assumes "fe v = ok v" "fe n = ok n'" "n' \<noteq> n" "isGetProperty v \<or> isPtrVar v" "isInt (etype n') \<or> isUInt (etype n')"
  shows "rewrite_stmt F fe (Allocate v n None False True) b = ok (Allocate v n' None False False, b)"
  using assms by (simp add: bindB_def liftB_def rebuild_def Allocate_make_def)

lemma rewrite_drops_clear_witness:
  "rewrite_stmt fpu_null (simplify fpu_null)
     (Allocate (Var 3 ''w'' Float64 True False False) (Binary OpAdd Int32 (Literal Int32 2) (Literal Int32 3)) None False True)
     example_builder =
   ok (Allocate (Var 3 ''w'' Float64 True False False) (Literal Int32 5) None False False, example_builder)"
proof -
  have "simplify fpu_null (Binary OpAdd Int32 (Literal Int32 2) (Literal Int32 3)) = ok (Literal Int32 5)"
    by code_simp
  then show ?thesis
    by (intro rewrite_drops_clear) (simp_all add: isPtrVar_def isInt_def)
qed

end
