(* ===== verification/For_Bound.thy ===== *)
theory For_Bound
  imports Stmt_Sound
begin

text \<open>
  The caching of loop bounds by \<open>For::make\<close>: a loop whose bound is an expression is built with the bound
  evaluated once, into a fresh variable. What the values of expressions depend on and what statements
  change (the frame lemmas) decides when that is the loop that was asked for.
\<close>

subsection \<open>What an expression reads\<close>

definition loc_list :: "expr \<Rightarrow> location list" where
  "loc_list e = (case location_of e of None \<Rightarrow> [] | Some l \<Rightarrow> [l])"

fun scalar_reads :: "expr \<Rightarrow> location list" where
  "scalar_reads (Var ad n t p ts m) = [LVar ad]"
| "scalar_reads (Unary op t a) = scalar_reads a"
| "scalar_reads (Binary op t a b) = scalar_reads a @ scalar_reads b"
| "scalar_reads (Nary op t es) = concat (map scalar_reads es)"
| "scalar_reads (Cast t a) = scalar_reads a"
| "scalar_reads (Call t f es) = concat (map scalar_reads es)"
| "scalar_reads (Load t arr loc) = scalar_reads loc"
| "scalar_reads (GetProperty ad t tensor pr mode ix nm) = loc_list (GetProperty ad t tensor pr mode ix nm)"
| "scalar_reads _ = []"

fun array_reads :: "expr \<Rightarrow> location list" where
  "array_reads (Unary op t a) = array_reads a"
| "array_reads (Binary op t a b) = array_reads a @ array_reads b"
| "array_reads (Nary op t es) = concat (map array_reads es)"
| "array_reads (Cast t a) = array_reads a"
| "array_reads (Call t f es) = concat (map array_reads es)"
| "array_reads (Load t arr loc) = loc_list arr @ array_reads loc"
| "array_reads _ = []"

text \<open>Two states that agree on what is read give the same value.\<close>

definition agree :: "location list \<Rightarrow> location list \<Rightarrow> state \<Rightarrow> state \<Rightarrow> bool" where
  "agree xs ys s s' \<longleftrightarrow> (\<forall>l \<in> set xs. scalars s l = scalars s' l) \<and> (\<forall>l \<in> set ys. arrays s l = arrays s' l) \<and>
     ext_calls s = ext_calls s'"

lemma agree_append [simp]:
  "agree (xs @ xs') (ys @ ys') s s' \<longleftrightarrow> agree xs ys s s' \<and> agree xs' ys' s s'"
  by (auto simp: agree_def)

lemma agree_concat:
  "agree (concat (map f es)) (concat (map g es)) s s' \<Longrightarrow> e \<in> set es \<Longrightarrow> agree (f e) (g e) s s'"
  by (auto simp: agree_def)

lemma agree_ext: "agree xs ys s s' \<Longrightarrow> ext_calls s = ext_calls s'"
  by (simp add: agree_def)

lemma eval_agree:
  assumes "agree (scalar_reads e) (array_reads e) s s'" shows "eval F s e = eval F s' e"
  using assms
proof (induction e)
  case (Nary op t es)
  then have "mapR (\<lambda>e. bindR (eval F s e) (\<lambda>x. ok (convert F (etype e) t x))) es =
      mapR (\<lambda>e. bindR (eval F s' e) (\<lambda>x. ok (convert F (etype e) t x))) es"
    by (intro mapR_cong) (auto dest: agree_concat)
  then show ?case by simp
next
  case (Call t f es)
  then have "mapR (eval F s) es = mapR (eval F s') es"
    by (intro mapR_cong) (auto dest: agree_concat)
  with Call.prems show ?case by (simp add: agree_ext)
next
  case (Load t arr loc)
  have l: "agree (scalar_reads loc) (array_reads loc) s s'" using Load.prems by (auto simp: agree_def)
  have "read_array s arr i = read_array s' arr i" for i
    using Load.prems by (auto simp: read_array_def agree_def loc_list_def split: option.splits)
  with Load.IH(2) [OF l] show ?case by simp
next
  case (GetProperty ad t tensor pr mode ix nm)
  then show ?case
    by (auto simp: read_scalar_def agree_def loc_list_def split: option.splits)
next
  case (Var ad n t p ts m)
  then show ?case by (auto simp: read_scalar_def agree_def)
next
  case (Binary op t a b)
  then have "eval F s a = eval F s' a" "eval F s b = eval F s' b" by auto
  then show ?case by (simp cong: if_cong)
qed auto

subsection \<open>What a statement changes\<close>

fun scalar_writes :: "stmt \<Rightarrow> location list" where
  "scalar_writes (Block ss) = concat (map scalar_writes ss)"
| "scalar_writes (Scope s) = scalar_writes s"
| "scalar_writes (IfThenElse c t None) = scalar_writes t"
| "scalar_writes (IfThenElse c t (Some f)) = scalar_writes t @ scalar_writes f"
| "scalar_writes (Case cs m) = concat (map (\<lambda>(c, s). scalar_writes s) cs)"
| "scalar_writes (Switch cs e) = concat (map (\<lambda>(c, s). scalar_writes s) cs)"
| "scalar_writes (For v a b i s k pu uf vw) = loc_list v @ scalar_writes s"
| "scalar_writes (While c s k vw) = scalar_writes s"
| "scalar_writes (VarDecl v r) = loc_list v"
| "scalar_writes (Assign l r at pu) = loc_list l"
| "scalar_writes _ = []"

fun array_writes :: "stmt \<Rightarrow> location list" where
  "array_writes (Block ss) = concat (map array_writes ss)"
| "array_writes (Scope s) = array_writes s"
| "array_writes (Store arr loc d at pu) = loc_list arr"
| "array_writes (IfThenElse c t None) = array_writes t"
| "array_writes (IfThenElse c t (Some f)) = array_writes t @ array_writes f"
| "array_writes (Case cs m) = concat (map (\<lambda>(c, s). array_writes s) cs)"
| "array_writes (Switch cs e) = concat (map (\<lambda>(c, s). array_writes s) cs)"
| "array_writes (For v a b i s k pu uf vw) = array_writes s"
| "array_writes (While c s k vw) = array_writes s"
| "array_writes (Allocate v n old re cl) = loc_list v"
| "array_writes (Free v) = loc_list v"
| "array_writes _ = []"

definition frame :: "location set \<Rightarrow> location set \<Rightarrow> state \<Rightarrow> state \<Rightarrow> bool" where
  "frame W A s s' \<longleftrightarrow> (\<forall>l. l \<notin> W \<longrightarrow> scalars s' l = scalars s l) \<and> (\<forall>l. l \<notin> A \<longrightarrow> arrays s' l = arrays s l) \<and>
     ext_calls s' = ext_calls s"

lemma frame_refl [simp]: "frame W A s s"
  by (simp add: frame_def)

lemma frame_trans: "frame W A s s1 \<Longrightarrow> frame W A s1 s2 \<Longrightarrow> frame W A s s2"
  by (simp add: frame_def)

lemma frame_mono: "frame W A s s' \<Longrightarrow> W \<subseteq> W' \<Longrightarrow> A \<subseteq> A' \<Longrightarrow> frame W' A' s s'"
  by (auto simp: frame_def)

lemma assign_frame: "assign F l r s = ok s' \<Longrightarrow> frame (set (loc_list l)) A s s'"
  by (auto simp: assign_def loc_list_def set_scalar_def frame_def res_simps split: option.splits)

lemma store_set_array:
  assumes "store F arr loc d s = ok s'"
  shows "\<exists>l xs. location_of arr = Some l \<and> s' = set_array l (Some xs) s"
proof -
  from assms obtain i x where "(case location_of arr of None \<Rightarrow> err TypeError
     | Some l \<Rightarrow> (case arrays s l of None \<Rightarrow> err BadMemory
         | Some xs \<Rightarrow> (if 0 \<le> i \<and> i < int (length xs)
             then ok (set_array l (Some (xs[nat i := convert F (etype d) (etype arr) x])) s) else err BadMemory))) = ok s'"
    unfolding store_def bindR_eq_Inr by blast
  then show ?thesis by (auto split: option.splits if_splits)
qed

lemma store_frame: "store F arr loc d s = ok s' \<Longrightarrow> frame W (set (loc_list arr)) s s'"
  by (auto simp: loc_list_def set_array_def frame_def dest!: store_set_array)

lemma choose_rest_mem: "choose_rest F m cs s = ok (Some b) \<Longrightarrow> b \<in> snd ` set cs"
  by (induction cs) (auto simp: res_simps split: if_splits)

lemma choose_clause_mem: "choose_clause F m cs s = ok (Some b) \<Longrightarrow> b \<in> snd ` set cs"
  by (cases "(F, m, cs, s)" rule: choose_clause.cases)
    (auto simp: res_simps split: if_splits dest: choose_rest_mem)

lemma switch_to_mem: "switch_to F x cs s = ok (Some b) \<Longrightarrow> b \<in> snd ` set cs"
  by (induction cs) (auto simp: res_simps split: if_splits)

definition upd_writes :: "(expr \<times> expr) option \<Rightarrow> location set" where
  "upd_writes upd = (case upd of None \<Rightarrow> {} | Some (v, i) \<Rightarrow> set (loc_list v))"

lemma advance_frame: "advance F upd s = ok s' \<Longrightarrow> frame (upd_writes upd) A s s'"
  by (auto simp: advance_def upd_writes_def split: option.splits intro: assign_frame)

lemma exec_frame:
  "exec F b s fl s' \<Longrightarrow> frame (set (scalar_writes b)) (set (array_writes b)) s s'"
  "execs F bs s fl s' \<Longrightarrow> frame (set (scalar_writes (Block bs))) (set (array_writes (Block bs))) s s'"
  "loops F c upd b s s' \<Longrightarrow> frame (upd_writes upd \<union> set (scalar_writes b)) (set (array_writes b)) s s'"
proof (induction rule: exec_execs_loops.inducts)
  case (IfTrue s c x t fl s' f)
  then show ?case by (cases f) (auto elim: frame_mono)
next
  case (CaseSome m cs s b fl s')
  then show ?case by (force elim!: frame_mono dest!: choose_clause_mem)
next
  case (SwitchSome s e x cs b fl s')
  then show ?case by (force elim!: frame_mono dest!: switch_to_mem)
next
  case (For v a s s1 e i b s' k pu uf vw)
  then show ?case
    by (auto simp: upd_writes_def intro: frame_trans [OF frame_mono [OF assign_frame]])
next
  case (Cons b s s1 bs fl s')
  then show ?case by (auto intro: frame_trans [OF frame_mono frame_mono])
next
  case (Loop s c x b fl s1 upd s2 s')
  then show ?case
    by (auto intro: frame_trans [OF frame_mono frame_trans [OF frame_mono [OF advance_frame]]])
next
  case (Store arr loc data s s' at pu)
  then show ?case by (simp add: store_frame)
next
  case (VarDecl v r s s')
  then show ?case by (simp add: assign_frame)
next
  case (Assign l r s s' at pu)
  then show ?case by (simp add: assign_frame)
qed (auto elim: frame_mono simp: loc_list_def set_array_def frame_def upd_writes_def)

subsection \<open>A variable that is not mentioned\<close>

text \<open>The scalars a statement reads.\<close>

fun stmt_reads :: "stmt \<Rightarrow> location list" where
  "stmt_reads (Block ss) = concat (map stmt_reads ss)"
| "stmt_reads (Scope s) = stmt_reads s"
| "stmt_reads (Store arr loc d at pu) = scalar_reads loc @ scalar_reads d"
| "stmt_reads (IfThenElse c t None) = scalar_reads c @ stmt_reads t"
| "stmt_reads (IfThenElse c t (Some f)) = scalar_reads c @ stmt_reads t @ stmt_reads f"
| "stmt_reads (Case cs m) = concat (map (\<lambda>(c, s). scalar_reads c @ stmt_reads s) cs)"
| "stmt_reads (Switch cs e) = scalar_reads e @ concat (map (\<lambda>(c, s). scalar_reads c @ stmt_reads s) cs)"
| "stmt_reads (For v a b i s k pu uf vw) =
     scalar_reads v @ scalar_reads a @ scalar_reads b @ scalar_reads i @ stmt_reads s"
| "stmt_reads (While c s k vw) = scalar_reads c @ stmt_reads s"
| "stmt_reads (VarDecl v r) = scalar_reads r"
| "stmt_reads (Assign l r at pu) = scalar_reads r"
| "stmt_reads (Allocate v n old re cl) = scalar_reads n"
| "stmt_reads _ = []"

definition mentions :: "stmt \<Rightarrow> location set" where
  "mentions s = set (stmt_reads s) \<union> set (scalar_writes s)"

lemma eval_set_scalar: "l \<notin> set (scalar_reads e) \<Longrightarrow> eval F (set_scalar l x s) e = eval F s e"
  by (rule eval_agree) (auto simp: agree_def set_scalar_def)

lemma set_scalar_commute:
  "l \<noteq> k \<Longrightarrow> set_scalar l x (set_scalar k y s) = set_scalar k y (set_scalar l x s)"
  by (simp add: set_scalar_def fun_upd_twist)

lemma set_scalar_array: "set_scalar l x (set_array k y s) = set_array k y (set_scalar l x s)"
  by (simp add: set_scalar_def set_array_def)

lemma arrays_set_scalar [simp]: "arrays (set_scalar l x s) = arrays s"
  by (simp add: set_scalar_def)

lemma assign_fresh:
  assumes "assign F v r s = ok s'" "l \<notin> set (loc_list v)" "l \<notin> set (scalar_reads r)"
  shows "assign F v r (set_scalar l x s) = ok (set_scalar l x s')"
  using assms
  by (auto simp: assign_def loc_list_def eval_set_scalar res_simps set_scalar_commute split: option.splits)

lemma store_fresh:
  assumes "store F arr loc d s = ok s'" "l \<notin> set (scalar_reads loc)" "l \<notin> set (scalar_reads d)"
  shows "store F arr loc d (set_scalar l x s) = ok (set_scalar l x s')"
proof -
  have "store F arr loc d (set_scalar l x s) = bindR (store F arr loc d s) (\<lambda>s. ok (set_scalar l x s))"
    using assms(2,3)
    by (cases "eval F s loc"; cases "eval F s d")
      (auto simp: store_def eval_set_scalar set_scalar_array split: option.splits)
  with assms(1) show ?thesis by simp
qed

lemma choose_rest_fresh:
  "l \<notin> set (concat (map (\<lambda>(c, s). scalar_reads c @ stmt_reads s) cs)) \<Longrightarrow>
    choose_rest F m cs (set_scalar l x s) = choose_rest F m cs s"
  by (induction cs) (auto simp: eval_set_scalar intro!: bindR_cong)

lemma choose_clause_fresh:
  "l \<notin> set (concat (map (\<lambda>(c, s). scalar_reads c @ stmt_reads s) cs)) \<Longrightarrow>
    choose_clause F m cs (set_scalar l x s) = choose_clause F m cs s"
  by (cases cs) (auto simp: eval_set_scalar choose_rest_fresh intro!: bindR_cong)

lemma switch_to_fresh:
  "l \<notin> set (concat (map (\<lambda>(c, s). scalar_reads c @ stmt_reads s) cs)) \<Longrightarrow>
    switch_to F v cs (set_scalar l x s) = switch_to F v cs s"
  by (induction cs) (auto simp: eval_set_scalar intro!: bindR_cong)

definition upd_reads :: "(expr \<times> expr) option \<Rightarrow> location set" where
  "upd_reads upd = (case upd of None \<Rightarrow> {} | Some (v, i) \<Rightarrow> set (scalar_reads v) \<union> set (scalar_reads i))"

lemma advance_fresh:
  assumes "advance F upd s = ok s'" "l \<notin> upd_writes upd" "l \<notin> upd_reads upd"
  shows "advance F upd (set_scalar l x s) = ok (set_scalar l x s')"
  using assms by (auto simp: advance_def upd_writes_def upd_reads_def intro!: assign_fresh split: option.splits)

lemma exec_fresh:
  "exec F b s fl s' \<Longrightarrow> l \<notin> mentions b \<Longrightarrow> exec F b (set_scalar l x s) fl (set_scalar l x s')"
  "execs F bs s fl s' \<Longrightarrow> l \<notin> mentions (Block bs) \<Longrightarrow> execs F bs (set_scalar l x s) fl (set_scalar l x s')"
  "loops F c upd b s s' \<Longrightarrow> l \<notin> set (scalar_reads c) \<union> upd_reads upd \<union> upd_writes upd \<union> mentions b \<Longrightarrow>
    loops F c upd b (set_scalar l x s) (set_scalar l x s')"
proof (induction rule: exec_execs_loops.inducts)
  case (Store arr loc d s s' at pu)
  then show ?case by (auto simp: mentions_def intro: exec_execs_loops.Store store_fresh)
next
  case (IfTrue s c v t fl s' f)
  then show ?case
    by (cases f) (auto simp: mentions_def eval_set_scalar intro: exec_execs_loops.IfTrue [of F _ c v])
next
  case (IfFalse s c f fl s' t)
  then show ?case by (auto simp: mentions_def eval_set_scalar intro: exec_execs_loops.IfFalse)
next
  case (IfSkip s c t)
  then show ?case by (auto simp: mentions_def eval_set_scalar intro: exec_execs_loops.IfSkip)
next
  case (CaseSome m cs s b fl s')
  then have "l \<notin> mentions b" by (force simp: mentions_def dest: choose_clause_mem)
  with CaseSome show ?case
    by (auto simp: mentions_def choose_clause_fresh intro: exec_execs_loops.CaseSome)
next
  case (CaseNone m cs s)
  then show ?case by (auto simp: mentions_def choose_clause_fresh intro: exec_execs_loops.CaseNone)
next
  case (SwitchSome s e v cs b fl s')
  then have "l \<notin> mentions b" by (force simp: mentions_def dest: switch_to_mem)
  with SwitchSome have "exec F (Switch cs e) (set_scalar l x s) (if fl = Brk then Fall else fl) (set_scalar l x s')"
    by (intro exec_execs_loops.SwitchSome [where x = v and b = b]) (auto simp: mentions_def switch_to_fresh eval_set_scalar)
  then show ?case .
next
  case (SwitchNone s e v cs)
  then show ?case
    by (intro exec_execs_loops.SwitchNone [where x = v]) (auto simp: mentions_def switch_to_fresh eval_set_scalar)
next
  case (For v a s s1 e i b s' k pu uf vw)
  then show ?case
    by (intro exec_execs_loops.For [where ?s1.0 = "set_scalar l x s1"] assign_fresh)
      (auto simp: mentions_def upd_reads_def upd_writes_def)
next
  case (While c b s s' k vw)
  then show ?case
    by - (rule exec_execs_loops.While, auto simp: mentions_def upd_reads_def upd_writes_def)
next
  case (VarDecl v r s s')
  then show ?case by (intro exec_execs_loops.VarDecl assign_fresh) (auto simp: mentions_def)
next
  case (Assign lh r s s' at pu)
  then show ?case by (intro exec_execs_loops.Assign assign_fresh) (auto simp: mentions_def)
next
  case (Allocate s n k v la new re cl old)
  then show ?case
    by (auto simp: set_scalar_array mentions_def eval_set_scalar intro: exec_execs_loops.Allocate)
next
  case (Free v la s)
  then show ?case by (auto simp: set_scalar_array intro: exec_execs_loops.Free)
next
  case (Cons b s s1 bs fl s')
  then show ?case
    by - (rule exec_execs_loops.Cons [where ?s1.0 = "set_scalar l x s1"], auto simp: mentions_def)
next
  case (Stop b s fl s' bs)
  then show ?case by - (rule exec_execs_loops.Stop, auto simp: mentions_def)
next
  case (Exit s c upd b)
  then show ?case by (intro exec_execs_loops.Exit) (auto simp: eval_set_scalar)
next
  case (Loop s c v b fl s1 upd s2 s')
  then show ?case
    by - (rule exec_execs_loops.Loop [where x = v and fl = fl and ?s1.0 = "set_scalar l x s1" and ?s2.0 = "set_scalar l x s2"], auto simp: eval_set_scalar advance_fresh)
next
  case (Leave s c v b s' upd)
  then show ?case
    by - (rule exec_execs_loops.Leave [where x = v], auto simp: eval_set_scalar)
next
  case (Block ss s fl s')
  then show ?case by - (rule exec_execs_loops.Block, auto simp: mentions_def)
next
  case (Scope b s fl s')
  then show ?case by - (rule exec_execs_loops.Scope, auto simp: mentions_def)
qed (rule exec_execs_loops.intros)+

subsection \<open>The cached bound\<close>

lemma frame_eval:
  assumes "frame W A s s'" "set (scalar_reads e) \<inter> W = {}" "set (array_reads e) \<inter> A = {}"
  shows "eval F s' e = eval F s e"
  by (rule eval_agree) (use assms in \<open>auto simp: frame_def agree_def\<close>)

text \<open>The bound keeps its value while the loop runs.\<close>

definition stable_bound :: "expr \<Rightarrow> expr \<Rightarrow> stmt \<Rightarrow> bool" where
  "stable_bound v e body \<longleftrightarrow>
     set (scalar_reads e) \<inter> (set (loc_list v) \<union> set (scalar_writes body)) = {} \<and>
     set (array_reads e) \<inter> set (array_writes body) = {}"

text \<open>A location no part of the loop mentions.\<close>

definition unused :: "location \<Rightarrow> expr \<Rightarrow> expr \<Rightarrow> expr \<Rightarrow> expr \<Rightarrow> stmt \<Rightarrow> bool" where
  "unused l v a e i body \<longleftrightarrow>
     l \<notin> set (loc_list v) \<union> set (scalar_reads v) \<union> set (scalar_reads a) \<union> set (scalar_reads e) \<union>
       set (scalar_reads i) \<union> mentions body"

lemma eval_cached:
  assumes "conv (etype e) x = x"
  shows "eval F (set_scalar (LVar n) x s) (Var n nm (etype e) False False False) = ok x"
  using assms by (simp add: typed_def read_scalar_def set_scalar_def)

lemma cond_cached:
  assumes "eval F s e = ok x" "conv (etype e) x = x" "LVar n \<notin> set (scalar_reads v)"
  shows "eval F (set_scalar (LVar n) x s) (Binary OpLt Bool v (Var n nm (etype e) False False False)) =
    eval F s (Binary OpLt Bool v e)"
proof -
  have "eval F (set_scalar (LVar n) x s) v = eval F s v" by (rule eval_set_scalar [OF assms(3)])
  with eval_cached [OF assms(2), of F n s nm] assms(1) show ?thesis by (simp del: eval.simps(2))
qed

lemma loops_cached:
  assumes "loops F c upd b s s'" "c = Binary OpLt Bool v e" "upd = Some (v, i)" "eval F s e = ok x"
    and stable: "stable_bound v e b" and x: "conv (etype e) x = x"
    and n: "LVar n \<notin> set (loc_list v) \<union> set (scalar_reads v) \<union> set (scalar_reads i) \<union> mentions b"
  shows "loops F (Binary OpLt Bool v (Var n nm (etype e) False False False)) upd b
    (set_scalar (LVar n) x s) (set_scalar (LVar n) x s')"
  using assms(1-4) stable n
proof (induction rule: exec_execs_loops.inducts(3) [where ?P1.0 = "\<lambda>_ _ _ _. True" and ?P2.0 = "\<lambda>_ _ _ _. True"])
  case (Exit s c upd b)
  then show ?case using cond_cached [OF Exit(4) x, of n v nm]
    by - (rule exec_execs_loops.Exit, simp del: eval.simps)
next
  case (Leave s c w b s' upd)
  then have "exec F b (set_scalar (LVar n) x s) Brk (set_scalar (LVar n) x s')"
    by (intro exec_fresh(1)) auto
  with Leave cond_cached [OF Leave(7) x, of n v nm] show ?case
    by - (rule exec_execs_loops.Leave [where x = w], simp_all del: eval.simps)
next
  case (Loop s c w b fl s1 upd s2 s')
  have b: "exec F b (set_scalar (LVar n) x s) fl (set_scalar (LVar n) x s1)"
    using Loop by (intro exec_fresh(1)) auto
  have a: "advance F upd (set_scalar (LVar n) x s1) = ok (set_scalar (LVar n) x s2)"
    by (rule advance_fresh) (use Loop in \<open>auto simp: upd_writes_def upd_reads_def\<close>)
  have "frame (set (scalar_writes b)) (set (array_writes b)) s s1" using Loop by (intro exec_frame(1)) auto
  moreover have "frame (set (loc_list v)) {} s1 s2"
    using advance_frame [OF Loop(6)] Loop.prems by (simp add: upd_writes_def)
  ultimately have "frame (set (loc_list v) \<union> set (scalar_writes b)) (set (array_writes b)) s s2"
    by (auto intro: frame_trans [OF frame_mono frame_mono])
  then have e: "eval F s2 e = ok x"
    using frame_eval [of _ _ s s2 e F] Loop.prems by (auto simp: stable_bound_def)
  have l: "loops F (Binary OpLt Bool v (Var n nm (etype e) False False False)) upd b
    (set_scalar (LVar n) x s2) (set_scalar (LVar n) x s')"
    by (rule Loop.IH) (use Loop.prems e in auto)
  have c: "eval F (set_scalar (LVar n) x s) (Binary OpLt Bool v (Var n nm (etype e) False False False)) = ok w"
    using cond_cached [OF _ x, of F s n v nm] Loop by (simp del: eval.simps)
  show ?case by (rule exec_execs_loops.Loop [OF c Loop(2) b Loop(5) a l])
qed auto

text \<open>(C25) Building a loop whose bound is not a variable caches the bound in a new variable; if nothing
  the loop does changes what the bound reads, every execution of the plain loop is one of the
  built statement, with the new variable holding the bound at the end.\<close>

theorem For_make_caches_bound:
  assumes "For_make F v a e i body k pu uf vw b = ok (s', b')" "\<not> isVar e"
    and "good F e" "discrete (etype e)" "stable_bound v e body"
    and "unused (LVar (next_addr b)) v a e i body"
    and ex: "exec F (For v a e i body k pu uf vw) st fl st'"
  shows "\<exists>x. eval F st e = ok x \<and> exec F s' st fl (set_scalar (LVar (next_addr b)) x st') \<and>
    next_addr b' = Suc (next_addr b)"
proof -
  let ?n = "next_addr b" and ?nm = "''endbound_'' @ show_nat (num_vars_cached b)"
  let ?w = "Var ?n ?nm (etype e) False False False"
  have s': "s' = Block [VarDecl ?w e, For v a ?w i (Scope_make body) k pu uf vw]"
    "next_addr b' = Suc (next_addr b)"
    using assms(1,2)
    by (auto simp: For_make_def res_simps fresh_def Let_def Var_make_def VarDecl_make_def
        dest: base.rewrite_array_accesses_id)
  from ex obtain st1 where fl: "fl = Fall" and as: "assign F v a st = ok st1"
    and l: "loops F (Binary OpLt Bool v e) (Some (v, i)) body st1 st'" by (auto elim: ForE)
  have "eval F st e = eval F st1 e"
    using frame_eval [OF assign_frame [OF as, of "{}"], of e F] assms(5)
    by (auto simp: stable_bound_def Int_Un_distrib)
  moreover obtain x where x: "eval F st1 e = ok x"
    using l by (cases rule: loops.cases) (auto simp: res_simps)
  ultimately have x0: "eval F st e = ok x" by simp
  have cx: "conv (etype e) x = x" using eval_typed [OF assms(3) x0 assms(4)] .
  let ?up = "set_scalar (LVar ?n) x"
  have u: "LVar ?n \<notin> set (loc_list v)" "LVar ?n \<notin> set (scalar_reads v)" "LVar ?n \<notin> set (scalar_reads a)"
    "LVar ?n \<notin> set (scalar_reads i)" "LVar ?n \<notin> mentions body"
    using assms(6) by (auto simp: unused_def)
  have d: "exec F (VarDecl ?w e) st Fall (?up st)"
    by (rule exec_execs_loops.VarDecl) (simp add: assign_def x0)
  have "loops F (Binary OpLt Bool v ?w) (Some (v, i)) body (?up st1) (?up st')"
    by (rule loops_cached [OF l refl refl x assms(5) cx]) (use u in auto)
  then have "loops F (Binary OpLt Bool v ?w) (Some (v, i)) (Scope_make body) (?up st1) (?up st')"
    by (rule loops_refine) (auto simp: refines_def)
  with assign_fresh [OF as u(1,3), of x] have f: "exec F (For v a ?w i (Scope_make body) k pu uf vw) (?up st) Fall (?up st')"
    by (intro exec_execs_loops.For)
  have "exec F s' st Fall (?up st')"
    unfolding s' by (rule exec_execs_loops.Block) (rule Cons [OF d Cons [OF f Nil]])
  from conjI [OF x0 conjI [OF this s'(2)]] show ?thesis unfolding fl by (rule exI)
qed

text \<open>The loop \<open>for (j = 0; j < i - 6; j += 1) x = j\<close> with \<open>i = 7\<close>, which runs once.\<close>

definition example_j :: expr where
  "example_j = Var 1 ''j'' Int32 False False False"

definition example_bound :: expr where
  "example_bound = Binary OpSub Int32 example_i (Literal Int32 6)"

definition example_body :: stmt where
  "example_body = Assign (Var 2 ''x'' Int32 False False False) example_j False NotParallel"

definition example_loop :: stmt where
  "example_loop = For example_j (Literal Int32 0) example_bound (Literal Int32 1) example_body Serial NotParallel 0 0"

definition example_end :: state where
  "example_end = set_scalar (LVar 1) 1 (set_scalar (LVar 2) 0 (set_scalar (LVar 1) 0 example_state))"

lemma example_loop_runs: "exec fpu_null example_loop example_state Fall example_end"
proof -
  let ?c = "Binary OpLt Bool example_j example_bound" and ?u = "Some (example_j, Literal Int32 1)"
  let ?s1 = "set_scalar (LVar 1) 0 example_state"
  let ?s2 = "set_scalar (LVar 2) 0 ?s1"
  have c: "eval fpu_null ?s1 ?c = ok 1" "eval fpu_null example_end ?c = ok 0" by code_simp+
  have e: "eval fpu_null ?s1 example_j = ok 0" "eval fpu_null example_state (Literal Int32 0) = ok 0"
    "eval fpu_null ?s2 (Binary OpAdd Int32 example_j (Literal Int32 1)) = ok 1" by code_simp+
  have i: "assign fpu_null example_j (Literal Int32 0) example_state = ok ?s1"
    using e(2) by (simp add: assign_def example_j_def)
  have "assign fpu_null (Var 2 ''x'' Int32 False False False) example_j ?s1 = ok ?s2"
    using e(1) by (simp add: assign_def) (simp add: example_j_def)
  then have b: "exec fpu_null example_body ?s1 Fall ?s2"
    unfolding example_body_def by (rule exec_execs_loops.Assign)
  have "assign fpu_null example_j (Binary OpAdd Int32 example_j (Literal Int32 1)) ?s2 = ok example_end"
    using e(3) by (simp add: assign_def example_end_def) (simp add: example_j_def)
  then have a: "advance fpu_null ?u ?s2 = ok example_end"
    by (simp add: advance_def) (simp add: example_j_def)
  show ?thesis unfolding example_loop_def
    by (rule exec_execs_loops.For [OF i])
      (rule exec_execs_loops.Loop [OF c(1) _ b _ a exec_execs_loops.Exit [OF c(2)]], simp_all)
qed

lemma For_make_caches_bound_witness:
  "exec fpu_null
    (Block [VarDecl (Var 10 ''endbound_0'' Int32 False False False) example_bound,
      For example_j (Literal Int32 0) (Var 10 ''endbound_0'' Int32 False False False) (Literal Int32 1)
        (Scope example_body) Serial NotParallel 0 0])
    example_state Fall (set_scalar (LVar 10) 1 example_end)"
proof -
  have m: "For_make fpu_null example_j (Literal Int32 0) example_bound (Literal Int32 1) example_body Serial
      NotParallel 0 0 example_builder =
    ok (Block [VarDecl (Var 10 ''endbound_0'' Int32 False False False) example_bound,
      For example_j (Literal Int32 0) (Var 10 ''endbound_0'' Int32 False False False) (Literal Int32 1)
        (Scope example_body) Serial NotParallel 0 0],
      \<lparr>next_addr = 11, num_vars_cached = 1\<rparr>)" by code_simp
  have e: "eval fpu_null example_state example_bound = ok 1" by code_simp
  have g: "\<not> isVar example_bound" "good fpu_null example_bound" "discrete (etype example_bound)"
    "stable_bound example_j example_bound example_body"
    by (simp_all add: example_bound_def example_i_def example_j_def example_body_def binary_ok_def
        no_bool_operand_def discrete_def isIntegral_def kind_preds stable_bound_def loc_list_def)
  have u: "unused (LVar (next_addr example_builder)) example_j (Literal Int32 0) example_bound (Literal Int32 1) example_body"
    by (simp add: unused_def example_builder_def example_bound_def example_i_def example_j_def example_body_def
        loc_list_def mentions_def)
  from For_make_caches_bound [OF m g u example_loop_runs [unfolded example_loop_def]] e show ?thesis
    by (auto simp: example_builder_def)
qed

end
