(* ===== verification/Util.thy ===== *)
theory Util
  imports Prelude "HOL-Library.AList"
begin

text \<open>
  Utilities the compiler passes keep their state in: scoped maps (include/taco/util/scopedmap.h), and the
  generator of unique names (src/util/name_generator.cpp).
\<close>

subsection \<open>ScopedMap\<close>

text \<open>The innermost scope comes first. A map always has a scope while scopes are opened and closed in
  pairs; the operations on the impossible empty list leave it.\<close>

type_synonym ('k, 'v) scoped_map = "('k \<Rightarrow> 'v option) list"

definition sm_empty :: "('k, 'v) scoped_map" where
  "sm_empty = [\<lambda>_. None]"

definition sm_scope :: "('k, 'v) scoped_map \<Rightarrow> ('k, 'v) scoped_map" where
  "sm_scope m = (\<lambda>_. None) # m"

definition sm_unscope :: "('k, 'v) scoped_map \<Rightarrow> ('k, 'v) scoped_map" where
  "sm_unscope m = tl m"

text \<open>\<open>std::map::insert\<close> keeps an existing entry.\<close>

fun sm_insert :: "'k \<Rightarrow> 'v \<Rightarrow> ('k, 'v) scoped_map \<Rightarrow> ('k, 'v) scoped_map" where
  "sm_insert k v [] = []"
| "sm_insert k v (s # ss) = (if s k = None then s(k := Some v) else s) # ss"

fun sm_remove :: "'k \<Rightarrow> ('k, 'v) scoped_map \<Rightarrow> ('k, 'v) scoped_map res" where
  "sm_remove k [] = err IError"
| "sm_remove k (s # ss) =
     (if s k \<noteq> None then ok (s(k := None) # ss) else bindR (sm_remove k ss) (\<lambda>ss'. ok (s # ss')))"

fun sm_lookup :: "('k, 'v) scoped_map \<Rightarrow> 'k \<Rightarrow> 'v option" where
  "sm_lookup [] k = None"
| "sm_lookup (s # ss) k = (case s k of Some v \<Rightarrow> Some v | None \<Rightarrow> sm_lookup ss k)"

definition sm_get :: "('k, 'v) scoped_map \<Rightarrow> 'k \<Rightarrow> 'v res" where
  "sm_get m k = (case sm_lookup m k of None \<Rightarrow> err IError | Some v \<Rightarrow> ok v)"

definition sm_contains :: "('k, 'v) scoped_map \<Rightarrow> 'k \<Rightarrow> bool" where
  "sm_contains m k \<longleftrightarrow> sm_lookup m k \<noteq> None"

text \<open>What the passes rely on.\<close>

locale scoping =
  fixes push :: "'m \<Rightarrow> 'm" and pop :: "'m \<Rightarrow> 'm" and put :: "'k \<Rightarrow> 'v \<Rightarrow> 'm \<Rightarrow> 'm"
    and look :: "'m \<Rightarrow> 'k \<Rightarrow> 'v option" and proper :: "'m \<Rightarrow> bool"
  assumes pop_push: "pop (push m) = m"
    and pop_put: "proper m \<Longrightarrow> pop (put k v (push m)) = m"
    and look_push: "look (push m) = look m"
    and look_put: "look (put k v (push m)) k' = (if k' = k then Some v else look m k')"
    and proper_push: "proper m \<Longrightarrow> proper (push m)"
begin

text \<open>A declaration in an inner scope shadows the outer one until the scope is left.\<close>

lemma shadowing:
  assumes "proper m"
  shows "look (put k v (push m)) k = Some v \<and> pop (put k v (push m)) = m"
  using assms by (simp add: look_put pop_put)

end

interpretation sm: scoping sm_scope sm_unscope sm_insert sm_lookup "\<lambda>m. m \<noteq> []"
  by unfold_locales (auto simp: sm_scope_def sm_unscope_def fun_eq_iff split: option.splits)

lemma sm_insert_nonempty [simp]: "sm_insert k v m = [] \<longleftrightarrow> m = []"
  by (cases m) auto

lemma sm_remove_lookup:
  "sm_remove k m = ok m' \<Longrightarrow> k' \<noteq> k \<Longrightarrow> sm_lookup m' k' = sm_lookup m k'"
  by (induction m arbitrary: m') (auto simp: res_simps split: if_splits option.splits)

lemma sm_remove_ok: "sm_contains m k \<Longrightarrow> \<exists>m'. sm_remove k m = ok m'"
  by (induction m) (auto simp: sm_contains_def split: option.splits)

subsection \<open>NameGenerator\<close>

type_synonym name_counters = "(string \<times> nat) list"

definition NameGenerator :: "string list \<Rightarrow> name_counters" where
  "NameGenerator reserved = map (\<lambda>n. (n, 0)) (remdups reserved)"

definition getUniqueName :: "string \<Rightarrow> name_counters \<Rightarrow> string \<times> name_counters" where
  "getUniqueName name cs =
     (case map_of cs name of
        Some n \<Rightarrow> (name @ show_nat n, AList.update name (Suc n) cs)
      | None \<Rightarrow> (name, AList.update name 0 cs))"

fun getUniqueNames :: "string list \<Rightarrow> name_counters \<Rightarrow> string list" where
  "getUniqueNames [] cs = []"
| "getUniqueNames (n # ns) cs = (let (u, cs') = getUniqueName n cs in u # getUniqueNames ns cs')"

subsection \<open>Decimal numbers\<close>

definition digit_value :: "char \<Rightarrow> nat" where
  "digit_value c = (of_char c :: nat) - 48"

definition nat_of_digits :: "string \<Rightarrow> nat" where
  "nat_of_digits s = foldl (\<lambda>a c. 10 * a + digit_value c) 0 s"

lemma digit_value_char: "d < 10 \<Longrightarrow> digit_value (digit_char d) = d"
proof -
  assume "d < 10"
  then have "d \<in> {0, 1, 2, 3, 4, 5, 6, 7, 8, 9}" by auto
  then show ?thesis by (auto simp: digit_value_def digit_char_def)
qed

lemma nat_of_digits_show: "nat_of_digits (show_nat n) = n"
proof (induction n rule: show_nat.induct)
  case (1 n)
  show ?case
  proof (cases "n < 10")
    case True
    then show ?thesis by (simp add: show_nat.simps [of n] nat_of_digits_def digit_value_char)
  next
    case False
    with 1 have "nat_of_digits (show_nat (n div 10)) = n div 10" by simp
    with False show ?thesis by (simp add: show_nat.simps [of n] nat_of_digits_def digit_value_char)
  qed
qed

lemma show_nat_inj: "show_nat a = show_nat b \<Longrightarrow> a = b"
  by (metis nat_of_digits_show)

lemma show_nat_nonempty [simp]: "show_nat n \<noteq> []" "[] \<noteq> show_nat n"
  by (subst show_nat.simps, simp)+

text \<open>A non-empty prefix of a decimal number is one.\<close>

lemma show_nat_prefix: "show_nat n = d @ r \<Longrightarrow> d \<noteq> [] \<Longrightarrow> \<exists>m. d = show_nat m"
proof (induction r arbitrary: n rule: rev_induct)
  case Nil
  then show ?case by auto
next
  case (snoc c r)
  show ?case
  proof (cases "n < 10")
    case True
    with snoc.prems show ?thesis by (auto simp: show_nat.simps [of n] Cons_eq_append_conv)
  next
    case False
    with snoc.prems(1) have "show_nat (n div 10) = d @ r" by (simp add: show_nat.simps [of n] flip: append_assoc)
    then show ?thesis by (rule snoc.IH [OF _ snoc.prems(2)])
  qed
qed

subsection \<open>Unique names\<close>

text \<open>The names a generator has given away.\<close>

definition numbered :: "string \<Rightarrow> nat \<Rightarrow> string set" where
  "numbered n c = insert n ((\<lambda>j. n @ show_nat j) ` {..<c})"

definition taken :: "name_counters \<Rightarrow> string set" where
  "taken cs = (\<Union>n \<in> dom (map_of cs). numbered n (the (map_of cs n)))"

definition clash_free :: "string set \<Rightarrow> bool" where
  "clash_free N \<longleftrightarrow> (\<forall>m \<in> N. \<forall>n \<in> N. \<forall>k. m \<noteq> n @ show_nat k)"

lemma numbered_names_differ:
  assumes "clash_free N" "m \<in> N" "n \<in> N" "m @ show_nat i = n @ show_nat j"
  shows "m = n \<and> i = j"
proof -
  have *: "m = n \<or> (\<exists>d. d \<noteq> [] \<and> n = m @ d \<and> show_nat i = d @ show_nat j) \<or>
    (\<exists>d. d \<noteq> [] \<and> m = n @ d \<and> show_nat j = d @ show_nat i)"
    using assms(4) by (auto simp: append_eq_append_conv2)
  have "m = n" using * assms(1-3) by (auto simp: clash_free_def dest!: show_nat_prefix)
  with assms(4) show ?thesis by (auto dest: show_nat_inj)
qed

lemma taken_iff: "u \<in> taken cs \<longleftrightarrow> (\<exists>n c. map_of cs n = Some c \<and> u \<in> numbered n c)"
  by (simp add: taken_def Bex_def dom_def) (metis option.sel)

lemma taken_iff_others:
  "x \<in> taken cs \<longleftrightarrow> (\<exists>c. map_of cs n = Some c \<and> x \<in> numbered n c) \<or>
    (\<exists>m c. m \<noteq> n \<and> map_of cs m = Some c \<and> x \<in> numbered m c)"
  unfolding taken_iff by metis

lemma taken_update:
  assumes "case map_of cs n of None \<Rightarrow> numbered n v = insert u {} | Some c \<Rightarrow> numbered n v = insert u (numbered n c)"
  shows "taken (AList.update n v cs) = insert u (taken cs)"
proof (rule set_eqI)
  fix x
  have m: "map_of (AList.update n v cs) = (map_of cs)(n \<mapsto> v)" by (rule update_conv')
  have "x \<in> taken (AList.update n v cs) \<longleftrightarrow>
    x \<in> numbered n v \<or> (\<exists>m c. m \<noteq> n \<and> map_of cs m = Some c \<and> x \<in> numbered m c)"
    unfolding taken_iff_others [of x "AList.update n v cs" n] m by auto
  also have "\<dots> \<longleftrightarrow> x \<in> insert u (taken cs)"
    using assms unfolding taken_iff_others [of x cs n] insert_iff by (auto split: option.splits)
  finally show "x \<in> taken (AList.update n v cs) \<longleftrightarrow> x \<in> insert u (taken cs)" .
qed

lemma getUniqueName_fresh:
  assumes "clash_free N" "dom (map_of cs) \<subseteq> N" "n \<in> N" "getUniqueName n cs = (u, cs')"
  shows "u \<notin> taken cs \<and> taken cs' = insert u (taken cs) \<and> dom (map_of cs') \<subseteq> N"
proof (cases "map_of cs n")
  case None
  then have u: "u = n" "cs' = AList.update n 0 cs" using assms(4) by (auto simp: getUniqueName_def)
  have "n \<notin> taken cs"
    using None assms(1-3) by (auto simp: taken_iff numbered_def clash_free_def subset_iff)
  moreover have "taken cs' = insert n (taken cs)"
    unfolding u(2) by (rule taken_update) (simp add: None numbered_def)
  moreover have "dom (map_of cs') = insert n (dom (map_of cs))" using u by (auto simp: update_conv)
  ultimately show ?thesis using u assms(2,3) by simp
next
  case (Some c)
  then have u: "u = n @ show_nat c" "cs' = AList.update n (Suc c) cs" using assms(4) by (auto simp: getUniqueName_def)
  have "u \<notin> taken cs"
  proof
    assume "u \<in> taken cs"
    then obtain m d where m: "map_of cs m = Some d" "u = m \<or> (\<exists>j < d. u = m @ show_nat j)"
      by (auto simp: taken_iff numbered_def)
    then have "m \<in> N" using assms(2) by auto
    with m(2) u assms(1,3) have "\<exists>j < d. n @ show_nat c = m @ show_nat j"
      by (auto simp: clash_free_def)
    then obtain j where j: "j < d" "n @ show_nat c = m @ show_nat j" by blast
    from numbered_names_differ [OF assms(1,3) \<open>m \<in> N\<close> j(2)] m(1) Some j(1) show False by simp
  qed
  moreover have "taken cs' = insert u (taken cs)"
    unfolding u(2) by (rule taken_update) (auto simp: Some numbered_def u(1) lessThan_Suc)
  moreover have "dom (map_of cs') = insert n (dom (map_of cs))" using u by (auto simp: update_conv)
  ultimately show ?thesis using u assms(2,3) by simp
qed

text \<open>(C36) If no requested or reserved name is another one followed by a decimal number, all names a generator
  gives out are different from each other and from the reserved names.\<close>

theorem getUniqueNames_distinct:
  assumes "clash_free (set ns \<union> set reserved)"
  shows "distinct (getUniqueNames ns (NameGenerator reserved)) \<and>
    set (getUniqueNames ns (NameGenerator reserved)) \<inter> set reserved = {}"
proof -
  have gen: "distinct (getUniqueNames ms cs) \<and> set (getUniqueNames ms cs) \<inter> taken cs = {}"
    if "clash_free N" "dom (map_of cs) \<subseteq> N" "set ms \<subseteq> N" for N ms cs
    using that
  proof (induction ms arbitrary: cs)
    case (Cons m ms)
    obtain u cs' where u: "getUniqueName m cs = (u, cs')" by force
    with getUniqueName_fresh [OF Cons.prems(1,2) _ u] Cons.prems(3) Cons.IH [of cs'] Cons.prems(1)
    show ?case by (auto simp: Let_def)
  qed simp
  have m: "map_of (NameGenerator reserved) n = (if n \<in> set reserved then Some 0 else None)" for n
    by (simp add: NameGenerator_def map_of_map_restrict restrict_map_def)
  then have "taken (NameGenerator reserved) = set reserved"
    by (auto simp: taken_iff numbered_def split: if_splits)
  moreover have "dom (map_of (NameGenerator reserved)) = set reserved"
    using m by (auto simp: dom_def)
  ultimately show ?thesis
    using gen [OF assms, of "NameGenerator reserved" ns] by auto
qed

lemma getUniqueNames_distinct_witness:
  "distinct (getUniqueNames [''i'', ''i''] (NameGenerator [''for'']))"
proof -
  have "clash_free {''i'', ''for''}"
    by (auto simp: clash_free_def Cons_eq_append_conv)
  then have "clash_free (set [''i'', ''i''] \<union> set [''for''])" by (simp add: insert_commute)
  from getUniqueNames_distinct [OF this] show ?thesis by blast
qed

text \<open>Without that condition the generator repeats itself: after two requests for a name, a request for
  the name followed by 0 returns the same name as the second.\<close>

theorem getUniqueNames_collision:
  "n \<noteq> [] \<Longrightarrow> getUniqueNames [n, n, n @ ''0''] (NameGenerator []) = [n, n @ ''0'', n @ ''0'']"
  by (simp add: NameGenerator_def getUniqueName_def Let_def show_nat.simps [of 0] digit_char_def)

lemma getUniqueNames_collision_witness:
  "\<not> distinct (getUniqueNames [''a'', ''a'', ''a0''] (NameGenerator []))"
  using getUniqueNames_collision [of "''a''"] by simp

end
