(* ===== verification/Simplify_Stmt.thy ===== *)
theory Simplify_Stmt
  imports IR_Rewriter IR_Verifier Util
begin

text \<open>
  The statement simplifier of src/ir/simplify.cpp: an analysis of loop-dependent variables, copy
  propagation with expression simplification, removal of declarations that nothing needs, and the
  elimination of loops that only increment variables. Each pass is an instance of the rewriter of
  theory \<open>IR_Rewriter\<close> with the methods its class overrides.
\<close>

subsection \<open>FindLoopDependentVars\<close>

record loop_vars =
  loopDependentVars :: "expr list"
  defLevel :: "(expr \<times> nat) list"

fun find_loop_vars :: "nat \<Rightarrow> stmt \<Rightarrow> loop_vars \<Rightarrow> loop_vars" where
  "find_loop_vars n (Block ss) st = fold (find_loop_vars n) ss st"
| "find_loop_vars n (Scope s) st = find_loop_vars n s st"
| "find_loop_vars n (IfThenElse c t None) st = find_loop_vars n t st"
| "find_loop_vars n (IfThenElse c t (Some f)) st = find_loop_vars n f (find_loop_vars n t st)"
| "find_loop_vars n (Case cs m) st = fold (\<lambda>(c, s). find_loop_vars n s) cs st"
| "find_loop_vars n (Switch cs e) st = fold (\<lambda>(c, s). find_loop_vars n s) cs st"
| "find_loop_vars n (For v a e i s k pu uf vw) st =
     find_loop_vars (Suc n) s (st\<lparr>loopDependentVars := v # loopDependentVars st\<rparr>)"
| "find_loop_vars n (While c s k vw) st = find_loop_vars (Suc n) s st"
| "find_loop_vars n (Function f s is os) st = find_loop_vars n s st"
| "find_loop_vars n (VarDecl v r) st =
     (if map_of (defLevel st) v = None then st\<lparr>defLevel := (v, n) # defLevel st\<rparr> else st)"
| "find_loop_vars n (Assign l r at pu) st =
     (case map_of (defLevel st) l of
        Some m \<Rightarrow> if m < n then st\<lparr>loopDependentVars := l # loopDependentVars st\<rparr> else st
      | None \<Rightarrow> st)"
| "find_loop_vars n s st = st"

definition loop_dependent_vars :: "stmt \<Rightarrow> expr list" where
  "loop_dependent_vars s = loopDependentVars (find_loop_vars 0 s \<lparr>loopDependentVars = [], defLevel = []\<rparr>)"

subsection \<open>Copy propagation\<close>

text \<open>The expression simplifier with \<open>visit(const Var*)\<close> overridden: a variable is replaced. What a rule
  simplifies again goes to the plain simplifier.\<close>

fun simplify_var :: "(expr \<Rightarrow> expr) \<Rightarrow> fpu \<Rightarrow> expr \<Rightarrow> expr res" where
  "simplify_var \<sigma> F (Literal t v) = ok (Literal t v)"
| "simplify_var \<sigma> F (Var ad n t p ts m) = ok (\<sigma> (Var ad n t p ts m))"
| "simplify_var \<sigma> F (Unary op t a) =
     bindR (simplify_var \<sigma> F a) (\<lambda>a'. ok (if a' = a then Unary op t a else Unary_make op a'))"
| "simplify_var \<sigma> F (Binary op t a b) =
     bindR (simplify_var \<sigma> F a) (\<lambda>a'. bindR (simplify_var \<sigma> F b) (\<lambda>b'.
       bindR (simp_binary F op (Binary op t a b) a b a' b') (\<lambda>r.
         case r of Done e \<Rightarrow> ok e | Again e \<Rightarrow> simplify F e)))"
| "simplify_var \<sigma> F (Nary op t es) =
     bindR (mapR (simplify_var \<sigma> F) es) (\<lambda>es'. if es' = es then ok (Nary op t es) else Nary_make op es')"
| "simplify_var \<sigma> F (Cast t a) = bindR (simplify_var \<sigma> F a) (simp_Cast F (Cast t a) t a)"
| "simplify_var \<sigma> F (Call t f es) =
     bindR (mapR (simplify_var \<sigma> F) es) (\<lambda>es'. ok (if es' = es then Call t f es else Call_make f es' t))"
| "simplify_var \<sigma> F (Load t arr loc) =
     bindR (simplify_var \<sigma> F arr) (\<lambda>arr'. bindR (simplify_var \<sigma> F loc) (\<lambda>loc'.
       if arr' = arr \<and> loc' = loc then ok (Load t arr loc) else Load_make arr' loc'))"
| "simplify_var \<sigma> F (Malloc t e) =
     bindR (simplify_var \<sigma> F e) (\<lambda>e'. ok (if e' = e then Malloc t e else Malloc_make e'))"
| "simplify_var \<sigma> F (Sizeof t ty) = ok (Sizeof t ty)"
| "simplify_var \<sigma> F (GetProperty ad t tensor pr mode ix nm) =
     bindR (simplify_var \<sigma> F tensor) (\<lambda>tensor'. ok
       (if tensor' = tensor then GetProperty ad t tensor pr mode ix nm
        else GetProperty_make5 ad tensor' pr mode ix nm))"

text \<open>The members of \<open>Simplifier\<close>. Statements are compared by structure.\<close>

record simplifier =
  varsToReplace :: "(expr, expr \<times> stmt) scoped_map"
  necessaryDecls :: "stmt list"
  dependencies :: "(expr \<times> expr) list"
  declarations :: "(expr, stmt) scoped_map"

definition new_simplifier :: simplifier where
  "new_simplifier =
     \<lparr>varsToReplace = sm_empty, necessaryDecls = [], dependencies = [], declarations = sm_empty\<rparr>"

definition replacement :: "simplifier \<Rightarrow> expr \<Rightarrow> expr" where
  "replacement c v = (case sm_lookup (varsToReplace c) v of Some (w, _) \<Rightarrow> w | None \<Rightarrow> v)"

text \<open>\<open>visit(const Var*)\<close>: the declaration of the variable that replaces the visited one is necessary.\<close>

definition visit_Var :: "simplifier \<Rightarrow> expr \<Rightarrow> simplifier" where
  "visit_Var c v =
     (case sm_lookup (declarations c) (replacement c v) of
        Some d \<Rightarrow> c\<lparr>necessaryDecls := d # necessaryDecls c\<rparr>
      | None \<Rightarrow> c)"

definition visit_Vars :: "simplifier \<Rightarrow> expr \<Rightarrow> simplifier" where
  "visit_Vars c e = fold (\<lambda>v c. visit_Var c v) (filter isVar (visit_expr e)) c"

definition cp_expr :: "fpu \<Rightarrow> expr \<Rightarrow> (simplifier \<times> builder, expr) stateful" where
  "cp_expr F e = (\<lambda>(c, b). bindR (simplify_var (replacement c) F e) (\<lambda>e'. ok (e', (visit_Vars c e, b))))"

definition modify :: "(simplifier \<Rightarrow> simplifier) \<Rightarrow> (simplifier \<times> builder, unit) stateful" where
  "modify f = (\<lambda>(c, b). ok ((), (f c, b)))"

definition cp_VarDecl :: "fpu \<Rightarrow> expr list \<Rightarrow> expr \<Rightarrow> expr \<Rightarrow> (simplifier \<times> builder, stmt) stateful" where
  "cp_VarDecl F ldv v r =
     bindB (cp_expr F r) (\<lambda>r'.
     bindB (if r' = r then retB (VarDecl v r) else liftB (VarDecl_make v r')) (\<lambda>d.
     bindB (modify (\<lambda>c. c\<lparr>declarations := sm_insert v d (declarations c)\<rparr>)) (\<lambda>_.
     bindB (if isInt (etype v) \<and> isVar r' \<and> v \<notin> set ldv
            then modify (\<lambda>c. c\<lparr>varsToReplace := sm_insert v (r', d) (varsToReplace c),
                              dependencies := dependencies c @ [(r', v)]\<rparr>)
            else retB ()) (\<lambda>_. retB d))))"

text \<open>The work list of variables whose replacement is no longer valid. The loop ends when the dependencies
  are not circular.\<close>

definition forget :: "expr \<Rightarrow> (expr, expr \<times> stmt) scoped_map \<Rightarrow> (expr, expr \<times> stmt) scoped_map" where
  "forget v m = (case sm_remove v m of Inr m' \<Rightarrow> m' | Inl _ \<Rightarrow> m)"

definition dependents :: "(expr \<times> expr) list \<Rightarrow> expr \<Rightarrow> expr list" where
  "dependents deps v = map snd (filter (\<lambda>(k, _). k = v) deps)"

partial_function (option) invalidate ::
  "(expr \<times> expr) list \<Rightarrow> expr list \<Rightarrow> (expr, expr \<times> stmt) scoped_map \<Rightarrow> (expr, expr \<times> stmt) scoped_map option" where
  "invalidate deps q m =
     (case q of
        [] \<Rightarrow> Some m
      | v # q' \<Rightarrow> invalidate deps (q' @ dependents deps v) (if sm_contains m v then forget v m else m))"

declare invalidate.simps [code]

definition cp_invalidate :: "expr \<Rightarrow> (simplifier \<times> builder, unit) stateful" where
  "cp_invalidate l = (\<lambda>(c, b).
     case invalidate (dependencies c) [l] (varsToReplace c) of
       None \<Rightarrow> err NoReturn
     | Some m \<Rightarrow> ok ((), (c\<lparr>varsToReplace := m\<rparr>, b)))"

definition cp_Assign :: "fpu \<Rightarrow> stmt \<Rightarrow> expr \<Rightarrow> expr \<Rightarrow> bool \<Rightarrow> (simplifier \<times> builder, stmt) stateful" where
  "cp_Assign F op l r at =
     bindB (if isVar l then retB l else cp_expr F l) (\<lambda>l'.
     bindB (cp_expr F r) (\<lambda>r'.
     bindB (if l' = l \<and> r' = r then retB op else liftB (Assign_make l' r' at NotParallel)) (\<lambda>s.
     bindB (\<lambda>(c, b). case sm_lookup (declarations c) l' of
              Some d \<Rightarrow> assertR IAssert (isVar l') (ok ((), (c\<lparr>necessaryDecls := d # necessaryDecls c\<rparr>, b)))
            | None \<Rightarrow> ok ((), (c, b))) (\<lambda>_.
     bindB (if isInt (etype l) then cp_invalidate l else retB ()) (\<lambda>_. retB s)))))"

fun cp_visit :: "fpu \<Rightarrow> expr list \<Rightarrow> stmt \<Rightarrow> (simplifier \<times> builder, stmt option) stateful" where
  "cp_visit F ldv (VarDecl v r) = bindB (cp_VarDecl F ldv v r) (\<lambda>s. retB (Some s))"
| "cp_visit F ldv (Assign l r at pu) = bindB (cp_Assign F (Assign l r at pu) l r at) (\<lambda>s. retB (Some s))"
| "cp_visit F ldv _ = retB None"

definition lift_build :: "'a build \<Rightarrow> ('s \<times> builder, 'a) stateful" where
  "lift_build m = (\<lambda>(c, b). bindR (m b) (\<lambda>(x, b'). ok (x, (c, b'))))"

definition copy_propagation :: "fpu \<Rightarrow> expr list \<Rightarrow> (simplifier \<times> builder) rewriter" where
  "copy_propagation F ldv =
     \<lparr>rw_expr = cp_expr F,
      rw_visit = cp_visit F ldv,
      rw_enter = (\<lambda>(c, b). (c\<lparr>declarations := sm_scope (declarations c), varsToReplace := sm_scope (varsToReplace c)\<rparr>, b)),
      rw_leave = (\<lambda>(c, b). (c\<lparr>declarations := sm_unscope (declarations c), varsToReplace := sm_unscope (varsToReplace c)\<rparr>, b)),
      rw_for = (\<lambda>v a e i s k pu uf vw. lift_build (For_make F v a e i s k pu uf vw))\<rparr>"

subsection \<open>RemoveRedundantStmts\<close>

definition is_Call :: "expr \<Rightarrow> bool" where
  "is_Call e = (case e of Call _ _ _ \<Rightarrow> True | _ \<Rightarrow> False)"

fun redundant_visit :: "stmt list \<Rightarrow> stmt \<Rightarrow> stmt option" where
  "redundant_visit needed (VarDecl v r) =
     Some (if is_Call r \<or> VarDecl v r \<in> set needed then VarDecl v r else Block [])"
| "redundant_visit needed _ = None"

definition remove_redundant_stmts :: "fpu \<Rightarrow> stmt list \<Rightarrow> builder rewriter" where
  "remove_redundant_stmts F needed = (plain_rewriter F (\<lambda>e. ok e))\<lparr>rw_visit := \<lambda>s. retB (redundant_visit needed s)\<rparr>"

subsection \<open>RemoveRedundantLoops\<close>

text \<open>\<open>DuplicateBody\<close>: the effect of all iterations of a body at once, when that is known.\<close>

fun duplicate_body :: "fpu \<Rightarrow> expr \<Rightarrow> stmt \<Rightarrow> stmt option res"
  and duplicate_bodies :: "fpu \<Rightarrow> expr \<Rightarrow> stmt list \<Rightarrow> stmt list option res" where
  "duplicate_body F loopCount (Block ss) =
     bindR (duplicate_bodies F loopCount ss) (\<lambda>r. ok (map_option (\<lambda>ss'. Block_make (map Some ss')) r))"
| "duplicate_body F loopCount (Scope s) =
     bindR (duplicate_body F loopCount s) (\<lambda>r. ok (map_option Scope_make r))"
| "duplicate_body F loopCount (Assign l r at pu) =
     (if is_literal r then ok (Some (Assign l r at pu))
      else case as_Binary OpAdd r of
        None \<Rightarrow> ok None
      | Some (t, a, b) \<Rightarrow>
          (if a \<noteq> l \<or> \<not> is_literal b then ok None
           else bindR (bindR (Mul_make loopCount b) (simplify F)) (\<lambda>inc.
                bindR (Add_make a inc) (\<lambda>sum.
                bindR (Assign_make l sum False NotParallel) (\<lambda>s. ok (Some s))))))"
| "duplicate_body F loopCount _ = ok None"
| "duplicate_bodies F loopCount [] = ok (Some [])"
| "duplicate_bodies F loopCount (s # ss) =
     bindR (duplicate_body F loopCount s) (\<lambda>r. case r of None \<Rightarrow> ok None
       | Some s' \<Rightarrow> bindR (duplicate_bodies F loopCount ss) (\<lambda>q. ok (map_option (\<lambda>ss'. s' # ss') q)))"

definition remove_For :: "fpu \<Rightarrow> expr \<Rightarrow> expr \<Rightarrow> expr \<Rightarrow> stmt \<Rightarrow> stmt option res" where
  "remove_For F a e i s =
     bindR (bindR (bindR (Sub_make e a) (\<lambda>d. Div_make d i)) (simplify F)) (\<lambda>loopCount.
     bindR (duplicate_body F loopCount s) (\<lambda>r. case r of None \<Rightarrow> ok None
       | Some body \<Rightarrow> bindR (IfThenElse_make (Lt_make a e) body None) (\<lambda>s'. ok (Some s'))))"

text \<open>\<open>CheckModified\<close>.\<close>

definition is_modified :: "expr \<Rightarrow> stmt \<Rightarrow> bool" where
  "is_modified var s \<longleftrightarrow> (\<exists>x \<in> set (visit_stmt s). case x of
     NStmt (Assign l r at pu) \<Rightarrow> isVar l \<and> l = var | _ \<Rightarrow> False)"

definition is_unit :: "fpu \<Rightarrow> expr \<Rightarrow> bool res" where
  "is_unit F e =
     (case as_Literal e of None \<Rightarrow> ok False
      | Some (t, v) \<Rightarrow> if isInt t \<or> isUInt t then equalsScalar F t v 1 else ok False)"

text \<open>The last statement of the body of a loop that counts \<open>iter\<close> up by one.\<close>

definition counts_up :: "fpu \<Rightarrow> expr \<Rightarrow> stmt \<Rightarrow> bool res" where
  "counts_up F iter s =
     (case s of Assign l r at pu \<Rightarrow>
        (case as_Binary OpAdd r of
           Some (t, a, b) \<Rightarrow> if l = iter \<and> a = l then is_unit F b else ok False
         | None \<Rightarrow> ok False)
      | _ \<Rightarrow> ok False)"

definition remove_While :: "fpu \<Rightarrow> expr \<Rightarrow> stmt \<Rightarrow> stmt option res" where
  "remove_While F c s =
     (case as_Binary OpLt c of
        None \<Rightarrow> ok None
      | Some (_, iter, bound) \<Rightarrow>
          (if \<not> isVar iter \<or> \<not> isVar bound \<or> is_modified bound s then ok None
           else case s of
             Scope (Block ss) \<Rightarrow>
               (if ss = [] then err BadMemory
                else bindR (counts_up F iter (last ss)) (\<lambda>u.
                  if \<not> u then ok None
                  else bindR (bindR (Sub_make bound iter) (simplify F)) (\<lambda>loopCount.
                    bindR (duplicate_body F loopCount (Block_make (map Some (butlast ss)))) (\<lambda>r.
                      case r of None \<Rightarrow> ok None
                      | Some body \<Rightarrow>
                          bindR (Assign_make iter bound False NotParallel) (\<lambda>a.
                          bindR (IfThenElse_make c (Block_make [Some body, Some a]) None) (\<lambda>s'. ok (Some s')))))))
           | Scope _ \<Rightarrow> ok None
           | _ \<Rightarrow> err BadMemory))"

fun loop_visit :: "fpu \<Rightarrow> stmt \<Rightarrow> stmt option res" where
  "loop_visit F (For v a e i s k pu uf vw) = remove_For F a e i s"
| "loop_visit F (While c s k vw) = remove_While F c s"
| "loop_visit F _ = ok None"

definition remove_redundant_loops :: "fpu \<Rightarrow> builder rewriter" where
  "remove_redundant_loops F = (plain_rewriter F (\<lambda>e. ok e))\<lparr>rw_visit := \<lambda>s. liftB (loop_visit F s)\<rparr>"

subsection \<open>The simplifier\<close>

definition simplify_stmt :: "fpu \<Rightarrow> stmt \<Rightarrow> stmt build" where
  "simplify_stmt F s b =
     bindR (rewrite_with (copy_propagation F (loop_dependent_vars s)) s (new_simplifier, b)) (\<lambda>(s1, (c, b1)).
     bindR (rewrite_with (remove_redundant_stmts F (necessaryDecls c)) s1 b1) (\<lambda>(s2, b2).
       rewrite_with (remove_redundant_loops F) s2 b2))"

end
