(* ===== verification/Copy_Propagation.thy ===== *)
theory Copy_Propagation
  imports Simplify_Stmt Stmt_Sound "HOL-Library.Multiset"
begin

text \<open>
  Copy propagation: rewriting an expression under a valid replacement of variables keeps its value,
  an assignment makes the simplifier forget exactly the replacements that depend on its target, and a
  loop for which the analysis of loop-dependent variables is too weak.
\<close>

subsection \<open>Forgetting dependent replacements\<close>

text \<open>A key has an entry in at most one scope.\<close>

definition single :: "('k, 'v) scoped_map \<Rightarrow> bool" where
  "single m \<longleftrightarrow> (\<forall>k. length (filter (\<lambda>s. s k \<noteq> None) m) \<le> 1)"

lemma sm_remove_single:
  "sm_remove k m = ok m' \<Longrightarrow> length (filter (\<lambda>s. s j \<noteq> None) m') =
     (if j = k then length (filter (\<lambda>s. s j \<noteq> None) m) - 1 else length (filter (\<lambda>s. s j \<noteq> None) m))"
proof (induction m arbitrary: m')
  case (Cons s m)
  show ?case
  proof (cases "s k = None")
    case True
    with Cons.prems obtain m1 where m1: "sm_remove k m = ok m1" "m' = s # m1" by (auto simp: res_simps)
    from Cons.IH [OF m1(1)] m1(2) True show ?thesis by auto
  next
    case False
    with Cons.prems show ?thesis by auto
  qed
qed simp

lemma sm_lookup_none: "sm_lookup m k = None \<longleftrightarrow> filter (\<lambda>s. s k \<noteq> None) m = []"
  by (induction m) (auto split: option.split)

lemma forget:
  assumes "single m"
  shows "single (forget v m)" "sm_lookup (forget v m) k = (if k = v then None else sm_lookup m k)"
proof -
  have "single (forget v m) \<and> sm_lookup (forget v m) k = (if k = v then None else sm_lookup m k)"
  proof (cases "sm_remove v m")
    case (Inl e)
    then have "sm_lookup m v = None" using sm_remove_ok [of m v] by (cases "sm_lookup m v") (auto simp: sm_contains_def)
    with Inl assms show ?thesis by (simp add: forget_def)
  next
    case (Inr m')
    note n = sm_remove_single [OF Inr]
    have "single m'" unfolding single_def
    proof
      fix j show "length (filter (\<lambda>s. s j \<noteq> None) m') \<le> 1"
        using n [of j] assms by (auto simp: single_def dest: spec [of _ j] split: if_splits)
    qed
    moreover have "sm_lookup m' v = None"
    proof -
      have "length (filter (\<lambda>s. s v \<noteq> None) m) \<le> 1" using assms by (simp add: single_def)
      with n [of v] have "filter (\<lambda>s. s v \<noteq> None) m' = []" by simp
      then show ?thesis by (simp only: sm_lookup_none)
    qed
    ultimately show ?thesis using Inr sm_remove_lookup [OF Inr] by (simp add: forget_def)
  qed
  then show "single (forget v m)" "sm_lookup (forget v m) k = (if k = v then None else sm_lookup m k)" by auto
qed

lemma sm_remove_contains: "sm_remove k m = ok m' \<Longrightarrow> sm_contains m k"
  by (induction m arbitrary: m') (auto simp: sm_contains_def res_simps split: if_splits option.split)

lemma forget_if: "(if sm_contains m v then forget v m else m) = forget v m"
  by (cases "sm_remove v m") (auto simp: forget_def dest: sm_remove_contains)

lemma set_dependents: "set (dependents deps v) = {w. (v, w) \<in> set deps}"
  by (force simp: dependents_def)

definition reaches :: "(expr \<times> expr) list \<Rightarrow> expr list \<Rightarrow> expr set" where
  "reaches deps q = (set deps)\<^sup>* `` set q"

lemma reaches_step: "reaches deps (v # q) = insert v (reaches deps (q @ dependents deps v))"
  by (auto simp: reaches_def set_dependents elim: converse_rtranclE intro: converse_rtrancl_into_rtrancl)

lemma invalidate_reaches:
  assumes "wf ((set deps)\<inverse>)" "single m"
  shows "\<exists>m'. invalidate deps q m = Some m' \<and> single m' \<and>
    (\<forall>k. sm_lookup m' k = (if k \<in> reaches deps q then None else sm_lookup m k))"
  using assms(2)
proof (induction "mset q" arbitrary: q m rule: wf_induct_rule [OF wf_mult1 [OF assms(1)]])
  case 1
  show ?case
  proof (cases q)
    case Nil
    with 1 show ?thesis by (simp add: invalidate.simps reaches_def)
  next
    case (Cons v q')
    have "(mset (q' @ dependents deps v), mset q) \<in> mult1 ((set deps)\<inverse>)"
      by (rule mult1I [of _ v "mset q'" _ "mset (dependents deps v)"]) (auto simp: Cons set_dependents)
    from 1(1) [OF this forget(1) [OF 1(2)]] obtain m' where
      m': "invalidate deps (q' @ dependents deps v) (forget v m) = Some m'" "single m'"
        "\<forall>k. sm_lookup m' k = (if k \<in> reaches deps (q' @ dependents deps v) then None else sm_lookup (forget v m) k)"
      by blast
    have "invalidate deps q m = Some m'"
      by (subst invalidate.simps) (simp add: Cons forget_if m'(1))
    moreover have "\<forall>k. sm_lookup m' k = (if k \<in> reaches deps q then None else sm_lookup m k)"
      using m'(3) by (simp add: Cons reaches_step forget(2) [OF 1(2)])
    ultimately show ?thesis using m'(2) by blast
  qed
qed

text \<open>(C24) When the recorded dependencies are not circular and no variable is bound in two scopes, the work list of an assignment is worked off, and
  exactly the replacements of the assigned variable and of the variables that depend on it, directly or
  through others, are forgotten.\<close>

theorem invalidate_forgets_dependents:
  assumes "acyclic (set deps)" "single m"
  shows "\<exists>m'. invalidate deps [v] m = Some m' \<and>
    (\<forall>k. sm_lookup m' k = (if (v, k) \<in> (set deps)\<^sup>* then None else sm_lookup m k))"
proof -
  have "wf ((set deps)\<inverse>)" using assms(1) by (simp add: finite_acyclic_wf_converse)
  from invalidate_reaches [OF this assms(2), of "[v]"] show ?thesis by (auto simp: reaches_def)
qed

text \<open>The example: \<open>int b = a; int c = b;\<close> and an unrelated \<open>int d = e;\<close>, then an assignment to \<open>a\<close>.\<close>

definition copy_var :: "nat \<Rightarrow> expr" where
  "copy_var a = Var a ''v'' Int32 False False False"

definition example_deps :: "(expr \<times> expr) list" where
  "example_deps = [(copy_var 1, copy_var 2), (copy_var 2, copy_var 3), (copy_var 5, copy_var 4)]"

definition example_copies :: "(expr, expr \<times> stmt) scoped_map" where
  "example_copies = [\<lambda>_. None, \<lambda>v. if v = copy_var 2 then Some (copy_var 1, BlankLine)
     else if v = copy_var 3 then Some (copy_var 1, BlankLine)
     else if v = copy_var 4 then Some (copy_var 5, BlankLine) else None]"

lemma invalidate_forgets_dependents_witness:
  "\<exists>m'. invalidate example_deps [copy_var 1] example_copies = Some m' \<and> sm_lookup m' (copy_var 3) = None \<and>
    sm_lookup m' (copy_var 4) = Some (copy_var 5, BlankLine)"
proof -
  define f where "f = (\<lambda>e. case e of Var a n t p ts m \<Rightarrow> if a = 5 then 3 else a | _ \<Rightarrow> 0)"
  have "set example_deps \<subseteq> measure f"
    by (auto simp: example_deps_def copy_var_def f_def)
  moreover have "acyclic (measure f)" by (simp add: wf_acyclic)
  ultimately have ac: "acyclic (set example_deps)" using acyclic_subset by blast
  have "single example_copies" by (simp add: single_def example_copies_def)
  from invalidate_forgets_dependents [OF ac this, of "copy_var 1"] obtain m' where
    m': "invalidate example_deps [copy_var 1] example_copies = Some m'"
      "\<And>k. sm_lookup m' k = (if (copy_var 1, k) \<in> (set example_deps)\<^sup>* then None else sm_lookup example_copies k)"
    by blast
  have r: "(copy_var 1, copy_var 3) \<in> (set example_deps)\<^sup>*"
    by (rule rtrancl_trans [of _ "copy_var 2"]) (auto simp: example_deps_def)
  have "(copy_var 1, k) \<in> (set example_deps)\<^sup>* \<Longrightarrow> k \<in> {copy_var 1, copy_var 2, copy_var 3}" for k
    by (induction rule: rtrancl_induct) (auto simp: example_deps_def copy_var_def)
  then have n: "(copy_var 1, copy_var 4) \<notin> (set example_deps)\<^sup>*" by (force simp: copy_var_def)
  show ?thesis using m'(1) r n
    by (auto simp: m'(2)) (simp add: example_copies_def copy_var_def)
qed

subsection \<open>Copies of variables a loop changes\<close>

text \<open>A copy is propagated into a loop that changes the copied variable: only the declared variable has
  to be independent of loops. In \<open>int a = 0; int b = a; int x = 0; while (a < 2) { x = b; a = a + 1; }
  out = x;\<close> the assignment in the loop becomes \<open>x = a\<close>, so that 1 is written instead of 0.\<close>

definition copy_lit :: "component_union \<Rightarrow> expr" where
  "copy_lit n = Literal Int32 n"

definition copied_into_loop :: stmt where
  "copied_into_loop = Scope (Block
     [VarDecl (copy_var 1) (copy_lit 0), VarDecl (copy_var 2) (copy_var 1), VarDecl (copy_var 3) (copy_lit 0),
      While (Binary OpLt Bool (copy_var 1) (copy_lit 2))
        (Scope (Block [Assign (copy_var 3) (copy_var 2) False NotParallel,
           Assign (copy_var 1) (Binary OpAdd Int32 (copy_var 1) (copy_lit 1)) False NotParallel])) Serial 0,
      Assign (copy_var 4) (copy_var 3) False NotParallel])"

definition copy_start :: state where
  "copy_start = \<lparr>scalars = \<lambda>_. None, arrays = \<lambda>_. None, ext_calls = \<lambda>_ _. err TypeError\<rparr>"

definition copy_builder :: builder where
  "copy_builder = \<lparr>next_addr = 10, num_vars_cached = 0\<rparr>"

theorem simplify_stmt_copy_into_loop:
  "\<exists>s' b' t1 t2. simplify_stmt fpu_null copied_into_loop copy_builder = ok (s', b') \<and>
    exec fpu_null copied_into_loop copy_start Fall t1 \<and> scalars t1 (LVar 4) = Some 0 \<and>
    exec fpu_null s' copy_start Fall t2 \<and> scalars t2 (LVar 4) = Some 1"
proof -
  let ?r = "simplify_stmt fpu_null copied_into_loop copy_builder"
  have "bindR ?r (\<lambda>(s', b'). run_reads 20 fpu_null s' copy_start (LVar 4)) = ok (Some 1)" by code_simp
  then obtain s' b' where s': "?r = ok (s', b')" "run_reads 20 fpu_null s' copy_start (LVar 4) = ok (Some 1)"
    by (cases ?r) auto
  have "run_reads 20 fpu_null copied_into_loop copy_start (LVar 4) = ok (Some 0)" by code_simp
  from run_reads_exec [OF this] run_reads_exec [OF s'(2)] s'(1) show ?thesis by blast
qed

subsection \<open>Replacing variables in an expression\<close>

fun subst :: "(expr \<Rightarrow> expr) \<Rightarrow> expr \<Rightarrow> expr" where
  "subst \<sigma> (Literal t v) = Literal t v"
| "subst \<sigma> (Var ad n t p ts m) = \<sigma> (Var ad n t p ts m)"
| "subst \<sigma> (Unary op t a) = Unary op t (subst \<sigma> a)"
| "subst \<sigma> (Binary op t a b) = Binary op t (subst \<sigma> a) (subst \<sigma> b)"
| "subst \<sigma> (Nary op t es) = Nary op t (map (subst \<sigma>) es)"
| "subst \<sigma> (Cast t a) = Cast t (subst \<sigma> a)"
| "subst \<sigma> (Call t f es) = Call t f (map (subst \<sigma>) es)"
| "subst \<sigma> (Load t arr loc) = Load t (subst \<sigma> arr) (subst \<sigma> loc)"
| "subst \<sigma> (Malloc t e) = Malloc t (subst \<sigma> e)"
| "subst \<sigma> (Sizeof t ty) = Sizeof t ty"
| "subst \<sigma> (GetProperty ad t tensor pr mode ix nm) = GetProperty ad t (subst \<sigma> tensor) pr mode ix nm"

text \<open>The replacements are valid in a state: a variable is replaced by another of its integer type that has its
  value, and names neither an array nor a tensor.\<close>

definition plain_scalar :: "state \<Rightarrow> expr \<Rightarrow> bool" where
  "plain_scalar s v \<longleftrightarrow> (\<forall>a. location_of v = Some (LVar a) \<longrightarrow> arrays s (LVar a) = None \<and>
     (\<forall>p m i. arrays s (LProp a p m i) = None \<and> scalars s (LProp a p m i) = None))"

definition replaces :: "(expr \<Rightarrow> expr) \<Rightarrow> bool" where
  "replaces \<sigma> \<longleftrightarrow> (\<forall>v. isVar v \<longrightarrow> \<sigma> v = v \<or> isVar (\<sigma> v) \<and> etype (\<sigma> v) = etype v \<and> isInt (etype v))"

definition valid_copies :: "fpu \<Rightarrow> state \<Rightarrow> (expr \<Rightarrow> expr) \<Rightarrow> bool" where
  "valid_copies F s \<sigma> \<longleftrightarrow> replaces \<sigma> \<and>
     (\<forall>v. isVar v \<and> \<sigma> v \<noteq> v \<longrightarrow> plain_scalar s v \<and> (\<forall>x. eval F s v = ok x \<longrightarrow> eval F s (\<sigma> v) = ok x))"

lemma replaces_var:
  assumes "replaces \<sigma>"
  shows "isVar (\<sigma> (Var ad n t p ts m)) \<and> etype (\<sigma> (Var ad n t p ts m)) = t \<and>
    (\<not> isInt t \<longrightarrow> \<sigma> (Var ad n t p ts m) = Var ad n t p ts m)"
  using assms [unfolded replaces_def, rule_format, of "Var ad n t p ts m"] by auto

lemma subst_good:
  assumes "replaces \<sigma>" "good F e"
  shows "etype (subst \<sigma> e) = etype e \<and> good F (subst \<sigma> e) \<and> (isVar e \<longrightarrow> isVar (subst \<sigma> e)) \<and>
    (\<not> isInt (etype e) \<longrightarrow> (isVar e \<longrightarrow> subst \<sigma> e = e) \<and> (inert F e \<longrightarrow> inert F (subst \<sigma> e)))"
  using assms(2)
proof (induction e)
  case (Var ad n t p ts m)
  with replaces_var [OF assms(1), of ad n t p ts m] show ?case by (auto simp: isVar_good)
next
  case (Binary op t a b)
  then have ab: "etype (subst \<sigma> a) = etype a" "etype (subst \<sigma> b) = etype b" "good F (subst \<sigma> a)" "good F (subst \<sigma> b)" by auto
  have nb: "no_bool_operand op e \<Longrightarrow> etype (subst \<sigma> e) = etype e \<Longrightarrow>
    (\<not> isInt (etype e) \<longrightarrow> (isVar e \<longrightarrow> subst \<sigma> e = e)) \<Longrightarrow> no_bool_operand op (subst \<sigma> e)" for e
    by (auto simp: no_bool_operand_def isBool_def isInt_def dest: ptr_isVar)
  have "binary_ok F op t (subst \<sigma> a) (subst \<sigma> b)"
    using Binary nb [of a] nb [of b] ab
    by (auto simp: binary_ok_def kind_preds split: if_splits)
  with ab show ?case by simp
qed (simp_all add: isVar_def)

text \<open>Arrays and properties are read at the location of the unchanged variable.\<close>

lemma subst_location:
  assumes "valid_copies F s \<sigma>" "location_of e = Some l"
    "arrays s l \<noteq> None \<or> (\<exists>ad t x pr mode ix nm. e = GetProperty ad t x pr mode ix nm \<and> scalars s l \<noteq> None)"
  shows "location_of (subst \<sigma> e) = Some l"
proof -
  have plain: "plain_scalar s v" if "isVar v" "\<sigma> v \<noteq> v" for v
    using assms(1) that by (simp add: valid_copies_def)
  show ?thesis
  proof (cases e rule: location_of.cases)
    case (1 a n t p ts m)
    then have "\<sigma> e = e" using plain [of e] assms(2,3) by (cases "\<sigma> e = e") (auto simp: plain_scalar_def)
    with 1 assms(2) show ?thesis by simp
  next
    case (2 ad t a n vt p ts m pr mode ix nm)
    then have "\<sigma> (Var a n vt p ts m) = Var a n vt p ts m"
      using plain [of "Var a n vt p ts m"] assms(2,3)
      by (cases "\<sigma> (Var a n vt p ts m) = Var a n vt p ts m") (auto simp: plain_scalar_def)
    with 2 assms(2) show ?thesis by simp
  qed (use assms(2) in auto)
qed

lemma subst_eval:
  assumes "valid_copies F s \<sigma>" "good F e" "eval F s e = ok x"
  shows "eval F s (subst \<sigma> e) = ok x"
proof -
  have rp: "replaces \<sigma>" using assms(1) by (simp add: valid_copies_def)
  note ty = subst_good [OF rp, of F, THEN conjunct1]
  show ?thesis using assms(2,3)
  proof (induction e arbitrary: x)
    case (Var ad n t p ts m)
    have "isVar (Var ad n t p ts m)" by simp
    with Var assms(1) show ?case by (cases "\<sigma> (Var ad n t p ts m) = Var ad n t p ts m") (auto simp: valid_copies_def)
  next
    case (Unary op t a)
    then show ?case using ty [of a] by (auto simp: res_simps)
  next
    case (Binary op t a b)
    then have "etype (subst \<sigma> a) = etype a" "etype (subst \<sigma> b) = etype b" using ty by auto
    with Binary show ?case by (cases "eval F s a"; cases "eval F s b") (auto split: if_splits)
  next
    case (Nary op t es)
    have "mapR (\<lambda>e. bindR (eval F s e) (\<lambda>x. ok (convert F (etype e) t x))) es = ok xs \<Longrightarrow>
      mapR (\<lambda>e. bindR (eval F s e) (\<lambda>x. ok (convert F (etype e) t x))) (map (subst \<sigma>) es) = ok xs" for xs
      by (rule mapR_mono) (use Nary ty in \<open>auto simp: list_all2_conv_all_nth res_simps\<close>)
    with Nary show ?case by (auto simp: res_simps)
  next
    case (Cast t a)
    then show ?case using ty [of a] by (auto simp: res_simps)
  next
    case (Call t f es)
    have "mapR (eval F s) es = ok xs \<Longrightarrow> mapR (eval F s) (map (subst \<sigma>) es) = ok xs" for xs
      by (rule mapR_mono) (use Call in \<open>auto simp: list_all2_conv_all_nth\<close>)
    with Call show ?case by (auto simp: res_simps)
  next
    case (Load t arr loc)
    then obtain i where i: "eval F s loc = ok i" "typed t (read_array s arr i) = ok x" by (auto simp: res_simps)
    then obtain l where l: "location_of arr = Some l" "arrays s l \<noteq> None"
      by (auto simp: typed_def read_array_def res_simps split: option.splits)
    from subst_location [OF assms(1) l(1)] l(2) have "location_of (subst \<sigma> arr) = Some l" by blast
    with i l have "typed t (read_array s (subst \<sigma> arr) i) = ok x" by (simp add: read_array_def)
    with Load i show ?case by simp
  next
    case (GetProperty ad t tensor pr mode ix nm)
    let ?g = "GetProperty ad t tensor pr mode ix nm"
    from GetProperty.prems(2) obtain l where l: "location_of ?g = Some l" "scalars s l \<noteq> None"
      by (auto simp: typed_def read_scalar_def res_simps split: option.splits if_splits)
    from subst_location [OF assms(1) l(1)] l(2) have "location_of (subst \<sigma> ?g) = Some l" by blast
    with l GetProperty.prems(2) show ?case by (auto simp: read_scalar_def)
  qed simp_all
qed

text \<open>The simplifier with replacements simplifies the substituted expression.\<close>

lemma mapR_simplify_var_sound:
  assumes "mapR (simplify_var \<sigma> F) es = ok es'"
    "\<And>e e'. e \<in> set es \<Longrightarrow> simplify_var \<sigma> F e = ok e' \<Longrightarrow> sound F (subst \<sigma> e) e'"
  shows "list_all2 (sound F) (map (subst \<sigma>) es) es'"
  using assms(1) unfolding mapR_eq_Inr list.rel_map
  by (rule list.rel_mono_strong) (use assms(2) in auto)

lemma simplify_var_location:
  assumes "replaces \<sigma>" "simplify_var \<sigma> F e = ok e'" "location_of (subst \<sigma> e) = Some l"
  shows "location_of e' = Some l"
proof (cases e)
  case (GetProperty ad t tensor pr mode ix nm)
  with assms obtain tensor' u where t': "simplify_var \<sigma> F tensor = ok tensor'"
    "e' = GetProperty ad u tensor' pr mode ix nm"
    by (auto simp: res_simps GetProperty_make5_def split: if_splits)
  from assms(3) GetProperty have "isVar (subst \<sigma> tensor)"
    by (cases "subst \<sigma> tensor") auto
  then have "isVar tensor" by (cases tensor) (auto simp: isVar_def)
  then have "tensor' = subst \<sigma> tensor" using t'(1) by (cases tensor) (auto simp: isVar_def)
  with assms(3) GetProperty t'(2) show ?thesis by (cases "subst \<sigma> tensor") auto
qed (use assms in auto)

lemma simplify_var_sound:
  assumes "replaces \<sigma>" "simplify_var \<sigma> F e = ok e'" "good F e"
  shows "sound F (subst \<sigma> e) e'"
  using assms(2,3)
proof (induction e arbitrary: e')
  case (Var ad n t p ts m)
  with replaces_var [OF assms(1), of ad n t p ts m] show ?case by (auto simp: sound_refl isVar_good)
next
  case (Unary op t a)
  then obtain a' where a': "simplify_var \<sigma> F a = ok a'" "good F a" "t = etype a"
    and e': "e' = (if a' = a then Unary op t a else Unary_make op a')"
    by (auto simp: res_simps)
  have s: "sound F (subst \<sigma> a) a'" using Unary.IH a' by blast
  have t: "t = etype (subst \<sigma> a)" using subst_good [OF assms(1) a'(2)] a'(3) by simp
  have "e' = Unary op t a'" using e' t soundD(1) [OF s] by (cases op) (auto simp: makes)
  with sound_Unary [OF t s] show ?case by simp
next
  case (Binary op t a b)
  then obtain a' b' r where a': "simplify_var \<sigma> F a = ok a'" and b': "simplify_var \<sigma> F b = ok b'"
    and r: "simp_binary F op (Binary op t a b) a b a' b' = ok r"
    and e': "(case r of Done e \<Rightarrow> ok e | Again e \<Rightarrow> simplify F e) = ok e'"
    by (auto simp: res_simps)
  have "good F (subst \<sigma> (Binary op t a b))" using subst_good [OF assms(1) Binary.prems(2)] by blast
  then have s: "sound F (subst \<sigma> (Binary op t a b)) (Binary op t a' b')"
    using sound_Binary Binary.prems(2) Binary.IH(1) [OF a'] Binary.IH(2) [OF b'] by simp
  from sound_simp_binary [OF soundD(2) [OF s] r] have "sound F (Binary op t a' b') (step_expr r)" by simp
  with s have sr: "sound F (subst \<sigma> (Binary op t a b)) (step_expr r)" by (rule sound_trans)
  show ?case
  proof (cases r)
    case (Again e)
    with e' sr simplify_sound [of F e e'] show ?thesis by (auto simp: sound_def)
  qed (use sr e' in simp)
next
  case (Nary op t es)
  then obtain es' where es': "mapR (simplify_var \<sigma> F) es = ok es'"
    and e': "(if es' = es then ok (Nary op t es) else Nary_make op es') = ok e'"
    by (auto simp: res_simps)
  have "good F (subst \<sigma> (Nary op t es))" using subst_good [OF assms(1) Nary.prems(2)] by blast
  then have s: "sound F (subst \<sigma> (Nary op t es)) (Nary op t es')"
    using sound_Nary mapR_simplify_var_sound [OF es'] Nary by simp
  have "\<forall>x \<in> set es'. etype x = t" using soundD(2) [OF s] by simp
  with e' have "e' = Nary op t es'" by (auto split: if_splits dest: Nary_make_same)
  with s show ?case by simp
next
  case (Cast t a)
  then obtain a' where a': "simplify_var \<sigma> F a = ok a'" "simp_Cast F (Cast t a) t a a' = ok e'"
    by (auto simp: res_simps)
  have s: "sound F (subst \<sigma> a) a'" using Cast a' by simp
  from a'(2) have "a' = a \<Longrightarrow> Cast t a = Cast t a'" by simp
  with sound_simp_Cast [OF soundD(2) [OF s] a'(2)] have "sound F (Cast t a') e'" .
  with sound_Cast [OF s] show ?case by (auto intro: sound_trans)
next
  case (Call t f es)
  then obtain es' where es': "mapR (simplify_var \<sigma> F) es = ok es'" and e': "e' = Call t f es'"
    by (auto simp: res_simps Call_make_def split: if_splits)
  have "good F (subst \<sigma> (Call t f es))" using subst_good [OF assms(1) Call.prems(2)] by blast
  with e' show ?case using sound_Call mapR_simplify_var_sound [OF es'] Call by simp
next
  case (Load t arr loc)
  then obtain arr' loc' where al: "simplify_var \<sigma> F arr = ok arr'" "simplify_var \<sigma> F loc = ok loc'"
    and e': "(if arr' = arr \<and> loc' = loc then ok (Load t arr loc) else Load_make arr' loc') = ok e'"
    by (auto simp: res_simps)
  have s: "sound F (subst \<sigma> arr) arr'" "sound F (subst \<sigma> loc) loc'" using Load al by auto
  have g: "good F (Load t (subst \<sigma> arr) (subst \<sigma> loc))" using subst_good [OF assms(1) Load.prems(2)] by simp
  have e: "e' = Load t arr' loc'"
    using e' g soundD(1) [OF s(1)] by (auto simp: Load_make_def res_simps split: if_splits)
  have "read_array st (subst \<sigma> arr) i = ok v \<Longrightarrow> read_array st arr' i = ok v" for st i v
    using simplify_var_location [OF assms(1) al(1)] by (auto simp: read_array_def split: option.splits)
  then show ?case
    using e g soundD(1,2,5) [OF s(1)] soundD(1,2,5) [OF s(2)]
    by (auto simp: sound_def isVar_def res_simps typed_def)
next
  case (Malloc t a)
  then obtain a' where a': "simplify_var \<sigma> F a = ok a'" "e' = Malloc t a'"
    by (auto simp: res_simps Malloc_make_def)
  with Malloc have "sound F (subst \<sigma> a) a'" by simp
  with a' Malloc.prems(2) show ?case by (auto simp: sound_def isVar_def)
next
  case (GetProperty ad t tensor pr mode ix nm)
  then obtain tensor' where t': "simplify_var \<sigma> F tensor = ok tensor'"
    and e': "e' = (if tensor' = tensor then GetProperty ad t tensor pr mode ix nm
      else GetProperty_make5 ad tensor' pr mode ix nm)"
    by (auto simp: res_simps)
  have s: "sound F (subst \<sigma> tensor) tensor'" using GetProperty t' by simp
  have g: "good F (GetProperty ad t (subst \<sigma> tensor) pr mode ix nm)"
    using subst_good [OF assms(1) GetProperty.prems(2)] by simp
  have e: "e' = GetProperty ad t tensor' pr mode ix nm"
    using e' g soundD(1) [OF s] by (auto simp: GetProperty_make5_def)
  have "read_scalar st (subst \<sigma> (GetProperty ad t tensor pr mode ix nm)) = ok v \<Longrightarrow> read_scalar st e' = ok v" for st v
    using simplify_var_location [OF assms(1) GetProperty.prems(1)]
    by (auto simp: read_scalar_def split: option.splits)
  with e g soundD(1,2) [OF s] show ?case
    by (auto simp: sound_def isVar_def res_simps typed_def)
qed (simp_all add: sound_refl)


text \<open>In \<open>(b + 2) * a\<close>, the variable \<open>b\<close> is a copy of \<open>a\<close>.\<close>

definition example_sigma :: "expr \<Rightarrow> expr" where
  "example_sigma v = (if v = copy_var 2 then copy_var 1 else v)"

definition example_product :: expr where
  "example_product = Binary OpMul Int32 (Binary OpAdd Int32 (copy_var 2) (copy_lit 2)) (copy_var 1)"

definition example_copied :: state where
  "example_copied = copy_start\<lparr>scalars := \<lambda>l. case l of LVar _ \<Rightarrow> Some 3 | _ \<Rightarrow> None\<rparr>"


end
