(* ===== verification/Redundant_Loops.thy ===== *)
theory Redundant_Loops
  imports Simplify_Stmt Stmt_Sound
begin

text \<open>
  The elimination of loops that only increment variables: the statement that replaces a counting loop has
  every execution of the loop, wrap-around included, and the cases in which it does not.
\<close>

subsection \<open>Straight-line bodies\<close>

fun assigns :: "stmt \<Rightarrow> (expr \<times> expr) list" where
  "assigns (Block ss) = concat (map assigns ss)"
| "assigns (Scope s) = assigns s"
| "assigns (Assign l r at pu) = [(l, r)]"
| "assigns _ = []"

fun straight :: "stmt \<Rightarrow> bool" where
  "straight (Block ss) \<longleftrightarrow> (\<forall>s \<in> set ss. straight s)"
| "straight (Scope s) \<longleftrightarrow> straight s"
| "straight (Assign l r at pu) \<longleftrightarrow> True"
| "straight _ \<longleftrightarrow> False"

fun assign_all :: "fpu \<Rightarrow> (expr \<times> expr) list \<Rightarrow> state \<Rightarrow> state res" where
  "assign_all F [] s = ok s"
| "assign_all F ((l, r) # as) s = bindR (assign F l r s) (assign_all F as)"

lemma assign_all_append: "assign_all F (xs @ ys) s = bindR (assign_all F xs s) (assign_all F ys)"
proof (induction xs arbitrary: s)
  case (Cons x xs)
  obtain l r where x: "x = (l, r)" by force
  show ?case
    by (cases "assign F l r s") (simp_all add: x Cons.IH)
qed simp

lemma execs_straight:
  assumes "\<And>b st fl st'. b \<in> set ss \<Longrightarrow> exec F b st fl st' \<longleftrightarrow> fl = Fall \<and> assign_all F (assigns b) st = ok st'"
  shows "execs F ss st fl st' \<longleftrightarrow> fl = Fall \<and> assign_all F (concat (map assigns ss)) st = ok st'"
  using assms
proof (induction ss arbitrary: st)
  case (Cons b ss)
  then have "execs F ss st1 fl st' \<longleftrightarrow> fl = Fall \<and> assign_all F (concat (map assigns ss)) st1 = ok st'" for st1
    by simp
  then show ?case using Cons.prems by (auto simp: execs_simps assign_all_append res_simps)
qed (auto simp: execs_simps)

lemma exec_straight:
  "straight b \<Longrightarrow> exec F b st fl st' \<longleftrightarrow> fl = Fall \<and> assign_all F (assigns b) st = ok st'"
proof (induction b arbitrary: st fl st' rule: straight.induct)
  case (1 ss)
  have "execs F ss st fl st' \<longleftrightarrow> fl = Fall \<and> assign_all F (concat (map assigns ss)) st = ok st'"
    by (rule execs_straight) (use 1 in auto)
  then show ?case by (simp add: exec_simps)
qed (auto simp: exec_simps res_simps)

lemma assigns_Block_make [simp]: "assigns (Block_make (map Some ss)) = concat (map assigns ss)"
proof -
  have "concat (map assigns (filter (\<lambda>s. s \<noteq> Block []) ss)) = concat (map assigns ss)"
    by (induction ss) auto
  then show ?thesis by (simp add: Block_make_Some)
qed

lemma straight_Block_make [simp]: "straight (Block_make (map Some ss)) \<longleftrightarrow> (\<forall>s \<in> set ss. straight s)"
  by (auto simp: Block_make_Some)

lemma Scope_make_simps [simp]:
  "assigns (Scope_make s) = assigns s" "straight (Scope_make s) = straight s"
  by (cases s; simp add: Scope_make_def)+

text \<open>What \<open>DuplicateBody\<close> does to an assignment.\<close>

definition duplicated :: "fpu \<Rightarrow> expr \<Rightarrow> expr \<times> expr \<Rightarrow> expr \<times> expr \<Rightarrow> bool" where
  "duplicated F n = (\<lambda>(l, r) (l', r'). l' = l \<and>
     (is_literal r \<and> r' = r \<or>
      (\<exists>t u v m i. r = Binary OpAdd t l (Literal u v) \<and> Mul_make n (Literal u v) = ok m \<and>
        simplify F m = ok i \<and> Add_make l i = ok r')))"

lemma duplicate_body_straight:
  "duplicate_body F n s = ok (Some s') \<Longrightarrow>
     straight s \<and> straight s' \<and> list_all2 (duplicated F n) (assigns s) (assigns s')"
  "duplicate_bodies F n ss = ok (Some ss') \<Longrightarrow>
     (\<forall>s \<in> set ss. straight s) \<and> (\<forall>s \<in> set ss'. straight s) \<and>
     list_all2 (duplicated F n) (concat (map assigns ss)) (concat (map assigns ss'))"
proof (induction F n s and F n ss arbitrary: s' and ss' rule: duplicate_body_duplicate_bodies.induct)
  case (3 F n l r at pu)
  then show ?case
    by (auto simp: res_simps duplicated_def is_literal_def Assign_make_def
        split: if_splits option.splits expr.splits)
qed (auto simp: res_simps list_all2_appendI split: option.splits)

subsection \<open>The effect of several iterations\<close>

text \<open>A body the elimination is right for, with a counter of type \<open>t\<close>: it assigns literals and adds literals
  of type \<open>t\<close>, each to a location of its own.\<close>

definition steps_by :: "Datatype \<Rightarrow> expr \<Rightarrow> expr \<Rightarrow> bool" where
  "steps_by t l r = (case r of
     Literal u v \<Rightarrow> True
   | Binary op u a (Literal w v) \<Rightarrow> op = OpAdd \<and> u = t \<and> w = t \<and> a = l \<and> etype l = t
   | _ \<Rightarrow> False)"

definition step_of :: "expr \<Rightarrow> int option" where
  "step_of r = (case r of Binary op u a (Literal w v) \<Rightarrow> Some (member_get w v) | _ \<Rightarrow> None)"

definition lit_of :: "expr \<Rightarrow> int" where
  "lit_of r = (case r of Literal u v \<Rightarrow> member_get u v | _ \<Rightarrow> 0)"

text \<open>The value of a location after \<open>n\<close> iterations.\<close>

definition value_after :: "fpu \<Rightarrow> Datatype \<Rightarrow> int \<Rightarrow> expr \<Rightarrow> expr \<Rightarrow> int option \<Rightarrow> int option" where
  "value_after F t n l r x = (case step_of r of
     None \<Rightarrow> Some (convert F (etype r) (etype l) (lit_of r))
   | Some k \<Rightarrow> map_option (\<lambda>y. conv t (y + n * k)) x)"

fun after :: "fpu \<Rightarrow> Datatype \<Rightarrow> int \<Rightarrow> (expr \<times> expr) list \<Rightarrow> (location \<Rightarrow> int option) \<Rightarrow> location \<Rightarrow> int option" where
  "after F t n [] sc = sc"
| "after F t n ((l, r) # as) sc = (\<lambda>k. if location_of l = Some k then value_after F t n l r (sc k) else after F t n as sc k)"

definition targets :: "(expr \<times> expr) list \<Rightarrow> location option set" where
  "targets as = location_of ` fst ` set as"

lemma targets_simps [simp]: "targets [] = {}" "targets ((l, r) # as) = insert (location_of l) (targets as)"
  by (auto simp: targets_def)

lemma after_other: "Some k \<notin> targets as \<Longrightarrow> after F t n as sc k = sc k"
  by (induction as) auto

lemma after_cong: "(\<And>k. Some k \<in> targets as \<Longrightarrow> sc k = sc' k) \<Longrightarrow> Some k \<in> targets as \<Longrightarrow> after F t n as sc k = after F t n as sc' k"
  by (induction as) auto

lemma conv_add_mult: "isIntegral t \<Longrightarrow> conv t (conv t (y + m * k) + n * k) = conv t (y + (m + n) * k)"
  using conv.cv_add_left [of t "y + m * k" "n * k"] by (simp add: algebra_simps)

lemma after_after:
  assumes "isIntegral t" "distinct (map (location_of \<circ> fst) as)"
  shows "after F t n as (after F t m as sc) = after F t (m + n) as sc"
proof
  fix k
  show "after F t n as (after F t m as sc) k = after F t (m + n) as sc k"
    using assms(2)
  proof (induction as)
    case (Cons x as)
    obtain l r where x: "x = (l, r)" by force
    show ?case
    proof (cases "location_of l = Some k")
      case True
      then show ?thesis
        using conv_add_mult [OF assms(1)] by (cases "sc k") (auto simp: x value_after_def split: option.split)
    next
      case False
      have "after F t n as (after F t m (x # as) sc) k = after F t n as (after F t m as sc) k"
      proof (cases "Some k \<in> targets as")
        case True
        have "location_of l \<notin> targets as" using Cons.prems by (simp add: x targets_def image_comp)
        then have "after F t m (x # as) sc j = after F t m as sc j" if "Some j \<in> targets as" for j
          using that by (auto simp: x)
        from after_cong [OF this True] show ?thesis .
      qed (use False in \<open>simp add: after_other x\<close>)
      with False Cons show ?thesis by (simp add: x)
    qed
  qed simp
qed

text \<open>One execution of the body, and one of the duplicated body, against \<open>after\<close>.\<close>

definition body_ok :: "Datatype \<Rightarrow> (expr \<times> expr) list \<Rightarrow> bool" where
  "body_ok t as \<longleftrightarrow> distinct (map (location_of \<circ> fst) as) \<and> (\<forall>(l, r) \<in> set as. steps_by t l r)"

lemma body_ok_Cons: "body_ok t ((l, r) # as) \<longleftrightarrow> location_of l \<notin> targets as \<and> steps_by t l r \<and> body_ok t as"
  by (auto simp: body_ok_def targets_def image_comp)

lemma location_of_eval:
  assumes "location_of l = Some k" "eval F s l = ok x"
  shows "\<exists>y. scalars s k = Some y \<and> x = conv (etype l) y"
  using assms by (cases l) (auto simp: typed_def read_scalar_def res_simps split: if_splits option.splits)

lemma eval_location:
  assumes "location_of l = Some k" "scalars s k = scalars s' k" shows "eval F s l = eval F s' l"
  using assms by (cases l) (auto simp: typed_def read_scalar_def)

lemma assign_step:
  assumes "assign F l r s = ok s'" "steps_by t l r" "isIntegral t"
  shows "\<exists>k y. location_of l = Some k \<and> value_after F t 1 l r (scalars s k) = Some y \<and> s' = set_scalar k y s \<and>
    (step_of r \<noteq> None \<longrightarrow> (\<exists>z. eval F s l = ok z))"
proof -
  from assms(1) obtain k x where k: "location_of l = Some k" "eval F s r = ok x"
    "s' = set_scalar k (convert F (etype r) (etype l) x) s"
    by (auto simp: assign_def res_simps split: option.splits)
  show ?thesis
  proof (cases "\<exists>u v. r = Literal u v")
    case True
    with k show ?thesis by (auto simp: value_after_def step_of_def lit_of_def)
  next
    case False
    with assms(2) obtain v where r: "r = Binary OpAdd t l (Literal t v)" "etype l = t"
      by (auto simp: steps_by_def split: expr.splits)
    with k(2) assms(3) obtain z where z: "eval F s l = ok z" "x = conv t (z + member_get t v)"
      by (auto simp: res_simps binary_value_def is_arith_def arith_def)
    from location_of_eval [OF k(1) z(1)] r(2) obtain y where y: "scalars s k = Some y" "z = conv t y" by auto
    with z r k(1,3) assms(3) show ?thesis
      by (auto simp: value_after_def step_of_def conv.cv_add_left)
  qed
qed

definition readable :: "fpu \<Rightarrow> state \<Rightarrow> (expr \<times> expr) list \<Rightarrow> bool" where
  "readable F s as \<longleftrightarrow>
     (\<forall>(l, r) \<in> set as. \<exists>k. location_of l = Some k \<and> (step_of r \<noteq> None \<longrightarrow> (\<exists>z. eval F s l = ok z)))"

lemma readable_keep:
  assumes "readable F s1 as" "\<And>k. Some k \<in> targets as \<Longrightarrow> scalars s k = scalars s1 k"
  shows "readable F s as"
  unfolding readable_def
proof (clarify)
  fix l r assume m: "(l, r) \<in> set as"
  with assms(1) obtain k where k: "location_of l = Some k" "step_of r \<noteq> None \<longrightarrow> (\<exists>z. eval F s1 l = ok z)"
    unfolding readable_def by blast
  from m k(1) have "Some k \<in> targets as" by (force simp: targets_def)
  from eval_location [OF k(1) assms(2) [OF this]] k
  show "\<exists>k. location_of l = Some k \<and> (step_of r \<noteq> None \<longrightarrow> (\<exists>z. eval F s l = ok z))" by auto
qed

lemma assign_all_after:
  assumes "assign_all F as s = ok s'" "body_ok t as" "isIntegral t"
  shows "s' = s\<lparr>scalars := after F t 1 as (scalars s)\<rparr> \<and> readable F s as"
  using assms
proof (induction as arbitrary: s)
  case (Cons x as)
  obtain l r where x: "x = (l, r)" by force
  from Cons.prems(1) x obtain s1 where s1: "assign F l r s = ok s1" "assign_all F as s1 = ok s'"
    by (auto simp: res_simps)
  from Cons.prems(2) x have b: "location_of l \<notin> targets as" "steps_by t l r" "body_ok t as"
    by (auto simp: body_ok_Cons)
  from assign_step [OF s1(1) b(2) Cons.prems(3)] obtain k y where k: "location_of l = Some k"
    "value_after F t 1 l r (scalars s k) = Some y" "s1 = set_scalar k y s"
    "step_of r \<noteq> None \<longrightarrow> (\<exists>z. eval F s l = ok z)" by blast
  have IH: "s' = s1\<lparr>scalars := after F t 1 as (scalars s1)\<rparr>" "readable F s1 as"
    using Cons.IH [OF s1(2) b(3) Cons.prems(3)] by blast+
  have same: "scalars s j = scalars s1 j" if "Some j \<in> targets as" for j
    using that b(1) k by (auto simp: set_scalar_def)
  have "after F t 1 as (scalars s1) j = after F t 1 (x # as) (scalars s) j" for j
  proof (cases "j = k")
    case True
    with b(1) k show ?thesis by (auto simp: x after_other set_scalar_def)
  next
    case False
    then show ?thesis
      using k b(1) by (cases "Some j \<in> targets as") (auto simp: x after_other set_scalar_def intro!: after_cong)
  qed
  then have "after F t 1 as (scalars s1) = after F t 1 (x # as) (scalars s)" by blast
  moreover have "readable F s as" by (rule readable_keep [OF IH(2) same])
  ultimately show ?case using IH(1) k(1,3,4) by (auto simp: x set_scalar_def readable_def)
qed (simp add: readable_def)

text \<open>The duplicated body runs the iterations at once, when the number \<open>n\<close> of iterations keeps its value.\<close>

definition keeps :: "location option set \<Rightarrow> state \<Rightarrow> state \<Rightarrow> bool" where
  "keeps W s s' \<longleftrightarrow> (\<forall>k. Some k \<notin> W \<longrightarrow> scalars s' k = scalars s k) \<and> arrays s' = arrays s \<and> ext_calls s' = ext_calls s"

lemma duplicated_step:
  assumes "duplicated F n (l, r) (l', r')" "steps_by t l r" "isIntegral t" "good F n" "etype n = t"
    "eval F s n = ok m" "location_of l = Some k" "step_of r \<noteq> None \<longrightarrow> (\<exists>z. eval F s l = ok z)"
  shows "\<exists>y. value_after F t m l r (scalars s k) = Some y \<and> assign F l' r' s = ok (set_scalar k y s)"
proof (cases "is_literal r")
  case True
  with assms(1) have "l' = l" "r' = r" by (auto simp: duplicated_def is_literal_def)
  with True assms(7) show ?thesis
    by (auto simp: is_literal_def assign_def value_after_def step_of_def lit_of_def)
next
  case False
  with assms(1,2) obtain v p i where r: "r = Binary OpAdd t l (Literal t v)" "etype l = t"
    and p: "Mul_make n (Literal t v) = ok p" "simplify F p = ok i" "Add_make l i = ok r'" and l': "l' = l"
    by (auto simp: duplicated_def steps_by_def is_literal_def)
  have pe: "p = Binary OpMul t n (Literal t v)" by (rule Mul_make_same [OF p(1)]) (use assms(5) in auto)
  have "good F p"
    using assms(3-5) integral_defined [OF assms(3)]
    by (simp add: pe binary_ok_arith)
  from simplify_sound [OF p(2) this] have i: "etype i = t" "\<And>x. eval F s p = ok x \<Longrightarrow> eval F s i = ok x"
    by (auto simp: sound_def pe)
  have "eval F s p = ok (conv t (m * member_get t v))"
    using assms(3,5,6) by (simp add: pe binary_value_def is_arith_def arith_def)
  then have i2: "eval F s i = ok (conv t (m * member_get t v))" by (rule i(2))
  have r': "r' = Binary OpAdd t l i" by (rule Add_make_same [OF p(3) r(2) i(1)])
  from assms(8) r obtain z where z: "eval F s l = ok z" by (auto simp: step_of_def)
  from location_of_eval [OF assms(7) z] r(2) obtain y where y: "scalars s k = Some y" "z = conv t y" by auto
  have "eval F s r' = ok (conv t (y + m * member_get t v))"
    using assms(3) r(2) i(1) i2 z y
    by (simp add: r' binary_value_def is_arith_def arith_def conv.cv_add_left conv.cv_add_right)
  then show ?thesis
    using assms(7) r y by (auto simp: r' l' assign_def value_after_def step_of_def)
qed

lemma duplicated_all:
  assumes "list_all2 (duplicated F n) as as'" "body_ok t as" "isIntegral t" "good F n" "etype n = t"
    "targets as \<subseteq> W" "\<And>s'. keeps W s s' \<Longrightarrow> eval F s' n = ok m" "readable F s as"
  shows "assign_all F as' s = ok (s\<lparr>scalars := after F t m as (scalars s)\<rparr>)"
  using assms(1,2,6-8)
proof (induction as as' arbitrary: s rule: list_all2_induct)
  case (Cons x as x' as')
  obtain l r l' r' where x: "x = (l, r)" "x' = (l', r')" by force
  have b: "location_of l \<notin> targets as" "steps_by t l r" "body_ok t as"
    using Cons.prems(1) by (auto simp: x body_ok_Cons)
  from Cons.prems(4) obtain k where k: "location_of l = Some k" "step_of r \<noteq> None \<longrightarrow> (\<exists>z. eval F s l = ok z)"
    by (auto simp: x readable_def)
  have n: "eval F s n = ok m" by (rule Cons.prems(3)) (simp add: keeps_def)
  from duplicated_step [OF _ b(2) assms(3-5) n k] Cons.hyps(1) obtain y where
    y: "value_after F t m l r (scalars s k) = Some y" "assign F l' r' s = ok (set_scalar k y s)"
    by (auto simp: x)
  have same: "scalars (set_scalar k y s) j = scalars s j" if "Some j \<in> targets as" for j
    using that b(1) k by (auto simp: set_scalar_def)
  have "assign_all F as' (set_scalar k y s) =
    ok ((set_scalar k y s)\<lparr>scalars := after F t m as (scalars (set_scalar k y s))\<rparr>)"
  proof (rule Cons.IH [OF b(3)])
    show "targets as \<subseteq> W" using Cons.prems(2) by (simp add: x)
    show "eval F s' n = ok m" if "keeps W (set_scalar k y s) s'" for s'
      using that Cons.prems(2) k by (intro Cons.prems(3)) (auto simp: x keeps_def set_scalar_def)
    have "readable F s as" using Cons.prems(4) by (simp add: x readable_def)
    then show "readable F (set_scalar k y s) as" by (rule readable_keep) (rule same)
  qed
  moreover have "after F t m as (scalars (set_scalar k y s)) j = after F t m (x # as) (scalars s) j" for j
  proof (cases "j = k")
    case True
    with b(1) k y show ?thesis by (auto simp: x after_other set_scalar_def)
  next
    case False
    then show ?thesis
      using k b(1) by (cases "Some j \<in> targets as") (auto simp: x after_other set_scalar_def intro!: after_cong)
  qed
  then have "after F t m as (scalars (set_scalar k y s)) = after F t m (x # as) (scalars s)" by blast
  ultimately show ?case using y(2) by (simp add: x set_scalar_def)
qed simp

subsection \<open>The loop\<close>

lemma conv_next:
  assumes "isIntegral t" "conv t x = x" "conv t y = y" "x < y" shows "conv t (x + 1) = x + 1"
proof (cases "isInt t")
  case True
  from conv_range_Int [OF this, of x] conv_range_Int [OF this, of y] assms
  have "- (2 ^ (member_bits t - 1)) \<le> x + 1" "x + 1 < 2 ^ (member_bits t - 1)" by auto
  from wrapS_id [OF member_bits_int [OF True] this] show ?thesis by (simp add: conv_Int [OF True])
next
  case False
  with assms(1) have u: "isUInt t" by (auto simp: isIntegral_def)
  from conv_range_UInt [OF this, of x] conv_range_UInt [OF this, of y] assms
  have "0 \<le> x + 1" "x + 1 < 2 ^ member_bits t" by auto
  from wrapU_id [OF this] show ?thesis by (simp add: conv_UInt [OF u])
qed

lemma eval_Lt:
  assumes "eval F s (Binary OpLt Bool i e) = ok v" "etype i = t" "etype e = t" "isIntegral t"
  shows "\<exists>x y. eval F s i = ok x \<and> eval F s e = ok y \<and> v = of_bool (x < y)"
proof -
  have "\<not> isFloat t" "\<not> isComplex t" "t \<noteq> Undefined" using assms(4) by (auto simp: isIntegral_def kind_preds)
  with assms show ?thesis
    by (auto simp: res_simps binary_value_def is_arith_def compare_def Let_def)
qed

definition counter_step :: "Datatype \<Rightarrow> expr \<Rightarrow> expr \<times> expr \<Rightarrow> bool" where
  "counter_step t i = (\<lambda>(l, r). l = i \<and> (\<exists>v. r = Binary OpAdd t i (Literal t v) \<and> member_get t v = 1))"

lemma body_ok_append: "body_ok t (as @ [p]) \<longleftrightarrow> body_ok t as \<and> location_of (fst p) \<notin> targets as \<and> steps_by t (fst p) (snd p)"
  by (auto simp: body_ok_def targets_def image_comp split_beta)

lemma targets_append [simp]: "targets (as @ [p]) = insert (location_of (fst p)) (targets as)"
  by (auto simp: targets_def)

lemma after_append:
  "Some k \<notin> targets as \<Longrightarrow> after F t n (as @ bs) sc k = after F t n bs sc k"
  "Some k \<in> targets as \<Longrightarrow> after F t n (as @ bs) sc k = after F t n as sc k"
  by (induction as) auto

text \<open>One iteration of the loop: the bound stays, the counter is one higher.\<close>

lemma counting_step:
  assumes "assign_all F (as @ [p]) s = ok s1" "body_ok t (as @ [p])" "counter_step t i p"
    "isIntegral t" "etype i = t" "etype e = t" "location_of e \<notin> targets (as @ [p])"
    "eval F s i = ok x" "eval F s e = ok y" "location_of e \<noteq> None" "x < y"
  shows "s1 = s\<lparr>scalars := after F t 1 (as @ [p]) (scalars s)\<rparr> \<and> readable F s (as @ [p]) \<and>
    eval F s1 i = ok (x + 1) \<and> eval F s1 e = ok y"
proof -
  note s1 = assign_all_after [OF assms(1,2,4)]
  obtain v where p: "p = (i, Binary OpAdd t i (Literal t v))" "member_get t v = 1"
    using assms(3) by (auto simp: counter_step_def)
  from s1 p obtain ki where ki: "location_of i = Some ki" by (auto simp: readable_def)
  from assms(10) obtain ke where ke: "location_of e = Some ke" by auto
  from location_of_eval [OF ki assms(8)] assms(5) obtain xi where xi: "scalars s ki = Some xi" "x = conv t xi" by auto
  from location_of_eval [OF ke assms(9)] assms(6) obtain ye where ye: "y = conv t ye" by auto
  have "conv t x = x" "conv t y = y" by (simp_all add: xi ye conv_idem)
  from conv_next [OF assms(4) this assms(11)] have nx: "conv t (x + 1) = x + 1" .
  have "Some ki \<notin> targets as" using assms(2) p ki by (simp add: body_ok_append)
  then have "scalars s1 ki = Some (conv t (xi + 1))"
    using s1 p ki xi by (simp add: after_append value_after_def step_of_def)
  also have "conv t (xi + 1) = x + 1"
    using nx conv.cv_add_left [OF assms(4), of xi 1] by (simp add: xi)
  finally have ki1: "scalars s1 ki = Some (x + 1)" .
  have "eval F s1 i = ok (x + 1)"
    using assms(8) ki ki1 assms(5) nx
    by (cases i) (auto simp: typed_def read_scalar_def split: if_splits)
  moreover have "scalars s ke = scalars s1 ke"
    using s1 assms(7) ke after_other [of ke "as @ [p]" F t 1 "scalars s"] by simp
  from eval_location [OF ke this, of F] assms(9) have "eval F s1 e = ok y" by simp
  ultimately show ?thesis using s1 by blast
qed

lemma counting_loop:
  assumes "loops F (Binary OpLt Bool i e) None b s s'"
    and "straight b" "assigns b = as @ [p]"
    and ok: "body_ok t (as @ [p])" "counter_step t i p"
    and t: "isIntegral t" "etype i = t" "etype e = t" and e: "location_of e \<noteq> None" "location_of e \<notin> targets (as @ [p])"
  shows "\<exists>x y. eval F s i = ok x \<and> eval F s e = ok y \<and>
    (if x < y then readable F s (as @ [p]) \<and> s' = s\<lparr>scalars := after F t (y - x) (as @ [p]) (scalars s)\<rparr> else s' = s)"
  using assms(1-3)
proof (induction "Binary OpLt Bool i e" "None :: (expr \<times> expr) option" b s s'
    rule: exec_execs_loops.inducts(3) [where ?P1.0 = "\<lambda>_ _ _ _. True" and ?P2.0 = "\<lambda>_ _ _ _. True"])
  case (Exit s)
  from eval_Lt [OF Exit(1) t(2,3,1)] show ?case by auto
next
  case (Loop s v b fl s1 s2 s')
  from eval_Lt [OF Loop(1) t(2,3,1)] Loop(2) obtain x y
    where xy: "eval F s i = ok x" "eval F s e = ok y" "x < y" by auto
  from Loop exec_straight [of b F s fl s1] have a: "assign_all F (as @ [p]) s = ok s1" by simp
  from Loop have s2: "s2 = s1" by (simp add: advance_def)
  note s1 = counting_step [OF a ok t e(2) xy(1,2) e(1) xy(3)]
  have IH: "if x + 1 < y then s' = s1\<lparr>scalars := after F t (y - (x + 1)) (as @ [p]) (scalars s1)\<rparr> else s' = s1"
    using Loop s1 unfolding s2 by (auto split: if_splits)
  have d: "distinct (map (location_of \<circ> fst) (as @ [p]))" using ok(1) by (simp add: body_ok_def)
  have "s' = s\<lparr>scalars := after F t (y - x) (as @ [p]) (scalars s)\<rparr>"
  proof (cases "x + 1 < y")
    case True
    with IH s1 after_after [OF t(1) d, of F "y - (x + 1)" 1 "scalars s"] show ?thesis by simp
  next
    case False
    with xy(3) have "y - x = 1" by linarith
    with False IH s1 show ?thesis by simp
  qed
  with s1 xy show ?case by auto
qed (auto simp: exec_straight)

subsection \<open>Replacing a while loop\<close>

text \<open>The loops the replacement is right for: counter and bound have one integral type, in which literals are
  added, and every assignment has a target of its own, other than the bound.\<close>

definition counting :: "expr \<Rightarrow> stmt \<Rightarrow> bool" where
  "counting c s \<longleftrightarrow> (case c of
     Binary op u i e \<Rightarrow> u = Bool \<and> isIntegral (etype i) \<and> etype e = etype i \<and>
       location_of e \<notin> targets (assigns s) \<and> body_ok (etype i) (assigns s)
   | _ \<Rightarrow> False)"

lemma counts_up_step:
  assumes "counts_up F i s = ok True" "isIntegral t" "\<And>l r at pu. s = Assign l r at pu \<Longrightarrow> steps_by t l r"
  shows "\<exists>r at pu. s = Assign i r at pu \<and> counter_step t i (i, r)"
proof -
  from assms(1) obtain u b r at pu where s: "s = Assign i r at pu" "r = Binary OpAdd u i b" "is_unit F b = ok True"
    by (auto simp: counts_up_def split: stmt.splits option.splits if_splits)
  from s(3) obtain w v where b: "b = Literal w v" "equalsScalar F w v 1 = ok True"
    by (auto simp: is_unit_def split: option.splits if_splits)
  from assms(3) [OF s(1)] s(2) b(1) have "u = t" "w = t" by (auto simp: steps_by_def)
  moreover have "\<not> isFloat t" "\<not> isComplex t" using assms(2) by (auto simp: isIntegral_def kind_preds)
  with b(2) \<open>w = t\<close> conv_one [OF assms(2)] have "member_get t v = 1"
    by (simp add: equalsScalar_def split: if_splits)
  ultimately show ?thesis using s b by (auto simp: counter_step_def)
qed

lemma remove_While_shape:
  assumes "remove_While F c s = ok (Some s')"
  shows "\<exists>u i e ss n body. c = Binary OpLt u i e \<and> isVar i \<and> isVar e \<and> s = Scope (Block ss) \<and> ss \<noteq> [] \<and>
    counts_up F i (last ss) = ok True \<and> bindR (Sub_make e i) (simplify F) = ok n \<and>
    duplicate_body F n (Block_make (map Some (butlast ss))) = ok (Some body) \<and>
    s' = IfThenElse c (Scope_make (Block_make [Some body, Some (Assign i e False NotParallel)])) None"
  using assms
  by (auto simp: remove_While_def res_simps Assign_make_def IfThenElse_make_def
      split: option.splits if_splits stmt.splits)

lemma after_conv: "isIntegral t \<Longrightarrow> after F t (conv t n) as sc = after F t n as sc"
proof -
  assume t: "isIntegral t"
  have "conv t (y + conv t n * k) = conv t (y + n * k)" for y k
    using conv.cv_add_right [OF t, of y "conv t n * k"] conv.cv_add_right [OF t, of y "n * k"]
      conv.cv_mul_left [OF t, of n k] by simp
  then have "value_after F t (conv t n) l r x = value_after F t n l r x" for l r x
    by (simp add: value_after_def split: option.split)
  then show ?thesis by (induction as) (auto simp: fun_eq_iff)
qed

lemma eval_Lt_make:
  assumes "eval F s i = ok x" "eval F s e = ok y" "etype i = t" "etype e = t" "isIntegral t"
  shows "eval F s (Binary OpLt Bool i e) = ok (of_bool (x < y))"
proof -
  have "\<not> isFloat t" "\<not> isComplex t" "t \<noteq> Undefined" using assms(5) by (auto simp: isIntegral_def kind_preds)
  with assms show ?thesis by (simp add: binary_value_def is_arith_def compare_def Let_def)
qed

text \<open>The number of iterations keeps its value while the body is executed.\<close>

lemma loop_count:
  assumes n: "bindR (Sub_make e i) (simplify F) = ok n" and t: "isIntegral t" "etype i = t" "etype e = t"
    and "isVar i" "isVar e" "location_of i \<notin> W" "location_of e \<notin> W"
    and ev: "eval F s i = ok x" "eval F s e = ok y"
  shows "good F n" "etype n = t" "keeps W s s1 \<Longrightarrow> eval F s1 n = ok (conv t (y - x))" "keeps W s s1 \<Longrightarrow> eval F s1 e = ok y"
proof -
  from n obtain d where d: "Sub_make e i = ok d" "simplify F d = ok n" by (auto simp: res_simps)
  have de: "d = Binary OpSub t e i" by (rule Sub_make_same [OF d(1) t(3,2)])
  have "good F d" using t assms(5,6) by (simp add: de binary_ok_arith isVar_good)
  note sd = simplify_sound [OF d(2) this]
  show "good F n" "etype n = t" using sd by (simp_all add: sound_def de)
  from isVar_location [OF assms(5)] isVar_location [OF assms(6)] obtain ki ke
    where k: "location_of i = Some ki" "location_of e = Some ke" by blast
  assume "keeps W s s1"
  then have "scalars s ki = scalars s1 ki" "scalars s ke = scalars s1 ke"
    using assms(7,8) k by (auto simp: keeps_def)
  from eval_location [OF k(1) this(1), of F] eval_location [OF k(2) this(2), of F] ev
  have e1: "eval F s1 i = ok x" "eval F s1 e = ok y" by auto
  then have "eval F s1 d = ok (conv t (y - x))"
    using t by (simp add: de binary_value_def is_arith_def)
  then show "eval F s1 n = ok (conv t (y - x))" by (rule soundD(5) [OF sd])
  show "eval F s1 e = ok y" by (rule e1(2))
qed

lemma duplicated_block:
  assumes dup: "list_all2 (duplicated F n) as (assigns body)" "straight body"
    and n: "bindR (Sub_make e i) (simplify F) = ok n" and t: "isIntegral t" "etype i = t" "etype e = t"
    and v: "isVar i" "isVar e" "location_of e \<notin> targets (as @ [p])"
    and ok: "body_ok t (as @ [p])" "counter_step t i p" and r: "readable F s (as @ [p])"
    and ev: "eval F s i = ok x" "eval F s e = ok y"
  shows "exec F (Block_make [Some body, Some (Assign i e at pu)]) s Fall
    (s\<lparr>scalars := after F t (y - x) (as @ [p]) (scalars s)\<rparr>)"
proof -
  obtain c where p: "p = (i, Binary OpAdd t i (Literal t c))" "member_get t c = 1"
    using ok(2) by (auto simp: counter_step_def)
  obtain k where k: "location_of i = Some k" using isVar_location [OF v(1)] by blast
  have W: "location_of i \<notin> targets as" "location_of e \<notin> targets as" and as: "body_ok t as"
    using ok(1) v(3) p by (auto simp: body_ok_append)
  note lc = loop_count [OF n t v(1,2) W ev]
  let ?s1 = "s\<lparr>scalars := after F t (y - x) as (scalars s)\<rparr>"
  have "assign_all F (assigns body) s = ok (s\<lparr>scalars := after F t (conv t (y - x)) as (scalars s)\<rparr>)"
    by (rule duplicated_all [OF dup(1) as t(1) lc(1,2) order_refl lc(3)])
      (use r in \<open>auto simp: readable_def\<close>)
  then have b: "exec F body s Fall ?s1" using exec_straight [OF dup(2)] after_conv [OF t(1)] by simp
  have "keeps (targets as) s ?s1" by (auto simp: keeps_def after_other)
  then have "eval F ?s1 e = ok y" by (rule lc(4))
  then have "assign F i e ?s1 = ok (set_scalar k y ?s1)" using k t by (simp add: assign_def)
  also have "set_scalar k y ?s1 = s\<lparr>scalars := after F t (y - x) (as @ [p]) (scalars s)\<rparr>"
  proof -
    from location_of_eval [OF k ev(1)] t(2) obtain xi where xi: "scalars s k = Some xi" "x = conv t xi" by auto
    from isVar_location [OF v(2)] obtain ke where ke: "location_of e = Some ke" by blast
    from location_of_eval [OF ke ev(2)] t(3) have "conv t y = y" by (auto simp: conv_idem)
    moreover have "conv t (xi + (y - x)) = conv t y"
      using conv.cv_add_left [OF t(1), of xi "y - x"] by (simp add: xi(2))
    ultimately have "after F t (y - x) (as @ [p]) (scalars s) k = Some y"
      using W(1) k p xi by (simp add: after_append value_after_def step_of_def)
    moreover have "after F t (y - x) (as @ [p]) (scalars s) j = after F t (y - x) as (scalars s) j" if "j \<noteq> k" for j
      using that k p by (cases "Some j \<in> targets as") (auto simp: after_append after_other)
    ultimately have "(after F t (y - x) as (scalars s))(k \<mapsto> y) = after F t (y - x) (as @ [p]) (scalars s)"
      by (auto simp: fun_eq_iff)
    then show ?thesis by (simp add: set_scalar_def)
  qed
  finally have "execs F [body, Assign i e at pu] s Fall (s\<lparr>scalars := after F t (y - x) (as @ [p]) (scalars s)\<rparr>)"
    by (intro exec_execs_loops.Cons [OF b]) (simp add: execs_simps exec_simps)
  from execs_filter [OF this] show ?thesis
    using Block_make_Some [of "[body, Assign i e at pu]"] by (simp add: exec_execs_loops.Block)
qed


text \<open>The example \<open>while (i < e) { x = x + 2; y = 5; i = i + 1; }\<close>.\<close>

definition example_var :: "nat \<Rightarrow> expr" where
  "example_var a = Var a ''v'' Int32 False False False"

definition example_inc :: "nat \<Rightarrow> component_union \<Rightarrow> stmt" where
  "example_inc a n = Assign (example_var a) (Binary OpAdd Int32 (example_var a) (Literal Int32 n)) False NotParallel"

definition example_cond :: expr where
  "example_cond = Binary OpLt Bool (example_var 1) (example_var 2)"

definition example_counting :: stmt where
  "example_counting =
     Scope (Block [example_inc 3 2, Assign (example_var 4) (Literal Int32 5) False NotParallel, example_inc 1 1])"

definition example_start :: state where
  "example_start = \<lparr>scalars = (\<lambda>l. if l = LVar 1 then Some 4 else if l = LVar 2 then Some 7
     else if l = LVar 3 then Some 2147483647 else Some 0), arrays = (\<lambda>_. None), ext_calls = (\<lambda>_ _. err TypeError)\<rparr>"


text \<open>The replacement of a \<open>for\<close> loop counts iterations by dividing the distance to the bound by the
  increment, rounding down. A loop from 0 to 3 in steps of 2 runs twice; its replacement has the effect of
  one iteration.\<close>

definition example_for :: stmt where
  "example_for = For (example_var 1) (Literal Int32 0) (Literal Int32 3) (Literal Int32 2) (example_inc 3 5)
     Serial NotParallel 0 0"

theorem remove_For_rounds_down:
  "\<exists>s' s1 s2. remove_For fpu_null (Literal Int32 0) (Literal Int32 3) (Literal Int32 2) (example_inc 3 5) = ok (Some s') \<and>
    exec fpu_null example_for (example_start\<lparr>scalars := \<lambda>_. Some 0\<rparr>) Fall s1 \<and> scalars s1 (LVar 3) = Some 10 \<and>
    exec fpu_null s' (example_start\<lparr>scalars := \<lambda>_. Some 0\<rparr>) Fall s2 \<and> scalars s2 (LVar 3) = Some 5"
proof -
  let ?st = "example_start\<lparr>scalars := \<lambda>_. Some 0\<rparr>"
  let ?r = "remove_For fpu_null (Literal Int32 0) (Literal Int32 3) (Literal Int32 2) (example_inc 3 5)"
  have "bindR ?r (\<lambda>s'. run_reads 20 fpu_null (the s') ?st (LVar 3)) = ok (Some 5)"
    "map_sum id (\<lambda>s'. s' \<noteq> None) ?r = ok True" by code_simp+
  then obtain s' where s': "?r = ok (Some s')" "run_reads 20 fpu_null s' ?st (LVar 3) = ok (Some 5)"
    by (cases ?r) auto
  have "run_reads 20 fpu_null example_for ?st (LVar 3) = ok (Some 10)" by code_simp
  from run_reads_exec [OF this] run_reads_exec [OF s'(2)] s'(1) show ?thesis by blast
qed

text \<open>The replacement of a \<open>while\<close> loop assumes that no variable is assigned twice in the body:
  \<open>x = 3; x = x + 1;\<close> leaves 4 after any number of iterations, its replacement leaves 3 plus the number of
  iterations.\<close>

definition example_twice :: stmt where
  "example_twice =
     Scope (Block [Assign (example_var 3) (Literal Int32 3) False NotParallel, example_inc 3 1, example_inc 1 1])"

theorem remove_While_repeated_target:
  "\<exists>s' s1 s2. remove_While fpu_null example_cond example_twice = ok (Some s') \<and>
    exec fpu_null (While example_cond example_twice Serial 0) example_start Fall s1 \<and> scalars s1 (LVar 3) = Some 4 \<and>
    exec fpu_null s' example_start Fall s2 \<and> scalars s2 (LVar 3) = Some 6"
proof -
  let ?r = "remove_While fpu_null example_cond example_twice"
  have "bindR ?r (\<lambda>s'. run_reads 20 fpu_null (the s') example_start (LVar 3)) = ok (Some 6)"
    "map_sum id (\<lambda>s'. s' \<noteq> None) ?r = ok True" by code_simp+
  then obtain s' where s': "?r = ok (Some s')" "run_reads 20 fpu_null s' example_start (LVar 3) = ok (Some 6)"
    by (cases ?r) auto
  have "run_reads 20 fpu_null (While example_cond example_twice Serial 0) example_start (LVar 3) = ok (Some 4)"
    by code_simp
  from run_reads_exec [OF this] run_reads_exec [OF s'(2)] s'(1) show ?thesis by blast
qed

end
