(* ===== verification/Mode_Format.thy ===== *)
theory Mode_Format
  imports Datatypes
begin

text \<open>
  Mode formats and tensor formats (src/format.cpp, include/taco/format.h), with the constructors and the
  properties of the three level formats (src/lower/mode_format_dense.cpp, mode_format_compressed.cpp,
  mode_format_singleton.cpp, mode_format_impl.cpp). A handle \<open>ModeFormat\<close> may be undefined (\<open>None\<close>).
\<close>

subsection \<open>Level formats\<close>

text \<open>The class of a level format (its \<open>typeid\<close>), and its fields; \<open>allocSize\<close> is 0 for dense levels, which
  have no such field.\<close>

datatype format_class = DenseClass | CompressedClass | SingletonClass

record ModeFormatImpl =
  mf_class :: format_class
  mf_name :: string
  mf_isFull :: bool
  mf_isOrdered :: bool
  mf_isUnique :: bool
  mf_isBranchless :: bool
  mf_isCompact :: bool
  mf_isZeroless :: bool
  mf_hasCoordValIter :: bool
  mf_hasCoordPosIter :: bool
  mf_hasLocate :: bool
  mf_hasInsert :: bool
  mf_hasAppend :: bool
  mf_hasSeqInsertEdge :: bool
  mf_hasInsertCoord :: bool
  mf_isYieldPosPure :: bool
  mf_allocSize :: int

definition DEFAULT_ALLOC_SIZE :: int where
  "DEFAULT_ALLOC_SIZE = 2 ^ 20"

definition DenseModeFormat :: "bool \<Rightarrow> bool \<Rightarrow> bool \<Rightarrow> ModeFormatImpl" where
  "DenseModeFormat ordered unique zeroless =
     \<lparr>mf_class = DenseClass, mf_name = ''dense'', mf_isFull = True, mf_isOrdered = ordered, mf_isUnique = unique,
      mf_isBranchless = False, mf_isCompact = True, mf_isZeroless = zeroless,
      mf_hasCoordValIter = False, mf_hasCoordPosIter = False, mf_hasLocate = True, mf_hasInsert = True,
      mf_hasAppend = False, mf_hasSeqInsertEdge = False, mf_hasInsertCoord = False, mf_isYieldPosPure = True,
      mf_allocSize = 0\<rparr>"

definition CompressedModeFormat :: "bool \<Rightarrow> bool \<Rightarrow> bool \<Rightarrow> bool \<Rightarrow> int \<Rightarrow> ModeFormatImpl" where
  "CompressedModeFormat full ordered unique zeroless allocSize =
     \<lparr>mf_class = CompressedClass, mf_name = ''compressed'', mf_isFull = full, mf_isOrdered = ordered,
      mf_isUnique = unique, mf_isBranchless = False, mf_isCompact = True, mf_isZeroless = zeroless,
      mf_hasCoordValIter = False, mf_hasCoordPosIter = True, mf_hasLocate = False, mf_hasInsert = False,
      mf_hasAppend = True, mf_hasSeqInsertEdge = True, mf_hasInsertCoord = True, mf_isYieldPosPure = False,
      mf_allocSize = allocSize\<rparr>"

definition SingletonModeFormat :: "bool \<Rightarrow> bool \<Rightarrow> bool \<Rightarrow> bool \<Rightarrow> int \<Rightarrow> ModeFormatImpl" where
  "SingletonModeFormat full ordered unique zeroless allocSize =
     \<lparr>mf_class = SingletonClass, mf_name = ''singleton'', mf_isFull = full, mf_isOrdered = ordered,
      mf_isUnique = unique, mf_isBranchless = True, mf_isCompact = True, mf_isZeroless = zeroless,
      mf_hasCoordValIter = False, mf_hasCoordPosIter = True, mf_hasLocate = False, mf_hasInsert = False,
      mf_hasAppend = True, mf_hasSeqInsertEdge = False, mf_hasInsertCoord = True, mf_isYieldPosPure = True,
      mf_allocSize = allocSize\<rparr>"

text \<open>\<open>equals\<close> compares the properties, not the capabilities, and for the levels that allocate the
  initial size.\<close>

definition impl_equals :: "ModeFormatImpl \<Rightarrow> ModeFormatImpl \<Rightarrow> bool" where
  "impl_equals a b \<longleftrightarrow>
     mf_isFull a = mf_isFull b \<and> mf_isOrdered a = mf_isOrdered b \<and> mf_isUnique a = mf_isUnique b \<and>
     mf_isBranchless a = mf_isBranchless b \<and> mf_isCompact a = mf_isCompact b \<and> mf_isZeroless a = mf_isZeroless b"

definition Compressed_equals :: "ModeFormatImpl \<Rightarrow> ModeFormatImpl \<Rightarrow> bool" where
  "Compressed_equals a b \<longleftrightarrow> impl_equals a b \<and> mf_allocSize b = mf_allocSize a"

definition Singleton_equals :: "ModeFormatImpl \<Rightarrow> ModeFormatImpl \<Rightarrow> bool" where
  "Singleton_equals a b \<longleftrightarrow> impl_equals a b \<and> mf_allocSize b = mf_allocSize a"

definition mode_equals :: "ModeFormatImpl \<Rightarrow> ModeFormatImpl \<Rightarrow> bool" where
  "mode_equals a b =
     (case mf_class a of
        DenseClass \<Rightarrow> impl_equals a b
      | CompressedClass \<Rightarrow> Compressed_equals a b
      | SingletonClass \<Rightarrow> Singleton_equals a b)"

definition impl_eq :: "ModeFormatImpl \<Rightarrow> ModeFormatImpl \<Rightarrow> bool" where
  "impl_eq a b \<longleftrightarrow> mf_class a = mf_class b \<and> mode_equals a b"

subsection \<open>Properties\<close>

datatype Property =
    FULL | NOT_FULL | ORDERED | NOT_ORDERED | UNIQUE | NOT_UNIQUE | BRANCHLESS | NOT_BRANCHLESS
  | COMPACT | NOT_COMPACT | ZEROLESS | NOT_ZEROLESS

text \<open>\<open>copy\<close> sets its local flags property by property; dense levels ignore \<open>FULL\<close>, and all ignore
  \<open>BRANCHLESS\<close> and \<open>COMPACT\<close>.\<close>

fun set_dense_flag :: "bool \<times> bool \<times> bool \<Rightarrow> Property \<Rightarrow> bool \<times> bool \<times> bool" where
  "set_dense_flag (ord, uni, zl) ORDERED = (True, uni, zl)"
| "set_dense_flag (ord, uni, zl) NOT_ORDERED = (False, uni, zl)"
| "set_dense_flag (ord, uni, zl) UNIQUE = (ord, True, zl)"
| "set_dense_flag (ord, uni, zl) NOT_UNIQUE = (ord, False, zl)"
| "set_dense_flag (ord, uni, zl) ZEROLESS = (ord, uni, True)"
| "set_dense_flag (ord, uni, zl) NOT_ZEROLESS = (ord, uni, False)"
| "set_dense_flag flags _ = flags"

fun set_flag :: "bool \<times> bool \<times> bool \<times> bool \<Rightarrow> Property \<Rightarrow> bool \<times> bool \<times> bool \<times> bool" where
  "set_flag (full, ord, uni, zl) FULL = (True, ord, uni, zl)"
| "set_flag (full, ord, uni, zl) NOT_FULL = (False, ord, uni, zl)"
| "set_flag (full, ord, uni, zl) ORDERED = (full, True, uni, zl)"
| "set_flag (full, ord, uni, zl) NOT_ORDERED = (full, False, uni, zl)"
| "set_flag (full, ord, uni, zl) UNIQUE = (full, ord, True, zl)"
| "set_flag (full, ord, uni, zl) NOT_UNIQUE = (full, ord, False, zl)"
| "set_flag (full, ord, uni, zl) ZEROLESS = (full, ord, uni, True)"
| "set_flag (full, ord, uni, zl) NOT_ZEROLESS = (full, ord, uni, False)"
| "set_flag flags _ = flags"

definition Dense_copy :: "ModeFormatImpl \<Rightarrow> Property list \<Rightarrow> ModeFormatImpl" where
  "Dense_copy m ps =
     (let (ord, uni, zl) = foldl set_dense_flag (mf_isOrdered m, mf_isUnique m, mf_isZeroless m) ps
      in DenseModeFormat ord uni zl)"

definition Compressed_copy :: "ModeFormatImpl \<Rightarrow> Property list \<Rightarrow> ModeFormatImpl" where
  "Compressed_copy m ps =
     (let (full, ord, uni, zl) = foldl set_flag (mf_isFull m, mf_isOrdered m, mf_isUnique m, mf_isZeroless m) ps
      in CompressedModeFormat full ord uni zl DEFAULT_ALLOC_SIZE)"

definition Singleton_copy :: "ModeFormatImpl \<Rightarrow> Property list \<Rightarrow> ModeFormatImpl" where
  "Singleton_copy m ps =
     (let (full, ord, uni, zl) = foldl set_flag (mf_isFull m, mf_isOrdered m, mf_isUnique m, mf_isZeroless m) ps
      in SingletonModeFormat full ord uni zl DEFAULT_ALLOC_SIZE)"

definition mode_copy :: "ModeFormatImpl \<Rightarrow> Property list \<Rightarrow> ModeFormatImpl" where
  "mode_copy m ps =
     (case mf_class m of
        DenseClass \<Rightarrow> Dense_copy m ps
      | CompressedClass \<Rightarrow> Compressed_copy m ps
      | SingletonClass \<Rightarrow> Singleton_copy m ps)"

subsection \<open>ModeFormat\<close>

type_synonym ModeFormat = "ModeFormatImpl option"

definition mode_format_call :: "ModeFormat \<Rightarrow> Property list \<Rightarrow> ModeFormat" where
  "mode_format_call m ps = (case m of None \<Rightarrow> None | Some i \<Rightarrow> Some (mode_copy i ps))"

definition getName :: "ModeFormat \<Rightarrow> string" where
  "getName m = (case m of None \<Rightarrow> ''undefined'' | Some i \<Rightarrow> mf_name i)"

text \<open>The queries \<open>isFull\<close> to \<open>isYieldPosPure\<close> read a field of a defined format.\<close>

definition mode_query :: "(ModeFormatImpl \<Rightarrow> bool) \<Rightarrow> ModeFormat \<Rightarrow> bool res" where
  "mode_query flag m = (case m of None \<Rightarrow> err IAssert | Some i \<Rightarrow> ok (flag i))"

fun holds_property :: "ModeFormat \<Rightarrow> Property \<Rightarrow> bool res" where
  "holds_property m FULL = mode_query mf_isFull m"
| "holds_property m ORDERED = mode_query mf_isOrdered m"
| "holds_property m UNIQUE = mode_query mf_isUnique m"
| "holds_property m BRANCHLESS = mode_query mf_isBranchless m"
| "holds_property m COMPACT = mode_query mf_isCompact m"
| "holds_property m ZEROLESS = mode_query mf_isZeroless m"
| "holds_property m NOT_FULL = mode_query (Not \<circ> mf_isFull) m"
| "holds_property m NOT_ORDERED = mode_query (Not \<circ> mf_isOrdered) m"
| "holds_property m NOT_UNIQUE = mode_query (Not \<circ> mf_isUnique) m"
| "holds_property m NOT_BRANCHLESS = mode_query (Not \<circ> mf_isBranchless) m"
| "holds_property m NOT_COMPACT = mode_query (Not \<circ> mf_isCompact) m"
| "holds_property m NOT_ZEROLESS = mode_query (Not \<circ> mf_isZeroless) m"

fun hasProperties :: "ModeFormat \<Rightarrow> Property list \<Rightarrow> bool res" where
  "hasProperties m [] = ok True"
| "hasProperties m (p # ps) = bindR (holds_property m p) (\<lambda>h. if h then hasProperties m ps else ok False)"

definition mode_format_eq :: "ModeFormat \<Rightarrow> ModeFormat \<Rightarrow> bool" where
  "mode_format_eq a b = (case (a, b) of (Some x, Some y) \<Rightarrow> impl_eq x y | _ \<Rightarrow> False)"

text \<open>The predefined formats.\<close>

definition Dense :: ModeFormat where
  "Dense = Some (DenseModeFormat True True False)"

definition Compressed :: ModeFormat where
  "Compressed = Some (CompressedModeFormat False True True False DEFAULT_ALLOC_SIZE)"

abbreviation "Sparse \<equiv> Compressed"

definition Singleton :: ModeFormat where
  "Singleton = Some (SingletonModeFormat False True True False DEFAULT_ALLOC_SIZE)"

subsection \<open>Format\<close>

type_synonym ModeFormatPack = "ModeFormat list"

definition ModeFormatPack_make :: "ModeFormat list \<Rightarrow> ModeFormatPack res" where
  "ModeFormatPack_make ms = assertR UError (\<forall>m \<in> set ms. m \<noteq> None) (ok ms)"

record Format =
  modeFormatPacks :: "ModeFormatPack list"
  modeOrdering :: "int list"
  levelArrayTypes :: "Datatype list list"

definition getModeFormats :: "Format \<Rightarrow> ModeFormat list" where
  "getModeFormats f = concat (modeFormatPacks f)"

definition getOrder :: "Format \<Rightarrow> int" where
  "getOrder f = wrapS 32 (int (length (getModeFormats f)))"

definition Format_scalar :: Format where
  "Format_scalar = \<lparr>modeFormatPacks = [], modeOrdering = [], levelArrayTypes = []\<rparr>"

definition Format_mode :: "ModeFormat \<Rightarrow> Format res" where
  "Format_mode m = bindR (ModeFormatPack_make [m]) (\<lambda>p. ok \<lparr>modeFormatPacks = [p], modeOrdering = [0], levelArrayTypes = []\<rparr>)"

text \<open>The order is a 32-bit \<open>int\<close>, so the check against \<open>INT_MAX\<close> always holds; resizing the ordering
  to a negative order throws.\<close>

definition Format_packs :: "ModeFormatPack list \<Rightarrow> Format res" where
  "Format_packs packs =
     (let f = \<lparr>modeFormatPacks = packs, modeOrdering = [], levelArrayTypes = []\<rparr> in
      assertR UError (getOrder f \<le> 2 ^ 31 - 1)
       (assertR OutOfRange (0 \<le> getOrder f)
         (ok (f\<lparr>modeOrdering := map int [0..<nat (getOrder f)]\<rparr>))))"

definition Format_ordered :: "ModeFormatPack list \<Rightarrow> int list \<Rightarrow> Format res" where
  "Format_ordered packs mode_order =
     (let f = \<lparr>modeFormatPacks = packs, modeOrdering = mode_order, levelArrayTypes = []\<rparr> in
      assertR UError (getOrder f \<le> 2 ^ 31 - 1)
       (assertR UError (wrapU 64 (getOrder f) = int (length mode_order)) (ok f)))"

text \<open>Reading past a vector is undefined: \<open>BadMemory\<close>.\<close>

definition vector_get :: "'a list \<Rightarrow> nat \<Rightarrow> 'a res" where
  "vector_get xs i = (if i < length xs then ok (xs ! i) else err BadMemory)"

definition getCoordinateTypePos :: "Format \<Rightarrow> nat \<Rightarrow> Datatype res" where
  "getCoordinateTypePos f level =
     (if level \<ge> length (levelArrayTypes f) then ok Int32
      else vector_get (levelArrayTypes f ! level) 0)"

definition getCoordinateTypeIdx :: "Format \<Rightarrow> nat \<Rightarrow> Datatype res" where
  "getCoordinateTypeIdx f level =
     (if level \<ge> length (levelArrayTypes f) then ok Int32
      else bindR (vector_get (getModeFormats f) level) (\<lambda>m.
        if getName m = getName Dense then vector_get (levelArrayTypes f ! level) 0
        else vector_get (levelArrayTypes f ! level) 1))"

definition setLevelArrayTypes :: "Format \<Rightarrow> Datatype list list \<Rightarrow> Format" where
  "setLevelArrayTypes f ts = f\<lparr>levelArrayTypes := ts\<rparr>"

definition pack_eq :: "ModeFormatPack \<Rightarrow> ModeFormatPack \<Rightarrow> bool" where
  "pack_eq a b \<longleftrightarrow> length a = length b \<and> list_all2 mode_format_eq a b"

definition format_eq :: "Format \<Rightarrow> Format \<Rightarrow> bool" where
  "format_eq a b \<longleftrightarrow>
     length (modeFormatPacks a) = length (modeFormatPacks b) \<and> length (modeOrdering a) = length (modeOrdering b) \<and>
     modeOrdering a = modeOrdering b \<and> list_all2 pack_eq (modeFormatPacks a) (modeFormatPacks b)"

definition CSR :: "Format res" where "CSR = Format_ordered [[Dense], [Sparse]] [0, 1]"
definition CSC :: "Format res" where "CSC = Format_ordered [[Dense], [Sparse]] [1, 0]"
definition DCSR :: "Format res" where "DCSR = Format_ordered [[Sparse], [Sparse]] [0, 1]"
definition DCSC :: "Format res" where "DCSC = Format_ordered [[Sparse], [Sparse]] [1, 0]"

definition COO :: "int \<Rightarrow> bool \<Rightarrow> bool \<Rightarrow> bool \<Rightarrow> int list \<Rightarrow> Format res" where
  "COO order unique ordered isAoS mode_order =
     assertR UError (order > 0)
      (assertR UError (mode_order = [] \<or> int (length mode_order) = order)
        (assertR IAssert (\<not> isAoS)
          (let o_prop = (if ordered then ORDERED else NOT_ORDERED);
               first = mode_format_call Compressed [o_prop, if order = 1 \<and> unique then UNIQUE else NOT_UNIQUE];
               inner = map (\<lambda>i. [mode_format_call Singleton [o_prop, NOT_UNIQUE]]) [1..order - 2];
               last = mode_format_call Singleton [o_prop, if unique then UNIQUE else NOT_UNIQUE];
               modeTypes = [first] # (if order > 1 then inner @ [[last]] else [])
           in if mode_order = [] then Format_packs modeTypes else Format_ordered modeTypes mode_order)))"

definition isDense :: "Format \<Rightarrow> bool" where
  "isDense f \<longleftrightarrow> (\<forall>m \<in> set (getModeFormats f). mode_format_eq m Dense)"


subsection \<open>Copies with other properties\<close>

fun negated :: "Property \<Rightarrow> Property" where
  "negated FULL = NOT_FULL" | "negated NOT_FULL = FULL"
| "negated ORDERED = NOT_ORDERED" | "negated NOT_ORDERED = ORDERED"
| "negated UNIQUE = NOT_UNIQUE" | "negated NOT_UNIQUE = UNIQUE"
| "negated BRANCHLESS = NOT_BRANCHLESS" | "negated NOT_BRANCHLESS = BRANCHLESS"
| "negated COMPACT = NOT_COMPACT" | "negated NOT_COMPACT = COMPACT"
| "negated ZEROLESS = NOT_ZEROLESS" | "negated NOT_ZEROLESS = ZEROLESS"

text \<open>The properties a class of formats lets a copy choose.\<close>

definition settable :: "format_class \<Rightarrow> Property \<Rightarrow> bool" where
  "settable c p \<longleftrightarrow>
     p \<in> {ORDERED, NOT_ORDERED, UNIQUE, NOT_UNIQUE, ZEROLESS, NOT_ZEROLESS} \<or>
     c \<noteq> DenseClass \<and> p \<in> {FULL, NOT_FULL}"

text \<open>The formats the constructors of the classes make.\<close>

definition made_format :: "ModeFormatImpl \<Rightarrow> bool" where
  "made_format m \<longleftrightarrow>
     (\<exists>f ord uni zl a. m = DenseModeFormat ord uni zl \<or> m = CompressedModeFormat f ord uni zl a \<or>
       m = SingletonModeFormat f ord uni zl a)"

lemmas format_makes = DenseModeFormat_def CompressedModeFormat_def SingletonModeFormat_def

lemma format_fields [simp]:
  "mf_class (DenseModeFormat ord uni zl) = DenseClass" "mf_name (DenseModeFormat ord uni zl) = ''dense''"
  "mf_isFull (DenseModeFormat ord uni zl) = True" "mf_isOrdered (DenseModeFormat ord uni zl) = ord"
  "mf_isUnique (DenseModeFormat ord uni zl) = uni" "mf_isBranchless (DenseModeFormat ord uni zl) = False"
  "mf_isCompact (DenseModeFormat ord uni zl) = True" "mf_isZeroless (DenseModeFormat ord uni zl) = zl"
  "mf_class (CompressedModeFormat f ord uni zl a) = CompressedClass"
  "mf_name (CompressedModeFormat f ord uni zl a) = ''compressed''"
  "mf_isFull (CompressedModeFormat f ord uni zl a) = f" "mf_isOrdered (CompressedModeFormat f ord uni zl a) = ord"
  "mf_isUnique (CompressedModeFormat f ord uni zl a) = uni" "mf_isBranchless (CompressedModeFormat f ord uni zl a) = False"
  "mf_isCompact (CompressedModeFormat f ord uni zl a) = True" "mf_isZeroless (CompressedModeFormat f ord uni zl a) = zl"
  "mf_allocSize (CompressedModeFormat f ord uni zl a) = a"
  "mf_class (SingletonModeFormat f ord uni zl a) = SingletonClass"
  "mf_name (SingletonModeFormat f ord uni zl a) = ''singleton''"
  "mf_isFull (SingletonModeFormat f ord uni zl a) = f" "mf_isOrdered (SingletonModeFormat f ord uni zl a) = ord"
  "mf_isUnique (SingletonModeFormat f ord uni zl a) = uni" "mf_isBranchless (SingletonModeFormat f ord uni zl a) = True"
  "mf_isCompact (SingletonModeFormat f ord uni zl a) = True" "mf_isZeroless (SingletonModeFormat f ord uni zl a) = zl"
  "mf_allocSize (SingletonModeFormat f ord uni zl a) = a"
  by (simp_all add: format_makes)

lemma made_format_cases [consumes 1, case_names Dense Compressed Singleton]:
  assumes "made_format m"
  obtains ord uni zl where "m = DenseModeFormat ord uni zl"
  | f ord uni zl a where "m = CompressedModeFormat f ord uni zl a"
  | f ord uni zl a where "m = SingletonModeFormat f ord uni zl a"
  using assms by (auto simp: made_format_def)

text \<open>A flag after a sequence of settings: the last setting of it, or what it was.\<close>

fun last_setting :: "Property \<Rightarrow> Property \<Rightarrow> bool \<Rightarrow> Property list \<Rightarrow> bool" where
  "last_setting on off b [] = b"
| "last_setting on off b (p # ps) = last_setting on off (if p = on then True else if p = off then False else b) ps"

lemma foldl_set_flag:
  "foldl set_flag (f, ord, uni, zl) ps =
    (last_setting FULL NOT_FULL f ps, last_setting ORDERED NOT_ORDERED ord ps,
     last_setting UNIQUE NOT_UNIQUE uni ps, last_setting ZEROLESS NOT_ZEROLESS zl ps)"
proof (induction ps arbitrary: f ord uni zl)
  case (Cons p ps)
  then show ?case by (cases p) simp_all
qed simp

lemma foldl_set_dense_flag:
  "foldl set_dense_flag (ord, uni, zl) ps =
    (last_setting ORDERED NOT_ORDERED ord ps, last_setting UNIQUE NOT_UNIQUE uni ps,
     last_setting ZEROLESS NOT_ZEROLESS zl ps)"
proof (induction ps arbitrary: ord uni zl)
  case (Cons p ps)
  then show ?case by (cases p) simp_all
qed simp

lemma last_setting_kept: "on \<notin> set ps \<Longrightarrow> off \<notin> set ps \<Longrightarrow> last_setting on off b ps = b"
  by (induction ps arbitrary: b) auto

lemma last_setting_on: "on \<in> set ps \<Longrightarrow> off \<notin> set ps \<Longrightarrow> last_setting on off b ps"
proof (induction ps arbitrary: b)
  case (Cons p ps)
  then show ?case by (cases "on \<in> set ps") (auto simp: last_setting_kept)
qed simp

lemma last_setting_off: "off \<in> set ps \<Longrightarrow> on \<notin> set ps \<Longrightarrow> \<not> last_setting on off b ps"
proof (induction ps arbitrary: b)
  case (Cons p ps)
  then show ?case by (cases "off \<in> set ps") (auto simp: last_setting_kept)
qed simp

lemmas settings = foldl_set_flag foldl_set_dense_flag last_setting_kept last_setting_on last_setting_off

lemma mode_copy_simps:
  "mode_copy (DenseModeFormat ord uni zl) ps =
    DenseModeFormat (last_setting ORDERED NOT_ORDERED ord ps) (last_setting UNIQUE NOT_UNIQUE uni ps)
      (last_setting ZEROLESS NOT_ZEROLESS zl ps)"
  "mode_copy (CompressedModeFormat f ord uni zl a) ps =
    CompressedModeFormat (last_setting FULL NOT_FULL f ps) (last_setting ORDERED NOT_ORDERED ord ps)
      (last_setting UNIQUE NOT_UNIQUE uni ps) (last_setting ZEROLESS NOT_ZEROLESS zl ps) DEFAULT_ALLOC_SIZE"
  "mode_copy (SingletonModeFormat f ord uni zl a) ps =
    SingletonModeFormat (last_setting FULL NOT_FULL f ps) (last_setting ORDERED NOT_ORDERED ord ps)
      (last_setting UNIQUE NOT_UNIQUE uni ps) (last_setting ZEROLESS NOT_ZEROLESS zl ps) DEFAULT_ALLOC_SIZE"
  by (simp_all add: mode_copy_def Dense_copy_def Compressed_copy_def Singleton_copy_def foldl_set_flag foldl_set_dense_flag)

text \<open>(C34) A copy of a mode format has every property it was asked for that its class lets it choose (dense formats
  choose no fullness, and none compactness or branchlessness) when it
  was not also asked for the opposite, and keeps every property it was not asked to change.\<close>

theorem copy_configures:
  assumes "made_format m"
  shows "(\<forall>p \<in> set ps. settable (mf_class m) p \<and> negated p \<notin> set ps \<longrightarrow>
      holds_property (mode_format_call (Some m) ps) p = ok True) \<and>
    (\<forall>p. p \<notin> set ps \<and> negated p \<notin> set ps \<longrightarrow>
      holds_property (mode_format_call (Some m) ps) p = holds_property (Some m) p)"
proof (intro conjI ballI allI impI)
  fix p assume p: "p \<in> set ps" "settable (mf_class m) p \<and> negated p \<notin> set ps"
  from assms p show "holds_property (mode_format_call (Some m) ps) p = ok True"
    by (cases rule: made_format_cases; cases p)
      (auto simp: mode_format_call_def mode_query_def mode_copy_simps settable_def last_setting_on last_setting_off)
next
  fix p assume p: "p \<notin> set ps \<and> negated p \<notin> set ps"
  from assms p show "holds_property (mode_format_call (Some m) ps) p = holds_property (Some m) p"
    by (cases rule: made_format_cases; cases p)
      (auto simp: mode_format_call_def mode_query_def mode_copy_simps last_setting_kept)
qed

lemma copy_configures_witness:
  "holds_property (mode_format_call Compressed [NOT_UNIQUE]) NOT_UNIQUE = ok True"
proof -
  let ?m = "CompressedModeFormat False True True False DEFAULT_ALLOC_SIZE"
  have "made_format ?m" unfolding made_format_def by blast
  from copy_configures [OF this, of "[NOT_UNIQUE]"] show ?thesis
    by (simp add: Compressed_def settable_def)
qed

text \<open>Copying a level that allocates memory forgets its initial size: a copy that asks for nothing equals
  the original exactly when that has the default size.\<close>

theorem copy_forgets_allocSize:
  "mode_format_eq (mode_format_call (Some (CompressedModeFormat f ord uni zl a)) []) (Some (CompressedModeFormat f ord uni zl a))
      = (a = DEFAULT_ALLOC_SIZE) \<and>
   mode_format_eq (mode_format_call (Some (SingletonModeFormat f ord uni zl a)) []) (Some (SingletonModeFormat f ord uni zl a))
      = (a = DEFAULT_ALLOC_SIZE)"
  by (auto simp: mode_format_eq_def mode_format_call_def mode_copy_simps impl_eq_def mode_equals_def Compressed_equals_def Singleton_equals_def impl_equals_def)

subsection \<open>Equality\<close>

lemma impl_eq_refl: "impl_eq a a"
  by (cases "mf_class a") (simp_all add: impl_eq_def mode_equals_def Compressed_equals_def Singleton_equals_def impl_equals_def)

lemma impl_eq_sym: "impl_eq a b \<Longrightarrow> impl_eq b a"
  by (auto simp: impl_eq_def mode_equals_def Compressed_equals_def Singleton_equals_def impl_equals_def split: format_class.splits)

lemma impl_eq_trans: "impl_eq a b \<Longrightarrow> impl_eq b c \<Longrightarrow> impl_eq a c"
  by (auto simp: impl_eq_def mode_equals_def Compressed_equals_def Singleton_equals_def impl_equals_def split: format_class.splits)

lemma mode_format_eq_refl: "mode_format_eq m m \<longleftrightarrow> m \<noteq> None"
  by (auto simp: mode_format_eq_def impl_eq_refl split: option.split)

lemma mode_format_eq_sym: "mode_format_eq a b \<Longrightarrow> mode_format_eq b a"
  by (auto simp: mode_format_eq_def impl_eq_sym split: option.splits)

lemma mode_format_eq_trans: "mode_format_eq a b \<Longrightarrow> mode_format_eq b c \<Longrightarrow> mode_format_eq a c"
  by (auto simp: mode_format_eq_def intro: impl_eq_trans split: option.splits)

lemma pack_eq_refl: "pack_eq p p \<longleftrightarrow> None \<notin> set p"
  by (metis list_all2_same list_all2_lengthD mode_format_eq_refl pack_eq_def)

lemma pack_eq_sym: "pack_eq a b \<Longrightarrow> pack_eq b a"
  by (auto simp: pack_eq_def list_all2_conv_all_nth mode_format_eq_sym)

lemma pack_eq_trans: "pack_eq a b \<Longrightarrow> pack_eq b c \<Longrightarrow> pack_eq a c"
  using list_all2_trans [of mode_format_eq mode_format_eq mode_format_eq a b c] mode_format_eq_trans
  unfolding pack_eq_def by auto

text \<open>Equality of tensor formats is symmetric and transitive, and a format equals itself exactly when all
  its levels are defined; the types of the index arrays are not compared.\<close>

theorem format_eq_partial_equivalence:
  "(format_eq a b \<longrightarrow> format_eq b a) \<and> (format_eq a b \<and> format_eq b c \<longrightarrow> format_eq a c) \<and>
   (format_eq a a \<longleftrightarrow> None \<notin> set (getModeFormats a)) \<and>
   (format_eq a b \<longleftrightarrow> format_eq (setLevelArrayTypes a ts) b)"
proof (intro conjI impI)
  show "format_eq b a" if "format_eq a b"
    using that by (auto simp: format_eq_def list_all2_conv_all_nth pack_eq_sym)
  show "format_eq a c" if "format_eq a b \<and> format_eq b c"
    using that pack_eq_trans
      list_all2_trans [of pack_eq pack_eq pack_eq "modeFormatPacks a" "modeFormatPacks b" "modeFormatPacks c"]
    unfolding format_eq_def by auto
  show "format_eq a a \<longleftrightarrow> None \<notin> set (getModeFormats a)"
    by (auto simp: format_eq_def getModeFormats_def list_all2_same pack_eq_refl)
  show "format_eq a b \<longleftrightarrow> format_eq (setLevelArrayTypes a ts) b"
    by (simp add: format_eq_def setLevelArrayTypes_def)
qed

lemma format_eq_partial_equivalence_witness:
  "\<exists>f. CSR = ok f \<and> format_eq f f \<and> format_eq (setLevelArrayTypes f [[Int64]]) f"
proof -
  have "\<exists>f. CSR = ok f \<and> None \<notin> set (getModeFormats f)"
    by (simp add: CSR_def Format_ordered_def getOrder_def getModeFormats_def Dense_def Compressed_def wrapS_def wrapU_def)
  then obtain f where "CSR = ok f" "None \<notin> set (getModeFormats f)" by blast
  with format_eq_partial_equivalence [of f f f "[[Int64]]"] show ?thesis by blast
qed

subsection \<open>COO formats\<close>

text \<open>(C35) A coordinate format of order \<open>n\<close>, from 1 to below \<open>2 ^ 31\<close> and not stored as an array of structures, has \<open>n\<close> levels: a compressed one followed by singletons, all
  ordered or not as requested; only the last level is unique, and only if that was requested; the modes
  are stored in the given order, which has to be as long as that, or from first to last.\<close>

theorem COO_levels:
  assumes "0 < n" "n < 2 ^ 31" "modes = [] \<or> int (length modes) = n"
  shows "\<exists>f. COO n unique ordered False modes = ok f \<and> getOrder f = n \<and>
    (modeOrdering f = (if modes = [] then map int [0..<nat n] else modes)) \<and>
    (\<forall>i < nat n. holds_property (getModeFormats f ! i) ORDERED = ok ordered \<and>
      holds_property (getModeFormats f ! i) UNIQUE = ok (unique \<and> i = nat n - 1) \<and>
      getName (getModeFormats f ! i) = (if i = 0 then ''compressed'' else ''singleton''))"
proof -
  let ?o = "if ordered then ORDERED else NOT_ORDERED"
  let ?first = "mode_format_call Compressed [?o, if n = 1 \<and> unique then UNIQUE else NOT_UNIQUE]"
  let ?inner = "map (\<lambda>i. [mode_format_call Singleton [?o, NOT_UNIQUE]]) [1..n - 2]"
  let ?last = "mode_format_call Singleton [?o, if unique then UNIQUE else NOT_UNIQUE]"
  let ?types = "[?first] # (if n > 1 then ?inner @ [[?last]] else [])"
  let ?flat = "?first # (if n > 1 then replicate (nat (n - 2)) (mode_format_call Singleton [?o, NOT_UNIQUE]) @ [?last] else [])"
  have flat: "concat ?types = ?flat"
    by (simp add: map_replicate_const concat_replicate_single)
  have len: "length ?flat = nat n" using assms(1) by auto
  have wrap: "wrapS 32 n = n" "wrapU 64 n = n" using assms(1,2) by (auto intro!: wrapS_id wrapU_id)
  have order: "wrapS 32 (int (length (concat ?types))) = n"
    unfolding flat len using assms(1) wrap by simp
  let ?f = "\<lparr>modeFormatPacks = ?types, modeOrdering = (if modes = [] then map int [0..<nat n] else modes),
    levelArrayTypes = []\<rparr>"
  have f: "COO n unique ordered False modes = ok ?f"
    using assms wrap order
    unfolding COO_def Format_packs_def Format_ordered_def getOrder_def getModeFormats_def Let_def by auto
  show ?thesis
  proof (intro exI [of _ ?f] conjI f allI impI)
    show "getOrder ?f = n" using order by (simp add: getOrder_def getModeFormats_def)
    fix i assume i: "i < nat n"
    have g: "getModeFormats ?f = ?flat" using flat by (simp add: getModeFormats_def)
    consider "i = 0" "n = 1" | "i = 0" "n > 1" | "0 < i" "i < nat n - 1" "n > 1" | "0 < i" "i = nat n - 1" "n > 1"
      using i assms(1) by linarith
    then have "holds_property (getModeFormats ?f ! i) ORDERED = ok ordered \<and>
        holds_property (getModeFormats ?f ! i) UNIQUE = ok (unique \<and> i = nat n - 1) \<and>
        getName (getModeFormats ?f ! i) = (if i = 0 then ''compressed'' else ''singleton'')"
      unfolding g
      by cases (auto simp: nth_append nth_Cons' mode_format_call_def Compressed_def Singleton_def mode_copy_simps
          mode_query_def getName_def)
    then show "holds_property (getModeFormats ?f ! i) ORDERED = ok ordered"
      "holds_property (getModeFormats ?f ! i) UNIQUE = ok (unique \<and> i = nat n - 1)"
      "getName (getModeFormats ?f ! i) = (if i = 0 then ''compressed'' else ''singleton'')" by auto
  qed simp
qed

lemma COO_levels_witness:
  "\<exists>f. COO 3 True True False [] = ok f \<and> getOrder f = 3 \<and> modeOrdering f = map int [0..<3]"
  using COO_levels [of 3 "[]" True True] by auto

end
