(* ===== verification/Level_Functions.thy ===== *)
theory Level_Functions
  imports Mode_Format IR_Rewriter
begin

text \<open>
  The level functions: what the dense, compressed and singleton formats emit as IR to iterate over a level
  of a tensor, to locate coordinates in it and to assemble it (src/lower/mode_format_dense.cpp,
  mode_format_compressed.cpp, mode_format_singleton.cpp, with the defaults of mode_format_impl.cpp),
  the modes and mode packs they work on (src/lower/mode.cpp) and the IR generators they share
  (src/ir/ir_generators.cpp).

  A mode keeps a map of the variables its level functions made; it is part of the state these run in,
  beside the state of the constructors.
\<close>

subsection \<open>Computations that emit IR\<close>

type_synonym mode_vars = "string \<Rightarrow> expr option"

type_synonym 'a level = "(mode_vars \<times> builder, 'a) stateful"

definition buildL :: "'a build \<Rightarrow> 'a level" where
  "buildL m = (\<lambda>(vs, b). bindR (m b) (\<lambda>(x, b'). ok (x, (vs, b'))))"

definition new_var :: "string \<Rightarrow> Datatype \<Rightarrow> expr level" where
  "new_var nm t = bindB (buildL fresh) (\<lambda>addr. retB (Var_make addr nm t False False False))"

text \<open>The implicit conversion from \<open>bool\<close>.\<close>

definition Literal_bool :: "bool \<Rightarrow> expr res" where
  "Literal_bool b = Literal_make_from Bool (of_bool b) Bool"

text \<open>The text of a variable or property (\<open>util::toString\<close>). The arrays and tensors whose text is taken are
  of these classes; the text of other nodes is not modelled.\<close>

definition handle_name :: "expr \<Rightarrow> string res" where
  "handle_name e =
     (case e of
        Var _ n _ _ _ _ \<Rightarrow> ok n
      | GetProperty _ _ _ _ _ _ n \<Rightarrow> ok n
      | _ \<Rightarrow> err NotSupported)"

subsection \<open>Generators\<close>

definition default_For :: "fpu \<Rightarrow> expr \<Rightarrow> expr \<Rightarrow> expr \<Rightarrow> expr \<Rightarrow> stmt \<Rightarrow> stmt level" where
  "default_For F var start bound increment body =
     buildL (For_make F var start bound increment body Serial NotParallel 0 0)"

definition default_Store :: "expr \<Rightarrow> expr \<Rightarrow> expr \<Rightarrow> stmt" where
  "default_Store arr loc data = Store_make arr loc data False NotParallel"

definition default_Assign :: "expr \<Rightarrow> expr \<Rightarrow> stmt res" where
  "default_Assign l r = Assign_make l r False NotParallel"

definition compoundStore :: "expr \<Rightarrow> expr \<Rightarrow> expr \<Rightarrow> bool \<Rightarrow> ParallelUnit \<Rightarrow> stmt res" where
  "compoundStore a i val use_atomics atomic_parallel_unit =
     bindR (Load_make a i) (\<lambda>l.
     bindR (if etype val = Bool then ok (Or_make l val) else Add_make l val) (\<lambda>add.
       ok (Store_make a i add use_atomics atomic_parallel_unit)))"

definition compoundAssign :: "expr \<Rightarrow> expr \<Rightarrow> bool \<Rightarrow> ParallelUnit \<Rightarrow> stmt res" where
  "compoundAssign a val use_atomics atomic_parallel_unit =
     bindR (if etype val = Bool then ok (Or_make a val) else Add_make a val) (\<lambda>add.
       Assign_make a add use_atomics atomic_parallel_unit)"

definition conjunction :: "expr list \<Rightarrow> expr res" where
  "conjunction exprs = (case exprs of [] \<Rightarrow> err IAssert | e # es \<Rightarrow> ok (foldl And_make e es))"

definition doubleSizeIfFull :: "expr \<Rightarrow> expr \<Rightarrow> expr \<Rightarrow> stmt res" where
  "doubleSizeIfFull a sz needed =
     bindR (Literal_int 2) (\<lambda>two. bindR (Mul_make sz two) (\<lambda>twice.
     bindR (Allocate_make a twice True (Some sz) False) (\<lambda>realloc.
     bindR (default_Assign sz twice) (\<lambda>resize.
       IfThenElse_make (Lte_make sz needed) (Block_make [Some realloc, Some resize]) None))))"

definition atLeastDoubleSizeIfFull :: "expr \<Rightarrow> expr \<Rightarrow> expr \<Rightarrow> stmt level" where
  "atLeastDoubleSizeIfFull a sz needed =
     bindB (liftB (handle_name a)) (\<lambda>nm. bindB (new_var (nm @ ''_new_size'') Int32) (\<lambda>newSizeVar.
     liftB (bindR (Literal_int 2) (\<lambda>two. bindR (Mul_make sz two) (\<lambda>twice.
       bindR (Literal_int 1) (\<lambda>one. bindR (Add_make needed one) (\<lambda>next.
       bindR (Max_make2 twice next) (\<lambda>newSize.
       bindR (VarDecl_make newSizeVar newSize) (\<lambda>computeNewSize.
       bindR (Allocate_make a newSizeVar True (Some sz) False) (\<lambda>realloc.
       bindR (default_Assign sz newSizeVar) (\<lambda>updateSize.
         IfThenElse_make (Lte_make sz needed)
           (Block_make [Some computeNewSize, Some realloc, Some updateSize]) None)))))))))))"

subsection \<open>Modes and packs\<close>

text \<open>An array of a pack may be an undefined handle (\<open>None\<close>).\<close>

record ModePack =
  numModes :: nat
  pack_arrays :: "expr option list"

record Mode =
  m_tensor :: expr
  m_size :: Dimension
  m_level :: nat
  m_format :: ModeFormat
  m_pack :: ModePack
  m_packLoc :: nat
  m_parent :: ModeFormat

definition Mode_make :: "expr \<Rightarrow> Dimension \<Rightarrow> nat \<Rightarrow> ModeFormat \<Rightarrow> ModePack \<Rightarrow> nat \<Rightarrow> ModeFormat \<Rightarrow> Mode res" where
  "Mode_make tensor sz level modeFormat pack packLoc parent =
     assertR IAssert (modeFormat \<noteq> None)
       (ok \<lparr>m_tensor = tensor, m_size = sz, m_level = level, m_format = modeFormat, m_pack = pack,
            m_packLoc = packLoc, m_parent = parent\<rparr>)"

definition Mode_getName :: "Mode \<Rightarrow> string res" where
  "Mode_getName m = bindR (handle_name (m_tensor m)) (\<lambda>n. ok (n @ show_nat (m_level m)))"

definition getVar :: "string \<Rightarrow> expr level" where
  "getVar nm = (\<lambda>(vs, b). case vs nm of None \<Rightarrow> err IAssert | Some v \<Rightarrow> ok (v, (vs, b)))"

definition hasVar :: "string \<Rightarrow> bool level" where
  "hasVar nm = (\<lambda>(vs, b). ok (vs nm \<noteq> None, (vs, b)))"

definition addVar :: "string \<Rightarrow> expr \<Rightarrow> unit level" where
  "addVar nm v = (\<lambda>(vs, b). assertR IAssert (isVar v) (ok ((), (vs(nm := Some v), b))))"

text \<open>\<open>getArray\<close>; every caller uses the array, so an undefined handle fails here.\<close>

definition getArray :: "ModePack \<Rightarrow> nat \<Rightarrow> expr res" where
  "getArray pack i =
     bindR (vector_get (pack_arrays pack) i) (\<lambda>a. case a of None \<Rightarrow> err BadMemory | Some e \<Rightarrow> ok e)"

text \<open>\<open>getArrays\<close>, for each class.\<close>

definition Dense_getArrays :: "expr \<Rightarrow> int \<Rightarrow> expr option list build" where
  "Dense_getArrays tensor mode =
     bindB fresh (\<lambda>addr. liftB (bindR (GetProperty_make addr tensor PDimension mode) (\<lambda>d. ok [Some d])))"

definition Compressed_getArrays :: "expr \<Rightarrow> nat \<Rightarrow> expr option list build" where
  "Compressed_getArrays tensor level =
     bindB (liftB (handle_name tensor)) (\<lambda>n. let arraysName = n @ show_nat level in
     bindB fresh (\<lambda>a0. bindB fresh (\<lambda>a1. retB
       [Some (GetProperty_make5 a0 tensor PIndices (int level - 1) 0 (arraysName @ ''_pos'')),
        Some (GetProperty_make5 a1 tensor PIndices (int level - 1) 1 (arraysName @ ''_crd''))])))"

definition Singleton_getArrays :: "expr \<Rightarrow> nat \<Rightarrow> expr option list build" where
  "Singleton_getArrays tensor level =
     bindB (liftB (handle_name tensor)) (\<lambda>n. let arraysName = n @ show_nat level in
     bindB fresh (\<lambda>a1. retB
       [None, Some (GetProperty_make5 a1 tensor PIndices (int level - 1) 1 (arraysName @ ''_crd''))]))"

definition getArrays :: "ModeFormatImpl \<Rightarrow> expr \<Rightarrow> int \<Rightarrow> nat \<Rightarrow> expr option list build" where
  "getArrays f tensor mode level =
     (case mf_class f of
        DenseClass \<Rightarrow> Dense_getArrays tensor mode
      | CompressedClass \<Rightarrow> Compressed_getArrays tensor level
      | SingletonClass \<Rightarrow> Singleton_getArrays tensor level)"

definition ModePack_make :: "nat \<Rightarrow> ModeFormatImpl \<Rightarrow> expr \<Rightarrow> int \<Rightarrow> nat \<Rightarrow> ModePack build" where
  "ModePack_make n modeType tensor mode level =
     bindB (getArrays modeType tensor mode level) (\<lambda>as. retB \<lparr>numModes = n, pack_arrays = as\<rparr>)"

text \<open>\<open>getPosArray\<close>, \<open>getCoordArray\<close>, and the variables that hold their capacities.\<close>

definition getPosArray :: "Mode \<Rightarrow> expr res" where
  "getPosArray m = getArray (m_pack m) 0"

definition getCoordArray :: "Mode \<Rightarrow> expr res" where
  "getCoordArray m = getArray (m_pack m) 1"

definition capacity_var :: "string \<Rightarrow> Mode \<Rightarrow> expr level" where
  "capacity_var suffix m =
     bindB (liftB (Mode_getName m)) (\<lambda>n. let varName = n @ suffix in
     bindB (hasVar varName) (\<lambda>h.
       if h then getVar varName
       else bindB (new_var varName Int32) (\<lambda>v. bindB (addVar varName v) (\<lambda>_. retB v))))"

definition getPosCapacity :: "Mode \<Rightarrow> expr level" where
  "getPosCapacity m = capacity_var ''_pos_size'' m"

definition getCoordCapacity :: "Mode \<Rightarrow> expr level" where
  "getCoordCapacity m = capacity_var ''_crd_size'' m"

definition getWidth :: "Mode \<Rightarrow> expr res" where
  "getWidth m =
     (if dim_size (m_size m) \<noteq> 0 \<and> dim_size (m_size m) < 16 then Literal_int (int (dim_size (m_size m)))
      else getArray (m_pack m) 0)"

text \<open>The number of modes of a pack, and the location of a mode in it, as expressions.\<close>

definition stride :: "Mode \<Rightarrow> expr res" where
  "stride m = Literal_int (int (numModes (m_pack m)))"

definition offset :: "Mode \<Rightarrow> expr res" where
  "offset m = Literal_int (int (m_packLoc m))"

definition parent_appends :: "Mode \<Rightarrow> bool" where
  "parent_appends m = (case m_parent m of None \<Rightarrow> True | Some p \<Rightarrow> mf_hasAppend p)"

text \<open>A pattern of the code: is this size expression the literal \<open>n\<close>?\<close>

definition literal_is :: "fpu \<Rightarrow> expr \<Rightarrow> int \<Rightarrow> bool res" where
  "literal_is F e n = (case as_Literal e of None \<Rightarrow> ok False | Some (t, v) \<Rightarrow> equalsScalar F t v n)"

subsection \<open>Queries\<close>

datatype Aggregation = IDENTITY | COUNT | AggrMIN | AggrMAX

record Attr =
  attr_label :: string
  attr_aggr :: Aggregation
  attr_params :: "nat list"

record AttrQuery =
  groupBy :: "nat list"
  attrs :: "Attr list"

definition AttrQuery_make :: "nat list \<Rightarrow> Attr list \<Rightarrow> AttrQuery res" where
  "AttrQuery_make g as = assertR IAssert (as \<noteq> []) (ok \<lparr>groupBy = g, attrs = as\<rparr>)"

definition Compressed_attrQueries :: "ModeFormatImpl \<Rightarrow> nat list \<Rightarrow> nat list \<Rightarrow> AttrQuery list res" where
  "Compressed_attrQueries f parentCoords childCoords =
     assertR BadMemory (parentCoords \<noteq> [])
      (bindR (AttrQuery_make (butlast parentCoords)
         [\<lparr>attr_label = ''nnz'', attr_aggr = COUNT,
           attr_params = last parentCoords # (if mf_isUnique f then [] else childCoords)\<rparr>])
        (\<lambda>q. ok [q]))"

definition attrQueries :: "ModeFormatImpl \<Rightarrow> nat list \<Rightarrow> nat list \<Rightarrow> AttrQuery list res" where
  "attrQueries f parentCoords childCoords =
     (case mf_class f of CompressedClass \<Rightarrow> Compressed_attrQueries f parentCoords childCoords | _ \<Rightarrow> ok [])"

record AttrQueryResult =
  resultVar :: expr
  resultValues :: expr

text \<open>The position in the array of results is the row-major one.\<close>

fun result_pos :: "expr \<Rightarrow> int \<Rightarrow> expr \<Rightarrow> expr list \<Rightarrow> expr build" where
  "result_pos v i pos [] = retB pos"
| "result_pos v i pos (e # es) =
     bindB fresh (\<lambda>addr. bindB (liftB (GetProperty_make addr v PDimension i)) (\<lambda>dim.
     bindB (liftB (bindR (Mul_make pos dim) (\<lambda>p. Add_make p e))) (\<lambda>pos'. result_pos v (i + 1) pos' es)))"

definition getResult :: "AttrQueryResult \<Rightarrow> expr list \<Rightarrow> expr build" where
  "getResult q indices =
     (if indices = [] then retB (resultValues q)
      else bindB (liftB (Literal_int 0)) (\<lambda>z. bindB (result_pos (resultVar q) 0 z indices) (\<lambda>pos.
        liftB (Load_make (resultValues q) pos))))"

subsection \<open>Iteration and locating\<close>

record ModeFunction =
  mf_body :: "stmt option"
  mf_results :: "expr list"

text \<open>An undefined mode function is \<open>None\<close>: the default of the base class, for a capability the format does
  not have.\<close>

type_synonym mode_function = "ModeFunction option"

definition results :: "expr list res \<Rightarrow> mode_function res" where
  "results rs = bindR rs (\<lambda>es. ok (Some \<lparr>mf_body = None, mf_results = es\<rparr>))"

definition Compressed_posIterBounds :: "expr \<Rightarrow> Mode \<Rightarrow> mode_function res" where
  "Compressed_posIterBounds parentPos m = results (
     bindR (getPosArray m) (\<lambda>pos.
     bindR (Load_make pos parentPos) (\<lambda>pbegin.
     bindR (Literal_int 1) (\<lambda>one. bindR (Add_make parentPos one) (\<lambda>next.
     bindR (Load_make pos next) (\<lambda>pend. ok [pbegin, pend]))))))"

definition Singleton_posIterBounds :: "expr \<Rightarrow> Mode \<Rightarrow> mode_function res" where
  "Singleton_posIterBounds parentPos m = results (
     bindR (Literal_int 1) (\<lambda>one. bindR (Add_make parentPos one) (\<lambda>next. ok [parentPos, next])))"

definition posIterBounds :: "ModeFormatImpl \<Rightarrow> expr \<Rightarrow> Mode \<Rightarrow> mode_function res" where
  "posIterBounds f parentPos m =
     (case mf_class f of
        CompressedClass \<Rightarrow> Compressed_posIterBounds parentPos m
      | SingletonClass \<Rightarrow> Singleton_posIterBounds parentPos m
      | DenseClass \<Rightarrow> ok None)"

definition Compressed_coordBounds :: "expr \<Rightarrow> Mode \<Rightarrow> mode_function res" where
  "Compressed_coordBounds parentPos m = results (
     bindR (getPosArray m) (\<lambda>pos. bindR (Literal_int 1) (\<lambda>one. bindR (Add_make parentPos one) (\<lambda>next.
     bindR (Load_make pos next) (\<lambda>pend. bindR (getCoordArray m) (\<lambda>crd.
     bindR (Sub_make pend one) (\<lambda>last. bindR (Load_make crd last) (\<lambda>coordend.
     bindR (Literal_int 0) (\<lambda>zero. ok [zero, coordend])))))))))"

definition coordBounds :: "ModeFormatImpl \<Rightarrow> expr \<Rightarrow> Mode \<Rightarrow> mode_function res" where
  "coordBounds f parentPos m =
     (case mf_class f of CompressedClass \<Rightarrow> Compressed_coordBounds parentPos m | _ \<Rightarrow> ok None)"

definition Compressed_posIterAccess :: "expr \<Rightarrow> Mode \<Rightarrow> mode_function res" where
  "Compressed_posIterAccess pos m = results (
     assertR IAssert (m_packLoc m = 0)
      (bindR (getCoordArray m) (\<lambda>idxArray. bindR (stride m) (\<lambda>k. bindR (Mul_make pos k) (\<lambda>loc.
       bindR (Load_make idxArray loc) (\<lambda>idx. bindR (Literal_bool True) (\<lambda>found. ok [idx, found])))))))"

definition Singleton_posIterAccess :: "expr \<Rightarrow> Mode \<Rightarrow> mode_function res" where
  "Singleton_posIterAccess pos m = results (
     bindR (getCoordArray m) (\<lambda>idxArray. bindR (stride m) (\<lambda>k. bindR (offset m) (\<lambda>o'.
     bindR (Mul_make pos k) (\<lambda>p. bindR (Add_make p o') (\<lambda>loc.
     bindR (Load_make idxArray loc) (\<lambda>idx. bindR (Literal_bool True) (\<lambda>found. ok [idx, found]))))))))"

text \<open>The coordinates of the outer levels, which no format uses, are left out.\<close>

definition posIterAccess :: "ModeFormatImpl \<Rightarrow> expr \<Rightarrow> Mode \<Rightarrow> mode_function res" where
  "posIterAccess f pos m =
     (case mf_class f of
        CompressedClass \<Rightarrow> Compressed_posIterAccess pos m
      | SingletonClass \<Rightarrow> Singleton_posIterAccess pos m
      | DenseClass \<Rightarrow> ok None)"

text \<open>\<open>coords.back()\<close> of an empty vector is undefined.\<close>

definition vector_back :: "'a list \<Rightarrow> 'a res" where
  "vector_back xs = (if xs = [] then err BadMemory else ok (last xs))"

definition Dense_locate :: "expr \<Rightarrow> expr list \<Rightarrow> Mode \<Rightarrow> mode_function res" where
  "Dense_locate parentPos coords m = results (
     bindR (getWidth m) (\<lambda>w. bindR (Mul_make parentPos w) (\<lambda>p. bindR (vector_back coords) (\<lambda>c.
     bindR (Add_make p c) (\<lambda>pos. bindR (Literal_bool True) (\<lambda>found. ok [pos, found]))))))"

definition locate :: "ModeFormatImpl \<Rightarrow> expr \<Rightarrow> expr list \<Rightarrow> Mode \<Rightarrow> mode_function res" where
  "locate f parentPos coords m =
     (case mf_class f of DenseClass \<Rightarrow> Dense_locate parentPos coords m | _ \<Rightarrow> ok None)"

subsection \<open>Assembly by appending\<close>

text \<open>An undefined statement is \<open>None\<close>.\<close>

definition Compressed_getAppendCoord :: "expr \<Rightarrow> expr \<Rightarrow> Mode \<Rightarrow> stmt option level" where
  "Compressed_getAppendCoord p i m =
     bindB (liftB (assertR IAssert (m_packLoc m = 0)
       (bindR (getCoordArray m) (\<lambda>idxArray. bindR (stride m) (\<lambda>k. bindR (Mul_make p k) (\<lambda>loc.
         ok (idxArray, default_Store idxArray loc i)))))))
      (\<lambda>(idxArray, storeIdx).
        if numModes (m_pack m) > 1 then retB (Some storeIdx)
        else bindB (getCoordCapacity m) (\<lambda>capacity.
          bindB (liftB (doubleSizeIfFull idxArray capacity p)) (\<lambda>maybeResizeIdx.
            retB (Some (Block_make [Some maybeResizeIdx, Some storeIdx])))))"

definition Singleton_getAppendCoord :: "expr \<Rightarrow> expr \<Rightarrow> Mode \<Rightarrow> stmt option level" where
  "Singleton_getAppendCoord pos coord m =
     bindB (liftB (bindR (getCoordArray m) (\<lambda>idxArray. bindR (stride m) (\<lambda>k. bindR (offset m) (\<lambda>o'.
       bindR (Mul_make pos k) (\<lambda>p. bindR (Add_make p o') (\<lambda>loc. ok (idxArray, loc, default_Store idxArray loc coord))))))))
      (\<lambda>(idxArray, loc, storeIdx).
        if m_packLoc m + 1 \<noteq> numModes (m_pack m) then retB (Some storeIdx)
        else bindB (getCoordCapacity m) (\<lambda>capacity.
          bindB (atLeastDoubleSizeIfFull idxArray capacity loc) (\<lambda>maybeResizeIdx.
            retB (Some (Block_make [Some maybeResizeIdx, Some storeIdx])))))"

definition getAppendCoord :: "ModeFormatImpl \<Rightarrow> expr \<Rightarrow> expr \<Rightarrow> Mode \<Rightarrow> stmt option level" where
  "getAppendCoord f p i m =
     (case mf_class f of
        CompressedClass \<Rightarrow> Compressed_getAppendCoord p i m
      | SingletonClass \<Rightarrow> Singleton_getAppendCoord p i m
      | DenseClass \<Rightarrow> retB None)"

definition Compressed_getAppendEdges :: "expr \<Rightarrow> expr \<Rightarrow> expr \<Rightarrow> Mode \<Rightarrow> stmt option res" where
  "Compressed_getAppendEdges pPrev pBegin pEnd m =
     bindR (getPosArray m) (\<lambda>posArray.
     bindR (if parent_appends m then ok pEnd else Sub_make pEnd pBegin) (\<lambda>edges.
     bindR (Literal_int 1) (\<lambda>one. bindR (Add_make pPrev one) (\<lambda>loc.
       ok (Some (default_Store posArray loc edges))))))"

definition getAppendEdges :: "ModeFormatImpl \<Rightarrow> expr \<Rightarrow> expr \<Rightarrow> expr \<Rightarrow> Mode \<Rightarrow> stmt option res" where
  "getAppendEdges f pPrev pBegin pEnd m =
     (case mf_class f of CompressedClass \<Rightarrow> Compressed_getAppendEdges pPrev pBegin pEnd m | _ \<Rightarrow> ok None)"

text \<open>The size of a level, given that of its parent.\<close>

definition Compressed_getSize :: "expr \<Rightarrow> Mode \<Rightarrow> expr res" where
  "Compressed_getSize szPrev m = bindR (getPosArray m) (\<lambda>pos. Load_make pos szPrev)"

definition level_getSize :: "ModeFormatImpl \<Rightarrow> expr \<Rightarrow> Mode \<Rightarrow> expr option res" where
  "level_getSize f szPrev m =
     (case mf_class f of
        CompressedClass \<Rightarrow> bindR (Compressed_getSize szPrev m) (\<lambda>e. ok (Some e))
      | SingletonClass \<Rightarrow> ok (Some szPrev)
      | DenseClass \<Rightarrow> ok None)"

definition Compressed_getAppendInitEdges :: "fpu \<Rightarrow> expr \<Rightarrow> expr \<Rightarrow> Mode \<Rightarrow> stmt option level" where
  "Compressed_getAppendInitEdges F pPrevBegin pPrevEnd m =
     (if as_Literal pPrevBegin \<noteq> None then
        liftB (bindR (literal_is F pPrevBegin 0) (\<lambda>z. assertR IAssert z (ok None)))
      else
        bindB (liftB (getPosArray m)) (\<lambda>posArray. bindB (getPosCapacity m) (\<lambda>posCapacity.
        if parent_appends m then
          bindB (liftB (doubleSizeIfFull posArray posCapacity pPrevEnd)) (\<lambda>s. retB (Some s))
        else
          bindB (liftB (Mode_getName m)) (\<lambda>n. bindB (new_var (''p'' @ n) Int32) (\<lambda>pVar.
          bindB (liftB (Literal_int 1)) (\<lambda>one. bindB (liftB (Literal_int 0)) (\<lambda>zero.
          bindB (liftB (Add_make pPrevBegin one)) (\<lambda>lb. bindB (liftB (Add_make pPrevEnd one)) (\<lambda>ub.
          bindB (default_For F pVar lb ub one (default_Store posArray pVar zero)) (\<lambda>initPos.
          bindB (atLeastDoubleSizeIfFull posArray posCapacity pPrevEnd) (\<lambda>maybeResizePos.
            retB (Some (Block_make [Some maybeResizePos, Some initPos])))))))))))))"

definition getAppendInitEdges :: "ModeFormatImpl \<Rightarrow> fpu \<Rightarrow> expr \<Rightarrow> expr \<Rightarrow> Mode \<Rightarrow> stmt option level" where
  "getAppendInitEdges f F pPrevBegin pPrevEnd m =
     (case mf_class f of
        CompressedClass \<Rightarrow> Compressed_getAppendInitEdges F pPrevBegin pPrevEnd m
      | _ \<Rightarrow> retB None)"

text \<open>The coordinate array with its capacity variable.\<close>

definition init_coords :: "expr \<Rightarrow> Mode \<Rightarrow> stmt list level" where
  "init_coords defaultCapacity m =
     bindB (getCoordCapacity m) (\<lambda>crdCapacity. bindB (liftB (getCoordArray m)) (\<lambda>crdArray.
     liftB (bindR (VarDecl_make crdCapacity defaultCapacity) (\<lambda>d.
       bindR (Allocate_make crdArray crdCapacity False None False) (\<lambda>a. ok [d, a])))))"

definition Compressed_getAppendInitLevel :: "fpu \<Rightarrow> ModeFormatImpl \<Rightarrow> expr \<Rightarrow> Mode \<Rightarrow> stmt option level" where
  "Compressed_getAppendInitLevel F f szPrev m =
     bindB (liftB (literal_is F szPrev 0)) (\<lambda>szPrevIsZero.
     bindB (liftB (Literal_make_from Int64 (mf_allocSize f) Int32)) (\<lambda>defaultCapacity.
     bindB (liftB (getPosArray m)) (\<lambda>posArray.
     bindB (liftB (Literal_int 0)) (\<lambda>zero. bindB (liftB (Literal_int 1)) (\<lambda>one.
     bindB (liftB (if szPrevIsZero then ok defaultCapacity else Add_make szPrev one)) (\<lambda>initCapacity.
     bindB (if szPrevIsZero
            then bindB (getPosCapacity m) (\<lambda>c. bindB (liftB (VarDecl_make c initCapacity)) (\<lambda>d. retB (c, [d])))
            else retB (initCapacity, [])) (\<lambda>(posCapacity, decl).
     bindB (liftB (Allocate_make posArray posCapacity False None False)) (\<lambda>alloc.
     bindB (if m_parent m \<noteq> None \<and> \<not> parent_appends m \<and> \<not> szPrevIsZero
            then bindB (liftB (Mode_getName m)) (\<lambda>n. bindB (new_var (''p'' @ n) Int32) (\<lambda>pVar.
                   bindB (default_For F pVar one initCapacity one (default_Store posArray pVar zero)) (\<lambda>l. retB [l])))
            else retB []) (\<lambda>initPos.
     bindB (if m_packLoc m + 1 = numModes (m_pack m) then init_coords defaultCapacity m else retB []) (\<lambda>crd.
       retB (Some (Block_make (map Some (decl @ [alloc, default_Store posArray zero zero] @ initPos @ crd))))))))))))))"

definition Singleton_getAppendInitLevel :: "ModeFormatImpl \<Rightarrow> Mode \<Rightarrow> stmt option level" where
  "Singleton_getAppendInitLevel f m =
     (if m_packLoc m + 1 \<noteq> numModes (m_pack m) then retB None
      else bindB (liftB (Literal_make_from Int64 (mf_allocSize f) Int32)) (\<lambda>defaultCapacity.
        bindB (init_coords defaultCapacity m) (\<lambda>ss. retB (Some (Block_make (map Some ss))))))"

definition getAppendInitLevel :: "ModeFormatImpl \<Rightarrow> fpu \<Rightarrow> expr \<Rightarrow> Mode \<Rightarrow> stmt option level" where
  "getAppendInitLevel f F szPrev m =
     (case mf_class f of
        CompressedClass \<Rightarrow> Compressed_getAppendInitLevel F f szPrev m
      | SingletonClass \<Rightarrow> Singleton_getAppendInitLevel f m
      | DenseClass \<Rightarrow> retB None)"

definition Compressed_getAppendFinalizeLevel :: "fpu \<Rightarrow> expr \<Rightarrow> Mode \<Rightarrow> stmt option level" where
  "Compressed_getAppendFinalizeLevel F szPrev m =
     bindB (liftB (literal_is F szPrev 1)) (\<lambda>szPrevIsOne.
     if szPrevIsOne \<or> parent_appends m then retB None
     else
       bindB (liftB (Mode_getName m)) (\<lambda>n.
       bindB (new_var (''cs'' @ n) Int32) (\<lambda>csVar. bindB (liftB (Literal_int 0)) (\<lambda>zero.
       bindB (liftB (VarDecl_make csVar zero)) (\<lambda>initCs.
       bindB (new_var (''p'' @ n) Int32) (\<lambda>pVar. bindB (liftB (getPosArray m)) (\<lambda>posArray.
       bindB (liftB (Load_make posArray pVar)) (\<lambda>loadPos. bindB (liftB (Add_make csVar loadPos)) (\<lambda>cs'.
       bindB (liftB (default_Assign csVar cs')) (\<lambda>incCs. bindB (liftB (Literal_int 1)) (\<lambda>one.
       bindB (liftB (Add_make szPrev one)) (\<lambda>ub.
       bindB (default_For F pVar one ub one (Block_make [Some incCs, Some (default_Store posArray pVar csVar)])) (\<lambda>finalizeLoop.
         retB (Some (Block_make [Some initCs, Some finalizeLoop])))))))))))))))"

definition getAppendFinalizeLevel :: "ModeFormatImpl \<Rightarrow> fpu \<Rightarrow> expr \<Rightarrow> Mode \<Rightarrow> stmt option level" where
  "getAppendFinalizeLevel f F szPrev m =
     (case mf_class f of CompressedClass \<Rightarrow> Compressed_getAppendFinalizeLevel F szPrev m | _ \<Rightarrow> retB None)"

subsection \<open>Assembly by ungrouped insertion\<close>

definition Dense_getAssembledSize :: "expr \<Rightarrow> Mode \<Rightarrow> expr res" where
  "Dense_getAssembledSize prevSize m = bindR (getWidth m) (Mul_make prevSize)"

definition Compressed_getAssembledSize :: "expr \<Rightarrow> Mode \<Rightarrow> expr res" where
  "Compressed_getAssembledSize prevSize m = bindR (getPosArray m) (\<lambda>pos. Load_make pos prevSize)"

definition getAssembledSize :: "ModeFormatImpl \<Rightarrow> expr \<Rightarrow> Mode \<Rightarrow> expr res" where
  "getAssembledSize f prevSize m =
     (case mf_class f of
        DenseClass \<Rightarrow> Dense_getAssembledSize prevSize m
      | CompressedClass \<Rightarrow> Compressed_getAssembledSize prevSize m
      | SingletonClass \<Rightarrow> ok prevSize)"

definition Compressed_getSeqInitEdges :: "expr \<Rightarrow> Mode \<Rightarrow> stmt option res" where
  "Compressed_getSeqInitEdges prevSize m =
     bindR (getPosArray m) (\<lambda>posArray. bindR (Literal_int 1) (\<lambda>one. bindR (Add_make prevSize one) (\<lambda>n.
     bindR (Allocate_make posArray n False None False) (\<lambda>a. bindR (Literal_int 0) (\<lambda>zero.
       ok (Some (Block_make [Some a, Some (default_Store posArray zero zero)])))))))"

definition getSeqInitEdges :: "ModeFormatImpl \<Rightarrow> expr \<Rightarrow> Mode \<Rightarrow> stmt option res" where
  "getSeqInitEdges f prevSize m =
     (case mf_class f of CompressedClass \<Rightarrow> Compressed_getSeqInitEdges prevSize m | _ \<Rightarrow> ok None)"

definition Compressed_getSeqInsertEdge :: "expr \<Rightarrow> expr list \<Rightarrow> AttrQueryResult list \<Rightarrow> Mode \<Rightarrow> stmt option build" where
  "Compressed_getSeqInsertEdge parentPos coords queries m =
     bindB (liftB (getPosArray m)) (\<lambda>posArray. bindB (liftB (Load_make posArray parentPos)) (\<lambda>prevPos.
     bindB (liftB (vector_get queries 0)) (\<lambda>q. bindB (getResult q coords) (\<lambda>nnz.
     liftB (bindR (Add_make prevPos nnz) (\<lambda>pos. bindR (Literal_int 1) (\<lambda>one.
       bindR (Add_make parentPos one) (\<lambda>loc. ok (Some (default_Store posArray loc pos))))))))))"

definition getSeqInsertEdge :: "ModeFormatImpl \<Rightarrow> expr \<Rightarrow> expr list \<Rightarrow> AttrQueryResult list \<Rightarrow> Mode \<Rightarrow> stmt option build" where
  "getSeqInsertEdge f parentPos coords queries m =
     (case mf_class f of CompressedClass \<Rightarrow> Compressed_getSeqInsertEdge parentPos coords queries m | _ \<Rightarrow> retB None)"

definition Compressed_getInitCoords :: "expr \<Rightarrow> Mode \<Rightarrow> stmt option res" where
  "Compressed_getInitCoords prevSize m =
     bindR (getPosArray m) (\<lambda>pos. bindR (getCoordArray m) (\<lambda>crd. bindR (Load_make pos prevSize) (\<lambda>n.
       bindR (Allocate_make crd n False None False) (\<lambda>a. ok (Some a)))))"

definition Singleton_getInitCoords :: "expr \<Rightarrow> Mode \<Rightarrow> stmt option res" where
  "Singleton_getInitCoords prevSize m =
     bindR (getCoordArray m) (\<lambda>crd. bindR (Allocate_make crd prevSize False None False) (\<lambda>a. ok (Some a)))"

definition getInitCoords :: "ModeFormatImpl \<Rightarrow> expr \<Rightarrow> Mode \<Rightarrow> stmt option res" where
  "getInitCoords f prevSize m =
     (case mf_class f of
        CompressedClass \<Rightarrow> Compressed_getInitCoords prevSize m
      | SingletonClass \<Rightarrow> Singleton_getInitCoords prevSize m
      | DenseClass \<Rightarrow> ok None)"

text \<open>All formats have the default: nothing.\<close>

definition getInitYieldPos :: "ModeFormatImpl \<Rightarrow> stmt option" where
  "getInitYieldPos f = None"

definition Compressed_getYieldPos :: "expr \<Rightarrow> Mode \<Rightarrow> mode_function level" where
  "Compressed_getYieldPos parentPos m =
     bindB (liftB (getPosArray m)) (\<lambda>ptrArr. bindB (liftB (Load_make ptrArr parentPos)) (\<lambda>loadPtr.
     bindB (liftB (Mode_getName m)) (\<lambda>n. bindB (new_var (''p'' @ n) Int32) (\<lambda>pVar.
     bindB (liftB (VarDecl_make pVar loadPtr)) (\<lambda>getPtr. bindB (liftB (Literal_int 1)) (\<lambda>one.
     bindB (liftB (Add_make loadPtr one)) (\<lambda>inc.
       retB (Some \<lparr>mf_body = Some (Block_make [Some getPtr, Some (default_Store ptrArr parentPos inc)]),
                  mf_results = [pVar]\<rparr>))))))))"

definition getYieldPos :: "ModeFormatImpl \<Rightarrow> expr \<Rightarrow> expr list \<Rightarrow> Mode \<Rightarrow> mode_function level" where
  "getYieldPos f parentPos coords m =
     (case mf_class f of
        DenseClass \<Rightarrow> liftB (Dense_locate parentPos coords m)
      | CompressedClass \<Rightarrow> Compressed_getYieldPos parentPos m
      | SingletonClass \<Rightarrow> retB (Some \<lparr>mf_body = None, mf_results = [parentPos]\<rparr>))"

definition Compressed_getInsertCoord :: "expr \<Rightarrow> expr list \<Rightarrow> Mode \<Rightarrow> stmt option res" where
  "Compressed_getInsertCoord pos coords m =
     assertR IAssert (m_packLoc m = 0)
      (bindR (getCoordArray m) (\<lambda>crd. bindR (stride m) (\<lambda>k. bindR (Mul_make pos k) (\<lambda>loc.
       bindR (vector_back coords) (\<lambda>c. ok (Some (default_Store crd loc c)))))))"

definition Singleton_getInsertCoord :: "expr \<Rightarrow> expr list \<Rightarrow> Mode \<Rightarrow> stmt option res" where
  "Singleton_getInsertCoord parentPos coords m =
     bindR (getCoordArray m) (\<lambda>crd. bindR (stride m) (\<lambda>k. bindR (offset m) (\<lambda>o'.
     bindR (Mul_make parentPos k) (\<lambda>p. bindR (Add_make p o') (\<lambda>loc.
     bindR (vector_back coords) (\<lambda>c. ok (Some (default_Store crd loc c))))))))"

definition getInsertCoord :: "ModeFormatImpl \<Rightarrow> expr \<Rightarrow> expr \<Rightarrow> expr list \<Rightarrow> Mode \<Rightarrow> stmt option res" where
  "getInsertCoord f parentPos pos coords m =
     (case mf_class f of
        CompressedClass \<Rightarrow> Compressed_getInsertCoord pos coords m
      | SingletonClass \<Rightarrow> Singleton_getInsertCoord parentPos coords m
      | DenseClass \<Rightarrow> ok None)"

definition Compressed_getFinalizeYieldPos :: "fpu \<Rightarrow> expr \<Rightarrow> Mode \<Rightarrow> stmt option level" where
  "Compressed_getFinalizeYieldPos F prevSize m =
     bindB (liftB (getPosArray m)) (\<lambda>posArr. bindB (new_var ''p'' Int32) (\<lambda>pVar.
     bindB (liftB (Literal_int 0)) (\<lambda>zero. bindB (liftB (Literal_int 1)) (\<lambda>one.
     bindB (liftB (Sub_make prevSize pVar)) (\<lambda>dst. bindB (liftB (Sub_make dst one)) (\<lambda>src.
     bindB (liftB (Load_make posArr src)) (\<lambda>load.
     bindB (default_For F pVar zero prevSize one (default_Store posArr dst load)) (\<lambda>resetLoop.
       retB (Some (Block_make [Some resetLoop, Some (default_Store posArr zero zero)]))))))))))"

definition getFinalizeYieldPos :: "ModeFormatImpl \<Rightarrow> fpu \<Rightarrow> expr \<Rightarrow> Mode \<Rightarrow> stmt option level" where
  "getFinalizeYieldPos f F prevSize m =
     (case mf_class f of CompressedClass \<Rightarrow> Compressed_getFinalizeYieldPos F prevSize m | _ \<Rightarrow> retB None)"

end
