(* ===== verification/Counted_Loops.thy ===== *)
theory Counted_Loops
  imports For_Bound
begin

text \<open>
  Executions of straight-line code and of counting loops over 32-bit indices, as the level functions emit
  them: \<open>runs_to\<close> says that a statement ends normally, and in one state only.
\<close>

named_theorems int_rules \<open>values of 32-bit expressions\<close>

subsection \<open>32-bit expressions\<close>

definition fits :: "int \<Rightarrow> bool" where
  "fits x \<longleftrightarrow> - (2 ^ 31) \<le> x \<and> x < 2 ^ 31"

lemma conv_fits [simp]: "fits x \<Longrightarrow> conv Int32 x = x"
  by (simp add: conv_def fits_def wrapS_id kind_preds)

lemma fits_between: "a \<le> x \<Longrightarrow> x \<le> b \<Longrightarrow> fits a \<Longrightarrow> fits b \<Longrightarrow> fits x"
  by (simp add: fits_def)

lemma fits_small [simp]: "fits 0" "fits 1" "fits 2"
  by (simp_all add: fits_def)

text \<open>An \<open>int\<close> expression with its value.\<close>

definition int_value :: "fpu \<Rightarrow> state \<Rightarrow> expr \<Rightarrow> int \<Rightarrow> bool" where
  "int_value F s e x \<longleftrightarrow> etype e = Int32 \<and> eval F s e = ok x \<and> fits x"

lemma int_valueD: "int_value F s e x \<Longrightarrow> etype e = Int32" "int_value F s e x \<Longrightarrow> eval F s e = ok x"
  "int_value F s e x \<Longrightarrow> fits x"
  by (simp_all add: int_value_def)

lemma Literal_int_value:
  assumes "Literal_int n = ok e" "fits n"
  shows "int_value F s e n" "\<not> isVar e" "scalar_reads e = []" "array_reads e = []" "\<exists>u. e = Literal Int32 u"
proof -
  have "isIntegral Int32" by (simp add: isIntegral_def kind_preds)
  from Literal_make_from_value [OF assms(1) [unfolded Literal_int_def] this this]
  obtain u where "e = Literal Int32 u" "member_get Int32 u = conv Int32 n" by blast
  then show "int_value F s e n" "\<not> isVar e" "scalar_reads e = []" "array_reads e = []" "\<exists>u. e = Literal Int32 u"
    using assms(2) by (simp_all add: int_value_def isVar_def)
qed

lemma int_make:
  assumes "etype a = Int32" "etype b = Int32"
  shows "Add_make a b = ok (Add Int32 a b)" "Sub_make a b = ok (Sub Int32 a b)" "Mul_make a b = ok (Mul Int32 a b)"
  using assms by (simp_all add: makes max_expr_type_def kind_preds)

lemma int_binary [int_rules]:
  assumes "int_value F s a x" "int_value F s b y"
  shows "fits (x + y) \<Longrightarrow> int_value F s (Add Int32 a b) (x + y)"
    "fits (x - y) \<Longrightarrow> int_value F s (Sub Int32 a b) (x - y)"
    "fits (x * y) \<Longrightarrow> int_value F s (Mul Int32 a b) (x * y)"
  using assms
  by (simp_all add: int_value_def binary_value_def is_arith_def arith_def convert_def isIntegral_def kind_preds)

lemma int_var [int_rules]:
  "scalars s (LVar ad) = Some x \<Longrightarrow> fits x \<Longrightarrow> int_value F s (Var ad nm Int32 False False m) x"
  by (simp add: int_value_def typed_def read_scalar_def)

lemma int_load [int_rules]:
  assumes "int_value F s loc i" "etype arr = Int32" "location_of arr = Some L" "arrays s L = Some xs"
    "0 \<le> i" "i < int (length xs)" "fits (xs ! nat i)"
  shows "int_value F s (Load Int32 arr loc) (xs ! nat i)"
  using assms by (simp add: int_value_def typed_def read_array_def)

lemma int_less:
  assumes "int_value F s a x" "int_value F s b y"
  shows "eval F s (Binary OpLt Bool a b) = ok (of_bool (x < y))"
    and "eval F s (Binary OpLte Bool a b) = ok (of_bool (x \<le> y))"
  using assms
  by (auto simp: int_value_def binary_value_def is_arith_def compare_def convert_def kind_preds)

lemma int_value_frame:
  assumes "int_value F s e x" "frame W A s s'" "set (scalar_reads e) \<inter> W = {}" "set (array_reads e) \<inter> A = {}"
  shows "int_value F s' e x"
  using assms(1) frame_eval [OF assms(2-4), of F] by (simp add: int_value_def)

lemma frame_set_scalar: "frame {l} {} s (set_scalar l x s)"
  by (simp add: frame_def set_scalar_def)

lemma frame_set_array: "frame {} {l} s (set_array l x s)"
  by (simp add: frame_def set_array_def)

subsection \<open>Statements that end in one state\<close>

definition runs_to :: "fpu \<Rightarrow> stmt \<Rightarrow> state \<Rightarrow> state \<Rightarrow> bool" where
  "runs_to F b s s' \<longleftrightarrow> (\<forall>fl s2. exec F b s fl s2 \<longleftrightarrow> fl = Fall \<and> s2 = s')"

definition all_run_to :: "fpu \<Rightarrow> stmt list \<Rightarrow> state \<Rightarrow> state \<Rightarrow> bool" where
  "all_run_to F bs s s' \<longleftrightarrow> (\<forall>fl s2. execs F bs s fl s2 \<longleftrightarrow> fl = Fall \<and> s2 = s')"

definition loops_to :: "fpu \<Rightarrow> expr \<Rightarrow> (expr \<times> expr) option \<Rightarrow> stmt \<Rightarrow> state \<Rightarrow> state \<Rightarrow> bool" where
  "loops_to F c upd b s s' \<longleftrightarrow> (\<forall>s2. loops F c upd b s s2 \<longleftrightarrow> s2 = s')"

lemma runs_to_Block: "all_run_to F bs s s' \<Longrightarrow> runs_to F (Block bs) s s'"
  by (simp add: runs_to_def all_run_to_def exec_simps)

lemma runs_to_Scope: "runs_to F b s s' \<Longrightarrow> runs_to F (Scope b) s s'"
  by (simp add: runs_to_def exec_simps)

lemma runs_to_Scope_make: "runs_to F b s s' \<Longrightarrow> runs_to F (Scope_make b) s s'"
  by (simp add: runs_to_def)

lemma all_run_to_Nil [simp]: "all_run_to F [] s s"
  by (auto simp: all_run_to_def execs_simps)

lemma all_run_to_Cons: "runs_to F b s s1 \<Longrightarrow> all_run_to F bs s1 s' \<Longrightarrow> all_run_to F (b # bs) s s'"
  by (auto simp: runs_to_def all_run_to_def execs_simps)

lemma execs_filter_iff: "execs F (filter (\<lambda>s. s \<noteq> Block []) ss) st fl st' \<longleftrightarrow> execs F ss st fl st'"
proof
  show "execs F ss st fl st'" if "execs F (filter (\<lambda>s. s \<noteq> Block []) ss) st fl st'"
    using that
  proof (induction ss arbitrary: st)
    case (Cons s ss)
    show ?case
    proof (cases "s = Block []")
      case True
      have "exec F s st Fall st" unfolding True by (simp add: exec_simps execs_simps)
      have "execs F ss st fl st'" using Cons True by simp
      with \<open>exec F s st Fall st\<close> show ?thesis by (rule exec_execs_loops.Cons)
    next
      case False
      with Cons show ?thesis by (auto simp: execs_simps)
    qed
  qed simp
qed (rule execs_filter)

lemma runs_to_Block_make: "all_run_to F bs s s' \<Longrightarrow> runs_to F (Block_make (map Some bs)) s s'"
  by (simp add: runs_to_def all_run_to_def exec_simps Block_make_Some execs_filter_iff)

lemma runs_to_Block_make2:
  "runs_to F a s s1 \<Longrightarrow> runs_to F b s1 s' \<Longrightarrow> runs_to F (Block_make [Some a, Some b]) s s'"
  using runs_to_Block_make [of F "[a, b]" s s'] all_run_to_Cons [of F a s s1 "[b]" s'] all_run_to_Cons [of F b s1 s' "[]" s']
  by simp

lemma runs_to_Store:
  assumes "location_of arr = Some L" "etype arr = Int32" "arrays s L = Some xs"
    "int_value F s loc i" "0 \<le> i" "i < int (length xs)" "int_value F s d x"
  shows "runs_to F (Store arr loc d at pu) s (set_array L (Some (xs[nat i := x])) s)"
  using assms by (auto simp: runs_to_def exec_simps store_def int_value_def convert_def)

lemma int_assign:
  assumes "location_of v = Some l" "etype v = Int32" "int_value F s r x"
  shows "assign F v r s = ok (set_scalar l x s)"
  using assms by (simp add: assign_def int_value_def convert_def)

lemma runs_to_Assign:
  assumes "location_of v = Some l" "etype v = Int32" "int_value F s r x"
  shows "runs_to F (Assign v r at pu) s (set_scalar l x s)" "runs_to F (VarDecl v r) s (set_scalar l x s)"
  using int_assign [OF assms] by (auto simp: runs_to_def exec_simps)

lemma runs_to_If:
  assumes "eval F s c = ok x"
  shows "x \<noteq> 0 \<Longrightarrow> runs_to F t s s' \<Longrightarrow> runs_to F (IfThenElse c t f) s s'"
    and "x = 0 \<Longrightarrow> runs_to F (IfThenElse c t None) s s"
  using assms by (auto simp: runs_to_def exec_simps)

subsection \<open>Counting loops\<close>

inductive_cases loopsE: "loops F c upd b s s'"

lemma loops_to_exit: "eval F s c = ok 0 \<Longrightarrow> loops_to F c upd b s s"
  by (auto simp: loops_to_def elim: loopsE intro: exec_execs_loops.Exit)

lemma loops_to_step:
  assumes "eval F s c = ok x" "x \<noteq> 0" "runs_to F b s s1" "advance F upd s1 = ok s2" "loops_to F c upd b s2 s'"
  shows "loops_to F c upd b s s'"
  unfolding loops_to_def
proof (intro allI iffI)
  fix t assume "loops F c upd b s t"
  then show "t = s'"
    by (rule loopsE) (use assms in \<open>simp_all add: loops_to_def runs_to_def\<close>)
next
  fix t assume "t = s'"
  moreover have "exec F b s Fall s1" "loops F c upd b s2 s'" using assms by (simp_all add: runs_to_def loops_to_def)
  ultimately show "loops F c upd b s t"
    using exec_execs_loops.Loop [OF assms(1,2) _ _ assms(4)] by blast
qed

text \<open>The states at the start of the iterations are a family indexed by the loop variable.\<close>

lemma counting_loop_runs:
  assumes v: "v = Var ad nm Int32 False False m" and one: "\<And>s. int_value F s one 1"
    and fits: "fits lo" "fits hi" and le: "lo \<le> hi"
    and var: "\<And>k. lo \<le> k \<Longrightarrow> k \<le> hi \<Longrightarrow> scalars (st k) (LVar ad) = Some k"
    and bound: "\<And>k. lo \<le> k \<Longrightarrow> k \<le> hi \<Longrightarrow> int_value F (st k) e hi"
    and body: "\<And>k. lo \<le> k \<Longrightarrow> k < hi \<Longrightarrow> \<exists>s1. runs_to F b (st k) s1 \<and> scalars s1 (LVar ad) = Some k \<and>
      set_scalar (LVar ad) (k + 1) s1 = st (k + 1)"
  shows "loops_to F (Binary OpLt Bool v e) (Some (v, one)) b (st lo) (st hi)"
proof -
  have "loops_to F (Binary OpLt Bool v e) (Some (v, one)) b (st k) (st hi)"
    if "lo \<le> k" "k \<le> hi" "nat (hi - k) = n" for k n
    using that
  proof (induction n arbitrary: k)
    case 0
    then have k: "k = hi" by simp
    with 0 have "int_value F (st k) v hi" unfolding v by (intro int_var) (use var fits in auto)
    from int_less(1) [OF this bound [OF 0(1,2)]] show ?case unfolding k by (intro loops_to_exit) simp
  next
    case (Suc n)
    then have k: "k < hi" by simp
    have fk: "fits k" "fits (k + 1)" using Suc(2) k fits by (auto simp: fits_def)
    have "int_value F (st k) v k" unfolding v by (intro int_var) (use var Suc(2,3) fk in auto)
    from int_less(1) [OF this bound [OF Suc(2,3)]] k
    have c: "eval F (st k) (Binary OpLt Bool v e) = ok 1" by simp
    from body [OF Suc(2) k] obtain s1 where s1: "runs_to F b (st k) s1" "scalars s1 (LVar ad) = Some k"
      "set_scalar (LVar ad) (k + 1) s1 = st (k + 1)" by blast
    have "int_value F s1 v k" unfolding v by (intro int_var) (use s1 fk in auto)
    from int_binary(1) [OF this one fk(2)]
    have "int_value F s1 (Add Int32 v one) (k + 1)" .
    then have "advance F (Some (v, one)) s1 = ok (st (k + 1))"
      using int_assign [of v "LVar ad" F s1 "Add Int32 v one" "k + 1"] s1(3) by (simp add: advance_def v)
    from loops_to_step [OF c _ s1(1) this Suc(1)] Suc(2-) k show ?case by simp
  qed
  from this [of lo] le show ?thesis by simp
qed

text \<open>A loop from \<open>For::make\<close>, whose bound is a variable or is cached in a fresh one.\<close>

lemma array_accesses_kept: "rewrite_array_accesses F s = ok s' \<Longrightarrow> s' = s"
  by (auto simp: rewrite_array_accesses_def res_simps)

lemma For_make_form:
  assumes "For_make F v a e i body k pu uf vw b = ok (s', b')"
  shows "if isVar e then s' = Block [For v a e i (Scope_make body) k pu uf vw] \<and> b' = b
    else \<exists>nm. s' = Block [VarDecl (Var (next_addr b) nm (etype e) False False False) e,
        For v a (Var (next_addr b) nm (etype e) False False False) i (Scope_make body) k pu uf vw] \<and>
      next_addr b' = Suc (next_addr b)"
  using assms
  by (auto simp: For_make_def res_simps fresh_def Var_make_def VarDecl_make_def Let_def isVar_def
      dest: array_accesses_kept split: if_splits)

lemma runs_to_For:
  assumes "location_of v = Some l" "etype v = Int32" "int_value F s a x"
    "loops_to F (Binary OpLt Bool v e) (Some (v, i)) b (set_scalar l x s) s'"
  shows "runs_to F (For v a e i b k pu uf vw) s s'"
proof -
  note a = int_assign [OF assms(1-3)]
  have "loops F (Binary OpLt Bool v e) (Some (v, i)) b (set_scalar l x s) t \<longleftrightarrow> t = s'" for t
    using assms(4) by (simp add: loops_to_def)
  note l = this
  show ?thesis
    unfolding runs_to_def
  proof (intro allI iffI)
    fix fl t assume "exec F (For v a e i b k pu uf vw) s fl t"
    then show "fl = Fall \<and> t = s'" by (rule ForE) (use a l in simp_all)
  next
    fix fl t assume "fl = Fall \<and> t = s'"
    with exec_execs_loops.For [OF a] l show "exec F (For v a e i b k pu uf vw) s fl t" by simp
  qed
qed

text \<open>A counting loop made by \<open>For::make\<close>, over a family of states that starts after the bound is cached.\<close>

definition bound_cached :: "builder \<Rightarrow> expr \<Rightarrow> int \<Rightarrow> state \<Rightarrow> state" where
  "bound_cached b e hi s = (if isVar e then s else set_scalar (LVar (next_addr b)) hi s)"

lemma counted_For_make:
  assumes "For_make F v a e one body k pu uf vw b = ok (st, b')"
    and v: "v = Var ad nm Int32 False False m" and one: "\<And>s. int_value F s one 1"
    and e: "int_value F s e hi" and a: "int_value F (bound_cached b e hi s) a lo" and le: "lo \<le> hi"
    and start: "fam lo = set_scalar (LVar ad) lo (bound_cached b e hi s)"
    and var: "\<And>k. lo \<le> k \<Longrightarrow> k \<le> hi \<Longrightarrow> scalars (fam k) (LVar ad) = Some k"
    and bound: "\<And>k. lo \<le> k \<Longrightarrow> k \<le> hi \<Longrightarrow>
      (if isVar e then int_value F (fam k) e hi else scalars (fam k) (LVar (next_addr b)) = Some hi)"
    and body: "\<And>k. lo \<le> k \<Longrightarrow> k < hi \<Longrightarrow> \<exists>s1. runs_to F body (fam k) s1 \<and> scalars s1 (LVar ad) = Some k \<and>
      set_scalar (LVar ad) (k + 1) s1 = fam (k + 1)"
  shows "runs_to F st s (fam hi)"
proof -
  note fits = int_valueD(3) [OF a] int_valueD(3) [OF e]
  have loop: "runs_to F (For v a e' one (Scope_make body) k pu uf vw) (bound_cached b e hi s) (fam hi)"
    if e': "\<And>k. lo \<le> k \<Longrightarrow> k \<le> hi \<Longrightarrow> int_value F (fam k) e' hi" for e'
  proof (rule runs_to_For [OF _ _ a])
    have "loops_to F (Binary OpLt Bool v e') (Some (v, one)) (Scope_make body) (fam lo) (fam hi)"
      by (rule counting_loop_runs [OF v one fits le var e']) (use body in \<open>auto intro: runs_to_Scope_make\<close>)
    then show "loops_to F (Binary OpLt Bool v e') (Some (v, one)) (Scope_make body)
        (set_scalar (LVar ad) lo (bound_cached b e hi s)) (fam hi)" by (simp add: start)
  qed (simp_all add: v)
  show ?thesis
  proof (cases "isVar e")
    case True
    with For_make_form [OF assms(1)] loop [of e] bound show ?thesis
      by (auto simp: bound_cached_def intro!: runs_to_Block all_run_to_Cons)
  next
    case False
    then obtain nm' where st: "st = Block [VarDecl (Var (next_addr b) nm' (etype e) False False False) e,
        For v a (Var (next_addr b) nm' (etype e) False False False) one (Scope_make body) k pu uf vw]"
      using For_make_form [OF assms(1)] by auto
    have t: "etype e = Int32" by (rule int_valueD(1) [OF e])
    have "runs_to F (VarDecl (Var (next_addr b) nm' Int32 False False False) e) s (bound_cached b e hi s)"
      using runs_to_Assign(2) [of "Var (next_addr b) nm' Int32 False False False" "LVar (next_addr b)", OF _ _ e] False
      by (simp add: bound_cached_def)
    moreover have "runs_to F (For v a (Var (next_addr b) nm' Int32 False False False) one (Scope_make body) k pu uf vw)
        (bound_cached b e hi s) (fam hi)"
      by (rule loop, rule int_var) (use bound False fits in auto)
    ultimately have "all_run_to F [VarDecl (Var (next_addr b) nm' Int32 False False False) e,
        For v a (Var (next_addr b) nm' Int32 False False False) one (Scope_make body) k pu uf vw] s (fam hi)"
      using all_run_to_Cons all_run_to_Nil by blast
    then show ?thesis unfolding st t by (rule runs_to_Block)
  qed
qed

end
