(* ===== verification/Level_Sound.thy ===== *)
theory Level_Sound
  imports Level_Functions Counted_Loops
begin

text \<open>
  What the level functions mean: locating in a dense level, iterating over compressed and singleton levels
  (the interface \<open>coordinate_level\<close>), and the assembly of compressed levels.
\<close>

subsection \<open>Dense levels\<close>

text \<open>The literals the level functions build always exist.\<close>

lemma Literal_int_ok:
  assumes "fits n"
  shows "\<exists>u. Literal_int n = ok (Literal Int32 u) \<and> (\<forall>F s. int_value F s (Literal Int32 u) n)"
proof -
  have i: "isIntegral Int32" by (simp add: isIntegral_def kind_preds)
  from Literal_make_from_returns [OF i order.refl] obtain u where u: "Literal_int n = ok (Literal Int32 u)"
    by (auto simp: Literal_int_def)
  have "int_value F s (Literal Int32 u) n" for F s by (rule Literal_int_value(1) [OF u assms])
  with u show ?thesis by blast
qed

lemma Literal_bool_ok: "\<exists>l. Literal_bool True = ok l \<and> (\<forall>F s. eval F s l = ok 1)"
proof -
  have "conv Bool 1 = 1" by (simp add: conv_def)
  then show ?thesis
    by (simp add: Literal_bool_def Literal_make_from_def tc_set_def Literal_make_def getNumBytes_def)
qed

lemma row_major:
  fixes x i n :: int
  assumes "0 \<le> x" "x < p" "0 \<le> i" "i < n"
  shows "0 \<le> x * n" "x * n + i < p * n" "(x * n + i) div n = x" "(x * n + i) mod n = i"
proof -
  have "(x + 1) * n \<le> p * n" using assms by (intro mult_right_mono) auto
  with assms(4) show "x * n + i < p * n" by (simp add: distrib_right)
  show "0 \<le> x * n" using assms by simp
  show "(x * n + i) div n = x" "(x * n + i) mod n = i" using assms by simp_all
qed

text \<open>(C19) Locating in a dense level is row-major: it always finds a position, the position is inside the
  level that is allocated for the parent's size, and the parent position and the coordinate can be
  recovered from it, so different coordinates get different positions.\<close>

theorem dense_locate_row_major:
  assumes "getWidth m = ok w" "int_value F s w n" "int_value F s parent x" "int_value F s coord i"
    "int_value F s sz p" "0 \<le> x" "x < p" "0 \<le> i" "i < n" "fits (p * n)"
  shows "\<exists>pos found size'. locate (DenseModeFormat ord uni zl) parent (outer @ [coord]) m =
      ok (Some \<lparr>mf_body = None, mf_results = [pos, found]\<rparr>) \<and>
    getAssembledSize (DenseModeFormat ord uni zl) sz m = ok size' \<and>
    int_value F s pos (x * n + i) \<and> eval F s found = ok 1 \<and> int_value F s size' (p * n) \<and>
    0 \<le> x * n + i \<and> x * n + i < p * n \<and> (x * n + i) div n = x \<and> (x * n + i) mod n = i"
proof -
  note r = row_major [OF assms(6-9)]
  have f: "fits (x * n)" "fits (x * n + i)"
    using r(1,2) assms(8,10) by (auto simp: fits_def)
  obtain l where l: "Literal_bool True = ok l" "\<And>F s. eval F s l = ok 1" using Literal_bool_ok by blast
  note t = int_valueD(1) [OF assms(2)] int_valueD(1) [OF assms(3)] int_valueD(1) [OF assms(4)] int_valueD(1) [OF assms(5)]
  have m: "int_value F s (Mul Int32 parent w) (x * n)" by (rule int_binary(3) [OF assms(3,2) f(1)])
  have a: "int_value F s (Add Int32 (Mul Int32 parent w) coord) (x * n + i)" by (rule int_binary(1) [OF m assms(4) f(2)])
  have z: "int_value F s (Mul Int32 sz w) (p * n)" by (rule int_binary(3) [OF assms(5,2,10)])
  have "locate (DenseModeFormat ord uni zl) parent (outer @ [coord]) m =
      ok (Some \<lparr>mf_body = None, mf_results = [Add Int32 (Mul Int32 parent w) coord, l]\<rparr>)"
    by (simp add: locate_def Dense_locate_def results_def assms(1) int_make t vector_back_def l)
  moreover have "getAssembledSize (DenseModeFormat ord uni zl) sz m = ok (Mul Int32 sz w)"
    by (simp add: getAssembledSize_def Dense_getAssembledSize_def assms(1) int_make t)
  ultimately show ?thesis using a z l(2) r assms(8) by auto
qed

lemma dense_locate_row_major_witness:
  "\<forall>s. \<exists>pos found. locate (DenseModeFormat True True False) (Literal Int32 3) [Literal Int32 2]
      \<lparr>m_tensor = Literal Int32 0, m_size = \<lparr>dim_size = 5, dim_indexVar = None\<rparr>, m_level = 1, m_format = Dense,
       m_pack = \<lparr>numModes = 1, pack_arrays = []\<rparr>, m_packLoc = 0, m_parent = None\<rparr> =
    ok (Some \<lparr>mf_body = None, mf_results = [pos, found]\<rparr>) \<and> int_value fpu_null s pos 17"
proof (rule allI)
  fix s
  let ?m = "\<lparr>m_tensor = Literal Int32 0, m_size = \<lparr>dim_size = 5, dim_indexVar = None\<rparr>, m_level = 1, m_format = Dense,
       m_pack = \<lparr>numModes = 1, pack_arrays = []\<rparr>, m_packLoc = 0, m_parent = None\<rparr>"
  have lit: "int_value fpu_null s (Literal Int32 n) (member_get Int32 n)" for n
    using wrapS_range [of 32 "uint n"]
    by (simp add: int_value_def fits_def member_get_def read_bits_def kind_preds)
  have v: "member_get Int32 3 = 3" "member_get Int32 2 = 2" "member_get Int32 4 = 4" by code_simp+
  have f: "fits 5" "fits 20" by (simp_all add: fits_def)
  from Literal_int_ok [OF f(1)] obtain u where u: "Literal_int 5 = ok (Literal Int32 u)"
    "int_value fpu_null s (Literal Int32 u) 5" by blast
  have w: "getWidth ?m = ok (Literal Int32 u)" by (simp add: getWidth_def u)
  from dense_locate_row_major [OF w u(2) lit [of 3] lit [of 2] lit [of 4], of True True False "[]"] v f
  show "\<exists>pos found. locate (DenseModeFormat True True False) (Literal Int32 3) [Literal Int32 2] ?m =
      ok (Some \<lparr>mf_body = None, mf_results = [pos, found]\<rparr>) \<and> int_value fpu_null s pos 17" by auto
qed

subsection \<open>Iteration\<close>

text \<open>The positions of the children of parent position \<open>k\<close> start after those of the ones before.\<close>

definition start_of :: "int list list \<Rightarrow> nat \<Rightarrow> int" where
  "start_of segs k = int (length (concat (take k segs)))"

lemma start_of_simps [simp]:
  "start_of segs 0 = 0" "start_of segs (length segs) = int (length (concat segs))"
  "k < length segs \<Longrightarrow> start_of segs (Suc k) = start_of segs k + int (length (segs ! k))"
  by (simp_all add: start_of_def take_Suc_conv_app_nth)

lemma start_of_nonneg: "0 \<le> start_of segs k"
  by (simp add: start_of_def)

lemma start_of_le: "start_of segs k \<le> int (length (concat segs))"
proof -
  have "length (concat segs) = length (concat (take k segs)) + length (concat (drop k segs))"
    by (metis append_take_drop_id concat_append length_append)
  then show ?thesis by (simp add: start_of_def)
qed

lemma nth_concat_segment:
  assumes "k < length segs" "j < length (segs ! k)"
  shows "concat segs ! (nat (start_of segs k) + j) = segs ! k ! j"
proof -
  have "concat segs = concat (take k segs) @ segs ! k @ concat (drop (Suc k) segs)"
    using assms(1) by (metis append_take_drop_id concat.simps(2) concat_append Cons_nth_drop_Suc)
  then show ?thesis using assms(2) by (simp add: start_of_def nth_append)
qed

text \<open>The coordinates a loop over the positions of a parent position visits: from the lower to the upper
  bound, the first result of the access function.\<close>

definition first_result :: "fpu \<Rightarrow> state \<Rightarrow> mode_function \<Rightarrow> int res" where
  "first_result F s r = (case r of Some f \<Rightarrow> (case mf_results f of e # _ \<Rightarrow> eval F s e | [] \<Rightarrow> err BadMemory) | None \<Rightarrow> err BadMemory)"

definition visits :: "fpu \<Rightarrow> state \<Rightarrow> mode_function res \<Rightarrow> (expr \<Rightarrow> mode_function res) \<Rightarrow> int list res" where
  "visits F s bounds access =
     bindR bounds (\<lambda>r. case r of None \<Rightarrow> err BadMemory | Some f \<Rightarrow>
       (case mf_results f of
          [b, e] \<Rightarrow>
            bindR (eval F s b) (\<lambda>lo. bindR (eval F s e) (\<lambda>hi.
              mapR (\<lambda>q. bindR (Literal_int q) (\<lambda>l. bindR (access l) (first_result F s))) [lo..hi - 1]))
        | _ \<Rightarrow> err BadMemory))"

text \<open>The interface: in a state that stores the segments, the bounds of a parent position delimit its
  segment and the access function reads the coordinates.\<close>

locale coordinate_level =
  fixes F :: fpu
    and stores :: "state \<Rightarrow> int list list \<Rightarrow> bool"
    and bounds :: "expr \<Rightarrow> mode_function res"
    and access :: "expr \<Rightarrow> mode_function res"
  assumes small: "stores s segs \<Longrightarrow> fits (int (length (concat segs)))"
    and bounds: "stores s segs \<Longrightarrow> int_value F s p (int k) \<Longrightarrow> k < length segs \<Longrightarrow>
      \<exists>b e. bounds p = ok (Some \<lparr>mf_body = None, mf_results = [b, e]\<rparr>) \<and>
        int_value F s b (start_of segs k) \<and> int_value F s e (start_of segs (Suc k))"
    and access: "stores s segs \<Longrightarrow> int_value F s q (int j) \<Longrightarrow> j < length (concat segs) \<Longrightarrow>
      \<exists>c found. access q = ok (Some \<lparr>mf_body = None, mf_results = [c, found]\<rparr>) \<and>
        int_value F s c (concat segs ! j) \<and> eval F s found = ok 1"
begin

lemma visits_segment:
  assumes "stores s segs" "int_value F s p (int k)" "k < length segs"
  shows "visits F s (bounds p) access = ok (segs ! k)"
proof -
  from bounds [OF assms] obtain b e where be: "bounds p = ok (Some \<lparr>mf_body = None, mf_results = [b, e]\<rparr>)"
    "eval F s b = ok (start_of segs k)" "eval F s e = ok (start_of segs k + int (length (segs ! k)))"
    using assms(3) by (auto dest: int_valueD)
  let ?at = "\<lambda>q. bindR (Literal_int q) (\<lambda>l. bindR (access l) (first_result F s))"
  have at: "?at (start_of segs k + int j) = ok (segs ! k ! j)" if j: "j < length (segs ! k)" for j
  proof -
    let ?q = "start_of segs k + int j"
    have "?q < start_of segs (Suc k)" using assms(3) j by simp
    with start_of_le [of segs "Suc k"] have "nat ?q < length (concat segs)" using start_of_nonneg [of segs k] by linarith
    moreover from this have "fits ?q" using small [OF assms(1)] start_of_nonneg [of segs k] by (simp add: fits_def)
    moreover have "int (nat ?q) = ?q" using start_of_nonneg [of segs k] by simp
    moreover have "nat ?q = nat (start_of segs k) + j" using start_of_nonneg [of segs k] by (simp add: nat_add_distrib)
    ultimately obtain l c f where "Literal_int ?q = ok l" "access l = ok (Some \<lparr>mf_body = None, mf_results = [c, f]\<rparr>)"
      "eval F s c = ok (segs ! k ! j)"
      using Literal_int_ok [of ?q] access [OF assms(1), of _ "nat ?q"] nth_concat_segment [OF assms(3) j]
      by (metis int_valueD(2))
    then show ?thesis by (simp add: first_result_def)
  qed
  have range: "[start_of segs k..start_of segs k + int (length (segs ! k)) - 1] =
      map (\<lambda>j. start_of segs k + int j) [0..<length (segs ! k)]"
    by (rule nth_equalityI) simp_all
  have "mapR ?at (map (\<lambda>j. start_of segs k + int j) [0..<length (segs ! k)]) =
      ok (map (\<lambda>j. segs ! k ! j) [0..<length (segs ! k)])"
    using at by (simp add: mapR_eq_Inr list_all2_conv_all_nth)
  then show ?thesis using be range by (simp add: visits_def map_nth)
qed

end

text \<open>A handle to an index array.\<close>

definition array_handle :: "expr \<Rightarrow> location \<Rightarrow> bool" where
  "array_handle e L \<longleftrightarrow> etype e = Int32 \<and> isGetProperty e \<and> location_of e = Some L"

definition compressed_arrays :: "Mode \<Rightarrow> expr \<Rightarrow> location \<Rightarrow> expr \<Rightarrow> location \<Rightarrow> bool" where
  "compressed_arrays m pos P crd C \<longleftrightarrow> pack_arrays (m_pack m) = [Some pos, Some crd] \<and> numModes (m_pack m) = 1 \<and>
     m_packLoc m = 0 \<and> array_handle pos P \<and> array_handle crd C \<and> P \<noteq> C"

text \<open>What a compressed level stores: the offsets of the segments and their concatenation.\<close>

definition compressed_stores :: "Mode \<Rightarrow> state \<Rightarrow> int list list \<Rightarrow> bool" where
  "compressed_stores m s segs \<longleftrightarrow>
     (\<exists>pos P crd C ps cs. compressed_arrays m pos P crd C \<and> arrays s P = Some ps \<and> arrays s C = Some cs \<and>
       length segs < length ps \<and> (\<forall>k \<le> length segs. ps ! k = start_of segs k) \<and>
       length (concat segs) \<le> length cs \<and> take (length (concat segs)) cs = concat segs \<and>
       (\<forall>c \<in> set (concat segs). fits c) \<and> fits (int (length (concat segs))) \<and> fits (int (length segs)))"

lemma index_load:
  assumes "array_handle arr L" "arrays s L = Some xs" "int_value F s i (int k)" "k < length xs" "fits (xs ! k)"
  shows "Load_make arr i = ok (Load Int32 arr i)" "int_value F s (Load Int32 arr i) (xs ! k)"
proof -
  show "Load_make arr i = ok (Load Int32 arr i)"
    using assms(1) int_valueD(1) [OF assms(3)] by (simp add: Load_make_def array_handle_def kind_preds)
  have "int_value F s (Load Int32 arr i) (xs ! nat (int k))"
    by (rule int_load [OF assms(3) _ _ assms(2)]) (use assms(1,4,5) in \<open>simp_all add: array_handle_def\<close>)
  then show "int_value F s (Load Int32 arr i) (xs ! k)" by simp
qed

lemma int_next:
  assumes "int_value F s p x" "fits (x + 1)"
  shows "\<exists>one. Literal_int 1 = ok one \<and> Add_make p one = ok (Add Int32 p one) \<and> int_value F s (Add Int32 p one) (x + 1) \<and>
    int_value F s one 1"
proof -
  from Literal_int_ok [of 1] obtain u where u: "Literal_int 1 = ok (Literal Int32 u)" "int_value F s (Literal Int32 u) 1"
    by (auto simp: fits_def)
  with int_binary(1) [OF assms(1) u(2) assms(2)] int_make(1) int_valueD(1) [OF assms(1)] show ?thesis by auto
qed

lemma compressed_bounds:
  assumes "compressed_stores m s segs" "int_value F s p (int k)" "k < length segs"
  shows "\<exists>b e. posIterBounds (CompressedModeFormat f ord uni zl a) p m = ok (Some \<lparr>mf_body = None, mf_results = [b, e]\<rparr>) \<and>
    int_value F s b (start_of segs k) \<and> int_value F s e (start_of segs (Suc k))"
proof -
  from assms(1) obtain pos P crd C ps cs where r: "compressed_arrays m pos P crd C" "arrays s P = Some ps"
    "length segs < length ps" "\<forall>k \<le> length segs. ps ! k = start_of segs k" "fits (int (length (concat segs)))"
    "fits (int (length segs))"
    unfolding compressed_stores_def by blast
  have h: "array_handle pos P" "getPosArray m = ok pos"
    using r(1) by (simp_all add: compressed_arrays_def getPosArray_def getArray_def vector_get_def)
  have f: "fits (start_of segs j)" for j
    using start_of_nonneg [of segs j] start_of_le [of segs j] r(5) by (simp add: fits_def)
  have k1: "fits (int k + 1)" using assms(3) r(6) by (simp add: fits_def)
  from int_next [OF assms(2) k1] obtain one where one: "Literal_int 1 = ok one" "Add_make p one = ok (Add Int32 p one)"
    "int_value F s (Add Int32 p one) (int (Suc k))" by (auto simp: add.commute)
  note b = index_load [OF h(1) r(2) assms(2), unfolded r(4)]
  have "k < length ps" "Suc k < length ps" "ps ! k = start_of segs k" "ps ! Suc k = start_of segs (Suc k)"
    using r(3,4) assms(3) by auto
  with index_load [OF h(1) r(2) assms(2)] index_load [OF h(1) r(2) one(3)] f
  have "Load_make pos p = ok (Load Int32 pos p)" "int_value F s (Load Int32 pos p) (start_of segs k)"
    "Load_make pos (Add Int32 p one) = ok (Load Int32 pos (Add Int32 p one))"
    "int_value F s (Load Int32 pos (Add Int32 p one)) (start_of segs (Suc k))" by simp_all
  then show ?thesis
    using h(2) one by (auto simp: posIterBounds_def Compressed_posIterBounds_def results_def)
qed

lemma compressed_access:
  assumes "compressed_stores m s segs" "int_value F s q (int j)" "j < length (concat segs)"
  shows "\<exists>c found. posIterAccess (CompressedModeFormat f ord uni zl a) q m =
      ok (Some \<lparr>mf_body = None, mf_results = [c, found]\<rparr>) \<and>
    int_value F s c (concat segs ! j) \<and> eval F s found = ok 1"
proof -
  from assms(1) obtain pos P crd C cs where r: "compressed_arrays m pos P crd C" "arrays s C = Some cs"
    "length (concat segs) \<le> length cs" "take (length (concat segs)) cs = concat segs" "\<forall>c \<in> set (concat segs). fits c"
    unfolding compressed_stores_def by blast
  have h: "array_handle crd C" "getCoordArray m = ok crd" "m_packLoc m = 0" "stride m = Literal_int 1"
    using r(1) by (simp_all add: compressed_arrays_def getCoordArray_def getArray_def vector_get_def stride_def)
  from Literal_int_ok [of 1] obtain u where u: "Literal_int 1 = ok (Literal Int32 u)" "int_value F s (Literal Int32 u) 1"
    by (auto simp: fits_def)
  have loc: "Mul_make q (Literal Int32 u) = ok (Mul Int32 q (Literal Int32 u))"
    "int_value F s (Mul Int32 q (Literal Int32 u)) (int j)"
    using int_make(3) int_valueD(1,3) [OF assms(2)] int_binary(3) [OF assms(2) u(2)] by simp_all
  have "cs ! j = concat segs ! j" by (metis r(4) assms(3) nth_take)
  moreover have "fits (concat segs ! j)" using r(5) assms(3) nth_mem by blast
  ultimately have c: "Load_make crd (Mul Int32 q (Literal Int32 u)) = ok (Load Int32 crd (Mul Int32 q (Literal Int32 u)))"
    "int_value F s (Load Int32 crd (Mul Int32 q (Literal Int32 u))) (concat segs ! j)"
    using index_load [OF h(1) r(2) loc(2)] r(3) assms(3) by simp_all
  obtain l where "Literal_bool True = ok l" "\<And>F s. eval F s l = ok 1" using Literal_bool_ok by blast
  with h u loc c show ?thesis
    by (auto simp: posIterAccess_def Compressed_posIterAccess_def results_def)
qed

interpretation compressed: coordinate_level F "compressed_stores m"
  "\<lambda>p. posIterBounds (CompressedModeFormat f ord uni zl a) p m"
  "\<lambda>q. posIterAccess (CompressedModeFormat f ord uni zl a) q m" for F m f ord uni zl a
proof
  show "fits (int (length (concat segs)))" if "compressed_stores m s segs" for s segs
    using that unfolding compressed_stores_def by blast
qed (fact compressed_bounds compressed_access)+

text \<open>(C20) Iterating over a compressed level visits, for each parent position, exactly the coordinates of its
  segment in order.\<close>

theorem compressed_iteration:
  assumes "compressed_stores m s segs" "int_value F s p (int k)" "k < length segs"
  shows "visits F s (posIterBounds (CompressedModeFormat f ord uni zl a) p m)
    (\<lambda>q. posIterAccess (CompressedModeFormat f ord uni zl a) q m) = ok (segs ! k)"
  by (rule compressed.visits_segment [OF assms])

definition example_tensor :: expr where
  "example_tensor = Var 0 ''A'' Float64 False True False"

definition example_pos :: expr where
  "example_pos = GetProperty 1 Int32 example_tensor PIndices 0 0 ''A1_pos''"

definition example_crd :: expr where
  "example_crd = GetProperty 2 Int32 example_tensor PIndices 0 1 ''A1_crd''"

definition example_mode :: Mode where
  "example_mode = \<lparr>m_tensor = example_tensor, m_size = \<lparr>dim_size = 8, dim_indexVar = None\<rparr>, m_level = 1,
     m_format = Compressed, m_pack = \<lparr>numModes = 1, pack_arrays = [Some example_pos, Some example_crd]\<rparr>,
     m_packLoc = 0, m_parent = Some (DenseModeFormat True True False)\<rparr>"

definition example_level :: state where
  "example_level = \<lparr>scalars = (\<lambda>l. None),
     arrays = (\<lambda>l. if l = LProp 0 PIndices 0 0 then Some [0, 2, 2, 3]
       else if l = LProp 0 PIndices 0 1 then Some [1, 4, 6, 0] else None),
     ext_calls = (\<lambda>f xs. err TypeError)\<rparr>"

lemma example_arrays: "compressed_arrays example_mode example_pos (LProp 0 PIndices 0 0) example_crd (LProp 0 PIndices 0 1)"
  by (simp add: compressed_arrays_def example_mode_def array_handle_def example_pos_def example_crd_def example_tensor_def)

lemma example_level_stores: "compressed_stores example_mode example_level [[1, 4], [], [6]]"
proof -
  have "\<forall>k \<le> length [[1, 4], [], [6 :: int]]. [0, 2, 2, 3] ! k = start_of [[1, 4], [], [6]] k"
    by (auto simp: start_of_def le_Suc_eq numeral_eq_Suc)
  then show ?thesis
    unfolding compressed_stores_def
    by (intro exI [of _ example_pos] exI [of _ "LProp 0 PIndices 0 0"] exI [of _ example_crd] exI [of _ "LProp 0 PIndices 0 1"]
        exI [of _ "[0, 2, 2, 3]"] exI [of _ "[1, 4, 6, 0]"])
      (simp add: example_arrays example_level_def fits_def)
qed

lemma code_zero: "member_get Int32 0 = 0"
  by code_simp

lemma compressed_iteration_witness:
  "visits fpu_null example_level (posIterBounds (CompressedModeFormat False True True False 8) (Literal Int32 0) example_mode)
    (\<lambda>q. posIterAccess (CompressedModeFormat False True True False 8) q example_mode) = ok [1, 4]"
proof -
  have "int_value fpu_null example_level (Literal Int32 0) (int 0)"
    using code_zero by (simp add: int_value_def)
  from compressed_iteration [OF example_level_stores this] show ?thesis by simp
qed

text \<open>A singleton level has one coordinate for each parent position.\<close>

definition singleton_stores :: "Mode \<Rightarrow> state \<Rightarrow> int list list \<Rightarrow> bool" where
  "singleton_stores m s segs \<longleftrightarrow>
     (\<exists>crd C cs xs. pack_arrays (m_pack m) = [None, Some crd] \<and> numModes (m_pack m) = 1 \<and> m_packLoc m = 0 \<and>
       array_handle crd C \<and> arrays s C = Some cs \<and> segs = map (\<lambda>x. [x]) xs \<and> length xs \<le> length cs \<and>
       take (length xs) cs = xs \<and> (\<forall>c \<in> set xs. fits c) \<and> fits (int (length xs)))"

lemma concat_singletons [simp]: "concat (map (\<lambda>x. [x]) xs) = xs"
  by (induction xs) auto

lemma singleton_bounds:
  assumes "singleton_stores m s segs" "int_value F s p (int k)" "k < length segs"
  shows "\<exists>b e. posIterBounds (SingletonModeFormat f ord uni zl a) p m = ok (Some \<lparr>mf_body = None, mf_results = [b, e]\<rparr>) \<and>
    int_value F s b (start_of segs k) \<and> int_value F s e (start_of segs (Suc k))"
proof -
  from assms(1,3) obtain xs where xs: "segs = map (\<lambda>x. [x]) xs" "k < length xs" "fits (int (length xs))"
    unfolding singleton_stores_def by auto
  have st: "start_of segs j = int (min (length xs) j)" for j
    by (simp add: start_of_def xs take_map)
  have "fits (int k + 1)" using xs by (simp add: fits_def)
  from int_next [OF assms(2) this] xs(2) assms(2) st show ?thesis
    by (auto simp: posIterBounds_def Singleton_posIterBounds_def results_def add.commute)
qed

lemma singleton_access:
  assumes "singleton_stores m s segs" "int_value F s q (int j)" "j < length (concat segs)"
  shows "\<exists>c found. posIterAccess (SingletonModeFormat f ord uni zl a) q m =
      ok (Some \<lparr>mf_body = None, mf_results = [c, found]\<rparr>) \<and>
    int_value F s c (concat segs ! j) \<and> eval F s found = ok 1"
proof -
  from assms(1,3) obtain crd C cs xs where r: "pack_arrays (m_pack m) = [None, Some crd]" "numModes (m_pack m) = 1"
    "m_packLoc m = 0" "array_handle crd C" "arrays s C = Some cs" "segs = map (\<lambda>x. [x]) xs" "j < length xs"
    "length xs \<le> length cs" "take (length xs) cs = xs" "\<forall>c \<in> set xs. fits c"
    unfolding singleton_stores_def by auto
  have h: "getCoordArray m = ok crd" "stride m = Literal_int 1" "offset m = Literal_int 0"
    using r by (simp_all add: getCoordArray_def getArray_def vector_get_def stride_def offset_def)
  obtain u z where u: "Literal_int 1 = ok (Literal Int32 u)" "int_value F s (Literal Int32 u) 1"
    and z: "Literal_int 0 = ok (Literal Int32 z)" "int_value F s (Literal Int32 z) 0"
    using Literal_int_ok [of 1] Literal_int_ok [of 0] by auto
  have m: "Mul_make q (Literal Int32 u) = ok (Mul Int32 q (Literal Int32 u))"
    "int_value F s (Mul Int32 q (Literal Int32 u)) (int j)"
    using int_make(3) int_valueD(1,3) [OF assms(2)] int_binary(3) [OF assms(2) u(2)] by simp_all
  let ?loc = "Add Int32 (Mul Int32 q (Literal Int32 u)) (Literal Int32 z)"
  have loc: "Add_make (Mul Int32 q (Literal Int32 u)) (Literal Int32 z) = ok ?loc" "int_value F s ?loc (int j)"
    using int_make(1) int_valueD(3) [OF assms(2)] int_binary(1) [OF m(2) z(2)] by simp_all
  have "cs ! j = xs ! j" by (metis r(9,7) nth_take)
  moreover have "fits (xs ! j)" using r by simp
  ultimately have c: "Load_make crd ?loc = ok (Load Int32 crd ?loc)" "int_value F s (Load Int32 crd ?loc) (concat segs ! j)"
    using index_load [OF r(4,5) loc(2)] r(6-8) by simp_all
  obtain l where "Literal_bool True = ok l" "\<And>F s. eval F s l = ok 1" using Literal_bool_ok by blast
  with h u z m loc c show ?thesis
    by (auto simp: posIterAccess_def Singleton_posIterAccess_def results_def)
qed

interpretation singleton: coordinate_level F "singleton_stores m"
  "\<lambda>p. posIterBounds (SingletonModeFormat f ord uni zl a) p m"
  "\<lambda>q. posIterAccess (SingletonModeFormat f ord uni zl a) q m" for F m f ord uni zl a
proof
  show "fits (int (length (concat segs)))" if "singleton_stores m s segs" for s segs
    using that unfolding singleton_stores_def by auto
qed (fact singleton_bounds singleton_access)+

text \<open>(C33) Iterating over a singleton level visits exactly one coordinate for each parent position: the one
  stored at that position.\<close>

theorem singleton_iteration:
  assumes "singleton_stores m s (map (\<lambda>x. [x]) xs)" "int_value F s p (int k)" "k < length xs"
  shows "visits F s (posIterBounds (SingletonModeFormat f ord uni zl a) p m)
    (\<lambda>q. posIterAccess (SingletonModeFormat f ord uni zl a) q m) = ok [xs ! k]"
  using singleton.visits_segment [OF assms(1,2)] assms(3) by simp

lemma singleton_iteration_witness:
  "visits fpu_null example_level
    (posIterBounds (SingletonModeFormat False True True False 8) (Literal Int32 1)
      (example_mode\<lparr>m_pack := \<lparr>numModes = 1, pack_arrays = [None, Some example_crd]\<rparr>\<rparr>))
    (\<lambda>q. posIterAccess (SingletonModeFormat False True True False 8) q
      (example_mode\<lparr>m_pack := \<lparr>numModes = 1, pack_arrays = [None, Some example_crd]\<rparr>\<rparr>)) = ok [4]"
proof -
  let ?m = "example_mode\<lparr>m_pack := \<lparr>numModes = 1, pack_arrays = [None, Some example_crd]\<rparr>\<rparr>"
  have "singleton_stores ?m example_level (map (\<lambda>x. [x]) [1, 4, 6])"
    unfolding singleton_stores_def
    by (intro exI [of _ example_crd] exI [of _ "LProp 0 PIndices 0 1"] exI [of _ "[1, 4, 6, 0]"] exI [of _ "[1, 4, 6]"])
      (simp add: example_mode_def array_handle_def example_crd_def example_tensor_def example_level_def fits_def)
  moreover have "int_value fpu_null example_level (Literal Int32 1) (int 1)"
  proof -
    have "member_get Int32 1 = 1" by code_simp
    then show ?thesis by (simp add: int_value_def)
  qed
  ultimately show ?thesis using singleton_iteration [of ?m example_level "[1, 4, 6]" fpu_null "Literal Int32 1" 1] by simp
qed

end
