(* ===== verification/Level_Assembly.thy ===== *)
theory Level_Assembly
  imports Level_Sound
begin

text \<open>
  The assembly of compressed levels: executing the code the level functions emit to append coordinates and
  edges, to finalize a level, and to restore the positions after an ungrouped insertion.
\<close>

subsection \<open>Growing arrays\<close>

definition capacity :: "expr \<Rightarrow> nat \<Rightarrow> bool" where
  "capacity v ca \<longleftrightarrow> (\<exists>nm m. v = Var ca nm Int32 False False m)"

lemma capacity_value: "capacity v ca \<Longrightarrow> scalars s (LVar ca) = Some n \<Longrightarrow> fits n \<Longrightarrow> int_value F s v n"
  by (auto simp: capacity_def intro: int_var)

lemma capacity_simps: "capacity v ca \<Longrightarrow> etype v = Int32" "capacity v ca \<Longrightarrow> location_of v = Some (LVar ca)"
  "capacity v ca \<Longrightarrow> isVar v"
  by (auto simp: capacity_def isVar_def)

text \<open>What an expression has to leave alone to be evaluated after an array grew.\<close>

definition independent :: "expr \<Rightarrow> nat \<Rightarrow> location \<Rightarrow> bool" where
  "independent e ca L \<longleftrightarrow> LVar ca \<notin> set (scalar_reads e) \<and> L \<notin> set (array_reads e)"

lemma doubleSizeIfFull_form:
  assumes "array_handle a L" "capacity sz ca" "etype needed = Int32"
  shows "\<exists>two. Literal_int 2 = ok two \<and> (\<forall>F s. int_value F s two 2) \<and>
    doubleSizeIfFull a sz needed = ok (IfThenElse (Binary OpLte Bool sz needed)
      (Scope (Block [Allocate a (Mul Int32 sz two) (Some sz) True False, Assign sz (Mul Int32 sz two) False NotParallel])) None)"
proof -
  from Literal_int_ok [of 2] obtain u where u: "Literal_int 2 = ok (Literal Int32 u)" "\<forall>F s. int_value F s (Literal Int32 u) 2"
    by (auto simp: fits_def)
  have "Mul_make sz (Literal Int32 u) = ok (Mul Int32 sz (Literal Int32 u))"
    using int_make(3) capacity_simps(1) [OF assms(2)] by simp
  then show ?thesis
    using u assms capacity_simps [OF assms(2)]
    by (auto simp: doubleSizeIfFull_def Allocate_make_def default_Assign_def Assign_make_def IfThenElse_make_def
        Lte_make_def Block_make_def nop_def Scope_make_def array_handle_def kind_preds)
qed

text \<open>After the emitted test, the array has its old contents as a prefix, the capacity is again its length,
  and the needed index is inside when it was at most one past the end of a nonempty array.\<close>

lemma doubleSizeIfFull_exec:
  assumes "array_handle a L" "capacity sz ca" "doubleSizeIfFull a sz needed = ok st" "arrays s L = Some xs"
    "scalars s (LVar ca) = Some (int (length xs))" "fits (int (length xs))" "int_value F s needed x"
    "exec F st s fl s'"
  shows "fl = Fall \<and> frame {LVar ca} {L} s s' \<and>
    (\<exists>ys. arrays s' L = Some ys \<and> scalars s' (LVar ca) = Some (int (length ys)) \<and> fits (int (length ys)) \<and>
      length xs \<le> length ys \<and> take (length xs) ys = xs)"
proof -
  from doubleSizeIfFull_form [OF assms(1,2) int_valueD(1) [OF assms(7)]] assms(3) obtain two where
    two: "\<forall>F s. int_value F s two 2" and
    st: "st = IfThenElse (Binary OpLte Bool sz needed) (Scope (Block [Allocate a (Mul Int32 sz two) (Some sz) True False,
      Assign sz (Mul Int32 sz two) False NotParallel])) None" by auto
  note sz = capacity_value [OF assms(2,5,6), of F]
  note cond = int_less(2) [OF sz assms(7)]
  from assms(8) show ?thesis
    unfolding st
  proof (rule IfE)
    assume "fl = Fall" "s' = s"
    with assms(4-6) show ?thesis by auto
  next
    fix f assume "None = Some f" then show ?thesis by simp
  next
    assume "exec F (Scope (Block [Allocate a (Mul Int32 sz two) (Some sz) True False,
        Assign sz (Mul Int32 sz two) False NotParallel])) s fl s'"
    then have "execs F [Allocate a (Mul Int32 sz two) (Some sz) True False,
        Assign sz (Mul Int32 sz two) False NotParallel] s fl s'" by (simp add: exec_simps)
    then obtain s1 where s1: "exec F (Allocate a (Mul Int32 sz two) (Some sz) True False) s Fall s1"
      "execs F [Assign sz (Mul Int32 sz two) False NotParallel] s1 fl s'"
      by (rule ConsE) (auto elim: AllocateE)
    from s1(1) obtain k l new where new: "eval F s (Mul Int32 sz two) = ok k" "location_of a = Some l" "int (length new) = k"
      "allocated True False (arrays s l) new" "s1 = set_array l (Some new) s"
      by (auto elim: AllocateE)
    have l: "l = L" using new(2) assms(1) by (simp add: array_handle_def)
    have k: "k = conv Int32 (int (length xs) * 2)"
      using new(1) int_valueD(1,2) [OF sz] int_valueD(1,2) [OF two [rule_format]]
      by (simp add: binary_value_def is_arith_def arith_def convert_def isIntegral_def kind_preds)
    have "- (2 ^ 31) \<le> k" "k < 2 ^ 31"
      unfolding k using wrapS_range [of 32 "int (length xs) * 2"] by (simp_all add: conv_def kind_preds)
    then have fk: "fits k" by (simp add: fits_def)
    have len: "length new = 2 * length xs"
    proof -
      have "0 \<le> int (length xs)" "int (length xs) < 2 ^ 31" using assms(6) by (simp_all add: fits_def)
      moreover have "0 \<le> wrapS 32 (int (length xs) * 2)" using new(3) k by (simp add: conv_def kind_preds)
      moreover have "wrapS 32 y = (if y < 2 ^ 31 then y else y - 2 ^ 32)" if "0 \<le> y" "y < 2 ^ 32" for y
      proof (cases "y < 2 ^ 31")
        case False
        have "wrapS 32 y = wrapS 32 (y - 2 ^ 32)" by (rule wrapS_cong) simp
        also have "\<dots> = y - 2 ^ 32" by (rule wrapS_id) (use that False in auto)
        finally show ?thesis using False by simp
      qed (use that in \<open>auto intro!: wrapS_id\<close>)
      ultimately have "wrapS 32 (int (length xs) * 2) = int (length xs) * 2" by (auto split: if_splits)
      with new(3) k show ?thesis by (simp add: conv_def kind_preds)
    qed
    have two1: "scalars s1 (LVar ca) = Some (int (length xs))" using new(5) assms(5) by (simp add: set_array_def)
    have f2: "fits (int (length xs) * 2)"
    proof -
      have "int (length xs) * 2 = k" using new(3) len by simp
      with fk show ?thesis by simp
    qed
    have m: "int_value F s1 (Mul Int32 sz two) (int (length xs) * 2)"
      by (rule int_binary(3) [OF capacity_value [OF assms(2) two1 assms(6)] two [rule_format] f2])
    have "fl = Fall \<and> s' = set_scalar (LVar ca) (int (length xs) * 2) s1"
      using s1(2) int_assign [OF capacity_simps(2) [OF assms(2)] capacity_simps(1) [OF assms(2)] m]
      by (auto simp: execs_simps)
    moreover have "take (length xs) new = xs"
      using new(4) assms(4) len by (auto simp: allocated_def l intro!: nth_equalityI)
    ultimately show ?thesis
      using new(3,5) len l fk
      by (auto simp: frame_def set_scalar_def set_array_def intro!: exI [of _ new])
  qed
qed

subsection \<open>Appending to a compressed level\<close>

text \<open>The state of a level under assembly: the segments that are complete, and the coordinates appended
  after the last one. Under a parent that appends, the positions hold the ends of the segments; under one
  that does not, their lengths, until the level is finalized.\<close>

definition edges_written :: "bool \<Rightarrow> int list list \<Rightarrow> int list \<Rightarrow> bool" where
  "edges_written cumulative segs ps \<longleftrightarrow> length segs < length ps \<and> ps ! 0 = 0 \<and>
     (\<forall>k < length segs. ps ! Suc k = (if cumulative then start_of segs (Suc k) else int (length (segs ! k))))"

definition building :: "Mode \<Rightarrow> nat \<Rightarrow> state \<Rightarrow> int list list \<Rightarrow> int list \<Rightarrow> bool" where
  "building m ca s segs xs \<longleftrightarrow>
     (\<exists>pos P crd C ps cs. compressed_arrays m pos P crd C \<and> arrays s P = Some ps \<and> arrays s C = Some cs \<and>
       scalars s (LVar ca) = Some (int (length cs)) \<and> fits (int (length cs)) \<and>
       edges_written (parent_appends m) segs ps \<and>
       length (concat segs @ xs) \<le> length cs \<and> take (length (concat segs @ xs)) cs = concat segs @ xs \<and>
       (\<forall>c \<in> set (concat segs @ xs). fits c))"

lemma buildingI:
  assumes "compressed_arrays m pos P crd C" "arrays s P = Some ps" "arrays s C = Some cs"
    "scalars s (LVar ca) = Some (int (length cs))" "fits (int (length cs))" "edges_written (parent_appends m) segs ps"
    "length (concat segs @ xs) \<le> length cs" "take (length (concat segs @ xs)) cs = concat segs @ xs"
    "\<forall>c \<in> set (concat segs @ xs). fits c"
  shows "building m ca s segs xs"
  unfolding building_def using assms by blast

lemma edges_cumulative:
  assumes "edges_written True segs ps" shows "\<forall>k \<le> length segs. ps ! k = start_of segs k"
proof (intro allI impI)
  fix k assume "k \<le> length segs"
  then show "ps ! k = start_of segs k"
    using assms by (cases k) (auto simp: edges_written_def)
qed

text \<open>Under a parent that appends, a level whose last segment is complete is ready for iteration.\<close>

lemma building_stores:
  assumes "building m ca s segs []" "parent_appends m" "fits (int (length segs))"
  shows "compressed_stores m s segs"
proof -
  from assms obtain pos P crd C ps cs where r: "compressed_arrays m pos P crd C" "arrays s P = Some ps" "arrays s C = Some cs"
    "fits (int (length cs))" "edges_written True segs ps" "length (concat segs) \<le> length cs"
    "take (length (concat segs)) cs = concat segs" "\<forall>c \<in> set (concat segs). fits c"
    unfolding building_def by auto
  have "fits (int (length (concat segs)))" using r(4,6) by (simp add: fits_def)
  then show ?thesis
    unfolding compressed_stores_def
    using r assms(3) edges_cumulative [OF r(5)] by (auto simp: edges_written_def intro!: exI)
qed

lemma append_coord_form:
  assumes "compressed_arrays m pos P crd C" "Mode_getName m = ok n" "vs (n @ ''_crd_size'') = Some v" "capacity v ca"
    "etype p = Int32" "getAppendCoord (CompressedModeFormat f ord uni zl a) p i m (vs, b) = ok (r, (vs', b'))"
  shows "vs' = vs \<and> b' = b \<and> (\<exists>grow one. doubleSizeIfFull crd v p = ok grow \<and> (\<forall>F s. int_value F s one 1) \<and>
    r = Some (Block_make [Some grow, Some (Store crd (Mul Int32 p one) i False NotParallel)]))"
proof -
  from Literal_int_ok [of 1] obtain u where u: "Literal_int 1 = ok (Literal Int32 u)" "\<forall>F s. int_value F s (Literal Int32 u) 1"
    by (auto simp: fits_def)
  have "Mul_make p (Literal Int32 u) = ok (Mul Int32 p (Literal Int32 u))" using int_make(3) assms(5) by simp
  then show ?thesis
    using assms u
    by (auto simp: getAppendCoord_def Compressed_getAppendCoord_def compressed_arrays_def getCoordArray_def getArray_def
        vector_get_def stride_def default_Store_def Store_make_def getCoordCapacity_def capacity_var_def hasVar_def getVar_def
        bindB_def liftB_def retB_def Let_def bindR_def split: sum.splits)
qed

text \<open>Code that leaves the level's arrays and capacity alone.\<close>

definition outside :: "Mode \<Rightarrow> nat \<Rightarrow> state \<Rightarrow> state \<Rightarrow> bool" where
  "outside m ca s s' \<longleftrightarrow> scalars s' (LVar ca) = scalars s (LVar ca) \<and>
     (\<forall>pos P crd C. compressed_arrays m pos P crd C \<longrightarrow> arrays s' P = arrays s P \<and> arrays s' C = arrays s C)"

lemma building_outside: "building m ca s segs xs \<Longrightarrow> outside m ca s s' \<Longrightarrow> building m ca s' segs xs"
  unfolding building_def outside_def by metis

definition keeps_value :: "Mode \<Rightarrow> nat \<Rightarrow> expr \<Rightarrow> bool" where
  "keeps_value m ca e \<longleftrightarrow> (\<forall>pos P crd C. compressed_arrays m pos P crd C \<longrightarrow> independent e ca C)"

lemma take_snoc_update:
  "take n xs = ys \<Longrightarrow> length ys = n \<Longrightarrow> n < length xs \<Longrightarrow> take (Suc n) (xs[n := y]) = ys @ [y]"
  by (simp add: take_Suc_conv_app_nth)

lemma append_coord_step:
  assumes "building m ca s segs xs" "Mode_getName m = ok n" "vs (n @ ''_crd_size'') = Some v" "capacity v ca"
    and emit: "getAppendCoord (CompressedModeFormat f ord uni zl a) p i m (vs, b) = ok (Some st, (vs', b'))"
    and p: "int_value F s p (int (length (concat segs @ xs)))" "keeps_value m ca p"
    and i: "int_value F s i c" "keeps_value m ca i"
    and ex: "exec F st s fl s'"
  shows "fl = Fall \<and> building m ca s' segs (xs @ [c])"
proof -
  from assms(1) obtain pos P crd C ps cs where r: "compressed_arrays m pos P crd C" "arrays s P = Some ps" "arrays s C = Some cs"
    "scalars s (LVar ca) = Some (int (length cs))" "fits (int (length cs))" "edges_written (parent_appends m) segs ps"
    "length (concat segs @ xs) \<le> length cs" "take (length (concat segs @ xs)) cs = concat segs @ xs"
    "\<forall>c \<in> set (concat segs @ xs). fits c"
    unfolding building_def by blast
  from r(1) have h: "array_handle crd C" "P \<noteq> C" by (simp_all add: compressed_arrays_def)
  from append_coord_form [OF r(1) assms(2-4) int_valueD(1) [OF p(1)] emit] obtain grow one where
    g: "doubleSizeIfFull crd v p = ok grow" "\<forall>F s. int_value F s one 1" and
    st: "st = Block_make [Some grow, Some (Store crd (Mul Int32 p one) i False NotParallel)]" by auto
  from ex have "execs F [grow, Store crd (Mul Int32 p one) i False NotParallel] s fl s'"
    unfolding st using execs_filter_iff [of F "[grow, Store crd (Mul Int32 p one) i False NotParallel]" s fl s']
      Block_make_Some [of "[grow, Store crd (Mul Int32 p one) i False NotParallel]"] by (simp add: exec_simps)
  then obtain s1 where s1: "exec F grow s Fall s1" "execs F [Store crd (Mul Int32 p one) i False NotParallel] s1 fl s'"
    by (rule ConsE) (use doubleSizeIfFull_exec [OF h(1) assms(4) g(1) r(3-5) p(1)] in blast)+
  from doubleSizeIfFull_exec [OF h(1) assms(4) g(1) r(3-5) p(1) s1(1)] obtain ys where
    fr: "frame {LVar ca} {C} s s1" and
    ys: "arrays s1 C = Some ys" "scalars s1 (LVar ca) = Some (int (length ys))" "fits (int (length ys))"
      "length cs \<le> length ys" "take (length cs) ys = cs" by blast
  have dis: "set (scalar_reads e) \<inter> {LVar ca} = {}" "set (array_reads e) \<inter> {C} = {}" if "keeps_value m ca e" for e
    using that r(1) by (auto simp: keeps_value_def independent_def)
  have p1: "int_value F s1 p (int (length (concat segs @ xs)))" by (rule int_value_frame [OF p(1) fr dis [OF p(2)]])
  have i1: "int_value F s1 i c" by (rule int_value_frame [OF i(1) fr dis [OF i(2)]])
  let ?n = "length (concat segs @ xs)"
  have loc: "int_value F s1 (Mul Int32 p one) (int ?n)"
    using int_binary(3) [OF p1 g(2) [rule_format]] int_valueD(3) [OF p1] by simp
  from s1(2) have st1: "store F crd (Mul Int32 p one) i s1 = ok s'" "fl = Fall" by (auto simp: execs_simps)
  have n: "?n < length ys" and s': "s' = set_array C (Some (ys[?n := c])) s1"
    using st1 int_valueD(1,2) [OF loc] int_valueD(1,2) [OF i1] h(1) ys(1)
    by (auto simp: store_def array_handle_def convert_def nat_int_add split: if_splits)
  have "take ?n ys = concat segs @ xs" by (metis r(7,8) ys(5) min.absorb1 take_take)
  from take_snoc_update [OF this refl n] have t: "take (Suc ?n) (ys[?n := c]) = concat segs @ (xs @ [c])" by simp
  have "arrays s' P = Some ps" using fr h(2) r(2) by (simp add: s' set_array_def frame_def)
  moreover have "fits c" by (rule int_valueD(3) [OF i1])
  ultimately have "building m ca s' segs (xs @ [c])"
    using r(9) ys(2,3) n t
    by (intro buildingI [OF r(1), where ps = ps and cs = "ys[?n := c]"]) (auto simp: s' set_array_def r(6))
  with st1(2) show ?thesis by simp
qed

lemma append_edges_step:
  assumes "building m ca s segs xs"
    and emit: "getAppendEdges (CompressedModeFormat f ord uni zl a) pPrev pBegin pEnd m = ok (Some st)"
    and vals: "int_value F s pPrev (int (length segs))" "int_value F s pBegin (int (length (concat segs)))"
      "int_value F s pEnd (int (length (concat segs @ xs)))" "fits (int (length segs) + 1)"
    and ex: "exec F st s fl s'"
  shows "fl = Fall \<and> building m ca s' (segs @ [xs]) []"
proof -
  from assms(1) obtain pos P crd C ps cs where r: "compressed_arrays m pos P crd C" "arrays s P = Some ps" "arrays s C = Some cs"
    "scalars s (LVar ca) = Some (int (length cs))" "fits (int (length cs))" "edges_written (parent_appends m) segs ps"
    "length (concat segs @ xs) \<le> length cs" "take (length (concat segs @ xs)) cs = concat segs @ xs"
    "\<forall>c \<in> set (concat segs @ xs). fits c"
    unfolding building_def by blast
  from r(1) have h: "array_handle pos P" "P \<noteq> C" "getPosArray m = ok pos"
    by (simp_all add: compressed_arrays_def getPosArray_def getArray_def vector_get_def)
  let ?edge = "if parent_appends m then start_of (segs @ [xs]) (Suc (length segs)) else int (length xs)"
  have fx: "fits (int (length xs))" using r(5,7) by (simp add: fits_def)
  obtain e where e: "(if parent_appends m then ok pEnd else Sub_make pEnd pBegin) = ok e" "int_value F s e ?edge"
  proof (cases "parent_appends m")
    case True
    then show ?thesis using vals(3) by (intro that [of pEnd]) (simp_all add: start_of_def)
  next
    case False
    have "int_value F s (Sub Int32 pEnd pBegin) (int (length (concat segs @ xs)) - int (length (concat segs)))"
      by (rule int_binary(2) [OF vals(3,2)]) (use fx in simp)
    with False int_make(2) int_valueD(1) [OF vals(3)] int_valueD(1) [OF vals(2)] show ?thesis
      by (intro that [of "Sub Int32 pEnd pBegin"]) simp_all
  qed
  from int_next [OF vals(1,4)] obtain one where one: "Literal_int 1 = ok one" "Add_make pPrev one = ok (Add Int32 pPrev one)"
    "int_value F s (Add Int32 pPrev one) (int (length segs) + 1)" by blast
  have st: "st = Store pos (Add Int32 pPrev one) e False NotParallel"
    using emit e(1) one(1,2) h(3)
    by (simp add: getAppendEdges_def Compressed_getAppendEdges_def default_Store_def Store_make_def)
  have st1: "store F pos (Add Int32 pPrev one) e s = ok s'" "fl = Fall" using ex unfolding st by auto
  have nat1: "nat (int (length segs) + 1) = Suc (length segs)" by simp
  have n: "Suc (length segs) < length ps" and s': "s' = set_array P (Some (ps[Suc (length segs) := ?edge])) s"
    using st1 int_valueD(1,2) [OF one(3)] int_valueD(1,2) [OF e(2)] h(1) r(2)
    by (auto simp: store_def array_handle_def convert_def nat1 split: if_splits)
  have "edges_written (parent_appends m) (segs @ [xs]) (ps[Suc (length segs) := ?edge])"
  proof -
    have "start_of (segs @ [xs]) (Suc k) = start_of segs (Suc k)" if "k < length segs" for k
      using that by (simp add: start_of_def)
    with r(6) n show ?thesis by (auto simp: edges_written_def less_Suc_eq nth_append nth_list_update)
  qed
  then have "building m ca s' (segs @ [xs]) []"
    using r h(2)
    by (intro buildingI [OF r(1), where ps = "ps[Suc (length segs) := ?edge]" and cs = cs]) (auto simp: s' set_array_def)
  with st1(2) show ?thesis by simp
qed

subsection \<open>Finalizing a level\<close>

lemma start_of_fits: "fits (int (length (concat segs))) \<Longrightarrow> fits (start_of segs k)"
  using start_of_nonneg [of segs k] start_of_le [of segs k] by (simp add: fits_def)

text \<open>The positions while the emitted loop runs: those before index \<open>k\<close> are sums already.\<close>

definition partly_summed :: "int list list \<Rightarrow> int list \<Rightarrow> nat \<Rightarrow> int list" where
  "partly_summed segs ps k = map (start_of segs) [0..<k] @ drop k ps"

lemma partly_summed_step:
  assumes "k < length segs" "length segs < length ps"
  shows "(partly_summed segs ps (Suc k))[Suc k := start_of segs (Suc k)] = partly_summed segs ps (Suc (Suc k))"
proof -
  have "drop (Suc k) ps = ps ! Suc k # drop (Suc (Suc k)) ps" using assms by (simp add: Cons_nth_drop_Suc)
  then show ?thesis by (simp add: partly_summed_def list_update_append)
qed

lemma partly_summed_nth:
  assumes "edges_written False segs ps" "k < length segs"
  shows "partly_summed segs ps (Suc k) ! Suc k = int (length (segs ! k))" "Suc k < length (partly_summed segs ps (Suc k))"
  using assms by (auto simp: partly_summed_def nth_append edges_written_def)

lemma partly_summed_start: "edges_written False segs ps \<Longrightarrow> partly_summed segs ps (Suc 0) = ps"
  by (cases ps) (auto simp: partly_summed_def edges_written_def)

lemma scalars_set_array [simp]: "scalars (set_array l v s) = scalars s"
  by (simp add: set_array_def)

lemma set_array_same: "arrays s P = Some ps \<Longrightarrow> set_array P (Some ps) s = s"
  by (simp add: set_array_def fun_upd_idem)

lemma finalize_form:
  assumes "compressed_arrays m pos P crd C" "\<not> parent_appends m" "literal_is F szPrev 1 = ok False" "etype szPrev = Int32"
    and "getAppendFinalizeLevel (CompressedModeFormat f ord uni zl a) F szPrev m (vs, b) = ok (r, (vs', b'))"
  shows "\<exists>cs p zero one loop n1 n2 b1. cs = Var (next_addr b) n1 Int32 False False False \<and>
    p = Var (Suc (next_addr b)) n2 Int32 False False False \<and> next_addr b1 = Suc (Suc (next_addr b)) \<and>
    (\<forall>F s. int_value F s zero 0) \<and> (\<forall>F s. int_value F s one 1) \<and>
    For_make F p one (Add Int32 szPrev one) one
      (Block_make [Some (Assign cs (Add Int32 cs (Load Int32 pos p)) False NotParallel), Some (Store pos p cs False NotParallel)])
      Serial NotParallel 0 0 b1 = ok (loop, b') \<and>
    r = Some (Block_make [Some (VarDecl cs zero), Some loop])"
proof -
  from Literal_int_ok [of 1] Literal_int_ok [of 0] obtain u z where
    u: "Literal_int 1 = ok (Literal Int32 u)" "\<forall>F s. int_value F s (Literal Int32 u) 1" and
    z: "Literal_int 0 = ok (Literal Int32 z)" "\<forall>F s. int_value F s (Literal Int32 z) 0" by (auto simp: fits_def)
  have p: "etype pos = Int32" "getPosArray m = ok pos"
    using assms(1) by (simp_all add: compressed_arrays_def array_handle_def getPosArray_def getArray_def vector_get_def)
  let ?cs = "\<lambda>n. Var (next_addr b) (''cs'' @ n) Int32 False False False"
  let ?p = "\<lambda>n. Var (Suc (next_addr b)) (''p'' @ n) Int32 False False False"
  let ?one = "Literal Int32 u"
  from assms(5) obtain n loop where n: "For_make F (?p n) ?one (Add Int32 szPrev ?one) ?one
      (Block_make [Some (Assign (?cs n) (Add Int32 (?cs n) (Load Int32 pos (?p n))) False NotParallel),
        Some (Store pos (?p n) (?cs n) False NotParallel)])
      Serial NotParallel 0 0 (b\<lparr>next_addr := Suc (Suc (next_addr b))\<rparr>) = ok (loop, b')"
    "r = Some (Block_make [Some (VarDecl (?cs n) (Literal Int32 z)), Some loop])"
    using u z p assms(2-4)
    by (auto simp: getAppendFinalizeLevel_def Compressed_getAppendFinalizeLevel_def res_simps new_var_def buildL_def fresh_def
        Var_make_def VarDecl_make_def Load_make_def int_make default_Assign_def Assign_make_def default_Store_def Store_make_def
        default_For_def kind_preds isVar_def)
  have a: "next_addr (b\<lparr>next_addr := Suc (Suc (next_addr b))\<rparr>) = Suc (Suc (next_addr b))" by simp
  show ?thesis by (intro exI conjI, rule refl, rule refl, rule a, rule z(2), rule u(2), rule n(1), rule n(2))
qed

lemma finalize_sums:
  assumes arr: "compressed_arrays m pos P crd C" "\<not> parent_appends m" "literal_is F szPrev 1 = ok False"
    and emit: "getAppendFinalizeLevel (CompressedModeFormat f ord uni zl a) F szPrev m (vs, b) = ok (Some st, (vs', b'))"
    and sz: "int_value F s szPrev (int (length segs))" "LVar (next_addr b) \<notin> set (scalar_reads szPrev)"
      "fits (int (length segs) + 1)"
    and ps: "arrays s P = Some ps" "edges_written False segs ps" "fits (int (length (concat segs)))"
  shows "\<exists>s'. runs_to F st s s' \<and>
    frame {LVar (next_addr b), LVar (Suc (next_addr b)), LVar (Suc (Suc (next_addr b)))} {P} s s' \<and>
    arrays s' P = Some (partly_summed segs ps (Suc (length segs)))"
proof -
  let ?c = "next_addr b"
  from finalize_form [OF arr int_valueD(1) [OF sz(1)] emit] obtain cs p zero one loop n1 n2 b1 where
    cs: "cs = Var ?c n1 Int32 False False False" and p: "p = Var (Suc ?c) n2 Int32 False False False" and
    b1: "next_addr b1 = Suc (Suc ?c)" and lits: "\<And>F s. int_value F s zero 0" "\<And>F s. int_value F s one 1" and
    loop: "For_make F p one (Add Int32 szPrev one) one
      (Block_make [Some (Assign cs (Add Int32 cs (Load Int32 pos p)) False NotParallel), Some (Store pos p cs False NotParallel)])
      Serial NotParallel 0 0 b1 = ok (loop, b')" and
    st: "st = Block_make [Some (VarDecl cs zero), Some loop]" by blast
  have h: "etype pos = Int32" "location_of pos = Some P" using arr(1) by (simp_all add: compressed_arrays_def array_handle_def)
  have ah: "array_handle pos P" using arr(1) by (simp add: compressed_arrays_def)
  have csl: "location_of cs = Some (LVar ?c)" "etype cs = Int32" by (simp_all add: cs)
  let ?n = "int (length segs)"
  let ?s0 = "set_scalar (LVar ?c) 0 s"
  let ?fam = "\<lambda>k. set_scalar (LVar (Suc ?c)) k (set_scalar (LVar (Suc (Suc ?c))) (?n + 1)
    (set_scalar (LVar ?c) (start_of segs (nat k - 1)) (set_array P (Some (partly_summed segs ps (nat k))) s)))"
  have "int_value F ?s0 szPrev ?n" using sz(1,2) by (simp add: int_value_def eval_set_scalar)
  then have ub: "int_value F ?s0 (Add Int32 szPrev one) (?n + 1)" by (rule int_binary(1) [OF _ lits(2) sz(3)])
  have nv: "\<not> isVar (Add Int32 szPrev one)" by (simp add: isVar_def)
  have "runs_to F loop ?s0 (?fam (?n + 1))"
  proof (rule counted_For_make [where fam = ?fam, OF loop p lits(2) ub lits(2)])
    show "(1::int) \<le> ?n + 1" by simp
    show "?fam 1 = set_scalar (LVar (Suc ?c)) 1 (bound_cached b1 (Add Int32 szPrev one) (?n + 1) ?s0)"
      using partly_summed_start [OF ps(2)] set_array_same [OF ps(1)]
      by (simp add: bound_cached_def nv b1)
    fix k :: int assume k: "1 \<le> k" "k < ?n + 1"
    define j where "j = nat k - 1"
    have j: "k = int (Suc j)" "j < length segs" "nat k = Suc j" "nat (k + 1) = Suc (Suc j)"
      using k by (auto simp: j_def)
    let ?qs = "partly_summed segs ps (Suc j)"
    let ?t = "?fam k"
    have f: "fits (start_of segs i)" "fits k" for i
      using start_of_fits [OF ps(3)] k sz(3) by (auto simp: fits_def)
    have q: "?qs ! Suc j = int (length (segs ! j))" "Suc j < length ?qs"
      using partly_summed_nth [OF ps(2) j(2)] by auto
    have fj: "fits (int (length (segs ! j)))"
    proof -
      have "int (length (segs ! j)) \<le> start_of segs (Suc j)"
        using start_of_simps(3) [OF j(2)] start_of_nonneg [of segs j] by simp
      with f(1) [of "Suc j"] show ?thesis by (simp add: fits_def)
    qed
    have t: "scalars ?t (LVar (Suc ?c)) = Some k" "scalars ?t (LVar ?c) = Some (start_of segs j)" "arrays ?t P = Some ?qs"
      by (simp_all add: set_scalar_def set_array_def j(3))
    have vp: "int_value F ?t p (int (Suc j))" using int_var [of ?t "Suc ?c" k F n2 False] t(1) f(2) by (simp add: p j(1))
    have vl: "int_value F ?t (Load Int32 pos p) (int (length (segs ! j)))"
      using index_load(2) [OF ah t(3) vp q(2)] q(1) fj by simp
    have vc: "int_value F ?t cs (start_of segs j)" unfolding cs by (rule int_var [OF t(2) f(1)])
    have va: "int_value F ?t (Add Int32 cs (Load Int32 pos p)) (start_of segs (Suc j))"
      using int_binary(1) [OF vc vl] f(1) [of "Suc j"] j(2) by simp
    let ?t1 = "set_scalar (LVar ?c) (start_of segs (Suc j)) ?t"
    have r1: "runs_to F (Assign cs (Add Int32 cs (Load Int32 pos p)) False NotParallel) ?t ?t1"
      by (rule runs_to_Assign(1) [OF csl va])
    have t1: "scalars ?t1 (LVar (Suc ?c)) = Some k" "scalars ?t1 (LVar ?c) = Some (start_of segs (Suc j))" "arrays ?t1 P = Some ?qs"
      using t by (simp_all add: set_scalar_def)
    have vp1: "int_value F ?t1 p (int (Suc j))" using int_var [of ?t1 "Suc ?c" k F n2 False] t1(1) f(2) by (simp add: p j(1))
    have vc1: "int_value F ?t1 cs (start_of segs (Suc j))" unfolding cs by (rule int_var [OF t1(2) f(1)])
    let ?t2 = "set_array P (Some (?qs[Suc j := start_of segs (Suc j)])) ?t1"
    have r2: "runs_to F (Store pos p cs False NotParallel) ?t1 ?t2"
      using runs_to_Store [OF h(2,1) t1(3) vp1 _ _ vc1] q(2) by (simp only: nat_int of_nat_0_le_iff of_nat_less_iff)
    show "\<exists>s1. runs_to F (Block_make [Some (Assign cs (Add Int32 cs (Load Int32 pos p)) False NotParallel),
          Some (Store pos p cs False NotParallel)]) ?t s1 \<and> scalars s1 (LVar (Suc ?c)) = Some k \<and>
        set_scalar (LVar (Suc ?c)) (k + 1) s1 = ?fam (k + 1)"
    proof (intro exI [of _ ?t2] conjI)
      show "runs_to F (Block_make [Some (Assign cs (Add Int32 cs (Load Int32 pos p)) False NotParallel),
          Some (Store pos p cs False NotParallel)]) ?t ?t2" by (rule runs_to_Block_make2 [OF r1 r2])
      have "length segs < length ps" using ps(2) by (simp add: edges_written_def)
      from partly_summed_step [OF j(2) this]
      show "set_scalar (LVar (Suc ?c)) (k + 1) ?t2 = ?fam (k + 1)"
        by (simp add: set_scalar_def set_array_def j(3,4) fun_eq_iff)
    qed (use t1(1) in simp)
  qed (simp_all add: nv b1 set_scalar_def)
  then have "runs_to F st s (?fam (?n + 1))"
    unfolding st by (intro runs_to_Block_make2 [OF runs_to_Assign(2) [OF csl lits(1)]])
  moreover have "frame {LVar ?c, LVar (Suc ?c), LVar (Suc (Suc ?c))} {P} s (?fam (?n + 1))"
    "arrays (?fam (?n + 1)) P = Some (partly_summed segs ps (Suc (length segs)))"
    by (simp_all add: frame_def set_scalar_def set_array_def nat_add_distrib)
  ultimately show ?thesis by blast
qed

text \<open>(C17) Finalizing a compressed level under a parent that does not append (a dense one, say) turns the
  lengths of the segments into offsets: the emitted loop ends, in one state only, changes nothing but
  the positions and its own variables, and leaves the level ready for iteration.\<close>

theorem finalize_compressed:
  assumes "building m ca s segs []" "\<not> parent_appends m" "literal_is F szPrev 1 = ok False"
    and "getAppendFinalizeLevel (CompressedModeFormat f ord uni zl a) F szPrev m (vs, b) = ok (Some st, (vs', b'))"
    and "int_value F s szPrev (int (length segs))" "LVar (next_addr b) \<notin> set (scalar_reads szPrev)"
    and "fits (int (length segs) + 1)"
  shows "\<exists>s'. (\<forall>fl t. exec F st s fl t \<longleftrightarrow> fl = Fall \<and> t = s') \<and> compressed_stores m s' segs \<and>
    (\<exists>P. frame {LVar (next_addr b), LVar (Suc (next_addr b)), LVar (Suc (Suc (next_addr b)))} {P} s s')"
proof -
  from assms(1,2) obtain pos P crd C ps cs where r: "compressed_arrays m pos P crd C" "arrays s P = Some ps" "arrays s C = Some cs"
    "fits (int (length cs))" "edges_written False segs ps" "length (concat segs) \<le> length cs"
    "take (length (concat segs)) cs = concat segs" "\<forall>c \<in> set (concat segs). fits c"
    unfolding building_def by auto
  have f: "fits (int (length (concat segs)))" "fits (int (length segs))" using r(4,6) assms(7) by (simp_all add: fits_def)
  from finalize_sums [OF r(1) assms(2-7) r(2,5) f(1)] obtain s' where s': "runs_to F st s s'"
    "frame {LVar (next_addr b), LVar (Suc (next_addr b)), LVar (Suc (Suc (next_addr b)))} {P} s s'"
    "arrays s' P = Some (partly_summed segs ps (Suc (length segs)))" by blast
  have "arrays s' C = Some cs" using s'(2) r(1,3) by (auto simp: frame_def compressed_arrays_def)
  moreover have "\<forall>k \<le> length segs. partly_summed segs ps (Suc (length segs)) ! k = start_of segs k"
    by (auto simp: partly_summed_def nth_append less_Suc_eq le_eq_less_or_eq)
  ultimately have "compressed_stores m s' segs"
    unfolding compressed_stores_def using r s'(3) f
    by (intro exI [of _ pos] exI [of _ P] exI [of _ crd] exI [of _ C] exI [of _ "partly_summed segs ps (Suc (length segs))"]
        exI [of _ cs]) (simp add: partly_summed_def)
  with s'(1,2) show ?thesis unfolding runs_to_def by blast
qed

definition example_size :: expr where
  "example_size = Var 9 ''n'' Int32 False False False"

definition example_unfinished :: state where
  "example_unfinished = \<lparr>scalars = (\<lambda>l. if l = LVar 9 then Some 3 else if l = LVar 3 then Some 4 else None),
     arrays = (\<lambda>l. if l = LProp 0 PIndices 0 0 then Some [0, 2, 0, 1]
       else if l = LProp 0 PIndices 0 1 then Some [1, 4, 6, 0] else None),
     ext_calls = (\<lambda>f xs. err TypeError)\<rparr>"

lemma finalize_compressed_witness:
  "\<exists>st s'. exec fpu_null st example_unfinished Fall s' \<and> compressed_stores example_mode s' [[1, 4], [], [6]]"
proof -
  let ?segs = "[[1, 4], [], [6 :: int]]" and ?b = "\<lparr>next_addr = 10, num_vars_cached = 0\<rparr>"
  have p: "\<not> parent_appends example_mode" by (simp add: parent_appends_def example_mode_def DenseModeFormat_def)
  have "edges_written False ?segs [0, 2, 0, 1]"
    by (auto simp: edges_written_def less_Suc_eq numeral_eq_Suc)
  then have b: "building example_mode 3 example_unfinished ?segs []"
    using p by (intro buildingI [OF example_arrays, of _ "[0, 2, 0, 1]" "[1, 4, 6, 0]"]) (simp_all add: example_unfinished_def fits_def)
  have "map_sum id (\<lambda>(r, _). r \<noteq> None)
      (getAppendFinalizeLevel (CompressedModeFormat False True True False 8) fpu_null example_size example_mode (Map.empty, ?b)) = ok True"
    by code_simp
  then obtain st vs' b' where e: "getAppendFinalizeLevel (CompressedModeFormat False True True False 8) fpu_null example_size
      example_mode (Map.empty, ?b) = ok (Some st, (vs', b'))"
    by (auto simp: map_sum_def split: sum.splits)
  have v: "int_value fpu_null example_unfinished example_size (int (length ?segs))"
    unfolding example_size_def by (intro int_var) (simp_all add: example_unfinished_def fits_def)
  from finalize_compressed [OF b p _ e v] show ?thesis
    by (auto simp: example_size_def literal_is_def fits_def)
qed

subsection \<open>Starting a level\<close>

definition zeroed :: "int list \<Rightarrow> nat \<Rightarrow> int list" where
  "zeroed xs k = map (\<lambda>j. if 1 \<le> j \<and> j < k then 0 else xs ! j) [0..<length xs]"

lemma zeroed_simps: "zeroed xs (Suc 0) = xs" "length (zeroed xs k) = length xs"
  "k < length xs \<Longrightarrow> 1 \<le> k \<Longrightarrow> (zeroed xs k)[k := 0] = zeroed xs (Suc k)" "xs \<noteq> [] \<Longrightarrow> zeroed xs k ! 0 = xs ! 0"
  by (auto simp: zeroed_def nth_list_update intro!: nth_equalityI)

lemma zero_loop:
  assumes loop: "For_make F p one ub one (Store pos p zero False NotParallel) Serial NotParallel 0 0 b = ok (st, b')"
    and p: "p = Var pa nm Int32 False False False" "pa \<noteq> next_addr b" and ah: "array_handle pos P"
    and lits: "\<And>F s. int_value F s zero 0" "\<And>F s. int_value F s one 1"
    and ub: "\<not> isVar ub" "int_value F s ub (int (length xs))" "arrays s P = Some xs" "xs \<noteq> []"
  shows "\<exists>s'. runs_to F st s s' \<and> frame {LVar pa, LVar (next_addr b)} {P} s s' \<and> arrays s' P = Some (zeroed xs (length xs))"
proof -
  let ?n = "int (length xs)"
  have h: "etype pos = Int32" "location_of pos = Some P" using ah by (simp_all add: array_handle_def)
  let ?s0 = "bound_cached b ub ?n s"
  let ?fam = "\<lambda>k. set_scalar (LVar pa) k (set_array P (Some (zeroed xs (nat k))) ?s0)"
  have s0: "arrays ?s0 P = Some xs" by (simp add: bound_cached_def ub(3))
  have "runs_to F st s (?fam ?n)"
  proof (rule counted_For_make [where fam = ?fam, OF loop p(1) lits(2) ub(2) lits(2)])
    show "(1::int) \<le> ?n" using ub(4) by (cases xs) simp_all
    show "?fam 1 = set_scalar (LVar pa) 1 ?s0" by (simp add: zeroed_simps set_array_same [OF s0])
    fix k :: int assume k: "1 \<le> k" "k < ?n"
    define j where "j = nat k"
    have j: "k = int j" "nat k = j" "nat (k + 1) = Suc j" "j < length xs" "1 \<le> j" using k by (auto simp: j_def)
    have fk: "fits k" using k int_valueD(3) [OF ub(2)] by (simp add: fits_def)
    have t: "scalars (?fam k) (LVar pa) = Some k" "arrays (?fam k) P = Some (zeroed xs j)"
      by (simp_all add: set_scalar_def set_array_def j(2))
    have vp: "int_value F (?fam k) p (int j)" using int_var [OF t(1) fk] by (simp add: p(1) j(1))
    let ?t1 = "set_array P (Some (zeroed xs (Suc j))) (?fam k)"
    have "runs_to F (Store pos p zero False NotParallel) (?fam k) ?t1"
      using runs_to_Store [OF h(2,1) t(2) vp _ _ lits(1)] zeroed_simps(2,3) j(4,5) by simp
    moreover have "set_scalar (LVar pa) (k + 1) ?t1 = ?fam (k + 1)"
      by (simp add: set_scalar_def set_array_def j(2,3) fun_eq_iff)
    ultimately show "\<exists>s1. runs_to F (Store pos p zero False NotParallel) (?fam k) s1 \<and> scalars s1 (LVar pa) = Some k \<and>
        set_scalar (LVar pa) (k + 1) s1 = ?fam (k + 1)" using t(1) by (intro exI [of _ ?t1]) simp
  qed (simp_all add: set_scalar_def bound_cached_def ub(1) p(2) [symmetric])
  moreover have "frame {LVar pa, LVar (next_addr b)} {P} s (?fam ?n)" "arrays (?fam ?n) P = Some (zeroed xs (length xs))"
    by (simp_all add: frame_def set_scalar_def set_array_def bound_cached_def)
  ultimately show ?thesis by blast
qed

lemma init_level_form:
  assumes "compressed_arrays m pos P crd C" "Mode_getName m = ok n" "vs (n @ ''_crd_size'') = None" "etype szPrev = Int32"
    "literal_is F szPrev 0 = ok False" "fits a"
    "getAppendInitLevel (CompressedModeFormat f ord uni zl a) F szPrev m (vs, b) = ok (r, (vs', b'))"
  shows "\<exists>one zero dflt init ca cap. (\<forall>F s. int_value F s one 1) \<and> (\<forall>F s. int_value F s zero 0) \<and> (\<forall>F s. int_value F s dflt a) \<and>
    capacity cap ca \<and> vs' (n @ ''_crd_size'') = Some cap \<and>
    r = Some (Block_make (map Some ([Allocate pos (Add Int32 szPrev one) None False False, Store pos zero zero False NotParallel] @
      init @ [VarDecl cap dflt, Allocate crd cap None False False]))) \<and>
    (init = [] \<or> (\<exists>p nm loop b1 b2. init = [loop] \<and> p = Var (next_addr b) nm Int32 False False False \<and> next_addr b1 = Suc (next_addr b) \<and>
      For_make F p one (Add Int32 szPrev one) one (Store pos p zero False NotParallel) Serial NotParallel 0 0 b1 = ok (loop, b2)))"
proof -
  from Literal_int_ok [of 1] Literal_int_ok [of 0] obtain u z where
    u: "Literal_int 1 = ok (Literal Int32 u)" "\<forall>F s. int_value F s (Literal Int32 u) 1" and
    z: "Literal_int 0 = ok (Literal Int32 z)" "\<forall>F s. int_value F s (Literal Int32 z) 0" by (auto simp: fits_def)
  have i: "isIntegral Int64" "isIntegral Int32" by (simp_all add: isIntegral_def kind_preds)
  from Literal_make_from_returns [OF i(2), of Int64 a] obtain d where d: "Literal_make_from Int64 a Int32 = ok (Literal Int32 d)" by auto
  from Literal_make_from_value [OF d i(2,1)] assms(6) have "\<forall>F s. int_value F s (Literal Int32 d) a"
    by (auto simp: int_value_def)
  moreover have p: "etype pos = Int32" "isGetProperty pos" "getPosArray m = ok pos" "isGetProperty crd" "getCoordArray m = ok crd"
    "m_packLoc m + 1 = numModes (m_pack m)"
    using assms(1) by (simp_all add: compressed_arrays_def array_handle_def getPosArray_def getCoordArray_def getArray_def vector_get_def)
  let ?one = "Literal Int32 u" and ?zero = "Literal Int32 z"
  let ?ss = "\<lambda>init cap. [Allocate pos (Add Int32 szPrev ?one) None False False, Store pos ?zero ?zero False NotParallel] @
      init @ [VarDecl cap (Literal Int32 d), Allocate crd cap None False False]"
  have cap: "capacity (Var ca nm Int32 False False False) ca" for ca nm unfolding capacity_def by blast
  show ?thesis
  proof (cases "m_parent m \<noteq> None \<and> \<not> parent_appends m")
    case False
    from assms(7) False obtain ca where "r = Some (Block_make (map Some (?ss [] (Var ca (n @ ''_crd_size'') Int32 False False False))))"
      "vs' (n @ ''_crd_size'') = Some (Var ca (n @ ''_crd_size'') Int32 False False False)"
      using u z d p assms(2-5)
      by (auto simp: getAppendInitLevel_def Compressed_getAppendInitLevel_def res_simps init_coords_def getCoordCapacity_def
          capacity_var_def hasVar_def addVar_def new_var_def buildL_def fresh_def Var_make_def VarDecl_make_def int_make Let_def
          Allocate_make_def default_Store_def Store_make_def kind_preds isVar_def split: if_splits)
    with u(2) z(2) calculation cap show ?thesis by blast
  next
    case True
    from assms(7) True obtain ca loop b2 where
      r: "r = Some (Block_make (map Some (?ss [loop] (Var ca (n @ ''_crd_size'') Int32 False False False))))"
      "vs' (n @ ''_crd_size'') = Some (Var ca (n @ ''_crd_size'') Int32 False False False)"
      "For_make F (Var (next_addr b) (''p'' @ n) Int32 False False False) ?one (Add Int32 szPrev ?one) ?one
        (Store pos (Var (next_addr b) (''p'' @ n) Int32 False False False) ?zero False NotParallel) Serial NotParallel 0 0
        (b\<lparr>next_addr := Suc (next_addr b)\<rparr>) = ok (loop, b2)"
      using u z d p assms(2-5)
      by (auto simp: getAppendInitLevel_def Compressed_getAppendInitLevel_def res_simps init_coords_def getCoordCapacity_def
          capacity_var_def hasVar_def addVar_def new_var_def buildL_def fresh_def Var_make_def VarDecl_make_def int_make Let_def
          Allocate_make_def default_Store_def Store_make_def default_For_def kind_preds isVar_def split: if_splits)
    have a: "next_addr (b\<lparr>next_addr := Suc (next_addr b)\<rparr>) = Suc (next_addr b)" by simp
    have "\<exists>p nm l b1 b2. [loop] = [l] \<and> p = Var (next_addr b) nm Int32 False False False \<and> next_addr b1 = Suc (next_addr b) \<and>
      For_make F p ?one (Add Int32 szPrev ?one) ?one (Store pos p ?zero False NotParallel) Serial NotParallel 0 0 b1 = ok (l, b2)"
      by (intro exI conjI, rule refl, rule refl, rule a, rule r(3))
    with u(2) z(2) calculation cap r(1,2) show ?thesis by blast
  qed
qed

lemma allocate_exec:
  assumes "exec F (Allocate v e None False False) s fl s'" "location_of v = Some L" "int_value F s e x"
  shows "fl = Fall \<and> (\<exists>new. s' = set_array L (Some new) s \<and> int (length new) = x)"
  using assms(1) by (rule AllocateE) (use assms(2) int_valueD(2) [OF assms(3)] in auto)

lemma execs_runs_to: "execs F (b # bs) s fl s' \<Longrightarrow> runs_to F b s s1 \<Longrightarrow> execs F bs s1 fl s'"
  by (auto simp: runs_to_def execs_simps)

lemma finish_init:
  assumes "execs F [VarDecl cap dflt, Allocate crd cap None False False] s fl s'" "capacity cap ca" "int_value F s dflt a"
    "array_handle crd C"
  shows "fl = Fall \<and> (\<exists>cs. s' = set_array C (Some cs) (set_scalar (LVar ca) a s) \<and> int (length cs) = a)"
proof -
  have v: "runs_to F (VarDecl cap dflt) s (set_scalar (LVar ca) a s)"
    by (rule runs_to_Assign(2) [OF capacity_simps(2,1) [OF assms(2)] assms(3)])
  have c: "int_value F (set_scalar (LVar ca) a s) cap a"
    by (rule capacity_value [OF assms(2)]) (use int_valueD(3) [OF assms(3)] in \<open>simp_all add: set_scalar_def\<close>)
  from execs_runs_to [OF assms(1) v] have "execs F [Allocate crd cap None False False] (set_scalar (LVar ca) a s) fl s'" .
  then show ?thesis
    by (rule ConsE) (use allocate_exec [OF _ _ c] assms(4) in \<open>auto simp: array_handle_def\<close>)
qed

text \<open>(C18) The code that initialises a compressed level, run in any state, leaves a level with room for the edges
  of all parents, no coordinate, and a capacity variable that is the length of the coordinate array: the
  start of the assembly.\<close>

theorem init_level_builds:
  assumes "compressed_arrays m pos P crd C" "Mode_getName m = ok n" "vs (n @ ''_crd_size'') = None"
    and "literal_is F szPrev 0 = ok False" "fits a"
    and "getAppendInitLevel (CompressedModeFormat f ord uni zl a) F szPrev m (vs, b) = ok (Some st, (vs', b'))"
    and "int_value F s szPrev (int k)" "fits (int k + 1)" "P \<notin> set (array_reads szPrev)" "exec F st s fl s'"
  shows "fl = Fall \<and> (\<exists>cap ca ps. vs' (n @ ''_crd_size'') = Some cap \<and> capacity cap ca \<and> building m ca s' [] [] \<and>
    arrays s' P = Some ps \<and> length ps = k + 1)"
proof -
  from init_level_form [OF assms(1-3) int_valueD(1) [OF assms(7)] assms(4-6)] obtain one zero dflt init ca cap where
    lits: "\<And>F s. int_value F s one 1" "\<And>F s. int_value F s zero 0" "\<And>F s. int_value F s dflt a" and
    cap: "capacity cap ca" "vs' (n @ ''_crd_size'') = Some cap" and
    st: "st = Block_make (map Some ([Allocate pos (Add Int32 szPrev one) None False False, Store pos zero zero False NotParallel] @
      init @ [VarDecl cap dflt, Allocate crd cap None False False]))" and
    init: "init = [] \<or> (\<exists>p nm loop b1 b2. init = [loop] \<and> p = Var (next_addr b) nm Int32 False False False \<and> next_addr b1 = Suc (next_addr b) \<and>
      For_make F p one (Add Int32 szPrev one) one (Store pos p zero False NotParallel) Serial NotParallel 0 0 b1 = ok (loop, b2))"
    by blast
  have h: "array_handle pos P" "array_handle crd C" "etype pos = Int32" "location_of pos = Some P" "P \<noteq> C"
    using assms(1) by (simp_all add: compressed_arrays_def array_handle_def)
  let ?rest = "init @ [VarDecl cap dflt, Allocate crd cap None False False]"
  have ub: "int_value F s (Add Int32 szPrev one) (int k + 1)" by (rule int_binary(1) [OF assms(7) lits(1) assms(8)])
  have "execs F (Allocate pos (Add Int32 szPrev one) None False False # Store pos zero zero False NotParallel # ?rest) s fl s'"
    using assms(10) unfolding st Block_make_Some by (simp add: exec_simps execs_filter_iff del: filter.simps)
  then obtain xs where xs: "length xs = k + 1"
    "execs F (Store pos zero zero False NotParallel # ?rest) (set_array P (Some xs) s) fl s'"
    by (rule ConsE) (use allocate_exec [OF _ h(4) ub] in \<open>force+\<close>)
  let ?s1 = "set_array P (Some xs) s" and ?ys = "xs[0 := 0]"
  have "runs_to F (Store pos zero zero False NotParallel) ?s1 (set_array P (Some ?ys) ?s1)"
    using runs_to_Store [OF h(4,3) _ lits(2) _ _ lits(2), of ?s1 xs] xs(1) by (cases xs) (simp_all add: set_array_def)
  from execs_runs_to [OF xs(2) this] have rest: "execs F ?rest (set_array P (Some ?ys) ?s1) fl s'" .
  let ?s2 = "set_array P (Some ?ys) ?s1"
  have fr2: "frame {} {P} s ?s2" by (simp add: frame_def set_array_def)
  obtain s3 ps where s3: "execs F [VarDecl cap dflt, Allocate crd cap None False False] s3 fl s'" "arrays s3 P = Some ps"
    "length ps = k + 1" "ps ! 0 = 0"
  proof (cases "init = []")
    case True
    with rest show thesis by (intro that [of ?s2 ?ys]) (use xs(1) in \<open>auto simp: set_array_def\<close>)
  next
    case False
    with init obtain p nm loop b1 b2 where i: "init = [loop]" "p = Var (next_addr b) nm Int32 False False False"
      "next_addr b1 = Suc (next_addr b)"
      "For_make F p one (Add Int32 szPrev one) one (Store pos p zero False NotParallel) Serial NotParallel 0 0 b1 = ok (loop, b2)"
      by blast
    have "int_value F ?s2 szPrev (int k)" by (rule int_value_frame [OF assms(7) fr2]) (use assms(9) in auto)
    then have "int_value F ?s2 (Add Int32 szPrev one) (int k + 1)" by (rule int_binary(1) [OF _ lits(1) assms(8)])
    then have ub2: "int_value F ?s2 (Add Int32 szPrev one) (int (length ?ys))" using xs(1) by (simp add: add.commute)
    have "next_addr b \<noteq> next_addr b1" "\<not> isVar (Add Int32 szPrev one)" "arrays ?s2 P = Some ?ys" "?ys \<noteq> []"
      using i(3) xs(1) by (auto simp: isVar_def set_array_def)
    from zero_loop [OF i(4,2) this(1) h(1) lits(2,1) this(2) ub2 this(3,4)] obtain s3 where
      "runs_to F loop ?s2 s3" "arrays s3 P = Some (zeroed ?ys (length ?ys))" by blast
    moreover have "execs F (loop # [VarDecl cap dflt, Allocate crd cap None False False]) ?s2 fl s'" using rest i(1) by simp
    moreover have "zeroed ?ys (length ?ys) ! 0 = 0" using xs(1) zeroed_simps(4) [of ?ys] by (cases xs) auto
    ultimately show thesis using execs_runs_to xs(1)
      by (intro that [of s3 "zeroed ?ys (length ?ys)"]) (auto simp: zeroed_simps(2))
  qed
  from finish_init [OF s3(1) cap(1) lits(3) h(2)] obtain cs where cs: "fl = Fall"
    "s' = set_array C (Some cs) (set_scalar (LVar ca) a s3)" "int (length cs) = a" by blast
  have "building m ca s' [] []"
    by (rule buildingI [OF assms(1), of _ ps cs]) (use cs s3 h(5) assms(5) in \<open>auto simp: set_array_def set_scalar_def edges_written_def\<close>)
  moreover have "arrays s' P = Some ps" using cs(2) s3(2) h(5) by (simp add: set_array_def)
  ultimately show ?thesis using cs(1) cap s3(3) by blast
qed

lemma init_level_builds_witness:
  "\<exists>st s'. exec fpu_null st example_unfinished Fall s' \<and> (\<exists>ca. building example_mode ca s' [] [])"
proof -
  let ?lf = "CompressedModeFormat False True True False 8" and ?b = "\<lparr>next_addr = 10, num_vars_cached = 0\<rparr>"
  have "map_sum id (\<lambda>s. True) (bindR (getAppendInitLevel ?lf fpu_null example_size example_mode (Map.empty, ?b)) (\<lambda>(r, _).
      case r of None \<Rightarrow> err IError | Some st \<Rightarrow> run 30 fpu_null st example_unfinished)) = ok True" by code_simp
  then obtain st vs' b' fl s' where e: "getAppendInitLevel ?lf fpu_null example_size example_mode (Map.empty, ?b) = ok (Some st, (vs', b'))"
    and r: "run 30 fpu_null st example_unfinished = ok (fl, s')"
    by (auto simp: map_sum_def res_simps bindR_def split: sum.splits option.splits)
  have v: "int_value fpu_null example_unfinished example_size (int 3)"
    unfolding example_size_def by (intro int_var) (simp_all add: example_unfinished_def fits_def)
  have n: "Mode_getName example_mode = ok ''A1''" by code_simp
  have p: "literal_is fpu_null example_size 0 = ok False" "fits 8" "fits (int 3 + 1)"
    "LProp 0 PIndices 0 0 \<notin> set (array_reads example_size)"
    by (simp_all add: example_size_def literal_is_def fits_def)
  have "fl = Fall \<and> (\<exists>ca. building example_mode ca s' [] [])"
    using init_level_builds [OF example_arrays n _ p(1,2) e v p(3,4) run_sound(1) [OF r]] by blast
  with run_sound(1) [OF r] show ?thesis by blast
qed

subsection \<open>The protocol\<close>

text \<open>The steps of an assembly: appending a coordinate at the end of the current segment, ending the segment,
  and anything else that leaves the level alone. \<open>vs\<close> are the variables of the mode, \<open>v\<close> its capacity.\<close>

inductive assembles ::
  "fpu \<Rightarrow> ModeFormatImpl \<Rightarrow> Mode \<Rightarrow> mode_vars \<Rightarrow> nat \<Rightarrow> state \<times> int list list \<times> int list \<Rightarrow> state \<times> int list list \<times> int list \<Rightarrow> bool"
  for F lf m vs ca where
  Coord: "getAppendCoord lf p i m (vs, b) = ok (Some st, bs) \<Longrightarrow>
    int_value F s p (int (length (concat segs @ xs))) \<Longrightarrow> keeps_value m ca p \<Longrightarrow>
    int_value F s i c \<Longrightarrow> keeps_value m ca i \<Longrightarrow> exec F st s fl s' \<Longrightarrow>
    assembles F lf m vs ca (s, segs, xs) (s', segs, xs @ [c])"
| Edges: "getAppendEdges lf pPrev pBegin pEnd m = ok (Some st) \<Longrightarrow>
    int_value F s pPrev (int (length segs)) \<Longrightarrow> int_value F s pBegin (int (length (concat segs))) \<Longrightarrow>
    int_value F s pEnd (int (length (concat segs @ xs))) \<Longrightarrow> fits (int (length segs) + 1) \<Longrightarrow> exec F st s fl s' \<Longrightarrow>
    assembles F lf m vs ca (s, segs, xs) (s', segs @ [xs], [])"
| Other: "outside m ca s s' \<Longrightarrow> assembles F lf m vs ca (s, segs, xs) (s', segs, xs)"

lemma assembles_building:
  assumes "(assembles F (CompressedModeFormat f ord uni zl a) m vs ca)\<^sup>*\<^sup>* (s0, segs0, xs0) (s, segs, xs)"
    "building m ca s0 segs0 xs0" "Mode_getName m = ok n" "vs (n @ ''_crd_size'') = Some v" "capacity v ca"
  shows "building m ca s segs xs"
proof -
  have "building m ca (fst y) (fst (snd y)) (snd (snd y))"
    if "(assembles F (CompressedModeFormat f ord uni zl a) m vs ca)\<^sup>*\<^sup>* (s0, segs0, xs0) y" for y
    using that
  proof (induction rule: rtranclp_induct)
    case base
    then show ?case using assms(2) by simp
  next
    case (step y z)
    from step(2) show ?case
    proof cases
      case (Coord p i b st bs s segs xs c fl s')
      obtain vs' b' where bs: "bs = (vs', b')" by (cases bs)
      have "building m ca s segs xs" using step(3) Coord(1) by simp
      from append_coord_step [where vs = vs, OF this assms(3-5) Coord(3) [unfolded bs] Coord(4-8)] show ?thesis
        by (simp add: Coord(2))
    next
      case (Edges pPrev pBegin pEnd st s segs xs fl s')
      have "building m ca s segs xs" using step(3) Edges(1) by simp
      from append_edges_step [OF this Edges(3-8)] show ?thesis by (simp add: Edges(2))
    next
      case (Other s s' segs xs)
      with step(3) building_outside show ?thesis by fastforce
    qed
  qed
  from this [OF assms(1)] show ?thesis by simp
qed

text \<open>(C15) Whatever order the emitted code runs in with code that leaves the level alone, a compressed level
  assembled by appending under a parent that appends holds at each parent position exactly the coordinates
  that were appended for it, in order: that is what iterating over the level visits.\<close>

theorem assembled_compressed_iteration:
  assumes "building m ca s0 [] []" "Mode_getName m = ok n" "vs (n @ ''_crd_size'') = Some v" "capacity v ca"
    and "(assembles F (CompressedModeFormat f ord uni zl a) m vs ca)\<^sup>*\<^sup>* (s0, [], []) (s, segs, [])"
    and "parent_appends m" "k < length segs" "fits (int (length segs))" "int_value F s p (int k)"
  shows "visits F s (posIterBounds (CompressedModeFormat f ord uni zl a) p m)
    (\<lambda>q. posIterAccess (CompressedModeFormat f ord uni zl a) q m) = ok (segs ! k)"
proof -
  have "building m ca s segs []" by (rule assembles_building [OF assms(5,1-4)])
  then have "compressed_stores m s segs" by (rule building_stores [OF _ assms(6,8)])
  from compressed.visits_segment [OF this assms(9,7)] show ?thesis .
qed

definition example_root :: Mode where
  "example_root = example_mode\<lparr>m_parent := None\<rparr>"

definition example_empty :: state where
  "example_empty = \<lparr>scalars = (\<lambda>l. if l = LVar 3 then Some 1 else None),
     arrays = (\<lambda>l. if l = LProp 0 PIndices 0 0 then Some [0, 7]
       else if l = LProp 0 PIndices 0 1 then Some [9] else None),
     ext_calls = (\<lambda>f xs. err TypeError)\<rparr>"

text \<open>Appends the coordinates 5 and 6, which makes the array grow, and ends the segment.\<close>

definition example_vars :: mode_vars where
  "example_vars = (\<lambda>l. if l = ''A1_crd_size'' then Some (Var 3 ''A1_crd_size'' Int32 False False False) else None)"

definition example_assembly :: "state res" where
  "example_assembly =
     (let lf = CompressedModeFormat False True True False 8; m = example_root; b = \<lparr>next_addr = 10, num_vars_cached = 0\<rparr>;
          append = (\<lambda>p i s. bindR (getAppendCoord lf (Literal Int32 p) (Literal Int32 i) m (example_vars, b)) (\<lambda>(r, _).
            case r of None \<Rightarrow> err IError | Some st \<Rightarrow> bindR (run 9 fpu_null st s) (\<lambda>(fl, s'). ok s')))
      in bindR (append 0 5 example_empty) (\<lambda>s1. bindR (append 1 6 s1) (\<lambda>s2.
         bindR (getAppendEdges lf (Literal Int32 0) (Literal Int32 0) (Literal Int32 2) m) (\<lambda>r.
           case r of None \<Rightarrow> err IError | Some st \<Rightarrow> bindR (run 9 fpu_null st s2) (\<lambda>(fl, s'). ok s')))))"

lemma assembled_compressed_iteration_witness:
  "\<exists>s. visits fpu_null s (posIterBounds (CompressedModeFormat False True True False 8) (Literal Int32 0) example_root)
    (\<lambda>q. posIterAccess (CompressedModeFormat False True True False 8) q example_root) = ok [5, 6]"
proof -
  let ?lf = "CompressedModeFormat False True True False 8" and ?m = example_root
  let ?go = "assembles fpu_null ?lf ?m example_vars 3"
  have "map_sum id (\<lambda>s. True) example_assembly = ok True" by code_simp
  then obtain s where "example_assembly = ok s" by (auto simp: map_sum_def split: sum.splits)
  then obtain st1 bs1 fl1 s1 st2 bs2 fl2 s2 st3 fl3 where
    e1: "getAppendCoord ?lf (Literal Int32 0) (Literal Int32 5) ?m (example_vars, \<lparr>next_addr = 10, num_vars_cached = 0\<rparr>) = ok (Some st1, bs1)"
    and r1: "run 9 fpu_null st1 example_empty = ok (fl1, s1)"
    and e2: "getAppendCoord ?lf (Literal Int32 1) (Literal Int32 6) ?m (example_vars, \<lparr>next_addr = 10, num_vars_cached = 0\<rparr>) = ok (Some st2, bs2)"
    and r2: "run 9 fpu_null st2 s1 = ok (fl2, s2)"
    and e3: "getAppendEdges ?lf (Literal Int32 0) (Literal Int32 0) (Literal Int32 2) ?m = ok (Some st3)"
    and r3: "run 9 fpu_null st3 s2 = ok (fl3, s)"
    by (auto simp: example_assembly_def res_simps Let_def split: option.splits)
  have k: "keeps_value ?m 3 (Literal Int32 u)" for u by (simp add: keeps_value_def independent_def)
  have m: "member_get Int32 0 = 0" "member_get Int32 1 = 1" "member_get Int32 2 = 2" "member_get Int32 5 = 5" "member_get Int32 6 = 6"
    by code_simp+
  have l: "int_value fpu_null t (Literal Int32 u) x" if "member_get Int32 u = x" "fits x" for t u x
    using that by (simp add: int_value_def)
  have "?go (example_empty, [], []) (s1, [], [] @ [5])"
    by (rule assembles.Coord [OF e1 _ k _ k run_sound(1) [OF r1]]; rule l) (simp_all add: m fits_def)
  moreover have "?go (s1, [], [5]) (s2, [], [5] @ [6])"
    by (rule assembles.Coord [OF e2 _ k _ k run_sound(1) [OF r2]]; rule l) (simp_all add: m fits_def)
  moreover have "?go (s2, [], [5, 6]) (s, [] @ [[5, 6]], [])"
    by (rule assembles.Edges [OF e3 _ _ _ _ run_sound(1) [OF r3]]; (rule l)?) (simp_all add: m fits_def)
  ultimately have steps: "?go\<^sup>*\<^sup>* (example_empty, [], []) (s, [[5, 6]], [])"
    by (auto intro: rtranclp.rtrancl_into_rtrancl)
  have arr: "compressed_arrays ?m example_pos (LProp 0 PIndices 0 0) example_crd (LProp 0 PIndices 0 1)"
    using example_arrays by (simp add: compressed_arrays_def example_root_def)
  have b: "building ?m 3 example_empty [] []"
    by (rule buildingI [OF arr, of _ "[0, 7]" "[9]"]) (simp_all add: example_empty_def fits_def edges_written_def)
  have n: "Mode_getName ?m = ok ''A1''" by code_simp
  have c: "example_vars (''A1'' @ ''_crd_size'') = Some (Var 3 ''A1_crd_size'' Int32 False False False)"
    by (simp add: example_vars_def)
  have "parent_appends ?m" by (simp add: parent_appends_def example_root_def)
  from assembled_compressed_iteration [OF b n c _ steps this, of 0 "Literal Int32 0"] l [of 0 0] m(1)
  show ?thesis by (auto simp: capacity_def fits_def)
qed

end
