(* ===== verification/Level_Insertion.thy ===== *)
theory Level_Insertion
  imports Level_Assembly
begin

text \<open>
  Ungrouped insertion into a compressed level: with the positions computed from the number of coordinates of
  each parent, coordinates are inserted in any order at positions that are counted up in the position
  array itself, which is shifted back when all are inserted.
\<close>

subsection \<open>Shifting the positions\<close>

text \<open>The positions after \<open>k\<close> iterations of the emitted loop.\<close>

definition shifted :: "int list \<Rightarrow> nat \<Rightarrow> nat \<Rightarrow> int list" where
  "shifted ps n k = map (\<lambda>j. if n - k < j \<and> j \<le> n then ps ! (j - 1) else ps ! j) [0..<length ps]"

lemma shifted_0 [simp]: "shifted ps n 0 = ps"
  by (intro nth_equalityI) (auto simp: shifted_def)

lemma length_shifted [simp]: "length (shifted ps n k) = length ps"
  by (simp add: shifted_def)

lemma shifted_step:
  assumes "k < n" "n < length ps"
  shows "(shifted ps n k)[n - k := ps ! (n - k - 1)] = shifted ps n (Suc k)" "shifted ps n k ! (n - k - 1) = ps ! (n - k - 1)"
  using assms by (auto simp: shifted_def nth_list_update intro!: nth_equalityI)

lemma finalize_yield_form:
  assumes "compressed_arrays m pos P crd C" "etype prevSize = Int32"
    and "getFinalizeYieldPos (CompressedModeFormat f ord uni zl a) F prevSize m (vs, b) = ok (r, (vs', b'))"
  shows "\<exists>p zero one loop nm b1. p = Var (next_addr b) nm Int32 False False False \<and> next_addr b1 = Suc (next_addr b) \<and>
    (\<forall>F s. int_value F s zero 0) \<and> (\<forall>F s. int_value F s one 1) \<and>
    For_make F p zero prevSize one
      (Store pos (Sub Int32 prevSize p) (Load Int32 pos (Sub Int32 (Sub Int32 prevSize p) one)) False NotParallel)
      Serial NotParallel 0 0 b1 = ok (loop, b') \<and>
    r = Some (Block_make [Some loop, Some (Store pos zero zero False NotParallel)])"
proof -
  from Literal_int_ok [of 1] Literal_int_ok [of 0] obtain u z where
    u: "Literal_int 1 = ok (Literal Int32 u)" "\<forall>F s. int_value F s (Literal Int32 u) 1" and
    z: "Literal_int 0 = ok (Literal Int32 z)" "\<forall>F s. int_value F s (Literal Int32 z) 0" by (auto simp: fits_def)
  have p: "etype pos = Int32" "getPosArray m = ok pos"
    using assms(1) by (simp_all add: compressed_arrays_def array_handle_def getPosArray_def getArray_def vector_get_def)
  let ?p = "Var (next_addr b) ''p'' Int32 False False False" and ?one = "Literal Int32 u"
  from assms(3) obtain loop where n: "For_make F ?p (Literal Int32 z) prevSize ?one
      (Store pos (Sub Int32 prevSize ?p) (Load Int32 pos (Sub Int32 (Sub Int32 prevSize ?p) ?one)) False NotParallel)
      Serial NotParallel 0 0 (b\<lparr>next_addr := Suc (next_addr b)\<rparr>) = ok (loop, b')"
    "r = Some (Block_make [Some loop, Some (Store pos (Literal Int32 z) (Literal Int32 z) False NotParallel)])"
    using u z p assms(2)
    by (auto simp: getFinalizeYieldPos_def Compressed_getFinalizeYieldPos_def res_simps new_var_def buildL_def fresh_def
        Var_make_def Load_make_def int_make default_Store_def Store_make_def default_For_def kind_preds)
  have a: "next_addr (b\<lparr>next_addr := Suc (next_addr b)\<rparr>) = Suc (next_addr b)" by simp
  show ?thesis by (intro exI conjI, rule refl, rule a, rule z(2), rule u(2), rule n(1), rule n(2))
qed

lemma finalize_yield_shifts:
  assumes arr: "compressed_arrays m pos P crd C"
    and emit: "getFinalizeYieldPos (CompressedModeFormat f ord uni zl a) F prevSize m (vs, b) = ok (Some st, (vs', b'))"
    and sz: "int_value F s prevSize (int n)" "LVar (next_addr b) \<notin> set (scalar_reads prevSize)"
      "LVar (Suc (next_addr b)) \<notin> set (scalar_reads prevSize)" "P \<notin> set (array_reads prevSize)"
    and ps: "arrays s P = Some ps" "n < length ps" "\<forall>x \<in> set ps. fits x"
  shows "\<exists>s'. runs_to F st s s' \<and> frame {LVar (next_addr b), LVar (Suc (next_addr b))} {P} s s' \<and>
    arrays s' P = Some ((shifted ps n n)[0 := 0])"
proof -
  let ?c = "next_addr b"
  from finalize_yield_form [OF arr int_valueD(1) [OF sz(1)] emit] obtain p zero one loop nm b1 where
    p: "p = Var ?c nm Int32 False False False" and b1: "next_addr b1 = Suc ?c" and
    lits: "\<And>F s. int_value F s zero 0" "\<And>F s. int_value F s one 1" and
    loop: "For_make F p zero prevSize one
      (Store pos (Sub Int32 prevSize p) (Load Int32 pos (Sub Int32 (Sub Int32 prevSize p) one)) False NotParallel)
      Serial NotParallel 0 0 b1 = ok (loop, b')" and
    st: "st = Block_make [Some loop, Some (Store pos zero zero False NotParallel)]" by blast
  have h: "etype pos = Int32" "location_of pos = Some P" "array_handle pos P"
    using arr(1) by (simp_all add: compressed_arrays_def array_handle_def)
  let ?s0 = "bound_cached b1 prevSize (int n) s"
  let ?fam = "\<lambda>k. set_scalar (LVar ?c) k (set_array P (Some (shifted ps n (nat k))) ?s0)"
  have s0: "arrays ?s0 P = Some ps" by (simp add: bound_cached_def ps(1))
  have sz': "int_value F (?fam k) prevSize (int n)" for k
  proof (rule int_value_frame [OF sz(1)])
    show "frame {LVar ?c, LVar (Suc ?c)} {P} s (?fam k)"
      by (simp add: frame_def set_scalar_def set_array_def bound_cached_def b1)
  qed (use sz in auto)
  have "runs_to F loop s (?fam (int n))"
  proof (rule counted_For_make [where fam = ?fam, OF loop p lits(2) sz(1) lits(1)])
    show "?fam 0 = set_scalar (LVar ?c) 0 ?s0" by (simp add: set_array_same [OF s0])
    show "if isVar prevSize then int_value F (?fam k) prevSize (int n) else scalars (?fam k) (LVar (next_addr b1)) = Some (int n)" for k
    proof (cases "isVar prevSize")
      case True
      with sz' [of k] show ?thesis by (simp only: if_True)
    next
      case False
      then show ?thesis by (simp add: bound_cached_def b1 set_scalar_def)
    qed
    fix k :: int assume k: "0 \<le> k" "k < int n"
    define j where "j = nat k"
    have j: "k = int j" "nat k = j" "nat (k + 1) = Suc j" "j < n" using k by (auto simp: j_def)
    let ?t = "?fam k" and ?qs = "shifted ps n j"
    have t: "scalars ?t (LVar ?c) = Some k" "arrays ?t P = Some ?qs" by (simp_all add: set_scalar_def set_array_def j(2))
    have nf: "fits (int n)" by (rule int_valueD(3) [OF sz(1)])
    have fs: "fits k" "fits (int n - k)" "fits (int n - k - 1)" using k nf by (simp_all add: fits_def)
    have vp: "int_value F ?t p k" unfolding p by (rule int_var [OF t(1) fs(1)])
    have vd: "int_value F ?t (Sub Int32 prevSize p) (int (n - j))"
      using int_binary(2) [OF sz' vp fs(2)] j by (simp add: of_nat_diff)
    have vs: "int_value F ?t (Sub Int32 (Sub Int32 prevSize p) one) (int (n - j - 1))"
    proof -
      have "int (n - j) - 1 = int (n - j - 1)" using j(4) by simp
      with int_binary(2) [OF vd lits(2)] fs(3) j show ?thesis by (simp add: of_nat_diff algebra_simps)
    qed
    have "fits (ps ! (n - j - 1))" using ps(2,3) by simp
    then have vl: "int_value F ?t (Load Int32 pos (Sub Int32 (Sub Int32 prevSize p) one)) (ps ! (n - j - 1))"
      using index_load(2) [OF h(3) t(2) vs] shifted_step(2) [OF j(4) ps(2)] ps(2) by simp
    let ?t1 = "set_array P (Some (?qs[n - j := ps ! (n - j - 1)])) ?t"
    have r: "runs_to F (Store pos (Sub Int32 prevSize p) (Load Int32 pos (Sub Int32 (Sub Int32 prevSize p) one)) False NotParallel) ?t ?t1"
      using runs_to_Store [OF h(2,1) t(2) vd _ _ vl] ps(2) by (simp del: of_nat_diff)
    show "\<exists>s1. runs_to F (Store pos (Sub Int32 prevSize p) (Load Int32 pos (Sub Int32 (Sub Int32 prevSize p) one)) False NotParallel) ?t s1 \<and>
        scalars s1 (LVar ?c) = Some k \<and> set_scalar (LVar ?c) (k + 1) s1 = ?fam (k + 1)"
    proof (intro exI [of _ ?t1] conjI r)
      from shifted_step(1) [OF j(4) ps(2)] show "set_scalar (LVar ?c) (k + 1) ?t1 = ?fam (k + 1)"
        by (simp add: set_scalar_def set_array_def j(2,3) fun_eq_iff)
    qed (use t(1) in simp)
  qed (simp_all add: set_scalar_def)
  moreover have last: "arrays (?fam (int n)) P = Some (shifted ps n n)"
    by (simp add: set_scalar_def set_array_def)
  have "runs_to F (Store pos zero zero False NotParallel) (?fam (int n))
      (set_array P (Some ((shifted ps n n)[0 := 0])) (?fam (int n)))"
    using runs_to_Store [OF h(2,1) last lits(1) _ _ lits(1)] ps(2) by (cases ps) simp_all
  ultimately have "runs_to F st s (set_array P (Some ((shifted ps n n)[0 := 0])) (?fam (int n)))"
    unfolding st by (rule runs_to_Block_make2)
  moreover have "frame {LVar ?c, LVar (Suc ?c)} {P} s (set_array P (Some ((shifted ps n n)[0 := 0])) (?fam (int n)))"
    by (simp add: frame_def set_scalar_def set_array_def bound_cached_def b1)
  moreover have "arrays (set_array P (Some ((shifted ps n n)[0 := 0])) (?fam (int n))) P = Some ((shifted ps n n)[0 := 0])"
    by (simp add: set_array_def)
  ultimately show ?thesis by blast
qed

subsection \<open>Inserting\<close>

text \<open>The first position of parent \<open>k\<close>, from the number of coordinates of each parent.\<close>

definition first_of :: "nat list \<Rightarrow> nat \<Rightarrow> nat" where
  "first_of sizes k = sum_list (take k sizes)"

lemma first_of_simps [simp]: "first_of sizes 0 = 0"
  "k < length sizes \<Longrightarrow> first_of sizes (Suc k) = first_of sizes k + sizes ! k"
  by (simp_all add: first_of_def take_Suc_conv_app_nth)

lemma first_of_mono: "j \<le> k \<Longrightarrow> k \<le> length sizes \<Longrightarrow> first_of sizes j \<le> first_of sizes k"
proof (induction k)
  case (Suc k)
  then show ?case by (cases "j = Suc k") auto
qed simp

lemma first_of_disjoint:
  assumes "j < length sizes" "k < length sizes" "i < sizes ! j" "l < sizes ! k" "first_of sizes j + i = first_of sizes k + l"
  shows "j = k \<and> i = l"
proof -
  have "j = k"
  proof (rule ccontr)
    assume "j \<noteq> k"
    then consider "Suc j \<le> k" | "Suc k \<le> j" by linarith
    then show False
      using first_of_mono [of "Suc j" k sizes] first_of_mono [of "Suc k" j sizes] assms by cases auto
  qed
  with assms(5) show ?thesis by simp
qed

lemma first_of_lengths: "map length segs = sizes \<Longrightarrow> int (first_of sizes k) = start_of segs k"
  by (auto simp: first_of_def start_of_def length_concat take_map)

text \<open>The state of the level while the coordinates are inserted: each position is the first free one of its
  parent.\<close>

definition inserting :: "Mode \<Rightarrow> nat list \<Rightarrow> state \<Rightarrow> int list list \<Rightarrow> bool" where
  "inserting m sizes s segs \<longleftrightarrow>
     (\<exists>pos P crd C ps cs. compressed_arrays m pos P crd C \<and> arrays s P = Some ps \<and> arrays s C = Some cs \<and>
       length segs = length sizes \<and> length sizes < length ps \<and>
       (\<forall>k < length sizes. ps ! k = int (first_of sizes k + length (segs ! k)) \<and> length (segs ! k) \<le> sizes ! k \<and>
         (\<forall>j < length (segs ! k). cs ! (first_of sizes k + j) = segs ! k ! j)) \<and>
       first_of sizes (length sizes) \<le> length cs \<and> fits (int (first_of sizes (length sizes))) \<and>
       (\<forall>x \<in> set ps. fits x) \<and> (\<forall>c \<in> set (concat segs). fits c) \<and> fits (int (length sizes)))"

lemma yield_form:
  assumes "compressed_arrays m pos P crd C" "etype parent = Int32"
    and "getYieldPos (CompressedModeFormat f ord uni zl a) parent coords m (vs, b) = ok (r, (vs', b'))"
  shows "\<exists>p one nm. p = Var (next_addr b) nm Int32 False False False \<and> (\<forall>F s. int_value F s one 1) \<and>
    r = Some \<lparr>mf_body = Some (Block_make [Some (VarDecl p (Load Int32 pos parent)),
        Some (Store pos parent (Add Int32 (Load Int32 pos parent) one) False NotParallel)]), mf_results = [p]\<rparr>"
proof -
  from Literal_int_ok [of 1] obtain u where u: "Literal_int 1 = ok (Literal Int32 u)" "\<forall>F s. int_value F s (Literal Int32 u) 1"
    by (auto simp: fits_def)
  have p: "etype pos = Int32" "getPosArray m = ok pos"
    using assms(1) by (simp_all add: compressed_arrays_def array_handle_def getPosArray_def getArray_def vector_get_def)
  from assms(3) obtain n where
    "r = Some \<lparr>mf_body = Some (Block_make [Some (VarDecl (Var (next_addr b) (''p'' @ n) Int32 False False False) (Load Int32 pos parent)),
        Some (Store pos parent (Add Int32 (Load Int32 pos parent) (Literal Int32 u)) False NotParallel)]),
      mf_results = [Var (next_addr b) (''p'' @ n) Int32 False False False]\<rparr>"
    using u p assms(2)
    by (auto simp: getYieldPos_def Compressed_getYieldPos_def res_simps new_var_def buildL_def fresh_def Var_make_def
        VarDecl_make_def Load_make_def int_make default_Store_def Store_make_def kind_preds isVar_def)
  with u(2) show ?thesis by blast
qed

lemma insert_coord_form:
  assumes "compressed_arrays m pos P crd C" "etype p = Int32"
  shows "\<exists>one. (\<forall>F s. int_value F s one 1) \<and>
    getInsertCoord (CompressedModeFormat f ord uni zl a) parent p (outer @ [coord]) m =
      ok (Some (Store crd (Mul Int32 p one) coord False NotParallel))"
proof -
  from Literal_int_ok [of 1] obtain u where u: "Literal_int 1 = ok (Literal Int32 u)" "\<forall>F s. int_value F s (Literal Int32 u) 1"
    by (auto simp: fits_def)
  with assms show ?thesis
    by (auto simp: getInsertCoord_def Compressed_getInsertCoord_def compressed_arrays_def getCoordArray_def getArray_def vector_get_def stride_def int_make
        vector_back_def default_Store_def Store_make_def)
qed

text \<open>One insertion: the position for the parent, and the coordinate at it.\<close>

lemma yield_runs:
  assumes arr: "compressed_arrays m pos P crd C" and ah: "array_handle pos P"
    and par: "int_value F s parent (int k)" "LVar pa \<notin> set (scalar_reads parent)" "P \<notin> set (array_reads parent)"
    and ps: "arrays s P = Some ps" "k < length ps" "fits (ps ! k)" "fits (ps ! k + 1)" and one: "\<And>F s. int_value F s one 1"
  shows "runs_to F (Block_make [Some (VarDecl (Var pa nm Int32 False False False) (Load Int32 pos parent)),
      Some (Store pos parent (Add Int32 (Load Int32 pos parent) one) False NotParallel)]) s
    (set_array P (Some (ps[k := ps ! k + 1])) (set_scalar (LVar pa) (ps ! k) s))"
proof -
  let ?s1 = "set_scalar (LVar pa) (ps ! k) s"
  have h: "etype pos = Int32" "location_of pos = Some P" using ah by (simp_all add: array_handle_def)
  have r1: "runs_to F (VarDecl (Var pa nm Int32 False False False) (Load Int32 pos parent)) s ?s1"
    by (rule runs_to_Assign(2) [OF _ _ index_load(2) [OF ah ps(1) par(1) ps(2,3)]]) simp_all
  have par1: "int_value F ?s1 parent (int k)"
    using par(1,2) by (simp add: int_value_def eval_set_scalar)
  have ps1: "arrays ?s1 P = Some ps" using ps(1) by simp
  have v: "int_value F ?s1 (Add Int32 (Load Int32 pos parent) one) (ps ! k + 1)"
    by (rule int_binary(1) [OF index_load(2) [OF ah ps1 par1 ps(2,3)] one ps(4)])
  have "runs_to F (Store pos parent (Add Int32 (Load Int32 pos parent) one) False NotParallel) ?s1
      (set_array P (Some (ps[k := ps ! k + 1])) ?s1)"
    using runs_to_Store [OF h(2,1) ps1 par1 _ _ v] ps(2) by simp
  with r1 show ?thesis by (rule runs_to_Block_make2)
qed

lemma insert_step:
  assumes "inserting m sizes s segs" "k < length sizes" "length (segs ! k) < sizes ! k"
    and yield: "getYieldPos (CompressedModeFormat f ord uni zl a) parent coords m (vs, b) = ok (Some mf, vb)"
      "mf_body mf = Some st1" "mf_results mf = [p]"
    and emit: "getInsertCoord (CompressedModeFormat f ord uni zl a) parent p (outer @ [coord]) m = ok (Some st2)"
    and vals: "int_value F s parent (int k)" "int_value F s coord c"
    and free: "LVar (next_addr b) \<notin> set (scalar_reads parent @ scalar_reads coord)"
      "\<forall>pos P crd C. compressed_arrays m pos P crd C \<longrightarrow> P \<notin> set (array_reads parent @ array_reads coord)"
  shows "\<exists>s1 s'. runs_to F st1 s s1 \<and> runs_to F st2 s1 s' \<and> inserting m sizes s' (segs[k := segs ! k @ [c]])"
proof -
  from assms(1) obtain pos P crd C ps cs where r: "compressed_arrays m pos P crd C" "arrays s P = Some ps" "arrays s C = Some cs"
    "length segs = length sizes" "length sizes < length ps"
    "\<forall>k < length sizes. ps ! k = int (first_of sizes k + length (segs ! k)) \<and> length (segs ! k) \<le> sizes ! k \<and>
      (\<forall>j < length (segs ! k). cs ! (first_of sizes k + j) = segs ! k ! j)"
    "first_of sizes (length sizes) \<le> length cs" "fits (int (first_of sizes (length sizes)))" "\<forall>x \<in> set ps. fits x"
    "\<forall>c \<in> set (concat segs). fits c" "fits (int (length sizes))"
    unfolding inserting_def by blast
  obtain vs' b' where vb: "vb = (vs', b')" by (cases vb)
  have h: "array_handle pos P" "array_handle crd C" "etype parent = Int32" "P \<noteq> C" "etype crd = Int32" "location_of crd = Some C"
    using r(1) vals(1) by (simp_all add: compressed_arrays_def array_handle_def int_value_def)
  from yield_form [OF r(1) h(3) yield(1) [unfolded vb]] yield(2,3) obtain one nm where
    p: "p = Var (next_addr b) nm Int32 False False False" and one: "\<forall>F s. int_value F s one 1" and
    st1: "st1 = Block_make [Some (VarDecl p (Load Int32 pos parent)),
        Some (Store pos parent (Add Int32 (Load Int32 pos parent) one) False NotParallel)]" by auto
  from insert_coord_form [OF r(1), of p f ord uni zl a parent outer coord] emit obtain one' where
    one': "\<forall>F s. int_value F s one' 1" and st2: "st2 = Store crd (Mul Int32 p one') coord False NotParallel" by (auto simp: p)
  define q where "q = first_of sizes k + length (segs ! k)"
  have psk: "ps ! k = int q" using r(6) assms(2) by (simp add: q_def)
  have q: "q < first_of sizes (Suc k)" "q < first_of sizes (length sizes)"
    using assms(2,3) first_of_mono [of "Suc k" "length sizes" sizes] by (auto simp: q_def)
  have fq: "fits (int q)" "fits (int q + 1)" "fits c"
    using q(2) r(8) int_valueD(3) [OF vals(2)] by (auto simp: fits_def)
  let ?s1 = "set_array P (Some (ps[k := int q + 1])) (set_scalar (LVar (next_addr b)) (int q) s)"
  have np: "P \<notin> set (array_reads parent)" "P \<notin> set (array_reads coord)" using free(2) r(1) by auto
  have run1: "runs_to F st1 s ?s1"
    using yield_runs [OF r(1) h(1) vals(1) _ np(1) r(2), of "next_addr b" one nm] free(1) r(5) assms(2) fq one
    unfolding st1 p psk by simp
  have fr: "frame {LVar (next_addr b)} {P} s ?s1" by (simp add: frame_def set_scalar_def set_array_def)
  have coord: "int_value F ?s1 coord c"
    by (rule int_value_frame [OF vals(2) fr]) (use free(1) np(2) in auto)
  have cs1: "arrays ?s1 C = Some cs" using r(3) h(4) by (simp add: set_array_def)
  have "int_value F ?s1 p (int q)" unfolding p by (rule int_var) (simp_all add: set_scalar_def fq)
  from int_binary(3) [OF this one' [rule_format]] fq have loc: "int_value F ?s1 (Mul Int32 p one') (int q)" by simp
  let ?s' = "set_array C (Some (cs[q := c])) ?s1"
  have run2: "runs_to F st2 ?s1 ?s'"
    unfolding st2 using runs_to_Store [OF h(6,5) cs1 loc _ _ coord] q(2) r(7) by simp
  let ?segs = "segs[k := segs ! k @ [c]]" and ?ps = "ps[k := int q + 1]" and ?cs = "cs[q := c]"
  have "?ps ! i = int (first_of sizes i + length (?segs ! i)) \<and> length (?segs ! i) \<le> sizes ! i \<and>
      (\<forall>j < length (?segs ! i). ?cs ! (first_of sizes i + j) = ?segs ! i ! j)" if i: "i < length sizes" for i
  proof -
    have other: "q \<noteq> first_of sizes i + j" if "j < length (segs ! i)" for j
      using first_of_disjoint [OF i assms(2) _ assms(3), of j] that r(6) i by (force simp: q_def)
    show ?thesis
    proof (cases "i = k")
      case True
      then show ?thesis
        using r(4-7) assms(2,3) q(2) other by (auto simp: q_def nth_append less_Suc_eq nth_list_update)
    next
      case False
      then show ?thesis using r(4,6) i other by (auto simp: nth_list_update_neq)
    qed
  qed
  moreover have "\<forall>x \<in> set ?ps. fits x"
    using r(9) fq(2) set_update_subset_insert [of ps k "int q + 1"] by blast
  moreover have "\<forall>x \<in> set (concat ?segs). fits x"
  proof
    fix x assume "x \<in> set (concat ?segs)"
    then obtain xs where xs: "xs \<in> set ?segs" "x \<in> set xs" by auto
    then have "xs = segs ! k @ [c] \<or> xs \<in> set segs" using set_update_subset_insert [of segs k "segs ! k @ [c]"] by blast
    moreover have "segs ! k \<in> set segs" using assms(2) r(4) by simp
    ultimately show "fits x" using xs(2) r(10) fq(3) by auto
  qed
  moreover have "arrays ?s' P = Some ?ps" "arrays ?s' C = Some ?cs" using h(4) by (simp_all add: set_array_def)
  ultimately have "inserting m sizes ?s' ?segs"
    unfolding inserting_def using r(1,4,5,7,8,11) by (intro exI [of _ pos] exI [of _ P] exI [of _ crd] exI [of _ C] exI [of _ ?ps] exI [of _ ?cs]) simp
  with run1 run2 show ?thesis by blast
qed

subsection \<open>The protocol\<close>

definition untouched :: "Mode \<Rightarrow> state \<Rightarrow> state \<Rightarrow> bool" where
  "untouched m s s' \<longleftrightarrow>
     (\<forall>pos P crd C. compressed_arrays m pos P crd C \<longrightarrow> arrays s' P = arrays s P \<and> arrays s' C = arrays s C)"

text \<open>The steps of an insertion: any parent that is not full gets its next coordinate, or other code runs that
  leaves the level alone.\<close>

inductive inserts :: "fpu \<Rightarrow> ModeFormatImpl \<Rightarrow> Mode \<Rightarrow> nat list \<Rightarrow> state \<times> int list list \<Rightarrow> state \<times> int list list \<Rightarrow> bool"
  for F lf m sizes where
  Insert: "k < length sizes \<Longrightarrow> length (segs ! k) < sizes ! k \<Longrightarrow>
    getYieldPos lf parent coords m (vs, b) = ok (Some mf, vb) \<Longrightarrow> mf_body mf = Some st1 \<Longrightarrow> mf_results mf = [p] \<Longrightarrow>
    getInsertCoord lf parent p (outer @ [coord]) m = ok (Some st2) \<Longrightarrow>
    int_value F s parent (int k) \<Longrightarrow> int_value F s coord c \<Longrightarrow>
    LVar (next_addr b) \<notin> set (scalar_reads parent @ scalar_reads coord) \<Longrightarrow>
    (\<forall>pos P crd C. compressed_arrays m pos P crd C \<longrightarrow> P \<notin> set (array_reads parent @ array_reads coord)) \<Longrightarrow>
    exec F st1 s fl1 s1 \<Longrightarrow> exec F st2 s1 fl2 s' \<Longrightarrow>
    inserts F lf m sizes (s, segs) (s', segs[k := segs ! k @ [c]])"
| Other: "untouched m s s' \<Longrightarrow> inserts F lf m sizes (s, segs) (s', segs)"

lemma inserting_untouched: "inserting m sizes s segs \<Longrightarrow> untouched m s s' \<Longrightarrow> inserting m sizes s' segs"
  unfolding inserting_def untouched_def by metis

lemma inserts_inserting:
  assumes "(inserts F (CompressedModeFormat f ord uni zl a) m sizes)\<^sup>*\<^sup>* (s0, segs0) (s, segs)" "inserting m sizes s0 segs0"
  shows "inserting m sizes s segs"
proof -
  have "inserting m sizes (fst y) (snd y)"
    if "(inserts F (CompressedModeFormat f ord uni zl a) m sizes)\<^sup>*\<^sup>* (s0, segs0) y" for y
    using that
  proof (induction rule: rtranclp_induct)
    case base
    then show ?case using assms(2) by simp
  next
    case (step y z)
    from step(2) show ?case
    proof cases
      case (Insert k segs parent coords vs b mf vb st1 p outer coord st2 s c fl1 s1 fl2 s')
      have "inserting m sizes s segs" using step(3) Insert(1) by simp
      from insert_step [OF this Insert(3-12)] obtain t1 t where t: "runs_to F st1 s t1" "runs_to F st2 t1 t"
        "inserting m sizes t (segs[k := segs ! k @ [c]])" by blast
      with Insert(13,14) have "s1 = t1" "s' = t" by (auto simp: runs_to_def)
      with t(3) Insert(2) show ?thesis by simp
    next
      case (Other s s' segs)
      with step(3) inserting_untouched show ?thesis by fastforce
    qed
  qed
  from this [OF assms(1)] show ?thesis by simp
qed

lemma take_concat_segments:
  "(\<forall>k < length segs. \<forall>j < length (segs ! k). cs ! (nat (start_of segs k) + j) = segs ! k ! j) \<Longrightarrow>
    length (concat segs) \<le> length cs \<Longrightarrow> take (length (concat segs)) cs = concat segs"
proof (induction segs rule: rev_induct)
  case (snoc x segs)
  have st: "start_of (segs @ [x]) k = start_of segs k" if "k \<le> length segs" for k
    using that by (simp add: start_of_def)
  have "\<forall>k < length segs. \<forall>j < length (segs ! k). cs ! (nat (start_of segs k) + j) = segs ! k ! j"
  proof (intro allI impI)
    fix k j assume "k < length segs" "j < length (segs ! k)"
    with snoc(2) [rule_format, of k j] st [of k] show "cs ! (nat (start_of segs k) + j) = segs ! k ! j"
      by (simp add: nth_append)
  qed
  with snoc(1,3) have IH: "take (length (concat segs)) cs = concat segs" by simp
  have x: "take (length x) (drop (length (concat segs)) cs) = x"
  proof (rule nth_equalityI)
    fix j assume "j < length (take (length x) (drop (length (concat segs)) cs))"
    then show "take (length x) (drop (length (concat segs)) cs) ! j = x ! j"
      using snoc(2) [rule_format, of "length segs" j] snoc(3) st [of "length segs"] by (simp del: length_concat)
  qed (use snoc(3) in simp)
  have "take (length (concat (segs @ [x]))) cs = take (length (concat segs)) cs @ take (length x) (drop (length (concat segs)) cs)"
    by (simp add: take_add del: length_concat)
  with IH x show ?case by simp
qed simp

text \<open>(C16) Ungrouped insertion: when each parent got as many coordinates as were counted for it, in whatever order
  the parents took turns, the code that finalizes the positions ends, in one state only, and leaves a level
  whose segments are the inserted coordinates.\<close>

theorem inserted_compressed_stores:
  assumes "inserting m sizes s0 (replicate (length sizes) [])"
    and "(inserts F (CompressedModeFormat f ord uni zl a) m sizes)\<^sup>*\<^sup>* (s0, replicate (length sizes) []) (s, segs)"
    and "map length segs = sizes"
    and "getFinalizeYieldPos (CompressedModeFormat f ord uni zl a) F prevSize m (vs, b) = ok (Some st, (vs', b'))"
    and "int_value F s prevSize (int (length sizes))"
    and "LVar (next_addr b) \<notin> set (scalar_reads prevSize)" "LVar (Suc (next_addr b)) \<notin> set (scalar_reads prevSize)"
    and "\<forall>pos P crd C. compressed_arrays m pos P crd C \<longrightarrow> P \<notin> set (array_reads prevSize)"
  shows "\<exists>s'. (\<forall>fl t. exec F st s fl t \<longleftrightarrow> fl = Fall \<and> t = s') \<and> compressed_stores m s' segs"
proof -
  have "inserting m sizes s segs" by (rule inserts_inserting [OF assms(2,1)])
  then obtain pos P crd C ps cs where r: "compressed_arrays m pos P crd C" "arrays s P = Some ps" "arrays s C = Some cs"
    "length segs = length sizes" "length sizes < length ps"
    "\<forall>k < length sizes. ps ! k = int (first_of sizes k + length (segs ! k)) \<and> length (segs ! k) \<le> sizes ! k \<and>
      (\<forall>j < length (segs ! k). cs ! (first_of sizes k + j) = segs ! k ! j)"
    "first_of sizes (length sizes) \<le> length cs" "fits (int (first_of sizes (length sizes)))" "\<forall>x \<in> set ps. fits x"
    "\<forall>c \<in> set (concat segs). fits c" "fits (int (length sizes))"
    unfolding inserting_def by blast
  have st: "start_of segs k = int (first_of sizes k)" for k using first_of_lengths [OF assms(3)] by simp
  have total: "int (length (concat segs)) = int (first_of sizes (length sizes))"
    using st [of "length segs", unfolded start_of_simps(2)] unfolding r(4) .
  have np: "P \<notin> set (array_reads prevSize)" using assms(8) r(1) by blast
  from finalize_yield_shifts [OF r(1) assms(4-7) np r(2,5,9)] obtain s' where s': "runs_to F st s s'"
    "frame {LVar (next_addr b), LVar (Suc (next_addr b))} {P} s s'"
    "arrays s' P = Some ((shifted ps (length sizes) (length sizes))[0 := 0])" by blast
  have pos: "(shifted ps (length sizes) (length sizes))[0 := 0] ! k = start_of segs k" if k: "k \<le> length segs" for k
  proof (cases k)
    case 0
    then show ?thesis using r(5) by (cases ps) (simp_all add: shifted_def upt_conv_Cons del: upt_Suc)
  next
    case (Suc i)
    then have i: "i < length sizes" "k < length ps" using k r(4,5) by simp_all
    then have "sizes ! i = length (segs ! i)" using assms(3) r(4) by (metis nth_map)
    with i(1) r(6) have "ps ! i = start_of segs k" by (simp add: st Suc)
    with i show ?thesis using Suc by (simp add: shifted_def)
  qed
  have "arrays s' C = Some cs" using s'(2) r(1,3) by (auto simp: frame_def compressed_arrays_def)
  moreover have "take (length (concat segs)) cs = concat segs"
    by (rule take_concat_segments) (use r(4,6,7) st total in \<open>simp_all del: length_concat\<close>)
  ultimately have "compressed_stores m s' segs"
    unfolding compressed_stores_def using r(1,4,5,7,8,10,11) s'(3) pos total
    by (intro exI [of _ pos] exI [of _ P] exI [of _ crd] exI [of _ C]
        exI [of _ "(shifted ps (length sizes) (length sizes))[0 := 0]"] exI [of _ cs]) (simp del: length_concat)
  with s'(1) show ?thesis unfolding runs_to_def by blast
qed

definition example_counted :: state where
  "example_counted = \<lparr>scalars = Map.empty,
     arrays = (\<lambda>l. if l = LProp 0 PIndices 0 0 then Some [0, 1, 2]
       else if l = LProp 0 PIndices 0 1 then Some [0, 0] else None),
     ext_calls = (\<lambda>f xs. err TypeError)\<rparr>"

text \<open>Inserts 7 for parent 1, then 5 for parent 0.\<close>

definition example_insertion :: "state res" where
  "example_insertion =
     (let lf = CompressedModeFormat False True True False 8; m = example_mode; b = \<lparr>next_addr = 10, num_vars_cached = 0\<rparr>;
          insert = (\<lambda>p i s. bindR (getYieldPos lf (Literal Int32 p) [] m (Map.empty, b)) (\<lambda>(r, _).
            case r of None \<Rightarrow> err IError | Some mf \<Rightarrow>
            (case mf_body mf of None \<Rightarrow> err IError | Some st1 \<Rightarrow>
            (case mf_results mf of [v] \<Rightarrow>
               bindR (getInsertCoord lf (Literal Int32 p) v ([] @ [Literal Int32 i]) m) (\<lambda>r2. case r2 of None \<Rightarrow> err IError | Some st2 \<Rightarrow>
                 bindR (run 9 fpu_null st1 s) (\<lambda>(fl1, s1). bindR (run 9 fpu_null st2 s1) (\<lambda>(fl2, s'). ok s')))
             | _ \<Rightarrow> err IError))))
      in bindR (insert 1 7 example_counted) (insert 0 5))"

lemma inserted_compressed_stores_witness:
  "\<exists>st s s'. exec fpu_null st s Fall s' \<and> compressed_stores example_mode s' [[5], [7]]"
proof -
  let ?lf = "CompressedModeFormat False True True False 8" and ?m = example_mode
  let ?b = "\<lparr>next_addr = 10, num_vars_cached = 0\<rparr>"
  let ?go = "inserts fpu_null ?lf ?m [1, 1]"
  have "map_sum id (\<lambda>s. True) example_insertion = ok True" by code_simp
  then obtain s where "example_insertion = ok s" by (auto simp: map_sum_def split: sum.splits)
  then obtain mf1 vb1 st1 p1 st2 fl1 fl2 s1 s2 mf2 vb2 st3 p2 st4 fl3 fl4 s3 where
    e1: "getYieldPos ?lf (Literal Int32 1) [] ?m (Map.empty, ?b) = ok (Some mf1, vb1)" "mf_body mf1 = Some st1" "mf_results mf1 = [p1]"
      "getInsertCoord ?lf (Literal Int32 1) p1 ([] @ [Literal Int32 7]) ?m = ok (Some st2)"
    and r1: "run 9 fpu_null st1 example_counted = ok (fl1, s1)" "run 9 fpu_null st2 s1 = ok (fl2, s2)"
    and e2: "getYieldPos ?lf (Literal Int32 0) [] ?m (Map.empty, ?b) = ok (Some mf2, vb2)" "mf_body mf2 = Some st3" "mf_results mf2 = [p2]"
      "getInsertCoord ?lf (Literal Int32 0) p2 ([] @ [Literal Int32 5]) ?m = ok (Some st4)"
    and r2: "run 9 fpu_null st3 s2 = ok (fl3, s3)" "run 9 fpu_null st4 s3 = ok (fl4, s)"
    by (auto simp: example_insertion_def res_simps Let_def split: option.splits list.splits)
  have m: "member_get Int32 0 = 0" "member_get Int32 1 = 1" "member_get Int32 2 = 2" "member_get Int32 5 = 5" "member_get Int32 7 = 7"
    by code_simp+
  have l: "int_value fpu_null t (Literal Int32 u) x" if "member_get Int32 u = x" "fits x" for t u x
    using that by (simp add: int_value_def)
  have "?go (example_counted, [[], []]) (s2, [[], []][1 := [[], []] ! 1 @ [7]])"
    by (rule inserts.Insert [OF _ _ e1 _ _ _ _ run_sound(1) [OF r1(1)] run_sound(1) [OF r1(2)]]; (rule l)?) (simp_all add: m fits_def)
  moreover have "?go (s2, [[], [7]]) (s, [[], [7]][0 := [[], [7]] ! 0 @ [5]])"
    by (rule inserts.Insert [OF _ _ e2 _ _ _ _ run_sound(1) [OF r2(1)] run_sound(1) [OF r2(2)]]; (rule l)?) (simp_all add: m fits_def)
  ultimately have steps: "?go\<^sup>*\<^sup>* (example_counted, replicate (length [1, 1 :: nat]) []) (s, [[5], [7]])"
    by (auto simp: numeral_eq_Suc intro: rtranclp.rtrancl_into_rtrancl)
  have start: "inserting ?m [1, 1] example_counted (replicate (length [1, 1 :: nat]) [])"
    unfolding inserting_def
    by (intro exI [of _ example_pos] exI [of _ "LProp 0 PIndices 0 0"] exI [of _ example_crd] exI [of _ "LProp 0 PIndices 0 1"]
        exI [of _ "[0, 1, 2]"] exI [of _ "[0, 0]"])
      (auto simp: example_arrays example_counted_def first_of_def fits_def less_Suc_eq)
  have "map_sum id (\<lambda>(r, _). r \<noteq> None) (getFinalizeYieldPos ?lf fpu_null (Literal Int32 2) ?m (Map.empty, ?b)) = ok True"
    by code_simp
  then obtain st vs' b' where "getFinalizeYieldPos ?lf fpu_null (Literal Int32 2) ?m (Map.empty, ?b) = ok (Some st, (vs', b'))"
    by (auto simp: map_sum_def split: sum.splits)
  from inserted_compressed_stores [OF start steps _ this l] m obtain s' where
    "\<forall>fl t. exec fpu_null st s fl t \<longleftrightarrow> fl = Fall \<and> t = s'" "compressed_stores ?m s' [[5], [7]]"
    by (auto simp: fits_def)
  then show ?thesis by blast
qed

end
