(* ===== verification/Index_Notation.thy ===== *)
theory Index_Notation
  imports Mode_Format IR
begin

text \<open>
  Index notation: index variables, tensor variables, accesses, index expressions and statements
  (include/taco/index_notation/index_notation_nodes.h, index_notation.h), the relations between index
  variables a schedule introduces (include/taco/index_notation/provenance_graph.h), and equality of
  expressions (\<open>struct Equals\<close> of src/index_notation/index_notation.cpp).

  Handles are shared pointers to immutable nodes and \<open>==\<close> compares the pointers. The nodes whose identity
  matters (index variables, tensor variables, accesses) carry their address; equality of two such nodes is
  equality of the values. Only the scheduling fields of a tensor variable are left out.
\<close>

subsection \<open>Variables\<close>

datatype IndexVar = IndexVar (iv_addr: nat) (iv_name: string)

record TensorVar =
  tv_addr :: nat
  tv_id :: int
  tv_name :: string
  tv_type :: TensorType
  tv_format :: Format

definition getOrder_tv :: "TensorVar \<Rightarrow> nat" where
  "getOrder_tv t = length (shape (tv_type t))"

subsection \<open>Accesses\<close>

record AccessWindow =
  aw_lo :: int
  aw_hi :: int
  aw_stride :: int

text \<open>The tensor behind an index set stands for itself by its tensor variable.\<close>

record IndexSet =
  is_set :: "int list"
  is_tensor :: TensorVar

datatype IndexVarIterationModifier = Window AccessWindow | Set IndexSet

text \<open>The maps of the modes with windows and with index sets are in the order of their keys.\<close>

record Access =
  acc_addr :: nat
  acc_tensorVar :: TensorVar
  acc_indexVars :: "IndexVar list"
  acc_windowedModes :: "(int \<times> AccessWindow) list"
  acc_indexSetModes :: "(int \<times> IndexSet) list"
  acc_isAccessingStructure :: bool

definition AccessNode_make ::
    "nat \<Rightarrow> TensorVar \<Rightarrow> IndexVar list \<Rightarrow> (int \<times> IndexVarIterationModifier) list \<Rightarrow> bool \<Rightarrow> Access" where
  "AccessNode_make addr tensorVar indices modifiers isAccessingStructure =
     \<lparr>acc_addr = addr, acc_tensorVar = tensorVar, acc_indexVars = indices,
      acc_windowedModes = concat (map (\<lambda>(k, m). case m of Window w \<Rightarrow> [(k, w)] | Set _ \<Rightarrow> []) modifiers),
      acc_indexSetModes = concat (map (\<lambda>(k, m). case m of Window _ \<Rightarrow> [] | Set s \<Rightarrow> [(k, s)]) modifiers),
      acc_isAccessingStructure = isAccessingStructure\<rparr>"

definition packageModifiers :: "Access \<Rightarrow> (int \<times> IndexVarIterationModifier) list" where
  "packageModifiers a =
     sort_key fst (map (\<lambda>(k, w). (k, Window w)) [kw \<leftarrow> acc_windowedModes a. map_of (acc_indexSetModes a) (fst kw) = None] @
                   map (\<lambda>(k, s). (k, Set s)) (acc_indexSetModes a))"

text \<open>\<open>TensorVar::operator()\<close>.\<close>

definition access_tensor :: "nat \<Rightarrow> TensorVar \<Rightarrow> IndexVar list \<Rightarrow> Access res" where
  "access_tensor addr t indices =
     assertR UError (length indices = getOrder_tv t) (ok (AccessNode_make addr t indices [] False))"

definition hasWindowedModes :: "Access \<Rightarrow> bool" where
  "hasWindowedModes a \<longleftrightarrow> acc_windowedModes a \<noteq> []"

definition isModeWindowed :: "Access \<Rightarrow> int \<Rightarrow> bool" where
  "isModeWindowed a mode \<longleftrightarrow> map_of (acc_windowedModes a) mode \<noteq> None"

definition window_at :: "Access \<Rightarrow> int \<Rightarrow> AccessWindow res" where
  "window_at a mode = (case map_of (acc_windowedModes a) mode of None \<Rightarrow> err IAssert | Some w \<Rightarrow> ok w)"

definition getWindowLowerBound :: "Access \<Rightarrow> int \<Rightarrow> int res" where
  "getWindowLowerBound a mode = bindR (window_at a mode) (\<lambda>w. ok (aw_lo w))"

definition getWindowUpperBound :: "Access \<Rightarrow> int \<Rightarrow> int res" where
  "getWindowUpperBound a mode = bindR (window_at a mode) (\<lambda>w. ok (aw_hi w))"

text \<open>Computed in \<open>int\<close>.\<close>

definition getWindowSize :: "Access \<Rightarrow> int \<Rightarrow> int res" where
  "getWindowSize a mode =
     bindR (window_at a mode) (\<lambda>w.
       let d = aw_hi w - aw_lo w; q = c_div d (aw_stride w) in
       assertR Overflow (wrapS 32 d = d) (assertR DivByZero (aw_stride w \<noteq> 0) (assertR Overflow (wrapS 32 q = q) (ok q))))"

definition getStride :: "Access \<Rightarrow> int \<Rightarrow> int res" where
  "getStride a mode = bindR (window_at a mode) (\<lambda>w. ok (aw_stride w))"

definition hasIndexSetModes :: "Access \<Rightarrow> bool" where
  "hasIndexSetModes a \<longleftrightarrow> acc_indexSetModes a \<noteq> []"

definition isModeIndexSet :: "Access \<Rightarrow> int \<Rightarrow> bool" where
  "isModeIndexSet a mode \<longleftrightarrow> map_of (acc_indexSetModes a) mode \<noteq> None"

definition index_set_at :: "Access \<Rightarrow> int \<Rightarrow> IndexSet res" where
  "index_set_at a mode = (case map_of (acc_indexSetModes a) mode of None \<Rightarrow> err IAssert | Some s \<Rightarrow> ok s)"

definition getModeIndexSetTensor :: "Access \<Rightarrow> int \<Rightarrow> TensorVar res" where
  "getModeIndexSetTensor a mode = bindR (index_set_at a mode) (\<lambda>s. ok (is_tensor s))"

definition getIndexSet :: "Access \<Rightarrow> int \<Rightarrow> int list res" where
  "getIndexSet a mode = bindR (index_set_at a mode) (\<lambda>s. ok (is_set s))"

subsection \<open>Relations between index variables\<close>

datatype BoundType = MinExact | MinConstraint | MaxExact | MaxConstraint

datatype IndexVarRelType = UNDEFINED | SPLIT | DIVIDE | POS | FUSE | BOUND | PRECOMPUTE

datatype IndexVarRel =
    UndefinedRel
  | SplitRel IndexVar IndexVar IndexVar nat          \<comment> \<open>parent, outer, inner, factor\<close>
  | DivideRel IndexVar IndexVar IndexVar nat         \<comment> \<open>parent, outer, inner, factor\<close>
  | PosRel IndexVar IndexVar Access                  \<comment> \<open>parent, position variable, access\<close>
  | FuseRel IndexVar IndexVar IndexVar               \<comment> \<open>outer parent, inner parent, fused\<close>
  | BoundRel IndexVar IndexVar nat BoundType         \<comment> \<open>parent, bound variable, bound, type\<close>
  | PrecomputeRel IndexVar IndexVar                  \<comment> \<open>parent, precompute variable\<close>

fun getRelType :: "IndexVarRel \<Rightarrow> IndexVarRelType" where
  "getRelType UndefinedRel = UNDEFINED"
| "getRelType (SplitRel _ _ _ _) = SPLIT"
| "getRelType (DivideRel _ _ _ _) = DIVIDE"
| "getRelType (PosRel _ _ _) = POS"
| "getRelType (FuseRel _ _ _) = FUSE"
| "getRelType (BoundRel _ _ _ _) = BOUND"
| "getRelType (PrecomputeRel _ _) = PRECOMPUTE"

fun rel_equals :: "IndexVarRel \<Rightarrow> IndexVarRel \<Rightarrow> bool" where
  "rel_equals (SplitRel p oo i n) (SplitRel p' oo' i' n') \<longleftrightarrow> p = p' \<and> oo = oo' \<and> i = i' \<and> n = n'"
| "rel_equals (DivideRel p oo i n) (DivideRel p' oo' i' n') \<longleftrightarrow> p = p' \<and> oo = oo' \<and> i = i' \<and> n = n'"
| "rel_equals (PosRel p v a) (PosRel p' v' a') \<longleftrightarrow> p = p' \<and> v = v' \<and> a = a'"
| "rel_equals (FuseRel oo i f) (FuseRel oo' i' f') \<longleftrightarrow> oo = oo' \<and> i = i' \<and> f = f'"
| "rel_equals (BoundRel p v n t) (BoundRel p' v' n' t') \<longleftrightarrow> p = p' \<and> v = v' \<and> n = n' \<and> t = t'"
| "rel_equals (PrecomputeRel p v) (PrecomputeRel p' v') \<longleftrightarrow> p = p' \<and> v = v'"
| "rel_equals UndefinedRel UndefinedRel \<longleftrightarrow> True"
| "rel_equals _ _ \<longleftrightarrow> False"

text \<open>An undefined relation is a null pointer.\<close>

fun rel_getParents :: "IndexVarRel \<Rightarrow> IndexVar list res" where
  "rel_getParents UndefinedRel = err BadMemory"
| "rel_getParents (SplitRel p _ _ _) = ok [p]"
| "rel_getParents (DivideRel p _ _ _) = ok [p]"
| "rel_getParents (PosRel p _ _) = ok [p]"
| "rel_getParents (FuseRel oo i _) = ok [oo, i]"
| "rel_getParents (BoundRel p _ _ _) = ok [p]"
| "rel_getParents (PrecomputeRel p _) = ok [p]"

fun rel_getChildren :: "IndexVarRel \<Rightarrow> IndexVar list res" where
  "rel_getChildren UndefinedRel = err BadMemory"
| "rel_getChildren (SplitRel _ oo i _) = ok [oo, i]"
| "rel_getChildren (DivideRel _ oo i _) = ok [oo, i]"
| "rel_getChildren (PosRel _ v _) = ok [v]"
| "rel_getChildren (FuseRel _ _ f) = ok [f]"
| "rel_getChildren (BoundRel _ v _ _) = ok [v]"
| "rel_getChildren (PrecomputeRel _ v) = ok [v]"

fun rel_getIrregulars :: "IndexVarRel \<Rightarrow> IndexVar list res" where
  "rel_getIrregulars UndefinedRel = err BadMemory"
| "rel_getIrregulars (SplitRel _ oo _ _) = ok [oo]"
| "rel_getIrregulars (DivideRel _ oo _ _) = ok [oo]"
| "rel_getIrregulars (PosRel _ v _) = ok [v]"
| "rel_getIrregulars (FuseRel _ _ f) = ok [f]"
| "rel_getIrregulars (BoundRel _ v _ _) = ok [v]"
| "rel_getIrregulars (PrecomputeRel _ v) = ok [v]"

lemma rel_equals_eq: "rel_equals a b \<longleftrightarrow> a = b"
  by (cases a; cases b) auto

subsection \<open>Expressions and statements\<close>

datatype Intrinsic =
    ModIntrinsic | AbsIntrinsic | PowIntrinsic | SquareIntrinsic | CubeIntrinsic | SqrtIntrinsic | CbrtIntrinsic
  | ExpIntrinsic | LogIntrinsic | Log10Intrinsic | SinIntrinsic | CosIntrinsic | TanIntrinsic | AsinIntrinsic
  | AcosIntrinsic | AtanIntrinsic | Atan2Intrinsic | SinhIntrinsic | CoshIntrinsic | TanhIntrinsic
  | AsinhIntrinsic | AcoshIntrinsic | AtanhIntrinsic | GtIntrinsic | LtIntrinsic | GteIntrinsic | LteIntrinsic
  | EqIntrinsic | NeqIntrinsic | MaxIntrinsic | MinIntrinsic | HeavisideIntrinsic | NotIntrinsic

text \<open>An undefined handle is \<open>IndexExpr\<close> \<^bold>\<open>without\<close> a node: it is what zeroed subexpressions become, and an
  operator node stands for its operation with undefined operands.\<close>

datatype IndexExpr =
    NoExpr
  | AccessNode Access
  | LiteralNode Datatype component_union
  | NegNode IndexExpr
  | SqrtNode IndexExpr
  | AddNode IndexExpr IndexExpr
  | SubNode IndexExpr IndexExpr
  | MulNode IndexExpr IndexExpr
  | DivNode IndexExpr IndexExpr
  | CastNode Datatype IndexExpr
  | CallIntrinsicNode Intrinsic "IndexExpr list"
  | ReductionNode IndexExpr IndexVar IndexExpr       \<comment> \<open>operator, variable, body\<close>

datatype OutputRaceStrategy = IgnoreRaces | NoRaces | Atomics | Temporary | ParallelReduction

datatype IndexStmt =
    NoStmt
  | AssignmentNode Access IndexExpr IndexExpr        \<comment> \<open>left, right, operator of a compound assignment\<close>
  | YieldNode "IndexVar list" IndexExpr
  | ForallNode IndexVar IndexStmt ParallelUnit OutputRaceStrategy nat
  | WhereNode IndexStmt IndexStmt                    \<comment> \<open>consumer, producer\<close>
  | MultiNode IndexStmt IndexStmt
  | SuchThatNode IndexStmt "IndexVarRel list"
  | SequenceNode IndexStmt IndexStmt                 \<comment> \<open>definition, mutation\<close>
  | AssembleNode IndexStmt IndexStmt                 \<comment> \<open>queries, compute\<close>

definition expr_defined :: "IndexExpr \<Rightarrow> bool" where
  "expr_defined e \<longleftrightarrow> e \<noteq> NoExpr"

definition stmt_defined :: "IndexStmt \<Rightarrow> bool" where
  "stmt_defined s \<longleftrightarrow> s \<noteq> NoStmt"

lemma defined_simps [simp]:
  "\<not> expr_defined NoExpr" "expr_defined (AccessNode a)" "expr_defined (LiteralNode t u)" "expr_defined (NegNode e)"
  "expr_defined (SqrtNode e)" "expr_defined (AddNode e f)" "expr_defined (SubNode e f)" "expr_defined (MulNode e f)"
  "expr_defined (DivNode e f)" "expr_defined (CastNode t e)" "expr_defined (CallIntrinsicNode g es)"
  "expr_defined (ReductionNode e v f)"
  by (simp_all add: expr_defined_def)

text \<open>\<open>Literal::zero\<close>. The bytes beyond the type's are not part of the literal.\<close>

definition IndexLiteral_zero :: "Datatype \<Rightarrow> IndexExpr res" where
  "IndexLiteral_zero t =
     (if t \<in> {UInt128, Int128, Undefined} then err IError else ok (LiteralNode t 0))"

text \<open>\<open>LiteralNode::getVal\<close> at the C++ type of kind \<open>t\<close>.\<close>

definition getVal :: "Datatype \<Rightarrow> Datatype \<Rightarrow> component_union \<Rightarrow> int res" where
  "getVal t lt u = assertR IAssert (lt = t) (ok (member_get t u))"

text \<open>\<open>memcmp\<close> over the bytes of the type.\<close>

definition same_bytes :: "Datatype \<Rightarrow> component_union \<Rightarrow> component_union \<Rightarrow> bool res" where
  "same_bytes t u v = bindR (getNumBytes t) (\<lambda>n. ok (read_bits (8 * nat n) u = read_bits (8 * nat n) v))"

end
