(* ===== verification/Vectors.thy ===== *)
theory Vectors
  imports Prelude
begin

text \<open>
  The operations on vectors of include/taco/util/collections.h, with tests that may fail: \<open>any\<close> and \<open>all\<close>
  stop at the first element that decides them, the others test every element from left to right. Where the
  test cannot fail they are the operations on lists.
\<close>

subsection \<open>Conditions that may fail\<close>

definition andR :: "bool res \<Rightarrow> bool res \<Rightarrow> bool res" where
  "andR a b = bindR a (\<lambda>x. if x then b else ok False)"

definition orR :: "bool res \<Rightarrow> bool res \<Rightarrow> bool res" where
  "orR a b = bindR a (\<lambda>x. if x then ok True else b)"

definition notR :: "bool res \<Rightarrow> bool res" where
  "notR a = bindR a (\<lambda>x. ok (\<not> x))"

definition ifR :: "bool res \<Rightarrow> 'a res \<Rightarrow> 'a res \<Rightarrow> 'a res" where
  "ifR c a b = bindR c (\<lambda>x. if x then a else b)"

lemma andR_simps [simp]: "andR (ok True) b = b" "andR (ok False) b = ok False" "andR (Inl e) b = Inl e"
    "andR (ok x) (ok y) = ok (x \<and> y)"
  by (simp_all add: andR_def)

lemma orR_simps [simp]: "orR (ok True) b = ok True" "orR (ok False) b = b" "orR (Inl e) b = Inl e"
    "orR (ok x) (ok y) = ok (x \<or> y)"
  by (simp_all add: orR_def)

lemma notR_simps [simp]: "notR (ok x) = ok (\<not> x)" "notR (Inl e) = Inl e"
  by (simp_all add: notR_def)

lemma ifR_simps [simp]: "ifR (ok True) a b = a" "ifR (ok False) a b = b" "ifR (Inl e) a b = Inl e"
    "ifR (ok c) (ok x) (ok y) = ok (if c then x else y)"
  by (simp_all add: ifR_def)

lemma andR_True [res_simps]: "andR a b = ok True \<longleftrightarrow> a = ok True \<and> b = ok True"
  by (cases a) (auto simp: andR_def)

lemma ifR_ok [res_simps]: "ifR c a b = ok x \<longleftrightarrow> c = ok True \<and> a = ok x \<or> c = ok False \<and> b = ok x"
  by (cases c) (auto simp: ifR_def)

lemma andR_cong [fundef_cong]: "a = a' \<Longrightarrow> (a' = ok True \<Longrightarrow> b = b') \<Longrightarrow> andR a b = andR a' b'"
  by (cases a') (auto simp: andR_def)

lemma orR_cong [fundef_cong]: "a = a' \<Longrightarrow> (a' = ok False \<Longrightarrow> b = b') \<Longrightarrow> orR a b = orR a' b'"
  by (cases a') (auto simp: orR_def)

lemma ifR_cong [fundef_cong]:
  "c = c' \<Longrightarrow> (c' = ok True \<Longrightarrow> a = a') \<Longrightarrow> (c' = ok False \<Longrightarrow> b = b') \<Longrightarrow> ifR c a b = ifR c' a' b'"
  by (cases c') (auto simp: ifR_def)

subsection \<open>Vectors\<close>

fun anyR :: "('a \<Rightarrow> bool res) \<Rightarrow> 'a list \<Rightarrow> bool res" where
  "anyR p [] = ok False"
| "anyR p (x # xs) = ifR (p x) (ok True) (anyR p xs)"

fun allR :: "('a \<Rightarrow> bool res) \<Rightarrow> 'a list \<Rightarrow> bool res" where
  "allR p [] = ok True"
| "allR p (x # xs) = ifR (p x) (allR p xs) (ok False)"

fun filterR :: "('a \<Rightarrow> bool res) \<Rightarrow> 'a list \<Rightarrow> 'a list res" where
  "filterR p [] = ok []"
| "filterR p (x # xs) = bindR (p x) (\<lambda>b. bindR (filterR p xs) (\<lambda>ys. ok (if b then x # ys else ys)))"

fun countR :: "('a \<Rightarrow> bool res) \<Rightarrow> 'a list \<Rightarrow> nat res" where
  "countR p [] = ok 0"
| "countR p (x # xs) = bindR (p x) (\<lambda>b. bindR (countR p xs) (\<lambda>n. ok (if b then Suc n else n)))"

fun splitR :: "('a \<Rightarrow> bool res) \<Rightarrow> 'a list \<Rightarrow> ('a list \<times> 'a list) res" where
  "splitR p [] = ok ([], [])"
| "splitR p (x # xs) =
     bindR (p x) (\<lambda>b. bindR (splitR p xs) (\<lambda>(ys, zs). ok (if b then (x # ys, zs) else (ys, x # zs))))"

text \<open>\<open>contains(container, value)\<close> compares the elements with the value.\<close>

definition containsR :: "('a \<Rightarrow> 'a \<Rightarrow> bool res) \<Rightarrow> 'a list \<Rightarrow> 'a \<Rightarrow> bool res" where
  "containsR eq xs v = anyR (\<lambda>x. eq x v) xs"

text \<open>The first answer in a search.\<close>

fun firstR :: "('a \<Rightarrow> 'b option res) \<Rightarrow> 'a list \<Rightarrow> 'b option res" where
  "firstR f [] = ok None"
| "firstR f (x # xs) = bindR (f x) (\<lambda>r. case r of Some y \<Rightarrow> ok (Some y) | None \<Rightarrow> firstR f xs)"

fun foldR :: "('a \<Rightarrow> 's \<Rightarrow> 's res) \<Rightarrow> 'a list \<Rightarrow> 's \<Rightarrow> 's res" where
  "foldR f [] s = ok s"
| "foldR f (x # xs) s = bindR (f x s) (foldR f xs)"

definition concatR :: "('a \<Rightarrow> 'b list res) \<Rightarrow> 'a list \<Rightarrow> 'b list res" where
  "concatR f xs = bindR (mapR f xs) (\<lambda>yss. ok (concat yss))"

text \<open>\<open>v[i]\<close>, undefined out of range, and \<open>v.at(i)\<close>, which throws.\<close>

definition at_index :: "'a list \<Rightarrow> nat \<Rightarrow> 'a res" where
  "at_index xs i = (if i < length xs then ok (xs ! i) else err BadMemory)"

lemma anyR_cong [fundef_cong]:
  "xs = ys \<Longrightarrow> (\<And>x. x \<in> set ys \<Longrightarrow> p x = q x) \<Longrightarrow> anyR p xs = anyR q ys"
  by (induction ys arbitrary: xs) auto

lemma allR_cong [fundef_cong]:
  "xs = ys \<Longrightarrow> (\<And>x. x \<in> set ys \<Longrightarrow> p x = q x) \<Longrightarrow> allR p xs = allR q ys"
  by (induction ys arbitrary: xs) auto

lemma firstR_cong [fundef_cong]:
  "xs = ys \<Longrightarrow> (\<And>x. x \<in> set ys \<Longrightarrow> p x = q x) \<Longrightarrow> firstR p xs = firstR q ys"
proof (induction ys arbitrary: xs)
  case (Cons y ys)
  then have "firstR p ys = firstR q ys" "p y = q y" by auto
  with Cons.prems(1) show ?case by (simp cong: option.case_cong)
qed auto

lemma foldR_cong [fundef_cong]:
  "xs = ys \<Longrightarrow> s = t \<Longrightarrow> (\<And>x s. x \<in> set ys \<Longrightarrow> f x s = g x s) \<Longrightarrow> foldR f xs s = foldR g ys t"
  by (induction ys arbitrary: xs s t) (auto intro!: bindR_cong)

lemma concatR_cong [fundef_cong]:
  "xs = ys \<Longrightarrow> (\<And>x. x \<in> set ys \<Longrightarrow> f x = g x) \<Longrightarrow> concatR f xs = concatR g ys"
  unfolding concatR_def by (rule bindR_cong) (auto intro: mapR_cong)

subsection \<open>Tests that do not fail\<close>

lemma anyR_pure: "(\<And>x. x \<in> set xs \<Longrightarrow> p x = ok (q x)) \<Longrightarrow> anyR p xs = ok (\<exists>x \<in> set xs. q x)"
  by (induction xs) auto

lemma allR_pure: "(\<And>x. x \<in> set xs \<Longrightarrow> p x = ok (q x)) \<Longrightarrow> allR p xs = ok (\<forall>x \<in> set xs. q x)"
  by (induction xs) auto

lemma filterR_pure: "(\<And>x. x \<in> set xs \<Longrightarrow> p x = ok (q x)) \<Longrightarrow> filterR p xs = ok (filter q xs)"
  by (induction xs) auto

lemma countR_pure: "(\<And>x. x \<in> set xs \<Longrightarrow> p x = ok (q x)) \<Longrightarrow> countR p xs = ok (length (filter q xs))"
  by (induction xs) auto

lemma splitR_pure:
  "(\<And>x. x \<in> set xs \<Longrightarrow> p x = ok (q x)) \<Longrightarrow> splitR p xs = ok (filter q xs, filter (\<lambda>x. \<not> q x) xs)"
  by (induction xs) auto

lemmas pure_vectors = anyR_pure allR_pure filterR_pure countR_pure splitR_pure

lemma anyR_True: "anyR p xs = ok True \<Longrightarrow> \<exists>x \<in> set xs. p x = ok True"
  by (induction xs) (auto simp: res_simps)

lemma anyR_False: "anyR p xs = ok False \<Longrightarrow> x \<in> set xs \<Longrightarrow> p x = ok False"
  by (induction xs) (auto simp: res_simps)

lemma allR_True: "allR p xs = ok True \<longleftrightarrow> (\<forall>x \<in> set xs. p x = ok True)"
  by (induction xs) (auto simp: res_simps)

lemma allR_False: "allR p xs = ok False \<Longrightarrow> \<exists>x \<in> set xs. p x = ok False"
  by (induction xs) (auto simp: res_simps)

lemma concatR_ok: "concatR f xs = ok ys \<longleftrightarrow> (\<exists>yss. list_all2 (\<lambda>x zs. f x = ok zs) xs yss \<and> ys = concat yss)"
  by (auto simp: concatR_def res_simps mapR_eq_Inr)

lemma anyR_total: "(\<And>x. x \<in> set xs \<Longrightarrow> \<exists>b. p x = ok b) \<Longrightarrow> \<exists>b. anyR p xs = ok b"
proof (induction xs)
  case (Cons x xs)
  from Cons.prems [of x] obtain b where "p x = ok b" by auto
  moreover from Cons.IH Cons.prems obtain c where "anyR p xs = ok c" by auto
  ultimately show ?case by (cases b) auto
qed auto

lemma firstR_total: "(\<And>x. x \<in> set xs \<Longrightarrow> \<exists>b. p x = ok b) \<Longrightarrow> \<exists>b. firstR p xs = ok b"
proof (induction xs)
  case (Cons x xs)
  from Cons.prems [of x] obtain b where "p x = ok b" by auto
  moreover from Cons.IH Cons.prems obtain c where "firstR p xs = ok c" by auto
  ultimately show ?case by (cases b) auto
qed auto

lemma concatR_total: "(\<And>x. x \<in> set xs \<Longrightarrow> \<exists>b. p x = ok b) \<Longrightarrow> \<exists>b. concatR p xs = ok b"
  unfolding concatR_def using mapR_total [of xs p] by auto

lemma concatR_pure:
  assumes "\<And>x. x \<in> set xs \<Longrightarrow> \<exists>ys. f x = ok ys \<and> set ys = S x"
  shows "\<exists>ys. concatR f xs = ok ys \<and> set ys = (\<Union>x \<in> set xs. S x)"
proof -
  from assms have "\<forall>x \<in> set xs. \<exists>ys. f x = ok ys \<and> set ys = S x" by blast
  from bchoice [OF this] obtain w where w: "\<forall>x \<in> set xs. f x = ok (w x) \<and> set (w x) = S x" by blast
  then have "mapR f xs = ok (map w xs)" by (intro mapR_ok) auto
  with w show ?thesis by (auto simp: concatR_def)
qed

lemma concatR_set:
  assumes "concatR f xs = ok ys"
  shows "set ys = {y. \<exists>x zs. x \<in> set xs \<and> f x = ok zs \<and> y \<in> set zs}"
proof -
  from assms obtain yss where "list_all2 (\<lambda>x zs. f x = ok zs) xs yss" "ys = concat yss"
    by (auto simp: concatR_ok)
  then show ?thesis by (induction xs yss arbitrary: ys rule: list_all2_induct) force+
qed

end
