(* ===== verification/Intrinsics.thy ===== *)
theory Intrinsics
  imports Index_Notation Level_Functions Vectors
begin

text \<open>
  The intrinsic functions of index notation (src/index_notation/intrinsic.cpp): their names and result types,
  the IR they lower to, and the sets of arguments that make the result zero when all of them are zero; with
  the types of expressions and \<open>struct Equals\<close> (src/index_notation/index_notation.cpp), which they use.
\<close>

subsection \<open>Names and types\<close>

fun intrinsic_getName :: "Intrinsic \<Rightarrow> string" where
  "intrinsic_getName ModIntrinsic = ''mod''"
| "intrinsic_getName AbsIntrinsic = ''abs''"
| "intrinsic_getName PowIntrinsic = ''pow''"
| "intrinsic_getName SquareIntrinsic = ''square''"
| "intrinsic_getName CubeIntrinsic = ''cube''"
| "intrinsic_getName SqrtIntrinsic = ''sqrt''"
| "intrinsic_getName CbrtIntrinsic = ''cbrt''"
| "intrinsic_getName ExpIntrinsic = ''exp''"
| "intrinsic_getName LogIntrinsic = ''log''"
| "intrinsic_getName Log10Intrinsic = ''log10''"
| "intrinsic_getName SinIntrinsic = ''sin''"
| "intrinsic_getName CosIntrinsic = ''cos''"
| "intrinsic_getName TanIntrinsic = ''tan''"
| "intrinsic_getName AsinIntrinsic = ''asin''"
| "intrinsic_getName AcosIntrinsic = ''acos''"
| "intrinsic_getName AtanIntrinsic = ''atan''"
| "intrinsic_getName Atan2Intrinsic = ''atan2''"
| "intrinsic_getName SinhIntrinsic = ''sinh''"
| "intrinsic_getName CoshIntrinsic = ''cosh''"
| "intrinsic_getName TanhIntrinsic = ''tanh''"
| "intrinsic_getName AsinhIntrinsic = ''asinh''"
| "intrinsic_getName AcoshIntrinsic = ''acosh''"
| "intrinsic_getName AtanhIntrinsic = ''atanh''"
| "intrinsic_getName GtIntrinsic = ''gt''"
| "intrinsic_getName LtIntrinsic = ''lt''"
| "intrinsic_getName GteIntrinsic = ''gte''"
| "intrinsic_getName LteIntrinsic = ''lte''"
| "intrinsic_getName EqIntrinsic = ''eq''"
| "intrinsic_getName NeqIntrinsic = ''neq''"
| "intrinsic_getName MaxIntrinsic = ''max''"
| "intrinsic_getName MinIntrinsic = ''max''"
| "intrinsic_getName HeavisideIntrinsic = ''heaviside''"
| "intrinsic_getName NotIntrinsic = ''Not''"

definition unary_type :: "Datatype list \<Rightarrow> Datatype res" where
  "unary_type ts = (case ts of [t] \<Rightarrow> ok t | _ \<Rightarrow> err IAssert)"

definition binary_type :: "Datatype list \<Rightarrow> Datatype res" where
  "binary_type ts = (case ts of [s, t] \<Rightarrow> assertR IAssert (s = t) (ok s) | _ \<Rightarrow> err IAssert)"

definition inferReturnType :: "Intrinsic \<Rightarrow> Datatype list \<Rightarrow> Datatype res" where
  "inferReturnType f ts =
     (if f \<in> {GtIntrinsic, LtIntrinsic, GteIntrinsic, LteIntrinsic, EqIntrinsic, NeqIntrinsic, NotIntrinsic}
      then ok Bool
      else if f \<in> {ModIntrinsic, PowIntrinsic, Atan2Intrinsic, MaxIntrinsic, MinIntrinsic, HeavisideIntrinsic}
      then binary_type ts
      else unary_type ts)"

text \<open>\<open>getDataType\<close>: the type a node's constructor computes. An operator node without operands has the
  default type.\<close>

fun getDataType :: "IndexExpr \<Rightarrow> Datatype res" where
  "getDataType NoExpr = err BadMemory"
| "getDataType (AccessNode a) =
     ok (if acc_isAccessingStructure a then Bool else dtype (tv_type (acc_tensorVar a)))"
| "getDataType (LiteralNode t u) = ok t"
| "getDataType (NegNode e) = getDataType e"
| "getDataType (SqrtNode e) = getDataType e"
| "getDataType (AddNode a b) =
     (if a = NoExpr \<and> b = NoExpr then ok Undefined
      else bindR (getDataType a) (\<lambda>s. bindR (getDataType b) (max_type s)))"
| "getDataType (SubNode a b) =
     (if a = NoExpr \<and> b = NoExpr then ok Undefined
      else bindR (getDataType a) (\<lambda>s. bindR (getDataType b) (max_type s)))"
| "getDataType (MulNode a b) =
     (if a = NoExpr \<and> b = NoExpr then ok Undefined
      else bindR (getDataType a) (\<lambda>s. bindR (getDataType b) (max_type s)))"
| "getDataType (DivNode a b) =
     (if a = NoExpr \<and> b = NoExpr then ok Undefined
      else bindR (getDataType a) (\<lambda>s. bindR (getDataType b) (max_type s)))"
| "getDataType (CastNode t e) = ok t"
| "getDataType (CallIntrinsicNode f es) = bindR (mapR getDataType es) (inferReturnType f)"
| "getDataType (ReductionNode opn v e) = getDataType e"

subsection \<open>Equality of expressions\<close>

definition access_equals :: "Access \<Rightarrow> Access \<Rightarrow> bool" where
  "access_equals a b \<longleftrightarrow>
     acc_tensorVar a = acc_tensorVar b \<and> acc_indexVars a = acc_indexVars b \<and>
     acc_isAccessingStructure a = acc_isAccessingStructure b \<and>
     acc_windowedModes a = acc_windowedModes b \<and> acc_indexSetModes a = acc_indexSetModes b"

text \<open>The two handles are first compared for being defined; then the visitor of the first node looks at
  the class of the second.\<close>

fun expr_equals :: "IndexExpr \<Rightarrow> IndexExpr \<Rightarrow> bool res"
and exprs_equal :: "IndexExpr list \<Rightarrow> IndexExpr list \<Rightarrow> bool res" where
  "expr_equals NoExpr b = ok (b = NoExpr)"
| "expr_equals (AccessNode a) b = (case b of AccessNode a' \<Rightarrow> ok (access_equals a a') | _ \<Rightarrow> ok False)"
| "expr_equals (LiteralNode t u) b =
     (case b of LiteralNode t' u' \<Rightarrow> if t \<noteq> t' then ok False else same_bytes t u u' | _ \<Rightarrow> ok False)"
| "expr_equals (NegNode e) b = (case b of NegNode e' \<Rightarrow> expr_equals e e' | _ \<Rightarrow> ok False)"
| "expr_equals (SqrtNode e) b = (case b of SqrtNode e' \<Rightarrow> expr_equals e e' | _ \<Rightarrow> ok False)"
| "expr_equals (AddNode a a2) b =
     (case b of AddNode b1 b2 \<Rightarrow> andR (expr_equals a b1) (expr_equals a2 b2) | _ \<Rightarrow> ok False)"
| "expr_equals (SubNode a a2) b =
     (case b of SubNode b1 b2 \<Rightarrow> andR (expr_equals a b1) (expr_equals a2 b2) | _ \<Rightarrow> ok False)"
| "expr_equals (MulNode a a2) b =
     (case b of MulNode b1 b2 \<Rightarrow> andR (expr_equals a b1) (expr_equals a2 b2) | _ \<Rightarrow> ok False)"
| "expr_equals (DivNode a a2) b =
     (case b of DivNode b1 b2 \<Rightarrow> andR (expr_equals a b1) (expr_equals a2 b2) | _ \<Rightarrow> ok False)"
| "expr_equals (CastNode t e) b =
     (case b of CastNode t' e' \<Rightarrow> if t \<noteq> t' then ok False else expr_equals e e' | _ \<Rightarrow> ok False)"
| "expr_equals (CallIntrinsicNode f es) b =
     (case b of
        CallIntrinsicNode f' es' \<Rightarrow>
          if intrinsic_getName f \<noteq> intrinsic_getName f' \<or> length es \<noteq> length es' then ok False
          else exprs_equal es es'
      | _ \<Rightarrow> ok False)"
| "expr_equals (ReductionNode opn v e) b =
     (case b of
        ReductionNode opn' v' e' \<Rightarrow> andR (expr_equals opn opn') (if v \<noteq> v' then ok False else expr_equals e e')
      | _ \<Rightarrow> ok False)"
| "exprs_equal (e # es) (f # fs) = andR (expr_equals e f) (exprs_equal es fs)"
| "exprs_equal _ _ = ok True"

subsection \<open>Lowering\<close>

definition with_one :: "'a list \<Rightarrow> ('a \<Rightarrow> 'b res) \<Rightarrow> 'b res" where
  "with_one args f = (case args of [a] \<Rightarrow> f a | _ \<Rightarrow> err IAssert)"

definition with_two :: "'a list \<Rightarrow> ('a \<Rightarrow> 'a \<Rightarrow> 'b res) \<Rightarrow> 'b res" where
  "with_two args f = (case args of [a, b] \<Rightarrow> f a b | _ \<Rightarrow> err IAssert)"

lemma with_two_ok [res_simps]: "with_two args f = ok x \<longleftrightarrow> (\<exists>a b. args = [a, b] \<and> f a b = ok x)"
  by (auto simp: with_two_def split: list.splits)

lemma with_one_ok [res_simps]: "with_one args f = ok x \<longleftrightarrow> (\<exists>a. args = [a] \<and> f a = ok x)"
  by (auto simp: with_one_def split: list.splits)

text \<open>The C function for each floating-point type; the last two names are absent where complex arguments
  are not supported.\<close>

definition libm :: "string \<Rightarrow> string \<Rightarrow> (string \<times> string) option \<Rightarrow> expr list \<Rightarrow> Datatype \<Rightarrow> expr res" where
  "libm f32 f64 complex args t =
     (if t = Float32 then ok (Call_make f32 args t)
      else if t = Float64 then ok (Call_make f64 args t)
      else case complex of
        None \<Rightarrow> err NotSupported
      | Some (c64, c128) \<Rightarrow>
          if t = Complex64 then ok (Call_make c64 args t)
          else if t = Complex128 then ok (Call_make c128 args t)
          else err NotSupported)"

text \<open>\<open>Literal::make\<close> of a floating-point or complex constant.\<close>

definition Literal_fp :: "fpu \<Rightarrow> Datatype \<Rightarrow> int \<Rightarrow> expr res" where
  "Literal_fp F t n =
     (if t \<in> {Float32, Float64, Complex64, Complex128} then Literal_make_from t (fp_of_int F t n) t
      else err NotSupported)"

definition Mod_lower :: "fpu \<Rightarrow> expr list \<Rightarrow> expr res" where
  "Mod_lower F args = with_two args (\<lambda>a b.
     ifR (literal_is F a 0) (ok a)
       (if etype a \<in> {UInt8, UInt16, UInt32, UInt64, Int8, Int16, Int32, Int64} then Rem_make a b
        else libm ''fmodf'' ''fmod'' None args (etype a)))"

definition Abs_lower :: "fpu \<Rightarrow> expr list \<Rightarrow> expr res" where
  "Abs_lower F args = with_one args (\<lambda>arg.
     ifR (literal_is F arg 0) (ok arg)
       (if etype arg \<in> {UInt8, UInt16, UInt32, UInt64} then ok arg
        else if etype arg \<in> {Int8, Int16, Int32} then ok (Call_make ''abs'' args (etype arg))
        else if etype arg = Int64 then ok (Call_make ''labs'' args (etype arg))
        else libm ''fabsf'' ''fabs'' (Some (''cabsf'', ''cabs'')) args (etype arg)))"

definition Pow_lower :: "fpu \<Rightarrow> expr list \<Rightarrow> expr res" where
  "Pow_lower F args = with_two args (\<lambda>base exponent.
     ifR (bindR (literal_is F base 0) (\<lambda>z. if z then ok True else literal_is F exponent 1)) (ok base)
       (bindR (literal_is F exponent 0) (\<lambda>exponentZero.
          if exponentZero then Literal_fp F (etype base) 1
          else libm ''powf'' ''pow'' (Some (''cpowf'', ''cpow'')) args (etype base))))"

definition Square_lower :: "fpu \<Rightarrow> expr list \<Rightarrow> expr res" where
  "Square_lower F args = with_one args (\<lambda>arg. ifR (literal_is F arg 0) (ok arg) (Mul_make arg arg))"

definition Cube_lower :: "fpu \<Rightarrow> expr list \<Rightarrow> expr res" where
  "Cube_lower F args = with_one args (\<lambda>arg.
     ifR (literal_is F arg 0) (ok arg) (bindR (Mul_make arg arg) (\<lambda>m. Mul_make m arg)))"

definition Sqrt_lower :: "fpu \<Rightarrow> expr list \<Rightarrow> expr res" where
  "Sqrt_lower F args = with_one args (\<lambda>arg.
     ifR (bindR (literal_is F arg 0) (\<lambda>z. if z then ok True else literal_is F arg 1)) (ok arg)
       (libm ''sqrtf'' ''sqrt'' (Some (''csqrtf'', ''csqrt'')) args (etype arg)))"

definition Cbrt_lower :: "fpu \<Rightarrow> expr list \<Rightarrow> expr res" where
  "Cbrt_lower F args = with_one args (\<lambda>arg.
     ifR (bindR (literal_is F arg 0) (\<lambda>z. if z then ok True else
          bindR (literal_is F arg 1) (\<lambda>n. if n then ok True else literal_is F arg (-1)))) (ok arg)
       (libm ''cbrtf'' ''cbrt'' None args (etype arg)))"

definition Exp_lower :: "fpu \<Rightarrow> expr list \<Rightarrow> expr res" where
  "Exp_lower F args = with_one args (\<lambda>arg.
     bindR (literal_is F arg 0) (\<lambda>argZero.
       if argZero then Literal_fp F (etype arg) 1
       else libm ''expf'' ''exp'' (Some (''cexpf'', ''cexp'')) args (etype arg)))"

definition Log_lower :: "fpu \<Rightarrow> expr list \<Rightarrow> expr res" where
  "Log_lower F args = with_one args (\<lambda>arg.
     ifR (literal_is F arg 1) (Literal_zero (etype arg))
       (libm ''logf'' ''log'' (Some (''clogf'', ''clog'')) args (etype arg)))"

definition Log10_lower :: "fpu \<Rightarrow> expr list \<Rightarrow> expr res" where
  "Log10_lower F args = with_one args (\<lambda>arg.
     ifR (literal_is F arg 1) (Literal_zero (etype arg)) (libm ''log10'' ''log10'' None args (etype arg)))"

definition Sin_lower :: "fpu \<Rightarrow> expr list \<Rightarrow> expr res" where
  "Sin_lower F args = with_one args (\<lambda>arg.
     ifR (literal_is F arg 0) (ok arg)
       (libm ''sinf'' ''sin'' (Some (''csinf'', ''csin'')) args (etype arg)))"

definition Cos_lower :: "fpu \<Rightarrow> expr list \<Rightarrow> expr res" where
  "Cos_lower F args = with_one args (\<lambda>arg.
     bindR (literal_is F arg 0) (\<lambda>argZero.
       if argZero then Literal_fp F (etype arg) 1
       else libm ''cosf'' ''cos'' (Some (''ccosf'', ''ccos'')) args (etype arg)))"

definition Tan_lower :: "fpu \<Rightarrow> expr list \<Rightarrow> expr res" where
  "Tan_lower F args = with_one args (\<lambda>arg.
     ifR (literal_is F arg 0) (ok arg)
       (libm ''tanf'' ''tan'' (Some (''ctanf'', ''ctan'')) args (etype arg)))"

definition Asin_lower :: "fpu \<Rightarrow> expr list \<Rightarrow> expr res" where
  "Asin_lower F args = with_one args (\<lambda>arg.
     ifR (literal_is F arg 0) (ok arg)
       (libm ''asinf'' ''asin'' (Some (''casinf'', ''casin'')) args (etype arg)))"

definition Acos_lower :: "fpu \<Rightarrow> expr list \<Rightarrow> expr res" where
  "Acos_lower F args = with_one args (\<lambda>arg.
     libm ''acosf'' ''acos'' (Some (''cacosf'', ''cacos'')) args (etype arg))"

definition Atan_lower :: "fpu \<Rightarrow> expr list \<Rightarrow> expr res" where
  "Atan_lower F args = with_one args (\<lambda>arg.
     ifR (literal_is F arg 0) (ok arg)
       (libm ''atanf'' ''atan'' (Some (''catanf'', ''catan'')) args (etype arg)))"

definition Atan2_lower :: "fpu \<Rightarrow> expr list \<Rightarrow> expr res" where
  "Atan2_lower F args = with_two args (\<lambda>a b.
     ifR (andR (literal_is F a 0) (literal_is F b 0)) (ok a)
       (libm ''atan2f'' ''atan2'' None args (etype a)))"

definition Sinh_lower :: "fpu \<Rightarrow> expr list \<Rightarrow> expr res" where
  "Sinh_lower F args = with_one args (\<lambda>arg.
     ifR (literal_is F arg 0) (ok arg)
       (libm ''sinhf'' ''sinh'' (Some (''csinhf'', ''csinh'')) args (etype arg)))"

definition Cosh_lower :: "fpu \<Rightarrow> expr list \<Rightarrow> expr res" where
  "Cosh_lower F args = with_one args (\<lambda>arg.
     bindR (literal_is F arg 0) (\<lambda>argZero.
       if argZero then Literal_fp F (etype arg) 1
       else libm ''coshf'' ''cosh'' (Some (''ccoshf'', ''ccosh'')) args (etype arg)))"

definition Tanh_lower :: "fpu \<Rightarrow> expr list \<Rightarrow> expr res" where
  "Tanh_lower F args = with_one args (\<lambda>arg.
     ifR (literal_is F arg 0) (ok arg)
       (libm ''tanhf'' ''tanh'' (Some (''ctanhf'', ''ctanh'')) args (etype arg)))"

definition Asinh_lower :: "fpu \<Rightarrow> expr list \<Rightarrow> expr res" where
  "Asinh_lower F args = with_one args (\<lambda>arg.
     ifR (literal_is F arg 0) (ok arg)
       (libm ''asinhf'' ''asinh'' (Some (''casinhf'', ''casinh'')) args (etype arg)))"

definition Acosh_lower :: "fpu \<Rightarrow> expr list \<Rightarrow> expr res" where
  "Acosh_lower F args = with_one args (\<lambda>arg.
     libm ''acoshf'' ''acosh'' (Some (''cacoshf'', ''cacosh'')) args (etype arg))"

definition Atanh_lower :: "fpu \<Rightarrow> expr list \<Rightarrow> expr res" where
  "Atanh_lower F args = with_one args (\<lambda>arg.
     ifR (literal_is F arg 0) (ok arg)
       (libm ''atanhf'' ''atanh'' (Some (''catanhf'', ''catanh'')) args (etype arg)))"

definition Gt_lower :: "fpu \<Rightarrow> expr list \<Rightarrow> expr res" where
  "Gt_lower F args = with_two args (\<lambda>a b. ok (Gt_make a b))"

definition Lt_lower :: "fpu \<Rightarrow> expr list \<Rightarrow> expr res" where
  "Lt_lower F args = with_two args (\<lambda>a b. ok (Lt_make a b))"

definition Gte_lower :: "fpu \<Rightarrow> expr list \<Rightarrow> expr res" where
  "Gte_lower F args = with_two args (\<lambda>a b. ok (Gte_make a b))"

definition Lte_lower :: "fpu \<Rightarrow> expr list \<Rightarrow> expr res" where
  "Lte_lower F args = with_two args (\<lambda>a b. ok (Lte_make a b))"

definition Eq_lower :: "fpu \<Rightarrow> expr list \<Rightarrow> expr res" where
  "Eq_lower F args = with_two args (\<lambda>a b. ok (Eq_make a b))"

definition Neq_lower :: "fpu \<Rightarrow> expr list \<Rightarrow> expr res" where
  "Neq_lower F args = with_two args (\<lambda>a b. ok (Neq_make a b))"

definition Max_lower :: "fpu \<Rightarrow> expr list \<Rightarrow> expr res" where
  "Max_lower F args = with_two args (\<lambda>a b.
     ifR (andR (literal_is F a 0) (literal_is F b 0)) (ok a) (Max_make2 a b))"

definition Min_lower :: "fpu \<Rightarrow> expr list \<Rightarrow> expr res" where
  "Min_lower F args = with_two args (\<lambda>a b.
     ifR (andR (literal_is F a 0) (literal_is F b 0)) (ok a) (Min_make2 a b))"

definition Heaviside_lower :: "fpu \<Rightarrow> expr list \<Rightarrow> expr res" where
  "Heaviside_lower F args = with_two args (\<lambda>a b.
     ifR (literal_is F a 0) (ok b)
       (bindR (Literal_zero (etype a)) (\<lambda>z.
        bindR (Mul_make b (Cast_make (Eq_make a z) (etype a))) (\<lambda>m.
          Add_make m (Cast_make (Gt_make a z) (etype a))))))"

definition Not_lower :: "fpu \<Rightarrow> expr list \<Rightarrow> expr res" where
  "Not_lower F args = with_one args (\<lambda>a.
     ifR (literal_is F a 0) (Literal_make_from Bool 1 Bool)
       (bindR (Literal_make_from Bool 0 Bool) (\<lambda>f. ok (Eq_make a f))))"

fun intrinsic_lower :: "fpu \<Rightarrow> Intrinsic \<Rightarrow> expr list \<Rightarrow> expr res" where
  "intrinsic_lower F ModIntrinsic = Mod_lower F"
| "intrinsic_lower F AbsIntrinsic = Abs_lower F"
| "intrinsic_lower F PowIntrinsic = Pow_lower F"
| "intrinsic_lower F SquareIntrinsic = Square_lower F"
| "intrinsic_lower F CubeIntrinsic = Cube_lower F"
| "intrinsic_lower F SqrtIntrinsic = Sqrt_lower F"
| "intrinsic_lower F CbrtIntrinsic = Cbrt_lower F"
| "intrinsic_lower F ExpIntrinsic = Exp_lower F"
| "intrinsic_lower F LogIntrinsic = Log_lower F"
| "intrinsic_lower F Log10Intrinsic = Log10_lower F"
| "intrinsic_lower F SinIntrinsic = Sin_lower F"
| "intrinsic_lower F CosIntrinsic = Cos_lower F"
| "intrinsic_lower F TanIntrinsic = Tan_lower F"
| "intrinsic_lower F AsinIntrinsic = Asin_lower F"
| "intrinsic_lower F AcosIntrinsic = Acos_lower F"
| "intrinsic_lower F AtanIntrinsic = Atan_lower F"
| "intrinsic_lower F Atan2Intrinsic = Atan2_lower F"
| "intrinsic_lower F SinhIntrinsic = Sinh_lower F"
| "intrinsic_lower F CoshIntrinsic = Cosh_lower F"
| "intrinsic_lower F TanhIntrinsic = Tanh_lower F"
| "intrinsic_lower F AsinhIntrinsic = Asinh_lower F"
| "intrinsic_lower F AcoshIntrinsic = Acosh_lower F"
| "intrinsic_lower F AtanhIntrinsic = Atanh_lower F"
| "intrinsic_lower F GtIntrinsic = Gt_lower F"
| "intrinsic_lower F LtIntrinsic = Lt_lower F"
| "intrinsic_lower F GteIntrinsic = Gte_lower F"
| "intrinsic_lower F LteIntrinsic = Lte_lower F"
| "intrinsic_lower F EqIntrinsic = Eq_lower F"
| "intrinsic_lower F NeqIntrinsic = Neq_lower F"
| "intrinsic_lower F MaxIntrinsic = Max_lower F"
| "intrinsic_lower F MinIntrinsic = Min_lower F"
| "intrinsic_lower F HeavisideIntrinsic = Heaviside_lower F"
| "intrinsic_lower F NotIntrinsic = Not_lower F"

subsection \<open>Zero-preserving arguments\<close>

text \<open>The comparisons of a literal's value with zero, at the type \<open>t\<close> the value is read at.\<close>

definition val_pos :: "fpu \<Rightarrow> Datatype \<Rightarrow> int \<Rightarrow> bool" where
  "val_pos F t v = (if isFloat t then fp_gt F t v (fp_of_int F t 0) else v > 0)"

definition val_neg :: "fpu \<Rightarrow> Datatype \<Rightarrow> int \<Rightarrow> bool" where
  "val_neg F t v = (if isFloat t then fp_gt F t (fp_of_int F t 0) v else v < 0)"

definition val_nonneg :: "fpu \<Rightarrow> Datatype \<Rightarrow> int \<Rightarrow> bool" where
  "val_nonneg F t v = (if isFloat t then val_pos F t v \<or> fp_eq F t v (fp_of_int F t 0) else v \<ge> 0)"

definition val_nonpos :: "fpu \<Rightarrow> Datatype \<Rightarrow> int \<Rightarrow> bool" where
  "val_nonpos F t v = (if isFloat t then val_neg F t v \<or> fp_eq F t v (fp_of_int F t 0) else v \<le> 0)"

text \<open>\<open>isa<Literal>(e) && to<Literal>(e).getVal<T>()\<close> compared with zero.\<close>

definition literal_test :: "(fpu \<Rightarrow> Datatype \<Rightarrow> int \<Rightarrow> bool) \<Rightarrow> fpu \<Rightarrow> Datatype \<Rightarrow> IndexExpr \<Rightarrow> bool res" where
  "literal_test p F t e =
     (case e of LiteralNode lt u \<Rightarrow> bindR (getVal t lt u) (\<lambda>v. ok (p F t v)) | _ \<Rightarrow> ok False)"

abbreviation "unsigned_kinds \<equiv> {UInt8, UInt16, UInt32, UInt64}"
abbreviation "signed_kinds \<equiv> {Int8, Int16, Int32, Int64, Float32, Float64}"

text \<open>The order in which a comparison tries the literals: the argument \<open>i\<close> is zero preserving if the
  literal \<open>x\<close> passes the test \<open>p\<close>, else the argument \<open>j\<close> if \<open>y\<close> passes \<open>q\<close>.\<close>

definition try_literals ::
    "fpu \<Rightarrow> Datatype \<Rightarrow> (fpu \<Rightarrow> Datatype \<Rightarrow> int \<Rightarrow> bool) \<Rightarrow> IndexExpr \<Rightarrow> nat \<Rightarrow>
     (fpu \<Rightarrow> Datatype \<Rightarrow> int \<Rightarrow> bool) \<Rightarrow> IndexExpr \<Rightarrow> nat \<Rightarrow> nat list list \<Rightarrow> nat list list res" where
  "try_literals F t p x i q y j otherwise =
     ifR (literal_test p F t x) (ok [[i]]) (ifR (literal_test q F t y) (ok [[j]]) (ok otherwise))"

definition Gt_zeroPreservingArgs :: "fpu \<Rightarrow> IndexExpr list \<Rightarrow> nat list list res" where
  "Gt_zeroPreservingArgs F args = with_two args (\<lambda>a b.
     bindR (getDataType b) (\<lambda>t.
       if t \<in> unsigned_kinds then ok [[0]]
       else if t \<in> signed_kinds then try_literals F t val_nonneg b 0 val_nonpos a 1 [[0, 1]]
       else err NotSupported))"

definition Lt_zeroPreservingArgs :: "fpu \<Rightarrow> IndexExpr list \<Rightarrow> nat list list res" where
  "Lt_zeroPreservingArgs F args = with_two args (\<lambda>a b.
     bindR (getDataType b) (\<lambda>t.
       if t \<in> unsigned_kinds then ok [[1]]
       else if t \<in> signed_kinds then try_literals F t val_nonneg a 1 val_nonpos b 0 [[0, 1]]
       else err NotSupported))"

definition Gte_zeroPreservingArgs :: "fpu \<Rightarrow> IndexExpr list \<Rightarrow> nat list list res" where
  "Gte_zeroPreservingArgs F args = with_two args (\<lambda>a b.
     bindR (getDataType b) (\<lambda>t.
       if t \<in> unsigned_kinds then ifR (literal_test val_pos F t b) (ok [[0]]) (ok [])
       else if t \<in> signed_kinds then try_literals F t val_pos b 0 val_neg a 1 []
       else err NotSupported))"

definition Lte_zeroPreservingArgs :: "fpu \<Rightarrow> IndexExpr list \<Rightarrow> nat list list res" where
  "Lte_zeroPreservingArgs F args = with_two args (\<lambda>a b.
     bindR (getDataType b) (\<lambda>t.
       if t \<in> unsigned_kinds then ifR (literal_test val_pos F t a) (ok [[1]]) (ok [])
       else if t \<in> signed_kinds then try_literals F t val_pos a 1 val_neg b 0 []
       else err NotSupported))"

definition Atan2_zeroPreservingArgs :: "fpu \<Rightarrow> IndexExpr list \<Rightarrow> nat list list res" where
  "Atan2_zeroPreservingArgs F args = with_two args (\<lambda>a b.
     bindR (getDataType b) (\<lambda>t.
       if t \<in> {Float32, Float64} then ifR (literal_test val_pos F t b) (ok [[0]]) (ok [[0, 1]])
       else err NotSupported))"

text \<open>\<open>equals(args[i], Literal::zero(args[i].getDataType()))\<close>.\<close>

definition is_zero_literal :: "IndexExpr \<Rightarrow> bool res" where
  "is_zero_literal e = bindR (getDataType e) (\<lambda>t. bindR (IndexLiteral_zero t) (expr_equals e))"

definition Neq_zeroPreservingArgs :: "fpu \<Rightarrow> IndexExpr list \<Rightarrow> nat list list res" where
  "Neq_zeroPreservingArgs F args =
     (case args of
        a # b # _ \<Rightarrow> ifR (is_zero_literal a) (ok [[1]]) (ifR (is_zero_literal b) (ok [[0]]) (ok [[0, 1]]))
      | _ \<Rightarrow> err BadMemory)"

definition Max_zeroPreservingArgs :: "fpu \<Rightarrow> IndexExpr list \<Rightarrow> nat list list res" where
  "Max_zeroPreservingArgs F args = with_two args (\<lambda>a b.
     ifR (is_zero_literal a) (ok [[1]]) (ifR (is_zero_literal b) (ok [[0]]) (ok [[0, 1]])))"

definition Min_zeroPreservingArgs :: "fpu \<Rightarrow> IndexExpr list \<Rightarrow> nat list list res" where
  "Min_zeroPreservingArgs F args = with_two args (\<lambda>a b.
     ifR (is_zero_literal a) (ok [[1]]) (ifR (is_zero_literal b) (ok [[0]]) (ok [[0, 1]])))"

definition Heaviside_zeroPreservingArgs :: "fpu \<Rightarrow> IndexExpr list \<Rightarrow> nat list list res" where
  "Heaviside_zeroPreservingArgs F args = with_two args (\<lambda>a b. ifR (is_zero_literal b) (ok [[0]]) (ok []))"

text \<open>The intrinsics whose answer does not depend on the arguments.\<close>

fun intrinsic_zeroPreservingArgs :: "fpu \<Rightarrow> Intrinsic \<Rightarrow> IndexExpr list \<Rightarrow> nat list list res" where
  "intrinsic_zeroPreservingArgs F ModIntrinsic args = ok [[0], [1]]"
| "intrinsic_zeroPreservingArgs F AbsIntrinsic args = ok [[0]]"
| "intrinsic_zeroPreservingArgs F PowIntrinsic args = ok [[0]]"
| "intrinsic_zeroPreservingArgs F SquareIntrinsic args = ok [[0]]"
| "intrinsic_zeroPreservingArgs F CubeIntrinsic args = ok [[0]]"
| "intrinsic_zeroPreservingArgs F SqrtIntrinsic args = ok [[0]]"
| "intrinsic_zeroPreservingArgs F CbrtIntrinsic args = ok [[0]]"
| "intrinsic_zeroPreservingArgs F ExpIntrinsic args = ok []"
| "intrinsic_zeroPreservingArgs F LogIntrinsic args = ok []"
| "intrinsic_zeroPreservingArgs F Log10Intrinsic args = ok []"
| "intrinsic_zeroPreservingArgs F SinIntrinsic args = ok [[0]]"
| "intrinsic_zeroPreservingArgs F CosIntrinsic args = ok []"
| "intrinsic_zeroPreservingArgs F TanIntrinsic args = ok [[0]]"
| "intrinsic_zeroPreservingArgs F AsinIntrinsic args = ok [[0]]"
| "intrinsic_zeroPreservingArgs F AcosIntrinsic args = ok []"
| "intrinsic_zeroPreservingArgs F AtanIntrinsic args = ok [[0]]"
| "intrinsic_zeroPreservingArgs F Atan2Intrinsic args = Atan2_zeroPreservingArgs F args"
| "intrinsic_zeroPreservingArgs F SinhIntrinsic args = ok [[0]]"
| "intrinsic_zeroPreservingArgs F CoshIntrinsic args = ok []"
| "intrinsic_zeroPreservingArgs F TanhIntrinsic args = ok [[0]]"
| "intrinsic_zeroPreservingArgs F AsinhIntrinsic args = ok [[0]]"
| "intrinsic_zeroPreservingArgs F AcoshIntrinsic args = ok []"
| "intrinsic_zeroPreservingArgs F AtanhIntrinsic args = ok [[0]]"
| "intrinsic_zeroPreservingArgs F GtIntrinsic args = Gt_zeroPreservingArgs F args"
| "intrinsic_zeroPreservingArgs F LtIntrinsic args = Lt_zeroPreservingArgs F args"
| "intrinsic_zeroPreservingArgs F GteIntrinsic args = Gte_zeroPreservingArgs F args"
| "intrinsic_zeroPreservingArgs F LteIntrinsic args = Lte_zeroPreservingArgs F args"
| "intrinsic_zeroPreservingArgs F EqIntrinsic args = ok []"
| "intrinsic_zeroPreservingArgs F NeqIntrinsic args = Neq_zeroPreservingArgs F args"
| "intrinsic_zeroPreservingArgs F MaxIntrinsic args = Max_zeroPreservingArgs F args"
| "intrinsic_zeroPreservingArgs F MinIntrinsic args = Min_zeroPreservingArgs F args"
| "intrinsic_zeroPreservingArgs F HeavisideIntrinsic args = Heaviside_zeroPreservingArgs F args"
| "intrinsic_zeroPreservingArgs F NotIntrinsic args = ok []"

end
