(* ===== verification/Provenance.thy ===== *)
theory Provenance
  imports Intrinsics
begin

text \<open>
  The provenance graph (\<open>class ProvenanceGraph\<close> of src/index_notation/provenance_graph.cpp): how the index
  variables of a scheduled statement derive from each other. A relation between a variable and the ones
  derived from it is an edge; the queries walk the graph along them.

  The walks are recursive and do not return on a cyclic graph. Here they get as many steps as the graph has
  variables, plus one; a walk that needs more revisits a variable and fails with \<open>NoReturn\<close>. On graphs without
  cycles the steps are enough (\<open>walks_return\<close>). The maps of the class are functions, and its set of variables
  is a list in order of insertion (its only use is membership and its size).
\<close>

subsection \<open>The graph\<close>

record ProvenanceGraph =
  pg_nodes :: "IndexVar list"
  childRelMap :: "IndexVar \<Rightarrow> IndexVarRel option"
  parentRelMap :: "IndexVar \<Rightarrow> IndexVarRel option"
  parentsMap :: "IndexVar \<Rightarrow> IndexVar list option"
  childrenMap :: "IndexVar \<Rightarrow> IndexVar list option"

definition empty_graph :: ProvenanceGraph where
  "empty_graph = \<lparr>pg_nodes = [], childRelMap = (\<lambda>_. None), parentRelMap = (\<lambda>_. None),
     parentsMap = (\<lambda>_. None), childrenMap = (\<lambda>_. None)\<rparr>"

definition add_node :: "IndexVar \<Rightarrow> ProvenanceGraph \<Rightarrow> ProvenanceGraph" where
  "add_node v g = g\<lparr>pg_nodes := List.insert v (pg_nodes g)\<rparr>"

text \<open>The variables of the foralls, wherever they are.\<close>

fun forall_vars :: "IndexStmt \<Rightarrow> IndexVar list" where
  "forall_vars (ForallNode v s _ _ _) = v # forall_vars s"
| "forall_vars (WhereNode c p) = forall_vars p @ forall_vars c"
| "forall_vars (MultiNode a b) = forall_vars a @ forall_vars b"
| "forall_vars (SuchThatNode s _) = forall_vars s"
| "forall_vars (SequenceNode d m) = forall_vars d @ forall_vars m"
| "forall_vars (AssembleNode q c) = forall_vars q @ forall_vars c"
| "forall_vars _ = []"

definition add_parent :: "IndexVarRel \<Rightarrow> IndexVar list \<Rightarrow> IndexVar \<Rightarrow> ProvenanceGraph \<Rightarrow> ProvenanceGraph" where
  "add_parent rel children parent g =
     (add_node parent g)\<lparr>childRelMap := (childRelMap g)(parent \<mapsto> rel),
                         childrenMap := (childrenMap g)(parent \<mapsto> children)\<rparr>"

definition add_child :: "IndexVarRel \<Rightarrow> IndexVar list \<Rightarrow> IndexVar \<Rightarrow> ProvenanceGraph \<Rightarrow> ProvenanceGraph" where
  "add_child rel parents child g =
     (add_node child g)\<lparr>parentRelMap := (parentRelMap g)(child \<mapsto> rel),
                        parentsMap := (parentsMap g)(child \<mapsto> parents)\<rparr>"

definition add_relation :: "IndexVarRel \<Rightarrow> ProvenanceGraph \<Rightarrow> ProvenanceGraph res" where
  "add_relation rel g =
     bindR (rel_getParents rel) (\<lambda>parents. bindR (rel_getChildren rel) (\<lambda>children.
       ok (fold (add_child rel parents) children (fold (add_parent rel children) parents g))))"

text \<open>The constructor; relations are those of a \<open>SuchThat\<close> at the top.\<close>

definition ProvenanceGraph_make :: "IndexStmt \<Rightarrow> ProvenanceGraph res" where
  "ProvenanceGraph_make s =
     (let g = fold add_node (forall_vars s) empty_graph in
      case s of SuchThatNode _ rels \<Rightarrow> foldR add_relation rels g | _ \<Rightarrow> ok g)"

definition getChildren :: "ProvenanceGraph \<Rightarrow> IndexVar \<Rightarrow> IndexVar list" where
  "getChildren g v = (case childrenMap g v of Some cs \<Rightarrow> cs | None \<Rightarrow> [])"

definition getParents :: "ProvenanceGraph \<Rightarrow> IndexVar \<Rightarrow> IndexVar list" where
  "getParents g v = (case parentsMap g v of Some ps \<Rightarrow> ps | None \<Rightarrow> [])"

definition rel_at :: "(IndexVar \<Rightarrow> IndexVarRel option) \<Rightarrow> IndexVar \<Rightarrow> IndexVarRel res" where
  "rel_at m v = (case m v of Some r \<Rightarrow> ok r | None \<Rightarrow> err OutOfRange)"

text \<open>The number of nested calls that is enough on a graph without cycles.\<close>

definition depth :: "ProvenanceGraph \<Rightarrow> nat" where
  "depth g = Suc (length (pg_nodes g))"

definition isUnderived :: "ProvenanceGraph \<Rightarrow> IndexVar \<Rightarrow> bool" where
  "isUnderived g v \<longleftrightarrow> getParents g v = []"

definition isFullyDerived :: "ProvenanceGraph \<Rightarrow> IndexVar \<Rightarrow> bool" where
  "isFullyDerived g v \<longleftrightarrow> getChildren g v = []"

subsection \<open>Walks\<close>

fun fully_derived_upto :: "nat \<Rightarrow> ProvenanceGraph \<Rightarrow> IndexVar \<Rightarrow> IndexVar list res" where
  "fully_derived_upto 0 g v = err NoReturn"
| "fully_derived_upto (Suc n) g v =
     (if getChildren g v = [] then ok [v] else concatR (fully_derived_upto n g) (getChildren g v))"

definition getFullyDerivedDescendants :: "ProvenanceGraph \<Rightarrow> IndexVar \<Rightarrow> IndexVar list res" where
  "getFullyDerivedDescendants g = fully_derived_upto (depth g) g"

fun underived_upto :: "nat \<Rightarrow> ProvenanceGraph \<Rightarrow> IndexVar \<Rightarrow> IndexVar list res" where
  "underived_upto 0 g v = err NoReturn"
| "underived_upto (Suc n) g v =
     (if getParents g v = [] then ok [v] else concatR (underived_upto n g) (getParents g v))"

definition getUnderivedAncestors :: "ProvenanceGraph \<Rightarrow> IndexVar \<Rightarrow> IndexVar list res" where
  "getUnderivedAncestors g = underived_upto (depth g) g"

fun isIrregular_upto :: "nat \<Rightarrow> ProvenanceGraph \<Rightarrow> IndexVar \<Rightarrow> bool res" where
  "isIrregular_upto 0 g v = err NoReturn"
| "isIrregular_upto (Suc n) g v =
     (if isUnderived g v then ok True
      else bindR (rel_at (parentRelMap g) v) (\<lambda>rel. bindR (rel_getIrregulars rel) (\<lambda>irregulars.
        if v \<notin> set irregulars then ok False
        else anyR (isIrregular_upto n g) (getParents g v))))"

definition isIrregular :: "ProvenanceGraph \<Rightarrow> IndexVar \<Rightarrow> bool res" where
  "isIrregular g = isIrregular_upto (depth g) g"

text \<open>The queries with an out parameter answer the variable they would set it to.\<close>

fun irregular_descendant_upto :: "nat \<Rightarrow> ProvenanceGraph \<Rightarrow> IndexVar \<Rightarrow> IndexVar option res" where
  "irregular_descendant_upto 0 g v = err NoReturn"
| "irregular_descendant_upto (Suc n) g v =
     ifR (if isFullyDerived g v then isIrregular g v else ok False) (ok (Some v))
       (firstR (irregular_descendant_upto n g) (getChildren g v))"

definition getIrregularDescendant :: "ProvenanceGraph \<Rightarrow> IndexVar \<Rightarrow> IndexVar option res" where
  "getIrregularDescendant g = irregular_descendant_upto (depth g) g"

fun isPosVariable_upto :: "nat \<Rightarrow> ProvenanceGraph \<Rightarrow> IndexVar \<Rightarrow> bool res" where
  "isPosVariable_upto 0 g v = err NoReturn"
| "isPosVariable_upto (Suc n) g v =
     (if isUnderived g v then ok False
      else bindR (rel_at (parentRelMap g) v) (\<lambda>rel.
        if getRelType rel = POS then ok True else anyR (isPosVariable_upto n g) (getParents g v)))"

definition isPosVariable :: "ProvenanceGraph \<Rightarrow> IndexVar \<Rightarrow> bool res" where
  "isPosVariable g = isPosVariable_upto (depth g) g"

definition isCoordVariable :: "ProvenanceGraph \<Rightarrow> IndexVar \<Rightarrow> bool res" where
  "isCoordVariable g v = notR (isPosVariable g v)"

definition hasCoordBounds :: "ProvenanceGraph \<Rightarrow> IndexVar \<Rightarrow> bool res" where
  "hasCoordBounds g v = (if isUnderived g v then ok False else isCoordVariable g v)"

fun pos_iterator_ancestor_upto :: "nat \<Rightarrow> ProvenanceGraph \<Rightarrow> IndexVar \<Rightarrow> IndexVar option res" where
  "pos_iterator_ancestor_upto 0 g v = err NoReturn"
| "pos_iterator_ancestor_upto (Suc n) g v =
     ifR (isPosVariable g v)
       (if isUnderived g v then ok None
        else firstR (\<lambda>p. ifR (isCoordVariable g p) (ok (Some v)) (pos_iterator_ancestor_upto n g p)) (getParents g v))
       (ok None)"

definition getPosIteratorAncestor :: "ProvenanceGraph \<Rightarrow> IndexVar \<Rightarrow> IndexVar option res" where
  "getPosIteratorAncestor g = pos_iterator_ancestor_upto (depth g) g"

text \<open>The child along which a walk goes on: the only one, or the first one that does not keep the
  irregularity.\<close>

definition regular_child :: "ProvenanceGraph \<Rightarrow> IndexVarRel \<Rightarrow> IndexVar \<Rightarrow> IndexVar option res" where
  "regular_child g rel v =
     (case getChildren g v of
        [c] \<Rightarrow> ok (Some c)
      | cs \<Rightarrow> firstR (\<lambda>c. bindR (rel_getIrregulars rel) (\<lambda>irregulars.
                        ok (if c \<notin> set irregulars then Some c else None))) cs)"

fun pos_iterator_descendant_upto :: "nat \<Rightarrow> ProvenanceGraph \<Rightarrow> IndexVar \<Rightarrow> IndexVar option res" where
  "pos_iterator_descendant_upto 0 g v = err NoReturn"
| "pos_iterator_descendant_upto (Suc n) g v =
     ifR (isPosVariable g v) (ok (Some v))
       (case getChildren g v of
          [] \<Rightarrow> ok None
        | c # _ \<Rightarrow>
            bindR (rel_at (childRelMap g) v) (\<lambda>rel.
            ifR (if getRelType rel = FUSE then isPosVariable g c else ok False) (ok None)
              (bindR (regular_child g rel v) (\<lambda>d. case d of
                 None \<Rightarrow> ok None
               | Some c' \<Rightarrow> pos_iterator_descendant_upto n g c'))))"

definition getPosIteratorDescendant :: "ProvenanceGraph \<Rightarrow> IndexVar \<Rightarrow> IndexVar option res" where
  "getPosIteratorDescendant g = pos_iterator_descendant_upto (depth g) g"

fun pos_iterator_fully_derived_upto :: "nat \<Rightarrow> ProvenanceGraph \<Rightarrow> IndexVar \<Rightarrow> IndexVar option res" where
  "pos_iterator_fully_derived_upto 0 g v = err NoReturn"
| "pos_iterator_fully_derived_upto (Suc n) g v =
     ifR (if isFullyDerived g v then ok True
          else bindR (rel_at (childRelMap g) v) (\<lambda>rel. ok (getRelType rel = PRECOMPUTE)))
       (ifR (isPosVariable g v) (ok (Some v)) (ok None))
       (bindR (rel_at (childRelMap g) v) (\<lambda>rel.
        ifR (if getRelType rel = FUSE then isPosVariable g v else ok False) (ok None)
          (bindR (regular_child g rel v) (\<lambda>d. case d of
             None \<Rightarrow> ok None
           | Some c \<Rightarrow> pos_iterator_fully_derived_upto n g c))))"

definition getPosIteratorFullyDerivedDescendant :: "ProvenanceGraph \<Rightarrow> IndexVar \<Rightarrow> IndexVar option res" where
  "getPosIteratorFullyDerivedDescendant g = pos_iterator_fully_derived_upto (depth g) g"

fun isDerivedFrom_upto :: "nat \<Rightarrow> ProvenanceGraph \<Rightarrow> IndexVar \<Rightarrow> IndexVar \<Rightarrow> bool res" where
  "isDerivedFrom_upto 0 g ancestor v = err NoReturn"
| "isDerivedFrom_upto (Suc n) g ancestor v =
     anyR (\<lambda>p. if p = ancestor then ok True else isDerivedFrom_upto n g ancestor p) (getParents g v)"

definition isDerivedFrom :: "ProvenanceGraph \<Rightarrow> IndexVar \<Rightarrow> IndexVar \<Rightarrow> bool res" where
  "isDerivedFrom g v ancestor = isDerivedFrom_upto (depth g) g ancestor v"

fun isPosOfAccess_upto :: "nat \<Rightarrow> ProvenanceGraph \<Rightarrow> (Access \<Rightarrow> bool res) \<Rightarrow> IndexVar \<Rightarrow> bool res" where
  "isPosOfAccess_upto 0 g same v = err NoReturn"
| "isPosOfAccess_upto (Suc n) g same v =
     (if isUnderived g v then ok False
      else bindR (rel_at (parentRelMap g) v) (\<lambda>rel. case rel of
          PosRel _ _ a \<Rightarrow> same a
        | FuseRel _ _ _ \<Rightarrow> ok False
        | _ \<Rightarrow> anyR (isPosOfAccess_upto n g same) (getParents g v)))"

definition isPosOfAccess :: "ProvenanceGraph \<Rightarrow> IndexVar \<Rightarrow> Access \<Rightarrow> bool res" where
  "isPosOfAccess g v access =
     isPosOfAccess_upto (depth g) g (\<lambda>a. expr_equals (AccessNode a) (AccessNode access)) v"

fun hasPosDescendant_upto :: "nat \<Rightarrow> ProvenanceGraph \<Rightarrow> IndexVar \<Rightarrow> bool res" where
  "hasPosDescendant_upto 0 g v = err NoReturn"
| "hasPosDescendant_upto (Suc n) g v =
     ifR (isPosVariable g v) (ok True)
       (case getChildren g v of
          [] \<Rightarrow> ok False
        | c # _ \<Rightarrow>
            bindR (rel_at (childRelMap g) v) (\<lambda>rel.
            ifR (if getRelType rel = FUSE then
                   bindR (at_index (getParents g c) 0) (\<lambda>p0. bindR (at_index (getParents g c) 1) (\<lambda>p1.
                     orR (if v = p0 then isPosVariable g p1 else ok False)
                         (if v = p1 then isPosVariable g p0 else ok False)))
                 else ok False)
              (ok False)
              (anyR (hasPosDescendant_upto n g) (getChildren g v))))"

definition hasPosDescendant :: "ProvenanceGraph \<Rightarrow> IndexVar \<Rightarrow> bool res" where
  "hasPosDescendant g = hasPosDescendant_upto (depth g) g"

definition hasExactBound :: "ProvenanceGraph \<Rightarrow> IndexVar \<Rightarrow> bool res" where
  "hasExactBound g v =
     (if isUnderived g v then ok False
      else bindR (rel_at (parentRelMap g) v) (\<lambda>rel. case rel of
          BoundRel _ _ _ t \<Rightarrow> ok (t = MaxExact)
        | _ \<Rightarrow> ok False))"

fun derivationPath_upto :: "nat \<Rightarrow> ProvenanceGraph \<Rightarrow> IndexVar \<Rightarrow> IndexVar \<Rightarrow> IndexVar list res" where
  "derivationPath_upto 0 g v ancestor = err NoReturn"
| "derivationPath_upto (Suc n) g v ancestor =
     (if ancestor = v then ok [v]
      else bindR (firstR (\<lambda>c. bindR (derivationPath_upto n g v c) (\<lambda>path.
                    ok (if path = [] then None else Some (ancestor # path)))) (getChildren g ancestor))
             (\<lambda>r. ok (case r of Some path \<Rightarrow> path | None \<Rightarrow> [])))"

definition derivationPath :: "ProvenanceGraph \<Rightarrow> IndexVar \<Rightarrow> IndexVar \<Rightarrow> IndexVar list res" where
  "derivationPath g ancestor v = derivationPath_upto (depth g) g v ancestor"

definition getAllIndexVars :: "ProvenanceGraph \<Rightarrow> IndexVar list" where
  "getAllIndexVars g = pg_nodes g"

definition isDivided :: "ProvenanceGraph \<Rightarrow> IndexVar \<Rightarrow> bool res" where
  "isDivided g v =
     (if getChildren g v \<noteq> [] then bindR (rel_at (childRelMap g) v) (\<lambda>rel. ok (getRelType rel = DIVIDE))
      else ok False)"

subsection \<open>Availability and recovery\<close>

text \<open>A set of defined variables is a list.\<close>

definition isAvailable :: "ProvenanceGraph \<Rightarrow> IndexVar \<Rightarrow> IndexVar list \<Rightarrow> bool" where
  "isAvailable g v defined \<longleftrightarrow> (\<forall>p \<in> set (getParents g v). p \<in> set defined)"

definition has_precompute :: "(IndexVar \<Rightarrow> IndexVarRel option) \<Rightarrow> IndexVar \<Rightarrow> bool" where
  "has_precompute m v = (case m v of Some rel \<Rightarrow> getRelType rel = PRECOMPUTE | None \<Rightarrow> False)"

fun isRecoverablePrecompute_upto ::
    "nat \<Rightarrow> ProvenanceGraph \<Rightarrow> IndexVar list \<Rightarrow> IndexVar list \<Rightarrow> IndexVar list \<Rightarrow> IndexVar \<Rightarrow> bool res" where
  "isRecoverablePrecompute_upto 0 g defined producers consumers v = err NoReturn"
| "isRecoverablePrecompute_upto (Suc n) g defined producers consumers v =
     (if v \<in> set consumers then ok True
      else if producers \<noteq> [] \<and> has_precompute (childRelMap g) v then
        bindR (at_index (getChildren g v) 0) (\<lambda>precomputeChild.
          if precomputeChild \<in> set producers then ok True
          else isRecoverablePrecompute_upto n g defined producers consumers precomputeChild)
      else allR (\<lambda>c.
             if c \<in> set defined then ok True
             else if isFullyDerived g c then ok False
             else isRecoverablePrecompute_upto n g defined producers consumers c) (getChildren g v))"

definition isRecoverable :: "ProvenanceGraph \<Rightarrow> IndexVar \<Rightarrow> IndexVar list \<Rightarrow> bool res" where
  "isRecoverable g v defined =
     isRecoverablePrecompute_upto (depth g) g defined
       (filter (has_precompute (parentRelMap g)) defined) (filter (has_precompute (childRelMap g)) defined) v"

definition isChildRecoverable :: "ProvenanceGraph \<Rightarrow> IndexVar \<Rightarrow> IndexVar list \<Rightarrow> bool" where
  "isChildRecoverable g v defined \<longleftrightarrow>
     sum_list (map (\<lambda>p. of_bool (p \<notin> set defined) +
                          length (filter (\<lambda>s. s \<notin> set defined) (getChildren g p))) (getParents g v)) \<le> 1"

text \<open>For a variable fused from a coordinate variable and iterated by position, its first parent is
  tracked by another loop.\<close>

definition tracked_by_loop :: "ProvenanceGraph \<Rightarrow> IndexVar \<Rightarrow> IndexVar \<Rightarrow> bool res" where
  "tracked_by_loop g v p =
     bindR (rel_at (parentRelMap g) v) (\<lambda>rel.
       if getRelType rel \<noteq> FUSE then ok False
       else bindR (getIrregularDescendant g v) (\<lambda>d. case d of
           None \<Rightarrow> ok False
         | Some i \<Rightarrow> andR (isPosVariable g i) (andR (isCoordVariable g p)
                        (bindR (at_index (getParents g v) 0) (\<lambda>p0. ok (p = p0))))))"

fun newly_recoverable_upto ::
    "nat \<Rightarrow> ProvenanceGraph \<Rightarrow> IndexVar list \<Rightarrow> IndexVar \<Rightarrow> IndexVar list res" where
  "newly_recoverable_upto 0 g previouslyDefined v = err NoReturn"
| "newly_recoverable_upto (Suc n) g previouslyDefined v =
     (if isUnderived g v then ok []
      else concatR (\<lambda>p.
        ifR (tracked_by_loop g v p) (ok [])
          (ifR (andR (notR (isRecoverable g p previouslyDefined))
                     (isRecoverable g p (List.insert v previouslyDefined)))
             (bindR (newly_recoverable_upto n g previouslyDefined p) (\<lambda>r. ok (p # r)))
             (ok []))) (getParents g v))"

definition newlyRecoverableParents :: "ProvenanceGraph \<Rightarrow> IndexVar \<Rightarrow> IndexVar list \<Rightarrow> IndexVar list res" where
  "newlyRecoverableParents g v previouslyDefined = newly_recoverable_upto (depth g) g previouslyDefined v"

end
