(* ===== verification/Iterators.thy ===== *)
theory Iterators
  imports Provenance
begin

text \<open>
  Iterators over tensor levels and dimensions, and the iterators of a statement (src/lower/iterator.cpp,
  src/lower/mode_access.cpp).

  An iterator is a pointer to its content; the content carries its address, so that equal values are equal
  pointers. Iterators are built from the root down; the back pointers to the children are left out, with
  \<open>isLeaf\<close> and \<open>getChild\<close>. The maps of the class \<open>Iterators\<close> are lists in the order of their keys.
\<close>

subsection \<open>Iterators\<close>

record IteratorWindow =
  iw_windowVar :: expr
  iw_lo :: expr
  iw_hi :: expr
  iw_stride :: expr

text \<open>Undefined handles are \<open>None\<close>.\<close>

record IteratorContent =
  ic_addr :: nat
  ic_indexVar :: IndexVar
  ic_mode :: "Mode option"
  ic_tensor :: "expr option"
  ic_posVar :: "expr option"
  ic_coordVar :: "expr option"
  ic_endVar :: "expr option"
  ic_segendVar :: "expr option"
  ic_validVar :: "expr option"
  ic_beginVar :: "expr option"
  ic_window :: "IteratorWindow option"

datatype Iterator =
    NoIterator
  | Iterator IteratorContent Iterator Iterator   \<comment> \<open>content, parent, index set iterator\<close>

definition blank_content :: "nat \<Rightarrow> IndexVar \<Rightarrow> IteratorContent" where
  "blank_content addr v =
     \<lparr>ic_addr = addr, ic_indexVar = v, ic_mode = None, ic_tensor = None, ic_posVar = None, ic_coordVar = None,
      ic_endVar = None, ic_segendVar = None, ic_validVar = None, ic_beginVar = None, ic_window = None\<rparr>"

definition fresh_var :: "string \<Rightarrow> Datatype \<Rightarrow> expr build" where
  "fresh_var nm t = bindB fresh (\<lambda>addr. retB (Var_make addr nm t False False False))"

text \<open>The constructors of dimension, root and level iterators. A root has a default-constructed index variable,
  whose name is generated; it is an argument here.\<close>

definition dimension_iterator :: "IndexVar \<Rightarrow> bool \<Rightarrow> Iterator build" where
  "dimension_iterator v isFull =
     bindB fresh (\<lambda>addr. bindB (fresh_var (iv_name v) Int32) (\<lambda>coord.
     bindB (fresh_var (iv_name v @ ''_pos'') Int32) (\<lambda>pos.
       let c = (blank_content addr v)\<lparr>ic_coordVar := Some coord, ic_posVar := Some pos\<rparr> in
       if isFull then retB (Iterator c NoIterator NoIterator)
       else bindB (fresh_var (iv_name v @ ''_begin'') Int32) (\<lambda>begin.
            bindB (fresh_var (iv_name v @ ''_end'') Int32) (\<lambda>end.
              retB (Iterator (c\<lparr>ic_beginVar := Some begin, ic_endVar := Some end\<rparr>) NoIterator NoIterator))))))"

definition root_iterator :: "string \<Rightarrow> expr \<Rightarrow> Iterator build" where
  "root_iterator defaultName tensor =
     bindB fresh (\<lambda>addr. bindB fresh (\<lambda>vaddr.
     liftB (bindR (Literal_int 0) (\<lambda>zero. bindR (Literal_int 1) (\<lambda>one.
       ok (Iterator ((blank_content addr (IndexVar vaddr defaultName))
             \<lparr>ic_tensor := Some tensor, ic_posVar := Some zero, ic_coordVar := Some zero, ic_endVar := Some one\<rparr>)
           NoIterator NoIterator))))))"

definition level_iterator :: "IndexVar \<Rightarrow> expr \<Rightarrow> Mode \<Rightarrow> Iterator \<Rightarrow> string \<Rightarrow> Iterator build" where
  "level_iterator v tensor mode parent name =
     bindB fresh (\<lambda>addr. bindB (liftB (Mode_getName mode)) (\<lambda>modeName.
     bindB (fresh_var name Int32) (\<lambda>pos.
     bindB (fresh_var (''p'' @ modeName @ ''_end'') Int32) (\<lambda>end.
     bindB (fresh_var (''p'' @ modeName @ ''_begin'') Int32) (\<lambda>begin.
     bindB (fresh_var name Int32) (\<lambda>coord.
     bindB (fresh_var (modeName @ ''_segend'') Int32) (\<lambda>segend.
     bindB (fresh_var (''v'' @ modeName) Bool) (\<lambda>valid.
       retB (Iterator ((blank_content addr v)
           \<lparr>ic_mode := Some mode, ic_tensor := Some tensor, ic_posVar := Some pos, ic_coordVar := Some coord,
            ic_endVar := Some end, ic_segendVar := Some segend, ic_validVar := Some valid,
            ic_beginVar := Some begin\<rparr>) parent NoIterator)))))))))"

definition it_defined :: "Iterator \<Rightarrow> bool" where
  "it_defined it \<longleftrightarrow> it \<noteq> NoIterator"

text \<open>Queries assert that the iterator is defined; a few read its content unchecked.\<close>

definition guarded :: "(IteratorContent \<Rightarrow> 'a res) \<Rightarrow> Iterator \<Rightarrow> 'a res" where
  "guarded f it = (case it of NoIterator \<Rightarrow> err IAssert | Iterator c _ _ \<Rightarrow> f c)"

definition unguarded :: "(IteratorContent \<Rightarrow> 'a) \<Rightarrow> Iterator \<Rightarrow> 'a res" where
  "unguarded f it = (case it of NoIterator \<Rightarrow> err BadMemory | Iterator c _ _ \<Rightarrow> ok (f c))"

definition getParent :: "Iterator \<Rightarrow> Iterator res" where
  "getParent it = (case it of NoIterator \<Rightarrow> err IAssert | Iterator _ p _ \<Rightarrow> ok p)"

definition isRoot :: "Iterator \<Rightarrow> bool res" where
  "isRoot it = bindR (getParent it) (\<lambda>p. ok (\<not> it_defined p))"

definition it_getIndexVar :: "Iterator \<Rightarrow> IndexVar res" where
  "it_getIndexVar = unguarded ic_indexVar"

definition it_getTensor :: "Iterator \<Rightarrow> expr option res" where
  "it_getTensor = guarded (ok \<circ> ic_tensor)"

definition getPosVar :: "Iterator \<Rightarrow> expr option res" where
  "getPosVar = guarded (ok \<circ> ic_posVar)"

definition getCoordVar :: "Iterator \<Rightarrow> expr option res" where
  "getCoordVar = guarded (ok \<circ> ic_coordVar)"

definition getEndVar :: "Iterator \<Rightarrow> expr option res" where
  "getEndVar = guarded (ok \<circ> ic_endVar)"

definition getSegendVar :: "Iterator \<Rightarrow> expr option res" where
  "getSegendVar = guarded (ok \<circ> ic_segendVar)"

definition getValidVar :: "Iterator \<Rightarrow> expr option res" where
  "getValidVar = guarded (ok \<circ> ic_validVar)"

definition getBeginVar :: "Iterator \<Rightarrow> expr option res" where
  "getBeginVar = guarded (ok \<circ> ic_beginVar)"

definition is_dimension :: "IteratorContent \<Rightarrow> bool" where
  "is_dimension c \<longleftrightarrow> ic_mode c = None \<and> ic_tensor c = None"

definition isDimensionIterator :: "Iterator \<Rightarrow> bool res" where
  "isDimensionIterator = unguarded is_dimension"

definition isModeIterator :: "Iterator \<Rightarrow> bool res" where
  "isModeIterator = unguarded (\<lambda>c. ic_mode c \<noteq> None)"

subsection \<open>Properties and capabilities\<close>

definition it_query :: "bool \<Rightarrow> (ModeFormatImpl \<Rightarrow> bool) \<Rightarrow> IteratorContent \<Rightarrow> bool res" where
  "it_query dimension flag c =
     (if is_dimension c then ok dimension
      else case ic_mode c of None \<Rightarrow> ok False | Some m \<Rightarrow> mode_query flag (m_format m))"

definition it_isFull :: "Iterator \<Rightarrow> bool res" where
  "it_isFull = guarded (\<lambda>c. it_query (ic_beginVar c = None \<and> ic_endVar c = None) mf_isFull c)"

definition it_isOrdered :: "Iterator \<Rightarrow> bool res" where
  "it_isOrdered = guarded (it_query True mf_isOrdered)"

definition it_isUnique :: "Iterator \<Rightarrow> bool res" where
  "it_isUnique = guarded (it_query True mf_isUnique)"

definition it_isBranchless :: "Iterator \<Rightarrow> bool res" where
  "it_isBranchless = guarded (it_query True mf_isBranchless)"

definition it_isCompact :: "Iterator \<Rightarrow> bool res" where
  "it_isCompact = guarded (it_query True mf_isCompact)"

definition it_isZeroless :: "Iterator \<Rightarrow> bool res" where
  "it_isZeroless = guarded (it_query False mf_isZeroless)"

definition it_hasCoordIter :: "Iterator \<Rightarrow> bool res" where
  "it_hasCoordIter = guarded (it_query False mf_hasCoordValIter)"

definition it_hasPosIter :: "Iterator \<Rightarrow> bool res" where
  "it_hasPosIter = guarded (it_query False mf_hasCoordPosIter)"

definition it_hasLocate :: "Iterator \<Rightarrow> bool res" where
  "it_hasLocate = guarded (it_query False mf_hasLocate)"

definition it_hasInsert :: "Iterator \<Rightarrow> bool res" where
  "it_hasInsert = guarded (it_query False mf_hasInsert)"

definition it_hasAppend :: "Iterator \<Rightarrow> bool res" where
  "it_hasAppend = guarded (it_query False mf_hasAppend)"

definition it_hasSeqInsertEdge :: "Iterator \<Rightarrow> bool res" where
  "it_hasSeqInsertEdge = guarded (it_query False mf_hasSeqInsertEdge)"

definition it_hasInsertCoord :: "Iterator \<Rightarrow> bool res" where
  "it_hasInsertCoord = guarded (it_query False mf_hasInsertCoord)"

definition it_isYieldPosPure :: "Iterator \<Rightarrow> bool res" where
  "it_isYieldPosPure = guarded (it_query False mf_isYieldPosPure)"

definition getIteratorVar :: "Iterator \<Rightarrow> expr option res" where
  "getIteratorVar it = ifR (it_hasPosIter it) (getPosVar it) (getCoordVar it)"

definition getDerivedVar :: "Iterator \<Rightarrow> expr option res" where
  "getDerivedVar it = ifR (it_hasPosIter it) (getCoordVar it) (getPosVar it)"

text \<open>The mode and the level format the level functions are called on.\<close>

definition it_level :: "Iterator \<Rightarrow> (ModeFormatImpl \<times> Mode) res" where
  "it_level = guarded (\<lambda>c. case ic_mode c of None \<Rightarrow> err IAssert
     | Some m \<Rightarrow> (case m_format m of None \<Rightarrow> err BadMemory | Some f \<Rightarrow> ok (f, m)))"

definition it_posBounds :: "Iterator \<Rightarrow> expr \<Rightarrow> mode_function res" where
  "it_posBounds it parentPos = bindR (it_level it) (\<lambda>(f, m). posIterBounds f parentPos m)"

definition it_coordBounds :: "Iterator \<Rightarrow> expr \<Rightarrow> mode_function res" where
  "it_coordBounds it parentPos = bindR (it_level it) (\<lambda>(f, m). coordBounds f parentPos m)"

definition it_posAccess :: "Iterator \<Rightarrow> expr \<Rightarrow> mode_function res" where
  "it_posAccess it pos = bindR (it_level it) (\<lambda>(f, m). posIterAccess f pos m)"

definition it_locate :: "Iterator \<Rightarrow> expr list \<Rightarrow> mode_function res" where
  "it_locate it coords =
     bindR (it_level it) (\<lambda>(f, m). bindR (getParent it) (\<lambda>p. bindR (getPosVar p) (\<lambda>pos.
       case pos of None \<Rightarrow> err BadMemory | Some e \<Rightarrow> locate f e coords m)))"

definition it_getWidth :: "Iterator \<Rightarrow> expr res" where
  "it_getWidth it = bindR (it_level it) (\<lambda>(f, m). getWidth m)"

definition it_getSize :: "Iterator \<Rightarrow> expr \<Rightarrow> expr option res" where
  "it_getSize it szPrev = bindR (it_level it) (\<lambda>(f, m). level_getSize f szPrev m)"

subsection \<open>Windows and index sets\<close>

definition isWindowed :: "Iterator \<Rightarrow> bool res" where
  "isWindowed = unguarded (\<lambda>c. ic_window c \<noteq> None)"

definition window_part :: "(IteratorWindow \<Rightarrow> 'a) \<Rightarrow> Iterator \<Rightarrow> 'a res" where
  "window_part f it =
     (case it of NoIterator \<Rightarrow> err BadMemory
      | Iterator c _ _ \<Rightarrow> (case ic_window c of None \<Rightarrow> err IAssert | Some w \<Rightarrow> ok (f w)))"

definition isStrided :: "Iterator \<Rightarrow> bool res" where
  "isStrided it =
     bindR (window_part iw_stride it) (\<lambda>s. case as_Literal s of
        Some (t, v) \<Rightarrow> bindR (getIntValue t v) (\<lambda>n. ok (n \<noteq> 1))
      | None \<Rightarrow> ok True)"

definition setWindowBounds :: "expr \<Rightarrow> expr \<Rightarrow> expr \<Rightarrow> Iterator \<Rightarrow> Iterator build" where
  "setWindowBounds lo hi str it =
     (case it of
        NoIterator \<Rightarrow> liftB (err BadMemory)
      | Iterator c p s \<Rightarrow>
          bindB (liftB (case ic_mode c of None \<Rightarrow> err BadMemory | Some m \<Rightarrow> Mode_getName m)) (\<lambda>n.
          bindB (fresh_var (iv_name (ic_indexVar c) @ n @ ''_window'') Int32) (\<lambda>wvar.
            retB (Iterator (c\<lparr>ic_window := Some \<lparr>iw_windowVar = wvar, iw_lo = lo, iw_hi = hi, iw_stride = str\<rparr>\<rparr>) p s))))"

definition hasIndexSet :: "Iterator \<Rightarrow> bool res" where
  "hasIndexSet it = (case it of NoIterator \<Rightarrow> err BadMemory | Iterator _ _ s \<Rightarrow> ok (it_defined s))"

definition getIndexSetIterator :: "Iterator \<Rightarrow> Iterator res" where
  "getIndexSetIterator it =
     (case it of NoIterator \<Rightarrow> err BadMemory | Iterator _ _ s \<Rightarrow> assertR IAssert (it_defined s) (ok s))"

definition setIndexSetIterator :: "Iterator \<Rightarrow> Iterator \<Rightarrow> Iterator" where
  "setIndexSetIterator s it = (case it of NoIterator \<Rightarrow> NoIterator | Iterator c p _ \<Rightarrow> Iterator c p s)"

subsection \<open>Equality\<close>

text \<open>Dimension iterators are equal when they are over one index variable; level iterators when they are one
  object or agree in the index variable, the tensor and the parents up to the root. Comparing an undefined
  iterator reads through a null pointer.\<close>

fun it_eq :: "Iterator \<Rightarrow> Iterator \<Rightarrow> bool res" where
  "it_eq (Iterator c p s) (Iterator d q r) =
     (if is_dimension c \<and> is_dimension d then ok (ic_indexVar c = ic_indexVar d)
      else if Iterator c p s = Iterator d q r then ok True
      else if ic_indexVar c = ic_indexVar d \<and> ic_tensor c = ic_tensor d then it_eq p q
      else ok False)"
| "it_eq _ _ = err BadMemory"

text \<open>\<open>operator<\<close> orders unequal iterators by address.\<close>

definition it_less :: "Iterator \<Rightarrow> Iterator \<Rightarrow> bool res" where
  "it_less a b =
     ifR (it_eq a b) (ok False)
       (case (a, b) of (Iterator c _ _, Iterator d _ _) \<Rightarrow> ok (ic_addr c < ic_addr d) | _ \<Rightarrow> err BadMemory)"

subsection \<open>The iterators of a statement\<close>

text \<open>A mode access: an access and the position of a mode in it, from 1 (0 for the root).\<close>

type_synonym ModeAccess = "Access \<times> nat"

definition mode_access_less :: "ModeAccess \<Rightarrow> ModeAccess \<Rightarrow> bool" where
  "mode_access_less a b =
     (if fst a = fst b then snd a < snd b else acc_addr (fst a) < acc_addr (fst b))"

record Iterators =
  levelIterators :: "(ModeAccess \<times> Iterator) list"
  modeAccesses :: "(Iterator \<times> ModeAccess) list"
  modeIterators :: "(IndexVar \<times> Iterator) list"

text \<open>\<open>insert\<close> keeps an entry that is there already, an assignment replaces it.\<close>

fun map_insert :: "('k \<Rightarrow> 'k \<Rightarrow> bool) \<Rightarrow> 'k \<Rightarrow> 'v \<Rightarrow> ('k \<times> 'v) list \<Rightarrow> ('k \<times> 'v) list" where
  "map_insert lt k v [] = [(k, v)]"
| "map_insert lt k v ((k', v') # m) =
     (if k = k' then (k', v') # m
      else if lt k k' then (k, v) # (k', v') # m
      else (k', v') # map_insert lt k v m)"

fun map_assign :: "('k \<Rightarrow> 'k \<Rightarrow> bool) \<Rightarrow> 'k \<Rightarrow> 'v \<Rightarrow> ('k \<times> 'v) list \<Rightarrow> ('k \<times> 'v) list" where
  "map_assign lt k v [] = [(k, v)]"
| "map_assign lt k v ((k', v') # m) =
     (if k = k' then (k, v) # m
      else if lt k k' then (k, v) # (k', v') # m
      else (k', v') # map_assign lt k v m)"

definition var_less :: "IndexVar \<Rightarrow> IndexVar \<Rightarrow> bool" where
  "var_less a b \<longleftrightarrow> iv_addr a < iv_addr b"

definition insert_level :: "ModeAccess \<Rightarrow> Iterator \<Rightarrow> Iterators \<Rightarrow> Iterators" where
  "insert_level k it is = is\<lparr>levelIterators := map_insert mode_access_less k it (levelIterators is)\<rparr>"

definition insert_mode :: "IndexVar \<Rightarrow> Iterator \<Rightarrow> Iterators \<Rightarrow> Iterators" where
  "insert_mode v it is = is\<lparr>modeIterators := map_insert var_less v it (modeIterators is)\<rparr>"

definition assign_mode :: "IndexVar \<Rightarrow> Iterator \<Rightarrow> Iterators \<Rightarrow> Iterators" where
  "assign_mode v it is = is\<lparr>modeIterators := map_assign var_less v it (modeIterators is)\<rparr>"

definition insert_mode_access :: "Iterator \<Rightarrow> ModeAccess \<Rightarrow> Iterators \<Rightarrow> Iterators res" where
  "insert_mode_access it a is =
     ifR (containsR it_eq (map fst (modeAccesses is)) it) (ok is)
       (ok (is\<lparr>modeAccesses := modeAccesses is @ [(it, a)]\<rparr>))"

definition levelIterator :: "Iterators \<Rightarrow> ModeAccess \<Rightarrow> Iterator res" where
  "levelIterator is a = (case map_of (levelIterators is) a of None \<Rightarrow> err IAssert | Some it \<Rightarrow> ok it)"

definition modeIterator :: "Iterators \<Rightarrow> IndexVar \<Rightarrow> Iterator res" where
  "modeIterator is v = (case map_of (modeIterators is) v of None \<Rightarrow> err IAssert | Some it \<Rightarrow> ok it)"

fun find_mode_access :: "(Iterator \<times> ModeAccess) list \<Rightarrow> Iterator \<Rightarrow> ModeAccess res" where
  "find_mode_access [] it = err IAssert"
| "find_mode_access ((it', a) # m) it = ifR (it_eq it' it) (ok a) (find_mode_access m it)"

definition modeAccess :: "Iterators \<Rightarrow> Iterator \<Rightarrow> ModeAccess res" where
  "modeAccess is it = find_mode_access (modeAccesses is) it"

subsection \<open>Building the iterators\<close>

text \<open>The dimension iterators of a forall variable, its underived ancestors and its children. \<open>added\<close> are the
  variables that got a full iterator because of another one.\<close>

definition add_full :: "IndexVar \<Rightarrow> IndexVar list \<times> Iterators \<Rightarrow> (IndexVar list \<times> Iterators) build" where
  "add_full v s =
     (case s of (added, is) \<Rightarrow>
        if v \<in> set added then retB s
        else bindB (dimension_iterator v True) (\<lambda>it. retB (v # added, insert_mode v it is)))"

fun foldB :: "('a \<Rightarrow> 'x \<Rightarrow> ('s, 'x) stateful) \<Rightarrow> 'a list \<Rightarrow> 'x \<Rightarrow> ('s, 'x) stateful" where
  "foldB f [] x = retB x"
| "foldB f (a # as) x = bindB (f a x) (foldB f as)"

definition add_dimension ::
    "ProvenanceGraph \<Rightarrow> IndexVar \<Rightarrow> IndexVar list \<times> Iterators \<Rightarrow> (IndexVar list \<times> Iterators) build" where
  "add_dimension g v s =
     bindB (liftB (andR (notR (hasCoordBounds g v)) (isCoordVariable g v))) (\<lambda>full.
     bindB (dimension_iterator v full) (\<lambda>it.
     bindB (liftB (getUnderivedAncestors g v)) (\<lambda>underived.
     bindB (foldB add_full underived (fst s, insert_mode v it (snd s)))
       (foldB add_full (getChildren g v)))))"

text \<open>The accesses of a statement, as the matcher meets them: the right-hand side of an assignment before the
  left-hand side.\<close>

fun accesses_of :: "IndexExpr \<Rightarrow> Access list" where
  "accesses_of (AccessNode a) = [a]"
| "accesses_of (NegNode e) = accesses_of e"
| "accesses_of (SqrtNode e) = accesses_of e"
| "accesses_of (AddNode a b) = accesses_of a @ accesses_of b"
| "accesses_of (SubNode a b) = accesses_of a @ accesses_of b"
| "accesses_of (MulNode a b) = accesses_of a @ accesses_of b"
| "accesses_of (DivNode a b) = accesses_of a @ accesses_of b"
| "accesses_of (CastNode t e) = accesses_of e"
| "accesses_of (CallIntrinsicNode f es) = concat (map accesses_of es)"
| "accesses_of (ReductionNode opn v e) = accesses_of e"
| "accesses_of _ = []"

fun stmt_accesses :: "IndexStmt \<Rightarrow> Access list" where
  "stmt_accesses (AssignmentNode lhs rhs opn) = accesses_of rhs @ [lhs]"
| "stmt_accesses (YieldNode vs e) = accesses_of e"
| "stmt_accesses (ForallNode v s _ _ _) = stmt_accesses s"
| "stmt_accesses (WhereNode c p) = stmt_accesses p @ stmt_accesses c"
| "stmt_accesses (MultiNode a b) = stmt_accesses a @ stmt_accesses b"
| "stmt_accesses (SuchThatNode s _) = stmt_accesses s"
| "stmt_accesses (SequenceNode d m) = stmt_accesses d @ stmt_accesses m"
| "stmt_accesses (AssembleNode q c) = stmt_accesses q @ stmt_accesses c"
| "stmt_accesses NoStmt = []"

text \<open>The variable a level is iterated with: the position variable derived from the index variable, if it is
  one of this access.\<close>

definition iterator_var :: "ProvenanceGraph \<Rightarrow> Access \<Rightarrow> IndexVar \<Rightarrow> IndexVar res" where
  "iterator_var g access v =
     bindR (getPosIteratorDescendant g v) (\<lambda>d. case d of
         None \<Rightarrow> ok v
       | Some p \<Rightarrow> ifR (isPosOfAccess g p access) (ok p) (ok v))"

definition index_set_iterator ::
    "(TensorVar \<Rightarrow> expr res) \<Rightarrow> string \<Rightarrow> IndexVar \<Rightarrow> TensorVar \<Rightarrow> Iterator build" where
  "index_set_iterator tensorVars defaultName v tv =
     bindB (liftB (tensorVars tv)) (\<lambda>tvVar.
     bindB (liftB (bindR (at_index (getModeFormats (tv_format tv)) 0) (\<lambda>f.
              case f of None \<Rightarrow> err BadMemory | Some i \<Rightarrow> ok i))) (\<lambda>f.
     bindB (ModePack_make 1 f tvVar 0 1) (\<lambda>pack.
     bindB (liftB (bindR (at_index (shape (tv_type tv)) 0) (\<lambda>dim. Mode_make tvVar dim 1 (Some f) pack 0 None))) (\<lambda>mode.
     bindB (root_iterator defaultName tvVar) (\<lambda>root.
       level_iterator v tvVar mode root (iv_name v @ tv_name tv @ ''_filter''))))))"

text \<open>One level: its iterator becomes the parent of the next one.\<close>

record level_state =
  ls_parent :: Iterator
  ls_parentType :: ModeFormat
  ls_level :: nat
  ls_iterators :: Iterators

definition nth_mode :: "int list \<Rightarrow> nat \<Rightarrow> nat res" where
  "nth_mode modeOrder level =
     bindR (at_index modeOrder (level - 1)) (\<lambda>n. assertR BadMemory (0 \<le> n) (ok (nat n)))"

definition create_level ::
    "ProvenanceGraph \<Rightarrow> (TensorVar \<Rightarrow> expr res) \<Rightarrow> string \<Rightarrow> Access \<Rightarrow> Format \<Rightarrow> expr \<Rightarrow> ModePack \<Rightarrow>
     nat \<times> ModeFormat \<Rightarrow> level_state \<Rightarrow> level_state build" where
  "create_level g tensorVars defaultName access format tensorIR pack posType s =
     (let tv = acc_tensorVar access; level = ls_level s; modeType = snd posType in
      bindB (liftB (nth_mode (modeOrdering format) level)) (\<lambda>modeNumber.
      bindB (liftB (at_index (shape (tv_type tv)) modeNumber)) (\<lambda>dim.
      bindB (liftB (at_index (acc_indexVars access) modeNumber)) (\<lambda>indexVar.
      bindB (liftB (iterator_var g access indexVar)) (\<lambda>iteratorVar.
      bindB (liftB (Mode_make tensorIR dim level modeType pack (fst posType) (ls_parentType s))) (\<lambda>mode.
      bindB (level_iterator iteratorVar tensorIR mode (ls_parent s) (iv_name iteratorVar @ tv_name tv)) (\<lambda>it0.
      bindB (case map_of (acc_windowedModes access) (int modeNumber) of
               None \<Rightarrow> retB it0
             | Some w \<Rightarrow>
                 bindB (liftB (Literal_int (aw_lo w))) (\<lambda>lo. bindB (liftB (Literal_int (aw_hi w))) (\<lambda>hi.
                 bindB (liftB (Literal_int (aw_stride w))) (\<lambda>str. setWindowBounds lo hi str it0)))) (\<lambda>it1.
      bindB (case map_of (acc_indexSetModes access) (int modeNumber) of
               None \<Rightarrow> retB (it1, ls_iterators s)
             | Some iset \<Rightarrow>
                 bindB (index_set_iterator tensorVars defaultName indexVar (is_tensor iset)) (\<lambda>iter.
                 bindB (liftB (insert_mode_access iter (access, modeNumber + 1) (ls_iterators s))) (\<lambda>is.
                   retB (setIndexSetIterator iter it1, is)))) (\<lambda>(it, is).
      let is' = insert_level (access, modeNumber + 1) it is in
      retB (s\<lparr>ls_parent := it, ls_parentType := modeType, ls_level := level + 1,
              ls_iterators := (if iteratorVar \<noteq> indexVar then assign_mode iteratorVar it is' else is')\<rparr>))))))))))"

definition create_pack ::
    "ProvenanceGraph \<Rightarrow> (TensorVar \<Rightarrow> expr res) \<Rightarrow> string \<Rightarrow> Access \<Rightarrow> Format \<Rightarrow> expr \<Rightarrow>
     ModeFormatPack \<Rightarrow> level_state \<Rightarrow> level_state build" where
  "create_pack g tensorVars defaultName access format tensorIR modeTypePack s =
     (case modeTypePack of
        Some f # _ \<Rightarrow>
          bindB (liftB (bindR (at_index (modeOrdering format) (ls_level s - 1)) ok)) (\<lambda>modeNumber.
          bindB (ModePack_make (length modeTypePack) f tensorIR modeNumber (ls_level s)) (\<lambda>pack.
            foldB (create_level g tensorVars defaultName access format tensorIR pack)
              (enumerate 0 modeTypePack) s))
      | None # _ \<Rightarrow> liftB (err BadMemory)
      | [] \<Rightarrow> liftB (err IAssert))"

definition createAccessIterators ::
    "ProvenanceGraph \<Rightarrow> (TensorVar \<Rightarrow> expr res) \<Rightarrow> string \<Rightarrow> Access \<Rightarrow> Format \<Rightarrow> expr \<Rightarrow> Iterators \<Rightarrow>
     Iterators build" where
  "createAccessIterators g tensorVars defaultName access format tensorIR is =
     bindB (liftB (assertR IAssert (int (getOrder_tv (acc_tensorVar access)) = getOrder format) (ok ()))) (\<lambda>_.
     bindB (root_iterator defaultName tensorIR) (\<lambda>root.
     bindB (foldB (create_pack g tensorVars defaultName access format tensorIR) (modeFormatPacks format)
              \<lparr>ls_parent = root, ls_parentType = None, ls_level = 1,
               ls_iterators = insert_level (access, 0) root is\<rparr>) (\<lambda>s.
       retB (ls_iterators s))))"

text \<open>The constructor. A tensor variable without an IR variable fails an assertion at its access.\<close>

definition Iterators_make ::
    "string \<Rightarrow> IndexStmt \<Rightarrow> (TensorVar \<Rightarrow> expr option) \<Rightarrow> Iterators build" where
  "Iterators_make defaultName stmt tensorVars =
     bindB (liftB (ProvenanceGraph_make stmt)) (\<lambda>g.
     bindB (foldB (add_dimension g) (forall_vars stmt)
              ([], \<lparr>levelIterators = [], modeAccesses = [], modeIterators = []\<rparr>)) (\<lambda>(_, is).
     bindB (foldB (\<lambda>access is.
              case tensorVars (acc_tensorVar access) of
                None \<Rightarrow> liftB (err IAssert)
              | Some tensorIR \<Rightarrow>
                  createAccessIterators g
                    (\<lambda>tv. case tensorVars tv of None \<Rightarrow> err OutOfRange | Some e \<Rightarrow> ok e)
                    defaultName access (tv_format (acc_tensorVar access)) tensorIR is) (stmt_accesses stmt) is) (\<lambda>is.
       liftB (foldR (\<lambda>(a, it). insert_mode_access it a) (levelIterators is) is))))"

definition getAppenders :: "Iterator list \<Rightarrow> Iterator list res" where
  "getAppenders = filterR it_hasAppend"

definition getInserters :: "Iterator list \<Rightarrow> Iterator list res" where
  "getInserters = filterR (\<lambda>it. ifR (it_hasInsert it)
     (bindR (it_hasLocate it) (\<lambda>l. assertR IAssert l (ok True))) (ok False))"

end
