(* ===== verification/Provenance_Bounds.thy ===== *)
theory Provenance_Bounds
  imports Iterators
begin

text \<open>
  The bounds of derived index variables and how variables are recovered from each other: the methods of the
  relations (src/index_notation/provenance_graph.cpp, \<open>SplitRelNode\<close> to \<open>PrecomputeRelNode\<close>) and their
  composition along the provenance graph.

  A pair of bounds is a vector of two expressions. Maps from index variables are lists in the order of their
  keys. \<open>operator[]\<close> of a map of expressions answers an undefined expression for a missing key; every use
  reads it, which fails here. \<open>operator[]\<close> of a map of bounds answers an empty vector.
\<close>

type_synonym bound_map = "(IndexVar \<times> expr list) list"
type_synonym var_map = "(IndexVar \<times> expr) list"

definition var_expr :: "var_map \<Rightarrow> IndexVar \<Rightarrow> expr res" where
  "var_expr m v = (case map_of m v of None \<Rightarrow> err BadMemory | Some e \<Rightarrow> ok e)"

definition has_key :: "(IndexVar \<times> 'a) list \<Rightarrow> IndexVar \<Rightarrow> bool" where
  "has_key m v \<longleftrightarrow> map_of m v \<noteq> None"

definition bounds_of :: "bound_map \<Rightarrow> IndexVar \<Rightarrow> expr list" where
  "bounds_of m v = (case map_of m v of None \<Rightarrow> [] | Some b \<Rightarrow> b)"

definition set_bounds :: "IndexVar \<Rightarrow> expr list \<Rightarrow> bound_map \<Rightarrow> bound_map" where
  "set_bounds = map_assign var_less"

text \<open>\<open>Literal::make\<close> of a \<open>size_t\<close> factor, and of the factor less one, which wraps.\<close>

definition factor_literal :: "nat \<Rightarrow> Datatype \<Rightarrow> expr res" where
  "factor_literal n t = Literal_make_from UInt64 (int n) t"

definition factor_minus_one :: "nat \<Rightarrow> Datatype \<Rightarrow> expr res" where
  "factor_minus_one n t = Literal_make_from UInt64 (wrapU 64 (int n - 1)) t"

subsection \<open>Split\<close>

definition Split_computeRelativeBound ::
    "ProvenanceGraph \<Rightarrow> IndexVar \<Rightarrow> IndexVar \<Rightarrow> IndexVar \<Rightarrow> nat \<Rightarrow> IndexVar list \<Rightarrow> bound_map \<Rightarrow> var_map \<Rightarrow> expr list res" where
  "Split_computeRelativeBound g parentVar outerVar innerVar splitFactor definedVars computedBounds variableExprs =
     assertR IAssert (has_key computedBounds parentVar) (
       let parentBound = bounds_of computedBounds parentVar;
           outerVarDefined = (outerVar \<in> set definedVars); innerVarDefined = (innerVar \<in> set definedVars) in
       ifR (isPosVariable g parentVar) (ok parentBound)
         (bindR (var_expr variableExprs parentVar) (\<lambda>parent.
          bindR (factor_literal splitFactor (etype parent)) (\<lambda>factor.
            if \<not> outerVarDefined then ok parentBound
            else if \<not> innerVarDefined then
              bindR (at_index parentBound 0) (\<lambda>lo. bindR (var_expr variableExprs outerVar) (\<lambda>outer.
              bindR (Mul_make outer factor) (\<lambda>start. bindR (Add_make lo start) (\<lambda>minBound.
              bindR (at_index parentBound 1) (\<lambda>hi. bindR (Add_make minBound factor) (\<lambda>end.
              bindR (Min_make2 hi end) (\<lambda>maxBound. ok [minBound, maxBound])))))))
            else
              bindR (at_index parentBound 0) (\<lambda>lo. bindR (var_expr variableExprs outerVar) (\<lambda>outer.
              bindR (Mul_make outer factor) (\<lambda>start. bindR (var_expr variableExprs innerVar) (\<lambda>inner.
              bindR (Add_make start inner) (\<lambda>point. bindR (Add_make lo point) (\<lambda>minBound.
              bindR (at_index parentBound 1) (\<lambda>hi. bindR (Literal_make_from Int32 1 (etype parent)) (\<lambda>one.
              bindR (Add_make minBound one) (\<lambda>end.
              bindR (Min_make2 hi end) (\<lambda>maxBound. ok [minBound, maxBound]))))))))))))))"

definition Split_deriveIterBounds ::
    "IndexVar \<Rightarrow> IndexVar \<Rightarrow> IndexVar \<Rightarrow> nat \<Rightarrow> IndexVar \<Rightarrow> bound_map \<Rightarrow> expr list res" where
  "Split_deriveIterBounds parentVar outerVar innerVar splitFactor indexVar parentIterBounds =
     assertR IAssert (indexVar = outerVar \<or> indexVar = innerVar)
       (assertR IAssert (length parentIterBounds = 1 \<and> has_key parentIterBounds parentVar) (
       let parentBound = bounds_of parentIterBounds parentVar in
       bindR (at_index parentBound 0) (\<lambda>lo.
         if indexVar = outerVar then
           bindR (factor_literal splitFactor (etype lo)) (\<lambda>factor.
           bindR (Div_make lo factor) (\<lambda>minBound.
           bindR (at_index parentBound 1) (\<lambda>hi.
           bindR (factor_minus_one splitFactor (etype lo)) (\<lambda>less_one.
           bindR (Add_make hi less_one) (\<lambda>sum.
           bindR (Div_make sum factor) (\<lambda>maxBound. ok [minBound, maxBound]))))))
         else
           bindR (Literal_int 0) (\<lambda>minBound.
           bindR (factor_literal splitFactor (etype lo)) (\<lambda>maxBound. ok [minBound, maxBound])))))"

definition Split_recoverVariable ::
    "IndexVar \<Rightarrow> IndexVar \<Rightarrow> IndexVar \<Rightarrow> nat \<Rightarrow> IndexVar \<Rightarrow> var_map \<Rightarrow> expr res" where
  "Split_recoverVariable parentVar outerVar innerVar splitFactor indexVar variableNames =
     assertR IAssert (indexVar = parentVar)
       (assertR IAssert (has_key variableNames parentVar \<and> has_key variableNames outerVar \<and> has_key variableNames innerVar)
         (bindR (var_expr variableNames parentVar) (\<lambda>parent. bindR (var_expr variableNames outerVar) (\<lambda>outer.
          bindR (factor_literal splitFactor (etype parent)) (\<lambda>factor.
          bindR (Mul_make outer factor) (\<lambda>start.
          bindR (var_expr variableNames innerVar) (Add_make start)))))))"

text \<open>A declaration or an assignment of the recovered child.\<close>

definition set_child :: "bool \<Rightarrow> expr \<Rightarrow> expr \<Rightarrow> stmt res" where
  "set_child emitVarDecl var e = (if emitVarDecl then VarDecl_make var e else default_Assign var e)"

definition Split_recoverChild ::
    "IndexVar \<Rightarrow> IndexVar \<Rightarrow> IndexVar \<Rightarrow> nat \<Rightarrow> IndexVar \<Rightarrow> var_map \<Rightarrow> bool \<Rightarrow> stmt res" where
  "Split_recoverChild parentVar outerVar innerVar splitFactor indexVar variableNames emitVarDecl =
     assertR IAssert (indexVar = outerVar \<or> indexVar = innerVar)
       (assertR IAssert (has_key variableNames parentVar \<and> has_key variableNames outerVar \<and> has_key variableNames innerVar)
         (bindR (var_expr variableNames parentVar) (\<lambda>parent. bindR (var_expr variableNames outerVar) (\<lambda>outer.
          bindR (var_expr variableNames innerVar) (\<lambda>inner.
            if indexVar = outerVar then
              bindR (Sub_make parent inner) (set_child emitVarDecl outer)
            else
              bindR (factor_literal splitFactor (etype parent)) (\<lambda>factor.
              bindR (Mul_make outer factor) (\<lambda>start.
              bindR (Sub_make parent start) (set_child emitVarDecl inner))))))))"

subsection \<open>Divide\<close>

definition Divide_computeRelativeBound ::
    "ProvenanceGraph \<Rightarrow> IndexVar \<Rightarrow> IndexVar \<Rightarrow> IndexVar \<Rightarrow> nat \<Rightarrow> IndexVar list \<Rightarrow> bound_map \<Rightarrow> var_map \<Rightarrow> expr list res" where
  "Divide_computeRelativeBound g parentVar outerVar innerVar divFactor definedVars computedBounds variableExprs =
     assertR IAssert (has_key computedBounds parentVar) (
       let parentBound = bounds_of computedBounds parentVar;
           outerVarDefined = (outerVar \<in> set definedVars); innerVarDefined = (innerVar \<in> set definedVars) in
       ifR (orR (isPosVariable g parentVar) (ok (\<not> outerVarDefined))) (ok parentBound)
         (bindR (var_expr variableExprs parentVar) (\<lambda>parent.
          bindR (factor_literal divFactor (etype parent)) (\<lambda>factor.
          bindR (factor_minus_one divFactor (etype parent)) (\<lambda>less_one.
          bindR (at_index parentBound 1) (\<lambda>hi. bindR (Add_make hi less_one) (\<lambda>sum.
          bindR (Div_make sum factor) (\<lambda>dimLen.
          bindR (var_expr variableExprs outerVar) (\<lambda>outer. bindR (Mul_make outer dimLen) (\<lambda>start.
          bindR (Literal_int 1) (\<lambda>one.
            if \<not> innerVarDefined then
              bindR (Add_make outer one) (\<lambda>succ. bindR (Mul_make succ dimLen) (\<lambda>upper. ok [start, upper]))
            else
              bindR (var_expr variableExprs innerVar) (\<lambda>inner. bindR (Add_make start inner) (\<lambda>lower.
              bindR (Add_make lower one) (\<lambda>end. bindR (Min_make2 hi end) (\<lambda>upper. ok [lower, upper])))))))))))))))"

definition Divide_deriveIterBounds ::
    "IndexVar \<Rightarrow> IndexVar \<Rightarrow> IndexVar \<Rightarrow> nat \<Rightarrow> IndexVar \<Rightarrow> bound_map \<Rightarrow> expr list res" where
  "Divide_deriveIterBounds parentVar outerVar innerVar divFactor indexVar parentIterBounds =
     assertR IAssert (indexVar = outerVar \<or> indexVar = innerVar)
       (assertR IAssert (length parentIterBounds = 1 \<and> has_key parentIterBounds parentVar) (
       let parentBound = bounds_of parentIterBounds parentVar in
       bindR (at_index parentBound 0) (\<lambda>lo.
       bindR (factor_literal divFactor (etype lo)) (\<lambda>factor.
         if indexVar = outerVar then
           bindR (Literal_int 0) (\<lambda>minBound. ok [minBound, factor])
         else
           bindR (Div_make lo factor) (\<lambda>minBound.
           bindR (at_index parentBound 1) (\<lambda>hi.
           bindR (factor_minus_one divFactor (etype lo)) (\<lambda>less_one.
           bindR (Add_make hi less_one) (\<lambda>sum.
           bindR (Div_make sum factor) (\<lambda>maxBound. ok [minBound, maxBound])))))))))"

definition Divide_recoverVariable ::
    "IndexVar \<Rightarrow> IndexVar \<Rightarrow> IndexVar \<Rightarrow> nat \<Rightarrow> IndexVar \<Rightarrow> var_map \<Rightarrow> bound_map \<Rightarrow> expr res" where
  "Divide_recoverVariable parentVar outerVar innerVar divFactor indexVar variableNames parentIterBounds =
     assertR IAssert (indexVar = parentVar)
       (assertR IAssert (has_key variableNames parentVar \<and> has_key variableNames outerVar \<and> has_key variableNames innerVar)
         (bindR (var_expr variableNames parentVar) (\<lambda>parent.
          bindR (factor_literal divFactor (etype parent)) (\<lambda>factor.
          bindR (factor_minus_one divFactor (etype parent)) (\<lambda>less_one.
          assertR OutOfRange (has_key parentIterBounds parentVar) (
          let parentBounds = bounds_of parentIterBounds parentVar in
          bindR (at_index parentBounds 1) (\<lambda>hi. bindR (at_index parentBounds 0) (\<lambda>lo.
          bindR (Sub_make hi lo) (\<lambda>dimSize. bindR (Add_make dimSize less_one) (\<lambda>sum.
          bindR (Div_make sum factor) (\<lambda>piece.
          bindR (var_expr variableNames outerVar) (\<lambda>outer. bindR (Mul_make outer piece) (\<lambda>start.
          bindR (var_expr variableNames innerVar) (Add_make start))))))))))))))"

subsection \<open>Fuse\<close>

definition combineParentBounds :: "expr list \<Rightarrow> expr list \<Rightarrow> expr list res" where
  "combineParentBounds outerParentBound innerParentBound =
     bindR (at_index innerParentBound 1) (\<lambda>d. bindR (at_index innerParentBound 0) (\<lambda>c.
     bindR (Sub_make d c) (\<lambda>innerSize.
     bindR (at_index outerParentBound 0) (\<lambda>a. bindR (Mul_make a innerSize) (\<lambda>m. bindR (Add_make m c) (\<lambda>minBound.
     bindR (at_index outerParentBound 1) (\<lambda>b. bindR (Mul_make b innerSize) (\<lambda>m. bindR (Add_make m c) (\<lambda>maxBound.
       ok [minBound, maxBound])))))))))"

definition Fuse_computeRelativeBound :: "IndexVar \<Rightarrow> IndexVar \<Rightarrow> bound_map \<Rightarrow> expr list res" where
  "Fuse_computeRelativeBound outerParentVar innerParentVar computedBounds =
     assertR IAssert (has_key computedBounds outerParentVar \<and> has_key computedBounds innerParentVar)
       (combineParentBounds (bounds_of computedBounds outerParentVar) (bounds_of computedBounds innerParentVar))"

definition Fuse_deriveIterBounds :: "IndexVar \<Rightarrow> IndexVar \<Rightarrow> IndexVar \<Rightarrow> IndexVar \<Rightarrow> bound_map \<Rightarrow> expr list res" where
  "Fuse_deriveIterBounds outerParentVar innerParentVar fusedVar indexVar parentIterBounds =
     assertR IAssert (indexVar = fusedVar)
       (assertR IAssert (has_key parentIterBounds outerParentVar \<and> has_key parentIterBounds innerParentVar)
         (combineParentBounds (bounds_of parentIterBounds outerParentVar) (bounds_of parentIterBounds innerParentVar)))"

definition Fuse_recoverVariable ::
    "ProvenanceGraph \<Rightarrow> IndexVar \<Rightarrow> IndexVar \<Rightarrow> IndexVar \<Rightarrow> IndexVar \<Rightarrow> var_map \<Rightarrow> bound_map \<Rightarrow> expr res" where
  "Fuse_recoverVariable g outerParentVar innerParentVar fusedVar indexVar variableNames parentIterBounds =
     assertR IAssert (has_key variableNames indexVar)
       (assertR IAssert (has_key parentIterBounds innerParentVar) (
       let inner = bounds_of parentIterBounds innerParentVar in
       bindR (at_index inner 1) (\<lambda>hi. bindR (at_index inner 0) (\<lambda>lo. bindR (Sub_make hi lo) (\<lambda>innerSize.
         if indexVar = outerParentVar then
           bindR (var_expr variableNames fusedVar) (\<lambda>fused. Div_make fused innerSize)
         else if indexVar = innerParentVar then
           ifR (andR (hasPosDescendant g fusedVar) (isCoordVariable g innerParentVar))
             (var_expr variableNames fusedVar)
             (bindR (var_expr variableNames fusedVar) (\<lambda>fused. Rem_make fused innerSize))
         else err IError)))))"

subsection \<open>Bound and precompute\<close>

definition parent_bound :: "IndexVar \<Rightarrow> bound_map \<Rightarrow> expr list res" where
  "parent_bound parentVar m = assertR IAssert (has_key m parentVar) (ok (bounds_of m parentVar))"

definition Bound_deriveIterBounds ::
    "IndexVar \<Rightarrow> IndexVar \<Rightarrow> nat \<Rightarrow> BoundType \<Rightarrow> IndexVar \<Rightarrow> bound_map \<Rightarrow> expr list res" where
  "Bound_deriveIterBounds parentVar boundVar bound boundType indexVar parentCoordBounds =
     assertR IAssert (indexVar = boundVar)
       (bindR (parent_bound parentVar parentCoordBounds) (\<lambda>parentCoordBound.
        assertR NotSupported (boundType = MaxExact)
         (bindR (at_index parentCoordBound 0) (\<lambda>lo. bindR (at_index parentCoordBound 1) (\<lambda>hi.
          bindR (factor_literal bound (etype hi)) (\<lambda>b. ok [lo, b]))))))"

definition Precompute_deriveIterBounds :: "IndexVar \<Rightarrow> IndexVar \<Rightarrow> IndexVar \<Rightarrow> bound_map \<Rightarrow> expr list res" where
  "Precompute_deriveIterBounds parentVar precomputeVar indexVar parentIterBounds =
     assertR IAssert (indexVar = precomputeVar) (parent_bound parentVar parentIterBounds)"

text \<open>Bound and precompute variables stand for their parent.\<close>

definition Same_recoverVariable :: "IndexVar \<Rightarrow> IndexVar \<Rightarrow> IndexVar \<Rightarrow> var_map \<Rightarrow> expr res" where
  "Same_recoverVariable parentVar childVar indexVar variableNames =
     assertR IAssert (indexVar = parentVar)
       (assertR IAssert (has_key variableNames childVar) (var_expr variableNames childVar))"

definition Same_recoverChild :: "IndexVar \<Rightarrow> IndexVar \<Rightarrow> IndexVar \<Rightarrow> var_map \<Rightarrow> stmt res" where
  "Same_recoverChild parentVar childVar indexVar variableNames =
     assertR IAssert (indexVar = childVar)
       (assertR IAssert (has_key variableNames parentVar \<and> has_key variableNames childVar)
         (bindR (var_expr variableNames childVar) (\<lambda>child. bindR (var_expr variableNames parentVar) (VarDecl_make child))))"

subsection \<open>Positions\<close>

definition mode_index :: "IndexVar list \<Rightarrow> IndexVar \<Rightarrow> nat" where
  "mode_index vs v = length (takeWhile (\<lambda>w. w \<noteq> v) vs)"

definition max_mode_of :: "Access \<Rightarrow> IndexVar list \<Rightarrow> int res" where
  "max_mode_of access ancestors =
     foldR (\<lambda>v max_mode.
         let i = mode_index (acc_indexVars access) v in
         assertR IAssert (i < length (acc_indexVars access))
           (bindR (at_index (modeOrdering (tv_format (acc_tensorVar access))) i) (\<lambda>mode. ok (max mode max_mode))))
       ancestors 0"

text \<open>The iterator of the lowest level of the access that the parent variable reaches, found by comparing the
  accesses themselves: a statement may have several equal accesses.\<close>

definition getAccessIterator :: "ProvenanceGraph \<Rightarrow> Iterators \<Rightarrow> IndexVar \<Rightarrow> Access \<Rightarrow> Iterator res" where
  "getAccessIterator g iterators parentVar access =
     bindR (getUnderivedAncestors g parentVar) (\<lambda>ancestors.
     bindR (max_mode_of access ancestors) (\<lambda>max_mode.
     bindR (firstR (\<lambda>((a, modePos), it).
              ifR (expr_equals (AccessNode a) (AccessNode access))
                (ok (if int modePos = max_mode + 1 then Some it else None)) (ok None)) (levelIterators iterators))
       (\<lambda>r. case r of Some it \<Rightarrow> ok it | None \<Rightarrow> err IError)))"

definition getAccessCoordArray :: "ProvenanceGraph \<Rightarrow> Iterators \<Rightarrow> IndexVar \<Rightarrow> Access \<Rightarrow> expr res" where
  "getAccessCoordArray g iterators parentVar access =
     bindR (getAccessIterator g iterators parentVar access) (guarded (\<lambda>c. case ic_mode c of
         None \<Rightarrow> err BadMemory
       | Some m \<Rightarrow> getArray (m_pack m) 1))"

text \<open>The bounds of the segment of the parent position.\<close>

definition segment_bounds :: "Iterator \<Rightarrow> expr list res" where
  "segment_bounds it =
     bindR (getParent it) (\<lambda>p. bindR (getPosVar p) (\<lambda>pos. case pos of
         None \<Rightarrow> err BadMemory
       | Some parentPos \<Rightarrow> bindR (it_posBounds it parentPos) (\<lambda>mf. case mf of
             None \<Rightarrow> err BadMemory
           | Some f \<Rightarrow> ok (mf_results f))))"

definition search_call :: "expr \<Rightarrow> expr list \<Rightarrow> expr \<Rightarrow> Datatype \<Rightarrow> expr res" where
  "search_call coordArray segment target t =
     bindR (at_index segment 0) (\<lambda>arrayStart. bindR (at_index segment 1) (\<lambda>arrayEnd.
       ok (Call_make ''taco_binarySearchAfter'' [coordArray, arrayStart, arrayEnd, target] t)))"

definition is_dimension_property :: "expr \<Rightarrow> bool" where
  "is_dimension_property e = (case e of GetProperty _ _ _ p _ _ _ \<Rightarrow> p = PDimension | _ \<Rightarrow> False)"

definition locateBounds ::
    "fpu \<Rightarrow> ProvenanceGraph \<Rightarrow> Iterators \<Rightarrow> IndexVar \<Rightarrow> Access \<Rightarrow> expr list \<Rightarrow> Datatype \<Rightarrow> expr list res" where
  "locateBounds F g iterators parentVar access parentBounds boundType =
     bindR (getAccessIterator g iterators parentVar access) (\<lambda>it.
     bindR (segment_bounds it) (\<lambda>segment.
     bindR (getAccessCoordArray g iterators parentVar access) (\<lambda>coords.
     bindR (at_index parentBounds 0) (\<lambda>lo. bindR (at_index parentBounds 1) (\<lambda>hi.
     bindR (search_call coords segment lo boundType) (\<lambda>search_start.
     bindR (simplify F lo) (\<lambda>slo.
     bindR (ifR (literal_is F slo 0) (at_index segment 0) (ok search_start)) (\<lambda>start.
     bindR (search_call coords segment hi boundType) (\<lambda>search_end.
     bindR (simplify F hi) (\<lambda>shi.
     bindR (if is_dimension_property shi then at_index segment 1 else ok search_end) (\<lambda>end.
       ok [start, end])))))))))))"

text \<open>The iterators from the root to an iterator, and the number of positions at its level: the walk down the
  chain stops at the first iterator equal to it.\<close>

fun root_chain :: "Iterator \<Rightarrow> Iterator list" where
  "root_chain NoIterator = []"
| "root_chain (Iterator c p s) = root_chain p @ [Iterator c p s]"

fun chain_size :: "Iterator \<Rightarrow> Iterator list \<Rightarrow> expr \<Rightarrow> expr res" where
  "chain_size access [] parentSize = err BadMemory"
| "chain_size access (it # below) parentSize =
     ifR (it_eq it access) (ok parentSize)
       (case below of
          [] \<Rightarrow> err IAssert
        | child # _ \<Rightarrow>
            bindR (ifR (it_hasAppend child)
                     (bindR (it_getSize child parentSize) (\<lambda>e. case e of None \<Rightarrow> err BadMemory | Some sz \<Rightarrow> ok sz))
                     (ifR (it_hasInsert child) (bindR (it_getWidth child) (Mul_make parentSize)) (ok parentSize)))
              (chain_size access below))"

definition Pos_deriveIterBounds ::
    "fpu \<Rightarrow> ProvenanceGraph \<Rightarrow> Iterators \<Rightarrow> IndexVar \<Rightarrow> IndexVar \<Rightarrow> Access \<Rightarrow> IndexVar \<Rightarrow> bound_map \<Rightarrow> var_map \<Rightarrow>
     expr list res" where
  "Pos_deriveIterBounds F g iterators parentVar posVar access indexVar parentCoordBounds variableNames =
     assertR IAssert (indexVar = posVar)
       (bindR (parent_bound parentVar parentCoordBounds) (\<lambda>parentCoordBound.
        bindR (getUnderivedAncestors g indexVar) (\<lambda>ancestors.
          if length ancestors > 1 then
            bindR (getAccessIterator g iterators parentVar access) (\<lambda>it.
            bindR (Literal_int 1) (\<lambda>one. bindR (chain_size it (root_chain it) one) (\<lambda>parentSize.
            bindR (Literal_int 0) (\<lambda>zero. ok [zero, parentSize]))))
          else
            bindR (var_expr variableNames posVar) (\<lambda>pos.
              locateBounds F g iterators parentVar access parentCoordBound (etype pos)))))"

definition Pos_recoverVariable ::
    "ProvenanceGraph \<Rightarrow> Iterators \<Rightarrow> IndexVar \<Rightarrow> IndexVar \<Rightarrow> Access \<Rightarrow> IndexVar \<Rightarrow> var_map \<Rightarrow> bound_map \<Rightarrow> expr res" where
  "Pos_recoverVariable g iterators parentVar posVar access indexVar variableNames parentCoordBounds =
     assertR IAssert (indexVar = parentVar)
       (assertR IAssert (has_key variableNames parentVar \<and> has_key variableNames posVar)
         (assertR IAssert (has_key parentCoordBounds parentVar)
           (bindR (getAccessCoordArray g iterators parentVar access) (\<lambda>coord_array.
            bindR (getAccessIterator g iterators parentVar access) (\<lambda>it.
            bindR (segment_bounds it) (\<lambda>_.
            bindR (var_expr variableNames posVar) (\<lambda>pos. bindR (Load_make coord_array pos) (\<lambda>project_result.
            bindR (at_index (bounds_of parentCoordBounds parentVar) 0) (Sub_make project_result)))))))))"

definition Pos_recoverChild ::
    "ProvenanceGraph \<Rightarrow> Iterators \<Rightarrow> IndexVar \<Rightarrow> IndexVar \<Rightarrow> Access \<Rightarrow> IndexVar \<Rightarrow> var_map \<Rightarrow> stmt res" where
  "Pos_recoverChild g iterators parentVar posVar access indexVar variableNames =
     assertR IAssert (indexVar = posVar)
       (assertR IAssert (has_key variableNames parentVar \<and> has_key variableNames posVar)
         (bindR (var_expr variableNames posVar) (\<lambda>pos.
          bindR (getAccessIterator g iterators parentVar access) (\<lambda>it.
          bindR (segment_bounds it) (\<lambda>segment.
          bindR (getAccessCoordArray g iterators parentVar access) (\<lambda>coords.
          bindR (var_expr variableNames parentVar) (\<lambda>parent.
          bindR (search_call coords segment parent (etype pos)) (VarDecl_make pos))))))))"

subsection \<open>The methods of a relation\<close>

text \<open>The methods a class does not override fail with an internal error; there is none here.\<close>

fun rel_computeRelativeBound ::
    "ProvenanceGraph \<Rightarrow> IndexVarRel \<Rightarrow> IndexVar list \<Rightarrow> bound_map \<Rightarrow> var_map \<Rightarrow> expr list res" where
  "rel_computeRelativeBound g UndefinedRel definedVars computed exprs = err BadMemory"
| "rel_computeRelativeBound g (SplitRel p oo i n) definedVars computed exprs =
     Split_computeRelativeBound g p oo i n definedVars computed exprs"
| "rel_computeRelativeBound g (DivideRel p oo i n) definedVars computed exprs =
     Divide_computeRelativeBound g p oo i n definedVars computed exprs"
| "rel_computeRelativeBound g (PosRel p v a) definedVars computed exprs = parent_bound p computed"
| "rel_computeRelativeBound g (FuseRel oo i f) definedVars computed exprs = Fuse_computeRelativeBound oo i computed"
| "rel_computeRelativeBound g (BoundRel p v n t) definedVars computed exprs = parent_bound p computed"
| "rel_computeRelativeBound g (PrecomputeRel p v) definedVars computed exprs = parent_bound p computed"

fun rel_deriveIterBounds ::
    "fpu \<Rightarrow> ProvenanceGraph \<Rightarrow> Iterators \<Rightarrow> IndexVarRel \<Rightarrow> IndexVar \<Rightarrow> bound_map \<Rightarrow> bound_map \<Rightarrow> var_map \<Rightarrow>
     expr list res" where
  "rel_deriveIterBounds F g its UndefinedRel v iter coord names = err BadMemory"
| "rel_deriveIterBounds F g its (SplitRel p oo i n) v iter coord names = Split_deriveIterBounds p oo i n v iter"
| "rel_deriveIterBounds F g its (DivideRel p oo i n) v iter coord names = Divide_deriveIterBounds p oo i n v iter"
| "rel_deriveIterBounds F g its (PosRel p w a) v iter coord names = Pos_deriveIterBounds F g its p w a v coord names"
| "rel_deriveIterBounds F g its (FuseRel oo i f) v iter coord names = Fuse_deriveIterBounds oo i f v iter"
| "rel_deriveIterBounds F g its (BoundRel p w n t) v iter coord names = Bound_deriveIterBounds p w n t v coord"
| "rel_deriveIterBounds F g its (PrecomputeRel p w) v iter coord names = Precompute_deriveIterBounds p w v iter"

fun rel_recoverVariable ::
    "ProvenanceGraph \<Rightarrow> Iterators \<Rightarrow> IndexVarRel \<Rightarrow> IndexVar \<Rightarrow> var_map \<Rightarrow> bound_map \<Rightarrow> bound_map \<Rightarrow> expr res" where
  "rel_recoverVariable g its UndefinedRel v names iter coord = err BadMemory"
| "rel_recoverVariable g its (SplitRel p oo i n) v names iter coord = Split_recoverVariable p oo i n v names"
| "rel_recoverVariable g its (DivideRel p oo i n) v names iter coord = Divide_recoverVariable p oo i n v names iter"
| "rel_recoverVariable g its (PosRel p w a) v names iter coord = Pos_recoverVariable g its p w a v names coord"
| "rel_recoverVariable g its (FuseRel oo i f) v names iter coord = Fuse_recoverVariable g oo i f v names iter"
| "rel_recoverVariable g its (BoundRel p w n t) v names iter coord = Same_recoverVariable p w v names"
| "rel_recoverVariable g its (PrecomputeRel p w) v names iter coord = Same_recoverVariable p w v names"

fun rel_recoverChild ::
    "ProvenanceGraph \<Rightarrow> Iterators \<Rightarrow> IndexVarRel \<Rightarrow> IndexVar \<Rightarrow> var_map \<Rightarrow> bool \<Rightarrow> stmt res" where
  "rel_recoverChild g its UndefinedRel v names emitVarDecl = err BadMemory"
| "rel_recoverChild g its (SplitRel p oo i n) v names emitVarDecl = Split_recoverChild p oo i n v names emitVarDecl"
| "rel_recoverChild g its (DivideRel p oo i n) v names emitVarDecl = err NotSupported"
| "rel_recoverChild g its (PosRel p w a) v names emitVarDecl = Pos_recoverChild g its p w a v names"
| "rel_recoverChild g its (FuseRel oo i f) v names emitVarDecl = err NotSupported"
| "rel_recoverChild g its (BoundRel p w n t) v names emitVarDecl = Same_recoverChild p w v names"
| "rel_recoverChild g its (PrecomputeRel p w) v names emitVarDecl = Same_recoverChild p w v names"

subsection \<open>Along the graph\<close>

fun relative_bounds_upto ::
    "nat \<Rightarrow> ProvenanceGraph \<Rightarrow> IndexVar list \<Rightarrow> var_map \<Rightarrow> IndexVar \<Rightarrow> bound_map \<Rightarrow> bound_map res" where
  "relative_bounds_upto 0 g alreadyDefined exprs v bounds = err NoReturn"
| "relative_bounds_upto (Suc n) g alreadyDefined exprs v bounds =
     (if isUnderived g v then assertR IAssert (has_key bounds v) (ok bounds)
      else bindR (foldR (relative_bounds_upto n g alreadyDefined exprs) (getParents g v) bounds) (\<lambda>bounds'.
           bindR (rel_at (parentRelMap g) v) (\<lambda>rel.
           bindR (rel_computeRelativeBound g rel alreadyDefined bounds' exprs) (\<lambda>b. ok (set_bounds v b bounds')))))"

definition addRelativeBoundsToMap ::
    "ProvenanceGraph \<Rightarrow> IndexVar list \<Rightarrow> var_map \<Rightarrow> IndexVar \<Rightarrow> bound_map \<Rightarrow> bound_map res" where
  "addRelativeBoundsToMap g = relative_bounds_upto (depth g) g"

definition computeBoundsForUnderivedAncestors ::
    "ProvenanceGraph \<Rightarrow> IndexVar \<Rightarrow> bound_map \<Rightarrow> bound_map \<Rightarrow> bound_map res" where
  "computeBoundsForUnderivedAncestors g v relativeBounds computedBounds =
     bindR (getUnderivedAncestors g v) (\<lambda>ancestors. bindR (at_index ancestors 0) (\<lambda>u.
       ok (set_bounds u (bounds_of relativeBounds v) computedBounds)))"

text \<open>Every variable but the last one is defined, with what it makes recoverable, before its bounds are
  computed.\<close>

definition derive_step ::
    "ProvenanceGraph \<Rightarrow> IndexVar list \<Rightarrow> bound_map \<Rightarrow> var_map \<Rightarrow> IndexVar \<Rightarrow>
     IndexVar list \<times> bound_map \<Rightarrow> (IndexVar list \<times> bound_map) res" where
  "derive_step g derivedVarOrder underivedBounds exprs v s =
     bindR (if v \<noteq> last derivedVarOrder then
              bindR (newlyRecoverableParents g v (fst s)) (\<lambda>recoverable.
                ok (List.insert v (fold List.insert recoverable (fst s))))
            else ok (fst s)) (\<lambda>defined.
       if isUnderived g v then ok (defined, snd s)
       else bindR (addRelativeBoundsToMap g defined exprs v underivedBounds) (\<lambda>relativeBounds.
            bindR (computeBoundsForUnderivedAncestors g v relativeBounds (snd s)) (\<lambda>computed.
              ok (defined, computed))))"

definition deriveCoordBounds ::
    "ProvenanceGraph \<Rightarrow> IndexVar list \<Rightarrow> bound_map \<Rightarrow> var_map \<Rightarrow> bound_map res" where
  "deriveCoordBounds g derivedVarOrder underivedBounds exprs =
     bindR (foldR (derive_step g derivedVarOrder underivedBounds exprs) derivedVarOrder ([], underivedBounds))
       (\<lambda>s. ok (snd s))"

definition coord_bounds_of ::
    "ProvenanceGraph \<Rightarrow> IndexVar list \<Rightarrow> bound_map \<Rightarrow> var_map \<Rightarrow> IndexVar \<Rightarrow> expr list res" where
  "coord_bounds_of g order underivedBounds exprs v =
     bindR (getUnderivedAncestors g v) (\<lambda>ancestors. bindR (at_index ancestors 0) (\<lambda>u.
     bindR (deriveCoordBounds g order underivedBounds exprs) (\<lambda>computed. ok (bounds_of computed u))))"

fun iter_bounds_upto ::
    "nat \<Rightarrow> fpu \<Rightarrow> ProvenanceGraph \<Rightarrow> Iterators \<Rightarrow> IndexVar list \<Rightarrow> bound_map \<Rightarrow> var_map \<Rightarrow> IndexVar \<Rightarrow>
     expr list res" where
  "iter_bounds_upto 0 F g its order underivedBounds names v = err NoReturn"
| "iter_bounds_upto (Suc n) F g its order underivedBounds names v =
     (if isUnderived g v then parent_bound v underivedBounds
      else assertR IAssert (v \<notin> set (butlast order))
        (bindR (foldR (\<lambda>p (iter, coord).
             bindR (iter_bounds_upto n F g its order underivedBounds names p) (\<lambda>ib.
             bindR (coord_bounds_of g (butlast order) underivedBounds names p) (\<lambda>cb.
               ok (set_bounds p ib iter, set_bounds p cb coord)))) (getParents g v) ([], [])) (\<lambda>(iter, coord).
         bindR (rel_at (parentRelMap g) v) (\<lambda>rel. rel_deriveIterBounds F g its rel v iter coord names))))"

definition deriveIterBounds ::
    "fpu \<Rightarrow> ProvenanceGraph \<Rightarrow> Iterators \<Rightarrow> IndexVar list \<Rightarrow> bound_map \<Rightarrow> var_map \<Rightarrow> IndexVar \<Rightarrow> expr list res" where
  "deriveIterBounds F g = iter_bounds_upto (depth g) F g"

definition recoverVariable ::
    "fpu \<Rightarrow> ProvenanceGraph \<Rightarrow> Iterators \<Rightarrow> IndexVar list \<Rightarrow> bound_map \<Rightarrow> var_map \<Rightarrow> IndexVar \<Rightarrow> expr option res" where
  "recoverVariable F g its definedVarOrder underivedBounds childVariables v =
     (if isFullyDerived g v then ok None
      else bindR (rel_at (childRelMap g) v) (\<lambda>rel. bindR (rel_getParents rel) (\<lambda>parents.
        bindR (foldR (\<lambda>p (iter, coord).
             bindR (deriveIterBounds F g its definedVarOrder underivedBounds childVariables p) (\<lambda>ib.
             bindR (coord_bounds_of g definedVarOrder underivedBounds childVariables p) (\<lambda>cb.
               ok (set_bounds p ib iter, set_bounds p cb coord)))) parents ([], [])) (\<lambda>(iter, coord).
          bindR (rel_recoverVariable g its rel v childVariables iter coord) (\<lambda>e. ok (Some e))))))"

definition recoverChild ::
    "ProvenanceGraph \<Rightarrow> Iterators \<Rightarrow> IndexVar \<Rightarrow> var_map \<Rightarrow> bool \<Rightarrow> stmt option res" where
  "recoverChild g its v relVariables emitVarDecl =
     (if isUnderived g v then ok None
      else bindR (rel_at (parentRelMap g) v) (\<lambda>rel.
           bindR (rel_recoverChild g its rel v relVariables emitVarDecl) (\<lambda>s. ok (Some s))))"

end
