(* ===== verification/Provenance_Walks.thy ===== *)
theory Provenance_Walks
  imports Provenance
begin

text \<open>
  The provenance graphs the constructor builds are consistent, the walks return on graphs without cycles, and
  what the queries about derivation and recovery answer there.
\<close>

subsection \<open>Consistent graphs\<close>

text \<open>The maps of a graph agree with the relations they were filled from.\<close>

definition consistent :: "ProvenanceGraph \<Rightarrow> bool" where
  "consistent g \<longleftrightarrow>
     (\<forall>v ps. parentsMap g v = Some ps \<longrightarrow>
        v \<in> set (pg_nodes g) \<and> set ps \<subseteq> set (pg_nodes g) \<and>
        (\<exists>rel cs. parentRelMap g v = Some rel \<and> rel_getParents rel = ok ps \<and> rel_getChildren rel = ok cs \<and> v \<in> set cs)) \<and>
     (\<forall>v cs. childrenMap g v = Some cs \<longrightarrow>
        v \<in> set (pg_nodes g) \<and> set cs \<subseteq> set (pg_nodes g) \<and>
        (\<exists>rel ps. childRelMap g v = Some rel \<and> rel_getChildren rel = ok cs \<and> rel_getParents rel = ok ps \<and> v \<in> set ps)) \<and>
     (\<forall>v. (parentRelMap g v = None) = (parentsMap g v = None)) \<and>
     (\<forall>v. (childRelMap g v = None) = (childrenMap g v = None))"

text \<open>Adding a relation fills the maps of its parents and of its children.\<close>

lemma fold_add_parent:
  "fold (add_parent rel cs) ps g =
     g\<lparr>pg_nodes := fold List.insert ps (pg_nodes g),
       childRelMap := (\<lambda>v. if v \<in> set ps then Some rel else childRelMap g v),
       childrenMap := (\<lambda>v. if v \<in> set ps then Some cs else childrenMap g v)\<rparr>"
  by (induction ps arbitrary: g) (auto simp: add_parent_def add_node_def fun_eq_iff intro!: ProvenanceGraph.equality)

lemma fold_add_child:
  "fold (add_child rel ps) cs g =
     g\<lparr>pg_nodes := fold List.insert cs (pg_nodes g),
       parentRelMap := (\<lambda>v. if v \<in> set cs then Some rel else parentRelMap g v),
       parentsMap := (\<lambda>v. if v \<in> set cs then Some ps else parentsMap g v)\<rparr>"
  by (induction cs arbitrary: g) (auto simp: add_child_def add_node_def fun_eq_iff intro!: ProvenanceGraph.equality)

lemma set_fold_insert [simp]: "set (fold List.insert xs ys) = set xs \<union> set ys"
  by (induction xs arbitrary: ys) auto

lemma add_relation_consistent:
  assumes "consistent g" "add_relation rel g = ok g'"
  shows "consistent g'"
proof -
  from assms(2) obtain ps cs where r: "rel_getParents rel = ok ps" "rel_getChildren rel = ok cs"
    and g': "g' = fold (add_child rel ps) cs (fold (add_parent rel cs) ps g)"
    by (auto simp: add_relation_def res_simps)
  show ?thesis
    using assms(1) r unfolding consistent_def g' fold_add_parent fold_add_child
    by (simp split: if_splits) (blast+)?
qed

lemma add_node_consistent: "consistent g \<Longrightarrow> consistent (add_node v g)"
  unfolding consistent_def add_node_def by (simp add: subset_insertI2)

lemma add_nodes_consistent: "consistent g \<Longrightarrow> consistent (fold add_node vs g)"
  by (induction vs arbitrary: g) (auto intro: add_node_consistent)

lemma empty_consistent: "consistent empty_graph"
  by (simp add: consistent_def empty_graph_def)

lemma foldR_invariant:
  "foldR f xs s = ok t \<Longrightarrow> P s \<Longrightarrow> (\<And>x s t. f x s = ok t \<Longrightarrow> P s \<Longrightarrow> P t) \<Longrightarrow> P t"
  by (induction xs arbitrary: s) (auto simp: res_simps)

lemma make_consistent: "ProvenanceGraph_make s = ok g \<Longrightarrow> consistent g"
  by (auto simp: ProvenanceGraph_make_def Let_def intro!: add_nodes_consistent add_node_consistent empty_consistent
      elim!: foldR_invariant split: IndexStmt.splits intro: add_relation_consistent)

lemma getParents_relation:
  assumes "consistent g" "getParents g v \<noteq> []"
  shows "\<exists>rel. rel_at (parentRelMap g) v = ok rel \<and> rel_getParents rel = ok (getParents g v)"
  using assms by (force simp: consistent_def getParents_def rel_at_def split: option.splits)

lemma getChildren_relation:
  assumes "consistent g" "getChildren g v \<noteq> []"
  shows "\<exists>rel. rel_at (childRelMap g) v = ok rel \<and> rel_getChildren rel = ok (getChildren g v)"
  using assms by (force simp: consistent_def getChildren_def rel_at_def split: option.splits)

lemma irregulars_total: "rel_getParents rel = ok ps \<Longrightarrow> \<exists>is. rel_getIrregulars rel = ok is"
    "rel_getChildren rel = ok ps \<Longrightarrow> \<exists>is. rel_getIrregulars rel = ok is"
  by (cases rel; simp)+

subsection \<open>Graphs without cycles\<close>

definition parent_edges :: "ProvenanceGraph \<Rightarrow> (IndexVar \<times> IndexVar) set" where
  "parent_edges g = {(v, p). p \<in> set (getParents g v)}"

definition child_edges :: "ProvenanceGraph \<Rightarrow> (IndexVar \<times> IndexVar) set" where
  "child_edges g = {(v, c). c \<in> set (getChildren g v)}"

text \<open>A rank that grows from parents to children along both maps.\<close>

definition ranked :: "ProvenanceGraph \<Rightarrow> (IndexVar \<Rightarrow> nat) \<Rightarrow> bool" where
  "ranked g rank \<longleftrightarrow>
     (\<forall>v. \<forall>p \<in> set (getParents g v). rank p < rank v) \<and> (\<forall>v. \<forall>c \<in> set (getChildren g v). rank v < rank c)"

lemma rtrancl_unfold_left: "(v, a) \<in> r\<^sup>* \<longleftrightarrow> a = v \<or> (\<exists>u. (v, u) \<in> r \<and> (u, a) \<in> r\<^sup>*)"
  by (auto elim: converse_rtranclE intro: converse_rtrancl_into_rtrancl)

text \<open>The number of variables below and above a variable: the length of a walk from it.\<close>

definition up_height :: "ProvenanceGraph \<Rightarrow> (IndexVar \<Rightarrow> nat) \<Rightarrow> IndexVar \<Rightarrow> nat" where
  "up_height g rank v = card {u \<in> set (pg_nodes g). rank u < rank v}"

definition down_height :: "ProvenanceGraph \<Rightarrow> (IndexVar \<Rightarrow> nat) \<Rightarrow> IndexVar \<Rightarrow> nat" where
  "down_height g rank v = card {u \<in> set (pg_nodes g). rank v < rank u}"

lemma parents_in_nodes: "consistent g \<Longrightarrow> p \<in> set (getParents g v) \<Longrightarrow> p \<in> set (pg_nodes g)"
  by (cases "parentsMap g v") (auto simp: consistent_def getParents_def subset_eq)

lemma children_in_nodes: "consistent g \<Longrightarrow> c \<in> set (getChildren g v) \<Longrightarrow> c \<in> set (pg_nodes g)"
  by (cases "childrenMap g v") (auto simp: consistent_def getChildren_def subset_eq)

lemma up_height_parent:
  assumes "consistent g" "ranked g rank" "p \<in> set (getParents g v)"
  shows "up_height g rank p < up_height g rank v"
proof -
  have "rank p < rank v" using assms by (auto simp: ranked_def)
  then have "{u \<in> set (pg_nodes g). rank u < rank p} \<subset> {u \<in> set (pg_nodes g). rank u < rank v}"
    using parents_in_nodes [OF assms(1,3)] by auto
  then show ?thesis unfolding up_height_def by (rule psubset_card_mono [rotated]) simp
qed

lemma down_height_child:
  assumes "consistent g" "ranked g rank" "c \<in> set (getChildren g v)"
  shows "down_height g rank c < down_height g rank v"
proof -
  have "rank v < rank c" using assms by (auto simp: ranked_def)
  then have "{u \<in> set (pg_nodes g). rank c < rank u} \<subset> {u \<in> set (pg_nodes g). rank v < rank u}"
    using children_in_nodes [OF assms(1,3)] by auto
  then show ?thesis unfolding down_height_def by (rule psubset_card_mono [rotated]) simp
qed

lemma height_depth: "up_height g rank v < depth g" "down_height g rank v < depth g"
proof -
  have "card {u \<in> set (pg_nodes g). P u} \<le> length (pg_nodes g)" for P
    by (metis (no_types, lifting) card_length card_mono finite_set le_trans mem_Collect_eq subsetI)
  from this [of "\<lambda>u. rank u < rank v"] this [of "\<lambda>u. rank v < rank u"]
  show "up_height g rank v < depth g" "down_height g rank v < depth g"
    by (auto simp: up_height_def down_height_def depth_def less_Suc_eq_le)
qed

subsection \<open>Ancestors and descendants\<close>

lemma underived_walk:
  assumes "consistent g" "ranked g rank" "up_height g rank v < n"
  shows "\<exists>vs. underived_upto n g v = ok vs \<and> set vs = {a. (v, a) \<in> (parent_edges g)\<^sup>* \<and> isUnderived g a}"
  using assms(3)
proof (induction n arbitrary: v)
  case (Suc n)
  show ?case
  proof (cases "getParents g v = []")
    case True
    then have "(v, a) \<in> (parent_edges g)\<^sup>* \<longleftrightarrow> a = v" for a
      by (auto simp: parent_edges_def elim: converse_rtranclE)
    with True show ?thesis by (auto simp: isUnderived_def)
  next
    case False
    have "\<exists>vs. underived_upto n g p = ok vs \<and> set vs = {a. (p, a) \<in> (parent_edges g)\<^sup>* \<and> isUnderived g a}"
      if "p \<in> set (getParents g v)" for p
      using Suc.IH [of p] Suc.prems up_height_parent [OF assms(1,2) that] by simp
    from concatR_pure [of "getParents g v" "underived_upto n g"
        "\<lambda>p. {a. (p, a) \<in> (parent_edges g)\<^sup>* \<and> isUnderived g a}", OF this]
    obtain vs where vs: "concatR (underived_upto n g) (getParents g v) = ok vs"
      "set vs = (\<Union>p \<in> set (getParents g v). {a. (p, a) \<in> (parent_edges g)\<^sup>* \<and> isUnderived g a})" by blast
    have "(v, a) \<in> (parent_edges g)\<^sup>* \<longleftrightarrow> a = v \<or> (\<exists>p \<in> set (getParents g v). (p, a) \<in> (parent_edges g)\<^sup>*)" for a
      by (subst rtrancl_unfold_left) (auto simp: parent_edges_def)
    with False have "set vs = {a. (v, a) \<in> (parent_edges g)\<^sup>* \<and> isUnderived g a}"
      unfolding vs(2) by (auto simp: isUnderived_def)
    with vs(1) False show ?thesis by simp
  qed
qed simp

lemma fully_derived_walk:
  assumes "consistent g" "ranked g rank" "down_height g rank v < n"
  shows "\<exists>vs. fully_derived_upto n g v = ok vs \<and> set vs = {d. (v, d) \<in> (child_edges g)\<^sup>* \<and> isFullyDerived g d}"
  using assms(3)
proof (induction n arbitrary: v)
  case (Suc n)
  show ?case
  proof (cases "getChildren g v = []")
    case True
    then have "(v, a) \<in> (child_edges g)\<^sup>* \<longleftrightarrow> a = v" for a
      by (auto simp: child_edges_def elim: converse_rtranclE)
    with True show ?thesis by (auto simp: isFullyDerived_def)
  next
    case False
    have "\<exists>vs. fully_derived_upto n g c = ok vs \<and> set vs = {d. (c, d) \<in> (child_edges g)\<^sup>* \<and> isFullyDerived g d}"
      if "c \<in> set (getChildren g v)" for c
      using Suc.IH [of c] Suc.prems down_height_child [OF assms(1,2) that] by simp
    from concatR_pure [of "getChildren g v" "fully_derived_upto n g"
        "\<lambda>c. {d. (c, d) \<in> (child_edges g)\<^sup>* \<and> isFullyDerived g d}", OF this]
    obtain vs where vs: "concatR (fully_derived_upto n g) (getChildren g v) = ok vs"
      "set vs = (\<Union>c \<in> set (getChildren g v). {d. (c, d) \<in> (child_edges g)\<^sup>* \<and> isFullyDerived g d})" by blast
    have "(v, d) \<in> (child_edges g)\<^sup>* \<longleftrightarrow> d = v \<or> (\<exists>c \<in> set (getChildren g v). (c, d) \<in> (child_edges g)\<^sup>*)" for d
      by (subst rtrancl_unfold_left) (auto simp: child_edges_def)
    with False have "set vs = {d. (v, d) \<in> (child_edges g)\<^sup>* \<and> isFullyDerived g d}"
      unfolding vs(2) by (auto simp: isFullyDerived_def)
    with vs(1) False show ?thesis by simp
  qed
qed simp

text \<open>A variable ranges over positions if it, or a variable it derives from, is the position variable of an
  access.\<close>

definition pos_edge :: "ProvenanceGraph \<Rightarrow> IndexVar \<Rightarrow> bool" where
  "pos_edge g v \<longleftrightarrow> (case parentRelMap g v of Some rel \<Rightarrow> getRelType rel = POS | None \<Rightarrow> False)"

lemma pos_walk:
  assumes "consistent g" "ranked g rank" "up_height g rank v < n"
  shows "isPosVariable_upto n g v =
    ok (\<exists>u. (v, u) \<in> (parent_edges g)\<^sup>* \<and> getParents g u \<noteq> [] \<and> pos_edge g u)"
  using assms(3)
proof (induction n arbitrary: v)
  case (Suc n)
  let ?P = "\<lambda>v. \<exists>u. (v, u) \<in> (parent_edges g)\<^sup>* \<and> getParents g u \<noteq> [] \<and> pos_edge g u"
  have step: "?P v \<longleftrightarrow> getParents g v \<noteq> [] \<and> pos_edge g v \<or> (\<exists>p \<in> set (getParents g v). ?P p)"
    by (subst rtrancl_unfold_left) (auto simp: parent_edges_def)
  show ?case
  proof (cases "getParents g v = []")
    case True
    with step show ?thesis by (simp add: isUnderived_def)
  next
    case False
    from getParents_relation [OF assms(1) False] obtain rel where
      rel: "rel_at (parentRelMap g) v = ok rel" by blast
    then have pos: "pos_edge g v \<longleftrightarrow> getRelType rel = POS"
      by (auto simp: rel_at_def pos_edge_def split: option.splits)
    have "anyR (isPosVariable_upto n g) (getParents g v) = ok (\<exists>p \<in> set (getParents g v). ?P p)"
    proof (rule anyR_pure)
      fix p assume "p \<in> set (getParents g v)"
      with up_height_parent [OF assms(1,2) this] Suc.prems show "isPosVariable_upto n g p = ok (?P p)"
        by (intro Suc.IH) simp
    qed
    with False rel pos step show ?thesis by (simp add: isUnderived_def)
  qed
qed simp

text \<open>A variable is recoverable from defined ones if no variable without children is reached from it through
  undefined variables only. The precompute relations, which cut the walk short, are left aside.\<close>

definition undefined_edges :: "ProvenanceGraph \<Rightarrow> IndexVar list \<Rightarrow> (IndexVar \<times> IndexVar) set" where
  "undefined_edges g defined = {(v, c). c \<in> set (getChildren g v) \<and> c \<notin> set defined}"

lemma recoverable_walk:
  assumes "consistent g" "ranked g rank" "down_height g rank v < n"
  shows "isRecoverablePrecompute_upto n g defined [] [] v =
    ok (\<not> (\<exists>u. (v, u) \<in> (undefined_edges g defined)\<^sup>+ \<and> isFullyDerived g u))"
  using assms(3)
proof (induction n arbitrary: v)
  case (Suc n)
  let ?E = "undefined_edges g defined"
  let ?lost = "\<lambda>v. \<exists>u. (v, u) \<in> ?E\<^sup>+ \<and> isFullyDerived g u"
  have step: "?lost v \<longleftrightarrow> (\<exists>c \<in> set (getChildren g v). c \<notin> set defined \<and> (isFullyDerived g c \<or> ?lost c))"
    by (auto simp: undefined_edges_def elim: converse_tranclE intro: trancl_into_trancl2)
  have "allR (\<lambda>c. if c \<in> set defined then ok True else if isFullyDerived g c then ok False
               else isRecoverablePrecompute_upto n g defined [] [] c) (getChildren g v) =
      ok (\<forall>c \<in> set (getChildren g v). c \<in> set defined \<or> \<not> (isFullyDerived g c \<or> ?lost c))"
  proof (rule allR_pure)
    fix c assume c: "c \<in> set (getChildren g v)"
    with down_height_child [OF assms(1,2) c] Suc.prems
    have "isRecoverablePrecompute_upto n g defined [] [] c = ok (\<not> ?lost c)"
      by (intro Suc.IH) simp
    then show "(if c \<in> set defined then ok True else if isFullyDerived g c then ok False
               else isRecoverablePrecompute_upto n g defined [] [] c) =
        ok (c \<in> set defined \<or> \<not> (isFullyDerived g c \<or> ?lost c))" by simp
  qed
  with step show ?case by auto
qed simp

subsection \<open>Properties\<close>

text \<open>(C37) On the graph of a scheduled statement without cyclic relations the search for the ancestors that are
  not derived returns, and it finds exactly the underived variables from which the variable derives.\<close>

theorem underived_ancestors_found:
  assumes "ProvenanceGraph_make s = ok g" "ranked g rank"
  shows "\<exists>vs. getUnderivedAncestors g v = ok vs \<and>
    set vs = {a. (v, a) \<in> (parent_edges g)\<^sup>* \<and> isUnderived g a}"
  unfolding getUnderivedAncestors_def
  by (rule underived_walk [OF make_consistent [OF assms(1)] assms(2) height_depth(1)])

text \<open>A schedule that splits \<open>i\<close>, and the inner variable once more; its addresses rank the variables.\<close>

definition split_vars :: "nat \<Rightarrow> IndexVar" where
  "split_vars n = IndexVar n (''i'' @ show_nat n)"

definition split_schedule :: IndexStmt where
  "split_schedule =
     SuchThatNode
       (ForallNode (split_vars 1) (ForallNode (split_vars 3) (ForallNode (split_vars 4)
          (YieldNode [] (LiteralNode Int32 0)) NotParallel NoRaces 0) NotParallel NoRaces 0) NotParallel NoRaces 0)
       [SplitRel (split_vars 0) (split_vars 1) (split_vars 2) 4, SplitRel (split_vars 2) (split_vars 3) (split_vars 4) 2]"

lemma split_vars_eq [simp]: "split_vars m = split_vars n \<longleftrightarrow> m = n" "iv_addr (split_vars n) = n"
  by (auto simp: split_vars_def)

definition split_graph :: ProvenanceGraph where
  "split_graph =
     \<lparr>pg_nodes = map split_vars [2, 0, 4, 3, 1],
      childRelMap = [split_vars 0 \<mapsto> SplitRel (split_vars 0) (split_vars 1) (split_vars 2) 4,
                     split_vars 2 \<mapsto> SplitRel (split_vars 2) (split_vars 3) (split_vars 4) 2],
      parentRelMap = [split_vars 1 \<mapsto> SplitRel (split_vars 0) (split_vars 1) (split_vars 2) 4,
                      split_vars 2 \<mapsto> SplitRel (split_vars 0) (split_vars 1) (split_vars 2) 4,
                      split_vars 3 \<mapsto> SplitRel (split_vars 2) (split_vars 3) (split_vars 4) 2,
                      split_vars 4 \<mapsto> SplitRel (split_vars 2) (split_vars 3) (split_vars 4) 2],
      parentsMap = [split_vars 1 \<mapsto> [split_vars 0], split_vars 2 \<mapsto> [split_vars 0],
                    split_vars 3 \<mapsto> [split_vars 2], split_vars 4 \<mapsto> [split_vars 2]],
      childrenMap = [split_vars 0 \<mapsto> [split_vars 1, split_vars 2], split_vars 2 \<mapsto> [split_vars 3, split_vars 4]]\<rparr>"

lemma add_to_graph:
  "add_node v \<lparr>pg_nodes = n, childRelMap = a, parentRelMap = b, parentsMap = c, childrenMap = d\<rparr> =
     \<lparr>pg_nodes = List.insert v n, childRelMap = a, parentRelMap = b, parentsMap = c, childrenMap = d\<rparr>"
  "add_parent rel cs v \<lparr>pg_nodes = n, childRelMap = a, parentRelMap = b, parentsMap = c, childrenMap = d\<rparr> =
     \<lparr>pg_nodes = List.insert v n, childRelMap = a(v \<mapsto> rel), parentRelMap = b, parentsMap = c, childrenMap = d(v \<mapsto> cs)\<rparr>"
  "add_child rel ps v \<lparr>pg_nodes = n, childRelMap = a, parentRelMap = b, parentsMap = c, childrenMap = d\<rparr> =
     \<lparr>pg_nodes = List.insert v n, childRelMap = a, parentRelMap = b(v \<mapsto> rel), parentsMap = c(v \<mapsto> ps), childrenMap = d\<rparr>"
  by (simp_all add: add_node_def add_parent_def add_child_def)

lemma split_schedule_graph: "ProvenanceGraph_make split_schedule = ok split_graph"
proof -
  let ?n = "map split_vars [4, 3, 1]"
  have nodes: "fold add_node (forall_vars split_schedule) empty_graph =
      \<lparr>pg_nodes = ?n, childRelMap = Map.empty, parentRelMap = Map.empty, parentsMap = Map.empty, childrenMap = Map.empty\<rparr>"
    by (simp only: split_schedule_def forall_vars.simps fold_simps empty_graph_def add_to_graph)
       (simp add: List.insert_def)
  show ?thesis
    unfolding ProvenanceGraph_make_def Let_def nodes
    by (simp only: split_schedule_def IndexStmt.case foldR.simps add_relation_def
          rel_getParents.simps rel_getChildren.simps bindR_Inr fold_simps id_apply add_to_graph)
       (simp add: split_graph_def List.insert_def)
qed

lemma split_graph_queries [simp]:
  "getParents split_graph (split_vars 4) = [split_vars 2]" "getParents split_graph (split_vars 2) = [split_vars 0]"
  "getParents split_graph (split_vars 0) = []" "getChildren split_graph (split_vars 0) = [split_vars 1, split_vars 2]"
  "getChildren split_graph (split_vars 2) = [split_vars 3, split_vars 4]"
  "\<not> has_precompute (parentRelMap split_graph) v" "\<not> has_precompute (childRelMap split_graph) v"
  by (simp_all add: split_graph_def getParents_def getChildren_def has_precompute_def)

lemma split_graph_ranked: "ranked split_graph iv_addr"
proof -
  have "\<forall>v. \<forall>p \<in> set (getParents split_graph v). iv_addr p < iv_addr v"
    by (simp add: split_graph_def getParents_def split: if_splits)
  moreover have "\<forall>v. \<forall>c \<in> set (getChildren split_graph v). iv_addr v < iv_addr c"
    by (simp add: split_graph_def getChildren_def split: if_splits)
  ultimately show ?thesis by (simp add: ranked_def)
qed

lemma underived_ancestors_found_witness:
  "\<exists>vs. getUnderivedAncestors split_graph (split_vars 4) = ok vs \<and> split_vars 0 \<in> set vs"
proof -
  have "(split_vars 4, split_vars 2) \<in> parent_edges split_graph" "(split_vars 2, split_vars 0) \<in> parent_edges split_graph"
    by (simp_all add: parent_edges_def)
  then have "(split_vars 4, split_vars 0) \<in> (parent_edges split_graph)\<^sup>*" by auto
  moreover have "isUnderived split_graph (split_vars 0)" by (simp add: isUnderived_def)
  ultimately have "(split_vars 4, split_vars 0) \<in> (parent_edges split_graph)\<^sup>* \<and> isUnderived split_graph (split_vars 0)" ..
  with underived_ancestors_found [OF split_schedule_graph split_graph_ranked] show ?thesis by blast
qed

text \<open>(C38) In a graph without cycles, and when no defined variable has a precompute relation, a variable is recoverable exactly if every
  chain of derivations from it to a variable of a loop meets a defined variable.\<close>

theorem recoverable_iff_defined_below:
  assumes "ProvenanceGraph_make s = ok g" "ranked g rank"
    and "\<forall>d \<in> set defined. \<not> has_precompute (parentRelMap g) d \<and> \<not> has_precompute (childRelMap g) d"
  shows "isRecoverable g v defined =
    ok (\<not> (\<exists>u. (v, u) \<in> (undefined_edges g defined)\<^sup>+ \<and> isFullyDerived g u))"
proof -
  have "filter (has_precompute (parentRelMap g)) defined = []" "filter (has_precompute (childRelMap g)) defined = []"
    using assms(3) by auto
  then show ?thesis
    using recoverable_walk [OF make_consistent [OF assms(1)] assms(2) height_depth(2)]
    by (simp add: isRecoverable_def)
qed

lemma recoverable_iff_defined_below_witness:
  "isRecoverable split_graph (split_vars 0) (map split_vars [1, 3, 4]) = ok True"
proof -
  let ?E = "undefined_edges split_graph (map split_vars [1, 3, 4])"
  have "u = split_vars 2" if "(split_vars 0, u) \<in> ?E\<^sup>+" for u
    using that by (induction rule: trancl_induct) (auto simp: undefined_edges_def)
  moreover have "\<not> isFullyDerived split_graph (split_vars 2)" by (simp add: isFullyDerived_def)
  ultimately have "\<not> (\<exists>u. (split_vars 0, u) \<in> ?E\<^sup>+ \<and> isFullyDerived split_graph u)" by metis
  with recoverable_iff_defined_below [OF split_schedule_graph split_graph_ranked,
      of "map split_vars [1, 3, 4]" "split_vars 0"]
  show ?thesis by simp
qed

end
