(* ===== verification/Bounds_Sound.thy ===== *)
theory Bounds_Sound
  imports Provenance_Bounds Provenance_Walks Level_Sound
begin

text \<open>
  The loops over derived variables: with the bounds the provenance graph derives for them and the parent
  recovered from them, what the nest visits, in order, compared with the loop over the parent itself. Bounds
  and variables are 32-bit integers whose arithmetic does not overflow.
\<close>

subsection \<open>Integer expressions\<close>

lemma factor_value:
  assumes "fits x"
  shows "\<exists>u. Literal_make_from UInt64 x Int32 = ok (Literal Int32 u) \<and> (\<forall>F s. int_value F s (Literal Int32 u) x)"
proof -
  have i: "isIntegral Int32" "isIntegral UInt64" by (simp_all add: isIntegral_def kind_preds)
  from Literal_make_from_returns [OF i(1), of UInt64 x] obtain u
    where u: "Literal_make_from UInt64 x Int32 = ok (Literal Int32 u)" by auto
  from Literal_make_from_value [OF u i] assms show ?thesis using u by (auto simp: int_value_def)
qed

lemma factor_ok:
  assumes "fits (int n)"
  obtains u where "factor_literal n Int32 = ok (Literal Int32 u)" "\<And>F s. int_value F s (Literal Int32 u) (int n)"
  using factor_value [OF assms] unfolding factor_literal_def by blast

lemma factor_minus_one_ok:
  assumes "fits (int n)" "0 < n"
  obtains u where "factor_minus_one n Int32 = ok (Literal Int32 u)" "\<And>F s. int_value F s (Literal Int32 u) (int n - 1)"
proof -
  have w: "wrapU 64 (int n - 1) = int n - 1" and f: "fits (int n - 1)"
    using assms by (auto simp: wrapU_def fits_def)
  show thesis using factor_value [OF f] that unfolding factor_minus_one_def w by blast
qed

lemma int_make_more:
  assumes "etype a = Int32" "etype b = Int32"
  shows "Div_make a b = ok (Div Int32 a b)" "Rem_make a b = ok (Rem Int32 a b)"
    "Min_make2 a b = ok (Nary OpMin Int32 [a, b])"
  using assms
  by (simp_all add: Div_make_def Div_make_typed_def Rem_make_def Rem_make_typed_def Min_make2_def Min_make_typed_def
      max_expr_type_def kind_preds)

lemma fits_div: "fits x \<Longrightarrow> 0 \<le> x \<Longrightarrow> 0 < y \<Longrightarrow> fits (x div y)"
  by (rule fits_between [of 0 _ x]) (use zdiv_mono2 [of x 1 y] in \<open>auto simp: pos_imp_zdiv_nonneg_iff\<close>)

lemma fits_mod: "fits x \<Longrightarrow> 0 \<le> x \<Longrightarrow> 0 < y \<Longrightarrow> fits (x mod y)"
  by (rule fits_between [of 0 _ x]) (auto simp: zmod_le_nonneg_dividend)

lemma int_quotient [int_rules]:
  assumes "int_value F s a x" "int_value F s b y" "0 \<le> x" "0 < y"
  shows "int_value F s (Div Int32 a b) (x div y)" "int_value F s (Rem Int32 a b) (x mod y)"
proof -
  have "c_div x y = x div y" "c_rem x y = x mod y"
    using assms(3,4) by (simp_all add: c_div_nonneg c_rem_def minus_div_mult_eq_mod)
  then show "int_value F s (Div Int32 a b) (x div y)" "int_value F s (Rem Int32 a b) (x mod y)"
    using assms fits_div [OF _ assms(3,4)] fits_mod [OF _ assms(3,4)]
    by (simp_all add: int_value_def binary_value_def is_arith_def arith_def convert_def isIntegral_def kind_preds)
qed

lemma int_min [int_rules]:
  assumes "int_value F s a x" "int_value F s b y"
  shows "int_value F s (Nary OpMin Int32 [a, b]) (min x y)"
  using assms by (auto simp: int_value_def convert_def pick_def kind_preds min_def)

subsection \<open>Loops\<close>

definition range_of :: "fpu \<Rightarrow> state \<Rightarrow> expr list \<Rightarrow> int list res" where
  "range_of F s b =
     bindR (at_index b 0) (\<lambda>lo. bindR (at_index b 1) (\<lambda>hi.
     bindR (eval F s lo) (\<lambda>x. bindR (eval F s hi) (\<lambda>y. ok [x..y - 1]))))"

text \<open>What an expression evaluates to in the body of two nested loops, in the order of the iterations.\<close>

definition nest_values ::
    "fpu \<Rightarrow> state \<Rightarrow> location \<Rightarrow> location \<Rightarrow> expr list \<Rightarrow> expr list \<Rightarrow> expr \<Rightarrow> int list res" where
  "nest_values F s v w outer inner e =
     bindR (range_of F s outer) (concatR (\<lambda>a. let sa = set_scalar v a s in
       bindR (range_of F sa inner) (mapR (\<lambda>b. eval F (set_scalar w b sa) e))))"

lemma map_add_upto: "map (\<lambda>b. c + b) [i..j] = [c + i..c + j]" for c :: int
proof (induction i j rule: upto.induct)
  case (1 i j)
  show ?case
  proof (cases "i \<le> j")
    case True
    with 1 have "map ((+) c) [i..j] = (c + i) # [c + i + 1..c + j]" by (simp add: upto_rec1 add.assoc)
    also have "\<dots> = [c + i..c + j]" using True by (subst (2) upto_rec1) simp_all
    finally show ?thesis .
  qed simp
qed

lemma blocks:
  fixes n :: int
  assumes "0 \<le> n" "A \<le> B"
  shows "concat (map (\<lambda>a. map (\<lambda>b. a * n + b) [0..n - 1]) [A..B - 1]) = [A * n..B * n - 1]"
  using assms(2)
proof (induction "nat (B - A)" arbitrary: A)
  case (Suc k)
  then have lt: "A < B" and k: "k = nat (B - (A + 1))" "A + 1 \<le> B" by auto
  have "A * n \<le> (A + 1) * n" "(A + 1) * n \<le> B * n"
    using assms(1) k(2) by (auto intro!: mult_right_mono)
  moreover have "map (\<lambda>b. A * n + b) [0..n - 1] = [A * n..(A + 1) * n - 1]"
    unfolding map_add_upto by (simp add: distrib_right add_diff_eq)
  moreover have "[i..k - 1] = [i..j - 1] @ [j..k - 1]" if "i \<le> j" "j \<le> k" for i j k :: int
    using that upto_split1 [of i j "k - 1"] by (cases "j = k") simp_all
  then have "[A * n..B * n - 1] = [A * n..(A + 1) * n - 1] @ [(A + 1) * n..B * n - 1]"
    using calculation(1,2) .
  ultimately show ?case
    using Suc(1) [OF k] lt by (simp add: upto_rec1 [of A])
qed simp

lemma filter_upto:
  fixes l h :: int
  assumes "L \<le> l" "h \<le> H"
  shows "filter (\<lambda>x. l \<le> x \<and> x < h) [L..H - 1] = [l..h - 1]"
  using assms by (intro sorted_distinct_set_unique) (auto simp: sorted_wrt_filter)

text \<open>A nest whose inner loop runs from 0, and whose body evaluates to a position in blocks.\<close>

lemma nest_values_blocks:
  assumes "int_value F s olo A" "int_value F s ohi B" "A \<le> B" "0 \<le> n"
    and "\<And>a. A \<le> a \<Longrightarrow> a < B \<Longrightarrow> int_value F (set_scalar v a s) ilo 0"
    and "\<And>a. A \<le> a \<Longrightarrow> a < B \<Longrightarrow> int_value F (set_scalar v a s) ihi n"
    and "\<And>a b. A \<le> a \<Longrightarrow> a < B \<Longrightarrow> 0 \<le> b \<Longrightarrow> b < n \<Longrightarrow>
      int_value F (set_scalar w b (set_scalar v a s)) e (a * n + b)"
  shows "nest_values F s v w [olo, ohi] [ilo, ihi] e = ok [A * n..B * n - 1]"
proof -
  have "bindR (range_of F (set_scalar v a s) [ilo, ihi]) (mapR (\<lambda>b. eval F (set_scalar w b (set_scalar v a s)) e)) =
      ok (map (\<lambda>b. a * n + b) [0..n - 1])" if "a \<in> set [A..B - 1]" for a
    using that assms(5-7) [of a]
    by (auto simp: range_of_def at_index_def int_value_def intro!: mapR_ok)
  then have "concatR (\<lambda>a. let sa = set_scalar v a s in
       bindR (range_of F sa [ilo, ihi]) (mapR (\<lambda>b. eval F (set_scalar w b sa) e))) [A..B - 1] =
      ok (concat (map (\<lambda>a. map (\<lambda>b. a * n + b) [0..n - 1]) [A..B - 1]))"
    unfolding concatR_def Let_def by (subst mapR_ok) auto
  then show ?thesis
    using assms(1,2) blocks [OF assms(4,3)] by (simp add: nest_values_def range_of_def at_index_def int_value_def)
qed

subsection \<open>Graphs of one relation\<close>

lemma fold_add_node:
  "fold add_node vs g = g\<lparr>pg_nodes := fold List.insert vs (pg_nodes g)\<rparr>"
  by (induction vs arbitrary: g) (auto simp: add_node_def intro!: ProvenanceGraph.equality)

lemma one_relation:
  assumes "ProvenanceGraph_make (SuchThatNode st [rel]) = ok g"
    and "rel_getParents rel = ok ps" "rel_getChildren rel = ok cs"
  shows "getParents g v = (if v \<in> set cs then ps else [])" "getChildren g v = (if v \<in> set ps then cs else [])"
    "parentRelMap g v = (if v \<in> set cs then Some rel else None)"
    "childRelMap g v = (if v \<in> set ps then Some rel else None)"
    "set ps \<union> set cs \<subseteq> set (pg_nodes g)"
  using assms
  by (auto simp: ProvenanceGraph_make_def add_relation_def fold_add_parent fold_add_child fold_add_node Let_def
      getParents_def getChildren_def empty_graph_def)

lemma two_steps:
  assumes "{u, v} \<subseteq> set (pg_nodes g)" "u \<noteq> v"
  obtains k where "depth g = Suc (Suc (Suc k))"
proof -
  from assms have "card {u, v} \<le> card (set (pg_nodes g))" by (intro card_mono) auto
  with assms(2) have "2 \<le> length (pg_nodes g)" using card_length [of "pg_nodes g"] by simp
  then obtain k where "length (pg_nodes g) = Suc (Suc k)" by (metis add_2_eq_Suc le_Suc_ex)
  then show thesis using that by (simp add: depth_def)
qed

text \<open>A variable \<open>p\<close> that is split or divided.\<close>

definition halves :: "ProvenanceGraph \<Rightarrow> IndexVarRel \<Rightarrow> IndexVar \<Rightarrow> IndexVar \<Rightarrow> IndexVar \<Rightarrow> bool" where
  "halves g rel p ov iv \<longleftrightarrow> distinct [p, ov, iv] \<and> getRelType rel \<in> {SPLIT, DIVIDE} \<and>
     rel_getParents rel = ok [p] \<and> rel_getChildren rel = ok [ov, iv] \<and>
     (\<exists>st. ProvenanceGraph_make (SuchThatNode st [rel]) = ok g)"

lemma map_of_assign: "map_of (map_assign lt k v m) = (map_of m)(k \<mapsto> v)"
  by (induction m) auto

lemma bounds_of_set [simp]:
  "bounds_of (set_bounds v b m) w = (if w = v then b else bounds_of m w)"
  "has_key (set_bounds v b m) w \<longleftrightarrow> w = v \<or> has_key m w"
  by (simp_all add: bounds_of_def has_key_def set_bounds_def map_of_assign)

lemma set_bounds_single [simp]: "set_bounds p b [] = [(p, b)]" "set_bounds p b [(p, b')] = [(p, b)]"
    "bounds_of [(p, b)] p = b" "has_key [(p, b)] p"
  by (simp_all add: set_bounds_def bounds_of_def has_key_def)

lemma halves_graph:
  assumes "halves g rel p ov iv"
  shows "getParents g ov = [p]" "getParents g iv = [p]" "getParents g p = []" "getChildren g p = [ov, iv]"
    "getChildren g ov = []" "getChildren g iv = []" "rel_at (parentRelMap g) ov = ok rel"
    "rel_at (parentRelMap g) iv = ok rel" "rel_at (childRelMap g) p = ok rel"
    "\<not> has_precompute (parentRelMap g) v" "\<not> has_precompute (childRelMap g) v"
  using assms
  by (auto simp: halves_def one_relation rel_at_def has_precompute_def split: option.splits if_splits)

lemma halves_walks:
  assumes h: "halves g rel p ov iv"
  shows "getUnderivedAncestors g p = ok [p]" "getUnderivedAncestors g ov = ok [p]" "getUnderivedAncestors g iv = ok [p]"
    "isPosVariable g p = ok False" "newlyRecoverableParents g ov [] = ok []"
proof -
  from h obtain st where "ProvenanceGraph_make (SuchThatNode st [rel]) = ok g" "distinct [p, ov, iv]"
    "rel_getParents rel = ok [p]" "rel_getChildren rel = ok [ov, iv]" "getRelType rel \<noteq> FUSE"
    by (auto simp: halves_def)
  moreover from one_relation(5) [OF this(1,3,4)] calculation(2) obtain k where k: "depth g = Suc (Suc (Suc k))"
    using two_steps [of p ov g] by auto
  ultimately show "getUnderivedAncestors g p = ok [p]" "getUnderivedAncestors g ov = ok [p]"
    "getUnderivedAncestors g iv = ok [p]" "isPosVariable g p = ok False" "newlyRecoverableParents g ov [] = ok []"
    using halves_graph [OF h]
    by (simp_all add: getUnderivedAncestors_def isPosVariable_def newlyRecoverableParents_def isRecoverable_def
        isUnderived_def isFullyDerived_def tracked_by_loop_def concatR_def eq_commute [of iv ov])
qed

lemma halves_relative:
  assumes h: "halves g rel p ov iv" and v: "v \<in> {ov, iv}"
    and r: "rel_computeRelativeBound g rel defined [(p, b)] names = ok b'"
  shows "bindR (addRelativeBoundsToMap g defined names v [(p, b)]) (\<lambda>m.
      computeBoundsForUnderivedAncestors g v m [(p, b2)]) = ok [(p, b')]"
proof -
  note gr = halves_graph [OF h]
  from h obtain st where "ProvenanceGraph_make (SuchThatNode st [rel]) = ok g" "distinct [p, ov, iv]"
    "rel_getParents rel = ok [p]" "rel_getChildren rel = ok [ov, iv]" by (auto simp: halves_def)
  with one_relation(5) [OF this(1,3,4)] obtain k where k: "depth g = Suc (Suc (Suc k))"
    using two_steps [of p ov g] by auto
  have "addRelativeBoundsToMap g defined names v [(p, b)] = ok (set_bounds v b' [(p, b)])"
    using v r gr by (auto simp: addRelativeBoundsToMap_def k isUnderived_def)
  then show ?thesis
    using v halves_walks(2,3) [OF h] by (auto simp: computeBoundsForUnderivedAncestors_def at_index_def)
qed

lemma halves_coord:
  assumes h: "halves g rel p ov iv"
  shows "rel_computeRelativeBound g rel [] [(p, b)] names = ok b' \<Longrightarrow>
      deriveCoordBounds g [ov] [(p, b)] names = ok [(p, b')]"
    "rel_computeRelativeBound g rel [ov] [(p, b)] names = ok b' \<Longrightarrow>
      deriveCoordBounds g [ov, iv] [(p, b)] names = ok [(p, b')]"
proof -
  have "distinct [p, ov, iv]" using h by (simp add: halves_def)
  then show "rel_computeRelativeBound g rel [] [(p, b)] names = ok b' \<Longrightarrow>
      deriveCoordBounds g [ov] [(p, b)] names = ok [(p, b')]"
    "rel_computeRelativeBound g rel [ov] [(p, b)] names = ok b' \<Longrightarrow>
      deriveCoordBounds g [ov, iv] [(p, b)] names = ok [(p, b')]"
    using halves_relative [OF h, of ov] halves_relative [OF h, of iv] halves_walks [OF h] halves_graph [OF h]
    by (auto simp: deriveCoordBounds_def derive_step_def isUnderived_def bindR_assoc [symmetric])
qed

lemma halves_iter:
  assumes h: "halves g rel p ov iv"
  shows "deriveIterBounds F g its [ov] [(p, b)] names ov = rel_deriveIterBounds F g its rel ov [(p, b)] [(p, b)] names"
    "rel_computeRelativeBound g rel [] [(p, b)] names = ok b' \<Longrightarrow>
      deriveIterBounds F g its [ov, iv] [(p, b)] names iv = rel_deriveIterBounds F g its rel iv [(p, b)] [(p, b')] names"
    "rel_computeRelativeBound g rel [ov] [(p, b)] names = ok b' \<Longrightarrow>
      recoverVariable F g its [ov, iv] [(p, b)] names p =
        bindR (rel_recoverVariable g its rel p names [(p, b)] [(p, b')]) (\<lambda>e. ok (Some e))"
proof -
  from h obtain st where "ProvenanceGraph_make (SuchThatNode st [rel]) = ok g" and d: "distinct [p, ov, iv]"
    and r: "rel_getParents rel = ok [p]" "rel_getChildren rel = ok [ov, iv]" by (auto simp: halves_def)
  with one_relation(5) [OF this(1) r] obtain k where k: "depth g = Suc (Suc (Suc k))"
    using two_steps [of p ov g] by auto
  from d have n: "iv \<noteq> ov" by auto
  note facts = halves_walks [OF h] halves_graph [OF h] d r n
  have empty: "deriveCoordBounds g [] [(p, b)] names = ok [(p, b)]" by (simp add: deriveCoordBounds_def)
  show "deriveIterBounds F g its [ov] [(p, b)] names ov = rel_deriveIterBounds F g its rel ov [(p, b)] [(p, b)] names"
    using facts empty by (simp add: deriveIterBounds_def k isUnderived_def parent_bound_def coord_bounds_of_def at_index_def)
  show "rel_computeRelativeBound g rel [] [(p, b)] names = ok b' \<Longrightarrow>
      deriveIterBounds F g its [ov, iv] [(p, b)] names iv = rel_deriveIterBounds F g its rel iv [(p, b)] [(p, b')] names"
    using facts halves_coord(1) [OF h]
    by (simp add: deriveIterBounds_def k isUnderived_def parent_bound_def coord_bounds_of_def at_index_def)
  show "rel_computeRelativeBound g rel [ov] [(p, b)] names = ok b' \<Longrightarrow>
      recoverVariable F g its [ov, iv] [(p, b)] names p =
        bindR (rel_recoverVariable g its rel p names [(p, b)] [(p, b')]) (\<lambda>e. ok (Some e))"
    using facts halves_coord(2) [OF h]
    by (simp add: recoverVariable_def deriveIterBounds_def k isUnderived_def isFullyDerived_def parent_bound_def
        coord_bounds_of_def at_index_def)
qed

subsection \<open>Split\<close>

text \<open>The variables of the nest, in the code it is lowered to.\<close>

definition loop_variable :: "var_map \<Rightarrow> IndexVar \<Rightarrow> location \<Rightarrow> bool" where
  "loop_variable names v l \<longleftrightarrow>
     (\<exists>a nm m. map_of names v = Some (Var a nm Int32 False False m) \<and> l = LVar a)"

lemma loop_variable_value:
  assumes "loop_variable names v l"
  obtains e where "map_of names v = Some e" "etype e = Int32" "var_expr names v = ok e" "has_key names v"
    "\<And>F s x. fits x \<Longrightarrow> scalars s l = Some x \<Longrightarrow> int_value F s e x"
proof -
  from assms obtain a nm m where m: "map_of names v = Some (Var a nm Int32 False False m)" and l: "l = LVar a"
    by (auto simp: loop_variable_def)
  show thesis
    using that [of "Var a nm Int32 False False m"] m l by (simp add: var_expr_def has_key_def int_var)
qed

lemma nest_parts:
  assumes v: "loop_variable names p lp" "loop_variable names ov lo'" "loop_variable names iv li"
    and n: "0 < n" "fits (int n)"
  obtains pe oe ie fu mu zu wu where "etype pe = Int32" "var_expr names p = ok pe" "has_key names p"
    "etype oe = Int32" "var_expr names ov = ok oe" "has_key names ov"
    "\<And>s x. fits x \<Longrightarrow> scalars s lo' = Some x \<Longrightarrow> int_value F s oe x"
    "etype ie = Int32" "var_expr names iv = ok ie" "has_key names iv"
    "\<And>s x. fits x \<Longrightarrow> scalars s li = Some x \<Longrightarrow> int_value F s ie x"
    "factor_literal n Int32 = ok (Literal Int32 fu)" "\<And>s. int_value F s (Literal Int32 fu) (int n)"
    "factor_minus_one n Int32 = ok (Literal Int32 mu)" "\<And>s. int_value F s (Literal Int32 mu) (int n - 1)"
    "Literal_int 0 = ok (Literal Int32 zu)" "\<And>s. int_value F s (Literal Int32 zu) 0"
    "Literal_int 1 = ok (Literal Int32 wu)"
proof -
  obtain pe where pe: "etype pe = Int32" "var_expr names p = ok pe" "has_key names p"
    using loop_variable_value [OF v(1)] by metis
  obtain oe where oe: "etype oe = Int32" "var_expr names ov = ok oe" "has_key names ov"
    "\<And>F s x. fits x \<Longrightarrow> scalars s lo' = Some x \<Longrightarrow> int_value F s oe x"
    using loop_variable_value [OF v(2)] by metis
  obtain ie where ie: "etype ie = Int32" "var_expr names iv = ok ie" "has_key names iv"
    "\<And>F s x. fits x \<Longrightarrow> scalars s li = Some x \<Longrightarrow> int_value F s ie x"
    using loop_variable_value [OF v(3)] by metis
  obtain fu where fl: "factor_literal n Int32 = ok (Literal Int32 fu)" "\<And>F s. int_value F s (Literal Int32 fu) (int n)"
    using factor_ok [OF n(2)] by blast
  obtain mu where ml: "factor_minus_one n Int32 = ok (Literal Int32 mu)" "\<And>F s. int_value F s (Literal Int32 mu) (int n - 1)"
    using factor_minus_one_ok [OF n(2,1)] by blast
  obtain zu where z: "Literal_int 0 = ok (Literal Int32 zu)" "\<And>F s. int_value F s (Literal Int32 zu) 0"
    using Literal_int_ok [of 0] by auto
  obtain wu where w: "Literal_int 1 = ok (Literal Int32 wu)" using Literal_int_ok [of 1] by auto
  show thesis by (rule that) (fact pe oe ie fl ml z w)+
qed

lemma split_exprs:
  assumes h: "halves g (SplitRel p ov iv n) p ov iv"
    and v: "loop_variable names p lp" "loop_variable names ov lo'" "loop_variable names iv li"
    and t: "etype lo = Int32" "etype hi = Int32" and n: "0 < n" "fits (int n)"
  obtains fl ml z oe ie where
    "deriveIterBounds F g its [ov] [(p, [lo, hi])] names ov = ok [Div Int32 lo fl, Div Int32 (Add Int32 hi ml) fl]"
    "deriveIterBounds F g its [ov, iv] [(p, [lo, hi])] names iv = ok [z, fl]"
    "recoverVariable F g its [ov, iv] [(p, [lo, hi])] names p = ok (Some (Add Int32 (Mul Int32 oe fl) ie))"
    "\<And>s. int_value F s fl (int n)" "\<And>s. int_value F s ml (int n - 1)" "\<And>s. int_value F s z 0"
    "\<And>s x. fits x \<Longrightarrow> scalars s lo' = Some x \<Longrightarrow> int_value F s oe x"
    "\<And>s x. fits x \<Longrightarrow> scalars s li = Some x \<Longrightarrow> int_value F s ie x"
proof -
  obtain pe oe ie fu mu zu wu where pe: "etype pe = Int32" "var_expr names p = ok pe" "has_key names p"
    and oe: "etype oe = Int32" "var_expr names ov = ok oe" "has_key names ov"
      "\<And>s x. fits x \<Longrightarrow> scalars s lo' = Some x \<Longrightarrow> int_value F s oe x"
    and ie: "etype ie = Int32" "var_expr names iv = ok ie" "has_key names iv"
      "\<And>s x. fits x \<Longrightarrow> scalars s li = Some x \<Longrightarrow> int_value F s ie x"
    and fl: "factor_literal n Int32 = ok (Literal Int32 fu)" "\<And>s. int_value F s (Literal Int32 fu) (int n)"
    and ml: "factor_minus_one n Int32 = ok (Literal Int32 mu)" "\<And>s. int_value F s (Literal Int32 mu) (int n - 1)"
    and z: "Literal_int 0 = ok (Literal Int32 zu)" "\<And>s. int_value F s (Literal Int32 zu) 0"
    and w: "Literal_int 1 = ok (Literal Int32 wu)"
    by (rule nest_parts [OF v n, where F = F]) (rule that; assumption)
  note it = halves_iter [OF h] and posv = halves_walks(4) [OF h]
  have "distinct [p, ov, iv]" using h by (simp add: halves_def)
  then have d: "iv \<noteq> ov" by auto
  note ev = Split_deriveIterBounds_def Split_computeRelativeBound_def Split_recoverVariable_def at_index_def
    int_make int_make_more posv pe oe(1-3) ie(1-3) fl(1) ml(1) z(1) t d
  have c0: "rel_computeRelativeBound g (SplitRel p ov iv n) [] [(p, [lo, hi])] names = ok [lo, hi]"
    by (simp add: ev)
  have "\<exists>b'. rel_computeRelativeBound g (SplitRel p ov iv n) [ov] [(p, [lo, hi])] names = ok b'"
    by (simp add: ev)
  then obtain b' where c1: "rel_computeRelativeBound g (SplitRel p ov iv n) [ov] [(p, [lo, hi])] names = ok b'" ..
  show thesis
  proof (rule that)
    show "deriveIterBounds F g its [ov] [(p, [lo, hi])] names ov =
        ok [Div Int32 lo (Literal Int32 fu), Div Int32 (Add Int32 hi (Literal Int32 mu)) (Literal Int32 fu)]"
      unfolding it(1) by (simp add: ev)
    show "deriveIterBounds F g its [ov, iv] [(p, [lo, hi])] names iv = ok [Literal Int32 zu, Literal Int32 fu]"
      unfolding it(2) [OF c0] by (simp add: ev)
    show "recoverVariable F g its [ov, iv] [(p, [lo, hi])] names p =
        ok (Some (Add Int32 (Mul Int32 oe (Literal Int32 fu)) ie))"
      unfolding it(3) [OF c1] by (simp add: ev)
  qed (fact fl ml z oe ie)+
qed

text \<open>The product of a quotient that was rounded up.\<close>

lemma rounded_up:
  fixes h n :: int
  assumes "0 < n"
  shows "h \<le> (h + n - 1) div n * n" "(h + n - 1) div n * n \<le> h + n - 1"
proof -
  have "(h + n - 1) div n * n = h + n - 1 - (h + n - 1) mod n" by (simp add: minus_mod_eq_div_mult)
  moreover have "0 \<le> (h + n - 1) mod n" "(h + n - 1) mod n < n" using assms by simp_all
  ultimately show "h \<le> (h + n - 1) div n * n" "(h + n - 1) div n * n \<le> h + n - 1" by linarith+
qed

lemma block_position:
  fixes a b n B :: int
  assumes "0 \<le> a" "a < B" "0 \<le> b" "b < n" "B * n \<le> H" "fits H"
  shows "fits (a * n)" "fits (a * n + b)"
proof -
  have "(a + 1) * n \<le> B * n" "0 \<le> a * n" using assms by (auto intro!: mult_right_mono)
  then show "fits (a * n)" "fits (a * n + b)"
    using assms unfolding fits_def distrib_right by linarith+
qed

text \<open>(C12) Splitting a loop by a factor keeps its iterations and their order.\<close>

theorem split_visits_parent_in_order:
  assumes g: "ProvenanceGraph_make (SuchThatNode st [SplitRel p ov iv n]) = ok g" and d: "distinct [p, ov, iv]"
    and v: "loop_variable names p lp" "loop_variable names ov lo'" "loop_variable names iv li" and ne: "lo' \<noteq> li"
    and b: "int_value F s lo l" "int_value F s hi h" and le: "0 \<le> l" "l \<le> h"
    and n: "0 < n" and f: "fits (h + int n)"
  shows "\<exists>ob ib e xs.
    deriveIterBounds F g its [ov] [(p, [lo, hi])] names ov = ok ob \<and>
    deriveIterBounds F g its [ov, iv] [(p, [lo, hi])] names iv = ok ib \<and>
    recoverVariable F g its [ov, iv] [(p, [lo, hi])] names p = ok (Some e) \<and>
    nest_values F s lo' li ob ib e = ok xs \<and> filter (\<lambda>x. l \<le> x \<and> x < h) xs = [l..h - 1]"
proof -
  have h: "halves g (SplitRel p ov iv n) p ov iv" using g d by (auto simp: halves_def)
  have fl: "fits l" "fits h" using b by (simp_all add: int_valueD)
  have fn: "fits (int n)" "fits (h + int n - 1)" using f le n fl by (auto simp: fits_def)
  obtain fe ml z oe ie where e:
    "deriveIterBounds F g its [ov] [(p, [lo, hi])] names ov = ok [Div Int32 lo fe, Div Int32 (Add Int32 hi ml) fe]"
    "deriveIterBounds F g its [ov, iv] [(p, [lo, hi])] names iv = ok [z, fe]"
    "recoverVariable F g its [ov, iv] [(p, [lo, hi])] names p = ok (Some (Add Int32 (Mul Int32 oe fe) ie))"
    and x: "\<And>s. int_value F s fe (int n)" "\<And>s. int_value F s ml (int n - 1)" "\<And>s. int_value F s z 0"
      "\<And>s x. fits x \<Longrightarrow> scalars s lo' = Some x \<Longrightarrow> int_value F s oe x"
      "\<And>s x. fits x \<Longrightarrow> scalars s li = Some x \<Longrightarrow> int_value F s ie x"
    using split_exprs [OF h v int_valueD(1) [OF b(1)] int_valueD(1) [OF b(2)] n fn(1)] by metis
  let ?A = "l div int n" and ?B = "(h + int n - 1) div int n"
  note r = rounded_up [of "int n" h]
  have AB: "?A \<le> ?B" "0 \<le> ?A" "?A * int n \<le> l" "0 \<le> h + int n - 1"
    using n le by (auto intro!: zdiv_mono1 simp: pos_imp_zdiv_nonneg_iff minus_mod_eq_div_mult [symmetric])
  have "int_value F s (Add Int32 hi ml) (h + int n - 1)"
    using int_binary(1) [OF b(2) x(2)] fn(2) by (simp add: add_diff_eq)
  then have ob: "int_value F s (Div Int32 lo fe) ?A" "int_value F s (Div Int32 (Add Int32 hi ml) fe) ?B"
    using int_quotient(1) [OF b(1) x(1)] int_quotient(1) [OF _ x(1)] le n AB(4) by simp_all
  have "nest_values F s lo' li [Div Int32 lo fe, Div Int32 (Add Int32 hi ml) fe] [z, fe]
      (Add Int32 (Mul Int32 oe fe) ie) = ok [?A * int n..?B * int n - 1]"
  proof (rule nest_values_blocks [OF ob AB(1)])
    fix a b assume ab: "?A \<le> a" "a < ?B" "0 \<le> b" "b < int n"
    let ?s = "set_scalar li b (set_scalar lo' a s)"
    have "fits a" "fits b" using ab AB fn int_valueD(3) [OF ob(2)] by (auto simp: fits_def)
    then have "int_value F ?s oe a" "int_value F ?s ie b"
      using x(4) [of a ?s] x(5) [of b ?s] ne by (simp_all add: set_scalar_def)
    then show "int_value F ?s (Add Int32 (Mul Int32 oe fe) ie) (a * int n + b)"
      using block_position [of a ?B b "int n" "h + int n - 1"] ab AB r n fn(2)
      by (intro int_binary(1,3) x(1)) auto
  qed (use x in auto)
  moreover have "filter (\<lambda>x. l \<le> x \<and> x < h) [?A * int n..?B * int n - 1] = [l..h - 1]"
    using AB(3) r(1) n by (intro filter_upto) auto
  ultimately show ?thesis using e by blast
qed

subsection \<open>Divide\<close>

lemma divide_exprs:
  assumes h: "halves g (DivideRel p ov iv n) p ov iv"
    and v: "loop_variable names p lp" "loop_variable names ov lo'" "loop_variable names iv li"
    and t: "etype lo = Int32" "etype hi = Int32" and n: "0 < n" "fits (int n)"
  obtains fl ml z oe ie where
    "deriveIterBounds F g its [ov] [(p, [lo, hi])] names ov = ok [z, fl]"
    "deriveIterBounds F g its [ov, iv] [(p, [lo, hi])] names iv = ok [Div Int32 lo fl, Div Int32 (Add Int32 hi ml) fl]"
    "recoverVariable F g its [ov, iv] [(p, [lo, hi])] names p =
      ok (Some (Add Int32 (Mul Int32 oe (Div Int32 (Add Int32 (Sub Int32 hi lo) ml) fl)) ie))"
    "\<And>s. int_value F s fl (int n)" "\<And>s. int_value F s ml (int n - 1)" "\<And>s. int_value F s z 0"
    "\<And>s x. fits x \<Longrightarrow> scalars s lo' = Some x \<Longrightarrow> int_value F s oe x"
    "\<And>s x. fits x \<Longrightarrow> scalars s li = Some x \<Longrightarrow> int_value F s ie x"
proof -
  obtain pe oe ie fu mu zu wu where pe: "etype pe = Int32" "var_expr names p = ok pe" "has_key names p"
    and oe: "etype oe = Int32" "var_expr names ov = ok oe" "has_key names ov"
      "\<And>s x. fits x \<Longrightarrow> scalars s lo' = Some x \<Longrightarrow> int_value F s oe x"
    and ie: "etype ie = Int32" "var_expr names iv = ok ie" "has_key names iv"
      "\<And>s x. fits x \<Longrightarrow> scalars s li = Some x \<Longrightarrow> int_value F s ie x"
    and fl: "factor_literal n Int32 = ok (Literal Int32 fu)" "\<And>s. int_value F s (Literal Int32 fu) (int n)"
    and ml: "factor_minus_one n Int32 = ok (Literal Int32 mu)" "\<And>s. int_value F s (Literal Int32 mu) (int n - 1)"
    and z: "Literal_int 0 = ok (Literal Int32 zu)" "\<And>s. int_value F s (Literal Int32 zu) 0"
    and w: "Literal_int 1 = ok (Literal Int32 wu)"
    by (rule nest_parts [OF v n, where F = F]) (rule that; assumption)
  note it = halves_iter [OF h] and posv = halves_walks(4) [OF h]
  have "distinct [p, ov, iv]" using h by (simp add: halves_def)
  then have d: "iv \<noteq> ov" by auto
  note ev = Divide_deriveIterBounds_def Divide_computeRelativeBound_def Divide_recoverVariable_def at_index_def
    int_make int_make_more posv pe oe(1-3) ie(1-3) fl(1) ml(1) z(1) w t d
  have c0: "rel_computeRelativeBound g (DivideRel p ov iv n) [] [(p, [lo, hi])] names = ok [lo, hi]"
    by (simp add: ev)
  have "\<exists>b'. rel_computeRelativeBound g (DivideRel p ov iv n) [ov] [(p, [lo, hi])] names = ok b'"
    by (simp add: ev)
  then obtain b' where c1: "rel_computeRelativeBound g (DivideRel p ov iv n) [ov] [(p, [lo, hi])] names = ok b'" ..
  show thesis
  proof (rule that)
    show "deriveIterBounds F g its [ov] [(p, [lo, hi])] names ov = ok [Literal Int32 zu, Literal Int32 fu]"
      unfolding it(1) by (simp add: ev)
    show "deriveIterBounds F g its [ov, iv] [(p, [lo, hi])] names iv =
        ok [Div Int32 lo (Literal Int32 fu), Div Int32 (Add Int32 hi (Literal Int32 mu)) (Literal Int32 fu)]"
      unfolding it(2) [OF c0] by (simp add: ev)
    show "recoverVariable F g its [ov, iv] [(p, [lo, hi])] names p = ok (Some (Add Int32
        (Mul Int32 oe (Div Int32 (Add Int32 (Sub Int32 hi lo) (Literal Int32 mu)) (Literal Int32 fu))) ie))"
      unfolding it(3) [OF c1] by (simp add: ev)
  qed (fact fl ml z oe ie)+
qed

text \<open>(C14) Dividing a loop from 0 into pieces keeps its iterations and their order.\<close>

theorem divide_visits_parent_in_order:
  assumes g: "ProvenanceGraph_make (SuchThatNode st [DivideRel p ov iv n]) = ok g" and d: "distinct [p, ov, iv]"
    and v: "loop_variable names p lp" "loop_variable names ov lo'" "loop_variable names iv li" and ne: "lo' \<noteq> li"
    and b: "int_value F s lo 0" "int_value F s hi h" "0 \<le> h"
    and stable: "{lo', li} \<inter> set (scalar_reads lo @ scalar_reads hi) = {}"
    and n: "0 < n" and f: "fits (h + int n)"
  shows "\<exists>ob ib e xs.
    deriveIterBounds F g its [ov] [(p, [lo, hi])] names ov = ok ob \<and>
    deriveIterBounds F g its [ov, iv] [(p, [lo, hi])] names iv = ok ib \<and>
    recoverVariable F g its [ov, iv] [(p, [lo, hi])] names p = ok (Some e) \<and>
    nest_values F s lo' li ob ib e = ok xs \<and> filter (\<lambda>x. 0 \<le> x \<and> x < h) xs = [0..h - 1]"
proof -
  have hv: "halves g (DivideRel p ov iv n) p ov iv" using g d by (auto simp: halves_def)
  have fn: "fits (int n)" "fits (h + int n - 1)" "fits h"
    using f b(3) n int_valueD(3) [OF b(2)] by (auto simp: fits_def)
  obtain fe ml z oe ie where e:
    "deriveIterBounds F g its [ov] [(p, [lo, hi])] names ov = ok [z, fe]"
    "deriveIterBounds F g its [ov, iv] [(p, [lo, hi])] names iv = ok [Div Int32 lo fe, Div Int32 (Add Int32 hi ml) fe]"
    "recoverVariable F g its [ov, iv] [(p, [lo, hi])] names p =
      ok (Some (Add Int32 (Mul Int32 oe (Div Int32 (Add Int32 (Sub Int32 hi lo) ml) fe)) ie))"
    and x: "\<And>s. int_value F s fe (int n)" "\<And>s. int_value F s ml (int n - 1)" "\<And>s. int_value F s z 0"
      "\<And>s x. fits x \<Longrightarrow> scalars s lo' = Some x \<Longrightarrow> int_value F s oe x"
      "\<And>s x. fits x \<Longrightarrow> scalars s li = Some x \<Longrightarrow> int_value F s ie x"
    using divide_exprs [OF hv v int_valueD(1) [OF b(1)] int_valueD(1) [OF b(2)] n fn(1)] by metis
  let ?P = "(h + int n - 1) div int n"
  have P: "0 \<le> ?P" "0 \<le> h + int n - 1" using n b(3) by (simp_all add: pos_imp_zdiv_nonneg_iff)
  have r: "h \<le> int n * ?P" "int n * ?P \<le> h + int n - 1"
    using rounded_up [of "int n" h] n by (simp_all add: mult.commute)
  have stays: "int_value F (set_scalar lo' a s) lo 0" "int_value F (set_scalar lo' a s) hi h"
      "int_value F (set_scalar li b (set_scalar lo' a s)) lo 0"
      "int_value F (set_scalar li b (set_scalar lo' a s)) hi h" for a b
  proof -
    show 1: "int_value F (set_scalar lo' a s) lo 0" "int_value F (set_scalar lo' a s) hi h"
      using stable by (auto intro!: int_value_frame [OF b(1) frame_set_scalar] int_value_frame [OF b(2) frame_set_scalar])
    show "int_value F (set_scalar li b (set_scalar lo' a s)) lo 0"
      "int_value F (set_scalar li b (set_scalar lo' a s)) hi h"
      using stable by (auto intro!: int_value_frame [OF 1(1) frame_set_scalar] int_value_frame [OF 1(2) frame_set_scalar])
  qed
  have piece: "int_value F s' (Div Int32 (Add Int32 hi' ml) fe) ?P" if "int_value F s' hi' h" for s' hi'
  proof -
    have "int_value F s' (Add Int32 hi' ml) (h + int n - 1)"
      using int_binary(1) [OF that x(2)] fn(2) by (simp add: add_diff_eq)
    then show ?thesis using int_quotient(1) [OF _ x(1) P(2)] n by simp
  qed
  have "nest_values F s lo' li [z, fe] [Div Int32 lo fe, Div Int32 (Add Int32 hi ml) fe]
      (Add Int32 (Mul Int32 oe (Div Int32 (Add Int32 (Sub Int32 hi lo) ml) fe)) ie) = ok [0 * ?P..int n * ?P - 1]"
  proof (rule nest_values_blocks [OF x(3) x(1) _ P(1)])
    fix a :: int
    show "int_value F (set_scalar lo' a s) (Div Int32 lo fe) 0"
      using int_quotient(1) [OF stays(1) x(1)] n by simp
    show "int_value F (set_scalar lo' a s) (Div Int32 (Add Int32 hi ml) fe) ?P" by (rule piece [OF stays(2)])
  next
    fix a b assume ab: "0 \<le> a" "a < int n" "0 \<le> b" "b < ?P"
    let ?s = "set_scalar li b (set_scalar lo' a s)"
    have "?P \<le> int n * ?P" using n P(1) by (simp add: mult_le_cancel_right1)
    then have "fits a" "fits b" using ab r(2) fn unfolding fits_def by linarith+
    then have "int_value F ?s oe a" "int_value F ?s ie b"
      using x(4) [of a ?s] x(5) [of b ?s] ne by (simp_all add: set_scalar_def)
    moreover have "int_value F ?s (Sub Int32 hi lo) h" using int_binary(2) [OF stays(4,3)] fn(3) by simp
    ultimately show "int_value F ?s (Add Int32 (Mul Int32 oe (Div Int32 (Add Int32 (Sub Int32 hi lo) ml) fe)) ie)
        (a * ?P + b)"
      using block_position [OF ab r(2) fn(2)] by (intro int_binary(1,3) piece) auto
  qed (use n in auto)
  moreover have "filter (\<lambda>x. 0 \<le> x \<and> x < h) [0 * ?P..int n * ?P - 1] = [0..h - 1]"
    using r(1) by (intro filter_upto) auto
  ultimately show ?thesis using e by blast
qed

subsection \<open>Fuse\<close>

lemma fuse_walks:
  assumes g: "ProvenanceGraph_make (SuchThatNode st [FuseRel oo i f]) = ok g" and d: "distinct [oo, i, f]"
  shows "getParents g f = [oo, i]" "getParents g oo = []" "getParents g i = []" "getChildren g oo = [f]"
    "getChildren g i = [f]" "getChildren g f = []" "rel_at (parentRelMap g) f = ok (FuseRel oo i f)"
    "rel_at (childRelMap g) oo = ok (FuseRel oo i f)" "rel_at (childRelMap g) i = ok (FuseRel oo i f)"
    "getUnderivedAncestors g oo = ok [oo]" "getUnderivedAncestors g i = ok [i]" "getUnderivedAncestors g f = ok [oo, i]"
    "hasPosDescendant g f = ok False" "\<exists>k. depth g = Suc (Suc (Suc k))"
proof -
  note rel = one_relation [OF g rel_getParents.simps(5) rel_getChildren.simps(5)]
  from rel(5) d obtain k where k: "depth g = Suc (Suc (Suc k))" using two_steps [of oo i g] by auto
  then show "\<exists>k. depth g = Suc (Suc (Suc k))" ..
  show gr: "getParents g f = [oo, i]" "getParents g oo = []" "getParents g i = []" "getChildren g oo = [f]"
    "getChildren g i = [f]" "getChildren g f = []" "rel_at (parentRelMap g) f = ok (FuseRel oo i f)"
    "rel_at (childRelMap g) oo = ok (FuseRel oo i f)" "rel_at (childRelMap g) i = ok (FuseRel oo i f)"
    using d by (auto simp: rel rel_at_def)
  show "getUnderivedAncestors g oo = ok [oo]" "getUnderivedAncestors g i = ok [i]" "getUnderivedAncestors g f = ok [oo, i]"
    by (simp_all add: getUnderivedAncestors_def k gr concatR_def)
  show "hasPosDescendant g f = ok False"
    by (simp add: hasPosDescendant_def isPosVariable_def k gr isUnderived_def)
qed

definition two_bounds :: "IndexVar \<Rightarrow> expr list \<Rightarrow> IndexVar \<Rightarrow> expr list \<Rightarrow> bound_map" where
  "two_bounds v b w c = set_bounds v b (set_bounds w c [])"

lemma fuse_exprs:
  assumes g: "ProvenanceGraph_make (SuchThatNode st [FuseRel oo i f]) = ok g" and d: "distinct [oo, i, f]"
    and v: "loop_variable names oo lo'" "loop_variable names i li" "loop_variable names f lf"
    and t: "etype a = Int32" "etype b = Int32" "etype c = Int32" "etype d = Int32"
  obtains fe where
    "deriveIterBounds F g its [f] (two_bounds oo [a, b] i [c, d]) names f =
      ok [Add Int32 (Mul Int32 a (Sub Int32 d c)) c, Add Int32 (Mul Int32 b (Sub Int32 d c)) c]"
    "recoverVariable F g its [f] (two_bounds oo [a, b] i [c, d]) names oo = ok (Some (Div Int32 fe (Sub Int32 d c)))"
    "recoverVariable F g its [f] (two_bounds oo [a, b] i [c, d]) names i = ok (Some (Rem Int32 fe (Sub Int32 d c)))"
    "\<And>s x. fits x \<Longrightarrow> scalars s lf = Some x \<Longrightarrow> int_value F s fe x"
proof -
  obtain fe where fe: "etype fe = Int32" "var_expr names f = ok fe"
    "\<And>F s x. fits x \<Longrightarrow> scalars s lf = Some x \<Longrightarrow> int_value F s fe x"
    using loop_variable_value [OF v(3)] by metis
  have k: "has_key names oo" "has_key names i" using loop_variable_value v(1,2) by metis+
  note w = fuse_walks [OF g d]
  obtain n where n: "depth g = Suc (Suc (Suc n))" using w(14) by auto
  let ?b = "two_bounds oo [a, b] i [c, d]"
  let ?r = "[Add Int32 (Mul Int32 a (Sub Int32 d c)) c, Add Int32 (Mul Int32 b (Sub Int32 d c)) c]"
  from d have ne: "i \<noteq> oo" "oo \<noteq> i" by auto
  have comb: "combineParentBounds [a, b] [c, d] = ok ?r"
    using t by (simp add: combineParentBounds_def at_index_def int_make)
  have b: "bounds_of ?b oo = [a, b]" "bounds_of ?b i = [c, d]" "has_key ?b oo" "has_key ?b i"
    using ne by (simp_all add: two_bounds_def)
  have coord: "deriveCoordBounds g [] ?b names = ok ?b"
    "deriveCoordBounds g [f] ?b names = ok (set_bounds oo ?r ?b)"
    by (simp_all add: deriveCoordBounds_def derive_step_def isUnderived_def addRelativeBoundsToMap_def n w
        Fuse_computeRelativeBound_def b comb computeBoundsForUnderivedAncestors_def at_index_def)
  note ev = deriveIterBounds_def n isUnderived_def isFullyDerived_def w coord_bounds_of_def coord parent_bound_def b ne
    Fuse_deriveIterBounds_def comb at_index_def recoverVariable_def Fuse_recoverVariable_def k t fe(1,2)
    int_make int_make_more
  show thesis
  proof (rule that [of fe])
    show "deriveIterBounds F g its [f] ?b names f = ok ?r" by (simp add: ev)
    show "recoverVariable F g its [f] ?b names oo = ok (Some (Div Int32 fe (Sub Int32 d c)))" by (simp add: ev)
    show "recoverVariable F g its [f] ?b names i = ok (Some (Rem Int32 fe (Sub Int32 d c)))" by (simp add: ev)
  qed (fact fe)
qed

definition loop_pairs :: "fpu \<Rightarrow> state \<Rightarrow> location \<Rightarrow> expr list \<Rightarrow> expr \<Rightarrow> expr \<Rightarrow> (int \<times> int) list res" where
  "loop_pairs F s v b e e' =
     bindR (range_of F s b) (mapR (\<lambda>x. let sx = set_scalar v x s in
       bindR (eval F sx e) (\<lambda>y. bindR (eval F sx e') (\<lambda>y'. ok (y, y')))))"

lemma pairs_of_positions:
  fixes m :: int
  assumes "0 \<le> m" "A \<le> B"
  shows "map (\<lambda>y. (y div m, y mod m)) [A * m..B * m - 1] = concat (map (\<lambda>x. map (Pair x) [0..m - 1]) [A..B - 1])"
proof -
  show ?thesis
    unfolding blocks [OF assms, symmetric] map_concat list.map_comp
    by (intro arg_cong [where f = concat] map_cong refl) auto
qed

text \<open>(C13) Fusing two loops, the inner one from 0, keeps the pairs of their iterations and their order.\<close>

theorem fuse_visits_pairs_in_order:
  assumes g: "ProvenanceGraph_make (SuchThatNode st [FuseRel oo i f]) = ok g" and dist: "distinct [oo, i, f]"
    and v: "loop_variable names oo lo'" "loop_variable names i li" "loop_variable names f lf"
    and b: "int_value F s a x0" "int_value F s b x1" "int_value F s c 0" "int_value F s d m"
    and le: "0 \<le> x0" "x0 \<le> x1" "0 \<le> m" and fits: "fits (x1 * m)"
    and stable: "lf \<notin> set (scalar_reads c @ scalar_reads d)"
  shows "\<exists>fb eo ei.
    deriveIterBounds F g its [f] (two_bounds oo [a, b] i [c, d]) names f = ok fb \<and>
    recoverVariable F g its [f] (two_bounds oo [a, b] i [c, d]) names oo = ok (Some eo) \<and>
    recoverVariable F g its [f] (two_bounds oo [a, b] i [c, d]) names i = ok (Some ei) \<and>
    loop_pairs F s lf fb eo ei = ok (concat (map (\<lambda>x. map (Pair x) [0..m - 1]) [x0..x1 - 1]))"
proof -
  obtain fe where e:
    "deriveIterBounds F g its [f] (two_bounds oo [a, b] i [c, d]) names f =
      ok [Add Int32 (Mul Int32 a (Sub Int32 d c)) c, Add Int32 (Mul Int32 b (Sub Int32 d c)) c]"
    "recoverVariable F g its [f] (two_bounds oo [a, b] i [c, d]) names oo = ok (Some (Div Int32 fe (Sub Int32 d c)))"
    "recoverVariable F g its [f] (two_bounds oo [a, b] i [c, d]) names i = ok (Some (Rem Int32 fe (Sub Int32 d c)))"
    and x: "\<And>s x. fits x \<Longrightarrow> scalars s lf = Some x \<Longrightarrow> int_value F s fe x"
    using fuse_exprs [OF g dist v int_valueD(1) [OF b(1)] int_valueD(1) [OF b(2)] int_valueD(1) [OF b(3)]
        int_valueD(1) [OF b(4)]] by metis
  have m: "x0 * m \<le> x1 * m" "0 \<le> x0 * m" using le by (auto intro: mult_right_mono)
  have fm: "fits m" "fits (x0 * m)" using int_valueD(3) [OF b(4)] m fits by (auto intro: fits_between)
  have size: "int_value F s' (Sub Int32 d c) m" if "int_value F s' c 0" "int_value F s' d m" for s'
    using int_binary(2) [OF that(2,1)] fm by simp
  have "range_of F s [Add Int32 (Mul Int32 a (Sub Int32 d c)) c, Add Int32 (Mul Int32 b (Sub Int32 d c)) c] =
      ok [x0 * m..x1 * m - 1]"
    using int_binary(1) [OF int_binary(3) [OF b(1) size] b(3)] int_binary(1) [OF int_binary(3) [OF b(2) size] b(3)] b fm fits
    by (simp add: range_of_def at_index_def int_value_def)
  moreover have "bindR (eval F (set_scalar lf y s) (Div Int32 fe (Sub Int32 d c))) (\<lambda>p.
      bindR (eval F (set_scalar lf y s) (Rem Int32 fe (Sub Int32 d c))) (\<lambda>q. ok (p, q))) = ok (y div m, y mod m)"
    if y: "y \<in> set [x0 * m..x1 * m - 1]" for y
  proof -
    let ?s = "set_scalar lf y s"
    have yr: "0 \<le> y" "fits y" "x0 * m < x1 * m" using y m fits by (auto simp: fits_def)
    then have pos: "0 < m" using le by (cases "m = 0") auto
    have cd: "int_value F ?s c 0" "int_value F ?s d m"
      using stable by (auto intro!: int_value_frame [OF b(3) frame_set_scalar] int_value_frame [OF b(4) frame_set_scalar])
    have "int_value F ?s fe y" using x [of y ?s] yr(2) by (simp add: set_scalar_def)
    note q = int_quotient [OF this size [OF cd] yr(1) pos]
    show ?thesis by (simp only: int_valueD(2) [OF q(1)] int_valueD(2) [OF q(2)] bindR_Inr)
  qed
  ultimately have "loop_pairs F s lf [Add Int32 (Mul Int32 a (Sub Int32 d c)) c, Add Int32 (Mul Int32 b (Sub Int32 d c)) c]
      (Div Int32 fe (Sub Int32 d c)) (Rem Int32 fe (Sub Int32 d c)) =
      ok (map (\<lambda>y. (y div m, y mod m)) [x0 * m..x1 * m - 1])"
    by (simp add: loop_pairs_def Let_def) (rule mapR_ok, simp)
  with e show ?thesis unfolding pairs_of_positions [OF le(3,2)] by blast
qed

end
