(* ===== verification/Bounds_Example.thy ===== *)
theory Bounds_Example
  imports Bounds_Sound
begin

text \<open>
  The nests of \<open>Bounds_Sound\<close> on concrete loops, and loops that do not meet its conditions: where the bounds
  and the recovered variables do not fit together.
\<close>

subsection \<open>A loop over \<open>i0\<close>, split, divided or fused\<close>

definition loop_names :: var_map where
  "loop_names = map (\<lambda>n. (split_vars n, Var n (''i'' @ show_nat n) Int32 False False False)) [0, 1, 2]"

definition no_iterators :: Iterators where
  "no_iterators = \<lparr>levelIterators = [], modeAccesses = [], modeIterators = []\<rparr>"

definition literal_bounds :: "nat \<Rightarrow> nat \<Rightarrow> expr list" where
  "literal_bounds a b = [Literal Int32 (of_nat a), Literal Int32 (of_nat b)]"

lemma loop_names_variable: "n \<in> {0, 1, 2} \<Longrightarrow> loop_variable loop_names (split_vars n) (LVar n)"
  by (auto simp: loop_variable_def loop_names_def)

lemma literal_int: "int_value F s (Literal Int32 n) (member_get Int32 n)"
  using wrapS_range [of 32 "uint n"] by (simp add: int_value_def fits_def member_get_def read_bits_def kind_preds)

lemma small_literals: "member_get Int32 0 = 0" "member_get Int32 2 = 2" "member_get Int32 5 = 5" "member_get Int32 3 = 3"
  by code_simp+

lemma relation_graph:
  "rel_getParents rel = ok ps \<Longrightarrow> rel_getChildren rel = ok cs \<Longrightarrow> \<exists>g. ProvenanceGraph_make (SuchThatNode st [rel]) = ok g"
  by (simp add: ProvenanceGraph_make_def add_relation_def)

lemma upto_small: "[0..5 - 1 :: int] = [0, 1, 2, 3, 4]" "[0..3 - 1 :: int] = [0, 1, 2]" "[0..2 - 1 :: int] = [0, 1]"
    "[2..5 - 1 :: int] = [2, 3, 4]"
  by (simp_all add: upto.simps)

lemma split_visits_parent_in_order_witness:
  "\<exists>g. ProvenanceGraph_make (SuchThatNode NoStmt [SplitRel (split_vars 0) (split_vars 1) (split_vars 2) 2]) = ok g \<and>
    (\<forall>s. \<exists>ob ib e xs.
      deriveIterBounds fpu_null g no_iterators [split_vars 1] [(split_vars 0, literal_bounds 2 5)] loop_names (split_vars 1) = ok ob \<and>
      nest_values fpu_null s (LVar 1) (LVar 2) ob ib e = ok xs \<and> filter (\<lambda>x. 2 \<le> x \<and> x < 5) xs = [2, 3, 4])"
proof -
  obtain g where g: "ProvenanceGraph_make (SuchThatNode NoStmt [SplitRel (split_vars 0) (split_vars 1) (split_vars 2) 2]) = ok g"
    using relation_graph [of "SplitRel (split_vars 0) (split_vars 1) (split_vars 2) 2"] by fastforce
  have "\<exists>ob ib e xs.
      deriveIterBounds fpu_null g no_iterators [split_vars 1] [(split_vars 0, literal_bounds 2 5)] loop_names (split_vars 1) = ok ob \<and>
      nest_values fpu_null s (LVar 1) (LVar 2) ob ib e = ok xs \<and> filter (\<lambda>x. 2 \<le> x \<and> x < 5) xs = [2, 3, 4]" for s
    using split_visits_parent_in_order [OF g _ loop_names_variable loop_names_variable loop_names_variable _
        literal_int [of fpu_null s 2] literal_int [of fpu_null s 5], of no_iterators]
    unfolding small_literals upto_small by (fastforce simp: literal_bounds_def fits_def)
  with g show ?thesis by blast
qed

lemma divide_visits_parent_in_order_witness:
  "\<exists>g. ProvenanceGraph_make (SuchThatNode NoStmt [DivideRel (split_vars 0) (split_vars 1) (split_vars 2) 2]) = ok g \<and>
    (\<forall>s. \<exists>ob ib e xs.
      deriveIterBounds fpu_null g no_iterators [split_vars 1] [(split_vars 0, literal_bounds 0 5)] loop_names (split_vars 1) = ok ob \<and>
      nest_values fpu_null s (LVar 1) (LVar 2) ob ib e = ok xs \<and> filter (\<lambda>x. 0 \<le> x \<and> x < 5) xs = [0, 1, 2, 3, 4])"
proof -
  obtain g where g: "ProvenanceGraph_make (SuchThatNode NoStmt [DivideRel (split_vars 0) (split_vars 1) (split_vars 2) 2]) = ok g"
    using relation_graph [of "DivideRel (split_vars 0) (split_vars 1) (split_vars 2) 2"] by fastforce
  have "\<exists>ob ib e xs.
      deriveIterBounds fpu_null g no_iterators [split_vars 1] [(split_vars 0, literal_bounds 0 5)] loop_names (split_vars 1) = ok ob \<and>
      nest_values fpu_null s (LVar 1) (LVar 2) ob ib e = ok xs \<and> filter (\<lambda>x. 0 \<le> x \<and> x < 5) xs = [0, 1, 2, 3, 4]" for s
    using divide_visits_parent_in_order [OF g _ loop_names_variable loop_names_variable loop_names_variable _
        literal_int [of fpu_null s 0, unfolded small_literals] literal_int [of fpu_null s 5], of no_iterators]
    unfolding small_literals upto_small by (fastforce simp: literal_bounds_def fits_def)
  with g show ?thesis by blast
qed

lemma fuse_visits_pairs_in_order_witness:
  "\<exists>g. ProvenanceGraph_make (SuchThatNode NoStmt [FuseRel (split_vars 0) (split_vars 1) (split_vars 2)]) = ok g \<and>
    (\<forall>s. \<exists>fb eo ei.
      deriveIterBounds fpu_null g no_iterators [split_vars 2]
        (two_bounds (split_vars 0) (literal_bounds 0 2) (split_vars 1) (literal_bounds 0 3)) loop_names (split_vars 2) = ok fb \<and>
      loop_pairs fpu_null s (LVar 2) fb eo ei = ok [(0, 0), (0, 1), (0, 2), (1, 0), (1, 1), (1, 2)])"
proof -
  obtain g where g: "ProvenanceGraph_make (SuchThatNode NoStmt [FuseRel (split_vars 0) (split_vars 1) (split_vars 2)]) = ok g"
    using relation_graph [of "FuseRel (split_vars 0) (split_vars 1) (split_vars 2)"] by fastforce
  have pairs: "concat (map (\<lambda>x. map (Pair x) [0..3 - 1]) [0..2 - 1]) = [(0, 0), (0, 1), (0, 2), (1, 0), (1, 1), (1, 2 :: int)]"
    unfolding upto_small by simp
  have "\<exists>fb eo ei.
      deriveIterBounds fpu_null g no_iterators [split_vars 2]
        (two_bounds (split_vars 0) (literal_bounds 0 2) (split_vars 1) (literal_bounds 0 3)) loop_names (split_vars 2) = ok fb \<and>
      loop_pairs fpu_null s (LVar 2) fb eo ei = ok [(0, 0), (0, 1), (0, 2), (1, 0), (1, 1), (1, 2)]" for s
    using fuse_visits_pairs_in_order [OF g _ loop_names_variable loop_names_variable loop_names_variable
        literal_int [of fpu_null s 0, unfolded small_literals] literal_int [of fpu_null s 2]
        literal_int [of fpu_null s 0, unfolded small_literals] literal_int [of fpu_null s 3], of no_iterators]
    unfolding small_literals pairs by (fastforce simp: literal_bounds_def fits_def)
  with g show ?thesis by blast
qed

subsection \<open>Loops that do not start at 0\<close>

definition empty_state :: state where
  "empty_state = \<lparr>scalars = Map.empty, arrays = Map.empty, ext_calls = (\<lambda>_ _. err BadMemory)\<rparr>"

definition divided_visits :: "nat \<Rightarrow> nat \<Rightarrow> nat \<Rightarrow> int list res" where
  "divided_visits lo hi n =
     (let p = split_vars 0; ov = split_vars 1; iv = split_vars 2; b = [(p, literal_bounds lo hi)] in
      bindR (ProvenanceGraph_make (SuchThatNode NoStmt [DivideRel p ov iv n])) (\<lambda>g.
      bindR (deriveIterBounds fpu_null g no_iterators [ov] b loop_names ov) (\<lambda>ob.
      bindR (deriveIterBounds fpu_null g no_iterators [ov, iv] b loop_names iv) (\<lambda>ib.
      bindR (recoverVariable fpu_null g no_iterators [ov, iv] b loop_names p) (\<lambda>e.
        case e of None \<Rightarrow> ok [] | Some e \<Rightarrow> nest_values fpu_null empty_state (LVar 1) (LVar 2) ob ib e)))))"

text \<open>The inner loop of a divided loop runs from the parent's lower bound divided by the factor, but the
  pieces are counted from 0: the loop over 5 to 9, divided by 2, visits neither 8 nor 9.\<close>

lemma divide_loses_iterations: "divided_visits 5 10 2 = ok [2, 3, 4, 5, 6, 7]"
  by code_simp

definition fused_visits :: "nat \<times> nat \<Rightarrow> nat \<times> nat \<Rightarrow> (int \<times> int) list res" where
  "fused_visits outer inner =
     (let oo = split_vars 0; i = split_vars 1; f = split_vars 2;
          b = two_bounds oo (literal_bounds (fst outer) (snd outer)) i (literal_bounds (fst inner) (snd inner)) in
      bindR (ProvenanceGraph_make (SuchThatNode NoStmt [FuseRel oo i f])) (\<lambda>g.
      bindR (deriveIterBounds fpu_null g no_iterators [f] b loop_names f) (\<lambda>fb.
      bindR (recoverVariable fpu_null g no_iterators [f] b loop_names oo) (\<lambda>eo.
      bindR (recoverVariable fpu_null g no_iterators [f] b loop_names i) (\<lambda>ei.
        case (eo, ei) of (Some eo, Some ei) \<Rightarrow> loop_pairs fpu_null empty_state (LVar 2) fb eo ei | _ \<Rightarrow> ok [])))))"

text \<open>\<open>combineParentBounds\<close> claims to be properly offset when the inner loop does not start at 0. The fused loop
  has as many iterations as there are pairs, but they are others: for 0 to 1 and 1 to 2, neither \<open>(0, 2)\<close> nor
  \<open>(1, 2)\<close> is visited.\<close>

lemma fuse_loses_pairs: "fused_visits (0, 2) (1, 3) = ok [(0, 1), (1, 0), (1, 1), (2, 0)]"
  by code_simp

text \<open>Recovering the outer half of a split gives the start of its block, not its number.\<close>

lemma split_outer_child:
  "bindR (ProvenanceGraph_make (SuchThatNode NoStmt [SplitRel (split_vars 0) (split_vars 1) (split_vars 2) 4])) (\<lambda>g.
     recoverChild g no_iterators (split_vars 1) loop_names True) =
   ok (Some (VarDecl (Var 1 ''i1'' Int32 False False False)
     (Sub Int32 (Var 0 ''i0'' Int32 False False False) (Var 2 ''i2'' Int32 False False False))))"
  by code_simp

end
