(* ===== verification/Merge_Lattice.thy ===== *)
theory Merge_Lattice
  imports Iterators
begin

text \<open>
  Merge lattices (src/lower/merge_lattice.cpp, include/taco/lower/merge_lattice.h): for the loops over one
  index variable, which iterators are iterated together, and in which order, so that the loops meet every
  coordinate at which the expression of the loop is not zero.

  A lattice is the list of its points. Sets of iterators are lists in the order of \<open>operator<\<close>. That order
  compares addresses while equality does not, so it is an order only on iterators among which equal ones are
  the same object; on these a list in order behaves as the set of the code does. The builder keeps the map of
  the lattices of temporaries and makes dimension iterators, so it threads a state. Printers are left out.
\<close>

subsection \<open>Sets of iterators\<close>

fun set_insert :: "Iterator \<Rightarrow> Iterator list \<Rightarrow> Iterator list res" where
  "set_insert it [] = ok [it]"
| "set_insert it (x # xs) =
     ifR (it_less x it) (bindR (set_insert it xs) (\<lambda>ys. ok (x # ys)))
       (ifR (it_less it x) (ok (it # x # xs)) (ok (x # xs)))"

definition set_of :: "Iterator list \<Rightarrow> Iterator list res" where
  "set_of its = foldR set_insert its []"

definition set_contains :: "Iterator list \<Rightarrow> Iterator \<Rightarrow> bool res" where
  "set_contains s it = anyR (\<lambda>x. andR (notR (it_less x it)) (notR (it_less it x))) s"

text \<open>Equality of two lists of iterators, element by element.\<close>

fun its_equal :: "Iterator list \<Rightarrow> Iterator list \<Rightarrow> bool res" where
  "its_equal [] [] = ok True"
| "its_equal (a # as) (b # bs) = ifR (it_eq a b) (its_equal as bs) (ok False)"
| "its_equal _ _ = ok False"

definition compare_its :: "Iterator list \<Rightarrow> Iterator list \<Rightarrow> bool res" where
  "compare_its a b = (if length a \<noteq> length b then ok False else its_equal a b)"

subsection \<open>Merge points\<close>

record MergePoint =
  mp_iterators :: "Iterator list"
  mp_locators :: "Iterator list"
  mp_results :: "Iterator list"

type_synonym MergeLattice = "MergePoint list"

definition MergePoint_make :: "Iterator list \<Rightarrow> Iterator list \<Rightarrow> Iterator list \<Rightarrow> MergePoint res" where
  "MergePoint_make its locs ress =
     bindR (allR (\<lambda>it. orR (it_hasLocate it) (it_isOrdered it)) its) (\<lambda>b.
       assertR UError b (ok \<lparr>mp_iterators = its, mp_locators = locs, mp_results = ress\<rparr>))"

definition rangers :: "MergePoint \<Rightarrow> Iterator list res" where
  "rangers p =
     ifR (anyR (\<lambda>it. notR (it_isFull it)) (mp_iterators p))
       (filterR (\<lambda>it. notR (it_isFull it)) (mp_iterators p))
       (ok (mp_iterators p))"

definition mergers :: "MergePoint \<Rightarrow> Iterator list res" where
  "mergers p =
     ifR (anyR it_isFull (mp_iterators p))
       (filterR it_isFull (mp_iterators p))
       (bindR (countR (\<lambda>it. andR (notR (it_isFull it)) (isDimensionIterator it)) (mp_iterators p)) (\<lambda>numNotFull.
          if numNotFull \<noteq> length (mp_iterators p) \<and> numNotFull > 0
          then filterR (\<lambda>it. notR (isDimensionIterator it)) (mp_iterators p)
          else ok (mp_iterators p)))"

definition point_equals :: "MergePoint \<Rightarrow> MergePoint \<Rightarrow> bool res" where
  "point_equals a b =
     andR (compare_its (mp_iterators a) (mp_iterators b))
       (andR (compare_its (mp_locators a) (mp_locators b)) (compare_its (mp_results a) (mp_results b)))"

subsection \<open>Lattices\<close>

fun points_equal :: "MergePoint list \<Rightarrow> MergePoint list \<Rightarrow> bool res" where
  "points_equal (a # as) (b # bs) = ifR (point_equals a b) (points_equal as bs) (ok False)"
| "points_equal _ _ = ok True"

definition lattice_equals :: "MergeLattice \<Rightarrow> MergeLattice \<Rightarrow> bool res" where
  "lattice_equals a b = (if length a \<noteq> length b then ok False else points_equal a b)"

definition lattice_iterators :: "MergeLattice \<Rightarrow> Iterator list res" where
  "lattice_iterators L = (case L of [] \<Rightarrow> err IAssert | p # _ \<Rightarrow> ok (mp_iterators p))"

definition lattice_results :: "MergeLattice \<Rightarrow> Iterator list res" where
  "lattice_results L = (case L of [] \<Rightarrow> err IAssert | p # _ \<Rightarrow> ok (mp_results p))"

text \<open>\<open>sort\<close> and \<open>includes\<close> of the standard library.\<close>

fun sort_insert :: "Iterator \<Rightarrow> Iterator list \<Rightarrow> Iterator list res" where
  "sort_insert it [] = ok [it]"
| "sort_insert it (x # xs) =
     ifR (it_less x it) (bindR (sort_insert it xs) (\<lambda>ys. ok (x # ys))) (ok (it # x # xs))"

definition sort_its :: "Iterator list \<Rightarrow> Iterator list res" where
  "sort_its its = foldR sort_insert its []"

fun std_includes :: "Iterator list \<Rightarrow> Iterator list \<Rightarrow> bool res" where
  "std_includes xs [] = ok True"
| "std_includes [] (y # ys) = ok False"
| "std_includes (x # xs) (y # ys) =
     ifR (it_less y x) (ok False) (ifR (it_less x y) (std_includes xs (y # ys)) (std_includes xs ys))"

definition subLattice :: "MergeLattice \<Rightarrow> MergePoint \<Rightarrow> MergeLattice res" where
  "subLattice L lp =
     bindR (sort_its (mp_iterators lp)) (\<lambda>lpIterators.
       filterR (\<lambda>lq. bindR (sort_its (mp_iterators lq)) (std_includes lpIterators)) L)"

definition exhausted :: "MergeLattice \<Rightarrow> MergePoint \<Rightarrow> Iterator list res" where
  "exhausted L point =
     bindR (set_of (mp_iterators point)) (\<lambda>notExhausted.
     bindR (lattice_iterators L) (\<lambda>its.
       foldR (\<lambda>it s. ifR (set_contains notExhausted it) (ok s) (set_insert it s)) its []))"

definition exact :: "MergeLattice \<Rightarrow> bool res" where
  "exact L =
     ifR (anyR (\<lambda>p. allR it_isFull (mp_iterators p)) L) (ok True)
       (bindR (foldR (\<lambda>p s. case mp_iterators p of [it] \<Rightarrow> set_insert it s | _ \<Rightarrow> ok s) L []) (\<lambda>uniquelyMerged.
        bindR (lattice_iterators L) (allR (set_contains uniquelyMerged))))"

text \<open>The free functions \<open>deduplicate\<close> and \<open>simplify\<close>.\<close>

fun deduplicate_from :: "bool \<Rightarrow> Iterator list \<Rightarrow> Iterator list res" where
  "deduplicate_from added [] = ok []"
| "deduplicate_from added (it # its) =
     ifR (andR (it_isFull it) (it_isOrdered it))
       (if added then deduplicate_from True its
        else bindR (deduplicate_from True its) (\<lambda>r. ok (it # r)))
       (bindR (deduplicate_from added its) (\<lambda>r. ok (it # r)))"

definition deduplicate :: "Iterator list \<Rightarrow> Iterator list res" where
  "deduplicate = deduplicate_from False"

text \<open>The full iterators kept are the state of the loop.\<close>

fun simplify_step :: "Iterator \<Rightarrow> Iterator list \<times> Iterator list \<Rightarrow> (Iterator list \<times> Iterator list) res" where
  "simplify_step it (simplified, full) =
     ifR (notR (it_isFull it)) (ok (simplified @ [it], full))
       (case full of
          [] \<Rightarrow> ok (simplified, [it])
        | f # _ \<Rightarrow>
            ifR (notR (it_hasLocate it))
              (ifR (it_hasLocate f) (ok (simplified, [it])) (ok (simplified, full @ [it])))
              (ok (simplified, full)))"

definition simplify_iterators :: "Iterator list \<Rightarrow> Iterator list res" where
  "simplify_iterators its = bindR (foldR simplify_step its ([], [])) (\<lambda>(s, f). ok (s @ f))"

subsection \<open>Intersection and union\<close>

fun dedup_dimensions_from :: "bool \<Rightarrow> Iterator list \<Rightarrow> Iterator list res" where
  "dedup_dimensions_from found [] = ok []"
| "dedup_dimensions_from found (it # its) =
     ifR (isDimensionIterator it)
       (if found then dedup_dimensions_from True its
        else bindR (dedup_dimensions_from True its) (\<lambda>r. ok (it # r)))
       (bindR (dedup_dimensions_from found its) (\<lambda>r. ok (it # r)))"

definition deduplicateDimensionIterators :: "Iterator list \<Rightarrow> Iterator list res" where
  "deduplicateDimensionIterators = dedup_dimensions_from False"

definition locateFromLeft :: "MergeLattice \<Rightarrow> MergeLattice \<Rightarrow> bool res" where
  "locateFromLeft left right =
     bindR (lattice_iterators right) (\<lambda>r.
     ifR (anyR isDimensionIterator r) (ok False)
       (bindR (lattice_iterators left) (\<lambda>l.
        ifR (anyR isDimensionIterator l) (ok True)
       (ifR (anyR (\<lambda>it. andR (it_isFull it) (it_hasLocate it)) r) (ok False)
       (ifR (anyR (\<lambda>it. andR (it_isFull it) (it_hasLocate it)) l) (ok True)
          (bindR (countR it_hasLocate l) (\<lambda>nl. bindR (countR it_hasLocate r) (\<lambda>nr. ok (nl > nr)))))))))"

definition intersectPoints :: "bool \<Rightarrow> MergePoint \<Rightarrow> MergePoint \<Rightarrow> MergePoint res" where
  "intersectPoints locateLeft left right =
     bindR (splitR (\<lambda>it. notR (it_hasLocate it)) (mp_iterators (if locateLeft then left else right)))
       (\<lambda>(iterators, locators).
     bindR (filterR (\<lambda>it. notR (isDimensionIterator it)) iterators) (\<lambda>iterators.
     bindR (deduplicateDimensionIterators
              (if locateLeft then iterators @ mp_iterators right else mp_iterators left @ iterators)) (\<lambda>its.
       MergePoint_make its
         (if locateLeft then locators @ mp_locators left @ mp_locators right
          else mp_locators left @ locators @ mp_locators right)
         (mp_results left @ mp_results right))))"

definition unionPoints :: "MergePoint \<Rightarrow> MergePoint \<Rightarrow> MergePoint res" where
  "unionPoints left right =
     bindR (deduplicateDimensionIterators (mp_iterators left @ mp_iterators right)) (\<lambda>its.
       MergePoint_make its (mp_locators left @ mp_locators right) (mp_results left @ mp_results right))"

definition all_pairs :: "(MergePoint \<Rightarrow> MergePoint \<Rightarrow> MergePoint res) \<Rightarrow> MergeLattice \<Rightarrow> MergeLattice \<Rightarrow> MergeLattice res" where
  "all_pairs f left right = mapR (\<lambda>(l, r). f l r) (List.product left right)"

text \<open>Which side to locate from is decided before the loops over the points.\<close>

definition intersectLattices :: "MergeLattice \<Rightarrow> MergeLattice \<Rightarrow> MergeLattice res" where
  "intersectLattices left right =
     bindR (locateFromLeft left right) (\<lambda>locateLeft. all_pairs (intersectPoints locateLeft) left right)"

definition insertDimensionIteratorIfNotOrdered :: "MergeLattice \<Rightarrow> MergeLattice build" where
  "insertDimensionIteratorIfNotOrdered = mapB (\<lambda>point.
     bindB (liftB (andR (anyR (\<lambda>it. notR (it_isOrdered it)) (mp_iterators point))
                        (notR (anyR isDimensionIterator (mp_iterators point))))) (\<lambda>b.
       if b then
         bindB (liftB (bindR (at_index (mp_iterators point) 0) it_getIndexVar)) (\<lambda>v.
         bindB (dimension_iterator v True) (\<lambda>dimension.
           liftB (MergePoint_make (mp_iterators point @ [dimension]) (mp_locators point) (mp_results point))))
       else retB point))"

definition moveLocateSubsetIteratorsToLocateSet :: "MergeLattice \<Rightarrow> MergeLattice res" where
  "moveLocateSubsetIteratorsToLocateSet points =
     bindR (at_index points 0) (\<lambda>p0.
     bindR (filterR it_isFull (mp_iterators p0)) (\<lambda>full.
       case full of
         [] \<Rightarrow> ok points
       | firstFull # _ \<Rightarrow>
           mapR (\<lambda>point.
             bindR (splitR (\<lambda>it. andR (it_hasLocate it) (notR (it_eq it firstFull))) (mp_iterators point))
               (\<lambda>(locators, iterators).
                 MergePoint_make iterators (mp_locators point @ locators) (mp_results point))) points))"

definition removePointsThatLackFullIterators :: "MergeLattice \<Rightarrow> MergeLattice res" where
  "removePointsThatLackFullIterators points =
     bindR (at_index points 0) (\<lambda>p0.
     bindR (filterR it_isFull (mp_iterators p0)) (\<lambda>full.
       filterR (\<lambda>point. allR (containsR it_eq (mp_iterators point)) full) points))"

fun remove_identical :: "Iterator list list \<Rightarrow> MergeLattice \<Rightarrow> MergeLattice res" where
  "remove_identical iteratorSets [] = ok []"
| "remove_identical iteratorSets (point # points) =
     bindR (set_of (mp_iterators point)) (\<lambda>iteratorSet.
     ifR (anyR (compare_its iteratorSet) iteratorSets) (remove_identical iteratorSets points)
       (bindR (remove_identical (iteratorSet # iteratorSets) points) (\<lambda>r. ok (point # r))))"

definition removePointsWithIdenticalIterators :: "MergeLattice \<Rightarrow> MergeLattice res" where
  "removePointsWithIdenticalIterators = remove_identical []"

definition unionLattices :: "MergeLattice \<Rightarrow> MergeLattice \<Rightarrow> MergeLattice build" where
  "unionLattices left right =
     bindB (liftB (all_pairs unionPoints left right)) (\<lambda>pairs.
     bindB (insertDimensionIteratorIfNotOrdered (pairs @ left @ right)) (\<lambda>points.
       liftB (bindR (moveLocateSubsetIteratorsToLocateSet points) (\<lambda>points.
              bindR (removePointsThatLackFullIterators points)
                removePointsWithIdenticalIterators))))"

subsection \<open>The builder\<close>

text \<open>What the builder is constructed with, and its state: the lattices of the temporaries, next to the
  addresses of the constructors.\<close>

record lattice_context =
  lc_i :: IndexVar
  lc_iterators :: Iterators
  lc_provGraph :: ProvenanceGraph
  lc_whereTempsToResult :: "TensorVar \<Rightarrow> Access option"

record merge_builder =
  mb_build :: builder
  latticesOfTemporaries :: "(TensorVar \<times> MergeLattice) list"

type_synonym 'a merging = "(merge_builder, 'a) stateful"

definition buildM :: "'a build \<Rightarrow> 'a merging" where
  "buildM m = (\<lambda>s. bindR (m (mb_build s)) (\<lambda>(x, b). ok (x, s\<lparr>mb_build := b\<rparr>)))"

text \<open>The loop over the variables of an access: the location of each underived ancestor, or \<open>None\<close> at a
  temporary accessed by a scheduled variable.\<close>

fun ancestor_locations ::
    "ProvenanceGraph \<Rightarrow> IndexVar list \<Rightarrow> nat \<Rightarrow> (IndexVar \<times> nat) list \<Rightarrow> (IndexVar \<times> nat) list option res" where
  "ancestor_locations g [] locCounter m = ok (Some m)"
| "ancestor_locations g (v # vs) locCounter m =
     bindR (getUnderivedAncestors g v) (\<lambda>underived. case underived of
         [u] \<Rightarrow> ancestor_locations g vs (locCounter + 1) (map_assign var_less u locCounter m)
       | _ \<Rightarrow> ok None)"

text \<open>The location is looked up with \<open>operator[]\<close>, which answers 0 for a variable that is not there.\<close>

definition getIterator :: "lattice_context \<Rightarrow> Access \<Rightarrow> IndexVar \<Rightarrow> Iterator res" where
  "getIterator ctx access accessVar =
     bindR (ancestor_locations (lc_provGraph ctx) (acc_indexVars access) 0 []) (\<lambda>locs. case locs of
         None \<Rightarrow> levelIterator (lc_iterators ctx) (access, 1)
       | Some m \<Rightarrow>
           bindR (getUnderivedAncestors (lc_provGraph ctx) accessVar) (\<lambda>underived.
             assertR IAssert (\<exists>v \<in> set underived. map_of m v \<noteq> None)
               (levelIterator (lc_iterators ctx)
                  (access, (case map_of m (last underived) of Some n \<Rightarrow> n | None \<Rightarrow> 0) + 1))))"

definition modeIterationLattice :: "lattice_context \<Rightarrow> MergeLattice res" where
  "modeIterationLattice ctx =
     bindR (modeIterator (lc_iterators ctx) (lc_i ctx)) (\<lambda>it.
     bindR (MergePoint_make [it] [] []) (\<lambda>p. ok [p]))"

text \<open>The iterators of the point of an access: its own, a ranger if the loop has coordinate bounds, and the one
  of its index set.\<close>

definition point_iterators :: "lattice_context \<Rightarrow> Iterator \<Rightarrow> Iterator list res" where
  "point_iterators ctx it =
     bindR (ifR (hasCoordBounds (lc_provGraph ctx) (lc_i ctx))
              (bindR (modeIterator (lc_iterators ctx) (lc_i ctx)) (\<lambda>m. ok [m])) (ok [])) (\<lambda>ranger.
     bindR (ifR (hasIndexSet it) (bindR (getIndexSetIterator it) (\<lambda>s. ok [s])) (ok [])) (\<lambda>iset.
       ok ([it] @ ranger @ iset)))"

definition located_point :: "lattice_context \<Rightarrow> Iterator \<Rightarrow> MergeLattice res" where
  "located_point ctx it =
     bindR (modeIterator (lc_iterators ctx) (lc_i ctx)) (\<lambda>m.
     bindR (MergePoint_make [m] [it] []) (\<lambda>p. ok [p]))"

text \<open>The variable of the access is the outermost underived ancestor that appears in it.\<close>

definition access_lattice :: "lattice_context \<Rightarrow> Access \<Rightarrow> MergeLattice res" where
  "access_lattice ctx access =
     (let i = lc_i ctx; g = lc_provGraph ctx in
      bindR (getUnderivedAncestors g i) (\<lambda>underived.
      bindR (concatR (getUnderivedAncestors g) (acc_indexVars access)) (\<lambda>accessUnderived.
      case find (\<lambda>v. v \<in> set accessUnderived) underived of
        None \<Rightarrow> modeIterationLattice ctx
      | Some accessVar \<Rightarrow>
          bindR (getIterator ctx access i) (\<lambda>it.
          bindR (orR (it_hasCoordIter it) (orR (it_hasPosIter it) (it_hasLocate it))) (\<lambda>b. assertR IAssert b (
          bindR (point_iterators ctx it) (\<lambda>pointIterators.
          bindR (getPosIteratorDescendant g accessVar) (\<lambda>descendant.
            if descendant = Some i
            then bindR (MergePoint_make pointIterators [] []) (\<lambda>p. ok [p])
            else ifR (isPosVariable g i) (located_point ctx it)
                (ifR (andR (notR (it_hasCoordIter it)) (notR (it_hasPosIter it)))
                   (located_point ctx it)
                   (bindR (MergePoint_make pointIterators [] []) (\<lambda>p. ok [p])))))))))))"

definition visit_Access :: "lattice_context \<Rightarrow> Access \<Rightarrow> MergeLattice merging" where
  "visit_Access ctx access s =
     (case map_of (latticesOfTemporaries s) (acc_tensorVar access) of
        Some L \<Rightarrow> ok (L, s)
      | None \<Rightarrow> liftB (access_lattice ctx access) s)"

text \<open>The operands of a sum are united, those of a product intersected; a side without points is a scalar.\<close>

definition lattice_sum :: "MergeLattice merging \<Rightarrow> MergeLattice merging \<Rightarrow> MergeLattice merging" where
  "lattice_sum ma mb =
     bindB ma (\<lambda>a. bindB mb (\<lambda>b.
       if a \<noteq> [] \<and> b \<noteq> [] then buildM (unionLattices a b) else retB (if a \<noteq> [] then a else b)))"

definition lattice_product :: "MergeLattice merging \<Rightarrow> MergeLattice merging \<Rightarrow> MergeLattice merging" where
  "lattice_product ma mb =
     bindB ma (\<lambda>a. bindB mb (\<lambda>b.
       if a \<noteq> [] \<and> b \<noteq> [] then liftB (intersectLattices a b) else retB (if a \<noteq> [] then a else b)))"

text \<open>A call: first every argument that is not zero preserving, then each set of zero-preserving ones.\<close>

definition unite_args ::
    "MergeLattice merging list \<Rightarrow> nat list \<Rightarrow> MergeLattice \<Rightarrow> MergeLattice merging" where
  "unite_args args = foldB (\<lambda>i l.
     bindB (case at_index args i of Inl e \<Rightarrow> liftB (err e) | Inr m \<Rightarrow> m) (\<lambda>argLattice.
       buildM (unionLattices l argLattice)))"

definition call_lattice ::
    "lattice_context \<Rightarrow> nat list list \<Rightarrow> MergeLattice merging list \<Rightarrow> MergeLattice merging" where
  "call_lattice ctx zeroPreservingArgsSets args =
     bindB (liftB (assertR IAssert (\<forall>s \<in> set zeroPreservingArgsSets. s \<noteq> []) (ok ()))) (\<lambda>_.
     bindB (liftB (modeIterationLattice ctx)) (\<lambda>l.
     bindB (unite_args args [i \<leftarrow> [0..<length args]. i \<notin> set (concat zeroPreservingArgsSets)] l)
       (foldB (\<lambda>zs l.
          bindB (unite_args args zs []) (\<lambda>z. liftB (intersectLattices l z))) zeroPreservingArgsSets)))"

fun build_expr :: "fpu \<Rightarrow> lattice_context \<Rightarrow> IndexExpr \<Rightarrow> MergeLattice merging" where
  "build_expr F ctx NoExpr = liftB (err BadMemory)"
| "build_expr F ctx (AccessNode access) = visit_Access ctx access"
| "build_expr F ctx (LiteralNode t u) = liftB (modeIterationLattice ctx)"
| "build_expr F ctx (NegNode a) = build_expr F ctx a"
| "build_expr F ctx (AddNode a b) = lattice_sum (build_expr F ctx a) (build_expr F ctx b)"
| "build_expr F ctx (SubNode a b) = lattice_sum (build_expr F ctx a) (build_expr F ctx b)"
| "build_expr F ctx (MulNode a b) = lattice_product (build_expr F ctx a) (build_expr F ctx b)"
| "build_expr F ctx (DivNode a b) = lattice_product (build_expr F ctx a) (build_expr F ctx b)"
| "build_expr F ctx (SqrtNode a) = build_expr F ctx a"
| "build_expr F ctx (CastNode t a) = build_expr F ctx a"
| "build_expr F ctx (CallIntrinsicNode f args) =
     bindB (liftB (intrinsic_zeroPreservingArgs F f args)) (\<lambda>sets.
       call_lattice ctx sets (map (build_expr F ctx) args))"
| "build_expr F ctx (ReductionNode opn v a) = liftB (err IError)"

text \<open>The iterators of the results of an assignment, for each underived ancestor of the loop variable.\<close>

definition var_set :: "IndexVar list \<Rightarrow> IndexVar list" where
  "var_set vs = map fst (fold (\<lambda>v. map_insert var_less v ()) vs [])"

definition result_iterators :: "lattice_context \<Rightarrow> Access \<Rightarrow> Iterator list res" where
  "result_iterators ctx lhs0 =
     (let tv = acc_tensorVar lhs0; g = lc_provGraph ctx;
          lhs = (case lc_whereTempsToResult ctx tv of
                   Some a \<Rightarrow> (if getOrder_tv tv = 0 then a else lhs0) | None \<Rightarrow> lhs0) in
      bindR (concatR (getUnderivedAncestors g) (acc_indexVars lhs)) (\<lambda>lhsUnderived.
      bindR (getUnderivedAncestors g (lc_i ctx)) (\<lambda>underived.
        foldR (\<lambda>accessVar s.
            if accessVar \<in> set lhsUnderived
            then bindR (getIterator ctx lhs accessVar) (\<lambda>it. set_insert it s) else ok s)
          (var_set underived) [])))"

definition visit_Assignment :: "fpu \<Rightarrow> lattice_context \<Rightarrow> Access \<Rightarrow> IndexExpr \<Rightarrow> MergeLattice merging" where
  "visit_Assignment F ctx lhs rhs =
     bindB (build_expr F ctx rhs) (\<lambda>lattice.
     bindB (updateB (\<lambda>s. if map_of (latticesOfTemporaries s) (acc_tensorVar lhs) = None
                          then s\<lparr>latticesOfTemporaries := (acc_tensorVar lhs, lattice) # latticesOfTemporaries s\<rparr>
                          else s)) (\<lambda>_.
     bindB (liftB (result_iterators ctx lhs)) (\<lambda>ress.
       if ress = [] then retB lattice
       else liftB (mapR (\<lambda>p. MergePoint_make (mp_iterators p) (mp_locators p) ress) lattice))))"

text \<open>C++ leaves open which statement of a multi statement is visited first; here it is the first one.\<close>

fun build_stmt :: "fpu \<Rightarrow> lattice_context \<Rightarrow> IndexStmt \<Rightarrow> MergeLattice merging" where
  "build_stmt F ctx NoStmt = liftB (err BadMemory)"
| "build_stmt F ctx (AssignmentNode lhs rhs opn) = visit_Assignment F ctx lhs rhs"
| "build_stmt F ctx (YieldNode vs e) = build_expr F ctx e"
| "build_stmt F ctx (ForallNode v s _ _ _) = build_stmt F ctx s"
| "build_stmt F ctx (WhereNode consumer producer) =
     bindB (build_stmt F ctx producer) (\<lambda>_. build_stmt F ctx consumer)"
| "build_stmt F ctx (MultiNode a b) =
     bindB (build_stmt F ctx a) (\<lambda>l. bindB (build_stmt F ctx b) (\<lambda>r. buildM (unionLattices l r)))"
| "build_stmt F ctx (SuchThatNode s rels) = liftB (err NotSupported)"
| "build_stmt F ctx (SequenceNode d m) = liftB (err NotSupported)"
| "build_stmt F ctx (AssembleNode q c) = liftB (err NotSupported)"

definition MergeLattice_make ::
    "fpu \<Rightarrow> IndexStmt \<Rightarrow> Iterators \<Rightarrow> ProvenanceGraph \<Rightarrow> IndexVar list \<Rightarrow> (TensorVar \<Rightarrow> Access option) \<Rightarrow>
     MergeLattice build" where
  "MergeLattice_make F forall iterators provGraph definedIndexVars whereTempsToResult =
     (case forall of
        ForallNode v body _ _ _ \<Rightarrow>
          (let ctx = \<lparr>lc_i = v, lc_iterators = iterators, lc_provGraph = provGraph,
                      lc_whereTempsToResult = whereTempsToResult\<rparr> in
           bindB (liftB (bindR (getUnderivedAncestors provGraph v)
                     (allR (\<lambda>ancestor. isRecoverable provGraph ancestor definedIndexVars)))) (\<lambda>recoverable.
             if \<not> recoverable then liftB (modeIterationLattice ctx)
             else (\<lambda>b. bindR (build_stmt F ctx body \<lparr>mb_build = b, latticesOfTemporaries = []\<rparr>)
                              (\<lambda>(L, s). ok (L, mb_build s)))))
      | _ \<Rightarrow> liftB (err TypeError))"

end
