(* ===== verification/Lattice_Points.thy ===== *)
theory Lattice_Points
  imports Merge_Lattice "HOL-Library.Multiset"
begin

text \<open>
  The operations on merge points and lattices over iterators that behave as one expects: equal iterators are
  the same object, all are ordered, and a level can be located into exactly if it is full (dense levels are
  full and located into; compressed and singleton levels that were not declared full are neither). There the
  operations cannot fail and are operations on lists and sets.
\<close>

subsection \<open>Iterators that behave\<close>

definition it_addr :: "Iterator \<Rightarrow> nat" where
  "it_addr it = (case it of NoIterator \<Rightarrow> 0 | Iterator c _ _ \<Rightarrow> ic_addr c)"

definition full :: "Iterator \<Rightarrow> bool" where
  "full it \<longleftrightarrow> it_isFull it = ok True"

text \<open>The iterators \<open>U\<close> a loop may meet, among them the one over its dimension.\<close>

definition good_iterators :: "Iterator set \<Rightarrow> Iterator \<Rightarrow> bool" where
  "good_iterators U m \<longleftrightarrow>
     m \<in> U \<and> full m \<and> inj_on it_addr U \<and>
     (\<forall>a \<in> U. it_defined a \<and> it_isOrdered a = ok True \<and> it_isFull a = ok (full a) \<and>
        it_hasLocate a = ok (full a \<and> a \<noteq> m) \<and> isDimensionIterator a = ok (a = m) \<and>
        (\<exists>c p. it_hasCoordIter a = ok c \<and> it_hasPosIter a = ok p \<and> (c \<or> p \<or> full a)) \<and>
        (\<forall>b \<in> U. it_eq a b = ok (a = b)))"

lemma good_D:
  assumes "good_iterators U m" "a \<in> U"
  shows "it_isOrdered a = ok True" "it_isFull a = ok (full a)" "it_hasLocate a = ok (full a \<and> a \<noteq> m)"
    "isDimensionIterator a = ok (a = m)" "b \<in> U \<Longrightarrow> it_eq a b = ok (a = b)"
  using assms by (auto simp: good_iterators_def)

lemma good_m: "good_iterators U m \<Longrightarrow> m \<in> U" "good_iterators U m \<Longrightarrow> full m"
  by (auto simp: good_iterators_def)

lemma good_addr: "good_iterators U m \<Longrightarrow> a \<in> U \<Longrightarrow> b \<in> U \<Longrightarrow> (it_addr a = it_addr b) = (a = b)"
  by (auto simp: good_iterators_def inj_on_def)

lemma good_less:
  assumes "good_iterators U m" "a \<in> U" "b \<in> U"
  shows "it_less a b = ok (it_addr a < it_addr b)"
proof -
  from assms have "it_defined a" "it_defined b" by (auto simp: good_iterators_def)
  then obtain c p s d q r where ab: "a = Iterator c p s" "b = Iterator d q r"
    by (cases a; cases b) (auto simp: it_defined_def)
  have "it_eq a b = ok (a = b)" by (rule good_D(5) [OF assms])
  moreover have "(case (a, b) of (Iterator c _ _, Iterator d _ _) \<Rightarrow> ok (ic_addr c < ic_addr d) | _ \<Rightarrow> err BadMemory) =
      ok (it_addr a < it_addr b)"
    by (simp only: ab it_addr_def prod.case Iterator.case)
  ultimately have "it_less a b = ifR (ok (a = b)) (ok False) (ok (it_addr a < it_addr b))"
    by (simp only: it_less_def)
  then show ?thesis by (cases "a = b") simp_all
qed

subsection \<open>Sorting, inclusion and sets\<close>

lemma sort_insert_good:
  assumes "good_iterators U m" "it \<in> U" "set xs \<subseteq> U"
  shows "\<exists>ys. sort_insert it xs = ok ys \<and> mset ys = add_mset it (mset xs) \<and>
           (sorted (map it_addr xs) \<longrightarrow> sorted (map it_addr ys))"
  using assms(3)
proof (induction xs)
  case (Cons x xs)
  then obtain ys where ys: "sort_insert it xs = ok ys" "mset ys = add_mset it (mset xs)"
      "sorted (map it_addr xs) \<longrightarrow> sorted (map it_addr ys)" by auto
  have set_ys: "set ys = insert it (set xs)" using ys(2) by (metis set_mset_add_mset_insert set_mset_mset)
  have less: "it_less x it = ok (it_addr x < it_addr it)" using assms(1,2) Cons.prems by (intro good_less) auto
  show ?case
  proof (cases "it_addr x < it_addr it")
    case True
    with less ys set_ys show ?thesis by auto
  next
    case False
    then have le: "it_addr it \<le> it_addr x" by simp
    from False less have "sort_insert it (x # xs) = ok (it # x # xs)" by simp
    moreover have "sorted (map it_addr (x # xs)) \<longrightarrow> sorted (map it_addr (it # x # xs))"
      using le by (auto intro: order_trans)
    ultimately show ?thesis by auto
  qed
qed auto

lemma sort_its_good:
  assumes "good_iterators U m" "set xs \<subseteq> U"
  shows "\<exists>ys. sort_its xs = ok ys \<and> mset ys = mset xs \<and> sorted (map it_addr ys)"
proof -
  have "\<exists>ys. foldR sort_insert xs s = ok ys \<and> mset ys = mset xs + mset s \<and> sorted (map it_addr ys)"
    if "set s \<subseteq> U" "sorted (map it_addr s)" for s
    using assms(2) that
  proof (induction xs arbitrary: s)
    case (Cons x xs)
    from sort_insert_good [OF assms(1), of x s] Cons.prems obtain t where t: "sort_insert x s = ok t"
      "mset t = add_mset x (mset s)" "sorted (map it_addr t)" by auto
    have "set t \<subseteq> U" using t(2) Cons.prems by (metis insert_subset list.set_intros(1) set_mset_add_mset_insert
        set_mset_mset subset_iff)
    from Cons.IH [OF _ this t(3)] Cons.prems t show ?case by auto
  qed auto
  from this [of "[]"] show ?thesis by (simp add: sort_its_def)
qed

lemma subset_eq_add_mset: "x \<notin># N \<Longrightarrow> N \<subseteq># add_mset x M \<longleftrightarrow> N \<subseteq># M"
  by (metis (no_types, lifting) count_add_mset mset_subset_eq_insertD not_in_iff subseteq_mset_def zero_le)

lemma std_includes_good:
  assumes "good_iterators U m" "set xs \<subseteq> U" "set ys \<subseteq> U" "sorted (map it_addr xs)" "sorted (map it_addr ys)"
  shows "std_includes xs ys = ok (mset ys \<subseteq># mset xs)"
  using assms(2-5)
proof (induction xs ys rule: std_includes.induct)
  case (3 x xs y ys)
  have less: "it_less y x = ok (it_addr y < it_addr x)" "it_less x y = ok (it_addr x < it_addr y)"
    using assms(1) "3.prems" by (auto intro: good_less)
  consider "it_addr y < it_addr x" | "it_addr x < it_addr y" | "x = y"
    using good_addr [OF assms(1), of x y] "3.prems" by fastforce
  then show ?case
  proof cases
    case 1
    then have "y \<notin> set (x # xs)" using "3.prems"(3) by auto
    then have "\<not> mset (y # ys) \<subseteq># mset (x # xs)" by (meson list.set_intros(1) mset_subset_eqD set_mset_mset in_multiset_in_set)
    with 1 less show ?thesis by simp
  next
    case 2
    then have "x \<notin> set (y # ys)" using "3.prems"(4) by auto
    then have "mset (y # ys) \<subseteq># mset (x # xs) \<longleftrightarrow> mset (y # ys) \<subseteq># mset xs"
      by (metis in_multiset_in_set mset.simps(2) subset_eq_add_mset)
    with 2 less "3.IH"(1) "3.prems" show ?thesis by auto
  next
    case 3
    with less "3.IH"(2) "3.prems" show ?thesis by simp
  qed
qed auto

lemma its_subset_mset: "mset ys = mset xs \<Longrightarrow> set ys = set xs"
  by (metis set_mset_mset)

lemma subLattice_good:
  assumes "good_iterators U m" "\<forall>q \<in> set L. set (mp_iterators q) \<subseteq> U" "set (mp_iterators p) \<subseteq> U"
  shows "subLattice L p = ok (filter (\<lambda>q. mset (mp_iterators q) \<subseteq># mset (mp_iterators p)) L)"
proof -
  from sort_its_good [OF assms(1,3)] obtain ps where ps: "sort_its (mp_iterators p) = ok ps"
      "mset ps = mset (mp_iterators p)" "sorted (map it_addr ps)" by auto
  have "bindR (sort_its (mp_iterators q)) (std_includes ps) = ok (mset (mp_iterators q) \<subseteq># mset (mp_iterators p))"
    if "q \<in> set L" for q
  proof -
    from assms(2) that have qU: "set (mp_iterators q) \<subseteq> U" by auto
    from sort_its_good [OF assms(1) qU] obtain qs where qs: "sort_its (mp_iterators q) = ok qs"
      "mset qs = mset (mp_iterators q)" "sorted (map it_addr qs)" by auto
    with ps qU assms(3) show ?thesis
      by (simp add: std_includes_good [OF assms(1)] its_subset_mset [OF ps(2)] its_subset_mset [OF qs(2)])
  qed
  with ps show ?thesis by (simp add: subLattice_def filterR_pure)
qed

lemma set_insert_good:
  assumes "good_iterators U m" "it \<in> U" "set xs \<subseteq> U" "sorted (map it_addr xs)" "distinct xs"
  shows "\<exists>ys. set_insert it xs = ok ys \<and> set ys = insert it (set xs) \<and> sorted (map it_addr ys) \<and> distinct ys"
  using assms(3-5)
proof (induction xs)
  case (Cons x xs)
  then obtain ys where ys: "set_insert it xs = ok ys" "set ys = insert it (set xs)" "sorted (map it_addr ys)" "distinct ys"
    by auto
  have less: "it_less x it = ok (it_addr x < it_addr it)" "it_less it x = ok (it_addr it < it_addr x)"
    using assms(1,2) Cons.prems by (auto intro: good_less)
  consider "it_addr x < it_addr it" | "it_addr it < it_addr x" | "x = it"
    using good_addr [OF assms(1,2), of x] Cons.prems by fastforce
  then show ?case
  proof cases
    case 1
    with less ys Cons.prems show ?thesis by auto
  next
    case 2
    with less have eq: "set_insert it (x # xs) = ok (it # x # xs)" by simp
    have "\<forall>y \<in> set (x # xs). it_addr it < it_addr y" using 2 Cons.prems(2) by fastforce
    then have "sorted (map it_addr (it # x # xs))" "it \<notin> set (x # xs)" using Cons.prems(2) by fastforce+
    with eq Cons.prems(3) show ?thesis by auto
  next
    case 3
    with less Cons.prems show ?thesis by auto
  qed
qed auto

lemma set_of_good:
  assumes "good_iterators U m" "set xs \<subseteq> U"
  shows "\<exists>ys. set_of xs = ok ys \<and> set ys = set xs \<and> sorted (map it_addr ys) \<and> distinct ys"
proof -
  have "\<exists>ys. foldR set_insert xs s = ok ys \<and> set ys = set xs \<union> set s \<and> sorted (map it_addr ys) \<and> distinct ys"
    if "set s \<subseteq> U" "sorted (map it_addr s)" "distinct s" for s
    using assms(2) that
  proof (induction xs arbitrary: s)
    case (Cons x xs)
    from set_insert_good [OF assms(1), of x s] Cons.prems obtain t where t: "set_insert x s = ok t"
      "set t = insert x (set s)" "sorted (map it_addr t)" "distinct t" by auto
    with Cons.prems have "set t \<subseteq> U" by auto
    from Cons.IH [OF _ this t(3,4)] Cons.prems t show ?case by auto
  qed auto
  from this [of "[]"] show ?thesis by (simp add: set_of_def)
qed

lemma its_equal_good:
  "good_iterators U m \<Longrightarrow> set xs \<subseteq> U \<Longrightarrow> set ys \<subseteq> U \<Longrightarrow> length xs = length ys \<Longrightarrow> its_equal xs ys = ok (xs = ys)"
proof (induction xs ys rule: its_equal.induct)
  case (2 a as b bs)
  then show ?case by (cases "a = b") (auto simp: good_D(5))
qed auto

lemma compare_its_good:
  "good_iterators U m \<Longrightarrow> set xs \<subseteq> U \<Longrightarrow> set ys \<subseteq> U \<Longrightarrow> compare_its xs ys = ok (xs = ys)"
  by (auto simp: compare_its_def its_equal_good)

lemma ordered_sets_equal:
  assumes "good_iterators U m" "set xs \<subseteq> U" "sorted (map it_addr xs)" "sorted (map it_addr ys)"
    "distinct xs" "distinct ys" "set xs = set ys"
  shows "xs = ys"
proof -
  have inj: "inj_on it_addr (set xs)" "inj_on it_addr (set ys)"
    using assms(1,2,7) by (auto simp: good_iterators_def elim: inj_on_subset)
  with assms have "map it_addr xs = map it_addr ys"
    by (intro sorted_distinct_set_unique) (auto simp: distinct_map)
  with inj(1) assms(7) show ?thesis by (metis map_inj_on sup.idem)
qed

subsection \<open>Points\<close>

text \<open>The iterators that are available where a point runs: it iterates over them or locates into them.\<close>

definition within :: "Iterator set \<Rightarrow> MergePoint \<Rightarrow> bool" where
  "within A p \<longleftrightarrow> set (mp_iterators p) \<subseteq> A"

definition avail :: "MergePoint \<Rightarrow> Iterator set" where
  "avail p = set (mp_iterators p) \<union> set (mp_locators p)"

abbreviation its_count :: "MergePoint \<Rightarrow> Iterator \<Rightarrow> nat" where
  "its_count p \<equiv> count (mset (mp_iterators p))"

definition point_ok :: "Iterator set \<Rightarrow> Iterator \<Rightarrow> MergePoint \<Rightarrow> bool" where
  "point_ok U m p \<longleftrightarrow>
     set (mp_iterators p) \<subseteq> U \<and> its_count p m \<le> 1 \<and> (\<forall>it \<in> set (mp_locators p). it \<in> U \<and> full it)"

lemma MergePoint_make_good:
  assumes "good_iterators U m" "set its \<subseteq> U"
  shows "MergePoint_make its locs ress = ok \<lparr>mp_iterators = its, mp_locators = locs, mp_results = ress\<rparr>"
proof -
  have "orR (it_hasLocate it) (it_isOrdered it) = ok True" if "it \<in> set its" for it
    using assms(2) that by (simp add: good_D(1,3) [OF assms(1)] subset_iff)
  then have "allR (\<lambda>it. orR (it_hasLocate it) (it_isOrdered it)) its = ok True" by (simp add: allR_True)
  then show ?thesis by (simp add: MergePoint_make_def)
qed

lemma dedup_good:
  assumes "good_iterators U m" "set xs \<subseteq> U"
  shows "\<exists>ys. dedup_dimensions_from b xs = ok ys \<and>
           (\<forall>x. count (mset ys) x =
              (if x = m then (if b then 0 else min 1 (count (mset xs) m)) else count (mset xs) x))"
  using assms(2)
proof (induction xs arbitrary: b)
  case (Cons x xs)
  then have x: "isDimensionIterator x = ok (x = m)" using assms(1) by (simp add: good_D(4))
  from Cons have U: "set xs \<subseteq> U" by simp
  from Cons.IH [OF this, of b] obtain ys where ys: "dedup_dimensions_from b xs = ok ys"
    "\<forall>x. count (mset ys) x = (if x = m then (if b then 0 else min 1 (count (mset xs) m)) else count (mset xs) x)"
    by (elim exE conjE)
  from Cons.IH [OF U, of True] obtain zs where zs: "dedup_dimensions_from True xs = ok zs"
    "\<forall>x. count (mset zs) x = (if x = m then 0 else count (mset xs) x)" by (simp only: if_True) (elim exE conjE)
  from x ys zs show ?case by (cases "x = m"; cases b) simp_all
qed auto

lemma deduplicateDimensionIterators_good:
  assumes "good_iterators U m" "set xs \<subseteq> U"
  obtains ys where "deduplicateDimensionIterators xs = ok ys"
    "\<forall>x. count (mset ys) x = (if x = m then min 1 (count (mset xs) m) else count (mset xs) x)"
  using dedup_good [OF assms, of False] unfolding if_False
  by (elim exE conjE) (rule that, simp_all add: deduplicateDimensionIterators_def)

lemma set_eq_countI:
  assumes "\<And>x. (count (mset xs) x = 0) = (count (mset ys) x = 0)"
  shows "set xs = set ys"
proof -
  have "x \<in> set zs \<longleftrightarrow> count (mset zs) x \<noteq> 0" for x :: 'a and zs by (simp add: count_eq_zero_iff)
  with assms show ?thesis by blast
qed

lemma count_filter_list: "count (mset (filter P xs)) x = (if P x then count (mset xs) x else 0)"
  by (simp add: mset_filter)

text \<open>What the union and the intersection of two points iterate over and have available. A union keeps all
  iterators; an intersection drops the full iterators of the side it locates from.\<close>

definition union_of :: "Iterator \<Rightarrow> MergePoint \<Rightarrow> MergePoint \<Rightarrow> MergePoint \<Rightarrow> bool" where
  "union_of m l r p \<longleftrightarrow>
     (\<forall>x. its_count p x = (if x = m then max (its_count l x) (its_count r x) else its_count l x + its_count r x)) \<and>
     avail p = avail l \<union> avail r"

definition intersection_of :: "Iterator \<Rightarrow> bool \<Rightarrow> MergePoint \<Rightarrow> MergePoint \<Rightarrow> MergePoint \<Rightarrow> bool" where
  "intersection_of m b l r p \<longleftrightarrow>
     (\<forall>x. its_count p x = (if full x then its_count (if b then r else l) x else its_count l x + its_count r x)) \<and>
     insert m (avail p) = insert m (avail l \<union> avail r)"

lemma unionPoints_good:
  assumes g: "good_iterators U m" and "point_ok U m l" "point_ok U m r"
  shows "\<exists>p. unionPoints l r = ok p \<and> point_ok U m p \<and> union_of m l r p"
proof -
  let ?its = "mp_iterators l @ mp_iterators r"
  have U: "set ?its \<subseteq> U" using assms(2,3) by (auto simp: point_ok_def)
  from deduplicateDimensionIterators_good [OF g U] obtain ys where ys: "deduplicateDimensionIterators ?its = ok ys"
    "\<forall>x. count (mset ys) x = (if x = m then min 1 (count (mset ?its) m) else count (mset ?its) x)" .
  have c: "\<forall>x. count (mset ys) x = (if x = m then max (its_count l x) (its_count r x) else its_count l x + its_count r x)"
    using ys(2) assms(2,3) by (auto simp: point_ok_def)
  have set_ys: "set ys = set ?its"
    by (rule set_eq_countI) (simp only: ys(2), rename_tac x, case_tac "x = m", simp_all only: if_True if_False, arith)
  with U have "set ys \<subseteq> U" by simp
  with ys(1) have "unionPoints l r = ok \<lparr>mp_iterators = ys, mp_locators = mp_locators l @ mp_locators r,
      mp_results = mp_results l @ mp_results r\<rparr>" (is "_ = ok ?p")
    by (simp add: unionPoints_def MergePoint_make_good [OF g])
  moreover have "point_ok U m ?p" using c \<open>set ys \<subseteq> U\<close> assms(2,3) by (auto simp: point_ok_def)
  moreover have "union_of m l r ?p" using c set_ys by (auto simp: union_of_def avail_def)
  ultimately show ?thesis by blast
qed

lemma intersectPoints_good:
  assumes g: "good_iterators U m" and lr: "point_ok U m l" "point_ok U m r"
  shows "\<exists>p. intersectPoints b l r = ok p \<and> point_ok U m p \<and> intersection_of m b l r p"
proof -
  define s where "s = (if b then l else r)"
  define kept where "kept = filter (\<lambda>it. it \<noteq> m) (filter (\<lambda>it. \<not> (full it \<and> it \<noteq> m)) (mp_iterators s))"
  define moved where "moved = filter (\<lambda>it. full it \<and> it \<noteq> m) (mp_iterators s)"
  define its where "its = (if b then kept @ mp_iterators r else mp_iterators l @ kept)"
  define locs where "locs = (if b then moved @ mp_locators l @ mp_locators r else mp_locators l @ moved @ mp_locators r)"
  have sU: "set (mp_iterators s) \<subseteq> U" using lr by (auto simp: s_def point_ok_def)
  have "splitR (\<lambda>it. notR (it_hasLocate it)) (mp_iterators s) =
        ok (filter (\<lambda>it. \<not> (full it \<and> it \<noteq> m)) (mp_iterators s), moved)"
    using sU by (subst splitR_pure [where q = "\<lambda>it. \<not> (full it \<and> it \<noteq> m)"])
      (auto simp: good_D(3) [OF g] subset_iff moved_def intro: filter_cong)
  moreover have "filterR (\<lambda>it. notR (isDimensionIterator it)) (filter (\<lambda>it. \<not> (full it \<and> it \<noteq> m)) (mp_iterators s)) = ok kept"
    using sU by (subst filterR_pure [where q = "\<lambda>it. it \<noteq> m"]) (auto simp: good_D(4) [OF g] subset_iff kept_def)
  moreover have U: "set its \<subseteq> U" using sU lr by (auto simp: its_def kept_def point_ok_def)
  from deduplicateDimensionIterators_good [OF g U] obtain ys where dd: "deduplicateDimensionIterators its = ok ys"
    and ys: "\<forall>x. count (mset ys) x = (if x = m then min 1 (count (mset its) m) else count (mset its) x)" .
  note dd
  moreover have set_ys: "set ys = set its"
    by (rule set_eq_countI) (simp only: ys, rename_tac x, case_tac "x = m", simp_all only: if_True if_False, arith)
  ultimately have eq: "intersectPoints b l r = ok \<lparr>mp_iterators = ys, mp_locators = locs,
      mp_results = mp_results l @ mp_results r\<rparr>" (is "_ = ok ?p")
    using U by (simp add: intersectPoints_def MergePoint_make_good [OF g] s_def [symmetric] its_def [symmetric]
        locs_def [symmetric] cong: if_cong)
  have ck: "count (mset kept) x = (if full x then 0 else its_count s x)" for x
    using good_m(2) [OF g] by (auto simp: kept_def count_filter_list)
  have c: "its_count ?p x = (if full x then its_count (if b then r else l) x else its_count l x + its_count r x)" for x
    using lr good_m(2) [OF g] by (cases b) (auto simp: ys its_def ck s_def point_ok_def)
  have sets: "set kept \<union> set moved \<union> {m} = set (mp_iterators s) \<union> {m}" using good_m(2) [OF g]
    by (auto simp: kept_def moved_def)
  have "point_ok U m ?p" using c [of m] lr U sU set_ys
    by (cases b) (auto simp: point_ok_def locs_def moved_def good_m(2) [OF g])
  moreover have "intersection_of m b l r ?p"
    using c sets set_ys by (cases b) (auto simp: intersection_of_def avail_def its_def locs_def s_def)
  ultimately show ?thesis using eq by blast
qed

end
