(* ===== verification/Lattice_Algebra.thy ===== *)
theory Lattice_Algebra
  imports Lattice_Points
begin

text \<open>
  Union and intersection of lattices as operations on what the lattices stand for. A lattice tracks quantities
  that depend on which iterators have a value at a coordinate: among any set of iterators that are present, the
  first point of the lattice whose iterators are all present has every other such point below it, and the
  quantities do not change when the iterators that are not available at that point are taken to be absent; if
  there is no such point, then a condition holds (a quantity is zero).
\<close>

subsection \<open>Searching\<close>

lemma find_append: "find P (xs @ ys) = (case find P xs of Some x \<Rightarrow> Some x | None \<Rightarrow> find P ys)"
  by (induction xs) auto

lemma find_map: "find P (map f xs) = map_option f (find (P \<circ> f) xs)"
  by (induction xs) auto

lemma find_cong_set: "(\<And>x. x \<in> set xs \<Longrightarrow> P x = Q x) \<Longrightarrow> find P xs = find Q xs"
  by (induction xs) auto

lemma find_Some_D: "find P xs = Some x \<Longrightarrow> x \<in> set xs \<and> P x"
  by (induction xs) (auto split: if_splits)

lemma find_None_D: "find P xs = None \<Longrightarrow> x \<in> set xs \<Longrightarrow> \<not> P x"
  by (induction xs) (auto split: if_splits)

lemma find_filter: "find P xs = Some x \<Longrightarrow> Q x \<Longrightarrow> find P (filter Q xs) = Some x"
  by (induction xs) (auto split: if_splits)

lemma find_product:
  "find (\<lambda>(x, y). P x \<and> Q y) (List.product xs ys) =
     (case find P xs of None \<Rightarrow> None | Some x \<Rightarrow> map_option (Pair x) (find Q ys))"
proof (induction xs)
  case (Cons x xs)
  have "find (\<lambda>(x, y). P x \<and> Q y) (map (Pair x) ys) = (if P x then map_option (Pair x) (find Q ys) else None)"
    by (induction ys) auto
  moreover have "find Q ys = None \<Longrightarrow> find (\<lambda>(x, y). P x \<and> Q y) (List.product xs ys) = None"
    using Cons.IH by (auto split: option.splits)
  ultimately show ?case using Cons.IH by (auto simp: find_append split: option.splits)
qed simp

lemma find_all2: "list_all2 R xs ys \<Longrightarrow> (\<And>x y. R x y \<Longrightarrow> P x = Q y) \<Longrightarrow> rel_option R (find P xs) (find Q ys)"
  by (induction rule: list_all2_induct) auto

lemma all2_left: "list_all2 R xs ys \<Longrightarrow> x \<in> set xs \<Longrightarrow> \<exists>y \<in> set ys. R x y"
  by (induction rule: list_all2_induct) auto

lemma all2_right: "list_all2 R xs ys \<Longrightarrow> y \<in> set ys \<Longrightarrow> \<exists>x \<in> set xs. R x y"
  by (induction rule: list_all2_induct) auto

lemma all2_hd: "list_all2 R xs ys \<Longrightarrow> xs \<noteq> [] \<Longrightarrow> R (hd xs) (hd ys)"
  by (cases xs; cases ys) auto

lemma product_ne: "xs \<noteq> [] \<Longrightarrow> ys \<noteq> [] \<Longrightarrow> List.product xs ys \<noteq> []"
  by (cases xs; cases ys) auto

lemma ifR_if: "ifR (ok c) a b = (if c then a else b)"
  by simp

lemma hd_product: "xs \<noteq> [] \<Longrightarrow> ys \<noteq> [] \<Longrightarrow> hd (List.product xs ys) = (hd xs, hd ys)"
  by (cases xs; cases ys) auto

subsection \<open>Lattices that track quantities\<close>

type_synonym quantity = "Iterator set \<Rightarrow> int"

definition has_full :: "MergeLattice \<Rightarrow> bool" where
  "has_full L \<longleftrightarrow> (\<exists>it \<in> set (mp_iterators (hd L)). full it)"

definition lattice_ok :: "Iterator set \<Rightarrow> Iterator \<Rightarrow> MergeLattice \<Rightarrow> bool" where
  "lattice_ok U m L \<longleftrightarrow>
     L \<noteq> [] \<and> (\<forall>p \<in> set L. point_ok U m p) \<and>
     (\<forall>p \<in> set L. \<forall>it \<in> set (mp_iterators (hd L)). full it \<longrightarrow> it \<in> set (mp_iterators p)) \<and>
     (has_full L \<longrightarrow> (\<exists>p \<in> set L. \<forall>it \<in> set (mp_iterators p). full it))"

text \<open>The sets of present iterators: full iterators are always present.\<close>

definition present_set :: "Iterator set \<Rightarrow> Iterator set \<Rightarrow> bool" where
  "present_set U A \<longleftrightarrow> (\<forall>it \<in> U. full it \<longrightarrow> it \<in> A)"

definition leads :: "Iterator set \<Rightarrow> MergeLattice \<Rightarrow> MergePoint \<Rightarrow> bool" where
  "leads A L p \<longleftrightarrow> (\<forall>q \<in> set L. within A q \<longrightarrow> mset (mp_iterators q) \<subseteq># mset (mp_iterators p))"

definition agree :: "Iterator \<Rightarrow> Iterator set \<Rightarrow> quantity set \<Rightarrow> MergePoint \<Rightarrow> bool" where
  "agree m A X p \<longleftrightarrow> (\<forall>B. B \<subseteq> A \<longrightarrow> m \<in> B \<longrightarrow> avail p \<subseteq> B \<longrightarrow> (\<forall>x \<in> X. x B = x A))"

definition absent :: "Iterator \<Rightarrow> Iterator set \<Rightarrow> (Iterator set \<Rightarrow> bool) \<Rightarrow> bool" where
  "absent m A Z \<longleftrightarrow> (\<forall>B. B \<subseteq> A \<longrightarrow> m \<in> B \<longrightarrow> Z B)"

definition follows ::
    "Iterator \<Rightarrow> quantity set \<Rightarrow> (Iterator set \<Rightarrow> bool) \<Rightarrow> MergeLattice \<Rightarrow> Iterator set \<Rightarrow> bool" where
  "follows m X Z L A \<longleftrightarrow>
     (case find (within A) L of None \<Rightarrow> absent m A Z | Some p \<Rightarrow> leads A L p \<and> agree m A X p)"

definition tracks ::
    "Iterator set \<Rightarrow> Iterator \<Rightarrow> quantity set \<Rightarrow> (Iterator set \<Rightarrow> bool) \<Rightarrow> MergeLattice \<Rightarrow> bool" where
  "tracks U m X Z L \<longleftrightarrow> lattice_ok U m L \<and> (\<forall>A. present_set U A \<longrightarrow> follows m X Z L A)"

lemma tracks_ok: "tracks U m X Z L \<Longrightarrow> lattice_ok U m L"
  by (simp add: tracks_def)

lemma tracks_Some: "tracks U m X Z L \<Longrightarrow> present_set U A \<Longrightarrow> find (within A) L = Some p \<Longrightarrow> leads A L p \<and> agree m A X p"
  by (auto simp: tracks_def follows_def)

lemma tracks_None: "tracks U m X Z L \<Longrightarrow> present_set U A \<Longrightarrow> find (within A) L = None \<Longrightarrow> absent m A Z"
  by (force simp: tracks_def follows_def)

lemma leads_D: "leads A L p \<Longrightarrow> q \<in> set L \<Longrightarrow> within A q \<Longrightarrow> its_count q x \<le> its_count p x"
  by (auto simp: leads_def subseteq_mset_def)

lemma mset_le_I: "(\<And>x. its_count q x \<le> its_count p x) \<Longrightarrow> mset (mp_iterators q) \<subseteq># mset (mp_iterators p)"
  by (simp add: subseteq_mset_def)

text \<open>Tracking more or other quantities.\<close>

lemma tracks_weaken:
  assumes "tracks U m X Z L"
    and "\<And>A B. (\<forall>x \<in> X. x B = x A) \<Longrightarrow> \<forall>y \<in> Y. y B = y A" and "\<And>B. Z B \<Longrightarrow> W B"
  shows "tracks U m Y W L"
  unfolding tracks_def
proof (intro conjI allI impI)
  show "lattice_ok U m L" using assms(1) by (rule tracks_ok)
  fix A assume A: "present_set U A"
  show "follows m Y W L A" unfolding follows_def
    using tracks_Some [OF assms(1) A] tracks_None [OF assms(1) A] assms(2,3)
    by (cases "find (within A) L") (auto simp: absent_def agree_def)
qed

text \<open>All pairs of the points of two lattices: what holds of the results, and which one a search finds.\<close>

definition pairs_of ::
    "(MergePoint \<Rightarrow> MergePoint \<Rightarrow> MergePoint \<Rightarrow> bool) \<Rightarrow> MergeLattice \<Rightarrow> MergeLattice \<Rightarrow> MergeLattice \<Rightarrow> bool" where
  "pairs_of Q L R P \<longleftrightarrow>
     list_all2 (\<lambda>(l, r) p. l \<in> set L \<and> r \<in> set R \<and> Q l r p) (List.product L R) P \<and> L \<noteq> [] \<and> R \<noteq> []"

lemma all_pairs_good:
  assumes "\<And>l r. l \<in> set L \<Longrightarrow> r \<in> set R \<Longrightarrow> \<exists>p. f l r = ok p \<and> Q l r p" "L \<noteq> []" "R \<noteq> []"
  shows "\<exists>P. all_pairs f L R = ok P \<and> pairs_of Q L R P"
proof -
  let ?g = "\<lambda>lr. case lr of (l, r) \<Rightarrow> f l r"
  have "\<forall>lr \<in> set (List.product L R). \<exists>p. ?g lr = ok p \<and> (case lr of (l, r) \<Rightarrow> Q l r p)"
    using assms by auto
  from bchoice [OF this] obtain w where
    w: "\<forall>lr \<in> set (List.product L R). ?g lr = ok (w lr) \<and> (case lr of (l, r) \<Rightarrow> Q l r (w lr))" by blast
  have "all_pairs f L R = ok (map w (List.product L R))" unfolding all_pairs_def using w by (intro mapR_ok) auto
  moreover have "pairs_of Q L R (map w (List.product L R))"
    using w assms(2,3) by (auto simp: pairs_of_def list.rel_map list_all2_same)
  ultimately show ?thesis by blast
qed

lemma pairs_elem: "pairs_of Q L R P \<Longrightarrow> p \<in> set P \<Longrightarrow> \<exists>l r. l \<in> set L \<and> r \<in> set R \<and> Q l r p"
  unfolding pairs_of_def by (elim conjE, drule (1) all2_right) auto

lemma pairs_pair: "pairs_of Q L R P \<Longrightarrow> l \<in> set L \<Longrightarrow> r \<in> set R \<Longrightarrow> \<exists>p \<in> set P. Q l r p"
  unfolding pairs_of_def using all2_left [of _ "List.product L R" P "(l, r)"] by force

lemma pairs_hd: "pairs_of Q L R P \<Longrightarrow> Q (hd L) (hd R) (hd P)"
  unfolding pairs_of_def using all2_hd [OF _ product_ne] hd_product by fastforce

lemma pairs_ne: "pairs_of Q L R P \<Longrightarrow> P \<noteq> []"
  unfolding pairs_of_def using product_ne [of L R] by auto

lemma pairs_find:
  assumes "pairs_of Q L R P" "\<And>l r p. l \<in> set L \<Longrightarrow> r \<in> set R \<Longrightarrow> Q l r p \<Longrightarrow> W p = (S l \<and> T r)"
  shows "find S L = None \<or> find T R = None \<Longrightarrow> find W P = None"
    and "find S L = Some l \<Longrightarrow> find T R = Some r \<Longrightarrow> \<exists>p. find W P = Some p \<and> Q l r p"
proof -
  let ?R = "\<lambda>(l, r) p. l \<in> set L \<and> r \<in> set R \<and> Q l r p"
  have "rel_option ?R (find (\<lambda>(l, r). S l \<and> T r) (List.product L R)) (find W P)"
    using assms by (intro find_all2 [where R = ?R]) (auto simp: pairs_of_def)
  then show "find S L = None \<or> find T R = None \<Longrightarrow> find W P = None"
    and "find S L = Some l \<Longrightarrow> find T R = Some r \<Longrightarrow> \<exists>p. find W P = Some p \<and> Q l r p"
    by (auto simp: find_product option_rel_Some1 split: option.splits)
qed

lemma full_within: "present_set U A \<Longrightarrow> set (mp_iterators p) \<subseteq> U \<Longrightarrow> \<forall>it \<in> set (mp_iterators p). full it \<Longrightarrow> within A p"
  by (auto simp: present_set_def within_def)

lemma mem_its_count: "x \<in> set (mp_iterators p) \<longleftrightarrow> its_count p x \<noteq> 0"
  by (simp add: count_eq_zero_iff)

lemma union_of_its: "union_of m l r p \<Longrightarrow> set (mp_iterators p) = set (mp_iterators l) \<union> set (mp_iterators r)"
  unfolding set_eq_iff Un_iff mem_its_count union_of_def by (metis add_is_0 max_nat.eq_neutr_iff)

lemma intersection_of_its:
  "intersection_of m b l r p \<Longrightarrow> it \<in> set (mp_iterators p) \<longleftrightarrow>
     (if full it then it \<in> set (mp_iterators (if b then r else l))
      else it \<in> set (mp_iterators l) \<or> it \<in> set (mp_iterators r))"
  unfolding mem_its_count intersection_of_def by (metis add_is_0)

subsection \<open>Intersection\<close>

lemma locateFromLeft_good:
  assumes g: "good_iterators U m" and "lattice_ok U m L" "lattice_ok U m R"
  shows "\<exists>b. locateFromLeft L R = ok b \<and> (if b then has_full R \<longrightarrow> has_full L else has_full L \<longrightarrow> has_full R)"
proof -
  obtain l L' r R' where LR: "L = l # L'" "R = r # R'"
    using assms(2,3) by (cases L; cases R) (auto simp: lattice_ok_def)
  have U: "set (mp_iterators l) \<subseteq> U" "set (mp_iterators r) \<subseteq> U"
    using assms(2,3) by (auto simp: lattice_ok_def point_ok_def LR)
  have dim: "anyR isDimensionIterator xs = ok (m \<in> set xs)" if "set xs \<subseteq> U" for xs
    using that by (subst anyR_pure [where q = "\<lambda>it. it = m"]) (auto simp: good_D(4) [OF g] subset_iff)
  have loc: "anyR (\<lambda>it. andR (it_isFull it) (it_hasLocate it)) xs = ok (\<exists>it \<in> set xs. full it \<and> it \<noteq> m)"
    if "set xs \<subseteq> U" for xs
    using that by (subst anyR_pure [where q = "\<lambda>it. full it \<and> it \<noteq> m"]) (auto simp: good_D(2,3) [OF g] subset_iff)
  have cnt: "countR it_hasLocate xs = ok (length (filter (\<lambda>it. full it \<and> it \<noteq> m) xs))" if "set xs \<subseteq> U" for xs
    using that by (subst countR_pure [where q = "\<lambda>it. full it \<and> it \<noteq> m"]) (auto simp: good_D(3) [OF g] subset_iff)
  let ?f = "\<lambda>p. \<exists>it \<in> set (mp_iterators p). full it \<and> it \<noteq> m"
  let ?n = "\<lambda>p. length (filter (\<lambda>it. full it \<and> it \<noteq> m) (mp_iterators p))"
  have eq: "locateFromLeft L R = ok (if m \<in> set (mp_iterators r) then False else if m \<in> set (mp_iterators l) then True
      else if ?f r then False else if ?f l then True else ?n l > ?n r)" (is "_ = ok ?b")
    by (simp only: locateFromLeft_def lattice_iterators_def LR list.case bindR_Inr dim [OF U(1)] dim [OF U(2)]
        loc [OF U(1)] loc [OF U(2)] cnt [OF U(1)] cnt [OF U(2)] ifR_if if_distrib [where f = ok])
  have hf: "has_full R \<longleftrightarrow> m \<in> set (mp_iterators r) \<or> ?f r" "has_full L \<longleftrightarrow> m \<in> set (mp_iterators l) \<or> ?f l"
    using good_m(2) [OF g] by (auto simp: has_full_def LR)
  have "if (if a then False else if c then True else if f then False else if h then True else n)
      then R' \<longrightarrow> L' else L' \<longrightarrow> R'" if "R' \<longleftrightarrow> a \<or> f" "L' \<longleftrightarrow> c \<or> h" for a c f h n R' L' :: bool
    using that by simp
  from this [OF hf] have "if ?b then has_full R \<longrightarrow> has_full L else has_full L \<longrightarrow> has_full R" .
  with eq show ?thesis by blast
qed

lemma intersection_ok:
  assumes P: "pairs_of (\<lambda>l r p. point_ok U m p \<and> intersection_of m b l r p) L R P"
    and okL: "lattice_ok U m L" and okR: "lattice_ok U m R"
    and b: "if b then has_full R \<longrightarrow> has_full L else has_full L \<longrightarrow> has_full R"
  shows "lattice_ok U m P"
  unfolding lattice_ok_def
proof (intro conjI ballI impI)
  show "P \<noteq> []" by (rule pairs_ne [OF P])
  show "point_ok U m p" if "p \<in> set P" for p using pairs_elem [OF P that] by blast
next
  note itsI = intersection_of_its
  fix p it assume p: "p \<in> set P" "it \<in> set (mp_iterators (hd P))" "full it"
  from pairs_elem [OF P p(1)] obtain l r where lr: "l \<in> set L" "r \<in> set R" "intersection_of m b l r p" by blast
  from pairs_hd [OF P] have hd: "intersection_of m b (hd L) (hd R) (hd P)" by blast
  from p(2,3) have "it \<in> set (mp_iterators (if b then hd R else hd L))" by (simp add: itsI [OF hd])
  with lr p(3) okL okR have "it \<in> set (mp_iterators (if b then r else l))"
    unfolding lattice_ok_def by (cases b) simp_all
  with p(3) show "it \<in> set (mp_iterators p)" by (simp add: itsI [OF lr(3)])
next
  note itsI = intersection_of_its
  assume "has_full P"
  moreover from pairs_hd [OF P] have "intersection_of m b (hd L) (hd R) (hd P)" by blast
  ultimately have "if b then has_full R else has_full L" by (auto simp: has_full_def itsI split: if_splits)
  with b have "has_full L" "has_full R" by (auto split: if_splits)
  with okL okR obtain l r where lr: "l \<in> set L" "\<forall>it \<in> set (mp_iterators l). full it"
    "r \<in> set R" "\<forall>it \<in> set (mp_iterators r). full it" unfolding lattice_ok_def by blast
  from pairs_pair [OF P lr(1,3)] obtain p where p: "p \<in> set P" "intersection_of m b l r p" by blast
  with lr(2,4) have "\<forall>it \<in> set (mp_iterators p). full it" by (auto simp: itsI [OF p(2)] split: if_splits)
  with p(1) show "\<exists>p \<in> set P. \<forall>it \<in> set (mp_iterators p). full it" by blast
qed

lemma intersection_within:
  assumes "intersection_of m b l r p" "point_ok U m l" "point_ok U m r" "present_set U A"
  shows "within A p = (within A l \<and> within A r)"
proof -
  have "it \<in> A" if "full it" "it \<in> set (mp_iterators l) \<union> set (mp_iterators r)" for it
    using assms that by (auto simp: present_set_def point_ok_def)
  then show ?thesis by (auto simp: within_def intersection_of_its [OF assms(1)] subset_iff split: if_splits)
qed

lemma intersection_follows:
  assumes P: "pairs_of (\<lambda>l r p. point_ok U m p \<and> intersection_of m b l r p) L R P"
    and L: "tracks U m X1 Z1 L" and R: "tracks U m X2 Z2 R" and A: "present_set U A"
  shows "follows m (X1 \<union> X2) (\<lambda>B. Z1 B \<or> Z2 B) P A"
proof -
  let ?Q = "\<lambda>l r p. point_ok U m p \<and> intersection_of m b l r p"
  have w: "within A p = (within A l \<and> within A r)" if "l \<in> set L" "r \<in> set R" "?Q l r p" for l r p
    using that tracks_ok [OF L] tracks_ok [OF R] intersection_within [OF _ _ _ A] by (auto simp: lattice_ok_def)
  have search: "find (within A) L = None \<or> find (within A) R = None \<Longrightarrow> find (within A) P = None"
    "\<And>l r. find (within A) L = Some l \<Longrightarrow> find (within A) R = Some r \<Longrightarrow> \<exists>p. find (within A) P = Some p \<and> ?Q l r p"
    using pairs_find [where S = "within A" and T = "within A" and W = "within A", OF P] w by blast+
  show ?thesis
  proof (cases "find (within A) L = None \<or> find (within A) R = None")
    case True
    with search(1) tracks_None [OF L A] tracks_None [OF R A] show ?thesis by (auto simp: follows_def absent_def)
  next
    case False
    then obtain l r where f: "find (within A) L = Some l" "find (within A) R = Some r" by auto
    from search(2) [OF f] obtain p where p: "find (within A) P = Some p" and Q: "?Q l r p" by blast
    from tracks_Some [OF L A f(1)] tracks_Some [OF R A f(2)]
    have l: "leads A L l" "agree m A X1 l" and r: "leads A R r" "agree m A X2 r" by auto
    have "leads A P p" unfolding leads_def
    proof (intro ballI impI mset_le_I)
      fix q x assume q: "q \<in> set P" "within A q"
      from pairs_elem [OF P q(1)] obtain l' r' where Q': "l' \<in> set L" "r' \<in> set R" "?Q l' r' q" by blast
      with q(2) w have "within A l'" "within A r'" by auto
      with Q' l(1) r(1) have "its_count l' x \<le> its_count l x" "its_count r' x \<le> its_count r x"
        by (auto intro: leads_D)
      with Q Q' show "its_count q x \<le> its_count p x" by (auto simp: intersection_of_def)
    qed
    moreover have "agree m A (X1 \<union> X2) p" unfolding agree_def
    proof (intro allI impI)
      fix B assume B: "B \<subseteq> A" "m \<in> B" "avail p \<subseteq> B"
      have "insert m (avail p) = insert m (avail l \<union> avail r)" using Q by (simp add: intersection_of_def)
      with B have "avail l \<subseteq> B" "avail r \<subseteq> B" by auto
      with B l(2) r(2) show "\<forall>x \<in> X1 \<union> X2. x B = x A" by (auto simp: agree_def)
    qed
    ultimately show ?thesis using p by (simp add: follows_def)
  qed
qed

lemma intersectLattices_tracks:
  assumes g: "good_iterators U m" and L: "tracks U m X1 Z1 L" and R: "tracks U m X2 Z2 R"
  shows "\<exists>P. intersectLattices L R = ok P \<and> tracks U m (X1 \<union> X2) (\<lambda>B. Z1 B \<or> Z2 B) P"
proof -
  note okL = tracks_ok [OF L] and okR = tracks_ok [OF R]
  from locateFromLeft_good [OF g okL okR] obtain b where b: "locateFromLeft L R = ok b"
    "if b then has_full R \<longrightarrow> has_full L else has_full L \<longrightarrow> has_full R" by blast
  have "\<exists>p. intersectPoints b l r = ok p \<and> point_ok U m p \<and> intersection_of m b l r p"
    if "l \<in> set L" "r \<in> set R" for l r
    using intersectPoints_good [OF g, of l r b] okL okR that by (auto simp: lattice_ok_def)
  with all_pairs_good [of L R "intersectPoints b" "\<lambda>l r p. point_ok U m p \<and> intersection_of m b l r p"] okL okR
  obtain P where P: "all_pairs (intersectPoints b) L R = ok P"
    "pairs_of (\<lambda>l r p. point_ok U m p \<and> intersection_of m b l r p) L R P" by (auto simp: lattice_ok_def)
  with intersection_ok [OF P(2) okL okR b(2)] intersection_follows [OF P(2) L R]
  have "tracks U m (X1 \<union> X2) (\<lambda>B. Z1 B \<or> Z2 B) P" by (simp add: tracks_def)
  with P(1) b(1) show ?thesis by (auto simp: intersectLattices_def)
qed

subsection \<open>Union\<close>

text \<open>All pairs of points, followed by the points of both sides. If the first point has a full iterator, then
  some point has only full iterators, among them those of the first point.\<close>

lemma union_full:
  assumes P: "pairs_of (\<lambda>l r p. point_ok U m p \<and> union_of m l r p) L R P"
    and okL: "lattice_ok U m L" and okR: "lattice_ok U m R" and "has_full P"
  shows "\<exists>p \<in> set (P @ L @ R). (\<forall>it \<in> set (mp_iterators p). full it) \<and>
           (\<forall>it \<in> set (mp_iterators (hd P)). full it \<longrightarrow> it \<in> set (mp_iterators p))"
proof -
  have hdU: "set (mp_iterators (hd P)) = set (mp_iterators (hd L)) \<union> set (mp_iterators (hd R))"
    using pairs_hd [OF P] by (blast dest: union_of_its)
  with assms(4) consider "has_full L" "has_full R" | "has_full L" "\<not> has_full R" | "\<not> has_full L" "has_full R"
    by (auto simp: has_full_def)
  then show ?thesis
  proof cases
    case 1
    with okL okR obtain l r where lr: "l \<in> set L" "\<forall>it \<in> set (mp_iterators l). full it"
      "r \<in> set R" "\<forall>it \<in> set (mp_iterators r). full it" unfolding lattice_ok_def by blast
    from pairs_pair [OF P lr(1,3)] obtain p where p: "p \<in> set P" "union_of m l r p" by blast
    have "it \<in> set (mp_iterators l) \<union> set (mp_iterators r)"
      if "it \<in> set (mp_iterators (hd P))" "full it" for it
      using that okL okR lr(1,3) unfolding hdU lattice_ok_def by blast
    with p(1) lr(2,4) union_of_its [OF p(2)] show ?thesis by (intro bexI [of _ p]) auto
  next
    case 2
    with okL obtain l where l: "l \<in> set L" "\<forall>it \<in> set (mp_iterators l). full it" unfolding lattice_ok_def by blast
    have "it \<in> set (mp_iterators l)" if "it \<in> set (mp_iterators (hd P))" "full it" for it
      using that okL l(1) 2(2) unfolding hdU lattice_ok_def has_full_def by blast
    with l show ?thesis by (intro bexI [of _ l]) auto
  next
    case 3
    with okR obtain r where r: "r \<in> set R" "\<forall>it \<in> set (mp_iterators r). full it" unfolding lattice_ok_def by blast
    have "it \<in> set (mp_iterators r)" if "it \<in> set (mp_iterators (hd P))" "full it" for it
      using that okR r(1) 3(1) unfolding hdU lattice_ok_def has_full_def by blast
    with r show ?thesis by (intro bexI [of _ r]) auto
  qed
qed

lemma agree_absent:
  assumes "agree m A X1 p" "absent m A Z2" "m \<in> A" "\<And>B B'. Z2 B \<Longrightarrow> Z2 B' \<Longrightarrow> \<forall>x \<in> X2. x B = x B'"
  shows "agree m A (X1 \<union> X2) p"
  unfolding agree_def
proof (intro allI impI)
  fix B assume B: "B \<subseteq> A" "m \<in> B" "avail p \<subseteq> B"
  with assms(2,3) have "Z2 B" "Z2 A" by (simp_all add: absent_def)
  from assms(4) [OF this] assms(1) B show "\<forall>x \<in> X1 \<union> X2. x B = x A" by (simp add: agree_def ball_Un)
qed

lemma agree_Un:
  assumes "agree m A X1 l" "agree m A X2 r" "avail l \<union> avail r \<subseteq> avail p"
  shows "agree m A (X1 \<union> X2) p"
  unfolding agree_def
proof (intro allI impI)
  fix B assume B: "B \<subseteq> A" "m \<in> B" "avail p \<subseteq> B"
  with assms(3) have "avail l \<subseteq> B" "avail r \<subseteq> B" by auto
  with assms(1,2) B show "\<forall>x \<in> X1 \<union> X2. x B = x A" by (simp add: agree_def ball_Un)
qed

lemma union_follows:
  assumes P: "pairs_of (\<lambda>l r p. point_ok U m p \<and> union_of m l r p) L R P"
    and L: "tracks U m X1 Z1 L" and R: "tracks U m X2 Z2 R" and A: "present_set U A" "m \<in> A"
    and zero: "\<And>B B'. Z1 B \<Longrightarrow> Z1 B' \<Longrightarrow> \<forall>x \<in> X1. x B = x B'" "\<And>B B'. Z2 B \<Longrightarrow> Z2 B' \<Longrightarrow> \<forall>x \<in> X2. x B = x B'"
  shows "follows m (X1 \<union> X2) (\<lambda>B. Z1 B \<and> Z2 B) (P @ L @ R) A"
proof -
  let ?Q = "\<lambda>l r p. point_ok U m p \<and> union_of m l r p"
  have w: "within A p = (within A l \<and> within A r)" if "l \<in> set L" "r \<in> set R" "?Q l r p" for l r p
    using that by (auto simp: within_def union_of_its)
  have search: "find (within A) L = None \<or> find (within A) R = None \<Longrightarrow> find (within A) P = None"
    "\<And>l r. find (within A) L = Some l \<Longrightarrow> find (within A) R = Some r \<Longrightarrow> \<exists>p. find (within A) P = Some p \<and> ?Q l r p"
    using pairs_find [where S = "within A" and T = "within A" and W = "within A", OF P] w by blast+
  have elems: "(\<exists>l r. l \<in> set L \<and> r \<in> set R \<and> ?Q l r q \<and> within A l \<and> within A r) \<or> q \<in> set L \<or> q \<in> set R"
    if "q \<in> set (P @ L @ R)" "within A q" for q
  proof (cases "q \<in> set P")
    case True
    from pairs_elem [OF P True] obtain l r where "l \<in> set L" "r \<in> set R" "?Q l r q" by blast
    with w that(2) show ?thesis by blast
  qed (use that in auto)
  show ?thesis
  proof (cases "find (within A) L"; cases "find (within A) R")
    assume f: "find (within A) L = None" "find (within A) R = None"
    with search(1) tracks_None [OF L A(1) f(1)] tracks_None [OF R A(1) f(2)]
    show ?thesis by (simp add: follows_def find_append absent_def)
  next
    fix l assume f: "find (within A) L = Some l" "find (within A) R = None"
    from tracks_Some [OF L A(1) f(1)] have l: "leads A L l" "agree m A X1 l" by auto
    have "leads A (P @ L @ R) l"
      using elems find_None_D [OF f(2)] l(1) unfolding leads_def by blast
    moreover have "agree m A (X1 \<union> X2) l"
      using agree_absent [OF l(2) tracks_None [OF R A(1) f(2)] A(2) zero(2)] .
    ultimately show ?thesis using f search(1) by (simp add: follows_def find_append)
  next
    fix r assume f: "find (within A) L = None" "find (within A) R = Some r"
    from tracks_Some [OF R A(1) f(2)] have r: "leads A R r" "agree m A X2 r" by auto
    have "leads A (P @ L @ R) r"
      using elems find_None_D [OF f(1)] r(1) unfolding leads_def by blast
    moreover have "agree m A (X1 \<union> X2) r"
      using agree_absent [OF r(2) tracks_None [OF L A(1) f(1)] A(2) zero(1)] by (simp add: Un_commute)
    ultimately show ?thesis using f search(1) by (simp add: follows_def find_append)
  next
    fix l r assume f: "find (within A) L = Some l" "find (within A) R = Some r"
    from search(2) [OF f] obtain p where p: "find (within A) P = Some p" and Q: "?Q l r p" by blast
    from tracks_Some [OF L A(1) f(1)] tracks_Some [OF R A(1) f(2)]
    have l: "leads A L l" "agree m A X1 l" and r: "leads A R r" "agree m A X2 r" by auto
    have le: "its_count l x \<le> its_count p x" "its_count r x \<le> its_count p x" for x
      using Q by (auto simp: union_of_def)
    have "leads A (P @ L @ R) p" unfolding leads_def
    proof (intro ballI impI mset_le_I)
      fix q x assume q: "q \<in> set (P @ L @ R)" "within A q"
      from elems [OF q] show "its_count q x \<le> its_count p x"
      proof (elim disjE exE)
        fix l' r' assume Q': "l' \<in> set L \<and> r' \<in> set R \<and> ?Q l' r' q \<and> within A l' \<and> within A r'"
        then have "its_count l' x \<le> its_count l x" "its_count r' x \<le> its_count r x"
          using l(1) r(1) by (auto intro: leads_D)
        with Q Q' show ?thesis by (auto simp: union_of_def)
      next
        assume "q \<in> set L"
        with q(2) l(1) have "its_count q x \<le> its_count l x" by (auto intro: leads_D)
        with le(1) show ?thesis by (rule order_trans [rotated])
      next
        assume "q \<in> set R"
        with q(2) r(1) have "its_count q x \<le> its_count r x" by (auto intro: leads_D)
        with le(2) show ?thesis by (rule order_trans [rotated])
      qed
    qed
    moreover have "agree m A (X1 \<union> X2) p"
      using Q by (intro agree_Un [OF l(2) r(2)]) (simp add: union_of_def)
    ultimately show ?thesis using p by (simp add: follows_def find_append)
  qed
qed

end
