(* ===== verification/Lattice_Union.thy ===== *)
theory Lattice_Union
  imports Lattice_Algebra
begin

text \<open>
  The optimisations of the union of two lattices keep what the lattice tracks: inserting dimension iterators
  next to unordered ones, moving iterators that can be located into to the locators, and removing points that
  lack a full iterator of the first point or iterate over the same iterators as an earlier one.
\<close>

subsection \<open>Inserting dimension iterators\<close>

lemma bindB_liftB_ok [simp]: "bindB (liftB (ok x)) f = f x"
  by (simp add: bindB_def liftB_def)

lemma insertDimension_good:
  assumes g: "good_iterators U m" and "\<forall>p \<in> set L. set (mp_iterators p) \<subseteq> U"
  shows "insertDimensionIteratorIfNotOrdered L = retB L"
  using assms(2) unfolding insertDimensionIteratorIfNotOrdered_def
proof (induction L)
  case (Cons p L)
  then have "anyR (\<lambda>it. notR (it_isOrdered it)) (mp_iterators p) = ok False"
    by (subst anyR_pure [where q = "\<lambda>_. False"]) (auto simp: good_D(1) [OF g] subset_iff)
  with Cons show ?case by simp
qed simp

subsection \<open>Moving iterators to the locators\<close>

definition moved :: "Iterator \<Rightarrow> Iterator \<Rightarrow> Iterator \<Rightarrow> bool" where
  "moved m f it \<longleftrightarrow> full it \<and> it \<noteq> m \<and> it \<noteq> f"

definition move :: "Iterator \<Rightarrow> Iterator \<Rightarrow> MergePoint \<Rightarrow> MergePoint" where
  "move m f p =
     \<lparr>mp_iterators = filter (\<lambda>it. \<not> moved m f it) (mp_iterators p),
      mp_locators = mp_locators p @ filter (moved m f) (mp_iterators p), mp_results = mp_results p\<rparr>"

definition moves :: "Iterator \<Rightarrow> MergeLattice \<Rightarrow> MergeLattice" where
  "moves m L =
     (case filter full (mp_iterators (hd L)) of [] \<Rightarrow> L | f # _ \<Rightarrow> map (move m f) L)"

lemma moveLocate_good:
  assumes g: "good_iterators U m" and L: "L \<noteq> []" "\<forall>p \<in> set L. set (mp_iterators p) \<subseteq> U"
  shows "moveLocateSubsetIteratorsToLocateSet L = ok (moves m L)"
proof -
  from L obtain p0 L' where L': "L = p0 # L'" by (cases L) auto
  have full: "filterR it_isFull (mp_iterators p0) = ok (filter full (mp_iterators p0))"
    using L(2) by (intro filterR_pure) (auto simp: L' good_D(2) [OF g] subset_iff)
  have split: "splitR (\<lambda>it. andR (it_hasLocate it) (notR (it_eq it f))) xs =
      ok (filter (moved m f) xs, filter (\<lambda>it. \<not> moved m f it) xs)" if "set xs \<subseteq> U" "f \<in> U" for xs f
    using that by (intro splitR_pure) (auto simp: good_D(3,5) [OF g] moved_def subset_iff)
  show ?thesis
  proof (cases "filter full (mp_iterators p0)")
    case Nil
    with full show ?thesis by (simp add: moveLocateSubsetIteratorsToLocateSet_def L' at_index_def moves_def)
  next
    case (Cons f fs)
    then have "f \<in> set (filter full (mp_iterators p0))" by simp
    then have "f \<in> U" using L(2) by (auto simp: L')
    have "bindR (splitR (\<lambda>it. andR (it_hasLocate it) (notR (it_eq it f))) (mp_iterators p))
            (\<lambda>(locators, iterators). MergePoint_make iterators (mp_locators p @ locators) (mp_results p)) =
          ok (move m f p)" if "p \<in> set L" for p
    proof -
      have U: "set (mp_iterators p) \<subseteq> U" using L(2) that by blast
      then have "set (filter (\<lambda>it. \<not> moved m f it) (mp_iterators p)) \<subseteq> U" by auto
      with split [OF U \<open>f \<in> U\<close>] show ?thesis by (simp add: MergePoint_make_good [OF g] move_def)
    qed
    then have "mapR (\<lambda>p. bindR (splitR (\<lambda>it. andR (it_hasLocate it) (notR (it_eq it f))) (mp_iterators p))
            (\<lambda>(locators, iterators). MergePoint_make iterators (mp_locators p @ locators) (mp_results p))) L =
          ok (map (move m f) L)" by (rule mapR_ok)
    with full Cons show ?thesis
      by (simp add: moveLocateSubsetIteratorsToLocateSet_def L' at_index_def moves_def del: mapR.simps)
  qed
qed

lemma move_within:
  assumes "present_set U A" "set (mp_iterators p) \<subseteq> U"
  shows "within A (move m f p) = within A p"
  using assms by (auto simp: within_def move_def moved_def present_set_def)

lemma move_avail: "avail (move m f p) = avail p"
  by (auto simp: avail_def move_def)

lemma move_count: "its_count (move m f p) x = (if moved m f x then 0 else its_count p x)"
  by (simp add: move_def count_filter_list)

lemma move_point_ok: "point_ok U m p \<Longrightarrow> point_ok U m (move m f p)"
  unfolding point_ok_def move_count by (auto simp: move_def moved_def)

lemma move_follows:
  assumes A: "present_set U A" and U: "\<forall>p \<in> set L. set (mp_iterators p) \<subseteq> U" and f: "follows m X Z L A"
  shows "follows m X Z (map (move m f) L) A"
proof -
  have w: "find (within A \<circ> move m f) L = find (within A) L"
    using move_within [OF A] U by (intro find_cong_set) auto
  show ?thesis
  proof (cases "find (within A) L")
    case None
    with f show ?thesis by (simp add: follows_def find_map w)
  next
    case (Some p)
    with f have p: "leads A L p" "agree m A X p" by (auto simp: follows_def)
    have "leads A (map (move m f) L) (move m f p)" unfolding leads_def
    proof (intro ballI impI mset_le_I)
      fix q x assume q: "q \<in> set (map (move m f) L)" "within A q"
      then obtain q' where q': "q' \<in> set L" "q = move m f q'" by auto
      with q(2) U have "within A q'" using move_within [OF A, of q'] by auto
      from leads_D [OF p(1) q'(1) this] show "its_count q x \<le> its_count (move m f p) x"
        by (simp add: q'(2) move_count)
    qed
    moreover have "agree m A X (move m f p)" using p(2) by (simp add: agree_def move_avail)
    ultimately show ?thesis using Some by (simp add: follows_def find_map w)
  qed
qed

lemma moves_follows:
  "present_set U A \<Longrightarrow> \<forall>p \<in> set L. set (mp_iterators p) \<subseteq> U \<Longrightarrow> follows m X Z L A \<Longrightarrow> follows m X Z (moves m L) A"
  using move_follows by (auto simp: moves_def split: list.splits)

subsection \<open>Removing points\<close>

definition full_part :: "MergePoint \<Rightarrow> Iterator set" where
  "full_part p = {it \<in> set (mp_iterators p). full it}"

lemma removeLacking_good:
  assumes g: "good_iterators U m" and L: "L \<noteq> []" "\<forall>p \<in> set L. set (mp_iterators p) \<subseteq> U"
  shows "removePointsThatLackFullIterators L =
           ok (filter (\<lambda>p. full_part (hd L) \<subseteq> set (mp_iterators p)) L)"
proof -
  from L obtain p0 L' where L': "L = p0 # L'" by (cases L) auto
  have full: "filterR it_isFull (mp_iterators p0) = ok (filter full (mp_iterators p0))"
    using L(2) by (intro filterR_pure) (auto simp: L' good_D(2) [OF g] subset_iff)
  have contains: "containsR it_eq xs f = ok (f \<in> set xs)" if "set xs \<subseteq> U" "f \<in> U" for xs f
    using that unfolding containsR_def
    by (subst anyR_pure [where q = "\<lambda>x. x = f"]) (auto simp: good_D(5) [OF g] subset_iff)
  have "allR (containsR it_eq (mp_iterators p)) (filter full (mp_iterators p0)) =
      ok (full_part (hd L) \<subseteq> set (mp_iterators p))" if "p \<in> set L" for p
  proof -
    have "set (mp_iterators p) \<subseteq> U" "set (mp_iterators p0) \<subseteq> U" using L(2) that by (auto simp: L')
    then show ?thesis
      by (subst allR_pure [where q = "\<lambda>it. it \<in> set (mp_iterators p)"])
        (auto simp: contains subset_iff full_part_def L')
  qed
  then have "filterR (\<lambda>p. allR (containsR it_eq (mp_iterators p)) (filter full (mp_iterators p0))) L =
      ok (filter (\<lambda>p. full_part (hd L) \<subseteq> set (mp_iterators p)) L)" by (rule filterR_pure)
  with full show ?thesis by (simp add: removePointsThatLackFullIterators_def L' at_index_def del: filterR.simps)
qed

fun remove_same :: "Iterator set set \<Rightarrow> MergeLattice \<Rightarrow> MergeLattice" where
  "remove_same S [] = []"
| "remove_same S (p # ps) =
     (if set (mp_iterators p) \<in> S then remove_same S ps
      else p # remove_same (insert (set (mp_iterators p)) S) ps)"

lemma remove_identical_good:
  assumes g: "good_iterators U m" and "\<forall>p \<in> set L. set (mp_iterators p) \<subseteq> U"
    and "\<forall>s \<in> set sets. set s \<subseteq> U \<and> sorted (map it_addr s) \<and> distinct s"
  shows "remove_identical sets L = ok (remove_same (set ` set sets) L)"
  using assms(2,3)
proof (induction L arbitrary: sets)
  case (Cons p L)
  then have pU: "set (mp_iterators p) \<subseteq> U" by simp
  from set_of_good [OF g pU] obtain ys where ys: "set_of (mp_iterators p) = ok ys"
    "set ys = set (mp_iterators p)" "sorted (map it_addr ys)" "distinct ys" by blast
  have "anyR (compare_its ys) sets = ok (ys \<in> set sets)"
    using Cons.prems(2) ys(2) pU
    by (subst anyR_pure [where q = "\<lambda>s. ys = s"]) (auto simp: compare_its_good [OF g])
  moreover have "ys \<in> set sets \<longleftrightarrow> set (mp_iterators p) \<in> set ` set sets"
  proof
    assume "set (mp_iterators p) \<in> set ` set sets"
    then obtain s where s: "s \<in> set sets" "set s = set ys" using ys(2) by auto
    with Cons.prems(2) have "s = ys" using ys pU by (intro ordered_sets_equal [OF g]) auto
    with s(1) show "ys \<in> set sets" by simp
  qed (use ys(2) in blast)
  moreover have "remove_identical sets L = ok (remove_same (set ` set sets) L)"
    using Cons by simp
  moreover have "remove_identical (ys # sets) L = ok (remove_same (insert (set (mp_iterators p)) (set ` set sets)) L)"
    using Cons.IH [of "ys # sets"] Cons.prems ys pU by simp
  ultimately show ?case using ys(1) by simp
qed simp

lemma remove_same_find:
  "\<forall>s \<in> S. \<not> s \<subseteq> A \<Longrightarrow> find (within A) (remove_same S L) = find (within A) L"
proof (induction L arbitrary: S)
  case (Cons p L)
  show ?case
  proof (cases "within A p")
    case True
    with Cons show ?thesis by (auto simp: within_def)
  next
    case False
    then have "\<forall>s \<in> insert (set (mp_iterators p)) S. \<not> s \<subseteq> A" using Cons.prems by (auto simp: within_def)
    with Cons False show ?thesis by simp
  qed
qed simp

lemma remove_same_subset: "set (remove_same S L) \<subseteq> set L"
  by (induction L arbitrary: S) auto

lemma remove_same_keeps:
  "p \<in> set L \<Longrightarrow> set (mp_iterators p) \<notin> S \<Longrightarrow> \<exists>q \<in> set (remove_same S L). set (mp_iterators q) = set (mp_iterators p)"
proof (induction L arbitrary: S)
  case (Cons p' L)
  show ?case
  proof (cases "set (mp_iterators p') \<in> S")
    case True
    with Cons.prems have "p \<in> set L" by auto
    with Cons.IH Cons.prems(2) True show ?thesis by simp
  next
    case False
    show ?thesis
    proof (cases "set (mp_iterators p) = set (mp_iterators p')")
      case False
      with Cons.prems have "p \<in> set L" "set (mp_iterators p) \<notin> insert (set (mp_iterators p')) S" by auto
      with Cons.IH \<open>set (mp_iterators p') \<notin> S\<close> show ?thesis by (metis remove_same.simps(2) list.set_intros(2))
    qed (use False in simp)
  qed
qed simp

lemma remove_same_hd: "L \<noteq> [] \<Longrightarrow> remove_same {} L \<noteq> [] \<and> hd (remove_same {} L) = hd L"
  by (cases L) auto

lemma leads_subset: "leads A L p \<Longrightarrow> set L' \<subseteq> set L \<Longrightarrow> leads A L' p"
  by (auto simp: leads_def)

lemma remove_same_follows: "follows m X Z L A \<Longrightarrow> follows m X Z (remove_same {} L) A"
  using remove_same_find [of "{}" A L] leads_subset [OF _ remove_same_subset]
  by (auto simp: follows_def split: option.splits)

lemma filter_follows:
  assumes "follows m X Z L A" "\<And>p. find (within A) L = Some p \<Longrightarrow> P p"
  shows "follows m X Z (filter P L) A"
proof (cases "find (within A) L")
  case None
  then have "find (within A) (filter P L) = None" by (auto simp: find_None_iff)
  with None assms(1) show ?thesis by (simp add: follows_def)
next
  case (Some p)
  with assms have "find (within A) (filter P L) = Some p" by (simp add: find_filter)
  with Some assms(1) leads_subset [of A L p "filter P L"] show ?thesis by (auto simp: follows_def)
qed

subsection \<open>The optimisations together\<close>

definition optimised :: "Iterator \<Rightarrow> MergeLattice \<Rightarrow> MergeLattice" where
  "optimised m L =
     (let M = moves m L in
      remove_same {} (filter (\<lambda>p. full_part (hd M) \<subseteq> set (mp_iterators p)) M))"

text \<open>A list of points that has a point of only full iterators, if its first point has full ones at all.\<close>

definition full_covered :: "MergeLattice \<Rightarrow> bool" where
  "full_covered L \<longleftrightarrow>
     (has_full L \<longrightarrow> (\<exists>p \<in> set L. (\<forall>it \<in> set (mp_iterators p). full it) \<and> full_part (hd L) \<subseteq> set (mp_iterators p)))"

lemma moves_full_covered:
  assumes "L \<noteq> []" "full_covered L"
  shows "full_covered (moves m L)" "moves m L \<noteq> []"
proof -
  show "moves m L \<noteq> []" using assms(1) by (auto simp: moves_def split: list.splits)
  show "full_covered (moves m L)"
  proof (cases "filter full (mp_iterators (hd L))")
    case Nil
    with assms show ?thesis by (simp add: moves_def)
  next
    case (Cons f fs)
    then have "f \<in> set (filter full (mp_iterators (hd L)))" by simp
    then have "has_full L" by (auto simp: has_full_def)
    with assms(2) obtain p where p: "p \<in> set L" "\<forall>it \<in> set (mp_iterators p). full it"
      "full_part (hd L) \<subseteq> set (mp_iterators p)" by (auto simp: full_covered_def)
    then have "\<forall>it \<in> set (mp_iterators (move m f p)). full it"
      "full_part (hd (map (move m f) L)) \<subseteq> set (mp_iterators (move m f p))"
      using assms(1) by (auto simp: move_def full_part_def hd_map)
    with p(1) Cons show ?thesis by (auto simp: full_covered_def moves_def)
  qed
qed

lemma optimised_tracks:
  assumes g: "good_iterators U m" and L: "L \<noteq> []" "\<forall>p \<in> set L. point_ok U m p" "full_covered L"
    and f: "\<And>A. present_set U A \<Longrightarrow> follows m X Z L A"
  shows "tracks U m X Z (optimised m L)"
proof -
  define M where "M = moves m L"
  define N where "N = filter (\<lambda>p. full_part (hd M) \<subseteq> set (mp_iterators p)) M"
  have U: "\<forall>p \<in> set L. set (mp_iterators p) \<subseteq> U" using L(2) by (auto simp: point_ok_def)
  have M: "M \<noteq> []" "full_covered M" unfolding M_def by (rule moves_full_covered [OF L(1,3)])+
  have Mok: "\<forall>p \<in> set M. point_ok U m p"
    using L(2) move_point_ok by (auto simp: M_def moves_def split: list.splits)
  have MU: "\<forall>p \<in> set M. set (mp_iterators p) \<subseteq> U" using Mok by (auto simp: point_ok_def)
  have hdM: "full_part (hd M) \<subseteq> set (mp_iterators (hd M))" by (auto simp: full_part_def)
  have N: "N \<noteq> []" "hd N = hd M" using M(1) hdM by (cases M; simp add: N_def)+
  have opt: "optimised m L = remove_same {} N" by (simp add: optimised_def M_def N_def Let_def)
  have "lattice_ok U m (remove_same {} N)" unfolding lattice_ok_def
  proof (intro conjI ballI impI)
    show "remove_same {} N \<noteq> []" using remove_same_hd [OF N(1)] by simp
    show "point_ok U m p" if "p \<in> set (remove_same {} N)" for p
      using that remove_same_subset [of "{}" N] Mok by (auto simp: N_def)
    show "it \<in> set (mp_iterators p)"
      if "p \<in> set (remove_same {} N)" "it \<in> set (mp_iterators (hd (remove_same {} N)))" "full it" for p it
      using that remove_same_subset [of "{}" N] remove_same_hd [OF N(1)] N(2) by (auto simp: N_def full_part_def)
    assume "has_full (remove_same {} N)"
    then have "has_full M" using remove_same_hd [OF N(1)] N(2) by (simp add: has_full_def)
    with M(2) obtain p where p: "p \<in> set N" "\<forall>it \<in> set (mp_iterators p). full it"
      by (auto simp: full_covered_def N_def)
    with remove_same_keeps [OF p(1), of "{}"] show "\<exists>p \<in> set (remove_same {} N). \<forall>it \<in> set (mp_iterators p). full it"
      by auto
  qed
  moreover have "follows m X Z (remove_same {} N) A" if A: "present_set U A" for A
  proof (rule remove_same_follows)
    have fM: "follows m X Z M A" unfolding M_def by (rule moves_follows [OF A U f [OF A]])
    show "follows m X Z N A" unfolding N_def
    proof (rule filter_follows [OF fM])
      fix p assume p: "find (within A) M = Some p"
      show "full_part (hd M) \<subseteq> set (mp_iterators p)"
      proof (cases "has_full M")
        case False
        then show ?thesis by (auto simp: has_full_def full_part_def)
      next
        case True
        with M(2) obtain q where q: "q \<in> set M" "\<forall>it \<in> set (mp_iterators q). full it"
          "full_part (hd M) \<subseteq> set (mp_iterators q)" by (auto simp: full_covered_def)
        with MU have "within A q" using full_within [OF A] by blast
        moreover have "leads A M p" using fM p by (simp add: follows_def)
        ultimately have "mset (mp_iterators q) \<subseteq># mset (mp_iterators p)" using q(1) by (simp add: leads_def)
        with q(3) show ?thesis by (metis (no_types) order_trans set_mset_mono set_mset_mset)
      qed
    qed
  qed
  ultimately show ?thesis by (simp add: tracks_def opt)
qed

lemma optimised_good:
  assumes g: "good_iterators U m" and L: "L \<noteq> []" "\<forall>p \<in> set L. point_ok U m p"
  shows "bindR (moveLocateSubsetIteratorsToLocateSet L) (\<lambda>points.
           bindR (removePointsThatLackFullIterators points) removePointsWithIdenticalIterators) = ok (optimised m L)"
proof -
  have U: "\<forall>p \<in> set L. set (mp_iterators p) \<subseteq> U" using L(2) by (auto simp: point_ok_def)
  have M: "moves m L \<noteq> []" using L(1) by (auto simp: moves_def split: list.splits)
  have MU: "\<forall>p \<in> set (moves m L). set (mp_iterators p) \<subseteq> U"
    using U by (fastforce simp: moves_def move_def split: list.splits)
  let ?N = "filter (\<lambda>p. full_part (hd (moves m L)) \<subseteq> set (mp_iterators p)) (moves m L)"
  have "\<forall>p \<in> set ?N. set (mp_iterators p) \<subseteq> U" using MU by auto
  then have "remove_identical [] ?N = ok (remove_same {} ?N)" using remove_identical_good [OF g, of ?N "[]"] by simp
  then show ?thesis
    by (simp add: moveLocate_good [OF g L(1) U] removeLacking_good [OF g M MU] removePointsWithIdenticalIterators_def
        optimised_def Let_def)
qed

theorem unionLattices_tracks:
  assumes g: "good_iterators U m" and L: "tracks U m X1 Z1 L" and R: "tracks U m X2 Z2 R"
    and zero: "\<And>B B'. Z1 B \<Longrightarrow> Z1 B' \<Longrightarrow> \<forall>x \<in> X1. x B = x B'" "\<And>B B'. Z2 B \<Longrightarrow> Z2 B' \<Longrightarrow> \<forall>x \<in> X2. x B = x B'"
  shows "\<exists>P. unionLattices L R = retB P \<and> tracks U m (X1 \<union> X2) (\<lambda>B. Z1 B \<and> Z2 B) P"
proof -
  let ?Q = "\<lambda>l r p. point_ok U m p \<and> union_of m l r p"
  note okL = tracks_ok [OF L] and okR = tracks_ok [OF R]
  have "\<exists>p. unionPoints l r = ok p \<and> ?Q l r p" if "l \<in> set L" "r \<in> set R" for l r
    using unionPoints_good [OF g, of l r] okL okR that by (auto simp: lattice_ok_def)
  with all_pairs_good [of L R unionPoints ?Q] okL okR
  obtain P where P: "all_pairs unionPoints L R = ok P" "pairs_of ?Q L R P" by (auto simp: lattice_ok_def)
  let ?L = "P @ L @ R"
  have pts: "\<forall>p \<in> set ?L. point_ok U m p"
    using pairs_elem [OF P(2)] okL okR by (auto simp: lattice_ok_def)
  have U: "\<forall>p \<in> set ?L. set (mp_iterators p) \<subseteq> U" using pts by (auto simp: point_ok_def)
  have ne: "?L \<noteq> []" "hd ?L = hd P" using pairs_ne [OF P(2)] by simp_all
  have "full_covered ?L" unfolding full_covered_def
  proof
    assume "has_full ?L"
    then have "has_full P" using ne(2) by (simp add: has_full_def)
    from union_full [OF P(2) okL okR this] ne(2)
    show "\<exists>p \<in> set ?L. (\<forall>it \<in> set (mp_iterators p). full it) \<and> full_part (hd ?L) \<subseteq> set (mp_iterators p)"
      unfolding full_part_def by (metis (mono_tags, lifting) mem_Collect_eq subsetI)
  qed
  moreover have "follows m (X1 \<union> X2) (\<lambda>B. Z1 B \<and> Z2 B) ?L A" if "present_set U A" for A
    using union_follows [OF P(2) L R that _ zero] that good_m [OF g] by (simp add: present_set_def)
  ultimately have "tracks U m (X1 \<union> X2) (\<lambda>B. Z1 B \<and> Z2 B) (optimised m ?L)"
    using optimised_tracks [OF g ne(1) pts] by blast
  moreover have "unionLattices L R = retB (optimised m ?L)"
    by (simp only: unionLattices_def P(1) bindB_liftB_ok insertDimension_good [OF g U] bindB_retB
        optimised_good [OF g ne(1) pts]) (simp add: liftB_def retB_def)
  ultimately show ?thesis by blast
qed

end
