(* ===== verification/Lattice_Sound.thy ===== *)
theory Lattice_Sound
  imports Lattice_Union
begin

text \<open>
  The merge lattice of a loop is right: the loops over its points meet every coordinate at which the expression
  of the loop is not zero, in order and once, and at each of them the case that is chosen has all the iterators
  available that matter to the value of the expression.
\<close>

subsection \<open>The value of an expression\<close>

text \<open>The arithmetic of the tensors. Sums, differences, products and negation are those of the integers.\<close>

record arith =
  ar_literal :: "Datatype \<Rightarrow> component_union \<Rightarrow> int"
  ar_div :: "int \<Rightarrow> int \<Rightarrow> int"
  ar_sqrt :: "int \<Rightarrow> int"
  ar_cast :: "Datatype \<Rightarrow> int \<Rightarrow> int"
  ar_call :: "Intrinsic \<Rightarrow> IndexExpr list \<Rightarrow> int list \<Rightarrow> int"

fun value_of :: "arith \<Rightarrow> (Access \<Rightarrow> int) \<Rightarrow> IndexExpr \<Rightarrow> int" where
  "value_of ar v (AccessNode a) = v a"
| "value_of ar v (LiteralNode t u) = ar_literal ar t u"
| "value_of ar v (NegNode e) = - value_of ar v e"
| "value_of ar v (AddNode e f) = value_of ar v e + value_of ar v f"
| "value_of ar v (SubNode e f) = value_of ar v e - value_of ar v f"
| "value_of ar v (MulNode e f) = value_of ar v e * value_of ar v f"
| "value_of ar v (DivNode e f) = ar_div ar (value_of ar v e) (value_of ar v f)"
| "value_of ar v (SqrtNode e) = ar_sqrt ar (value_of ar v e)"
| "value_of ar v (CastNode t e) = ar_cast ar t (value_of ar v e)"
| "value_of ar v (CallIntrinsicNode f es) = ar_call ar f es (map (value_of ar v) es)"
| "value_of ar v _ = 0"

text \<open>Quotients of zero, zero by zero included, and roots and casts of zero are zero: the loops do not compute them. A
  call is zero when all the arguments of one of its zero-preserving sets are.\<close>

definition zero_arith :: "arith \<Rightarrow> bool" where
  "zero_arith ar \<longleftrightarrow>
     (\<forall>x. ar_div ar 0 x = 0) \<and> ar_sqrt ar 0 = 0 \<and> (\<forall>t. ar_cast ar t 0 = 0)"

definition zero_call :: "fpu \<Rightarrow> arith \<Rightarrow> Intrinsic \<Rightarrow> IndexExpr list \<Rightarrow> bool" where
  "zero_call F ar f es \<longleftrightarrow>
     (\<exists>sets. intrinsic_zeroPreservingArgs F f es = ok sets \<and>
        (\<forall>zs \<in> set sets. zs \<noteq> [] \<and> (\<forall>i \<in> set zs. i < length es) \<and>
           (\<forall>v. (\<forall>i \<in> set zs. value_of ar v (es ! i) = 0) \<longrightarrow> ar_call ar f es (map (value_of ar v) es) = 0)))"

text \<open>Expressions of concrete notation: defined, without reductions. The builder skips a quotient where either operand is
  absent, so its operands have to be such that it is zero where the denominator is; \<open>a / b\<close> over unrelated
  operands is only covered by an arithmetic in which \<open>x / 0\<close> is 0.\<close>

fun concrete :: "fpu \<Rightarrow> arith \<Rightarrow> IndexExpr \<Rightarrow> bool" where
  "concrete F ar (AccessNode a) = True"
| "concrete F ar (LiteralNode t u) = True"
| "concrete F ar (NegNode e) = concrete F ar e"
| "concrete F ar (AddNode e f) = (concrete F ar e \<and> concrete F ar f)"
| "concrete F ar (SubNode e f) = (concrete F ar e \<and> concrete F ar f)"
| "concrete F ar (MulNode e f) = (concrete F ar e \<and> concrete F ar f)"
| "concrete F ar (DivNode e f) = (concrete F ar e \<and> concrete F ar f \<and>
     (\<forall>v. value_of ar v f = 0 \<longrightarrow> value_of ar v (DivNode e f) = 0))"
| "concrete F ar (SqrtNode e) = concrete F ar e"
| "concrete F ar (CastNode t e) = concrete F ar e"
| "concrete F ar (CallIntrinsicNode f es) = ((\<forall>e \<in> set es. concrete F ar e) \<and> zero_call F ar f es)"
| "concrete F ar _ = False"

subsection \<open>The accesses of a loop\<close>

text \<open>Whether the loop variable, or one it derives from, is a variable of the access.\<close>

definition indexes_loop :: "lattice_context \<Rightarrow> Access \<Rightarrow> bool" where
  "indexes_loop ctx a \<longleftrightarrow>
     (case (getUnderivedAncestors (lc_provGraph ctx) (lc_i ctx),
            concatR (getUnderivedAncestors (lc_provGraph ctx)) (acc_indexVars a)) of
        (Inr us, Inr vs) \<Rightarrow> (\<exists>u \<in> set us. u \<in> set vs)
      | _ \<Rightarrow> False)"

definition loop_iterator :: "lattice_context \<Rightarrow> Access \<Rightarrow> Iterator option" where
  "loop_iterator ctx a =
     (if indexes_loop ctx a then (case getIterator ctx a (lc_i ctx) of Inr it \<Rightarrow> Some it | Inl _ \<Rightarrow> None) else None)"

definition plain_loop :: "lattice_context \<Rightarrow> Iterator \<Rightarrow> bool" where
  "plain_loop ctx m \<longleftrightarrow>
     (\<exists>us. getUnderivedAncestors (lc_provGraph ctx) (lc_i ctx) = ok us \<and>
        (\<forall>u \<in> set us. \<exists>d. getPosIteratorDescendant (lc_provGraph ctx) u = ok d)) \<and>
     modeIterator (lc_iterators ctx) (lc_i ctx) = ok m \<and>
     hasCoordBounds (lc_provGraph ctx) (lc_i ctx) = ok False \<and>
     isPosVariable (lc_provGraph ctx) (lc_i ctx) = ok False"

definition plain_access :: "lattice_context \<Rightarrow> Iterator set \<Rightarrow> Iterator \<Rightarrow> Access \<Rightarrow> bool" where
  "plain_access ctx U m a \<longleftrightarrow>
     (\<exists>vs. concatR (getUnderivedAncestors (lc_provGraph ctx)) (acc_indexVars a) = ok vs) \<and>
     (indexes_loop ctx a \<longrightarrow>
        (\<exists>it. getIterator ctx a (lc_i ctx) = ok it \<and> it \<in> U \<and> it \<noteq> m \<and> hasIndexSet it = ok False))"

text \<open>The values of the accesses when only the iterators in \<open>B\<close> are present.\<close>

definition restricted :: "lattice_context \<Rightarrow> (Access \<Rightarrow> int) \<Rightarrow> Iterator set \<Rightarrow> Access \<Rightarrow> int" where
  "restricted ctx v B a = (case loop_iterator ctx a of None \<Rightarrow> v a | Some it \<Rightarrow> if it \<in> B then v a else 0)"

definition quantity_of :: "lattice_context \<Rightarrow> arith \<Rightarrow> (Access \<Rightarrow> int) \<Rightarrow> IndexExpr \<Rightarrow> quantity" where
  "quantity_of ctx ar v e B = value_of ar (restricted ctx v B) e"

abbreviation is_zero :: "quantity \<Rightarrow> Iterator set \<Rightarrow> bool" where
  "is_zero x \<equiv> \<lambda>B. x B = 0"

subsection \<open>Lattices of one point\<close>

lemma tracks_singleton:
  assumes "point_ok U m p" "mp_iterators p = [it]"
    and "\<And>A. present_set U A \<Longrightarrow> it \<in> A \<Longrightarrow> agree m A X p"
    and "\<And>A. present_set U A \<Longrightarrow> it \<notin> A \<Longrightarrow> absent m A Z"
  shows "tracks U m X Z [p]"
  using assms by (auto simp: tracks_def lattice_ok_def has_full_def follows_def leads_def within_def)

lemma mode_lattice_tracks:
  assumes g: "good_iterators U m" and l: "plain_loop ctx m" and "\<And>A B. \<forall>x \<in> X. x A = x B"
  shows "\<exists>L. modeIterationLattice ctx = ok L \<and> tracks U m X (\<lambda>_. False) L"
proof -
  have m: "m \<in> U" "full m" by (rule good_m [OF g])+
  have "modeIterationLattice ctx = ok [\<lparr>mp_iterators = [m], mp_locators = [], mp_results = []\<rparr>]" (is "_ = ok [?p]")
    using l m(1) by (simp add: modeIterationLattice_def plain_loop_def MergePoint_make_good [OF g])
  moreover have "tracks U m X (\<lambda>_. False) [?p]"
    using m assms(3) by (intro tracks_singleton [where it = m]) (auto simp: point_ok_def agree_def present_set_def)
  ultimately show ?thesis by blast
qed

lemma access_point_tracks:
  assumes g: "good_iterators U m" and it: "it \<in> U" "it \<noteq> m" and x: "\<And>B. x B = (if it \<in> B then c else 0)"
  shows "tracks U m {x} (is_zero x) [\<lparr>mp_iterators = [it], mp_locators = [], mp_results = []\<rparr>]"
    and "full it \<Longrightarrow> tracks U m {x} (is_zero x) [\<lparr>mp_iterators = [m], mp_locators = [it], mp_results = []\<rparr>]"
proof -
  show "tracks U m {x} (is_zero x) [\<lparr>mp_iterators = [it], mp_locators = [], mp_results = []\<rparr>]"
    using it x by (intro tracks_singleton [where it = it]) (auto simp: point_ok_def agree_def avail_def absent_def)
  assume "full it"
  with it x good_m [OF g]
  show "tracks U m {x} (is_zero x) [\<lparr>mp_iterators = [m], mp_locators = [it], mp_results = []\<rparr>]"
    by (intro tracks_singleton [where it = m])
      (auto simp: point_ok_def agree_def avail_def absent_def present_set_def)
qed

lemma find_indexes:
  assumes "getUnderivedAncestors (lc_provGraph ctx) (lc_i ctx) = ok us"
    "concatR (getUnderivedAncestors (lc_provGraph ctx)) (acc_indexVars a) = ok vs"
  shows "indexes_loop ctx a \<longleftrightarrow> find (\<lambda>v. v \<in> set vs) us \<noteq> None"
  using assms by (auto simp: indexes_loop_def find_None_iff)

lemma access_lattice_tracks:
  assumes g: "good_iterators U m" and l: "plain_loop ctx m" and a: "plain_access ctx U m a"
  shows "\<exists>L. access_lattice ctx a = ok L \<and>
           tracks U m {quantity_of ctx ar v (AccessNode a)} (is_zero (quantity_of ctx ar v (AccessNode a))) L"
proof -
  let ?x = "quantity_of ctx ar v (AccessNode a)"
  from l obtain us where us: "getUnderivedAncestors (lc_provGraph ctx) (lc_i ctx) = ok us"
    "\<forall>u \<in> set us. \<exists>d. getPosIteratorDescendant (lc_provGraph ctx) u = ok d" by (auto simp: plain_loop_def)
  from a obtain vs where vs: "concatR (getUnderivedAncestors (lc_provGraph ctx)) (acc_indexVars a) = ok vs"
    by (auto simp: plain_access_def)
  note idx = find_indexes [OF us(1) vs]
  show ?thesis
  proof (cases "find (\<lambda>v. v \<in> set vs) us")
    case None
    with idx have "?x A = ?x B" for A B
      by (simp add: quantity_of_def restricted_def loop_iterator_def)
    with mode_lattice_tracks [OF g l, of "{?x}"] obtain L where
      "modeIterationLattice ctx = ok L" "tracks U m {?x} (\<lambda>_. False) L" by auto
    moreover from this(2) have "tracks U m {?x} (is_zero ?x) L" by (rule tracks_weaken) auto
    ultimately show ?thesis using us(1) vs None by (simp add: access_lattice_def Let_def)
  next
    case (Some u)
    with idx a obtain it where it: "getIterator ctx a (lc_i ctx) = ok it" "it \<in> U" "it \<noteq> m" "hasIndexSet it = ok False"
      by (auto simp: plain_access_def)
    with idx Some have x: "?x B = (if it \<in> B then v a else 0)" for B
      by (simp add: quantity_of_def restricted_def loop_iterator_def)
    from g it(2) obtain c p where cp: "it_hasCoordIter it = ok c" "it_hasPosIter it = ok p" "c \<or> p \<or> full it"
      by (auto simp: good_iterators_def)
    have lc: "it_hasLocate it = ok (full it)" using good_D(3) [OF g it(2)] it(3) by simp
    from find_Some_D [OF Some] us(2) obtain d where d: "getPosIteratorDescendant (lc_provGraph ctx) u = ok d" by auto
    let ?I = "\<lparr>mp_iterators = [it], mp_locators = [], mp_results = []\<rparr>"
    let ?M = "\<lparr>mp_iterators = [m], mp_locators = [it], mp_results = []\<rparr>"
    have "orR (it_hasCoordIter it) (orR (it_hasPosIter it) (it_hasLocate it)) = ok True"
      using cp lc by (cases c; cases p) auto
    moreover have "point_iterators ctx it = ok [it]"
      using l it(4) by (simp add: point_iterators_def plain_loop_def)
    moreover have "located_point ctx it = ok [?M]"
      using l good_m(1) [OF g] by (simp add: located_point_def plain_loop_def MergePoint_make_good [OF g])
    moreover have "MergePoint_make [it] [] [] = ok ?I" using it(2) by (simp add: MergePoint_make_good [OF g])
    ultimately have "access_lattice ctx a = ok (if d = Some (lc_i ctx) \<or> c \<or> p then [?I] else [?M])"
      using us(1) vs Some it(1) d cp(1,2) l by (cases c; cases p) (auto simp: access_lattice_def plain_loop_def Let_def)
    with access_point_tracks [OF g it(2,3) x] cp(3) show ?thesis by auto
  qed
qed

subsection \<open>Expressions\<close>

lemma bind_state: "m s = ok (x, s) \<Longrightarrow> bindB m f s = f x s"
  by (simp add: bindB_def)

lemma retB_apply: "retB x s = ok (x, s)" "liftB (ok x) s = ok (x, s)"
  by (simp_all add: retB_def liftB_def)

lemma buildM_retB: "buildM (retB x) s = ok (x, s)"
  by (simp add: buildM_def retB_def)

text \<open>A computation returns a lattice that tracks a quantity and leaves the state as it is.\<close>

definition tracked ::
    "Iterator set \<Rightarrow> Iterator \<Rightarrow> quantity set \<Rightarrow> (Iterator set \<Rightarrow> bool) \<Rightarrow> MergeLattice merging \<Rightarrow> merge_builder \<Rightarrow> bool" where
  "tracked U m X Z c s \<longleftrightarrow> (\<exists>L. c s = ok (L, s) \<and> tracks U m X Z L)"

lemma tracks_ne: "tracks U m X Z L \<Longrightarrow> L \<noteq> []"
  by (auto simp: tracks_def lattice_ok_def)

lemma lattice_sum_tracked:
  assumes g: "good_iterators U m" and "tracked U m {x} (is_zero x) c s" "tracked U m {y} (is_zero y) d s"
    and z: "\<And>B. z B = f (x B) (y B)" "f 0 0 = 0"
  shows "tracked U m {z} (is_zero z) (lattice_sum c d) s"
proof -
  from assms(2,3) obtain L R where L: "c s = ok (L, s)" "tracks U m {x} (is_zero x) L"
    and R: "d s = ok (R, s)" "tracks U m {y} (is_zero y) R" by (auto simp: tracked_def)
  from unionLattices_tracks [OF g L(2) R(2)] obtain P where P: "unionLattices L R = retB P"
    "tracks U m ({x} \<union> {y}) (\<lambda>B. x B = 0 \<and> y B = 0) P" by auto
  have "tracks U m {z} (is_zero z) P" by (rule tracks_weaken [OF P(2)]) (auto simp: z)
  moreover have "lattice_sum c d s = ok (P, s)"
    using tracks_ne [OF L(2)] tracks_ne [OF R(2)] by (simp add: lattice_sum_def bindB_def L(1) R(1) P(1) buildM_retB)
  ultimately show ?thesis by (auto simp: tracked_def)
qed

lemma lattice_product_tracked:
  assumes g: "good_iterators U m" and "tracked U m {x} (is_zero x) c s" "tracked U m {y} (is_zero y) d s"
    and z: "\<And>B. z B = f (x B) (y B)" "\<And>B. x B = 0 \<or> y B = 0 \<Longrightarrow> z B = 0"
  shows "tracked U m {z} (is_zero z) (lattice_product c d) s"
proof -
  from assms(2,3) obtain L R where L: "c s = ok (L, s)" "tracks U m {x} (is_zero x) L"
    and R: "d s = ok (R, s)" "tracks U m {y} (is_zero y) R" by (auto simp: tracked_def)
  from intersectLattices_tracks [OF g L(2) R(2)] obtain P where P: "intersectLattices L R = ok P"
    "tracks U m ({x} \<union> {y}) (\<lambda>B. x B = 0 \<or> y B = 0) P" by blast
  have "tracks U m {z} (is_zero z) P" by (rule tracks_weaken [OF P(2)]) (use z in auto)
  moreover have "lattice_product c d s = ok (P, s)"
    using tracks_ne [OF L(2)] tracks_ne [OF R(2)] by (simp add: lattice_product_def bindB_def L(1) R(1) P(1) retB_apply)
  ultimately show ?thesis by (auto simp: tracked_def)
qed

lemma tracked_unary:
  assumes "tracked U m {x} (is_zero x) c s" "\<And>B. z B = f (x B)" "f 0 = 0"
  shows "tracked U m {z} (is_zero z) c s"
proof -
  from assms(1) obtain L where L: "c s = ok (L, s)" "tracks U m {x} (is_zero x) L" by (auto simp: tracked_def)
  have "tracks U m {z} (is_zero z) L" by (rule tracks_weaken [OF L(2)]) (auto simp: assms(2,3))
  with L(1) show ?thesis by (auto simp: tracked_def)
qed

subsection \<open>Calls\<close>

lemma unite_args_tracked:
  assumes g: "good_iterators U m"
    and args: "\<And>i. i \<in> set idx \<Longrightarrow> i < length args \<and> tracked U m {x i} (is_zero (x i)) (args ! i) s"
    and l: "tracks U m X Z l" "\<And>B B'. Z B \<Longrightarrow> Z B' \<Longrightarrow> \<forall>x \<in> X. x B = x B'"
  shows "tracked U m (X \<union> x ` set idx) (\<lambda>B. Z B \<and> (\<forall>i \<in> set idx. x i B = 0)) (unite_args args idx l) s"
  using args l
proof (induction idx arbitrary: X Z l)
  case Nil
  then show ?case by (auto simp: tracked_def unite_args_def retB_apply)
next
  case (Cons i idx)
  from Cons.prems(1) [of i] obtain L where i: "i < length args" and L: "(args ! i) s = ok (L, s)"
    "tracks U m {x i} (is_zero (x i)) L" by (auto simp: tracked_def)
  from unionLattices_tracks [OF g Cons.prems(2) L(2) Cons.prems(3)] obtain P where P: "unionLattices l L = retB P"
    "tracks U m (X \<union> {x i}) (\<lambda>B. Z B \<and> x i B = 0) P" by auto
  have step: "unite_args args (i # idx) l s = unite_args args idx P s"
    using i by (simp add: unite_args_def bindB_def at_index_def L(1) P(1) buildM_retB)
  have "tracked U m (X \<union> {x i} \<union> x ` set idx) (\<lambda>B. (Z B \<and> x i B = 0) \<and> (\<forall>j \<in> set idx. x j B = 0))
          (unite_args args idx P) s"
    by (rule Cons.IH [OF _ P(2)]) (use Cons.prems in auto)
  then show ?case by (simp add: tracked_def step insert_commute conj_assoc)
qed

lemma union_empty_left:
  assumes g: "good_iterators U m" and R: "tracks U m X Z R"
  shows "\<exists>P. unionLattices [] R = retB P \<and> tracks U m X Z P"
proof -
  have ok: "R \<noteq> []" "\<forall>p \<in> set R. point_ok U m p" using tracks_ok [OF R] by (auto simp: lattice_ok_def)
  then have U: "\<forall>p \<in> set R. set (mp_iterators p) \<subseteq> U" by (auto simp: point_ok_def)
  have "full_covered R" unfolding full_covered_def
  proof
    assume "has_full R"
    with tracks_ok [OF R] obtain p where p: "p \<in> set R" "\<forall>it \<in> set (mp_iterators p). full it"
      unfolding lattice_ok_def by blast
    moreover have "full_part (hd R) \<subseteq> set (mp_iterators p)"
      using tracks_ok [OF R] p(1) unfolding lattice_ok_def full_part_def by blast
    ultimately show "\<exists>p \<in> set R. (\<forall>it \<in> set (mp_iterators p). full it) \<and> full_part (hd R) \<subseteq> set (mp_iterators p)"
      by blast
  qed
  moreover have "follows m X Z R A" if "present_set U A" for A using R that by (simp add: tracks_def)
  ultimately have "tracks U m X Z (optimised m R)" using optimised_tracks [OF g ok] by blast
  moreover have "all_pairs unionPoints [] R = ok []" by (simp add: all_pairs_def)
  then have "unionLattices [] R = retB (optimised m R)"
    by (simp only: unionLattices_def bindB_liftB_ok append_Nil insertDimension_good [OF g U] bindB_retB
        optimised_good [OF g ok]) (simp add: liftB_def retB_def)
  ultimately show ?thesis by blast
qed

lemma unite_set_tracked:
  assumes g: "good_iterators U m" and "idx \<noteq> []"
    and args: "\<And>i. i \<in> set idx \<Longrightarrow> i < length args \<and> tracked U m {x i} (is_zero (x i)) (args ! i) s"
  shows "tracked U m (x ` set idx) (\<lambda>B. \<forall>i \<in> set idx. x i B = 0) (unite_args args idx []) s"
proof -
  from assms(2) obtain i js where idx: "idx = i # js" by (cases idx) auto
  from args [of i] idx obtain L where i: "i < length args" and L: "(args ! i) s = ok (L, s)"
    "tracks U m {x i} (is_zero (x i)) L" by (auto simp: tracked_def)
  from union_empty_left [OF g L(2)] obtain P where P: "unionLattices [] L = retB P"
    "tracks U m {x i} (is_zero (x i)) P" by blast
  have step: "unite_args args idx [] s = unite_args args js P s"
    using i by (simp add: idx unite_args_def bindB_def at_index_def L(1) P(1) buildM_retB)
  have "tracked U m ({x i} \<union> x ` set js) (\<lambda>B. x i B = 0 \<and> (\<forall>j \<in> set js. x j B = 0)) (unite_args args js P) s"
    by (rule unite_args_tracked [OF g _ P(2)]) (use args idx in auto)
  then show ?thesis unfolding tracked_def step by (simp add: idx)
qed

lemma call_sets_tracked:
  assumes g: "good_iterators U m" and "\<forall>zs \<in> set sets. zs \<noteq> []"
    and args: "\<And>i. i \<in> set (concat sets) \<Longrightarrow> i < length args \<and> tracked U m {x i} (is_zero (x i)) (args ! i) s"
    and l: "tracks U m X Z l"
  shows "tracked U m (X \<union> x ` set (concat sets)) (\<lambda>B. Z B \<or> (\<exists>zs \<in> set sets. \<forall>i \<in> set zs. x i B = 0))
           (foldB (\<lambda>zs l. bindB (unite_args args zs []) (\<lambda>z. liftB (intersectLattices l z))) sets l) s"
  using assms(2) args l
proof (induction sets arbitrary: X Z l)
  case Nil
  then show ?case by (auto simp: tracked_def retB_apply)
next
  case (Cons zs sets)
  have "tracked U m (x ` set zs) (\<lambda>B. \<forall>i \<in> set zs. x i B = 0) (unite_args args zs []) s"
    by (rule unite_set_tracked [OF g]) (use Cons.prems in auto)
  then obtain R where R: "unite_args args zs [] s = ok (R, s)"
    "tracks U m (x ` set zs) (\<lambda>B. \<forall>i \<in> set zs. x i B = 0) R" by (auto simp: tracked_def)
  from intersectLattices_tracks [OF g Cons.prems(3) R(2)] obtain P where P: "intersectLattices l R = ok P"
    "tracks U m (X \<union> x ` set zs) (\<lambda>B. Z B \<or> (\<forall>i \<in> set zs. x i B = 0)) P" by blast
  let ?f = "\<lambda>zs l. bindB (unite_args args zs []) (\<lambda>z. liftB (intersectLattices l z))"
  have step: "foldB ?f (zs # sets) l s = foldB ?f sets P s"
    by (simp add: bindB_def R(1) P(1) retB_apply)
  have "tracked U m (X \<union> x ` set zs \<union> x ` set (concat sets))
      (\<lambda>B. (Z B \<or> (\<forall>i \<in> set zs. x i B = 0)) \<or> (\<exists>zs \<in> set sets. \<forall>i \<in> set zs. x i B = 0)) (foldB ?f sets P) s"
    by (rule Cons.IH [OF _ _ P(2)]) (use Cons.prems in auto)
  then show ?case unfolding tracked_def step by (simp add: image_Un Un_assoc disj_assoc)
qed

lemma call_tracked:
  assumes g: "good_iterators U m" and l: "plain_loop ctx m"
    and sets: "\<forall>zs \<in> set sets. zs \<noteq> [] \<and> (\<forall>i \<in> set zs. i < length args)"
    and args: "\<And>i. i < length args \<Longrightarrow> tracked U m {x i} (is_zero (x i)) (args ! i) s"
    and z: "\<And>A B. (\<And>i. i < length args \<Longrightarrow> x i A = x i B) \<Longrightarrow> z A = z B"
      "\<And>zs B. zs \<in> set sets \<Longrightarrow> \<forall>i \<in> set zs. x i B = 0 \<Longrightarrow> z B = 0"
  shows "tracked U m {z} (is_zero z) (call_lattice ctx sets args) s"
proof -
  let ?rest = "[i \<leftarrow> [0..<length args]. i \<notin> set (concat sets)]"
  let ?f = "\<lambda>zs l. bindB (unite_args args zs []) (\<lambda>z. liftB (intersectLattices l z))"
  from mode_lattice_tracks [OF g l, of "{}"] obtain M where M: "modeIterationLattice ctx = ok M"
    "tracks U m {} (\<lambda>_. False) M" by auto
  have "tracked U m ({} \<union> x ` set ?rest) (\<lambda>B. False \<and> (\<forall>i \<in> set ?rest. x i B = 0)) (unite_args args ?rest M) s"
    by (rule unite_args_tracked [OF g _ M(2)]) (use args in auto)
  then obtain L where L: "unite_args args ?rest M s = ok (L, s)" "tracks U m (x ` set ?rest) (\<lambda>_. False) L"
    by (auto simp: tracked_def)
  have "tracked U m (x ` set ?rest \<union> x ` set (concat sets)) (\<lambda>B. False \<or> (\<exists>zs \<in> set sets. \<forall>i \<in> set zs. x i B = 0))
      (foldB ?f sets L) s"
    by (rule call_sets_tracked [OF g _ _ L(2)]) (use sets args in auto)
  then obtain P where P: "foldB ?f sets L s = ok (P, s)"
    "tracks U m (x ` set ?rest \<union> x ` set (concat sets)) (\<lambda>B. \<exists>zs \<in> set sets. \<forall>i \<in> set zs. x i B = 0) P"
    by (auto simp: tracked_def)
  have all: "x i \<in> x ` set ?rest \<union> x ` set (concat sets)" if "i < length args" for i
    using that by auto
  have "tracks U m {z} (is_zero z) P"
  proof (rule tracks_weaken [OF P(2)])
    fix A B assume "\<forall>y \<in> x ` set ?rest \<union> x ` set (concat sets). y B = y A"
    with all have "z B = z A" by (intro z(1)) blast
    then show "\<forall>y \<in> {z}. y B = y A" by simp
  qed (use z(2) in blast)
  moreover have "call_lattice ctx sets args s = ok (P, s)"
    using sets M(1) L(1) P(1) by (simp add: call_lattice_def bindB_def retB_apply)
  ultimately show ?thesis by (auto simp: tracked_def)
qed

subsection \<open>The builder\<close>

lemma build_expr_tracked:
  assumes g: "good_iterators U m" and l: "plain_loop ctx m" and ar: "zero_arith ar"
  shows "concrete F ar e \<Longrightarrow> \<forall>a \<in> set (accesses_of e). plain_access ctx U m a \<Longrightarrow>
     \<forall>a \<in> set (accesses_of e). map_of (latticesOfTemporaries s) (acc_tensorVar a) = None \<Longrightarrow>
     tracked U m {quantity_of ctx ar v e} (is_zero (quantity_of ctx ar v e)) (build_expr F ctx e) s"
proof (induction e)
  case (AccessNode a)
  with access_lattice_tracks [OF g l, of a ar v] show ?case
    by (auto simp: tracked_def visit_Access_def retB_apply)
next
  case (LiteralNode t u)
  let ?x = "quantity_of ctx ar v (LiteralNode t u)"
  from mode_lattice_tracks [OF g l, of "{?x}"] obtain L where
    L: "modeIterationLattice ctx = ok L" "tracks U m {?x} (\<lambda>_. False) L" by (auto simp: quantity_of_def)
  from tracks_weaken [OF L(2)] have "tracks U m {?x} (is_zero ?x) L" by auto
  with L(1) show ?case by (auto simp: tracked_def retB_apply)
next
  case (NegNode e)
  then have "tracked U m {quantity_of ctx ar v e} (is_zero (quantity_of ctx ar v e)) (build_expr F ctx e) s" by simp
  then have "tracked U m {quantity_of ctx ar v (NegNode e)} (is_zero (quantity_of ctx ar v (NegNode e))) (build_expr F ctx e) s"
    by (rule tracked_unary [where f = "uminus"]) (use ar in \<open>simp_all add: quantity_of_def zero_arith_def\<close>)
  then show ?case by simp
next
  case (SqrtNode e)
  then have "tracked U m {quantity_of ctx ar v e} (is_zero (quantity_of ctx ar v e)) (build_expr F ctx e) s" by simp
  then have "tracked U m {quantity_of ctx ar v (SqrtNode e)} (is_zero (quantity_of ctx ar v (SqrtNode e))) (build_expr F ctx e) s"
    by (rule tracked_unary [where f = "ar_sqrt ar"]) (use ar in \<open>simp_all add: quantity_of_def zero_arith_def\<close>)
  then show ?case by simp
next
  case (CastNode t e)
  then have "tracked U m {quantity_of ctx ar v e} (is_zero (quantity_of ctx ar v e)) (build_expr F ctx e) s" by simp
  then have "tracked U m {quantity_of ctx ar v (CastNode t e)} (is_zero (quantity_of ctx ar v (CastNode t e))) (build_expr F ctx e) s"
    by (rule tracked_unary [where f = "ar_cast ar t"]) (use ar in \<open>simp_all add: quantity_of_def zero_arith_def\<close>)
  then show ?case by simp
next
  case (AddNode e f)
  then show ?case by (simp, intro lattice_sum_tracked [OF g, where f = "(+)"]) (auto simp: quantity_of_def)
next
  case (SubNode e f)
  then show ?case by (simp, intro lattice_sum_tracked [OF g, where f = "(-)"]) (auto simp: quantity_of_def)
next
  case (MulNode e f)
  then show ?case by (simp, intro lattice_product_tracked [OF g, where f = "(*)"]) (auto simp: quantity_of_def)
next
  case (DivNode e f)
  with ar show ?case
    by (simp, intro lattice_product_tracked [OF g, where f = "ar_div ar"]) (auto simp: quantity_of_def zero_arith_def)
next
  case (CallIntrinsicNode f es)
  from CallIntrinsicNode.prems(1) obtain sets where sets: "intrinsic_zeroPreservingArgs F f es = ok sets"
    "\<forall>zs \<in> set sets. zs \<noteq> [] \<and> (\<forall>i \<in> set zs. i < length es)"
    "\<And>zs v. zs \<in> set sets \<Longrightarrow> \<forall>i \<in> set zs. value_of ar v (es ! i) = 0 \<Longrightarrow>
       ar_call ar f es (map (value_of ar v) es) = 0"
    by (auto simp: zero_call_def)
  let ?z = "quantity_of ctx ar v (CallIntrinsicNode f es)"
  have "tracked U m {?z} (is_zero ?z) (call_lattice ctx sets (map (build_expr F ctx) es)) s"
  proof (rule call_tracked [OF g l, where x = "\<lambda>i. quantity_of ctx ar v (es ! i)"])
    show "\<forall>zs \<in> set sets. zs \<noteq> [] \<and> (\<forall>i \<in> set zs. i < length (map (build_expr F ctx) es))" using sets(2) by simp
  next
    fix i assume i: "i < length (map (build_expr F ctx) es)"
    then have "es ! i \<in> set es" by simp
    with CallIntrinsicNode i
    show "tracked U m {quantity_of ctx ar v (es ! i)} (is_zero (quantity_of ctx ar v (es ! i)))
            (map (build_expr F ctx) es ! i) s" by auto
  next
    fix A B
    assume eq: "\<And>i. i < length (map (build_expr F ctx) es) \<Longrightarrow>
      quantity_of ctx ar v (es ! i) A = quantity_of ctx ar v (es ! i) B"
    have "map (value_of ar (restricted ctx v A)) es = map (value_of ar (restricted ctx v B)) es"
      by (rule nth_equalityI) (use eq in \<open>auto simp: quantity_of_def\<close>)
    then show "?z A = ?z B" by (simp only: quantity_of_def value_of.simps)
  next
    fix zs B assume "zs \<in> set sets" "\<forall>i \<in> set zs. quantity_of ctx ar v (es ! i) B = 0"
    with sets(3) show "?z B = 0" by (simp add: quantity_of_def)
  qed
  with sets(1) show ?case by (simp add: tracked_def)
qed auto

end
