(* ===== verification/Lattice_Loops.thy ===== *)
theory Lattice_Loops
  imports Lattice_Sound
begin

text \<open>
  The loops a merge lattice stands for, and their correctness. The lowerer emits one loop for each point of the
  lattice, in order; a loop runs until one of its iterators is exhausted, and in each iteration the first point
  of the sublattice all of whose iterators have the coordinate of the iteration is the case that is executed.
\<close>

subsection \<open>Loops\<close>

text \<open>\<open>S it c\<close>: the iterator has coordinate \<open>c\<close>. Coordinates are those below \<open>n\<close>.\<close>

definition at_coord :: "(Iterator \<Rightarrow> nat \<Rightarrow> bool) \<Rightarrow> nat \<Rightarrow> MergePoint \<Rightarrow> bool" where
  "at_coord S c p \<longleftrightarrow> list_all (\<lambda>it. S it c) (mp_iterators p)"

definition unexhausted :: "(Iterator \<Rightarrow> nat \<Rightarrow> bool) \<Rightarrow> nat \<Rightarrow> nat \<Rightarrow> MergePoint \<Rightarrow> bool" where
  "unexhausted S n c p \<longleftrightarrow> list_all (\<lambda>it. list_ex (S it) [c..<n]) (mp_iterators p)"

text \<open>The cases executed, with their coordinates, from the loops that are left at a coordinate.\<close>

fun merge_loops ::
    "(Iterator \<Rightarrow> nat \<Rightarrow> bool) \<Rightarrow> nat \<Rightarrow> MergeLattice \<Rightarrow> MergePoint list \<Rightarrow> nat list \<Rightarrow> (nat \<times> MergePoint) list res" where
  "merge_loops S n L ps [] = ok []"
| "merge_loops S n L ps (c # cs) =
     (case dropWhile (\<lambda>p. \<not> unexhausted S n c p) ps of
        [] \<Rightarrow> ok []
      | p # ps' \<Rightarrow>
          bindR (subLattice L p) (\<lambda>sub. bindR (merge_loops S n L (p # ps') cs) (\<lambda>r.
            ok (case find (at_coord S c) sub of None \<Rightarrow> r | Some q \<Rightarrow> (c, q) # r))))"

definition run_lattice :: "(Iterator \<Rightarrow> nat \<Rightarrow> bool) \<Rightarrow> nat \<Rightarrow> MergeLattice \<Rightarrow> (nat \<times> MergePoint) list res" where
  "run_lattice S n L = merge_loops S n L L [0..<n]"

lemma at_coord_within: "at_coord S c p = within {it. S it c} p"
  by (auto simp: at_coord_def within_def list_all_iff)

lemma unexhausted_within: "unexhausted S n c p = within {it. \<exists>d. c \<le> d \<and> d < n \<and> S it d} p"
  by (simp add: unexhausted_def within_def list_all_iff list_ex_iff subset_iff Bex_def conj_assoc) blast

text \<open>What is executed: at each coordinate the first point that has it.\<close>

definition cases_at :: "(Iterator \<Rightarrow> nat \<Rightarrow> bool) \<Rightarrow> MergeLattice \<Rightarrow> nat list \<Rightarrow> (nat \<times> MergePoint) list" where
  "cases_at S L cs = concat (map (\<lambda>c. case find (at_coord S c) L of None \<Rightarrow> [] | Some q \<Rightarrow> [(c, q)]) cs)"

lemma dropWhile_None: "find P xs = None \<Longrightarrow> dropWhile (\<lambda>x. \<not> P x) xs = []"
  by (induction xs) (auto split: if_splits)

lemma dropWhile_Some: "find P xs = Some x \<Longrightarrow> \<exists>ys. dropWhile (\<lambda>x. \<not> P x) xs = x # ys"
  by (induction xs) (auto split: if_splits)

lemma dropWhile_weaker:
  "(\<And>x. P x \<Longrightarrow> Q x) \<Longrightarrow> dropWhile (\<lambda>x. \<not> P x) (dropWhile (\<lambda>x. \<not> Q x) xs) = dropWhile (\<lambda>x. \<not> P x) xs"
  by (induction xs) auto

lemma find_weaker: "find P xs = Some x \<Longrightarrow> (\<And>x. P x \<Longrightarrow> Q x) \<Longrightarrow> find Q xs \<noteq> None"
  by (auto simp: find_None_iff dest: find_Some_D)

lemma merge_loops_good:
  assumes g: "good_iterators U m" and L: "tracks U m X Z L"
    and S: "\<And>it c. it \<in> U \<Longrightarrow> full it \<Longrightarrow> c < n \<Longrightarrow> S it c"
  shows "a \<le> b \<Longrightarrow> b \<le> n \<Longrightarrow>
     merge_loops S n L (dropWhile (\<lambda>p. \<not> unexhausted S n a p) L) [b..<n] = ok (cases_at S L [b..<n])"
proof (induction "n - b" arbitrary: a b)
  case 0
  then show ?case by (simp add: cases_at_def)
next
  case (Suc k)
  then have bn: "b < n" by simp
  have less: "unexhausted S n c p" if "at_coord S d p" "c \<le> d" "d < n" for c d p
    using that by (auto simp: at_coord_within unexhausted_within within_def)
  have mono: "unexhausted S n a p" if "unexhausted S n b p" for p
    using that Suc.prems(1) unfolding unexhausted_within within_def subset_iff mem_Collect_eq by (meson order_trans)
  have drop: "dropWhile (\<lambda>p. \<not> unexhausted S n b p) (dropWhile (\<lambda>p. \<not> unexhausted S n a p) L) =
      dropWhile (\<lambda>p. \<not> unexhausted S n b p) L" by (rule dropWhile_weaker) (rule mono)
  have split: "[b..<n] = b # [Suc b..<n]" using bn by (simp add: upt_conv_Cons)
  show ?case
  proof (cases "find (unexhausted S n b) L")
    case None
    have "find (at_coord S d) L = None" if "d \<in> set [b..<n]" for d
      using None that less [of d _ b] find_weaker [of "at_coord S d" L _ "unexhausted S n b"]
      by (cases "find (at_coord S d) L") auto
    then have "cases_at S L [b..<n] = []" by (auto simp: cases_at_def)
    then show ?thesis by (simp add: split drop dropWhile_None [OF None])
  next
    case (Some p)
    from dropWhile_Some [OF this] obtain ps where ps: "dropWhile (\<lambda>p. \<not> unexhausted S n b p) L = p # ps" by blast
    have pL: "p \<in> set L" using Some by (auto dest: find_Some_D)
    have U: "\<forall>q \<in> set L. set (mp_iterators q) \<subseteq> U" using tracks_ok [OF L] by (auto simp: lattice_ok_def point_ok_def)
    let ?le = "\<lambda>q. mset (mp_iterators q) \<subseteq># mset (mp_iterators p)"
    have sub: "subLattice L p = ok (filter ?le L)" using subLattice_good [OF g U] U pL by blast
    have "present_set U {it. \<exists>d. b \<le> d \<and> d < n \<and> S it d}" using S bn by (auto simp: present_set_def)
    from tracks_Some [OF L this] Some have lead: "leads {it. \<exists>d. b \<le> d \<and> d < n \<and> S it d} L p"
      by (simp add: unexhausted_within [abs_def])
    have "find (at_coord S b) (filter ?le L) = find (at_coord S b) L"
    proof (cases "find (at_coord S b) L")
      case None
      then have "find (at_coord S b) (filter ?le L) = None" by (auto simp: find_None_iff)
      with None show ?thesis by simp
    next
      case (Some q)
      then have "q \<in> set L" "at_coord S b q" by (auto dest: find_Some_D)
      with less [of b q b] bn lead have "?le q" by (simp add: leads_def unexhausted_within)
      with Some show ?thesis by (simp add: find_filter)
    qed
    moreover have "merge_loops S n L (p # ps) [Suc b..<n] = ok (cases_at S L [Suc b..<n])"
      using Suc.hyps(1) [of "Suc b" b] Suc.hyps(2) bn ps by simp
    ultimately show ?thesis
      by (simp add: split drop ps sub cases_at_def split: option.split)
  qed
qed

lemma run_lattice_good:
  assumes "good_iterators U m" "tracks U m X Z L" "\<And>it c. it \<in> U \<Longrightarrow> full it \<Longrightarrow> c < n \<Longrightarrow> S it c"
  shows "run_lattice S n L = ok (cases_at S L [0..<n])"
proof -
  have "dropWhile (\<lambda>p. \<not> P p) (dropWhile (\<lambda>p. \<not> P p) L) = dropWhile (\<lambda>p. \<not> P p) L" for P
    by (rule dropWhile_weaker)
  then have "merge_loops S n L L cs = merge_loops S n L (dropWhile (\<lambda>p. \<not> unexhausted S n (hd cs) p) L) cs" for cs
    by (cases cs) simp_all
  from this [of "[0..<n]"] have "run_lattice S n L =
      merge_loops S n L (dropWhile (\<lambda>p. \<not> unexhausted S n (hd [0..<n]) p) L) [0..<n]" by (simp add: run_lattice_def)
  also have "\<dots> = ok (cases_at S L [0..<n])"
  proof (cases "n = 0")
    case False
    then have "hd [0..<n] = 0" by simp
    with merge_loops_good [OF assms(1,2), where S = S and n = n and a = 0 and b = 0] assms(3) show ?thesis by simp
  qed (simp add: cases_at_def)
  finally show ?thesis .
qed

subsection \<open>The loop of a statement\<close>

fun assignment_of :: "IndexStmt \<Rightarrow> (Access \<times> IndexExpr) option" where
  "assignment_of (AssignmentNode lhs rhs opn) = Some (lhs, rhs)"
| "assignment_of (ForallNode v s _ _ _) = assignment_of s"
| "assignment_of _ = None"

lemma map_tracks:
  assumes "tracks U m X Z L" "\<And>p. mp_iterators (f p) = mp_iterators p" "\<And>p. mp_locators (f p) = mp_locators p"
  shows "tracks U m X Z (map f L)"
proof -
  have w: "within A \<circ> f = within A" for A by (simp add: fun_eq_iff within_def assms(2))
  have a: "avail (f p) = avail p" for p by (simp add: avail_def assms(2,3))
  have L: "L \<noteq> []" using tracks_ne [OF assms(1)] .
  have "lattice_ok U m (map f L)" using tracks_ok [OF assms(1)] L
    by (simp add: lattice_ok_def point_ok_def has_full_def hd_map assms(2,3))
  moreover have "follows m X Z (map f L) A" if "present_set U A" for A
    using tracks_Some [OF assms(1) that] tracks_None [OF assms(1) that]
    by (cases "find (within A) L")
       (auto simp: follows_def find_map w leads_def agree_def a assms(2) within_def)
  ultimately show ?thesis by (simp add: tracks_def)
qed

lemma visit_Assignment_tracks:
  assumes g: "good_iterators U m" and l: "plain_loop ctx m" and ar: "zero_arith ar" and rhs: "concrete F ar rhs"
    and acc: "\<forall>a \<in> set (accesses_of rhs). plain_access ctx U m a" and res: "result_iterators ctx lhs = ok ress"
    and s: "latticesOfTemporaries s = []"
  shows "\<exists>L s'. visit_Assignment F ctx lhs rhs s = ok (L, s') \<and> mb_build s' = mb_build s \<and>
           tracks U m {quantity_of ctx ar v rhs} (is_zero (quantity_of ctx ar v rhs)) L"
proof -
  from build_expr_tracked [OF g l ar rhs acc, of s v] s obtain L where L: "build_expr F ctx rhs s = ok (L, s)"
    "tracks U m {quantity_of ctx ar v rhs} (is_zero (quantity_of ctx ar v rhs)) L" by (auto simp: tracked_def)
  let ?f = "\<lambda>p. \<lparr>mp_iterators = mp_iterators p, mp_locators = mp_locators p, mp_results = ress\<rparr>"
  have "MergePoint_make (mp_iterators p) (mp_locators p) ress = ok (?f p)" if "p \<in> set L" for p
    using tracks_ok [OF L(2)] that by (intro MergePoint_make_good [OF g]) (auto simp: lattice_ok_def point_ok_def)
  then have "mapR (\<lambda>p. MergePoint_make (mp_iterators p) (mp_locators p) ress) L = ok (map ?f L)" by (rule mapR_ok)
  with L(1) s res have "visit_Assignment F ctx lhs rhs s =
      ok (if ress = [] then L else map ?f L, s\<lparr>latticesOfTemporaries := [(acc_tensorVar lhs, L)]\<rparr>)"
    by (simp add: visit_Assignment_def bindB_def updateB_def retB_apply)
  moreover have "tracks U m {quantity_of ctx ar v rhs} (is_zero (quantity_of ctx ar v rhs)) (map ?f L)"
    by (rule map_tracks [OF L(2)]) simp_all
  ultimately show ?thesis using L(2) by auto
qed

lemma build_stmt_assignment:
  "assignment_of body = Some (lhs, rhs) \<Longrightarrow> build_stmt F ctx body = visit_Assignment F ctx lhs rhs"
  by (induction body) auto

lemma value_of_cong: "(\<And>a. a \<in> set (accesses_of e) \<Longrightarrow> v a = w a) \<Longrightarrow> value_of ar v e = value_of ar w e"
proof (induction e)
  case (CallIntrinsicNode f es)
  then have "map (value_of ar v) es = map (value_of ar w) es" by auto
  then show ?case by (simp only: value_of.simps)
qed auto

lemma map_of_cases:
  assumes "distinct cs"
  shows "map_of (cases_at S L cs) c = (if c \<in> set cs then find (at_coord S c) L else None)"
  using assms
proof (induction cs)
  case (Cons d cs)
  then show ?case by (auto simp: cases_at_def map_add_def split: option.splits)
qed (simp add: cases_at_def)

lemma sorted_cases: "sorted_wrt (<) cs \<Longrightarrow> sorted_wrt (<) (map fst (cases_at S L cs))"
proof (induction cs)
  case (Cons c cs)
  have "set (map fst (cases_at S L cs)) \<subseteq> set cs" by (auto simp: cases_at_def split: option.splits)
  with Cons show ?case by (auto simp: cases_at_def split: option.split)
qed (simp add: cases_at_def)

text \<open>At a coordinate, the chosen case computes the value; without a case the value is zero.\<close>

lemma case_value:
  assumes g: "good_iterators U m"
    and L: "tracks U m {quantity_of ctx ar v rhs} (is_zero (quantity_of ctx ar v rhs)) L"
    and S: "\<And>it. it \<in> U \<Longrightarrow> full it \<Longrightarrow> S it c"
    and acc: "\<forall>a \<in> set (accesses_of rhs). plain_access ctx U m a"
    and zero: "\<And>a it. a \<in> set (accesses_of rhs) \<Longrightarrow> loop_iterator ctx a = Some it \<Longrightarrow> \<not> S it c \<Longrightarrow> v a = 0"
  shows "case find (at_coord S c) L of
           None \<Rightarrow> value_of ar v rhs = 0
         | Some q \<Rightarrow> value_of ar (restricted ctx v (avail q)) rhs = value_of ar v rhs"
proof -
  let ?A = "{it. S it c}"
  have A: "present_set U ?A" using S by (simp add: present_set_def)
  have m: "m \<in> ?A" using S good_m [OF g] by simp
  have all: "quantity_of ctx ar v rhs ?A = value_of ar v rhs"
    unfolding quantity_of_def using zero by (intro value_of_cong) (auto simp: restricted_def split: option.split)
  have f: "find (at_coord S c) L = find (within ?A) L" by (simp add: at_coord_within [abs_def])
  show ?thesis
  proof (cases "find (within ?A) L")
    case None
    from tracks_None [OF L A this] m all show ?thesis by (simp add: f None absent_def)
  next
    case (Some q)
    from tracks_Some [OF L A Some] have q: "agree m ?A {quantity_of ctx ar v rhs} q" by simp
    have "q \<in> set L" "within ?A q" using Some by (auto dest: find_Some_D)
    moreover from this(1) tracks_ok [OF L] have "\<forall>it \<in> set (mp_locators q). it \<in> U \<and> full it"
      by (simp add: lattice_ok_def point_ok_def)
    ultimately have "avail q \<subseteq> ?A" using S by (auto simp: avail_def within_def)
    with m have "insert m (avail q) \<subseteq> ?A" "m \<in> insert m (avail q)" "avail q \<subseteq> insert m (avail q)" by auto
    with q have "quantity_of ctx ar v rhs (insert m (avail q)) = quantity_of ctx ar v rhs ?A"
      unfolding agree_def by blast
    moreover have "restricted ctx v (insert m (avail q)) a = restricted ctx v (avail q) a"
      if "a \<in> set (accesses_of rhs)" for a
      using acc that by (auto simp: restricted_def loop_iterator_def plain_access_def split: option.split sum.split)
    then have "quantity_of ctx ar v rhs (insert m (avail q)) = value_of ar (restricted ctx v (avail q)) rhs"
      unfolding quantity_of_def by (rule value_of_cong)
    ultimately show ?thesis using all by (simp add: f Some)
  qed
qed

text \<open>(C3) The merge lattice of a loop over an assignment, whose levels are ordered, stored in memory, and either dense (full and
  located into) or not full, with no windows or index sets and a loop variable that is one of coordinates, and whose
  quotients are zero where an operand is: the loops over its
  points return; they execute cases at increasing coordinates; where they execute none the expression is zero,
  and where they execute one, the accesses whose iterators the case does not have available can be zeroed
  without changing the value of the expression.\<close>

theorem merge_loops_compute:
  assumes g: "good_iterators U m"
    and ctx: "ctx = \<lparr>lc_i = i, lc_iterators = iterators, lc_provGraph = graph, lc_whereTempsToResult = temps\<rparr>"
    and l: "plain_loop ctx m" and ar: "zero_arith ar"
    and body: "assignment_of body = Some (lhs, rhs)" and rhs: "concrete F ar rhs"
    and acc: "\<forall>a \<in> set (accesses_of rhs). plain_access ctx U m a" and res: "result_iterators ctx lhs = ok ress"
    and rec: "\<forall>us. getUnderivedAncestors graph i = ok us \<longrightarrow> (\<forall>u \<in> set us. isRecoverable graph u defined = ok True)"
    and S: "\<forall>it \<in> U. full it \<longrightarrow> (\<forall>c < n. S it c)"
    and zero: "\<forall>c < n. \<forall>a \<in> set (accesses_of rhs). \<forall>it. loop_iterator ctx a = Some it \<and> \<not> S it c \<longrightarrow> v c a = 0"
  shows "\<exists>L r. MergeLattice_make F (ForallNode i body pu ors uf) iterators graph defined temps b = ok (L, b) \<and>
    run_lattice S n L = ok r \<and> sorted_wrt (<) (map fst r) \<and>
    (\<forall>c < n. case map_of r c of
        None \<Rightarrow> value_of ar (v c) rhs = 0
      | Some q \<Rightarrow> value_of ar (restricted ctx (v c) (avail q)) rhs = value_of ar (v c) rhs)"
proof -
  let ?s = "\<lparr>mb_build = b, latticesOfTemporaries = []\<rparr>"
  note visit = visit_Assignment_tracks [OF g l ar rhs acc res, of ?s]
  from visit obtain L s' where L: "visit_Assignment F ctx lhs rhs ?s = ok (L, s')" "mb_build s' = b" by fastforce
  have tr: "tracks U m {quantity_of ctx ar w rhs} (is_zero (quantity_of ctx ar w rhs)) L" for w
    using visit [of w] L(1) by simp
  from l ctx rec obtain us where us: "getUnderivedAncestors graph i = ok us"
    "\<forall>u \<in> set us. isRecoverable graph u defined = ok True" by (auto simp: plain_loop_def)
  then have "allR (\<lambda>u. isRecoverable graph u defined) us = ok True" by (simp add: allR_True)
  with us(1) L ctx have "MergeLattice_make F (ForallNode i body pu ors uf) iterators graph defined temps b = ok (L, b)"
    by (simp add: MergeLattice_make_def build_stmt_assignment [OF body] Let_def)
  moreover have "run_lattice S n L = ok (cases_at S L [0..<n])"
    using S by (intro run_lattice_good [OF g tr]) auto
  moreover have "sorted_wrt (<) (map fst (cases_at S L [0..<n]))" by (rule sorted_cases) simp
  moreover have "case map_of (cases_at S L [0..<n]) c of None \<Rightarrow> value_of ar (v c) rhs = 0
      | Some q \<Rightarrow> value_of ar (restricted ctx (v c) (avail q)) rhs = value_of ar (v c) rhs" if "c < n" for c
    using case_value [OF g tr _ acc, of S c "v c"] S zero that by (simp add: map_of_cases)
  ultimately show ?thesis by blast
qed

end
