(* ===== verification/Lattice_Queries.thy ===== *)
theory Lattice_Queries
  imports Lattice_Loops
begin

text \<open>
  What the lowerer asks of points and lattices: which iterators end a loop, which ones give its next coordinate,
  and whether the loops meet no coordinate in vain.
\<close>

definition next_of :: "(Iterator \<Rightarrow> nat \<Rightarrow> bool) \<Rightarrow> Iterator list \<Rightarrow> nat \<Rightarrow> bool" where
  "next_of S its c \<longleftrightarrow> (\<exists>it \<in> set its. S it c)"

lemma not_full_filter:
  assumes g: "good_iterators U m" and U: "set its \<subseteq> U"
  shows "anyR (\<lambda>it. notR (it_isFull it)) its = ok (\<exists>it \<in> set its. \<not> full it)"
    and "filterR (\<lambda>it. notR (it_isFull it)) its = ok (filter (\<lambda>it. \<not> full it) its)"
    and "anyR it_isFull its = ok (\<exists>it \<in> set its. full it)"
    and "filterR it_isFull its = ok (filter full its)"
    and "allR it_isFull its = ok (\<forall>it \<in> set its. full it)"
  using U by (auto intro!: anyR_pure filterR_pure allR_pure simp: good_D(2) [OF g] subset_iff)

text \<open>(C39) A loop over levels that are dense or not full and a dimension that is full can watch the rangers of its point alone: one of them
  is exhausted exactly when one of its
  iterators is. And the mergers alone give the coordinates: a merger has every coordinate that an iterator has. (Points
  with a dimension iterator that is not full, which \<open>mergers\<close> drops, are not covered.)\<close>

theorem rangers_and_mergers:
  assumes g: "good_iterators U m" and U: "set (mp_iterators p) \<subseteq> U"
    and S: "\<forall>it \<in> U. full it \<longrightarrow> (\<forall>d < n. S it d)" and c: "c < n"
  shows "\<exists>rs ms. rangers p = ok rs \<and> mergers p = ok ms \<and>
    (unexhausted S n c p \<longleftrightarrow> (\<forall>it \<in> set rs. list_ex (S it) [c..<n])) \<and>
    (\<forall>d < n. next_of S (mp_iterators p) d = next_of S ms d)"
proof -
  note filters = not_full_filter [OF g U]
  have full: "list_ex (S it) [c..<n]" if "it \<in> set (mp_iterators p)" "full it" for it
  proof -
    from that U S c have "S it c" by auto
    with c show ?thesis by (auto simp: list_ex_iff)
  qed
  obtain rs where rs: "rangers p = ok rs" "set rs = set (mp_iterators p) \<or> set rs = {it \<in> set (mp_iterators p). \<not> full it}"
    by (cases "\<exists>it \<in> set (mp_iterators p). \<not> full it") (simp_all add: rangers_def filters)
  have r: "unexhausted S n c p \<longleftrightarrow> (\<forall>it \<in> set rs. list_ex (S it) [c..<n])"
    using rs(2) full by (auto simp: unexhausted_def list_all_iff)
  show ?thesis
  proof (cases "\<exists>it \<in> set (mp_iterators p). full it")
    case True
    then obtain it where it: "it \<in> set (mp_iterators p)" "full it" by blast
    have "mergers p = ok (filter full (mp_iterators p))" using True by (simp add: mergers_def filters)
    moreover have "next_of S (mp_iterators p) d = next_of S (filter full (mp_iterators p)) d" if "d < n" for d
    proof -
      have "S it d" using S U it that by auto
      with it show ?thesis by (auto simp: next_of_def)
    qed
    ultimately show ?thesis using rs(1) r by blast
  next
    case False
    then have "m \<notin> set (mp_iterators p)" using good_m(2) [OF g] by blast
    then have "countR (\<lambda>it. andR (notR (it_isFull it)) (isDimensionIterator it)) (mp_iterators p) = ok 0"
      using U by (subst countR_pure [where q = "\<lambda>_. False"]) (auto simp: good_D(2,4) [OF g] subset_iff False)
    with False have "mergers p = ok (mp_iterators p)" by (simp add: mergers_def filters)
    with rs(1) r show ?thesis by blast
  qed
qed

lemma set_contains_good:
  assumes "good_iterators U m" "set s \<subseteq> U" "it \<in> U"
  shows "set_contains s it = ok (it \<in> set s)"
proof -
  have "andR (notR (it_less x it)) (notR (it_less it x)) = ok (x = it)" if "x \<in> set s" for x
  proof -
    have "x \<in> U" using assms(2) that by blast
    then show ?thesis
      using good_less [OF assms(1) _ assms(3), of x] good_less [OF assms(1,3), of x] good_addr [OF assms(1) _ assms(3), of x]
      by auto
  qed
  then have "set_contains s it = ok (\<exists>x \<in> set s. x = it)" unfolding set_contains_def by (rule anyR_pure)
  then show ?thesis by simp
qed

definition single_iterators :: "MergeLattice \<Rightarrow> Iterator set" where
  "single_iterators L = {it. \<exists>p \<in> set L. mp_iterators p = [it]}"

lemma uniquely_merged:
  assumes g: "good_iterators U m" and L: "\<forall>p \<in> set L. set (mp_iterators p) \<subseteq> U"
    and s: "set s \<subseteq> U" "sorted (map it_addr s)" "distinct s"
  shows "\<exists>t. foldR (\<lambda>p s. case mp_iterators p of [it] \<Rightarrow> set_insert it s | _ \<Rightarrow> ok s) L s = ok t \<and>
           set t = set s \<union> single_iterators L"
  using L s
proof (induction L arbitrary: s)
  case Nil
  then show ?case by (simp add: single_iterators_def)
next
  case (Cons p L)
  show ?case
  proof (cases "\<exists>it. mp_iterators p = [it]")
    case True
    then obtain it where it: "mp_iterators p = [it]" by blast
    with Cons.prems set_insert_good [OF g, of it s] obtain t where t: "set_insert it s = ok t"
      "set t = insert it (set s)" "sorted (map it_addr t)" "distinct t" by auto
    with Cons.prems it have "set t \<subseteq> U" by auto
    from Cons.IH [OF _ this t(3,4)] Cons.prems(1) obtain u where
      "foldR (\<lambda>p s. case mp_iterators p of [it] \<Rightarrow> set_insert it s | _ \<Rightarrow> ok s) L t = ok u"
      "set u = set t \<union> single_iterators L" by auto
    with it t(1,2) show ?thesis by (auto simp: single_iterators_def)
  next
    case False
    then have "(case mp_iterators p of [it] \<Rightarrow> set_insert it s | _ \<Rightarrow> ok s) = ok s"
      by (cases "mp_iterators p" rule: list.exhaust; cases "tl (mp_iterators p)") auto
    moreover have "single_iterators (p # L) = single_iterators L" using False by (auto simp: single_iterators_def)
    ultimately show ?thesis using Cons by simp
  qed
qed

text \<open>(C40) If a lattice is exact, then the loops execute a case at every coordinate of one of its iterators.\<close>

theorem exact_executes_all:
  assumes g: "good_iterators U m" and L: "tracks U m X Z L" and ex: "exact L = ok True"
    and S: "\<forall>it \<in> U. full it \<longrightarrow> (\<forall>d < n. S it d)"
    and it: "it \<in> set (mp_iterators (hd L))" "S it c" "c < n"
  shows "\<exists>r q. run_lattice S n L = ok r \<and> map_of r c = Some q"
proof -
  have U: "\<forall>p \<in> set L. set (mp_iterators p) \<subseteq> U" using tracks_ok [OF L] by (auto simp: lattice_ok_def point_ok_def)
  obtain p0 L' where L': "L = p0 # L'" using tracks_ne [OF L] by (cases L) auto
  have run: "run_lattice S n L = ok (cases_at S L [0..<n])" using S by (intro run_lattice_good [OF g L]) auto
  have "\<exists>p \<in> set L. at_coord S c p"
  proof (cases "\<exists>p \<in> set L. \<forall>it \<in> set (mp_iterators p). full it")
    case True
    then obtain p where "p \<in> set L" "\<forall>it \<in> set (mp_iterators p). full it" by blast
    with U S it(3) have "at_coord S c p" by (fastforce simp: at_coord_def list_all_iff)
    with \<open>p \<in> set L\<close> show ?thesis by blast
  next
    case False
    have "anyR (\<lambda>p. allR it_isFull (mp_iterators p)) L = ok False"
      using False U by (subst anyR_pure [where q = "\<lambda>p. \<forall>it \<in> set (mp_iterators p). full it"])
        (auto simp: not_full_filter(5) [OF g])
    moreover obtain t where t: "foldR (\<lambda>p s. case mp_iterators p of [it] \<Rightarrow> set_insert it s | _ \<Rightarrow> ok s) L [] = ok t"
      "set t = single_iterators L" using uniquely_merged [OF g U, of "[]"] by auto
    moreover have "set t \<subseteq> U" using t(2) U by (force simp: single_iterators_def)
    ultimately have "allR (set_contains t) (mp_iterators p0) = ok True"
      using ex by (simp add: exact_def lattice_iterators_def L' del: foldR.simps)
    with it(1) have "set_contains t it = ok True" by (simp add: allR_True L')
    moreover have "it \<in> U" using U it(1) by (auto simp: L')
    ultimately have "it \<in> single_iterators L"
      using set_contains_good [OF g \<open>set t \<subseteq> U\<close>] t(2) by simp
    then obtain p where "p \<in> set L" "mp_iterators p = [it]" by (auto simp: single_iterators_def)
    with it(2) show ?thesis by (intro bexI [of _ p]) (simp_all add: at_coord_def)
  qed
  then obtain q where "find (at_coord S c) L = Some q" by (cases "find (at_coord S c) L") (auto simp: find_None_iff)
  with it(3) have "map_of (cases_at S L [0..<n]) c = Some q" by (simp add: map_of_cases)
  with run show ?thesis by blast
qed

end
