(* ===== verification/Lattice_Example.thy ===== *)
theory Lattice_Example
  imports Lattice_Queries
begin

text \<open>
  The loop of \<open>y(i) = a(i) + d(i) * b(i)\<close> with compressed vectors \<open>a\<close> and \<open>b\<close>: an instance of the theorem on merge
  loops when \<open>d\<close> is dense, and a failure of merge lattices when \<open>d\<close> is compressed but declared full.
\<close>

definition ex_i :: IndexVar where
  "ex_i = IndexVar 1 ''i''"

definition ex_tv :: "nat \<Rightarrow> string \<Rightarrow> TensorVar" where
  "ex_tv k nm = \<lparr>tv_addr = k, tv_id = int k, tv_name = nm,
     tv_type = \<lparr>dtype = Float64, shape = [\<lparr>dim_size = 4, dim_indexVar = None\<rparr>]\<rparr>,
     tv_format = \<lparr>modeFormatPacks = [], modeOrdering = [0], levelArrayTypes = []\<rparr>\<rparr>"

definition ex_access :: "nat \<Rightarrow> string \<Rightarrow> Access" where
  "ex_access k nm = \<lparr>acc_addr = 20 + k, acc_tensorVar = ex_tv k nm, acc_indexVars = [ex_i],
     acc_windowedModes = [], acc_indexSetModes = [], acc_isAccessingStructure = False\<rparr>"

definition ex_tensor :: "nat \<Rightarrow> string \<Rightarrow> expr" where
  "ex_tensor k nm = Var k nm Float64 True True False"

definition ex_mode :: "nat \<Rightarrow> string \<Rightarrow> ModeFormatImpl \<Rightarrow> Mode" where
  "ex_mode k nm f = \<lparr>m_tensor = ex_tensor k nm, m_size = \<lparr>dim_size = 4, dim_indexVar = None\<rparr>, m_level = 1,
     m_format = Some f, m_pack = \<lparr>numModes = 1, pack_arrays = []\<rparr>, m_packLoc = 0, m_parent = None\<rparr>"

definition ex_root :: "nat \<Rightarrow> string \<Rightarrow> Iterator" where
  "ex_root k nm = Iterator ((blank_content (40 + k) (IndexVar (60 + k) ''root''))\<lparr>ic_tensor := Some (ex_tensor k nm)\<rparr>)
     NoIterator NoIterator"

definition ex_level :: "nat \<Rightarrow> string \<Rightarrow> ModeFormatImpl \<Rightarrow> Iterator" where
  "ex_level k nm f = Iterator ((blank_content (50 + k) ex_i)\<lparr>ic_mode := Some (ex_mode k nm f), ic_tensor := Some (ex_tensor k nm)\<rparr>)
     (ex_root k nm) NoIterator"

definition ex_dimension :: Iterator where
  "ex_dimension = Iterator (blank_content 30 ex_i) NoIterator NoIterator"

definition ex_dense :: ModeFormatImpl where
  "ex_dense = DenseModeFormat True True False"

definition ex_compressed :: "bool \<Rightarrow> ModeFormatImpl" where
  "ex_compressed isFull = CompressedModeFormat isFull True True False 0"

text \<open>The level format of \<open>d\<close> is a parameter.\<close>

definition ex_iterators :: "ModeFormatImpl \<Rightarrow> Iterators" where
  "ex_iterators d =
     \<lparr>levelIterators = [((ex_access 1 ''y'', 1), ex_level 1 ''y'' ex_dense),
        ((ex_access 2 ''a'', 1), ex_level 2 ''a'' (ex_compressed False)),
        ((ex_access 3 ''d'', 1), ex_level 3 ''d'' d),
        ((ex_access 4 ''b'', 1), ex_level 4 ''b'' (ex_compressed False))],
      modeAccesses = [], modeIterators = [(ex_i, ex_dimension)]\<rparr>"

definition ex_rhs :: IndexExpr where
  "ex_rhs = AddNode (AccessNode (ex_access 2 ''a''))
              (MulNode (AccessNode (ex_access 3 ''d'')) (AccessNode (ex_access 4 ''b'')))"

definition ex_body :: IndexStmt where
  "ex_body = AssignmentNode (ex_access 1 ''y'') ex_rhs NoExpr"

definition ex_loop :: IndexStmt where
  "ex_loop = ForallNode ex_i ex_body NotParallel IgnoreRaces 0"

definition ex_graph :: ProvenanceGraph where
  "ex_graph = empty_graph\<lparr>pg_nodes := [ex_i]\<rparr>"

definition ex_context :: "ModeFormatImpl \<Rightarrow> lattice_context" where
  "ex_context d = \<lparr>lc_i = ex_i, lc_iterators = ex_iterators d, lc_provGraph = ex_graph,
     lc_whereTempsToResult = (\<lambda>_. None)\<rparr>"

text \<open>The coordinates of the levels: \<open>a\<close> has 0, \<open>b\<close> has 2, the others have all.\<close>

definition ex_stored :: "Iterator \<Rightarrow> nat \<Rightarrow> bool" where
  "ex_stored it c = (if it_addr it = 52 then c = 0 else if it_addr it = 54 then c = 2 else True)"

definition ex_builder :: builder where
  "ex_builder = \<lparr>next_addr = 100, num_vars_cached = 0\<rparr>"

lemma ex_graph_made: "ProvenanceGraph_make ex_loop = ok ex_graph"
  by (simp add: ProvenanceGraph_make_def ex_loop_def ex_body_def ex_graph_def add_node_def empty_graph_def Let_def)

subsection \<open>The dense vector\<close>

lemma ex_dimension_props:
  "it_isOrdered ex_dimension = ok True" "it_isFull ex_dimension = ok True" "it_hasLocate ex_dimension = ok False"
  "isDimensionIterator ex_dimension = ok True" "it_hasCoordIter ex_dimension = ok False"
  "it_hasPosIter ex_dimension = ok False" "it_addr ex_dimension = 30" "it_defined ex_dimension"
  by code_simp+

lemma ex_level_props:
  "it_isOrdered (ex_level k nm f) = ok (mf_isOrdered f)" "it_isFull (ex_level k nm f) = ok (mf_isFull f)"
  "it_hasLocate (ex_level k nm f) = ok (mf_hasLocate f)" "isDimensionIterator (ex_level k nm f) = ok False"
  "it_hasCoordIter (ex_level k nm f) = ok (mf_hasCoordValIter f)"
  "it_hasPosIter (ex_level k nm f) = ok (mf_hasCoordPosIter f)" "it_addr (ex_level k nm f) = 50 + k"
  "it_defined (ex_level k nm f)" "hasIndexSet (ex_level k nm f) = ok False"
  by (simp_all add: ex_level_def ex_mode_def blank_content_def it_isOrdered_def it_isFull_def it_hasLocate_def
      isDimensionIterator_def it_hasCoordIter_def it_hasPosIter_def guarded_def unguarded_def it_query_def
      is_dimension_def mode_query_def it_addr_def it_defined_def hasIndexSet_def)

lemma ex_level_eq:
  "it_eq (ex_level k nm f) (ex_level k nm f) = ok True"
  "k \<noteq> l \<Longrightarrow> it_eq (ex_level k nm f) (ex_level l nm' f') = ok False"
  "it_eq (ex_level k nm f) ex_dimension = ok False" "it_eq ex_dimension (ex_level k nm f) = ok False"
  "it_eq ex_dimension ex_dimension = ok True"
  by (simp_all add: ex_level_def ex_dimension_def ex_tensor_def blank_content_def is_dimension_def)

lemma ex_formats:
  "mf_isOrdered ex_dense" "mf_isFull ex_dense" "mf_hasLocate ex_dense"
  "mf_isOrdered (ex_compressed b)" "mf_isFull (ex_compressed b) = b" "\<not> mf_hasLocate (ex_compressed b)"
  "mf_hasCoordPosIter (ex_compressed b)" "\<not> mf_hasCoordValIter (ex_compressed b)"
  by (simp_all add: ex_dense_def ex_compressed_def DenseModeFormat_def CompressedModeFormat_def)

definition ex_universe :: "Iterator set" where
  "ex_universe = {ex_dimension, ex_level 2 ''a'' (ex_compressed False), ex_level 3 ''d'' ex_dense,
     ex_level 4 ''b'' (ex_compressed False)}"

lemma ex_distinct: "it_addr a \<noteq> it_addr b \<Longrightarrow> a \<noteq> b"
  by auto

lemma ex_good: "good_iterators ex_universe ex_dimension"
proof -
  have d: "ex_level k nm f \<noteq> ex_dimension" "ex_dimension \<noteq> ex_level k nm f" if "50 \<le> k + 50" for k nm f
    by (rule ex_distinct, simp add: ex_level_props ex_dimension_props)+
  have e: "ex_level k nm f \<noteq> ex_level l nm' f'" if "k \<noteq> l" for k l nm nm' f f'
    by (rule ex_distinct) (use that in \<open>simp add: ex_level_props\<close>)
  show ?thesis
    by (simp add: good_iterators_def ex_universe_def full_def ex_dimension_props ex_level_props ex_level_eq ex_formats
        inj_on_def d e ex_bool_eq)
qed

lemma ex_queries:
  "getUnderivedAncestors ex_graph ex_i = ok [ex_i]" "getPosIteratorDescendant ex_graph ex_i = ok None"
  "hasCoordBounds ex_graph ex_i = ok False" "isPosVariable ex_graph ex_i = ok False"
  "isRecoverable ex_graph ex_i [ex_i] = ok True"
  "concatR (getUnderivedAncestors ex_graph) [ex_i] = ok [ex_i]"
  by code_simp+

lemma ex_get_iterator:
  "getIterator (ex_context ex_dense) (ex_access 1 ''y'') ex_i = ok (ex_level 1 ''y'' ex_dense)"
  "getIterator (ex_context ex_dense) (ex_access 2 ''a'') ex_i = ok (ex_level 2 ''a'' (ex_compressed False))"
  "getIterator (ex_context ex_dense) (ex_access 3 ''d'') ex_i = ok (ex_level 3 ''d'' ex_dense)"
  "getIterator (ex_context ex_dense) (ex_access 4 ''b'') ex_i = ok (ex_level 4 ''b'' (ex_compressed False))"
  by code_simp+

lemma ex_context_sel [simp]:
  "lc_i (ex_context d) = ex_i" "lc_provGraph (ex_context d) = ex_graph" "lc_iterators (ex_context d) = ex_iterators d"
  "acc_indexVars (ex_access k nm) = [ex_i]"
  by (simp_all add: ex_context_def ex_access_def)

lemma ex_plain:
  "plain_loop (ex_context ex_dense) ex_dimension"
  "\<forall>a \<in> set (accesses_of ex_rhs). plain_access (ex_context ex_dense) ex_universe ex_dimension a"
  "\<exists>ress. result_iterators (ex_context ex_dense) (ex_access 1 ''y'') = ok ress"
proof -
  show "plain_loop (ex_context ex_dense) ex_dimension"
    by (simp add: plain_loop_def ex_queries) (simp add: ex_iterators_def modeIterator_def)
  have "ex_level k nm f \<noteq> ex_dimension" for k nm f by (rule ex_distinct) (simp add: ex_level_props ex_dimension_props)
  then show "\<forall>a \<in> set (accesses_of ex_rhs). plain_access (ex_context ex_dense) ex_universe ex_dimension a"
    by (simp add: ex_rhs_def plain_access_def ex_queries ex_get_iterator ex_universe_def ex_level_props)
  have "map_sum id (map it_addr) (result_iterators (ex_context ex_dense) (ex_access 1 ''y'')) = ok [51]" by code_simp
  then show "\<exists>ress. result_iterators (ex_context ex_dense) (ex_access 1 ''y'') = ok ress"
    by (cases "result_iterators (ex_context ex_dense) (ex_access 1 ''y'')") auto
qed

definition ex_arith :: arith where
  "ex_arith = \<lparr>ar_literal = (\<lambda>t u. 0), ar_div = (\<lambda>x y. x div y), ar_sqrt = id, ar_cast = (\<lambda>t x. x),
     ar_call = (\<lambda>f es xs. 0)\<rparr>"

text \<open>The values of the accesses: 5 and 7 for what \<open>a\<close> and \<open>b\<close> store, 3 for each value of \<open>d\<close>.\<close>

definition ex_values :: "nat \<Rightarrow> Access \<Rightarrow> int" where
  "ex_values c a = (if tv_addr (acc_tensorVar a) = 2 then (if c = 0 then 5 else 0)
     else if tv_addr (acc_tensorVar a) = 4 then (if c = 2 then 7 else 0) else 3)"

lemma ex_values_at:
  "ex_values c (ex_access k nm) = (if k = 2 then (if c = 0 then 5 else 0) else if k = 4 then (if c = 2 then 7 else 0) else 3)"
  by (simp add: ex_values_def ex_access_def ex_tv_def)

lemma ex_loop_iterator:
  "loop_iterator (ex_context ex_dense) (ex_access 2 ''a'') = Some (ex_level 2 ''a'' (ex_compressed False))"
  "loop_iterator (ex_context ex_dense) (ex_access 3 ''d'') = Some (ex_level 3 ''d'' ex_dense)"
  "loop_iterator (ex_context ex_dense) (ex_access 4 ''b'') = Some (ex_level 4 ''b'' (ex_compressed False))"
  by (simp_all add: loop_iterator_def indexes_loop_def ex_queries ex_get_iterator)

lemma ex_values_sum: "value_of ex_arith (ex_values c) ex_rhs = (if c = 0 then 5 else if c = 2 then 21 else 0)"
  by (simp add: ex_rhs_def ex_values_at)

lemma ex_values_zero:
  "\<forall>c < 4. \<forall>a \<in> set (accesses_of ex_rhs). \<forall>it. loop_iterator (ex_context ex_dense) a = Some it \<and> \<not> ex_stored it c \<longrightarrow>
     ex_values c a = 0"
  by (auto simp: ex_rhs_def ex_loop_iterator ex_values_at ex_stored_def ex_level_props split: if_splits)

lemma ex_stored_full: "\<forall>it \<in> ex_universe. full it \<longrightarrow> (\<forall>c < 4. ex_stored it c)"
  by (simp add: ex_universe_def full_def ex_level_props ex_dimension_props ex_formats ex_stored_def)

lemma merge_loops_compute_witness:
  "\<exists>L r. MergeLattice_make fpu_null ex_loop (ex_iterators ex_dense) ex_graph [ex_i] (\<lambda>_. None) ex_builder = ok (L, ex_builder) \<and>
     run_lattice ex_stored 4 L = ok r \<and> map_of r 0 \<noteq> None \<and> map_of r 2 \<noteq> None"
proof -
  from ex_plain(3) obtain ress where ress: "result_iterators (ex_context ex_dense) (ex_access 1 ''y'') = ok ress" by blast
  have "\<exists>L r. MergeLattice_make fpu_null (ForallNode ex_i ex_body NotParallel IgnoreRaces 0) (ex_iterators ex_dense)
      ex_graph [ex_i] (\<lambda>_. None) ex_builder = ok (L, ex_builder) \<and> run_lattice ex_stored 4 L = ok r \<and>
      sorted_wrt (<) (map fst r) \<and> (\<forall>c < 4. case map_of r c of None \<Rightarrow> value_of ex_arith (ex_values c) ex_rhs = 0
      | Some q \<Rightarrow> value_of ex_arith (restricted (ex_context ex_dense) (ex_values c) (avail q)) ex_rhs =
                  value_of ex_arith (ex_values c) ex_rhs)"
  proof (rule merge_loops_compute [OF ex_good ex_context_def ex_plain(1) _ _ _ ex_plain(2) _ _ _ ex_values_zero])
    show "result_iterators (ex_context ex_dense) (ex_access 1 ''y'') = ok ress" by (rule ress)
    show "zero_arith ex_arith" by (simp add: zero_arith_def ex_arith_def)
    show "assignment_of ex_body = Some (ex_access 1 ''y'', ex_rhs)" by (simp add: ex_body_def)
    show "concrete fpu_null ex_arith ex_rhs" by (simp add: ex_rhs_def)
    show "\<forall>us. getUnderivedAncestors ex_graph ex_i = ok us \<longrightarrow> (\<forall>u \<in> set us. isRecoverable ex_graph u [ex_i] = ok True)"
      by (simp add: ex_queries)
    show "\<forall>it \<in> ex_universe. full it \<longrightarrow> (\<forall>c < 4. ex_stored it c)" by (rule ex_stored_full)
  qed
  then obtain L r where L: "MergeLattice_make fpu_null ex_loop (ex_iterators ex_dense) ex_graph [ex_i] (\<lambda>_. None) ex_builder
      = ok (L, ex_builder)" "run_lattice ex_stored 4 L = ok r"
    and v: "\<forall>c < 4. case map_of r c of None \<Rightarrow> value_of ex_arith (ex_values c) ex_rhs = 0
      | Some q \<Rightarrow> value_of ex_arith (restricted (ex_context ex_dense) (ex_values c) (avail q)) ex_rhs =
                  value_of ex_arith (ex_values c) ex_rhs"
    unfolding ex_loop_def by blast
  from v [rule_format, of 0] have "map_of r 0 \<noteq> None" by (cases "map_of r 0") (simp_all add: ex_values_sum)
  moreover from v [rule_format, of 2] have "map_of r 2 \<noteq> None" by (cases "map_of r 2") (simp_all add: ex_values_sum)
  ultimately show ?thesis using L by blast
qed

definition ex_point :: "nat \<Rightarrow> string \<Rightarrow> MergePoint" where
  "ex_point k nm = \<lparr>mp_iterators = [ex_level k nm (ex_compressed False)], mp_locators = [], mp_results = []\<rparr>"

lemma rangers_and_mergers_witness:
  "\<exists>rs. rangers (ex_point 2 ''a'') = ok rs \<and> \<not> (\<forall>it \<in> set rs. list_ex (ex_stored it) [1..<4])"
proof -
  have "\<not> unexhausted ex_stored 4 1 (ex_point 2 ''a'')"
    by (auto simp: unexhausted_def ex_point_def ex_stored_def ex_level_props list_ex_iff)
  moreover have "set (mp_iterators (ex_point 2 ''a'')) \<subseteq> ex_universe" by (simp add: ex_point_def ex_universe_def)
  ultimately show ?thesis
    using rangers_and_mergers [OF ex_good _ ex_stored_full, of "ex_point 2 ''a''" 1] by auto
qed

lemma exact_executes_all_witness:
  "\<exists>r q. run_lattice ex_stored 4 [ex_point 4 ''b''] = ok r \<and> map_of r 2 = Some q"
proof (rule exact_executes_all [OF ex_good _ _ ex_stored_full])
  show "tracks ex_universe ex_dimension {} (\<lambda>_. True) [ex_point 4 ''b'']"
    by (rule tracks_singleton [where it = "ex_level 4 ''b'' (ex_compressed False)"])
       (auto simp: ex_point_def point_ok_def ex_universe_def agree_def absent_def)
  show "exact [ex_point 4 ''b''] = ok True" by code_simp
  show "ex_level 4 ''b'' (ex_compressed False) \<in> set (mp_iterators (hd [ex_point 4 ''b'']))" by (simp add: ex_point_def)
  show "ex_stored (ex_level 4 ''b'' (ex_compressed False)) 2" by (simp add: ex_stored_def ex_level_props)
qed simp

subsection \<open>A full level that cannot be located into\<close>

lemma ex_run_full:
  "bindR (MergeLattice_make fpu_null ex_loop (ex_iterators (ex_compressed True)) ex_graph [ex_i] (\<lambda>_. None) ex_builder)
     (\<lambda>(L, b). bindR (run_lattice ex_stored 4 L) (\<lambda>r. ok (map fst r))) = ok [2]"
  by code_simp

text \<open>Where \<open>d\<close> is compressed and declared full, the lattice of \<open>a(i) + d(i) * b(i)\<close> loses the coordinates that
  only \<open>a\<close> has: the points without \<open>d\<close> are removed, as if iterating over the product met every coordinate of a full
  operand. The loops execute nothing at coordinate 0, where the expression is 5.\<close>

theorem full_level_loses_coordinates:
  "\<exists>L b r. MergeLattice_make fpu_null ex_loop (ex_iterators (ex_compressed True)) ex_graph [ex_i] (\<lambda>_. None) ex_builder = ok (L, b) \<and>
     run_lattice ex_stored 4 L = ok r \<and> map_of r 0 = None \<and> value_of ex_arith (ex_values 0) ex_rhs = 5"
proof -
  from ex_run_full obtain L b r where "MergeLattice_make fpu_null ex_loop (ex_iterators (ex_compressed True)) ex_graph
      [ex_i] (\<lambda>_. None) ex_builder = ok (L, b)" "run_lattice ex_stored 4 L = ok r" "map fst r = [2]"
    by (auto simp: res_simps)
  then show ?thesis by (auto simp: map_of_eq_None_iff ex_values_sum)
qed

end
