(* ===== verification/Notation.thy ===== *)
theory Notation
  imports Provenance
begin

text \<open>
  From einsum notation to concrete notation (src/index_notation/index_notation.cpp): which statements are einsum,
  reduction and concrete notation, and the two steps that make the reductions and the loops of a statement
  explicit. The checks answer whether a statement passes; their messages are left out.

  A visitor that meets an undefined operand reads through a null pointer. Rewriters return a node with no
  rewritten operand as it is; as values the rebuilt node and the old one are equal.
\<close>

subsection \<open>Walks\<close>

text \<open>Whether a walk over the operands meets an undefined one.\<close>

fun walkable :: "IndexExpr \<Rightarrow> bool" where
  "walkable NoExpr \<longleftrightarrow> False"
| "walkable (NegNode e) \<longleftrightarrow> walkable e"
| "walkable (SqrtNode e) \<longleftrightarrow> walkable e"
| "walkable (AddNode a b) \<longleftrightarrow> walkable a \<and> walkable b"
| "walkable (SubNode a b) \<longleftrightarrow> walkable a \<and> walkable b"
| "walkable (MulNode a b) \<longleftrightarrow> walkable a \<and> walkable b"
| "walkable (DivNode a b) \<longleftrightarrow> walkable a \<and> walkable b"
| "walkable (CastNode t e) \<longleftrightarrow> walkable e"
| "walkable (CallIntrinsicNode f es) \<longleftrightarrow> list_all walkable es"
| "walkable (ReductionNode opn v e) \<longleftrightarrow> walkable e"
| "walkable _ \<longleftrightarrow> True"

text \<open>The accesses a walk meets, in order (reductions are walked into).\<close>

fun reads_of :: "IndexExpr \<Rightarrow> Access list" where
  "reads_of (AccessNode a) = [a]"
| "reads_of (NegNode e) = reads_of e"
| "reads_of (SqrtNode e) = reads_of e"
| "reads_of (AddNode a b) = reads_of a @ reads_of b"
| "reads_of (SubNode a b) = reads_of a @ reads_of b"
| "reads_of (MulNode a b) = reads_of a @ reads_of b"
| "reads_of (DivNode a b) = reads_of a @ reads_of b"
| "reads_of (CastNode t e) = reads_of e"
| "reads_of (CallIntrinsicNode f es) = concat (map reads_of es)"
| "reads_of (ReductionNode opn v e) = reads_of e"
| "reads_of _ = []"

text \<open>\<open>match\<close> does nothing on an undefined expression.\<close>

definition match_accesses :: "IndexExpr \<Rightarrow> Access list res" where
  "match_accesses e = (if e = NoExpr then ok [] else assertR BadMemory (walkable e) (ok (reads_of e)))"

text \<open>The elements that are not in \<open>seen\<close>, each once, in order of their first occurrence.\<close>

fun unseen :: "'a list \<Rightarrow> 'a list \<Rightarrow> 'a list" where
  "unseen seen [] = []"
| "unseen seen (x # xs) = (if x \<in> set seen then unseen seen xs else x # unseen (x # seen) xs)"

definition access_vars :: "Access list \<Rightarrow> IndexVar list" where
  "access_vars as = concat (map acc_indexVars as)"

text \<open>\<open>getIndexVars\<close> of an expression: the graph it asks for underived ancestors has no relations.\<close>

definition expr_getIndexVars :: "IndexExpr \<Rightarrow> IndexVar list res" where
  "expr_getIndexVars e = assertR BadMemory (walkable e) (ok (unseen [] (access_vars (reads_of e))))"

definition getFreeVars :: "Access \<Rightarrow> IndexVar list" where
  "getFreeVars lhs = acc_indexVars lhs"

definition assignment_getReductionVars :: "Access \<Rightarrow> IndexExpr \<Rightarrow> IndexVar list res" where
  "assignment_getReductionVars lhs rhs =
     bindR (match_accesses rhs) (\<lambda>as. ok (unseen (getFreeVars lhs) (access_vars as)))"

subsection \<open>Type checking\<close>

definition sized_by :: "Dimension \<Rightarrow> IndexVar \<Rightarrow> bool" where
  "sized_by d v \<longleftrightarrow> isIndexVarSized d \<and> dim_indexVar d = Some (iv_addr v)"

text \<open>One use of a variable for a mode: whether it agrees with the dimension that was found first.\<close>

definition use_dimension ::
    "IndexVar \<times> Dimension \<Rightarrow> bool \<times> (IndexVar \<times> Dimension) list \<Rightarrow> bool \<times> (IndexVar \<times> Dimension) list" where
  "use_dimension u s =
     (case (u, s) of ((var, dimension), (good, dims)) \<Rightarrow>
        (case map_of dims var of
           None \<Rightarrow> (good, (var, dimension) # dims)
         | Some d \<Rightarrow>
             if \<not> dim_eq d dimension \<and> \<not> sized_by d var \<and> \<not> sized_by dimension var then (False, dims)
             else (good, dims)))"

text \<open>\<open>Dimension(size_t)\<close> of an \<open>int\<close>.\<close>

definition Dimension_of_int :: "int \<Rightarrow> Dimension res" where
  "Dimension_of_int n = Dimension_fixed (nat (wrapU 64 n))"

definition mode_dimension :: "Access \<Rightarrow> Dimension \<Rightarrow> nat \<Rightarrow> Dimension res" where
  "mode_dimension a d mode =
     (if isModeWindowed a (int mode) then bindR (getWindowSize a (int mode)) Dimension_of_int
      else if isModeIndexSet a (int mode) then bindR (getIndexSet a (int mode)) (\<lambda>s. Dimension_fixed (length s))
      else ok d)"

definition read_dimensions :: "Access \<Rightarrow> (IndexVar \<times> Dimension) list res" where
  "read_dimensions a =
     mapR (\<lambda>(mode, var). bindR (at_index (shape (tv_type (acc_tensorVar a))) mode) (\<lambda>d.
             bindR (mode_dimension a d mode) (\<lambda>d'. ok (var, d'))))
       (enumerate 0 (acc_indexVars a))"

definition dimensionsTypecheck :: "IndexVar list \<Rightarrow> IndexExpr \<Rightarrow> Shape \<Rightarrow> bool res" where
  "dimensionsTypecheck resultVars expr shp =
     bindR (mapR (\<lambda>(mode, var). bindR (at_index shp mode) (\<lambda>d. ok (var, d))) (enumerate 0 resultVars)) (\<lambda>resultUses.
     bindR (match_accesses expr) (\<lambda>as. bindR (concatR read_dimensions as) (\<lambda>readUses.
       ok (fst (fold use_dimension (resultUses @ readUses) (True, []))))))"

text \<open>The shape of the result is that of its windows and index sets, where it has them.\<close>

definition isValid :: "Access \<Rightarrow> IndexExpr \<Rightarrow> bool res" where
  "isValid lhs rhs =
     (let shp = shape (tv_type (acc_tensorVar lhs)) in
      bindR (if hasWindowedModes lhs \<or> hasIndexSetModes lhs
             then mapR (\<lambda>(i, d). mode_dimension lhs d i) (enumerate 0 shp) else ok shp)
        (dimensionsTypecheck (getFreeVars lhs) rhs))"

subsection \<open>Einsum and reduction notation\<close>

definition bothR :: "bool res \<Rightarrow> bool res \<Rightarrow> bool res" where
  "bothR a b = bindR a (\<lambda>x. bindR b (\<lambda>y. ok (x \<and> y)))"

lemma bothR_cong [fundef_cong]: "a = a' \<Longrightarrow> b = b' \<Longrightarrow> bothR a b = bothR a' b'"
  by simp

text \<open>No additions below multiplications, no divisions and no reductions; the flag tells whether the walk is
  below a multiplication. An addition that is not allowed is not walked into.\<close>

fun einsum_walk :: "bool \<Rightarrow> IndexExpr \<Rightarrow> bool res" where
  "einsum_walk mulnodeVisited NoExpr = err BadMemory"
| "einsum_walk mulnodeVisited (NegNode e) = einsum_walk mulnodeVisited e"
| "einsum_walk mulnodeVisited (SqrtNode e) = einsum_walk mulnodeVisited e"
| "einsum_walk mulnodeVisited (AddNode a b) =
     (if mulnodeVisited then ok False else bothR (einsum_walk mulnodeVisited a) (einsum_walk mulnodeVisited b))"
| "einsum_walk mulnodeVisited (SubNode a b) =
     (if mulnodeVisited then ok False else bothR (einsum_walk mulnodeVisited a) (einsum_walk mulnodeVisited b))"
| "einsum_walk mulnodeVisited (MulNode a b) = bothR (einsum_walk True a) (einsum_walk True b)"
| "einsum_walk mulnodeVisited (DivNode a b) =
     bothR (ok False) (bothR (einsum_walk mulnodeVisited a) (einsum_walk mulnodeVisited b))"
| "einsum_walk mulnodeVisited (CastNode t e) = einsum_walk mulnodeVisited e"
| "einsum_walk mulnodeVisited (CallIntrinsicNode f es) =
     foldR (\<lambda>e good. bothR (ok good) (einsum_walk mulnodeVisited e)) es True"
| "einsum_walk mulnodeVisited (ReductionNode opn v e) = bothR (ok False) (einsum_walk mulnodeVisited e)"
| "einsum_walk mulnodeVisited _ = ok True"

definition isEinsumNotation :: "IndexStmt \<Rightarrow> bool res" where
  "isEinsumNotation s =
     (case s of AssignmentNode lhs rhs opn \<Rightarrow> ifR (isValid lhs rhs) (einsum_walk False rhs) (ok False)
      | _ \<Rightarrow> ok False)"

text \<open>The variables bound in the open scopes of the set are a list.\<close>

fun bound_walk :: "IndexVar list \<Rightarrow> IndexExpr \<Rightarrow> bool res" where
  "bound_walk boundVars NoExpr = err BadMemory"
| "bound_walk boundVars (AccessNode a) = ok (set (acc_indexVars a) \<subseteq> set boundVars)"
| "bound_walk boundVars (LiteralNode t u) = ok True"
| "bound_walk boundVars (NegNode e) = bound_walk boundVars e"
| "bound_walk boundVars (SqrtNode e) = bound_walk boundVars e"
| "bound_walk boundVars (AddNode a b) = bothR (bound_walk boundVars a) (bound_walk boundVars b)"
| "bound_walk boundVars (SubNode a b) = bothR (bound_walk boundVars a) (bound_walk boundVars b)"
| "bound_walk boundVars (MulNode a b) = bothR (bound_walk boundVars a) (bound_walk boundVars b)"
| "bound_walk boundVars (DivNode a b) = bothR (bound_walk boundVars a) (bound_walk boundVars b)"
| "bound_walk boundVars (CastNode t e) = bound_walk boundVars e"
| "bound_walk boundVars (CallIntrinsicNode f es) =
     foldR (\<lambda>e good. bothR (ok good) (bound_walk boundVars e)) es True"
| "bound_walk boundVars (ReductionNode opn v e) = bound_walk (v # boundVars) e"

definition isReductionNotation :: "IndexStmt \<Rightarrow> bool res" where
  "isReductionNotation s =
     (case s of AssignmentNode lhs rhs opn \<Rightarrow> ifR (isValid lhs rhs) (bound_walk (getFreeVars lhs) rhs) (ok False)
      | _ \<Rightarrow> ok False)"

text \<open>The check for scheduled statements asks for the ancestors and descendants of a variable that is not
  bound. What it finds is overwritten: the statement is no reduction notation either way.\<close>

definition scheduled_access :: "ProvenanceGraph \<Rightarrow> IndexVar list \<Rightarrow> Access \<Rightarrow> bool \<Rightarrow> bool res" where
  "scheduled_access g boundVars a isReduction =
     foldR (\<lambda>var isReduction.
         if var \<in> set boundVars then ok isReduction
         else bindR (if isFullyDerived g var then getUnderivedAncestors g var else getFullyDerivedDescendants g var)
                (\<lambda>related.
                  let exempt = (if \<exists>r \<in> set related. r \<in> set boundVars then True else isReduction) in
                  let isReduction = exempt in
                  let isReduction = False in ok isReduction))
       (acc_indexVars a) isReduction"

fun scheduled_walk :: "ProvenanceGraph \<Rightarrow> IndexVar list \<Rightarrow> IndexExpr \<Rightarrow> bool \<Rightarrow> bool res" where
  "scheduled_walk g boundVars NoExpr r = err BadMemory"
| "scheduled_walk g boundVars (AccessNode a) r = scheduled_access g boundVars a r"
| "scheduled_walk g boundVars (LiteralNode t u) r = ok r"
| "scheduled_walk g boundVars (NegNode e) r = scheduled_walk g boundVars e r"
| "scheduled_walk g boundVars (SqrtNode e) r = scheduled_walk g boundVars e r"
| "scheduled_walk g boundVars (AddNode a b) r = bindR (scheduled_walk g boundVars a r) (scheduled_walk g boundVars b)"
| "scheduled_walk g boundVars (SubNode a b) r = bindR (scheduled_walk g boundVars a r) (scheduled_walk g boundVars b)"
| "scheduled_walk g boundVars (MulNode a b) r = bindR (scheduled_walk g boundVars a r) (scheduled_walk g boundVars b)"
| "scheduled_walk g boundVars (DivNode a b) r = bindR (scheduled_walk g boundVars a r) (scheduled_walk g boundVars b)"
| "scheduled_walk g boundVars (CastNode t e) r = scheduled_walk g boundVars e r"
| "scheduled_walk g boundVars (CallIntrinsicNode f es) r = foldR (scheduled_walk g boundVars) es r"
| "scheduled_walk g boundVars (ReductionNode opn v e) r = scheduled_walk g (v # boundVars) e r"

definition isReductionNotationScheduled :: "ProvenanceGraph \<Rightarrow> IndexStmt \<Rightarrow> bool res" where
  "isReductionNotationScheduled g s =
     (case s of AssignmentNode lhs rhs opn \<Rightarrow> ifR (isValid lhs rhs) (scheduled_walk g (getFreeVars lhs) rhs True) (ok False)
      | _ \<Rightarrow> ok False)"

subsection \<open>Making reductions explicit\<close>

text \<open>\<open>Add()\<close> and the reduction with it.\<close>

definition Add_op :: IndexExpr where
  "Add_op = AddNode NoExpr NoExpr"

definition sum_expr :: "IndexVar \<Rightarrow> IndexExpr \<Rightarrow> IndexExpr" where
  "sum_expr v e = ReductionNode Add_op v e"

definition addReductions :: "(IndexVar \<Rightarrow> bool res) \<Rightarrow> IndexExpr \<Rightarrow> IndexExpr res" where
  "addReductions reduced e =
     bindR (expr_getIndexVars e) (\<lambda>vars.
       foldR (\<lambda>var expr. ifR (reduced var) (ok (sum_expr var expr)) (ok expr)) (rev vars) e)"

text \<open>The rewriter answers the expression and whether there was only one term: whether it met no addition and
  no subtraction. It does not rewrite their operands.\<close>

fun reduce_terms :: "(IndexVar \<Rightarrow> bool res) \<Rightarrow> IndexExpr \<Rightarrow> (IndexExpr \<times> bool) res" where
  "reduce_terms reduced (NegNode e) = bindR (reduce_terms reduced e) (\<lambda>(e, one). ok (NegNode e, one))"
| "reduce_terms reduced (SqrtNode e) = bindR (reduce_terms reduced e) (\<lambda>(e, one). ok (SqrtNode e, one))"
| "reduce_terms reduced (AddNode a b) =
     bindR (addReductions reduced a) (\<lambda>a. bindR (addReductions reduced b) (\<lambda>b. ok (AddNode a b, False)))"
| "reduce_terms reduced (SubNode a b) =
     bindR (addReductions reduced a) (\<lambda>a. bindR (addReductions reduced b) (\<lambda>b. ok (SubNode a b, False)))"
| "reduce_terms reduced (MulNode a b) =
     bindR (reduce_terms reduced a) (\<lambda>(a, one). bindR (reduce_terms reduced b) (\<lambda>(b, one'). ok (MulNode a b, one \<and> one')))"
| "reduce_terms reduced (DivNode a b) =
     bindR (reduce_terms reduced a) (\<lambda>(a, one). bindR (reduce_terms reduced b) (\<lambda>(b, one'). ok (DivNode a b, one \<and> one')))"
| "reduce_terms reduced (CastNode t e) = bindR (reduce_terms reduced e) (\<lambda>(e, one). ok (CastNode t e, one))"
| "reduce_terms reduced (CallIntrinsicNode f es) =
     bindR (mapR (reduce_terms reduced) es) (\<lambda>rs. ok (CallIntrinsicNode f (map fst rs), list_all snd rs))"
| "reduce_terms reduced (ReductionNode opn v e) =
     bindR (reduce_terms reduced e) (\<lambda>(e, one). ok (ReductionNode opn v e, one))"
| "reduce_terms reduced e = ok (e, True)"

definition einsum :: "(IndexVar \<Rightarrow> bool res) \<Rightarrow> IndexExpr \<Rightarrow> IndexExpr res" where
  "einsum reduced e =
     bindR (reduce_terms reduced e) (\<lambda>(einsumexpr, onlyOneTerm).
       if onlyOneTerm then addReductions reduced einsumexpr else ok einsumexpr)"

definition makeReductionNotation :: "IndexStmt \<Rightarrow> IndexStmt res" where
  "makeReductionNotation s =
     bindR (isEinsumNotation s) (\<lambda>c. assertR IAssert c (
       case s of
         AssignmentNode lhs rhs opn \<Rightarrow>
           bindR (einsum (\<lambda>var. ok (var \<notin> set (getFreeVars lhs))) rhs) (\<lambda>rhs. ok (AssignmentNode lhs rhs opn))
       | _ \<Rightarrow> err IAssert))"

text \<open>For a scheduled statement a variable is not reduced when it derives from a free variable, or a free variable
  from it.\<close>

definition should_reduce :: "ProvenanceGraph \<Rightarrow> IndexVar list \<Rightarrow> IndexVar \<Rightarrow> bool res" where
  "should_reduce g free var =
     (if var \<in> set free then ok False
      else notR (foldR (\<lambda>f derived.
          bindR (if isFullyDerived g var then isDerivedFrom g var f else isDerivedFrom g f var) (\<lambda>d. ok (derived \<or> d)))
        free False))"

definition makeReductionNotationScheduled :: "IndexStmt \<Rightarrow> ProvenanceGraph \<Rightarrow> IndexStmt res" where
  "makeReductionNotationScheduled s g =
     bindR (isEinsumNotation s) (\<lambda>c. assertR IAssert c (
       case s of
         AssignmentNode lhs rhs opn \<Rightarrow>
           bindR (einsum (should_reduce g (getFreeVars lhs)) rhs) (\<lambda>rhs. ok (AssignmentNode lhs rhs opn))
       | _ \<Rightarrow> err IAssert))"

subsection \<open>Making loops explicit\<close>

definition forall_stmt :: "IndexVar \<Rightarrow> IndexStmt \<Rightarrow> IndexStmt" where
  "forall_stmt v s = ForallNode v s NotParallel IgnoreRaces 0"

text \<open>Reductions over the whole right-hand side become loops, outermost first.\<close>

fun top_level_reductions :: "IndexExpr \<Rightarrow> IndexVar list \<times> IndexExpr" where
  "top_level_reductions (ReductionNode opn v e) = (let (vs, rhs) = top_level_reductions e in (v # vs, rhs))"
| "top_level_reductions e = ([], e)"

definition remove_top_level_reductions :: "Access \<Rightarrow> IndexExpr \<Rightarrow> IndexExpr \<Rightarrow> IndexStmt" where
  "remove_top_level_reductions lhs rhs opn =
     (let (vs, rhs') = top_level_reductions rhs in
      if vs \<noteq> [] then foldr forall_stmt vs (AssignmentNode lhs rhs' Add_op)
      else AssignmentNode lhs rhs opn)"

text \<open>A scalar temporary, and an access to it: \<open>IndexExpr(TensorVar)\<close> and the conversion to \<open>Access\<close> make a new
  node each.\<close>

definition scalar_temporary :: "string \<Rightarrow> Datatype \<Rightarrow> TensorVar build" where
  "scalar_temporary nm t =
     bindB fresh (\<lambda>addr. liftB (bindR (Format_packs []) (\<lambda>f.
       ok \<lparr>tv_addr = addr, tv_id = -1, tv_name = nm, tv_type = \<lparr>dtype = t, shape = []\<rparr>, tv_format = f\<rparr>)))"

definition scalar_access :: "TensorVar \<Rightarrow> Access build" where
  "scalar_access t = bindB fresh (\<lambda>addr. retB (AccessNode_make addr t [] [] False))"

text \<open>The first reduction of the right-hand side is replaced by a temporary.\<close>

record found_reduction =
  fr_op :: IndexExpr
  fr_var :: IndexVar
  fr_expr :: IndexExpr
  fr_temporary :: TensorVar

type_synonym 'a replacing = "(found_reduction option \<times> builder, 'a) stateful"

definition building :: "'a build \<Rightarrow> 'a replacing" where
  "building m = (\<lambda>(r, b). bindR (m b) (\<lambda>(x, b'). ok (x, (r, b'))))"

definition visit_reduction :: "IndexExpr \<Rightarrow> IndexVar \<Rightarrow> IndexExpr \<Rightarrow> IndexExpr replacing" where
  "visit_reduction opn v e = (\<lambda>(r, b). case r of
       Some _ \<Rightarrow> ok (ReductionNode opn v e, (r, b))
     | None \<Rightarrow>
         bindB (building (bindB (liftB (getDataType e)) (scalar_temporary (''t'' @ iv_name v)))) (\<lambda>tv.
         bindB (updateB (apfst (\<lambda>_. Some \<lparr>fr_op = opn, fr_var = v, fr_expr = e, fr_temporary = tv\<rparr>))) (\<lambda>_.
         bindB (building (scalar_access tv)) (\<lambda>a. retB (AccessNode a)))) (r, b))"

fun replace_reduction :: "IndexExpr \<Rightarrow> IndexExpr replacing" where
  "replace_reduction (NegNode e) = bindB (replace_reduction e) (\<lambda>e. retB (NegNode e))"
| "replace_reduction (SqrtNode e) = bindB (replace_reduction e) (\<lambda>e. retB (SqrtNode e))"
| "replace_reduction (AddNode a b) = bindB (replace_reduction a) (\<lambda>a. bindB (replace_reduction b) (\<lambda>b. retB (AddNode a b)))"
| "replace_reduction (SubNode a b) = bindB (replace_reduction a) (\<lambda>a. bindB (replace_reduction b) (\<lambda>b. retB (SubNode a b)))"
| "replace_reduction (MulNode a b) = bindB (replace_reduction a) (\<lambda>a. bindB (replace_reduction b) (\<lambda>b. retB (MulNode a b)))"
| "replace_reduction (DivNode a b) = bindB (replace_reduction a) (\<lambda>a. bindB (replace_reduction b) (\<lambda>b. retB (DivNode a b)))"
| "replace_reduction (CastNode t e) = bindB (replace_reduction e) (\<lambda>e. retB (CastNode t e))"
| "replace_reduction (CallIntrinsicNode f es) = bindB (mapB replace_reduction es) (\<lambda>es. retB (CallIntrinsicNode f es))"
| "replace_reduction (ReductionNode opn v e) = visit_reduction opn v e"
| "replace_reduction e = retB e"

fun count_reductions :: "IndexExpr \<Rightarrow> nat" where
  "count_reductions (NegNode e) = count_reductions e"
| "count_reductions (SqrtNode e) = count_reductions e"
| "count_reductions (AddNode a b) = count_reductions a + count_reductions b"
| "count_reductions (SubNode a b) = count_reductions a + count_reductions b"
| "count_reductions (MulNode a b) = count_reductions a + count_reductions b"
| "count_reductions (DivNode a b) = count_reductions a + count_reductions b"
| "count_reductions (CastNode t e) = count_reductions e"
| "count_reductions (CallIntrinsicNode f es) = sum_list (map count_reductions es)"
| "count_reductions (ReductionNode opn v e) = Suc (count_reductions e)"
| "count_reductions _ = 0"

text \<open>An assignment with a reduction becomes a consumer and the producer of the temporary, which are rewritten in
  turn. Either has fewer reductions; the number of steps given is enough (\<open>assignment_wheres_total\<close>).\<close>

fun assignment_wheres :: "nat \<Rightarrow> Access \<Rightarrow> IndexExpr \<Rightarrow> IndexExpr \<Rightarrow> IndexStmt build" where
  "assignment_wheres 0 lhs rhs opn = liftB (err NoReturn)"
| "assignment_wheres (Suc n) lhs rhs opn = (\<lambda>b.
     bindR (replace_reduction rhs (None, b)) (\<lambda>(rhs', (r, b)). case r of
         None \<Rightarrow> ok (AssignmentNode lhs rhs opn, b)
       | Some r \<Rightarrow>
           bindB (scalar_access (fr_temporary r)) (\<lambda>t.
           bindB (assignment_wheres n lhs rhs' opn) (\<lambda>consumer.
           bindB (assignment_wheres n t (fr_expr r) (fr_op r)) (\<lambda>producer.
             retB (WhereNode consumer (forall_stmt (fr_var r) producer))))) b))"

fun reductions_to_wheres :: "IndexStmt \<Rightarrow> IndexStmt build" where
  "reductions_to_wheres (AssignmentNode lhs rhs opn) = assignment_wheres (Suc (count_reductions rhs)) lhs rhs opn"
| "reductions_to_wheres (YieldNode vs e) = (\<lambda>b.
     bindR (replace_reduction e (None, b)) (\<lambda>(e', (r, b)). ok (YieldNode vs e', b)))"
| "reductions_to_wheres (ForallNode v s pu rs u) = bindB (reductions_to_wheres s) (\<lambda>s. retB (ForallNode v s pu rs u))"
| "reductions_to_wheres (WhereNode c p) =
     bindB (reductions_to_wheres p) (\<lambda>p. bindB (reductions_to_wheres c) (\<lambda>c. retB (WhereNode c p)))"
| "reductions_to_wheres (MultiNode s t) =
     bindB (reductions_to_wheres s) (\<lambda>s. bindB (reductions_to_wheres t) (\<lambda>t. retB (MultiNode s t)))"
| "reductions_to_wheres (SuchThatNode s rels) = bindB (reductions_to_wheres s) (\<lambda>s. retB (SuchThatNode s rels))"
| "reductions_to_wheres (SequenceNode d m) =
     bindB (reductions_to_wheres d) (\<lambda>d. bindB (reductions_to_wheres m) (\<lambda>m. retB (SequenceNode d m)))"
| "reductions_to_wheres (AssembleNode q c) =
     bindB (reductions_to_wheres q) (\<lambda>q. bindB (reductions_to_wheres c) (\<lambda>c. retB (AssembleNode q c)))"
| "reductions_to_wheres NoStmt = retB NoStmt"

definition makeConcreteNotation :: "IndexStmt \<Rightarrow> IndexStmt build" where
  "makeConcreteNotation s =
     bindB (liftB (isReductionNotation s)) (\<lambda>c. bindB (liftB (assertR IAssert c (ok ()))) (\<lambda>_.
       case s of
         AssignmentNode lhs rhs opn \<Rightarrow>
           reductions_to_wheres (foldr forall_stmt (getFreeVars lhs) (remove_top_level_reductions lhs rhs opn))
       | _ \<Rightarrow> liftB (err IAssert)))"

definition concretize :: "IndexStmt \<Rightarrow> IndexStmt build" where
  "concretize s =
     bindB (liftB (ifR (isEinsumNotation s) (makeReductionNotation s) (ok s))) (\<lambda>s.
     bindB (liftB (isReductionNotation s)) (\<lambda>r. if r then makeConcreteNotation s else retB s))"

subsection \<open>Scheduled statements\<close>

text \<open>The loop over a free variable is one over the last of its fully derived descendants that the right-hand side
  has. The loops can also be prescribed.\<close>

definition scheduled_loop :: "ProvenanceGraph \<Rightarrow> IndexVar list \<Rightarrow> IndexVar \<Rightarrow> IndexVar res" where
  "scheduled_loop g rhsVars i =
     (if isFullyDerived g i then ok i
      else bindR (getFullyDerivedDescendants g i) (\<lambda>derivedVars. bindR (at_index rhsVars 0) (\<lambda>derivedI.
        ok (fold (\<lambda>d acc. if d \<in> set rhsVars then d else acc) derivedVars derivedI))))"

definition prescribed_loops :: "ProvenanceGraph \<Rightarrow> IndexVar list \<Rightarrow> IndexVar \<Rightarrow> IndexStmt \<Rightarrow> IndexStmt res" where
  "prescribed_loops g reductionAndFreeVars i s =
     (if i \<in> set reductionAndFreeVars then ok (forall_stmt i s)
      else bindR (getUnderivedAncestors g i) (\<lambda>ancestorVars. bindR (at_index reductionAndFreeVars 0) (\<lambda>_.
        ok (fold (\<lambda>a s. if a \<in> set reductionAndFreeVars then forall_stmt i s else s) ancestorVars s))))"

definition makeConcreteNotationScheduled :: "IndexStmt \<Rightarrow> ProvenanceGraph \<Rightarrow> IndexVar list \<Rightarrow> IndexStmt build" where
  "makeConcreteNotationScheduled s g forallIndexVars =
     bindB (liftB (isReductionNotationScheduled g s)) (\<lambda>c. bindB (liftB (assertR IAssert c (ok ()))) (\<lambda>_.
       case s of
         AssignmentNode lhs rhs opn \<Rightarrow>
           let freeVars = getFreeVars lhs; (vs, rhs') = top_level_reductions rhs;
               assignment = (if vs \<noteq> [] then AssignmentNode lhs rhs' Add_op else s);
               rhsVars = unseen [] (access_vars (reads_of rhs')) in
           bindB (liftB (assertR BadMemory (walkable rhs') (
             if forallIndexVars = [] then
               bindR (mapR (scheduled_loop g rhsVars) (rev freeVars)) (\<lambda>loops.
                 ok (fold forall_stmt loops (foldr forall_stmt vs assignment)))
             else foldR (prescribed_loops g (vs @ freeVars)) (rev forallIndexVars) assignment))) reductions_to_wheres
       | _ \<Rightarrow> liftB (err IAssert)))"

definition concretizeScheduled :: "ProvenanceGraph \<Rightarrow> IndexVar list \<Rightarrow> IndexStmt \<Rightarrow> IndexStmt build" where
  "concretizeScheduled g forallIndexVarList s =
     bindB (liftB (ifR (isEinsumNotation s) (makeReductionNotationScheduled s g) (ok s))) (\<lambda>s.
     bindB (liftB (isReductionNotationScheduled g s)) (\<lambda>r.
       if r then makeConcreteNotationScheduled s g forallIndexVarList else retB s))"

subsection \<open>Concrete notation\<close>

definition concrete_access :: "ProvenanceGraph \<Rightarrow> IndexVar list \<Rightarrow> IndexVar list \<Rightarrow> Access \<Rightarrow> bool res" where
  "concrete_access g boundVars definedVars a =
     foldR (\<lambda>var good.
         if var \<notin> set boundVars \<and> isUnderived g var then
           ifR (if isFullyDerived g var then ok True else notR (isRecoverable g var definedVars)) (ok False) (ok good)
         else ok good) (acc_indexVars a) True"

fun concrete_expr :: "ProvenanceGraph \<Rightarrow> IndexVar list \<Rightarrow> IndexVar list \<Rightarrow> IndexExpr \<Rightarrow> bool res" where
  "concrete_expr g bs ds NoExpr = err BadMemory"
| "concrete_expr g bs ds (AccessNode a) = concrete_access g bs ds a"
| "concrete_expr g bs ds (LiteralNode t u) = ok True"
| "concrete_expr g bs ds (NegNode e) = concrete_expr g bs ds e"
| "concrete_expr g bs ds (SqrtNode e) = concrete_expr g bs ds e"
| "concrete_expr g bs ds (AddNode a b) = bothR (concrete_expr g bs ds a) (concrete_expr g bs ds b)"
| "concrete_expr g bs ds (SubNode a b) = bothR (concrete_expr g bs ds a) (concrete_expr g bs ds b)"
| "concrete_expr g bs ds (MulNode a b) = bothR (concrete_expr g bs ds a) (concrete_expr g bs ds b)"
| "concrete_expr g bs ds (DivNode a b) = bothR (concrete_expr g bs ds a) (concrete_expr g bs ds b)"
| "concrete_expr g bs ds (CastNode t e) = concrete_expr g bs ds e"
| "concrete_expr g bs ds (CallIntrinsicNode f es) =
     foldR (\<lambda>e good. bothR (ok good) (concrete_expr g bs ds e)) es True"
| "concrete_expr g bs ds (ReductionNode opn v e) = bothR (ok False) (concrete_expr g bs ds e)"

text \<open>Reduction variables, up to their underived ancestors, need a compound assignment.\<close>

definition has_reduction_vars :: "ProvenanceGraph \<Rightarrow> Access \<Rightarrow> IndexExpr \<Rightarrow> bool res" where
  "has_reduction_vars g lhs rhs =
     bindR (assignment_getReductionVars lhs rhs) (\<lambda>vars.
     bindR (concatR (getUnderivedAncestors g) vars) (\<lambda>parents. ok (\<exists>p \<in> set parents. p \<notin> set (getFreeVars lhs))))"

text \<open>The variables of the foralls stay defined after them; bound they are in their body only. \<open>outermost\<close> tells whether
  the statement is the whole one.\<close>

fun concrete_walk ::
    "ProvenanceGraph \<Rightarrow> bool \<Rightarrow> bool \<Rightarrow> bool \<Rightarrow> IndexVar list \<Rightarrow> IndexStmt \<Rightarrow> IndexVar list \<Rightarrow> (bool \<times> IndexVar list) res" where
  "concrete_walk g outermost inP inC bs NoStmt ds = err BadMemory"
| "concrete_walk g outermost inP inC bs (AssignmentNode lhs rhs opn) ds =
     bindR (if inC \<or> inP then ok True else isValid lhs rhs) (\<lambda>valid.
       if \<not> valid then ok (False, ds)
       else bindR (has_reduction_vars g lhs rhs) (\<lambda>reduced.
         if reduced \<and> opn = NoExpr \<and> \<not> inP then ok (False, ds)
         else bindR (bothR (concrete_access g bs ds lhs) (concrete_expr g bs ds rhs)) (\<lambda>good. ok (good, ds))))"
| "concrete_walk g outermost inP inC bs (YieldNode vs e) ds = bindR (concrete_expr g bs ds e) (\<lambda>good. ok (good, ds))"
| "concrete_walk g outermost inP inC bs (ForallNode v s pu rs u) ds =
     concrete_walk g False inP inC (v # bs) s (List.insert v ds)"
| "concrete_walk g outermost inP inC bs (WhereNode c p) ds =
     bindR (concrete_walk g False True inC bs p ds) (\<lambda>(good, ds).
     bindR (concrete_walk g False inP True bs c ds) (\<lambda>(good', ds). ok (good \<and> good', ds)))"
| "concrete_walk g outermost inP inC bs (MultiNode s t) ds =
     bindR (concrete_walk g False inP inC bs s ds) (\<lambda>(good, ds).
     bindR (concrete_walk g False inP inC bs t ds) (\<lambda>(good', ds). ok (good \<and> good', ds)))"
| "concrete_walk g outermost inP inC bs (SuchThatNode s rels) ds =
     bindR (concrete_walk g False inP inC bs s ds) (\<lambda>(good, ds). ok (outermost \<and> good, ds))"
| "concrete_walk g outermost inP inC bs (SequenceNode d m) ds =
     bindR (concrete_walk g False inP inC bs d ds) (\<lambda>(good, ds).
     bindR (concrete_walk g False inP inC bs m ds) (\<lambda>(good', ds). ok (good \<and> good', ds)))"
| "concrete_walk g outermost inP inC bs (AssembleNode q c) ds =
     bindR (if q = NoStmt then ok (True, ds) else concrete_walk g False inP inC bs q ds) (\<lambda>(good, ds).
     bindR (concrete_walk g False inP inC bs c ds) (\<lambda>(good', ds). ok (good \<and> good', ds)))"

definition isConcreteNotation :: "IndexStmt \<Rightarrow> bool res" where
  "isConcreteNotation s =
     assertR IAssert (s \<noteq> NoStmt)
       (bindR (ProvenanceGraph_make s) (\<lambda>g. bindR (concrete_walk g True False False [] s []) (\<lambda>(good, ds). ok good)))"

end
