(* ===== verification/Notation_Semantics.thy ===== *)
theory Notation_Semantics
  imports Notation
begin

text \<open>
  What index notation means: the value of an expression where its index variables have values, and the effect of
  the statements concretization makes on the tensors. A tensor is a function from coordinates to integers, known
  by the address of its variable; sums, differences and products are those of the integers, the other operations
  are a parameter.
\<close>

lemma foldR_append: "foldR f (xs @ ys) a = bindR (foldR f xs a) (foldR f ys)"
  by (induction xs arbitrary: a) (auto simp: bindR_def split: sum.split)

subsection \<open>Expressions\<close>

record tensor_ops =
  to_literal :: "Datatype \<Rightarrow> component_union \<Rightarrow> int"
  to_div :: "int \<Rightarrow> int \<Rightarrow> int"
  to_sqrt :: "int \<Rightarrow> int"
  to_cast :: "Datatype \<Rightarrow> int \<Rightarrow> int"
  to_call :: "Intrinsic \<Rightarrow> int list \<Rightarrow> int"

type_synonym env = "IndexVar \<Rightarrow> int"
type_synonym tensors = "nat \<Rightarrow> int list \<Rightarrow> int"

text \<open>A mode with a window is read from its lower bound on, with its stride; one with an index set at the elements of
  the set.\<close>

definition mode_coord :: "Access \<Rightarrow> nat \<Rightarrow> int \<Rightarrow> int" where
  "mode_coord a mode x =
     (case map_of (acc_windowedModes a) (int mode) of
        Some w \<Rightarrow> aw_lo w + aw_stride w * x
      | None \<Rightarrow> (case map_of (acc_indexSetModes a) (int mode) of
          Some s \<Rightarrow> if 0 \<le> x \<and> x < int (length (is_set s)) then is_set s ! nat x else x
        | None \<Rightarrow> x))"

definition coords :: "env \<Rightarrow> Access \<Rightarrow> int list" where
  "coords \<rho> a = map (\<lambda>(mode, v). mode_coord a mode (\<rho> v)) (enumerate 0 (acc_indexVars a))"

lemma coords_plain:
  "acc_windowedModes a = [] \<Longrightarrow> acc_indexSetModes a = [] \<Longrightarrow> coords \<rho> a = map \<rho> (acc_indexVars a)"
  unfolding coords_def by (rule nth_equalityI) (simp_all add: mode_coord_def nth_enumerate_eq)

abbreviation tensor_of :: "Access \<Rightarrow> nat" where
  "tensor_of a \<equiv> tv_addr (acc_tensorVar a)"

definition read_tensor :: "tensors \<Rightarrow> env \<Rightarrow> Access \<Rightarrow> int" where
  "read_tensor st \<rho> a =
     (let x = st (tensor_of a) (coords \<rho> a) in if acc_isAccessingStructure a then of_bool (x \<noteq> 0) else x)"

text \<open>The operator of a reduction or of a compound assignment.\<close>

definition apply_operator :: "tensor_ops \<Rightarrow> IndexExpr \<Rightarrow> int \<Rightarrow> int \<Rightarrow> int" where
  "apply_operator T opn x y =
     (case opn of
        AddNode _ _ \<Rightarrow> x + y | SubNode _ _ \<Rightarrow> x - y | MulNode _ _ \<Rightarrow> x * y | DivNode _ _ \<Rightarrow> to_div T x y
      | _ \<Rightarrow> y)"

text \<open>A reduction runs through the values of its variable, from an accumulator that starts at zero. \<open>sz\<close> gives the
  sizes of the dimensions of the variables.\<close>

fun expr_value :: "tensor_ops \<Rightarrow> (IndexVar \<Rightarrow> nat) \<Rightarrow> tensors \<Rightarrow> env \<Rightarrow> IndexExpr \<Rightarrow> int" where
  "expr_value T sz st \<rho> NoExpr = 0"
| "expr_value T sz st \<rho> (AccessNode a) = read_tensor st \<rho> a"
| "expr_value T sz st \<rho> (LiteralNode t u) = to_literal T t u"
| "expr_value T sz st \<rho> (NegNode e) = - expr_value T sz st \<rho> e"
| "expr_value T sz st \<rho> (SqrtNode e) = to_sqrt T (expr_value T sz st \<rho> e)"
| "expr_value T sz st \<rho> (AddNode a b) = expr_value T sz st \<rho> a + expr_value T sz st \<rho> b"
| "expr_value T sz st \<rho> (SubNode a b) = expr_value T sz st \<rho> a - expr_value T sz st \<rho> b"
| "expr_value T sz st \<rho> (MulNode a b) = expr_value T sz st \<rho> a * expr_value T sz st \<rho> b"
| "expr_value T sz st \<rho> (DivNode a b) = to_div T (expr_value T sz st \<rho> a) (expr_value T sz st \<rho> b)"
| "expr_value T sz st \<rho> (CastNode t e) = to_cast T t (expr_value T sz st \<rho> e)"
| "expr_value T sz st \<rho> (CallIntrinsicNode f es) = to_call T f (map (expr_value T sz st \<rho>) es)"
| "expr_value T sz st \<rho> (ReductionNode opn v e) =
     fold (\<lambda>k x. apply_operator T opn x (expr_value T sz st (\<rho>(v := int k)) e)) [0..<sz v] 0"

lemma expr_value_cong:
  "(\<And>a. a \<in> set (reads_of e) \<Longrightarrow> st (tensor_of a) = st' (tensor_of a)) \<Longrightarrow>
   expr_value T sz st \<rho> e = expr_value T sz st' \<rho> e"
proof (induction e arbitrary: \<rho>)
  case (CallIntrinsicNode f es)
  then have "map (expr_value T sz st \<rho>) es = map (expr_value T sz st' \<rho>) es" by auto
  then show ?case by (simp only: expr_value.simps)
next
  case (ReductionNode opn v e)
  then have "expr_value T sz st \<rho>' e = expr_value T sz st' \<rho>' e" for \<rho>' by simp
  then show ?case by simp
qed (simp_all add: read_tensor_def)

lemma expr_value_off:
  "t \<notin> tensor_of ` set (reads_of e) \<Longrightarrow> (\<And>t'. t' \<noteq> t \<Longrightarrow> st' t' = st t') \<Longrightarrow>
   expr_value T sz st' \<rho> e = expr_value T sz st \<rho> e"
  by (rule expr_value_cong) (metis imageI)

subsection \<open>Statements\<close>

definition write_tensor :: "nat \<Rightarrow> int list \<Rightarrow> int \<Rightarrow> tensors \<Rightarrow> tensors" where
  "write_tensor t c x st = st(t := (st t)(c := x))"

lemma write_tensor_same [simp]: "write_tensor t c x st t c = x"
  by (simp add: write_tensor_def)

lemma write_tensor_other [simp]: "t' \<noteq> t \<or> c' \<noteq> c \<Longrightarrow> write_tensor t c x st t' c' = st t' c'"
  by (auto simp: write_tensor_def)

lemma write_tensor_off [simp]: "t' \<noteq> t \<Longrightarrow> write_tensor t c x st t' = st t'"
  by (simp add: write_tensor_def)

lemma write_tensor_twice [simp]: "write_tensor t c x (write_tensor t c y st) = write_tensor t c x st"
  by (simp add: write_tensor_def)

lemma write_tensor_id [simp]: "write_tensor t c (st t c) st = st"
  by (simp add: write_tensor_def)

definition assign_tensor :: "tensor_ops \<Rightarrow> (IndexVar \<Rightarrow> nat) \<Rightarrow> env \<Rightarrow> Access \<Rightarrow> IndexExpr \<Rightarrow> IndexExpr \<Rightarrow> tensors \<Rightarrow> tensors" where
  "assign_tensor T sz \<rho> lhs rhs opn st =
     (let c = coords \<rho> lhs; x = expr_value T sz st \<rho> rhs in
      write_tensor (tensor_of lhs) c
        (if opn = NoExpr then x else apply_operator T opn (st (tensor_of lhs) c) x) st)"

text \<open>The tensors a statement defines for the statements around it.\<close>

fun defined_by :: "IndexStmt \<Rightarrow> nat set" where
  "defined_by (AssignmentNode lhs rhs opn) = {tensor_of lhs}"
| "defined_by (ForallNode v s pu rs u) = defined_by s"
| "defined_by (WhereNode c p) = defined_by c"
| "defined_by (MultiNode s t) = defined_by s \<union> defined_by t"
| "defined_by (SuchThatNode s rels) = defined_by s"
| "defined_by (SequenceNode d m) = defined_by d"
| "defined_by (AssembleNode q c) = defined_by c"
| "defined_by _ = {}"

text \<open>A loop over a variable; a where statement starts with the temporaries of its producer at zero. Relations
  between variables have no meaning here.\<close>

fun exec :: "tensor_ops \<Rightarrow> (IndexVar \<Rightarrow> nat) \<Rightarrow> IndexStmt \<Rightarrow> env \<Rightarrow> tensors \<Rightarrow> tensors" where
  "exec T sz (AssignmentNode lhs rhs opn) \<rho> st = assign_tensor T sz \<rho> lhs rhs opn st"
| "exec T sz (ForallNode v s pu rs u) \<rho> st = fold (\<lambda>k. exec T sz s (\<rho>(v := int k))) [0..<sz v] st"
| "exec T sz (WhereNode c p) \<rho> st =
     exec T sz c \<rho> (exec T sz p \<rho> (\<lambda>t. if t \<in> defined_by p then (\<lambda>_. 0) else st t))"
| "exec T sz (MultiNode s t) \<rho> st = exec T sz t \<rho> (exec T sz s \<rho> st)"
| "exec T sz (SuchThatNode s rels) \<rho> st = exec T sz s \<rho> st"
| "exec T sz (SequenceNode d m) \<rho> st = exec T sz m \<rho> (exec T sz d \<rho> st)"
| "exec T sz (AssembleNode q c) \<rho> st = exec T sz c \<rho> st"
| "exec T sz _ \<rho> st = st"

lemma exec_assign: "exec T sz (AssignmentNode lhs rhs opn) \<rho> = assign_tensor T sz \<rho> lhs rhs opn"
  by (simp add: fun_eq_iff)

lemma exec_forall: "exec T sz (forall_stmt v s) \<rho> st = fold (\<lambda>k. exec T sz s (\<rho>(v := int k))) [0..<sz v] st"
  by (simp add: forall_stmt_def)

text \<open>Tensors agree below an address: the addresses from there on are the temporaries'.\<close>

definition agree_below :: "nat \<Rightarrow> tensors \<Rightarrow> tensors \<Rightarrow> bool" where
  "agree_below N st st' \<longleftrightarrow> (\<forall>t < N. st t = st' t)"

lemma agree_below_refl [simp]: "agree_below N st st"
  by (simp add: agree_below_def)

lemma agree_below_trans: "agree_below N s t \<Longrightarrow> agree_below N t u \<Longrightarrow> agree_below N s u"
  by (simp add: agree_below_def)

lemma agree_below_mono: "agree_below N s t \<Longrightarrow> M \<le> N \<Longrightarrow> agree_below M s t"
  by (simp add: agree_below_def)

lemma assign_agrees:
  assumes "agree_below N st st'" "\<And>a. a \<in> set (reads_of rhs) \<Longrightarrow> tensor_of a < N" "tensor_of lhs < N"
  shows "agree_below N (assign_tensor T sz \<rho> lhs rhs opn st) (assign_tensor T sz \<rho> lhs rhs opn st')"
proof -
  have "expr_value T sz st \<rho> rhs = expr_value T sz st' \<rho> rhs"
    using assms by (intro expr_value_cong) (auto simp: agree_below_def)
  then show ?thesis using assms by (auto simp: assign_tensor_def write_tensor_def agree_below_def Let_def)
qed

text \<open>Two statements with the same effect below an address.\<close>

definition same_effect :: "tensor_ops \<Rightarrow> (IndexVar \<Rightarrow> nat) \<Rightarrow> nat \<Rightarrow> IndexStmt \<Rightarrow> IndexStmt \<Rightarrow> bool" where
  "same_effect T sz N s s' \<longleftrightarrow>
     (\<forall>\<rho> st st'. agree_below N st st' \<longrightarrow> agree_below N (exec T sz s \<rho> st) (exec T sz s' \<rho> st'))"

lemma same_effect_forall:
  assumes "same_effect T sz N s s'"
  shows "same_effect T sz N (ForallNode v s pu rs u) (ForallNode v s' pu' rs' u')"
proof -
  have "agree_below N (fold (\<lambda>k. exec T sz s (\<rho>(v := int k))) ks st) (fold (\<lambda>k. exec T sz s' (\<rho>(v := int k))) ks st')"
    if "agree_below N st st'" for \<rho> ks st st'
    using that assms by (induction ks arbitrary: st st') (auto simp: same_effect_def)
  then show ?thesis by (simp add: same_effect_def)
qed

lemma same_effect_foralls: "same_effect T sz N s s' \<Longrightarrow> same_effect T sz N (foldr forall_stmt vs s) (foldr forall_stmt vs s')"
  by (induction vs) (simp_all add: same_effect_forall forall_stmt_def)

end
