(* ===== verification/Concretize_Sound.thy ===== *)
theory Concretize_Sound
  imports Notation_Semantics
begin

text \<open>
  Concretization keeps what a statement computes: replacing reductions by where statements, and turning the free
  variables and the outermost reductions into loops.
\<close>

subsection \<open>Replacing a reduction\<close>

text \<open>Expressions that can be constructed: every operand has a type.\<close>

fun constructed :: "IndexExpr \<Rightarrow> bool" where
  "constructed NoExpr \<longleftrightarrow> False"
| "constructed (NegNode e) \<longleftrightarrow> constructed e"
| "constructed (SqrtNode e) \<longleftrightarrow> constructed e"
| "constructed (AddNode a b) \<longleftrightarrow> constructed a \<and> constructed b \<and> (\<exists>t. getDataType (AddNode a b) = ok t)"
| "constructed (SubNode a b) \<longleftrightarrow> constructed a \<and> constructed b \<and> (\<exists>t. getDataType (SubNode a b) = ok t)"
| "constructed (MulNode a b) \<longleftrightarrow> constructed a \<and> constructed b \<and> (\<exists>t. getDataType (MulNode a b) = ok t)"
| "constructed (DivNode a b) \<longleftrightarrow> constructed a \<and> constructed b \<and> (\<exists>t. getDataType (DivNode a b) = ok t)"
| "constructed (CastNode t e) \<longleftrightarrow> constructed e"
| "constructed (CallIntrinsicNode f es) \<longleftrightarrow>
     (\<forall>e \<in> set es. constructed e) \<and> (\<exists>t. getDataType (CallIntrinsicNode f es) = ok t)"
| "constructed (ReductionNode opn v e) \<longleftrightarrow> constructed e"
| "constructed _ \<longleftrightarrow> True"

lemma constructed_typed: "constructed e \<Longrightarrow> \<exists>t. getDataType e = ok t"
  by (induction e rule: constructed.induct) auto

definition temporary_value :: "tensor_ops \<Rightarrow> (IndexVar \<Rightarrow> nat) \<Rightarrow> found_reduction \<Rightarrow> tensors \<Rightarrow> env \<Rightarrow> tensors \<Rightarrow> bool" where
  "temporary_value T sz r st \<rho> st' \<longleftrightarrow>
     st' (tv_addr (fr_temporary r)) [] = expr_value T sz st \<rho> (ReductionNode (fr_op r) (fr_var r) (fr_expr r)) \<and>
     (\<forall>t. t \<noteq> tv_addr (fr_temporary r) \<longrightarrow> st' t = st t)"

text \<open>What replacing the first reduction of \<open>e\<close> by a temporary gives: \<open>e'\<close> has the value of \<open>e\<close> where the temporary
  has the value of the reduction.\<close>

definition replaced :: "tensor_ops \<Rightarrow> (IndexVar \<Rightarrow> nat) \<Rightarrow> builder \<Rightarrow> IndexExpr \<Rightarrow> IndexExpr \<Rightarrow> found_reduction \<Rightarrow> builder \<Rightarrow> bool" where
  "replaced T sz b e e' r b' \<longleftrightarrow>
     (let t = tv_addr (fr_temporary r) in
      next_addr b \<le> t \<and> t < next_addr b' \<and> constructed e' \<and> getDataType e' = getDataType e \<and>
      constructed (fr_expr r) \<and> Suc (count_reductions e' + count_reductions (fr_expr r)) = count_reductions e \<and>
      tensor_of ` set (reads_of e') \<subseteq> insert t (tensor_of ` set (reads_of e)) \<and>
      tensor_of ` set (reads_of (fr_expr r)) \<subseteq> tensor_of ` set (reads_of e) \<and>
      (\<forall>st \<rho> st'. t \<notin> tensor_of ` set (reads_of e) \<longrightarrow> temporary_value T sz r st \<rho> st' \<longrightarrow>
         expr_value T sz st' \<rho> e' = expr_value T sz st \<rho> e))"

lemma building_apply: "building m (r, b) = bindR (m b) (\<lambda>(x, b'). ok (x, (r, b')))"
  by (simp add: building_def)

lemma updateB_apply: "updateB f s = ok ((), f s)"
  by (simp add: updateB_def)

lemma scalar_temporary_ok:
  "\<exists>tv b'. scalar_temporary nm t b = ok (tv, b') \<and> tv_addr tv = next_addr b \<and> next_addr b' = Suc (next_addr b)"
  by (simp add: scalar_temporary_def bindB_def fresh_def liftB_def Format_packs_def getOrder_def getModeFormats_def wrapS_def)

lemma visit_reduction_replaced:
  assumes "constructed e"
  shows "\<exists>e' r b'. visit_reduction opn v e (None, b) = ok (e', (Some r, b')) \<and>
    replaced T sz b (ReductionNode opn v e) e' r b'"
proof -
  obtain t where t: "getDataType e = ok t" using constructed_typed [OF assms] by blast
  obtain tv b1 where tv: "scalar_temporary (''t'' @ iv_name v) t b = ok (tv, b1)" "tv_addr tv = next_addr b"
    "next_addr b1 = Suc (next_addr b)" using scalar_temporary_ok by blast
  have "dtype (tv_type tv) = t"
    using tv(1) by (auto simp: scalar_temporary_def res_simps)
  then show ?thesis
    using assms t tv
    by (auto simp: visit_reduction_def building_apply bindB_def liftB_def updateB_apply scalar_access_def fresh_def retB_def
        replaced_def temporary_value_def AccessNode_make_def read_tensor_def coords_def)
qed

lemma replace_rest: "replace_reduction e (Some r, b) = ok (e, (Some r, b))"
proof (induction e)
  case (CallIntrinsicNode f es)
  then have "mapB replace_reduction es (Some r, b) = ok (es, (Some r, b))"
    by (induction es) (simp_all add: retB_def bindB_def)
  then show ?case by (simp add: bindB_def retB_def)
qed (simp_all add: bindB_def retB_def visit_reduction_def)

lemma temporary_value_other:
  "temporary_value T sz r st \<rho> st' \<Longrightarrow> tv_addr (fr_temporary r) \<notin> tensor_of ` set (reads_of x) \<Longrightarrow>
   expr_value T sz st' \<rho> x = expr_value T sz st \<rho> x"
  by (rule expr_value_off [where t = "tv_addr (fr_temporary r)"]) (simp_all add: temporary_value_def)

lemma replaced_unary:
  assumes "replaced T sz b e e' r b'"
  shows "replaced T sz b (NegNode e) (NegNode e') r b'" "replaced T sz b (SqrtNode e) (SqrtNode e') r b'"
    "replaced T sz b (CastNode t e) (CastNode t e') r b'"
  using assms by (auto simp: replaced_def Let_def)

lemma replaced_left:
  assumes "replaced T sz b e e' r b'"
  shows "constructed (AddNode e x) \<Longrightarrow> replaced T sz b (AddNode e x) (AddNode e' x) r b'"
    "constructed (SubNode e x) \<Longrightarrow> replaced T sz b (SubNode e x) (SubNode e' x) r b'"
    "constructed (MulNode e x) \<Longrightarrow> replaced T sz b (MulNode e x) (MulNode e' x) r b'"
    "constructed (DivNode e x) \<Longrightarrow> replaced T sz b (DivNode e x) (DivNode e' x) r b'"
  using assms by (auto simp: replaced_def Let_def image_Un temporary_value_other)

lemma replaced_right:
  assumes "replaced T sz b e e' r b'"
  shows "constructed (AddNode x e) \<Longrightarrow> replaced T sz b (AddNode x e) (AddNode x e') r b'"
    "constructed (SubNode x e) \<Longrightarrow> replaced T sz b (SubNode x e) (SubNode x e') r b'"
    "constructed (MulNode x e) \<Longrightarrow> replaced T sz b (MulNode x e) (MulNode x e') r b'"
    "constructed (DivNode x e) \<Longrightarrow> replaced T sz b (DivNode x e) (DivNode x e') r b'"
  using assms by (auto simp: replaced_def Let_def image_Un temporary_value_other)

lemma replaced_argument:
  assumes r: "replaced T sz b e e' r b'" and c: "constructed (CallIntrinsicNode f (xs @ e # ys))"
  shows "replaced T sz b (CallIntrinsicNode f (xs @ e # ys)) (CallIntrinsicNode f (xs @ e' # ys)) r b'"
proof -
  let ?t = "tv_addr (fr_temporary r)"
  have ty: "getDataType e' = getDataType e" "constructed e'" using r by (simp_all add: replaced_def Let_def)
  have "mapR getDataType (xs @ e' # ys) = mapR getDataType (xs @ e # ys)"
    using ty(1) by (induction xs) (simp_all split: sum.split)
  then have t: "getDataType (CallIntrinsicNode f (xs @ e' # ys)) = getDataType (CallIntrinsicNode f (xs @ e # ys))" by simp
  have v: "expr_value T sz st' \<rho> (CallIntrinsicNode f (xs @ e' # ys)) = expr_value T sz st \<rho> (CallIntrinsicNode f (xs @ e # ys))"
    if n: "?t \<notin> tensor_of ` set (reads_of (CallIntrinsicNode f (xs @ e # ys)))" and tv: "temporary_value T sz r st \<rho> st'" for st \<rho> st'
  proof -
    have "map (expr_value T sz st' \<rho>) xs = map (expr_value T sz st \<rho>) xs" "map (expr_value T sz st' \<rho>) ys = map (expr_value T sz st \<rho>) ys"
      using n by (auto intro!: temporary_value_other [OF tv])
    moreover have "expr_value T sz st' \<rho> e' = expr_value T sz st \<rho> e"
      using r n tv by (auto simp: replaced_def Let_def)
    ultimately show ?thesis by (simp only: expr_value.simps map_append list.map)
  qed
  have cc: "constructed (CallIntrinsicNode f (xs @ e' # ys))" using c ty t by auto
  show ?thesis
    unfolding replaced_def Let_def
    using r c t cc v by (auto simp: replaced_def Let_def image_Un image_UN simp del: expr_value.simps)
qed

text \<open>The rewriter finds the first reduction, where there is one.\<close>

definition replacement :: "tensor_ops \<Rightarrow> (IndexVar \<Rightarrow> nat) \<Rightarrow> builder \<Rightarrow> IndexExpr \<Rightarrow> bool" where
  "replacement T sz b e \<longleftrightarrow>
     (count_reductions e = 0 \<and> replace_reduction e (None, b) = ok (e, (None, b))) \<or>
     (\<exists>e' r b'. replace_reduction e (None, b) = ok (e', (Some r, b')) \<and> replaced T sz b e e' r b')"

lemma replacement_found:
  "replace_reduction e (None, b) = ok (e', (Some r, b')) \<Longrightarrow> replaced T sz b e e' r b' \<Longrightarrow> replacement T sz b e"
  unfolding replacement_def by blast

lemma replacement_binary:
  assumes a: "replacement T sz b x" and c: "\<And>b. replacement T sz b y"
    and ok: "constructed (Op x y)" and Op: "Op = AddNode \<or> Op = SubNode \<or> Op = MulNode \<or> Op = DivNode"
  shows "replacement T sz b (Op x y)"
proof (cases "count_reductions x = 0 \<and> replace_reduction x (None, b) = ok (x, (None, b))")
  case True
  with c [of b] ok Op show ?thesis
    unfolding replacement_def
    by (elim disjE exE conjE) (auto simp: bindB_def retB_def intro: replaced_right)
next
  case False
  with a obtain e' r b' where "replace_reduction x (None, b) = ok (e', (Some r, b'))" "replaced T sz b x e' r b'"
    unfolding replacement_def by blast
  then show ?thesis using ok Op
    by (elim disjE) (auto simp: bindB_def retB_def replace_rest intro!: replacement_found intro: replaced_left)
qed

lemma mapB_replace:
  assumes "\<forall>e \<in> set es. \<forall>b. replacement T sz b e"
  shows "(sum_list (map count_reductions es) = 0 \<and> mapB replace_reduction es (None, b) = ok (es, (None, b))) \<or>
    (\<exists>xs e ys e' r b'. es = xs @ e # ys \<and> mapB replace_reduction es (None, b) = ok (xs @ e' # ys, (Some r, b')) \<and>
       replaced T sz b e e' r b')"
  using assms
proof (induction es)
  case (Cons e es)
  have rest: "mapB replace_reduction es (Some r, b) = ok (es, (Some r, b))" for r b
    by (induction es) (simp_all add: retB_def bindB_def replace_rest)
  from Cons.prems have "replacement T sz b e" by simp
  then consider
      "count_reductions e = 0" "replace_reduction e (None, b) = ok (e, (None, b))"
    | e' r b' where "replace_reduction e (None, b) = ok (e', (Some r, b'))" "replaced T sz b e e' r b'"
    by (auto simp: replacement_def)
  then show ?case
  proof cases
    case 1
    from Cons have "(sum_list (map count_reductions es) = 0 \<and> mapB replace_reduction es (None, b) = ok (es, (None, b))) \<or>
      (\<exists>xs e ys e' r b'. es = xs @ e # ys \<and> mapB replace_reduction es (None, b) = ok (xs @ e' # ys, (Some r, b')) \<and>
         replaced T sz b e e' r b')" by auto
    then show ?thesis
    proof (elim disjE exE conjE)
      fix xs y ys e' r b'
      assume "es = xs @ y # ys" "mapB replace_reduction es (None, b) = ok (xs @ e' # ys, (Some r, b'))" "replaced T sz b y e' r b'"
      then have "e # es = (e # xs) @ y # ys" "mapB replace_reduction (e # es) (None, b) = ok ((e # xs) @ e' # ys, (Some r, b'))"
        using 1 by (simp_all add: bindB_def retB_def)
      then show ?thesis using \<open>replaced T sz b y e' r b'\<close> by blast
    qed (use 1 in \<open>simp add: bindB_def retB_def\<close>)
  next
    case 2
    then have "e # es = [] @ e # es" "mapB replace_reduction (e # es) (None, b) = ok ([] @ e' # es, (Some r, b'))"
      by (simp_all add: bindB_def retB_def rest)
    then show ?thesis using 2(2) by blast
  qed
qed (simp add: retB_def)

lemma replacement_reduction:
  assumes "constructed e"
  shows "replacement T sz b (ReductionNode opn v e)"
proof -
  obtain e' r b' where v: "visit_reduction opn v e (None, b) = ok (e', (Some r, b'))"
      "replaced T sz b (ReductionNode opn v e) e' r b'"
    using visit_reduction_replaced [OF assms, of opn v b T sz] by blast
  show ?thesis by (rule replacement_found [OF _ v(2)]) (simp add: v(1))
qed

lemma replace_reduction_replaces: "constructed e \<Longrightarrow> replacement T sz b e"
proof (induction e arbitrary: b)
  case (CallIntrinsicNode f es)
  then have "\<forall>e \<in> set es. \<forall>b. replacement T sz b e" by simp
  from mapB_replace [OF this, where ?b = b] show ?case
  proof (elim disjE exE conjE)
    fix xs e ys e' r b'
    assume m: "es = xs @ e # ys" "mapB replace_reduction es (None, b) = ok (xs @ e' # ys, (Some r, b'))" "replaced T sz b e e' r b'"
    then have "replace_reduction (CallIntrinsicNode f es) (None, b) = ok (CallIntrinsicNode f (xs @ e' # ys), (Some r, b'))"
      by (simp add: bindB_def retB_def)
    moreover have "replaced T sz b (CallIntrinsicNode f es) (CallIntrinsicNode f (xs @ e' # ys)) r b'"
      using replaced_argument [OF m(3)] CallIntrinsicNode.prems m(1) by simp
    ultimately show ?thesis by (rule replacement_found)
  qed (simp add: replacement_def bindB_def retB_def)
next
  case (NegNode e)
  then have "replacement T sz b e" by simp
  then show ?case unfolding replacement_def
    by (elim disjE exE conjE) (auto simp: bindB_def retB_def intro: replaced_unary)
next
  case (SqrtNode e)
  then have "replacement T sz b e" by simp
  then show ?case unfolding replacement_def
    by (elim disjE exE conjE) (auto simp: bindB_def retB_def intro: replaced_unary)
next
  case (CastNode t e)
  then have "replacement T sz b e" by simp
  then show ?case unfolding replacement_def
    by (elim disjE exE conjE) (auto simp: bindB_def retB_def intro: replaced_unary)
next
  case (ReductionNode opn v e)
  then show ?case by (intro replacement_reduction) simp
next
  case (AddNode x y)
  then show ?case by (intro replacement_binary [where Op = AddNode]) simp_all
next
  case (SubNode x y)
  then show ?case by (intro replacement_binary [where Op = SubNode]) simp_all
next
  case (MulNode x y)
  then show ?case by (intro replacement_binary [where Op = MulNode]) simp_all
next
  case (DivNode x y)
  then show ?case by (intro replacement_binary [where Op = DivNode]) simp_all
qed (simp_all add: replacement_def retB_def)

subsection \<open>Reductions as where statements\<close>

lemma assign_temporary_fold:
  assumes "tensor_of a \<notin> tensor_of ` set (reads_of e)" "acc_indexVars a = []"
  shows "fold (\<lambda>k. assign_tensor T sz (\<rho>(v := int k)) a e opn) ks st =
    write_tensor (tensor_of a) []
      (fold (\<lambda>k x. apply_operator T opn x (expr_value T sz st (\<rho>(v := int k)) e)) ks (st (tensor_of a) [])) st"
proof (induction ks arbitrary: st)
  case (Cons k ks)
  let ?f = "\<lambda>st k x. apply_operator T opn x (expr_value T sz st (\<rho>(v := int k)) e)"
  let ?st' = "write_tensor (tensor_of a) [] (?f st k (st (tensor_of a) [])) st"
  have "apply_operator T NoExpr x y = y" for x y by (simp add: apply_operator_def)
  then have step: "assign_tensor T sz (\<rho>(v := int k)) a e opn st = ?st'"
    using assms(2) by (simp add: assign_tensor_def Let_def coords_def)
  have "expr_value T sz ?st' \<rho>' e = expr_value T sz st \<rho>' e" for \<rho>'
    by (rule expr_value_off [OF assms(1)]) simp
  then have f: "?f ?st' = ?f st" by (simp add: fun_eq_iff)
  have "fold (\<lambda>k. assign_tensor T sz (\<rho>(v := int k)) a e opn) (k # ks) st =
      write_tensor (tensor_of a) [] (fold (?f ?st') ks (?st' (tensor_of a) [])) ?st'"
    by (simp only: fold_Cons o_apply step Cons.IH)
  then show ?case by (simp only: f write_tensor_twice write_tensor_same fold_Cons o_apply)
qed simp

lemma producer_value:
  assumes "tensor_of a = tv_addr (fr_temporary r)" "acc_indexVars a = []"
    and "tensor_of a \<notin> tensor_of ` set (reads_of (fr_expr r))"
  shows "temporary_value T sz r st \<rho>
    (exec T sz (forall_stmt (fr_var r) (AssignmentNode a (fr_expr r) (fr_op r))) \<rho> (\<lambda>t. if t = tensor_of a then (\<lambda>_. 0) else st t))"
proof -
  let ?st = "\<lambda>t. if t = tensor_of a then (\<lambda>_. 0) else st t"
  have "expr_value T sz ?st \<rho>' (fr_expr r) = expr_value T sz st \<rho>' (fr_expr r)" for \<rho>'
    by (rule expr_value_off [OF assms(3)]) simp
  then have "exec T sz (forall_stmt (fr_var r) (AssignmentNode a (fr_expr r) (fr_op r))) \<rho> ?st =
      write_tensor (tensor_of a) [] (expr_value T sz st \<rho> (ReductionNode (fr_op r) (fr_var r) (fr_expr r))) ?st"
    by (simp add: forall_stmt_def exec_assign assign_temporary_fold [OF assms(3,2)] del: fun_upd_apply)
  then show ?thesis using assms(1) by (simp add: temporary_value_def)
qed

lemma where_effect:
  assumes r: "replaced T sz b rhs rhs' r b1" and a: "tensor_of a = tv_addr (fr_temporary r)" "acc_indexVars a = []"
    and reads: "\<And>x. x \<in> set (reads_of rhs) \<Longrightarrow> tensor_of x < next_addr b" and lhs: "tensor_of lhs < next_addr b"
    and p: "defined_by p = {tensor_of a}" "same_effect T sz M p (AssignmentNode a (fr_expr r) (fr_op r))"
    and c: "same_effect T sz M' c (AssignmentNode lhs rhs' opn)" and M: "next_addr b1 \<le> M'" "M' \<le> M"
  shows "same_effect T sz (next_addr b) (WhereNode c (forall_stmt (fr_var r) p)) (AssignmentNode lhs rhs opn)"
  unfolding same_effect_def
proof (intro allI impI)
  fix \<rho> st st'
  assume s: "agree_below (next_addr b) st st'"
  let ?t = "tensor_of a"
  let ?st0 = "\<lambda>t. if t = ?t then (\<lambda>_. 0) else st t"
  define stQ where "stQ = exec T sz (forall_stmt (fr_var r) (AssignmentNode a (fr_expr r) (fr_op r))) \<rho> ?st0"
  define stP where "stP = exec T sz (forall_stmt (fr_var r) p) \<rho> ?st0"
  have t: "next_addr b \<le> ?t" "?t < next_addr b1" using r a(1) by (simp_all add: replaced_def Let_def)
  have re: "tensor_of x < next_addr b" if "x \<in> set (reads_of (fr_expr r))" for x
  proof -
    have "tensor_of x \<in> tensor_of ` set (reads_of rhs)" using r that by (auto simp: replaced_def Let_def)
    then show ?thesis using reads by auto
  qed
  have n: "?t \<notin> tensor_of ` set (reads_of (fr_expr r))" "?t \<notin> tensor_of ` set (reads_of rhs)" using re reads t(1) by (metis (no_types) imageE leD)+
  have tv: "temporary_value T sz r st \<rho> stQ" unfolding stQ_def by (rule producer_value [OF a n(1)])
  have "agree_below M stP stQ"
    using same_effect_forall [OF p(2)] by (simp add: stP_def stQ_def forall_stmt_def same_effect_def del: exec.simps)
  then have "agree_below M' stP stQ" using M(2) agree_below_mono by blast
  then have "agree_below M' (exec T sz c \<rho> stP) (assign_tensor T sz \<rho> lhs rhs' opn stQ)"
    using c by (simp add: same_effect_def)
  then have 1: "agree_below (next_addr b) (exec T sz c \<rho> stP) (assign_tensor T sz \<rho> lhs rhs' opn stQ)"
    by (rule agree_below_mono) (use t M in simp)
  have v: "expr_value T sz stQ \<rho> rhs' = expr_value T sz st \<rho> rhs"
    using r n(2) tv a by (auto simp: replaced_def Let_def)
  have off: "stQ t' = st t'" if "t' < next_addr b" for t'
    using tv a(1) t that by (auto simp: temporary_value_def)
  have 2: "agree_below (next_addr b) (assign_tensor T sz \<rho> lhs rhs' opn stQ) (assign_tensor T sz \<rho> lhs rhs opn st)"
    using v off lhs by (auto simp: agree_below_def assign_tensor_def write_tensor_def Let_def)
  have 3: "agree_below (next_addr b) (assign_tensor T sz \<rho> lhs rhs opn st) (assign_tensor T sz \<rho> lhs rhs opn st')"
    by (rule assign_agrees [OF s reads lhs])
  have "defined_by (forall_stmt (fr_var r) p) = {?t}" using p(1) by (simp add: forall_stmt_def)
  then have "exec T sz (WhereNode c (forall_stmt (fr_var r) p)) \<rho> st = exec T sz c \<rho> stP"
    by (simp add: stP_def)
  then show "agree_below (next_addr b) (exec T sz (WhereNode c (forall_stmt (fr_var r) p)) \<rho> st)
      (exec T sz (AssignmentNode lhs rhs opn) \<rho> st')"
    using 1 2 3 agree_below_trans by (metis exec.simps(1))
qed

lemma scalar_access_ok:
  "scalar_access t b = ok (AccessNode_make (next_addr b) t [] [] False, b\<lparr>next_addr := Suc (next_addr b)\<rparr>)"
  by (simp add: scalar_access_def bindB_def fresh_def retB_def)

text \<open>Statements of loops, where statements and assignments without reductions.\<close>

fun reduction_free :: "IndexStmt \<Rightarrow> bool" where
  "reduction_free (AssignmentNode lhs rhs opn) \<longleftrightarrow> count_reductions rhs = 0"
| "reduction_free (ForallNode v s pu rs u) \<longleftrightarrow> reduction_free s"
| "reduction_free (WhereNode c p) \<longleftrightarrow> reduction_free c \<and> reduction_free p"
| "reduction_free _ \<longleftrightarrow> False"

lemma reduction_free_forall: "reduction_free (forall_stmt v s) = reduction_free s"
  by (simp add: forall_stmt_def)

text \<open>Rewriting an assignment returns, and the statement has the effect of the assignment.\<close>

lemma assignment_wheres_total:
  assumes "constructed rhs" "count_reductions rhs < n"
    and "\<And>x. x \<in> set (reads_of rhs) \<Longrightarrow> tensor_of x < next_addr b" "tensor_of lhs < next_addr b"
  shows "\<exists>s b'. assignment_wheres n lhs rhs opn b = ok (s, b') \<and> next_addr b \<le> next_addr b' \<and>
    reduction_free s \<and> defined_by s = {tensor_of lhs} \<and> same_effect T sz (next_addr b) s (AssignmentNode lhs rhs opn)"
  using assms
proof (induction n arbitrary: lhs rhs opn b)
  case (Suc n)
  have assign: "same_effect T sz (next_addr b) (AssignmentNode lhs rhs opn) (AssignmentNode lhs rhs opn)"
    using Suc.prems by (auto simp: same_effect_def intro!: assign_agrees)
  from replace_reduction_replaces [OF Suc.prems(1), of T sz b] consider
      "replace_reduction rhs (None, b) = ok (rhs, (None, b))" "count_reductions rhs = 0"
    | rhs' r b1 where "replace_reduction rhs (None, b) = ok (rhs', (Some r, b1))" "replaced T sz b rhs rhs' r b1"
    by (auto simp: replacement_def)
  then show ?case
  proof cases
    case 1
    then show ?thesis using assign by simp
  next
    case 2
    let ?b2 = "b1\<lparr>next_addr := Suc (next_addr b1)\<rparr>" and ?a = "AccessNode_make (next_addr b1) (fr_temporary r) [] [] False"
    have r: "constructed rhs'" "constructed (fr_expr r)" "count_reductions rhs' < n" "count_reductions (fr_expr r) < n"
      "tensor_of ` set (reads_of rhs') \<subseteq> insert (tv_addr (fr_temporary r)) (tensor_of ` set (reads_of rhs))"
      "tensor_of ` set (reads_of (fr_expr r)) \<subseteq> tensor_of ` set (reads_of rhs)"
      "next_addr b \<le> tv_addr (fr_temporary r)" "tv_addr (fr_temporary r) < next_addr b1"
      using 2(2) Suc.prems(2) by (auto simp: replaced_def Let_def)
    have le: "next_addr b < next_addr b1" using r(7,8) by simp
    have rd: "tensor_of x < next_addr ?b2" if "x \<in> set (reads_of rhs')" for x
    proof -
      have "tensor_of x \<in> insert (tv_addr (fr_temporary r)) (tensor_of ` set (reads_of rhs))" using that r(5) by blast
      then show ?thesis using Suc.prems(3) r(8) le by fastforce
    qed
    have l2: "tensor_of lhs < next_addr ?b2" using Suc.prems(4) le by simp
    obtain c b3 where c: "assignment_wheres n lhs rhs' opn ?b2 = ok (c, b3)" "next_addr ?b2 \<le> next_addr b3" "reduction_free c"
        "defined_by c = {tensor_of lhs}" "same_effect T sz (next_addr ?b2) c (AssignmentNode lhs rhs' opn)"
      using Suc.IH [OF r(1,3) rd l2] by blast
    have rd3: "tensor_of x < next_addr b3" if "x \<in> set (reads_of (fr_expr r))" for x
    proof -
      have "tensor_of x \<in> tensor_of ` set (reads_of rhs)" using that r(6) by blast
      then show ?thesis using Suc.prems(3) le c(2) by fastforce
    qed
    have l3: "tensor_of ?a < next_addr b3" using r(8) c(2) by (simp add: AccessNode_make_def)
    obtain p b4 where p: "assignment_wheres n ?a (fr_expr r) (fr_op r) b3 = ok (p, b4)" "next_addr b3 \<le> next_addr b4" "reduction_free p"
        "defined_by p = {tensor_of ?a}" "same_effect T sz (next_addr b3) p (AssignmentNode ?a (fr_expr r) (fr_op r))"
      using Suc.IH [OF r(2,4) rd3 l3] by blast
    have a: "tensor_of ?a = tv_addr (fr_temporary r)" "acc_indexVars ?a = []" by (simp_all add: AccessNode_make_def)
    have m: "next_addr b1 \<le> next_addr ?b2" by simp
    have "same_effect T sz (next_addr b) (WhereNode c (forall_stmt (fr_var r) p)) (AssignmentNode lhs rhs opn)"
      by (rule where_effect [OF 2(2) a Suc.prems(3,4) p(4,5) c(5) m c(2)])
    then show ?thesis using 2(1) c p le
      by (simp add: bindB_def scalar_access_ok retB_def reduction_free_forall)
  qed
qed simp

end
