(* ===== verification/Concretize_Loops.thy ===== *)
theory Concretize_Loops
  imports Concretize_Sound
begin

text \<open>
  The loops concretization puts around an assignment: the loops of the outermost reductions accumulate their sum in
  the result, those of the free variables write every coordinate of the result once.
\<close>

subsection \<open>Loops that write disjoint coordinates\<close>

text \<open>\<open>P\<close> holds the coordinates of tensor \<open>t\<close> that are written, each with the function of its old value that is
  written there.\<close>

definition loop_writes :: "nat \<Rightarrow> (int list \<times> (int \<Rightarrow> int)) set \<Rightarrow> tensors \<Rightarrow> tensors \<Rightarrow> bool" where
  "loop_writes t P st st' \<longleftrightarrow>
     (\<forall>t'. t' \<noteq> t \<longrightarrow> st' t' = st t') \<and> (\<forall>(c, g) \<in> P. st' t c = g (st t c)) \<and> (\<forall>c. c \<notin> fst ` P \<longrightarrow> st' t c = st t c)"

lemma loop_writes_off: "loop_writes t P st st' \<Longrightarrow> t' \<noteq> t \<Longrightarrow> st' t' = st t'"
  by (simp add: loop_writes_def)

lemma loop_writes_Un:
  assumes "loop_writes t P st st'" "loop_writes t Q st' st''" "fst ` P \<inter> fst ` Q = {}"
  shows "loop_writes t (P \<union> Q) st st''"
proof -
  have "c \<notin> fst ` Q" if "(c, g) \<in> P" for c g using that assms(3) by force
  moreover have "c \<notin> fst ` P" if "(c, g) \<in> Q" for c g using that assms(3) by force
  ultimately show ?thesis
    using assms(1,2) unfolding loop_writes_def by (auto simp: image_Un split_beta)
qed

lemma loop_writes_fold:
  assumes "\<And>k st. k \<in> set ks \<Longrightarrow> (\<And>t'. t' \<noteq> t \<Longrightarrow> st t' = st0 t') \<Longrightarrow> loop_writes t (P k) st (F k st)"
    and "\<And>k l. k \<in> set ks \<Longrightarrow> l \<in> set ks \<Longrightarrow> k \<noteq> l \<Longrightarrow> fst ` P k \<inter> fst ` P l = {}" "distinct ks"
    and "\<And>t'. t' \<noteq> t \<Longrightarrow> st t' = st0 t'"
  shows "loop_writes t (\<Union>k \<in> set ks. P k) st (fold F ks st)"
  using assms
proof (induction ks arbitrary: st)
  case (Cons k ks)
  have 1: "loop_writes t (P k) st (F k st)" using Cons.prems(1,4) by simp
  have 2: "loop_writes t (\<Union>k \<in> set ks. P k) (F k st) (fold F ks (F k st))"
  proof (rule Cons.IH)
    show "F k st t' = st0 t'" if "t' \<noteq> t" for t' using loop_writes_off [OF 1 that] Cons.prems(4) that by simp
  qed (use Cons.prems in auto)
  have "fst ` P k \<inter> fst ` P l = {}" if "l \<in> set ks" for l using Cons.prems(2,3) that by auto
  then have "fst ` P k \<inter> fst ` (\<Union>k \<in> set ks. P k) = {}" by blast
  from loop_writes_Un [OF 1 2 this] show ?case by simp
qed (simp add: loop_writes_def)

fun bind_vars :: "env \<Rightarrow> IndexVar list \<Rightarrow> nat list \<Rightarrow> env" where
  "bind_vars \<rho> (v # vs) (k # ks) = bind_vars (\<rho>(v := int k)) vs ks"
| "bind_vars \<rho> _ _ = \<rho>"

definition in_range :: "(IndexVar \<Rightarrow> nat) \<Rightarrow> IndexVar list \<Rightarrow> nat list \<Rightarrow> bool" where
  "in_range sz vs ks \<longleftrightarrow> list_all2 (\<lambda>v k. k < sz v) vs ks"

lemma in_range_simps [simp]:
  "in_range sz [] ks \<longleftrightarrow> ks = []"
  "in_range sz (v # vs) (k # ks) \<longleftrightarrow> k < sz v \<and> in_range sz vs ks"
  "in_range sz (v # vs) ks \<longleftrightarrow> (\<exists>k ks'. ks = k # ks' \<and> k < sz v \<and> in_range sz vs ks')"
  by (auto simp: in_range_def list_all2_Cons1)

text \<open>The writes of loops over \<open>vs\<close> inside loops over \<open>us\<close>.\<close>

definition loops_writes :: "(IndexVar \<Rightarrow> nat) \<Rightarrow> IndexVar list \<Rightarrow> IndexVar list \<Rightarrow> (env \<Rightarrow> int \<Rightarrow> int) \<Rightarrow> env \<Rightarrow> (int list \<times> (int \<Rightarrow> int)) set" where
  "loops_writes sz us vs G \<rho> = {(map \<rho> us @ map int ks, G (bind_vars \<rho> vs ks)) | ks. in_range sz vs ks}"

lemma loops_writes_Cons:
  assumes "v \<notin> set us"
  shows "loops_writes sz us (v # vs) G \<rho> = (\<Union>k \<in> {0..<sz v}. loops_writes sz (us @ [v]) vs G (\<rho>(v := int k)))"
proof -
  have "map (\<rho>(v := x)) us = map \<rho> us" for x using assms by simp
  then show ?thesis unfolding loops_writes_def by (auto simp del: fun_upd_apply) (auto intro!: exI)
qed

lemma free_loops:
  assumes body: "\<And>\<rho> st. (\<And>t'. t' \<noteq> t \<Longrightarrow> st t' = st0 t') \<Longrightarrow>
      exec T sz s \<rho> st = write_tensor t (map \<rho> (us @ vs)) (G \<rho> (st t (map \<rho> (us @ vs)))) st"
    and "distinct (us @ vs)" "\<And>t'. t' \<noteq> t \<Longrightarrow> st t' = st0 t'"
  shows "loop_writes t (loops_writes sz us vs G \<rho>) st (exec T sz (foldr forall_stmt vs s) \<rho> st)"
  using assms
proof (induction vs arbitrary: us \<rho> st)
  case Nil
  then show ?case by (auto simp: loop_writes_def loops_writes_def)
next
  case (Cons v vs)
  let ?P = "\<lambda>k. loops_writes sz (us @ [v]) vs G (\<rho>(v := int k))"
  have "loop_writes t (?P k) st (exec T sz (foldr forall_stmt vs s) (\<rho>(v := int k)) st)"
    if "\<And>t'. t' \<noteq> t \<Longrightarrow> st t' = st0 t'" for k st
    by (rule Cons.IH) (use Cons.prems(1,2) that in auto)
  moreover have "fst ` ?P k \<inter> fst ` ?P l = {}" if "k \<noteq> l" for k l
    using that Cons.prems(2) by (auto simp: loops_writes_def)
  ultimately have "loop_writes t (\<Union>k \<in> set [0..<sz v]. ?P k) st
      (fold (\<lambda>k. exec T sz (foldr forall_stmt vs s) (\<rho>(v := int k))) [0..<sz v] st)"
    using Cons.prems(3) by (intro loop_writes_fold [where ?st0.0 = st0]) auto
  moreover have "v \<notin> set us" using Cons.prems(2) by simp
  ultimately show ?case by (simp add: exec_forall loops_writes_Cons del: fun_upd_apply)
qed

subsection \<open>Loops that accumulate\<close>

text \<open>All the outermost reductions are sums.\<close>

fun summed :: "IndexExpr \<Rightarrow> bool" where
  "summed (ReductionNode opn v e) \<longleftrightarrow> (\<exists>x y. opn = AddNode x y) \<and> summed e"
| "summed _ \<longleftrightarrow> True"

lemma top_level_reductions_facts:
  "reads_of (snd (top_level_reductions e)) = reads_of e"
  "count_reductions (snd (top_level_reductions e)) \<le> count_reductions e"
  "constructed e \<Longrightarrow> constructed (snd (top_level_reductions e))"
  by (induction e rule: top_level_reductions.induct) (auto simp: split_beta Let_def)

lemma coords_other: "v \<notin> set (acc_indexVars a) \<Longrightarrow> coords (\<rho>(v := x)) a = coords \<rho> a"
  by (auto simp: coords_def in_set_enumerate_eq)

lemma fold_add: "fold (\<lambda>k x. x + f k) ks (a :: int) = a + sum_list (map f ks)"
  by (induction ks arbitrary: a) simp_all

lemma reduction_loops:
  assumes "summed e" "set (fst (top_level_reductions e)) \<inter> set (acc_indexVars lhs) = {}"
    and "tensor_of lhs \<notin> tensor_of ` set (reads_of e)"
  shows "exec T sz (foldr forall_stmt (fst (top_level_reductions e)) (AssignmentNode lhs (snd (top_level_reductions e)) Add_op)) \<rho> st =
    write_tensor (tensor_of lhs) (coords \<rho> lhs) (st (tensor_of lhs) (coords \<rho> lhs) + expr_value T sz st \<rho> e) st"
proof -
  have leaf: "exec T sz (AssignmentNode lhs e' Add_op) \<rho> st =
      write_tensor (tensor_of lhs) (coords \<rho> lhs) (st (tensor_of lhs) (coords \<rho> lhs) + expr_value T sz st \<rho> e') st" for e' \<rho> st
    by (simp add: assign_tensor_def Let_def apply_operator_def Add_op_def)
  show ?thesis using assms
  proof (induction e arbitrary: \<rho> st rule: top_level_reductions.induct)
    case (1 opn v e)
    let ?t = "tensor_of lhs" and ?c = "coords \<rho> lhs"
    let ?X = "foldr forall_stmt (fst (top_level_reductions e)) (AssignmentNode lhs (snd (top_level_reductions e)) Add_op)"
    have c: "coords (\<rho>(v := x)) lhs = ?c" for x by (rule coords_other) (use 1 in \<open>auto simp: split_beta Let_def\<close>)
    have IH: "exec T sz ?X \<rho> st = write_tensor ?t (coords \<rho> lhs) (st ?t (coords \<rho> lhs) + expr_value T sz st \<rho> e) st" for \<rho> st
      using 1 by (intro "1.IH") (auto simp: split_beta Let_def)
    have f: "fold (\<lambda>k. exec T sz ?X (\<rho>(v := int k))) ks st =
        write_tensor ?t ?c (st ?t ?c + (\<Sum>k\<leftarrow>ks. expr_value T sz st (\<rho>(v := int k)) e)) st" for ks
    proof (induction ks arbitrary: st)
      case (Cons k ks)
      have e: "expr_value T sz (write_tensor ?t ?c y st) \<rho>' e = expr_value T sz st \<rho>' e" for y \<rho>'
        by (rule expr_value_off [of ?t]) (use 1 in auto)
      have "exec T sz ?X (\<rho>(v := int k)) st = write_tensor ?t ?c (st ?t ?c + expr_value T sz st (\<rho>(v := int k)) e) st"
        by (simp only: IH c)
      then show ?case
        by (simp only: fold_Cons o_apply Cons.IH e write_tensor_same write_tensor_twice list.map sum_list.Cons add.assoc)
    qed simp
    obtain x y where opn: "opn = AddNode x y" using 1 by auto
    have "expr_value T sz st \<rho> (ReductionNode opn v e) = (\<Sum>k\<leftarrow>[0..<sz v]. expr_value T sz st (\<rho>(v := int k)) e)"
      by (simp add: opn apply_operator_def fold_add del: fun_upd_apply)
    then show ?case using f [of "[0..<sz v]"] by (simp add: split_beta Let_def exec_forall del: fun_upd_apply)
  qed (simp_all only: top_level_reductions.simps fst_conv snd_conv foldr.simps id_apply leaf)
qed

end
