(* ===== verification/Concretize_Correct.thy ===== *)
theory Concretize_Correct
  imports Concretize_Loops
begin

text \<open>
  Concretization is correct: the loops of the concrete statement compute the right-hand side at every coordinate of
  the result, and for einsum notation the sums over the variables that are not free.
\<close>

subsection \<open>Concrete notation computes the assignment\<close>

text \<open>A result that is not read, with plain and distinct free variables; the temporaries come from addresses that
  are not in use.\<close>

definition assignable :: "Access \<Rightarrow> IndexExpr \<Rightarrow> builder \<Rightarrow> bool" where
  "assignable lhs rhs b \<longleftrightarrow>
     acc_windowedModes lhs = [] \<and> acc_indexSetModes lhs = [] \<and> distinct (acc_indexVars lhs) \<and>
     tensor_of lhs \<notin> tensor_of ` set (reads_of rhs) \<and>
     tensor_of lhs < next_addr b \<and> (\<forall>a \<in> set (reads_of rhs). tensor_of a < next_addr b)"

text \<open>A statement that computes \<open>f\<close> at the coordinates of the result, added to what is there where it
  accumulates, and writes nothing else than temporaries.\<close>

definition computes ::
    "tensor_ops \<Rightarrow> (IndexVar \<Rightarrow> nat) \<Rightarrow> nat \<Rightarrow> Access \<Rightarrow> bool \<Rightarrow> (tensors \<Rightarrow> env \<Rightarrow> int) \<Rightarrow> IndexStmt \<Rightarrow> bool" where
  "computes T sz N lhs accumulates f s \<longleftrightarrow>
     (\<forall>\<rho> st. (\<forall>ks. in_range sz (getFreeVars lhs) ks \<longrightarrow>
          exec T sz s \<rho> st (tensor_of lhs) (map int ks) =
          (if accumulates then st (tensor_of lhs) (map int ks) else 0) + f st (bind_vars \<rho> (getFreeVars lhs) ks)) \<and>
        (\<forall>c. (\<nexists>ks. in_range sz (getFreeVars lhs) ks \<and> c = map int ks) \<longrightarrow>
          exec T sz s \<rho> st (tensor_of lhs) c = st (tensor_of lhs) c) \<and>
        (\<forall>t < N. t \<noteq> tensor_of lhs \<longrightarrow> exec T sz s \<rho> st t = st t))"

lemma reductions_to_wheres_loops:
  "reductions_to_wheres s b = ok (s', b') \<Longrightarrow>
   reductions_to_wheres (foldr forall_stmt vs s) b = ok (foldr forall_stmt vs s', b')"
  by (induction vs) (simp_all add: forall_stmt_def bindB_def retB_def)

lemma makeConcreteNotation_assignment:
  "isReductionNotation (AssignmentNode lhs rhs opn) = ok True \<Longrightarrow>
   makeConcreteNotation (AssignmentNode lhs rhs opn) b =
   reductions_to_wheres (foldr forall_stmt (getFreeVars lhs) (remove_top_level_reductions lhs rhs opn)) b"
  by (simp add: makeConcreteNotation_def bindB_def liftB_def)

lemma same_effect_sym_refl:
  assumes "same_effect T sz N s' s"
  shows "agree_below N (exec T sz s' \<rho> st) (exec T sz s \<rho> st)"
  using assms by (simp add: same_effect_def)

lemma loop_writes_computes:
  assumes w: "\<And>\<rho> st. loop_writes (tensor_of lhs)
      (loops_writes sz [] (getFreeVars lhs) (\<lambda>\<rho> x. (if acc then x else 0) + f st \<rho>) \<rho>) st (exec T sz s \<rho> st)"
    and e: "same_effect T sz N s' s" and N: "tensor_of lhs < N"
  shows "computes T sz N lhs acc f s'"
  unfolding computes_def
proof (intro allI conjI impI)
  fix \<rho> st
  have a: "exec T sz s' \<rho> st t = exec T sz s \<rho> st t" if "t < N" for t
    using same_effect_sym_refl [OF e] that by (simp add: agree_below_def)
  let ?P = "loops_writes sz [] (getFreeVars lhs) (\<lambda>\<rho> x. (if acc then x else 0) + f st \<rho>) \<rho>" and ?st' = "exec T sz s \<rho> st"
  have P: "(c, g) \<in> ?P \<longleftrightarrow> (\<exists>ks. in_range sz (getFreeVars lhs) ks \<and> c = map int ks \<and>
      g = (\<lambda>x. (if acc then x else 0) + f st (bind_vars \<rho> (getFreeVars lhs) ks)))" for c g
    by (auto simp: loops_writes_def)
  have w1: "?st' (tensor_of lhs) c = g (st (tensor_of lhs) c)" if "(c, g) \<in> ?P" for c g
    using w [of st \<rho>] that unfolding loop_writes_def by blast
  have w2: "?st' (tensor_of lhs) c = st (tensor_of lhs) c" if "\<And>g. (c, g) \<notin> ?P" for c
    using w [of st \<rho>] that unfolding loop_writes_def by (metis (no_types, lifting) imageE prod.collapse)
  show "exec T sz s' \<rho> st (tensor_of lhs) (map int ks) =
      (if acc then st (tensor_of lhs) (map int ks) else 0) + f st (bind_vars \<rho> (getFreeVars lhs) ks)"
    if "in_range sz (getFreeVars lhs) ks" for ks
    unfolding a [OF N] by (rule w1) (use that in \<open>auto simp only: P\<close>)
  show "exec T sz s' \<rho> st (tensor_of lhs) c = st (tensor_of lhs) c"
    if "\<nexists>ks. in_range sz (getFreeVars lhs) ks \<and> c = map int ks" for c
    unfolding a [OF N] by (rule w2) (use that in \<open>auto simp only: P\<close>)
  show "exec T sz s' \<rho> st t = st t" if "t < N" "t \<noteq> tensor_of lhs" for t
    using loop_writes_off [OF w that(2)] a [OF that(1)] by simp
qed

text \<open>Whether the assignment of the concrete statement accumulates.\<close>

definition accumulates :: "IndexExpr \<Rightarrow> bool" where
  "accumulates e \<longleftrightarrow> fst (top_level_reductions e) \<noteq> []"

lemma plain_loops:
  assumes "assignable lhs rhs b" "summed rhs"
    and "set (fst (top_level_reductions rhs)) \<inter> set (getFreeVars lhs) = {}"
  shows "loop_writes (tensor_of lhs)
      (loops_writes sz [] (getFreeVars lhs) (\<lambda>\<rho> x. (if accumulates rhs then x else 0) + expr_value T sz st \<rho> rhs) \<rho>) st
      (exec T sz (foldr forall_stmt (getFreeVars lhs) (remove_top_level_reductions lhs rhs NoExpr)) \<rho> st)"
proof (rule free_loops [where ?st0.0 = st])
  fix \<rho> st'
  assume off: "st' t' = st t'" if "t' \<noteq> tensor_of lhs" for t'
  have c: "coords \<rho> lhs = map \<rho> ([] @ getFreeVars lhs)"
    using assms(1) by (simp add: assignable_def coords_plain getFreeVars_def)
  have n: "tensor_of lhs \<notin> tensor_of ` set (reads_of rhs)" using assms(1) by (simp add: assignable_def)
  have v: "expr_value T sz st' \<rho> rhs = expr_value T sz st \<rho> rhs" by (rule expr_value_off [OF n off])
  show "exec T sz (remove_top_level_reductions lhs rhs NoExpr) \<rho> st' =
      write_tensor (tensor_of lhs) (map \<rho> ([] @ getFreeVars lhs))
        ((if accumulates rhs then st' (tensor_of lhs) (map \<rho> ([] @ getFreeVars lhs)) else 0) + expr_value T sz st \<rho> rhs) st'"
  proof (cases "accumulates rhs")
    case True
    then have "exec T sz (remove_top_level_reductions lhs rhs NoExpr) \<rho> st' =
      write_tensor (tensor_of lhs) (coords \<rho> lhs) (st' (tensor_of lhs) (coords \<rho> lhs) + expr_value T sz st' \<rho> rhs) st'"
      using reduction_loops [OF assms(2) assms(3)[unfolded getFreeVars_def] n]
      by (simp add: accumulates_def remove_top_level_reductions_def split_beta Let_def)
    then show ?thesis using True v c by simp
  next
    case False
    then show ?thesis
      using v c by (simp add: accumulates_def remove_top_level_reductions_def split_beta assign_tensor_def Let_def)
  qed
qed (use assms in \<open>simp_all add: assignable_def getFreeVars_def\<close>)

lemma makeConcreteNotation_computes:
  assumes "isReductionNotation (AssignmentNode lhs rhs NoExpr) = ok True" "constructed rhs" "assignable lhs rhs b"
    and "summed rhs" "set (fst (top_level_reductions rhs)) \<inter> set (getFreeVars lhs) = {}"
  shows "\<exists>s b'. makeConcreteNotation (AssignmentNode lhs rhs NoExpr) b = ok (s, b') \<and>
    computes T sz (next_addr b) lhs (accumulates rhs) (\<lambda>st \<rho>. expr_value T sz st \<rho> rhs) s"
proof -
  obtain vs e opn where r: "remove_top_level_reductions lhs rhs NoExpr = foldr forall_stmt vs (AssignmentNode lhs e opn)"
      "constructed e" "reads_of e = reads_of rhs"
  proof (cases "accumulates rhs")
    case True
    then show thesis
      using that [of "fst (top_level_reductions rhs)" "snd (top_level_reductions rhs)" Add_op] assms(2)
      by (simp add: accumulates_def remove_top_level_reductions_def split_beta Let_def top_level_reductions_facts)
  next
    case False
    then show thesis
      using that [of "[]" rhs NoExpr] assms(2) by (simp add: accumulates_def remove_top_level_reductions_def split_beta)
  qed
  have "\<forall>x \<in> set (reads_of e). tensor_of x < next_addr b" "tensor_of lhs < next_addr b"
    using assms(3) r(3) by (simp_all add: assignable_def)
  then obtain s b' where s: "assignment_wheres (Suc (count_reductions e)) lhs e opn b = ok (s, b')"
      "same_effect T sz (next_addr b) s (AssignmentNode lhs e opn)"
    using assignment_wheres_total [OF r(2), of "Suc (count_reductions e)" b lhs opn T sz] by auto
  have m: "makeConcreteNotation (AssignmentNode lhs rhs NoExpr) b = ok (foldr forall_stmt (getFreeVars lhs) (foldr forall_stmt vs s), b')"
    unfolding makeConcreteNotation_assignment [OF assms(1)] r(1)
    by (intro reductions_to_wheres_loops) (simp add: s(1) del: assignment_wheres.simps)
  have "same_effect T sz (next_addr b) (foldr forall_stmt (getFreeVars lhs) (foldr forall_stmt vs s))
      (foldr forall_stmt (getFreeVars lhs) (remove_top_level_reductions lhs rhs NoExpr))"
    unfolding r(1) by (intro same_effect_foralls s(2))
  then have "computes T sz (next_addr b) lhs (accumulates rhs) (\<lambda>st \<rho>. expr_value T sz st \<rho> rhs)
      (foldr forall_stmt (getFreeVars lhs) (foldr forall_stmt vs s))"
    by (rule loop_writes_computes [OF plain_loops [OF assms(3,4,5)]]) (use assms(3) in \<open>simp add: assignable_def\<close>)
  then show ?thesis using m by blast
qed

text \<open>Loops around an assignment, and the tensors it mentions.\<close>

fun loop_nest :: "IndexStmt \<Rightarrow> bool" where
  "loop_nest (AssignmentNode lhs rhs opn) \<longleftrightarrow> constructed rhs"
| "loop_nest (ForallNode v s pu rs u) \<longleftrightarrow> loop_nest s"
| "loop_nest _ \<longleftrightarrow> False"

fun nest_tensors :: "IndexStmt \<Rightarrow> nat set" where
  "nest_tensors (AssignmentNode lhs rhs opn) = insert (tensor_of lhs) (tensor_of ` set (reads_of rhs))"
| "nest_tensors (ForallNode v s pu rs u) = nest_tensors s"
| "nest_tensors _ = {}"

text \<open>(C5) A loop nest is left with where statements in the place of reductions: rewriting returns, with a statement of
  the same effect that has no reductions.\<close>

theorem reductions_to_wheres_preserves:
  assumes "loop_nest s" "\<And>t. t \<in> nest_tensors s \<Longrightarrow> t < next_addr b"
  shows "\<exists>s' b'. reductions_to_wheres s b = ok (s', b') \<and> reduction_free s' \<and> same_effect T sz (next_addr b) s' s"
  using assms
proof (induction s)
  case (AssignmentNode lhs rhs opn)
  then show ?case
    using assignment_wheres_total [of rhs "Suc (count_reductions rhs)" b lhs opn T sz] by (auto simp del: assignment_wheres.simps)
next
  case (ForallNode v s pu rs u)
  then obtain s' b' where "reductions_to_wheres s b = ok (s', b')" "reduction_free s'" "same_effect T sz (next_addr b) s' s" by auto
  then show ?case by (auto simp: bindB_def retB_def intro: same_effect_forall)
qed simp_all

subsection \<open>Einsum notation\<close>

text \<open>The sum of \<open>f\<close> over the values of some variables.\<close>

fun sum_over :: "(IndexVar \<Rightarrow> nat) \<Rightarrow> IndexVar list \<Rightarrow> (env \<Rightarrow> int) \<Rightarrow> env \<Rightarrow> int" where
  "sum_over sz [] f \<rho> = f \<rho>"
| "sum_over sz (v # vs) f \<rho> = (\<Sum>k\<leftarrow>[0..<sz v]. sum_over sz vs f (\<rho>(v := int k)))"

text \<open>The variables of a term that are summed.\<close>

definition term_vars :: "IndexVar list \<Rightarrow> IndexExpr \<Rightarrow> IndexVar list" where
  "term_vars free e = [v \<leftarrow> unseen [] (access_vars (reads_of e)). v \<notin> set free]"

definition term_value :: "tensor_ops \<Rightarrow> (IndexVar \<Rightarrow> nat) \<Rightarrow> IndexVar list \<Rightarrow> tensors \<Rightarrow> env \<Rightarrow> IndexExpr \<Rightarrow> int" where
  "term_value T sz free st \<rho> e = sum_over sz (term_vars free e) (\<lambda>\<rho>. expr_value T sz st \<rho> e) \<rho>"

text \<open>Einsum notation sums each term over its own variables.\<close>

fun einsum_value :: "tensor_ops \<Rightarrow> (IndexVar \<Rightarrow> nat) \<Rightarrow> IndexVar list \<Rightarrow> tensors \<Rightarrow> env \<Rightarrow> IndexExpr \<Rightarrow> int" where
  "einsum_value T sz free st \<rho> (AddNode a b) = einsum_value T sz free st \<rho> a + einsum_value T sz free st \<rho> b"
| "einsum_value T sz free st \<rho> (SubNode a b) = einsum_value T sz free st \<rho> a - einsum_value T sz free st \<rho> b"
| "einsum_value T sz free st \<rho> e = term_value T sz free st \<rho> e"

fun add_free :: "IndexExpr \<Rightarrow> bool" where
  "add_free (AddNode a b) \<longleftrightarrow> False"
| "add_free (SubNode a b) \<longleftrightarrow> False"
| "add_free (NegNode e) \<longleftrightarrow> add_free e"
| "add_free (SqrtNode e) \<longleftrightarrow> add_free e"
| "add_free (MulNode a b) \<longleftrightarrow> add_free a \<and> add_free b"
| "add_free (DivNode a b) \<longleftrightarrow> add_free a \<and> add_free b"
| "add_free (CastNode t e) \<longleftrightarrow> add_free e"
| "add_free (CallIntrinsicNode f es) \<longleftrightarrow> list_all add_free es"
| "add_free (ReductionNode opn v e) \<longleftrightarrow> False"
| "add_free _ \<longleftrightarrow> True"

definition single_addition :: "IndexExpr \<Rightarrow> bool" where
  "single_addition e \<longleftrightarrow> add_free e \<or> (\<exists>a b. (e = AddNode a b \<or> e = SubNode a b) \<and> add_free a \<and> add_free b)"

lemma constructed_walkable: "constructed e \<Longrightarrow> walkable e"
  by (induction e rule: constructed.induct) (auto simp: list_all_iff)

lemma add_free_no_reductions: "add_free e \<Longrightarrow> count_reductions e = 0"
  by (induction e rule: add_free.induct) (auto simp: list_all_iff sum_list_eq_0_iff)

lemma reduce_terms_add_free: "add_free e \<Longrightarrow> reduce_terms reduced e = ok (e, True)"
proof (induction e rule: add_free.induct)
  case (8 f es)
  then have "mapR (reduce_terms reduced) es = ok (map (\<lambda>e. (e, True)) es)" by (induction es) auto
  then show ?case by (simp add: list_all_iff comp_def)
qed simp_all

lemma addReductions_sums:
  assumes "walkable e"
  shows "addReductions (\<lambda>v. ok (v \<notin> set free)) e = ok (foldr sum_expr (term_vars free e) e)"
proof -
  have "foldR (\<lambda>v e. ifR (ok (v \<notin> set free)) (ok (sum_expr v e)) (ok e)) (rev vs) e =
      ok (foldr sum_expr [v \<leftarrow> vs. v \<notin> set free] e)" for vs
    by (induction vs) (simp_all add: foldR_append)
  then show ?thesis using assms by (simp add: addReductions_def expr_getIndexVars_def term_vars_def)
qed

lemma sums_facts:
  "reads_of (foldr sum_expr vs e) = reads_of e" "walkable (foldr sum_expr vs e) = walkable e"
  "constructed (foldr sum_expr vs e) = constructed e" "getDataType (foldr sum_expr vs e) = getDataType e"
  "count_reductions (foldr sum_expr vs e) = length vs + count_reductions e"
  by (induction vs) (simp_all add: sum_expr_def)

lemma sums_top_level:
  "count_reductions e = 0 \<Longrightarrow> top_level_reductions (foldr sum_expr vs e) = (vs, e)"
  "count_reductions e = 0 \<Longrightarrow> summed (foldr sum_expr vs e)"
  by (induction vs) (cases e; simp add: sum_expr_def Add_op_def)+

lemma sums_value: "expr_value T sz st \<rho> (foldr sum_expr vs e) = sum_over sz vs (\<lambda>\<rho>. expr_value T sz st \<rho> e) \<rho>"
  by (induction vs arbitrary: \<rho>) (simp_all add: sum_expr_def apply_operator_def Add_op_def fold_add del: fun_upd_apply)

lemma sums_nonempty: "foldr sum_expr vs e \<noteq> NoExpr \<longleftrightarrow> vs \<noteq> [] \<or> e \<noteq> NoExpr"
  by (cases vs) (simp_all add: sum_expr_def)

lemma bound_walk_plain:
  "walkable e \<Longrightarrow> count_reductions e = 0 \<Longrightarrow>
   bound_walk bs e = ok (\<forall>a \<in> set (reads_of e). set (acc_indexVars a) \<subseteq> set bs)"
proof (induction e)
  case (CallIntrinsicNode f es)
  have e: "bound_walk bs e = ok (\<forall>a \<in> set (reads_of e). set (acc_indexVars a) \<subseteq> set bs)" if "e \<in> set es" for e
    using CallIntrinsicNode that by (auto simp: list_all_iff sum_list_eq_0_iff)
  have "foldR (\<lambda>e good. bothR (ok good) (bound_walk bs e)) es' g =
      ok (g \<and> (\<forall>e \<in> set es'. \<forall>a \<in> set (reads_of e). set (acc_indexVars a) \<subseteq> set bs))" if "set es' \<subseteq> set es" for es' g
    using that by (induction es' arbitrary: g) (auto simp: e bothR_def)
  then show ?case by simp
qed (auto simp: bothR_def)

lemma bound_walk_sums: "bound_walk bs (foldr sum_expr vs e) = bound_walk (rev vs @ bs) e"
  by (induction vs arbitrary: bs) (simp_all add: sum_expr_def)

lemma set_unseen: "set (unseen seen xs) = set xs - set seen"
  by (induction seen xs rule: unseen.induct) auto

lemma term_bound:
  assumes "walkable e" "count_reductions e = 0"
  shows "bound_walk free (foldr sum_expr (term_vars free e) e) = ok True"
  using assms by (auto simp: bound_walk_sums bound_walk_plain term_vars_def set_unseen access_vars_def)

lemma einsum_value_add_free: "add_free e \<Longrightarrow> einsum_value T sz free st \<rho> e = term_value T sz free st \<rho> e"
  by (cases e) simp_all

text \<open>Where a right-hand side has no addition or only one, outermost, its reductions are those of einsum notation.\<close>

lemma einsum_single:
  assumes "constructed e" "single_addition e"
  shows "\<exists>e'. einsum (\<lambda>v. ok (v \<notin> set free)) e = ok e' \<and> constructed e' \<and> reads_of e' = reads_of e \<and>
    bound_walk free e' = ok True \<and> summed e' \<and> set (fst (top_level_reductions e')) \<inter> set free = {} \<and>
    accumulates e' = (add_free e \<and> term_vars free e \<noteq> []) \<and>
    (\<forall>T sz st \<rho>. expr_value T sz st \<rho> e' = einsum_value T sz free st \<rho> e)"
proof -
  let ?s = "\<lambda>e. foldr sum_expr (term_vars free e) e"
  consider "add_free e" | a b where "e = AddNode a b" "add_free a" "add_free b" | a b where "e = SubNode a b" "add_free a" "add_free b"
    using assms(2) unfolding single_addition_def by blast
  moreover have "\<not> walkable NoExpr" by simp
  then have n: "x \<noteq> NoExpr" if "walkable x" for x using that by metis
  ultimately show ?thesis
  proof cases
    case 1
    then have "einsum (\<lambda>v. ok (v \<notin> set free)) e = ok (?s e)"
      by (simp add: einsum_def reduce_terms_add_free addReductions_sums constructed_walkable [OF assms(1)])
    moreover have "set (term_vars free e) \<inter> set free = {}" by (auto simp: term_vars_def)
    ultimately show ?thesis
      using 1 assms(1) add_free_no_reductions [OF 1]
      by (simp add: sums_facts sums_top_level term_bound constructed_walkable accumulates_def sums_value
          einsum_value_add_free term_value_def)
  next
    case 2
    then have w: "walkable a" "walkable b" using assms(1) constructed_walkable by auto
    then have "einsum (\<lambda>v. ok (v \<notin> set free)) e = ok (AddNode (?s a) (?s b))"
      using 2(1) by (simp add: einsum_def addReductions_sums)
    then show ?thesis
      using 2 assms(1) w n [OF w(1)] n [OF w(2)] add_free_no_reductions [OF 2(2)] add_free_no_reductions [OF 2(3)]
      by (simp add: sums_facts sums_nonempty [THEN iffD2] term_bound accumulates_def sums_value einsum_value_add_free term_value_def bothR_def)
  next
    case 3
    then have w: "walkable a" "walkable b" using assms(1) constructed_walkable by auto
    then have "einsum (\<lambda>v. ok (v \<notin> set free)) e = ok (SubNode (?s a) (?s b))"
      using 3(1) by (simp add: einsum_def addReductions_sums)
    then show ?thesis
      using 3 assms(1) w n [OF w(1)] n [OF w(2)] add_free_no_reductions [OF 3(2)] add_free_no_reductions [OF 3(3)]
      by (simp add: sums_facts sums_nonempty [THEN iffD2] term_bound accumulates_def sums_value einsum_value_add_free term_value_def bothR_def)
  qed
qed

lemma isValid_reads:
  assumes "walkable e" "walkable e'" "reads_of e' = reads_of e"
  shows "isValid lhs e' = isValid lhs e"
proof -
  have "match_accesses e' = match_accesses e" using assms by (auto simp: match_accesses_def)
  then have "dimensionsTypecheck r e' = dimensionsTypecheck r e" for r
    by (intro ext) (simp add: dimensionsTypecheck_def)
  then show ?thesis by (simp add: isValid_def)
qed

text \<open>(C4) Einsum notation, of products and of at most one addition or subtraction of products, is concretized, and its
  loops compute the sums of its terms, when the free variables of the result are distinct and plain, the result is not read by the right-hand side, and the
  temporaries come from addresses that are not in use.\<close>

theorem concretize_computes_einsum:
  assumes "isEinsumNotation (AssignmentNode lhs rhs NoExpr) = ok True" "constructed rhs" "single_addition rhs"
    and "assignable lhs rhs b"
  shows "\<exists>s b'. concretize (AssignmentNode lhs rhs NoExpr) b = ok (s, b') \<and>
    computes T sz (next_addr b) lhs (add_free rhs \<and> term_vars (getFreeVars lhs) rhs \<noteq> [])
      (\<lambda>st \<rho>. einsum_value T sz (getFreeVars lhs) st \<rho> rhs) s"
proof -
  obtain e where e: "einsum (\<lambda>v. ok (v \<notin> set (getFreeVars lhs))) rhs = ok e" "constructed e" "reads_of e = reads_of rhs"
      "bound_walk (getFreeVars lhs) e = ok True" "summed e" "set (fst (top_level_reductions e)) \<inter> set (getFreeVars lhs) = {}"
      "accumulates e = (add_free rhs \<and> term_vars (getFreeVars lhs) rhs \<noteq> [])"
      "\<And>T sz st \<rho>. expr_value T sz st \<rho> e = einsum_value T sz (getFreeVars lhs) st \<rho> rhs"
    using einsum_single [OF assms(2,3), of "getFreeVars lhs"] by blast
  have v: "isValid lhs rhs = ok True" using assms(1) by (auto simp: isEinsumNotation_def ifR_def res_simps split: if_splits)
  then have "isValid lhs e = ok True"
    using isValid_reads [of rhs e lhs] e(2,3) assms(2) constructed_walkable by metis
  then have r: "isReductionNotation (AssignmentNode lhs e NoExpr) = ok True" using e(4) by (simp add: isReductionNotation_def)
  have "assignable lhs e b" using assms(4) e(3) by (simp add: assignable_def)
  from makeConcreteNotation_computes [OF r e(2) this e(5,6), of T sz]
  obtain s b' where s: "makeConcreteNotation (AssignmentNode lhs e NoExpr) b = ok (s, b')"
      "computes T sz (next_addr b) lhs (accumulates e) (\<lambda>st \<rho>. expr_value T sz st \<rho> e) s" by blast
  have "makeReductionNotation (AssignmentNode lhs rhs NoExpr) = ok (AssignmentNode lhs e NoExpr)"
    using assms(1) e(1) by (simp add: makeReductionNotation_def)
  then have "concretize (AssignmentNode lhs rhs NoExpr) b = ok (s, b')"
    using assms(1) r s(1) by (simp add: concretize_def bindB_def liftB_def)
  then show ?thesis using s(2) e(7,8) by simp
qed

subsection \<open>The check for scheduled statements\<close>

lemma scheduled_access_bound:
  assumes "scheduled_access g bs a i = ok r"
  shows "r = (i \<and> set (acc_indexVars a) \<subseteq> set bs)"
proof -
  have "foldR (\<lambda>var i. if var \<in> set bs then ok i
         else bindR (if isFullyDerived g var then getUnderivedAncestors g var else getFullyDerivedDescendants g var) (\<lambda>related. ok False))
        vs i = ok r \<Longrightarrow> r = (i \<and> set vs \<subseteq> set bs)" for vs i
    by (induction vs arbitrary: i) (auto simp: res_simps split: if_splits)
  then show ?thesis using assms unfolding scheduled_access_def Let_def by blast
qed

lemma scheduled_walk_bound: "scheduled_walk g bs e i = ok r \<Longrightarrow> \<exists>r'. bound_walk bs e = ok r' \<and> r = (i \<and> r')"
proof (induction g bs e i arbitrary: r rule: scheduled_walk.induct)
  case (11 g bs f es i)
  have "foldR (scheduled_walk g bs) es' i = ok r \<Longrightarrow>
      \<exists>r'. foldR (\<lambda>e good. bothR (ok good) (bound_walk bs e)) es' j = ok (j \<and> r') \<and> r = (i \<and> r')"
    if "set es' \<subseteq> set es" for es' i j r
    using that
  proof (induction es' arbitrary: i j)
    case (Cons e es')
    then obtain r1 where e: "scheduled_walk g bs e i = ok r1" "foldR (scheduled_walk g bs) es' r1 = ok r"
      by (auto simp: res_simps)
    from e(1) "11.IH" Cons.prems(2) obtain r2 where b: "bound_walk bs e = ok r2" "r1 = (i \<and> r2)" by fastforce
    from Cons.IH [OF e(2), of "j \<and> r2"] Cons.prems(2) b show ?case by (auto simp: bothR_def)
  qed auto
  from this [OF subset_refl, of i r True] "11.prems" show ?case by simp
qed (fastforce simp: bothR_def res_simps dest: scheduled_access_bound)+

text \<open>Where the check for scheduled statements returns, it answers what the check for others does: the schedule does
  not change the answer.\<close>

theorem scheduled_check_ignores_schedule:
  assumes "isReductionNotationScheduled g s = ok r"
  shows "isReductionNotation s = ok r"
proof (cases s)
  case (AssignmentNode lhs rhs opn)
  with assms obtain v where v: "isValid lhs rhs = ok v" and w: "if v then scheduled_walk g (getFreeVars lhs) rhs True = ok r else r = False"
    by (auto simp: isReductionNotationScheduled_def ifR_def bindR_eq_Inr split: if_splits)
  show ?thesis
  proof (cases v)
    case True
    then show ?thesis using v w AssignmentNode scheduled_walk_bound [of g _ rhs True r]
      by (auto simp: isReductionNotation_def ifR_def)
  next
    case False
    then show ?thesis using v w AssignmentNode by (simp add: isReductionNotation_def ifR_def)
  qed
qed (use assms in \<open>simp_all add: isReductionNotationScheduled_def isReductionNotation_def\<close>)

end
