(* ===== verification/Concretize_Example.thy ===== *)
theory Concretize_Example
  imports Concretize_Correct
begin

text \<open>
  Concretization of \<open>y(i) = A(i,j) * x(j)\<close> and \<open>y(i) = A(i,j) * x(j) + b(i)\<close>, instances of the theorems; and the
  statements einsum notation accepts whose concrete statements do not compute the sums of their terms.
\<close>

subsection \<open>A matrix and vectors\<close>

definition nt_i :: IndexVar where "nt_i = IndexVar 1 ''i''"

definition nt_j :: IndexVar where "nt_j = IndexVar 2 ''j''"

definition nt_tensor :: "nat \<Rightarrow> string \<Rightarrow> nat list \<Rightarrow> TensorVar" where
  "nt_tensor k nm dims = \<lparr>tv_addr = k, tv_id = int k, tv_name = nm,
     tv_type = \<lparr>dtype = Float64, shape = map (\<lambda>d. \<lparr>dim_size = d, dim_indexVar = None\<rparr>) dims\<rparr>,
     tv_format = \<lparr>modeFormatPacks = [], modeOrdering = [], levelArrayTypes = []\<rparr>\<rparr>"

definition nt_access :: "nat \<Rightarrow> string \<Rightarrow> nat list \<Rightarrow> IndexVar list \<Rightarrow> Access" where
  "nt_access k nm dims vs = AccessNode_make (20 + k) (nt_tensor k nm dims) vs [] False"

definition nt_y :: Access where "nt_y = nt_access 10 ''y'' [3] [nt_i]"

definition nt_A :: IndexExpr where "nt_A = AccessNode (nt_access 11 ''A'' [3, 2] [nt_i, nt_j])"

definition nt_x :: IndexExpr where "nt_x = AccessNode (nt_access 12 ''x'' [2] [nt_j])"

definition nt_b :: IndexExpr where "nt_b = AccessNode (nt_access 13 ''b'' [3] [nt_i])"

definition nt_c :: IndexExpr where "nt_c = AccessNode (nt_access 14 ''c'' [3] [nt_i])"

lemmas nt_simps =
  nt_i_def nt_j_def nt_tensor_def nt_access_def nt_y_def nt_A_def nt_x_def nt_b_def nt_c_def AccessNode_make_def

definition nt_builder :: builder where
  "nt_builder = \<lparr>next_addr = 50, num_vars_cached = 0\<rparr>"

definition nt_sizes :: "IndexVar \<Rightarrow> nat" where
  "nt_sizes v = (if v = nt_i then 3 else 2)"

definition nt_ops :: tensor_ops where
  "nt_ops = \<lparr>to_literal = (\<lambda>_ _. 0), to_div = (\<lambda>x y. x div y), to_sqrt = id, to_cast = (\<lambda>_. id), to_call = (\<lambda>_ _. 0)\<rparr>"

lemma nt_einsum:
  "isEinsumNotation (AssignmentNode nt_y (MulNode nt_A nt_x) NoExpr) = ok True"
  "isEinsumNotation (AssignmentNode nt_y (AddNode (MulNode nt_A nt_x) nt_b) NoExpr) = ok True"
  "isEinsumNotation (AssignmentNode nt_y (AddNode (AddNode (MulNode nt_A nt_x) nt_b) nt_c) NoExpr) = ok True"
  by code_simp+

lemma nt_assignable:
  "assignable nt_y (MulNode nt_A nt_x) nt_builder"
  "assignable nt_y (AddNode (MulNode nt_A nt_x) nt_b) nt_builder"
  by (simp_all add: assignable_def nt_simps nt_builder_def)

lemma nt_constructed:
  "constructed (MulNode nt_A nt_x)" "constructed (AddNode (MulNode nt_A nt_x) nt_b)"
  by (simp_all add: nt_simps)

theorem concretize_computes_einsum_witness:
  "\<exists>s b'. concretize (AssignmentNode nt_y (AddNode (MulNode nt_A nt_x) nt_b) NoExpr) nt_builder = ok (s, b') \<and>
     computes nt_ops nt_sizes 50 nt_y False
       (\<lambda>st \<rho>. einsum_value nt_ops nt_sizes [nt_i] st \<rho> (AddNode (MulNode nt_A nt_x) nt_b)) s"
proof -
  have "single_addition (AddNode (MulNode nt_A nt_x) nt_b)" by (simp add: single_addition_def nt_simps)
  from concretize_computes_einsum [OF nt_einsum(2) nt_constructed(2) this nt_assignable(2), of nt_ops nt_sizes]
  show ?thesis by (simp add: getFreeVars_def nt_builder_def) (simp add: nt_simps)
qed

theorem reductions_to_wheres_preserves_witness:
  "\<exists>s' b'. reductions_to_wheres (AssignmentNode nt_y (AddNode (sum_expr nt_j (MulNode nt_A nt_x)) nt_b) NoExpr) nt_builder = ok (s', b') \<and>
     reduction_free s' \<and>
     same_effect nt_ops nt_sizes 50 s' (AssignmentNode nt_y (AddNode (sum_expr nt_j (MulNode nt_A nt_x)) nt_b) NoExpr)"
proof -
  let ?s = "AssignmentNode nt_y (AddNode (sum_expr nt_j (MulNode nt_A nt_x)) nt_b) NoExpr"
  have "loop_nest ?s" "\<And>t. t \<in> nest_tensors ?s \<Longrightarrow> t < next_addr nt_builder"
    by (auto simp: nt_simps sum_expr_def nt_builder_def)
  from reductions_to_wheres_preserves [OF this, of nt_ops nt_sizes] show ?thesis by (simp add: nt_builder_def)
qed

lemma nt_scheduled:
  "isReductionNotationScheduled empty_graph (AssignmentNode nt_y (sum_expr nt_j (MulNode nt_A nt_x)) NoExpr) = ok True"
  by code_simp

theorem scheduled_check_ignores_schedule_witness:
  "isReductionNotation (AssignmentNode nt_y (sum_expr nt_j (MulNode nt_A nt_x)) NoExpr) = ok True"
  by (rule scheduled_check_ignores_schedule [OF nt_scheduled])

subsection \<open>Statements with other results\<close>

text \<open>Ones everywhere but in the result.\<close>

definition nt_ones :: tensors where
  "nt_ones t c = (if t = 10 then 0 else 1)"

text \<open>What a statement leaves in the result, and whether its concrete statement passes the check.\<close>

definition nt_result :: "Access \<Rightarrow> IndexExpr \<Rightarrow> int list \<Rightarrow> (bool \<times> int) res" where
  "nt_result lhs rhs c =
     bindR (concretize (AssignmentNode lhs rhs NoExpr) nt_builder) (\<lambda>(s, b).
     bindR (isConcreteNotation s) (\<lambda>good. ok (good, exec nt_ops nt_sizes s (\<lambda>_. 0) nt_ones (tensor_of lhs) c)))"

text \<open>Of three terms the first two are one operand of the outermost addition: the reductions of the first run over
  the second, which is added once for every value of \<open>j\<close>.\<close>

lemma third_term_sums_second:
  "nt_result nt_y (AddNode (AddNode (MulNode nt_A nt_x) nt_b) nt_c) [0] = ok (True, 5)"
  "einsum_value nt_ops nt_sizes [nt_i] nt_ones (\<lambda>_. 0) (AddNode (AddNode (MulNode nt_A nt_x) nt_b) nt_c) = 4"
  by code_simp+

text \<open>An addition in the argument of a function is taken for the outermost one: its terms are reduced and the other
  arguments are not, whose variables stay unbound.\<close>

lemma addition_in_call:
  "isEinsumNotation (AssignmentNode nt_y (CallIntrinsicNode MaxIntrinsic [nt_A, AddNode nt_b nt_c]) NoExpr) = ok True"
  "makeReductionNotation (AssignmentNode nt_y (CallIntrinsicNode MaxIntrinsic [nt_A, AddNode nt_b nt_c]) NoExpr) =
     ok (AssignmentNode nt_y (CallIntrinsicNode MaxIntrinsic [nt_A, AddNode nt_b nt_c]) NoExpr)"
  "isReductionNotation (AssignmentNode nt_y (CallIntrinsicNode MaxIntrinsic [nt_A, AddNode nt_b nt_c]) NoExpr) = ok False"
  by code_simp+

text \<open>A result with a repeated variable gets a loop for either occurrence, and a reduction into it is accumulated once
  more for every value of the outer one.\<close>

lemma repeated_variable_accumulates:
  "nt_result (nt_access 10 ''D'' [3, 3] [nt_i, nt_i]) (MulNode nt_A nt_x) [0, 0] = ok (True, 6)"
  "einsum_value nt_ops nt_sizes [nt_i, nt_i] nt_ones (\<lambda>_. 0) (MulNode nt_A nt_x) = 2"
  by code_simp+

text \<open>The loops of the outermost reductions add, whatever the operator of the reduction is.\<close>

lemma outermost_reduction_adds:
  "nt_result nt_y (ReductionNode (SubNode NoExpr NoExpr) nt_j (MulNode nt_A nt_x)) [0] = ok (True, 2)"
  "expr_value nt_ops nt_sizes nt_ones (\<lambda>_. 0) (ReductionNode (SubNode NoExpr NoExpr) nt_j (MulNode nt_A nt_x)) = -2"
  by code_simp+


end
