(* ===== verification/Loop_Order.thy ===== *)
theory Loop_Order
  imports Notation "HOL-Library.Multiset"
begin

text \<open>
  The order of loops (src/index_notation/transformations.cpp): the order in which the levels of a tensor have to be
  visited, the dependences between variables that follow from it, and the topological sort.
\<close>

subsection \<open>Dependences between variables\<close>

text \<open>A variable with the level of a tensor it accesses; the flag tells whether the level has to be visited in
  order. The pairs of a tensor are a set, ordered by variable, level and flag. \<open>std::sort\<close> may exchange
  variables of one level; here they stay in the order of the set.\<close>

type_synonym level_var = "IndexVar \<times> int \<times> bool"

definition level_var_less :: "level_var \<Rightarrow> level_var \<Rightarrow> bool" where
  "level_var_less a b =
     (case (a, b) of ((v, l, e), (w, m, f)) \<Rightarrow>
        iv_addr v < iv_addr w \<or> v = w \<and> (l < m \<or> l = m \<and> \<not> e \<and> f))"

fun insert_level_var :: "level_var \<Rightarrow> level_var list \<Rightarrow> level_var list" where
  "insert_level_var x [] = [x]"
| "insert_level_var x (y # ys) =
     (if x = y then y # ys else if level_var_less x y then x # y # ys else y # insert_level_var x ys)"

definition varOrderFromTensorLevels :: "level_var list \<Rightarrow> (IndexVar \<times> bool) list" where
  "varOrderFromTensorLevels tensorLevelVars = map (\<lambda>(v, l, e). (v, e)) (sort_key (\<lambda>(v, l, e). l) tensorLevelVars)"

text \<open>The dependences of a variable. A variable without an entry has none.\<close>

type_synonym var_deps = "IndexVar \<Rightarrow> IndexVar list"

fun order_deps :: "(IndexVar \<times> bool) list \<Rightarrow> (IndexVar \<times> IndexVar) list" where
  "order_deps [] = []"
| "order_deps (first # rest) =
     map (\<lambda>second. (fst second, fst first)) [second \<leftarrow> rest. snd first \<or> snd second] @ order_deps rest"

definition add_dep :: "IndexVar \<times> IndexVar \<Rightarrow> var_deps \<Rightarrow> var_deps" where
  "add_dep d deps = deps(fst d := List.insert (snd d) (deps (fst d)))"

definition depsFromVarOrders :: "(string \<times> (IndexVar \<times> bool) list) list \<Rightarrow> var_deps" where
  "depsFromVarOrders varOrders = fold add_dep (concat (map (\<lambda>(tensor, varOrder). order_deps varOrder) varOrders)) (\<lambda>_. [])"

subsection \<open>Sorting\<close>

text \<open>The scan for a variable without hard dependences, the first with the fewest soft ones: its position and the
  number of its soft dependences. Those are a multiset.\<close>

fun scan_free :: "var_deps \<Rightarrow> var_deps \<Rightarrow> nat \<Rightarrow> (nat \<times> nat) option \<Rightarrow> IndexVar list \<Rightarrow> (nat \<times> nat) option" where
  "scan_free hard soft i best [] = best"
| "scan_free hard soft i best (v # vs) =
     scan_free hard soft (Suc i)
       (if hard v = [] \<and> (case best of None \<Rightarrow> True | Some (pos, minSoftDepsRemaining) \<Rightarrow> length (soft v) < minSoftDepsRemaining)
        then Some (i, length (soft v)) else best) vs"

text \<open>Neither kind of dependence on a variable that has been placed is kept.\<close>

definition forget_dep :: "IndexVar \<Rightarrow> var_deps \<Rightarrow> var_deps" where
  "forget_dep v deps = (\<lambda>u. removeAll v (deps u))"

lemma scan_free_bound:
  "scan_free hard soft i best vs = Some (p, n) \<Longrightarrow> best = Some (p, n) \<or> (i \<le> p \<and> p < i + length vs \<and> hard (vs ! (p - i)) = [])"
proof (induction vs arbitrary: i best)
  case (Cons v vs)
  from Cons.IH [OF Cons.prems [simplified]] show ?case
    by (auto simp: nth_Cons' split: if_splits)
qed simp

function topologicallySort :: "var_deps \<Rightarrow> var_deps \<Rightarrow> IndexVar list \<Rightarrow> IndexVar list res" where
  "topologicallySort hardDeps softDeps originalOrder =
     (if originalOrder = [] then ok []
      else case scan_free hardDeps softDeps 0 None originalOrder of
          None \<Rightarrow> err IAssert
        | Some (freeVarPos, n) \<Rightarrow>
            let freeVar = originalOrder ! freeVarPos in
            bindR (topologicallySort (forget_dep freeVar hardDeps) (forget_dep freeVar softDeps)
                     (take freeVarPos originalOrder @ drop (Suc freeVarPos) originalOrder)) (\<lambda>sortedVars.
              ok (freeVar # sortedVars)))"
  by pat_completeness auto
termination
  by (relation "measure (\<lambda>(h, s, vs). length vs)") (auto dest!: scan_free_bound)

declare topologicallySort.simps [simp del]

subsection \<open>Correctness\<close>

text \<open>An order in which the dependences of every variable come before it, those in \<open>placed\<close> aside.\<close>

fun in_order :: "var_deps \<Rightarrow> IndexVar set \<Rightarrow> IndexVar list \<Rightarrow> bool" where
  "in_order deps placed [] \<longleftrightarrow> True"
| "in_order deps placed (v # vs) \<longleftrightarrow> set (deps v) \<subseteq> placed \<and> in_order deps (insert v placed) vs"

lemma in_order_forget: "in_order (forget_dep v deps) placed vs = in_order deps (insert v placed) vs"
proof (induction vs arbitrary: placed)
  case (Cons u vs)
  then show ?case by (auto simp: forget_dep_def insert_commute)
qed simp

lemma take_drop_mset:
  assumes "p < length xs"
  shows "mset xs = add_mset (xs ! p) (mset (take p xs @ drop (Suc p) xs))"
proof -
  have "mset xs = mset (take p xs @ xs ! p # drop (Suc p) xs)" using id_take_nth_drop [OF assms] by simp
  then show ?thesis by simp
qed

lemma topologicallySort_step:
  assumes "originalOrder \<noteq> []" "topologicallySort hard soft originalOrder = ok vs"
  obtains p n us where "scan_free hard soft 0 None originalOrder = Some (p, n)" "p < length originalOrder"
    "hard (originalOrder ! p) = []" "vs = originalOrder ! p # us"
    "topologicallySort (forget_dep (originalOrder ! p) hard) (forget_dep (originalOrder ! p) soft)
       (take p originalOrder @ drop (Suc p) originalOrder) = ok us"
proof -
  from assms obtain p n where s: "scan_free hard soft 0 None originalOrder = Some (p, n)"
    by (subst (asm) topologicallySort.simps) (auto split: option.splits)
  with assms obtain us where "vs = originalOrder ! p # us"
      "topologicallySort (forget_dep (originalOrder ! p) hard) (forget_dep (originalOrder ! p) soft)
        (take p originalOrder @ drop (Suc p) originalOrder) = ok us"
    by (subst (asm) topologicallySort.simps) (auto simp: Let_def res_simps)
  then show thesis using that s scan_free_bound [OF s] by simp
qed

lemma topologicallySort_sound:
  "topologicallySort hard soft originalOrder = ok vs \<Longrightarrow> mset vs = mset originalOrder \<and> in_order hard {} vs"
proof (induction hard soft originalOrder arbitrary: vs rule: topologicallySort.induct)
  case (1 hard soft originalOrder)
  show ?case
  proof (cases "originalOrder = []")
    case True
    with 1(2) show ?thesis by (subst (asm) topologicallySort.simps) simp
  next
    case False
    from topologicallySort_step [OF False 1(2)] obtain p n us where s:
        "scan_free hard soft 0 None originalOrder = Some (p, n)" "p < length originalOrder"
        "hard (originalOrder ! p) = []" "vs = originalOrder ! p # us"
        "topologicallySort (forget_dep (originalOrder ! p) hard) (forget_dep (originalOrder ! p) soft)
           (take p originalOrder @ drop (Suc p) originalOrder) = ok us" .
    from 1(1) [OF False s(1) refl refl s(5)] show ?thesis
      using s(2,3,4) by (simp add: in_order_forget take_drop_mset [OF s(2)])
  qed
qed

lemma scan_free_finds:
  "best \<noteq> None \<or> (\<exists>v \<in> set vs. hard v = []) \<Longrightarrow> scan_free hard soft i best vs \<noteq> None"
proof (induction vs arbitrary: i best)
  case (Cons v vs)
  show ?case unfolding scan_free.simps by (rule Cons.IH) (use Cons.prems in \<open>auto split: option.splits\<close>)
qed simp

lemma in_order_mono: "in_order deps placed vs \<Longrightarrow> placed \<subseteq> placed' \<Longrightarrow> in_order deps placed' vs"
  by (induction vs arbitrary: placed placed') (auto, meson insert_mono)

lemma in_order_remove1: "in_order deps placed vs \<Longrightarrow> in_order deps (insert v placed) (remove1 v vs)"
proof (induction vs arbitrary: placed)
  case (Cons u vs)
  show ?case
  proof (cases "u = v")
    case False
    then show ?thesis using Cons.prems Cons.IH [of "insert u placed"] by (auto simp: insert_commute)
  qed (use Cons.prems in auto)
qed simp

lemma topologicallySort_complete:
  "mset us = mset originalOrder \<Longrightarrow> in_order hard {} us \<Longrightarrow> \<exists>vs. topologicallySort hard soft originalOrder = ok vs"
proof (induction hard soft originalOrder arbitrary: us rule: topologicallySort.induct)
  case (1 hard soft originalOrder)
  show ?case
  proof (cases "originalOrder = []")
    case True
    then show ?thesis by (subst topologicallySort.simps) simp
  next
    case False
    then obtain u us' where us: "us = u # us'" using 1(2) by (cases us) auto
    have "set us = set originalOrder" by (rule mset_eq_setD [OF 1(2)])
    then have "hard u = []" "u \<in> set originalOrder" using us 1(3) by auto
    then obtain p n where s: "scan_free hard soft 0 None originalOrder = Some (p, n)"
      using scan_free_finds [of None originalOrder hard soft 0] by auto
    then have p: "p < length originalOrder" using scan_free_bound [OF s] by simp
    let ?v = "originalOrder ! p"
    have "mset (remove1 ?v us) = mset (take p originalOrder @ drop (Suc p) originalOrder)"
      using 1(2) take_drop_mset [OF p] by simp
    moreover have "in_order (forget_dep ?v hard) {} (remove1 ?v us)"
      unfolding in_order_forget by (rule in_order_remove1 [OF 1(3)])
    ultimately obtain vs where "topologicallySort (forget_dep ?v hard) (forget_dep ?v soft)
        (take p originalOrder @ drop (Suc p) originalOrder) = ok vs"
      using 1(1) [OF False s refl refl] by blast
    then show ?thesis using False s by (subst topologicallySort.simps) (simp add: Let_def)
  qed
qed

lemma topologicallySort_err: "topologicallySort hard soft originalOrder = err e \<Longrightarrow> e = IAssert"
proof (induction hard soft originalOrder rule: topologicallySort.induct)
  case (1 hard soft originalOrder)
  show ?case
  proof (cases "scan_free hard soft 0 None originalOrder")
    case None
    then show ?thesis using 1(2) by (subst (asm) topologicallySort.simps) (simp split: if_splits)
  next
    case (Some a)
    obtain p n where a: "a = (p, n)" by fastforce
    show ?thesis
    proof (cases "originalOrder = []")
      case True
      then show ?thesis using 1(2) by (subst (asm) topologicallySort.simps) simp
    next
      case False
      then have "topologicallySort (forget_dep (originalOrder ! p) hard) (forget_dep (originalOrder ! p) soft)
          (take p originalOrder @ drop (Suc p) originalOrder) = err e"
        using 1(2) Some a by (subst (asm) topologicallySort.simps) (simp add: Let_def bindR_eq_Inl)
      then show ?thesis using 1(1) [OF False Some [unfolded a] refl refl] by simp
    qed
  qed
qed

text \<open>(C11) The sort fails exactly on cycles: it returns an order that respects the dependences where there is one.\<close>

theorem topologicallySort_correct:
  "(\<exists>vs. topologicallySort hard soft originalOrder = ok vs \<and> mset vs = mset originalOrder \<and> in_order hard {} vs) \<or>
   (topologicallySort hard soft originalOrder = err IAssert \<and> (\<forall>us. mset us = mset originalOrder \<longrightarrow> \<not> in_order hard {} us))"
proof (cases "topologicallySort hard soft originalOrder")
  case (Inl e)
  then have "e = IAssert" by (rule topologicallySort_err)
  then show ?thesis using Inl topologicallySort_complete by fastforce
next
  case (Inr vs)
  then show ?thesis using topologicallySort_sound by blast
qed

lemma in_order_split: "in_order deps placed (xs @ v # ys) \<Longrightarrow> set (deps v) \<subseteq> placed \<union> set xs"
  by (induction xs arbitrary: placed) auto

lemma self_dependence_fails:
  assumes "v \<in> set originalOrder" "v \<in> set (hard v)"
  shows "topologicallySort hard soft originalOrder = err IAssert"
proof -
  have "\<not> in_order hard {} us" if m: "mset us = mset originalOrder" for us
  proof
    assume o: "in_order hard {} us"
    have "v \<in> set us" using assms(1) mset_eq_setD [OF m] by simp
    then obtain xs ys where "us = xs @ v # ys" "v \<notin> set xs" by (metis split_list_first)
    then show False using in_order_split [of hard "{}" xs v ys] o assms(2) by auto
  qed
  then show ?thesis using topologicallySort_sound [of hard soft originalOrder] topologicallySort_err [of hard soft originalOrder]
    by (cases "topologicallySort hard soft originalOrder") auto
qed

text \<open>Loops in a legal order stay as they are when there are no soft dependences.\<close>

lemma topologicallySort_stable:
  "in_order hard {} vs \<Longrightarrow> (\<And>v. soft v = []) \<Longrightarrow> topologicallySort hard soft vs = ok vs"
proof (induction vs arbitrary: hard soft)
  case Nil
  then show ?case by (subst topologicallySort.simps) simp
next
  case (Cons v vs)
  have "scan_free hard soft i (Some (0, 0)) us = Some (0, 0)" for i us
    by (induction us arbitrary: i) simp_all
  then have "scan_free hard soft 0 None (v # vs) = Some (0, 0)" using Cons.prems by simp
  moreover have "topologicallySort (forget_dep v hard) (forget_dep v soft) vs = ok vs"
    using Cons.prems by (intro Cons.IH) (simp_all add: in_order_forget, simp_all add: forget_dep_def)
  ultimately show ?case by (subst topologicallySort.simps) simp
qed

text \<open>The dependences of an order: of two levels, one of which has to be visited in order, the second is after the
  first.\<close>

lemma order_deps_append: "set (order_deps ys) \<subseteq> set (order_deps (xs @ ys))"
  by (induction xs) auto

lemma order_deps_iff:
  "(v, u) \<in> set (order_deps order) \<longleftrightarrow>
   (\<exists>xs e ys f zs. order = xs @ (u, e) # ys @ (v, f) # zs \<and> (e \<or> f))" (is "_ \<longleftrightarrow> ?R order")
proof
  show "(v, u) \<in> set (order_deps order) \<Longrightarrow> ?R order"
  proof (induction order)
    case (Cons x order)
    then consider "(v, u) \<in> set (order_deps order)" | f where "(v, f) \<in> set order" "fst x = u" "snd x \<or> f" by auto
    then show ?case
    proof cases
      case 1
      then obtain xs e ys f zs where "order = xs @ (u, e) # ys @ (v, f) # zs" "e \<or> f" using Cons.IH by blast
      then have "x # order = (x # xs) @ (u, e) # ys @ (v, f) # zs \<and> (e \<or> f)" by simp
      then show ?thesis by blast
    next
      case 2
      then obtain ys zs where "order = ys @ (v, f) # zs" using split_list by metis
      with 2 have "x # order = [] @ (u, snd x) # ys @ (v, f) # zs \<and> (snd x \<or> f)" by (cases x) simp
      then show ?thesis by blast
    qed
  qed simp
  assume "?R order"
  then obtain xs e ys f zs where o: "order = xs @ (u, e) # ys @ (v, f) # zs" "e \<or> f" by blast
  have "(v, u) \<in> set (order_deps ((u, e) # ys @ (v, f) # zs))" using o(2) by force
  then show "(v, u) \<in> set (order_deps order)" unfolding o(1) using order_deps_append by blast
qed

lemma add_dep_iff: "u \<in> set (add_dep d deps v) \<longleftrightarrow> u \<in> set (deps v) \<or> d = (v, u)"
  by (cases d) (auto simp: add_dep_def)

lemma depsFromVarOrders_iff:
  "u \<in> set (depsFromVarOrders orders v) \<longleftrightarrow> (\<exists>order \<in> snd ` set orders. (v, u) \<in> set (order_deps order))"
proof -
  have "u \<in> set (fold add_dep ds deps v) \<longleftrightarrow> u \<in> set (deps v) \<or> (v, u) \<in> set ds" for ds deps
    by (induction ds arbitrary: deps) (auto simp: add_dep_iff)
  then show ?thesis by (simp add: depsFromVarOrders_def split_beta)
qed

end
