(* ===== verification/Notation_Queries.thy ===== *)
theory Notation_Queries
  imports Notation Iterators
begin

text \<open>
  Queries on statements (src/index_notation/index_notation.cpp): results, arguments and temporaries, the variables of
  a statement, and the variables of the generated code for its tensors. Accesses are compared as handles, which here is
  equality, addresses included. The statements inside a statement are defined; \<open>match\<close> does nothing on an
  undefined one.
\<close>

subsection \<open>Results, arguments, temporaries\<close>

fun result_assignments :: "IndexStmt \<Rightarrow> (Access \<times> IndexExpr) list" where
  "result_assignments (AssignmentNode lhs rhs opn) = [(lhs, opn)]"
| "result_assignments (ForallNode v s pu rs u) = result_assignments s"
| "result_assignments (WhereNode c p) = result_assignments c"
| "result_assignments (MultiNode s t) = result_assignments s @ result_assignments t"
| "result_assignments (SuchThatNode s rels) = result_assignments s"
| "result_assignments (SequenceNode d m) = result_assignments d"
| "result_assignments (AssembleNode q c) = result_assignments c"
| "result_assignments _ = []"

definition getResultAccesses :: "IndexStmt \<Rightarrow> (Access list \<times> Access list) res" where
  "getResultAccesses s =
     foldR (\<lambda>(lhs, opn) (result, reduced).
         assertR IAssert (lhs \<notin> set result)
           (ok (result @ [lhs], if expr_defined opn then List.insert lhs reduced else reduced)))
       (result_assignments s) ([], [])"

definition getResults :: "IndexStmt \<Rightarrow> TensorVar list res" where
  "getResults s =
     bindR (getResultAccesses s) (\<lambda>(accesses, _).
       foldR (\<lambda>access result.
           let tensor = acc_tensorVar access in
           assertR IAssert (tensor \<notin> set result) (ok (result @ [tensor]))) accesses [])"

text \<open>The flag tells that the next assignment is the first one.\<close>

fun temporaries_from :: "IndexStmt \<Rightarrow> bool \<Rightarrow> TensorVar list \<times> bool" where
  "temporaries_from (AssignmentNode lhs rhs opn) firstAssignment =
     (if firstAssignment then ([], False) else ([acc_tensorVar lhs], False))"
| "temporaries_from (ForallNode v s pu rs u) firstAssignment = temporaries_from s firstAssignment"
| "temporaries_from (SuchThatNode s rels) firstAssignment = temporaries_from s firstAssignment"
| "temporaries_from (SequenceNode d m) firstAssignment =
     (let (ts, f) = temporaries_from d firstAssignment;
          (us, f') = temporaries_from m (if firstAssignment then True else f) in (ts @ us, f'))"
| "temporaries_from (MultiNode s t) firstAssignment =
     (let (ts, f) = temporaries_from s firstAssignment;
          (us, f') = temporaries_from t (if firstAssignment then True else f) in (ts @ us, f'))"
| "temporaries_from (WhereNode c p) firstAssignment =
     (let (ts, f) = temporaries_from c firstAssignment; (us, f') = temporaries_from p f in (ts @ us, f'))"
| "temporaries_from (AssembleNode q c) firstAssignment =
     (let (ts, f) = temporaries_from c firstAssignment; (us, f') = temporaries_from q f in (ts @ us, f'))"
| "temporaries_from _ firstAssignment = ([], firstAssignment)"

definition getTemporaries :: "IndexStmt \<Rightarrow> TensorVar list" where
  "getTemporaries s = fst (temporaries_from s True)"

text \<open>The accesses of the right-hand sides, in the order of the visitor.\<close>

fun stmt_reads :: "IndexStmt \<Rightarrow> Access list" where
  "stmt_reads (AssignmentNode lhs rhs opn) = reads_of rhs"
| "stmt_reads (YieldNode vs e) = reads_of e"
| "stmt_reads (ForallNode v s pu rs u) = stmt_reads s"
| "stmt_reads (WhereNode c p) = stmt_reads p @ stmt_reads c"
| "stmt_reads (MultiNode s t) = stmt_reads s @ stmt_reads t"
| "stmt_reads (SuchThatNode s rels) = stmt_reads s"
| "stmt_reads (SequenceNode d m) = stmt_reads d @ stmt_reads m"
| "stmt_reads (AssembleNode q c) = stmt_reads q @ stmt_reads c"
| "stmt_reads NoStmt = []"

definition getArgumentAccesses :: "IndexStmt \<Rightarrow> Access list" where
  "getArgumentAccesses s = [a \<leftarrow> stmt_reads s. acc_tensorVar a \<notin> set (getTemporaries s)]"

text \<open>The tensors of the index sets of an access, by mode.\<close>

definition index_set_tensors :: "Access \<Rightarrow> TensorVar list res" where
  "index_set_tensors a =
     (if hasIndexSetModes a
      then mapR (\<lambda>i. getModeIndexSetTensor a (int i)) [i \<leftarrow> [0..<length (acc_indexVars a)]. isModeIndexSet a (int i)]
      else ok [])"

definition add_new :: "'a \<Rightarrow> 'a list \<Rightarrow> 'a list" where
  "add_new x xs = (if x \<in> set xs then xs else xs @ [x])"

definition getArguments :: "IndexStmt \<Rightarrow> TensorVar list res" where
  "getArguments s =
     foldR (\<lambda>a result. bindR (index_set_tensors a) (\<lambda>ts. ok (fold add_new (acc_tensorVar a # ts) result)))
       (getArgumentAccesses s) []"

definition getTensorVars :: "IndexStmt \<Rightarrow> TensorVar list res" where
  "getTensorVars s =
     bindR (getResults s) (\<lambda>results. bindR (getArguments s) (\<lambda>arguments.
       ok (results @ arguments @ getTemporaries s)))"

subsection \<open>Variables\<close>

fun stmt_var_uses :: "IndexStmt \<Rightarrow> IndexVar list" where
  "stmt_var_uses (AssignmentNode lhs rhs opn) = acc_indexVars lhs @ access_vars (reads_of rhs)"
| "stmt_var_uses (YieldNode vs e) = access_vars (reads_of e)"
| "stmt_var_uses (ForallNode v s pu rs u) = stmt_var_uses s"
| "stmt_var_uses (WhereNode c p) = stmt_var_uses p @ stmt_var_uses c"
| "stmt_var_uses (MultiNode s t) = stmt_var_uses s @ stmt_var_uses t"
| "stmt_var_uses (SuchThatNode s rels) = stmt_var_uses s"
| "stmt_var_uses (SequenceNode d m) = stmt_var_uses d @ stmt_var_uses m"
| "stmt_var_uses (AssembleNode q c) = stmt_var_uses q @ stmt_var_uses c"
| "stmt_var_uses NoStmt = []"

text \<open>The method \<open>IndexStmt::getIndexVars\<close>, of the variables in accesses.\<close>

definition stmt_getIndexVars :: "IndexStmt \<Rightarrow> IndexVar list" where
  "stmt_getIndexVars s = unseen [] (stmt_var_uses s)"

text \<open>The function \<open>getIndexVars\<close>, of the underived variables of foralls and accesses.\<close>

fun stmt_vars :: "IndexStmt \<Rightarrow> IndexVar list" where
  "stmt_vars (AssignmentNode lhs rhs opn) = acc_indexVars lhs @ access_vars (reads_of rhs)"
| "stmt_vars (YieldNode vs e) = access_vars (reads_of e)"
| "stmt_vars (ForallNode v s pu rs u) = v # stmt_vars s"
| "stmt_vars (WhereNode c p) = stmt_vars p @ stmt_vars c"
| "stmt_vars (MultiNode s t) = stmt_vars s @ stmt_vars t"
| "stmt_vars (SuchThatNode s rels) = stmt_vars s"
| "stmt_vars (SequenceNode d m) = stmt_vars d @ stmt_vars m"
| "stmt_vars (AssembleNode q c) = stmt_vars q @ stmt_vars c"
| "stmt_vars NoStmt = []"

definition getIndexVars_stmt :: "IndexStmt \<Rightarrow> IndexVar list res" where
  "getIndexVars_stmt s =
     bindR (ProvenanceGraph_make s) (\<lambda>g.
     bindR (concatR (getUnderivedAncestors g) (stmt_vars s)) (\<lambda>vars. ok (unseen [] vars)))"

text \<open>Reduction variables: those an assignment reads that are not free, and those in scope of the consumer. The
  foralls are in scope with their underived ancestors.\<close>

definition assignment_reductions :: "Access \<Rightarrow> IndexExpr \<Rightarrow> IndexVar list \<Rightarrow> IndexVar list \<Rightarrow> IndexVar list" where
  "assignment_reductions lhs rhs producerScopedVars consumerScopedVars =
     unseen (acc_indexVars lhs @ producerScopedVars) (access_vars (reads_of rhs) @ consumerScopedVars)"

fun reduction_vars ::
    "ProvenanceGraph \<Rightarrow> IndexVar list \<Rightarrow> IndexVar list \<Rightarrow> IndexVar list \<Rightarrow> IndexStmt \<Rightarrow> IndexVar list res" where
  "reduction_vars g scoped producer consumer (AssignmentNode lhs rhs opn) = ok (assignment_reductions lhs rhs producer consumer)"
| "reduction_vars g scoped producer consumer (ForallNode v s pu rs u) =
     bindR (getUnderivedAncestors g v) (\<lambda>indexVars. reduction_vars g (scoped @ indexVars) producer consumer s)"
| "reduction_vars g scoped producer consumer (WhereNode c p) =
     bindR (reduction_vars g scoped scoped consumer p) (\<lambda>vs.
     bindR (reduction_vars g scoped producer scoped c) (\<lambda>ws. ok (vs @ ws)))"
| "reduction_vars g scoped producer consumer (MultiNode s t) =
     bindR (reduction_vars g scoped producer consumer s) (\<lambda>vs.
     bindR (reduction_vars g scoped producer consumer t) (\<lambda>ws. ok (vs @ ws)))"
| "reduction_vars g scoped producer consumer (SuchThatNode s rels) = reduction_vars g scoped producer consumer s"
| "reduction_vars g scoped producer consumer (SequenceNode d m) =
     bindR (reduction_vars g scoped producer consumer d) (\<lambda>vs.
     bindR (reduction_vars g scoped producer consumer m) (\<lambda>ws. ok (vs @ ws)))"
| "reduction_vars g scoped producer consumer (AssembleNode q c) =
     bindR (reduction_vars g scoped producer consumer q) (\<lambda>vs.
     bindR (reduction_vars g scoped producer consumer c) (\<lambda>ws. ok (vs @ ws)))"
| "reduction_vars g scoped producer consumer _ = ok []"

definition stmt_getReductionVars :: "IndexStmt \<Rightarrow> IndexVar list res" where
  "stmt_getReductionVars s = bindR (ProvenanceGraph_make s) (\<lambda>g. reduction_vars g [] [] [] s)"

subsection \<open>Variables of the generated code\<close>

type_synonym tensor_vars = "TensorVar \<Rightarrow> expr option"

text \<open>\<open>map::insert\<close> keeps the entry that is there.\<close>

definition insert_var :: "TensorVar \<Rightarrow> expr \<Rightarrow> tensor_vars \<Rightarrow> tensor_vars" where
  "insert_var t e m = (if m t = None then m(t \<mapsto> e) else m)"

definition tensor_irvar :: "TensorVar \<Rightarrow> bool \<Rightarrow> expr build" where
  "tensor_irvar t isParameter =
     bindB fresh (\<lambda>addr. retB (Var_make addr (tv_name t) (dtype (tv_type t)) True True isParameter))"

fun createVars :: "TensorVar list \<Rightarrow> tensor_vars \<Rightarrow> bool \<Rightarrow> (expr list \<times> tensor_vars) build" where
  "createVars [] m isParameter = retB ([], m)"
| "createVars (t # ts) m isParameter =
     bindB (tensor_irvar t isParameter) (\<lambda>e.
     bindB (createVars ts (insert_var t e m) isParameter) (\<lambda>(es, m). retB (e # es, m)))"

text \<open>A variable for the tensor of an index set is made only if there is none.\<close>

definition index_set_var :: "TensorVar \<Rightarrow> tensor_vars \<Rightarrow> tensor_vars build" where
  "index_set_var t m =
     (if m t = None then bindB (tensor_irvar t True) (\<lambda>e. retB (m(t \<mapsto> e))) else retB m)"

definition createIRTensorVars :: "IndexStmt \<Rightarrow> tensor_vars build" where
  "createIRTensorVars s =
     bindB (liftB (getResults s)) (\<lambda>results. bindB (liftB (getArguments s)) (\<lambda>arguments.
     bindB (liftB (bindR (getResultAccesses s) (\<lambda>(accesses, _). concatR index_set_tensors accesses))) (\<lambda>sets.
     bindB (foldB index_set_var sets (\<lambda>_. None)) (\<lambda>tensorVars.
     bindB (createVars results (\<lambda>_. None) False) (\<lambda>(_, resultVars).
       let tensorVars = (\<lambda>t. case tensorVars t of Some e \<Rightarrow> Some e | None \<Rightarrow> resultVars t) in
     bindB (createVars arguments tensorVars False) (\<lambda>(_, tensorVars).
     bindB (createVars (getTemporaries s) tensorVars False) (\<lambda>(_, tensorVars). retB tensorVars)))))))"

text \<open>The iterators of a statement with the variables of its own tensors.\<close>

definition Iterators_of :: "string \<Rightarrow> IndexStmt \<Rightarrow> Iterators build" where
  "Iterators_of defaultName s = bindB (createIRTensorVars s) (Iterators_make defaultName s)"

end
