(* ===== verification/Transformations.thy ===== *)
theory Transformations
  imports Loop_Order Notation_Queries Merge_Lattice
begin

text \<open>
  Schedule transformations (src/index_notation/transformations.cpp, and the commands of \<open>IndexStmt\<close> in
  src/index_notation/index_notation.cpp). A transformation that does not apply answers the undefined statement; the text
  of the reason is left out.
\<close>

subsection \<open>Replacing nested loops\<close>

definition is_forall :: "IndexStmt \<Rightarrow> bool" where
  "is_forall s = (case s of ForallNode _ _ _ _ _ \<Rightarrow> True | _ \<Rightarrow> False)"

text \<open>The rewriter counts the loops of the pattern it has met; \<open>-1\<close> stands for a mismatch, after which its answers
  are not used. The loops that are put in have no annotations.\<close>

fun forall_replace :: "IndexVar list \<Rightarrow> IndexVar list \<Rightarrow> IndexStmt \<Rightarrow> int \<Rightarrow> IndexStmt \<times> int" where
  "forall_replace pattern replacement (ForallNode v s pu rs u) elementsMatched =
     (if elementsMatched = -1 then (NoStmt, elementsMatched)
      else if elementsMatched \<ge> int (length pattern)
        then (let (s', m) = forall_replace pattern replacement s elementsMatched in (ForallNode v s' pu rs u, m))
      else if v = pattern ! nat elementsMatched
        then (if elementsMatched + 1 < int (length pattern) \<and> \<not> is_forall s then (NoStmt, -1)
              else (let (s', m) = forall_replace pattern replacement s (elementsMatched + 1) in
                    (if elementsMatched = 0 then foldr forall_stmt replacement s' else s', m)))
      else if elementsMatched > 0 then (NoStmt, -1)
      else (let (s', m) = forall_replace pattern replacement s elementsMatched in (ForallNode v s' pu rs u, m)))"
| "forall_replace pattern replacement (WhereNode c p) elementsMatched =
     (let (p', m) = forall_replace pattern replacement p elementsMatched;
          (c', m') = forall_replace pattern replacement c m in (WhereNode c' p', m'))"
| "forall_replace pattern replacement (MultiNode s t) elementsMatched =
     (let (s', m) = forall_replace pattern replacement s elementsMatched;
          (t', m') = forall_replace pattern replacement t m in (MultiNode s' t', m'))"
| "forall_replace pattern replacement (SuchThatNode s rels) elementsMatched =
     (let (s', m) = forall_replace pattern replacement s elementsMatched in (SuchThatNode s' rels, m))"
| "forall_replace pattern replacement (SequenceNode d m) elementsMatched =
     (let (d', n) = forall_replace pattern replacement d elementsMatched;
          (m', n') = forall_replace pattern replacement m n in (SequenceNode d' m', n'))"
| "forall_replace pattern replacement (AssembleNode q c) elementsMatched =
     (let (q', m) = forall_replace pattern replacement q elementsMatched;
          (c', m') = forall_replace pattern replacement c m in (AssembleNode q' c', m'))"
| "forall_replace pattern replacement s elementsMatched = (s, elementsMatched)"

text \<open>Nothing was replaced when no loop of the pattern was met.\<close>

definition apply_ForAllReplace :: "IndexVar list \<Rightarrow> IndexVar list \<Rightarrow> IndexStmt \<Rightarrow> IndexStmt res" where
  "apply_ForAllReplace pattern replacement s =
     assertR IAssert (pattern \<noteq> []) (
     ifR (notR (isConcreteNotation s)) (ok NoStmt)
       (let (s', elementsMatched) = forall_replace pattern replacement s 0 in
        ok (if elementsMatched = 0 \<or> elementsMatched = -1 then NoStmt else s')))"

subsection \<open>Reordering\<close>

text \<open>The scan for the loops of the pattern: whether it has begun, their current order, and whether another loop is
  between them.\<close>

definition reorder_scan :: "IndexVar list \<Rightarrow> IndexVar \<Rightarrow> IndexVar list \<times> bool \<Rightarrow> IndexVar list \<times> bool" where
  "reorder_scan pattern v st =
     (case st of (currentOrdering, matchFailed) \<Rightarrow>
        if v \<in> set pattern then (currentOrdering @ [v], matchFailed)
        else (currentOrdering,
              matchFailed \<or> currentOrdering \<noteq> [] \<and> length currentOrdering \<noteq> length pattern))"

text \<open>\<open>Reorder(i, j)\<close> exchanges the two loops when they are in the order given.\<close>

definition apply_Reorder :: "IndexVar list \<Rightarrow> bool \<Rightarrow> IndexStmt \<Rightarrow> IndexStmt res" where
  "apply_Reorder replacePattern pattern_ordered s =
     ifR (notR (isConcreteNotation s)) (ok NoStmt)
       (let (currentOrdering, matchFailed) = fold (reorder_scan replacePattern) (forall_vars s) ([], False) in
        bindR (if \<not> pattern_ordered \<and> currentOrdering = replacePattern
               then assertR IAssert (length replacePattern = 2) (ok [replacePattern ! 1, replacePattern ! 0])
               else ok replacePattern) (\<lambda>replacePattern.
        if matchFailed \<or> length currentOrdering \<noteq> length replacePattern then ok NoStmt
        else apply_ForAllReplace currentOrdering replacePattern s))"

subsection \<open>Predicates\<close>

definition apply_AddSuchThatPredicates :: "IndexVarRel list \<Rightarrow> IndexStmt \<Rightarrow> IndexStmt res" where
  "apply_AddSuchThatPredicates predicates s =
     assertR IAssert (predicates \<noteq> []) (
     ifR (notR (isConcreteNotation s)) (ok NoStmt)
       (ok (case s of SuchThatNode s' predicate \<Rightarrow> SuchThatNode s' (predicate @ predicates)
            | _ \<Rightarrow> SuchThatNode s predicates)))"

subsection \<open>Commands\<close>

text \<open>A command fails where its transformation does not apply.\<close>

definition defined_or_error :: "IndexStmt \<Rightarrow> IndexStmt res" where
  "defined_or_error s = assertR UError (stmt_defined s) (ok s)"

definition derive_loops :: "IndexVarRel \<Rightarrow> IndexVar list \<Rightarrow> IndexVar list \<Rightarrow> IndexStmt \<Rightarrow> IndexStmt res" where
  "derive_loops rel pattern replacement s =
     bindR (bindR (apply_AddSuchThatPredicates [rel] s) defined_or_error) (\<lambda>s.
     bindR (apply_ForAllReplace pattern replacement s) defined_or_error)"

definition stmt_split :: "IndexVar \<Rightarrow> IndexVar \<Rightarrow> IndexVar \<Rightarrow> nat \<Rightarrow> IndexStmt \<Rightarrow> IndexStmt res" where
  "stmt_split i i1 i2 splitFactor = derive_loops (SplitRel i i1 i2 splitFactor) [i] [i1, i2]"

definition stmt_divide :: "IndexVar \<Rightarrow> IndexVar \<Rightarrow> IndexVar \<Rightarrow> nat \<Rightarrow> IndexStmt \<Rightarrow> IndexStmt res" where
  "stmt_divide i i1 i2 splitFactor = derive_loops (DivideRel i i1 i2 splitFactor) [i] [i1, i2]"

definition stmt_fuse :: "IndexVar \<Rightarrow> IndexVar \<Rightarrow> IndexVar \<Rightarrow> IndexStmt \<Rightarrow> IndexStmt res" where
  "stmt_fuse i j f = derive_loops (FuseRel i j f) [i, j] [f]"

definition stmt_bound :: "IndexVar \<Rightarrow> IndexVar \<Rightarrow> nat \<Rightarrow> BoundType \<Rightarrow> IndexStmt \<Rightarrow> IndexStmt res" where
  "stmt_bound i i1 bound bound_type = derive_loops (BoundRel i i1 bound bound_type) [i] [i1]"

definition stmt_reorder2 :: "IndexVar \<Rightarrow> IndexVar \<Rightarrow> IndexStmt \<Rightarrow> IndexStmt res" where
  "stmt_reorder2 i j s = bindR (apply_Reorder [i, j] False s) defined_or_error"

definition stmt_reorder :: "IndexVar list \<Rightarrow> IndexStmt \<Rightarrow> IndexStmt res" where
  "stmt_reorder reorderedvars s = bindR (apply_Reorder reorderedvars True s) defined_or_error"

text \<open>The position of a variable among those of an access, the number of those if it is none.\<close>

fun mode_index :: "IndexVar \<Rightarrow> IndexVar list \<Rightarrow> nat" where
  "mode_index v [] = 0"
| "mode_index v (u # us) = (if u = v then 0 else Suc (mode_index v us))"

definition stmt_pos :: "IndexVar \<Rightarrow> IndexVar \<Rightarrow> Access \<Rightarrow> IndexStmt \<Rightarrow> IndexStmt res" where
  "stmt_pos i ipos access s =
     assertR UError (\<exists>a \<in> set (getArgumentAccesses s).
         acc_tensorVar a = acc_tensorVar access \<and> acc_indexVars a = acc_indexVars access) (
     bindR (ProvenanceGraph_make s) (\<lambda>g. bindR (getUnderivedAncestors g i) (\<lambda>ancestors.
       let max_mode = fold (\<lambda>v m. max (mode_index v (acc_indexVars access)) m) ancestors 0;
           format = tv_format (acc_tensorVar access) in
       assertR UError (max_mode < length (acc_indexVars access)) (
       bindR (nth_mode (modeOrdering format) (Suc max_mode)) (\<lambda>mode.
       bindR (at_index (getModeFormats format) mode) (\<lambda>modeFormat.
       assertR UError (\<not> mode_format_eq modeFormat Dense)
         (derive_loops (PosRel i ipos access) [i] [ipos] s)))))))"

fun stmt_unroll :: "IndexVar \<Rightarrow> nat \<Rightarrow> IndexStmt \<Rightarrow> IndexStmt" where
  "stmt_unroll i unrollFactor (ForallNode v s pu rs u) =
     ForallNode v (stmt_unroll i unrollFactor s) pu rs (if v = i then unrollFactor else u)"
| "stmt_unroll i unrollFactor (WhereNode c p) = WhereNode (stmt_unroll i unrollFactor c) (stmt_unroll i unrollFactor p)"
| "stmt_unroll i unrollFactor (MultiNode s t) = MultiNode (stmt_unroll i unrollFactor s) (stmt_unroll i unrollFactor t)"
| "stmt_unroll i unrollFactor (SuchThatNode s rels) = SuchThatNode (stmt_unroll i unrollFactor s) rels"
| "stmt_unroll i unrollFactor (SequenceNode d m) = SequenceNode (stmt_unroll i unrollFactor d) (stmt_unroll i unrollFactor m)"
| "stmt_unroll i unrollFactor (AssembleNode q c) = AssembleNode (stmt_unroll i unrollFactor q) (stmt_unroll i unrollFactor c)"
| "stmt_unroll i unrollFactor s = s"

subsection \<open>Reordering topologically\<close>

text \<open>What is collected of the outermost nest of loops: the levels each tensor is accessed at, by the name of the
  tensor, the annotations of the loops, their order, and the statement inside.\<close>

record dag_builder =
  tensorLevelVars :: "string \<Rightarrow> level_var list option"
  dag_tensors :: "string list"
  innerBody :: IndexStmt
  forallParallelUnit :: "IndexVar \<Rightarrow> ParallelUnit option"
  forallOutputRaceStrategy :: "IndexVar \<Rightarrow> OutputRaceStrategy option"
  indexVarOriginalOrder :: "IndexVar list"

definition dag_start :: dag_builder where
  "dag_start = \<lparr>tensorLevelVars = (\<lambda>_. None), dag_tensors = [], innerBody = NoStmt, forallParallelUnit = (\<lambda>_. None),
     forallOutputRaceStrategy = (\<lambda>_. None), indexVarOriginalOrder = []\<rparr>"

definition iterator_tensor_name :: "Iterator \<Rightarrow> string res" where
  "iterator_tensor_name it =
     bindR (it_getTensor it) (\<lambda>e. case e of
         Some (Var _ nm _ _ _ _) \<Rightarrow> ok nm
       | None \<Rightarrow> err BadMemory
       | _ \<Rightarrow> err IAssert)"

definition iterator_mode_level :: "Iterator \<Rightarrow> int res" where
  "iterator_mode_level = guarded (\<lambda>c. case ic_mode c of None \<Rightarrow> err BadMemory | Some m \<Rightarrow> ok (int (m_level m)))"

definition add_level :: "IndexVar \<Rightarrow> Iterator \<times> bool \<Rightarrow> dag_builder \<Rightarrow> dag_builder res" where
  "add_level i p d =
     bindR (iterator_mode_level (fst p)) (\<lambda>level. bindR (iterator_tensor_name (fst p)) (\<lambda>tensor.
       ok (case tensorLevelVars d tensor of
             Some lvs \<Rightarrow> d\<lparr>tensorLevelVars := (tensorLevelVars d)(tensor \<mapsto> insert_level_var (i, level, snd p) lvs)\<rparr>
           | None \<Rightarrow> d\<lparr>tensorLevelVars := (tensorLevelVars d)(tensor \<mapsto> [(i, level, snd p)]),
                       dag_tensors := dag_tensors d @ [tensor]\<rparr>)))"

text \<open>The iterators a loop depends on, with whether they enforce an order.\<close>

definition dep_iterators :: "MergeLattice \<Rightarrow> (Iterator \<times> bool) list res" where
  "dep_iterators lattice =
     bindR (at_index lattice 0) (\<lambda>point.
     bindR (filterR (\<lambda>it. notR (isDimensionIterator it)) (mp_iterators point)) (\<lambda>its.
     bindR (lattice_results lattice) (\<lambda>results.
     bindR (mapR (\<lambda>it. bindR (it_hasInsert it) (\<lambda>b. ok (it, \<not> b))) results) (\<lambda>ress.
       ok (map (\<lambda>it. (it, True)) its @ map (\<lambda>it. (it, False)) (mp_locators point) @ ress)))))"

definition dag_loop :: "IndexVar \<Rightarrow> ParallelUnit \<Rightarrow> OutputRaceStrategy \<Rightarrow> MergeLattice \<Rightarrow> dag_builder \<Rightarrow> dag_builder res" where
  "dag_loop i pu rs lattice d =
     bindR (dep_iterators lattice) (\<lambda>ps.
       foldR (add_level i) ps
         (d\<lparr>indexVarOriginalOrder := indexVarOriginalOrder d @ [i],
            forallParallelUnit := (forallParallelUnit d)(i \<mapsto> pu),
            forallOutputRaceStrategy := (forallOutputRaceStrategy d)(i \<mapsto> rs)\<rparr>))"

fun dag_visit :: "fpu \<Rightarrow> Iterators \<Rightarrow> IndexStmt \<Rightarrow> dag_builder \<Rightarrow> dag_builder build" where
  "dag_visit F its (ForallNode i s pu rs u) d =
     bindB (MergeLattice_make F (ForallNode i s pu rs u) its empty_graph [] (\<lambda>_. None)) (\<lambda>lattice.
     bindB (liftB (dag_loop i pu rs lattice d)) (\<lambda>d.
       if is_forall s then dag_visit F its s d else retB (d\<lparr>innerBody := s\<rparr>)))"
| "dag_visit F its (WhereNode c p) d = bindB (dag_visit F its p d) (dag_visit F its c)"
| "dag_visit F its (MultiNode s t) d = bindB (dag_visit F its s d) (dag_visit F its t)"
| "dag_visit F its (SuchThatNode s rels) d = dag_visit F its s d"
| "dag_visit F its (SequenceNode s m) d = bindB (dag_visit F its s d) (dag_visit F its m)"
| "dag_visit F its (AssembleNode q c) d = bindB (dag_visit F its q d) (dag_visit F its c)"
| "dag_visit F its s d = retB d"

text \<open>The variables of consecutive levels of each access, destination first. \<open>nth_mode\<close> counts levels from one.\<close>

definition access_soft_deps :: "Access \<Rightarrow> (IndexVar \<times> IndexVar) list res" where
  "access_soft_deps a =
     mapR (\<lambda>i. bindR (nth_mode (modeOrdering (tv_format (acc_tensorVar a))) i) (\<lambda>src.
               bindR (nth_mode (modeOrdering (tv_format (acc_tensorVar a))) (Suc i)) (\<lambda>dst.
               bindR (at_index (acc_indexVars a) src) (\<lambda>srcVar. bindR (at_index (acc_indexVars a) dst) (\<lambda>dstVar.
                 ok (dstVar, srcVar))))))
       [1..<getOrder_tv (acc_tensorVar a)]"

fun soft_accesses :: "IndexStmt \<Rightarrow> Access list" where
  "soft_accesses (AssignmentNode lhs rhs opn) = lhs # reads_of rhs"
| "soft_accesses (YieldNode vs e) = reads_of e"
| "soft_accesses (ForallNode v s pu rs u) = soft_accesses s"
| "soft_accesses (WhereNode c p) = soft_accesses p @ soft_accesses c"
| "soft_accesses (MultiNode s t) = soft_accesses s @ soft_accesses t"
| "soft_accesses (SuchThatNode s rels) = soft_accesses s"
| "soft_accesses (SequenceNode d m) = soft_accesses d @ soft_accesses m"
| "soft_accesses (AssembleNode q c) = soft_accesses q @ soft_accesses c"
| "soft_accesses NoStmt = []"

definition collect_soft_deps :: "IndexStmt \<Rightarrow> var_deps res" where
  "collect_soft_deps s =
     bindR (concatR access_soft_deps (soft_accesses s)) (\<lambda>ds.
       ok (fold (\<lambda>(dst, src) deps. deps(dst := src # deps dst)) ds (\<lambda>_. [])))"

text \<open>The loops in their new order. All of them get the unroll factor of the loop that was outermost.\<close>

definition sorted_loops :: "IndexVar list \<Rightarrow> dag_builder \<Rightarrow> nat \<Rightarrow> IndexStmt res" where
  "sorted_loops sortedVars d unrollFactor =
     foldR (\<lambda>v s. case (forallParallelUnit d v, forallOutputRaceStrategy d v) of
                (Some pu, Some rs) \<Rightarrow> ok (ForallNode v s pu rs unrollFactor)
              | _ \<Rightarrow> err OutOfRange) (rev sortedVars) (innerBody d)"

fun topo_reorder :: "IndexVar list \<Rightarrow> dag_builder \<Rightarrow> IndexStmt \<Rightarrow> IndexStmt res" where
  "topo_reorder sortedVars d (ForallNode i s pu rs u) =
     assertR IAssert (i \<in> set sortedVars) (sorted_loops sortedVars d u)"
| "topo_reorder sortedVars d (WhereNode c p) =
     bindR (topo_reorder sortedVars d p) (\<lambda>p. bindR (topo_reorder sortedVars d c) (\<lambda>c. ok (WhereNode c p)))"
| "topo_reorder sortedVars d (MultiNode s t) =
     bindR (topo_reorder sortedVars d s) (\<lambda>s. bindR (topo_reorder sortedVars d t) (\<lambda>t. ok (MultiNode s t)))"
| "topo_reorder sortedVars d (SuchThatNode s rels) = bindR (topo_reorder sortedVars d s) (\<lambda>s. ok (SuchThatNode s rels))"
| "topo_reorder sortedVars d (SequenceNode s m) =
     bindR (topo_reorder sortedVars d s) (\<lambda>s. bindR (topo_reorder sortedVars d m) (\<lambda>m. ok (SequenceNode s m)))"
| "topo_reorder sortedVars d (AssembleNode q c) =
     bindR (topo_reorder sortedVars d q) (\<lambda>q. bindR (topo_reorder sortedVars d c) (\<lambda>c. ok (AssembleNode q c)))"
| "topo_reorder sortedVars d s = ok s"

definition hard_deps :: "dag_builder \<Rightarrow> var_deps" where
  "hard_deps d = depsFromVarOrders
     (map (\<lambda>tensor. (tensor, varOrderFromTensorLevels (case tensorLevelVars d tensor of Some lvs \<Rightarrow> lvs | None \<Rightarrow> [])))
        (dag_tensors d))"

definition reorder_with :: "fpu \<Rightarrow> Iterators \<Rightarrow> IndexStmt \<Rightarrow> IndexStmt build" where
  "reorder_with F its s =
     bindB (dag_visit F its s dag_start) (\<lambda>d.
       liftB (bindR (collect_soft_deps s) (\<lambda>softDeps.
              bindR (topologicallySort (hard_deps d) softDeps (indexVarOriginalOrder d)) (\<lambda>sortedVars.
                topo_reorder sortedVars d s))))"

definition reorderLoopsTopologically :: "fpu \<Rightarrow> string \<Rightarrow> IndexStmt \<Rightarrow> IndexStmt build" where
  "reorderLoopsTopologically F defaultName s = bindB (Iterators_of defaultName s) (\<lambda>its. reorder_with F its s)"

end
