(* ===== verification/Reorder_Sound.thy ===== *)
theory Reorder_Sound
  imports Transformations Notation_Semantics
begin

text \<open>
  Reordering loops keeps what a nest computes: the iterations of a nest are the assignments of its environments, which
  are the same in every order of the loops and commute.
\<close>

subsection \<open>Nests\<close>

type_synonym loop = "IndexVar \<times> ParallelUnit \<times> OutputRaceStrategy \<times> nat"

definition nest :: "loop list \<Rightarrow> IndexStmt \<Rightarrow> IndexStmt" where
  "nest ls s = foldr (\<lambda>(v, pu, rs, u) s. ForallNode v s pu rs u) ls s"

lemma nest_simps [simp]:
  "nest [] s = s" "nest ((v, pu, rs, u) # ls) s = ForallNode v (nest ls s) pu rs u"
  by (simp_all add: nest_def)

lemma nest_append: "nest (ls @ ls') s = nest ls (nest ls' s)"
  by (simp add: nest_def)

lemma nest_plain: "foldr forall_stmt vs s = nest (map (\<lambda>v. (v, NotParallel, IgnoreRaces, 0)) vs) s"
  by (induction vs) (simp_all add: forall_stmt_def)

text \<open>The environments of the iterations, in order.\<close>

fun loop_envs :: "(IndexVar \<Rightarrow> nat) \<Rightarrow> IndexVar list \<Rightarrow> env \<Rightarrow> env list" where
  "loop_envs sz [] \<rho> = [\<rho>]"
| "loop_envs sz (v # vs) \<rho> = concat (map (\<lambda>k. loop_envs sz vs (\<rho>(v := int k))) [0..<sz v])"

lemma exec_nest:
  "exec T sz (nest ls s) \<rho> st = fold (\<lambda>\<rho>'. exec T sz s \<rho>') (loop_envs sz (map fst ls) \<rho>) st"
proof (induction ls arbitrary: \<rho> st)
  case (Cons l ls)
  obtain v pu rs u where l: "l = (v, pu, rs, u)" by (cases l)
  have "fold (\<lambda>k. exec T sz (nest ls s) (\<rho>(v := int k))) ks st =
      fold (exec T sz s) (concat (map (\<lambda>k. loop_envs sz (map fst ls) (\<rho>(v := int k))) ks)) st" for ks
    by (induction ks arbitrary: st) (simp_all add: Cons.IH del: fun_upd_apply)
  then show ?case by (simp add: l del: fun_upd_apply)
qed simp

lemma loop_envs_set:
  "distinct vs \<Longrightarrow> \<rho>' \<in> set (loop_envs sz vs \<rho>) \<longleftrightarrow>
   (\<forall>v \<in> set vs. \<exists>k < sz v. \<rho>' v = int k) \<and> (\<forall>v. v \<notin> set vs \<longrightarrow> \<rho>' v = \<rho> v)"
proof (induction vs arbitrary: \<rho>)
  case (Cons v vs)
  have "\<rho>' \<in> set (loop_envs sz (v # vs) \<rho>) \<longleftrightarrow> (\<exists>k < sz v. \<rho>' \<in> set (loop_envs sz vs (\<rho>(v := int k))))" by auto
  also have "\<dots> \<longleftrightarrow> (\<exists>k < sz v. (\<forall>v \<in> set vs. \<exists>k < sz v. \<rho>' v = int k) \<and> \<rho>' v = int k \<and> (\<forall>u. u \<notin> insert v (set vs) \<longrightarrow> \<rho>' u = \<rho> u))"
    using Cons by (intro ex_cong) auto
  finally show ?case by auto
qed auto

lemma loop_envs_distinct: "distinct vs \<Longrightarrow> distinct (loop_envs sz vs \<rho>)"
proof (induction vs arbitrary: \<rho>)
  case (Cons v vs)
  let ?f = "\<lambda>k. loop_envs sz vs (\<rho>(v := int k))"
  have v: "\<rho>' v = int k" if "\<rho>' \<in> set (?f k)" for \<rho>' k
    using that Cons.prems loop_envs_set [of vs \<rho>' sz "\<rho>(v := int k)"] by auto
  have "distinct (concat (map ?f ks))" if "distinct ks" for ks
    using that
  proof (induction ks)
    case (Cons k ks)
    have "set (?f k) \<inter> set (concat (map ?f ks)) = {}"
      using Cons.prems v by (auto simp del: fun_upd_apply) (metis nat_int v)
    then show ?case using Cons \<open>distinct (v # vs)\<close> Cons.IH
      by (simp del: fun_upd_apply set_concat add: \<open>\<And>\<rho>. distinct vs \<Longrightarrow> distinct (loop_envs sz vs \<rho>)\<close>)
  qed simp
  then show ?case by simp
qed simp

lemma loop_envs_permute:
  assumes "distinct vs" "mset ws = mset vs"
  shows "mset (loop_envs sz ws \<rho>) = mset (loop_envs sz vs \<rho>)"
proof -
  have d: "distinct ws" "set ws = set vs"
    using assms mset_eq_imp_distinct_iff mset_eq_setD by blast+
  then have "set (loop_envs sz ws \<rho>) = set (loop_envs sz vs \<rho>)"
    using assms(1) by (auto simp: loop_envs_set)
  then show ?thesis
    using d assms(1) by (subst set_eq_iff_mset_eq_distinct [symmetric]) (simp_all add: loop_envs_distinct)
qed

text \<open>Assignments of the iterations commute when they accumulate, or when they write different coordinates.\<close>

definition loops_commute :: "IndexVar list \<Rightarrow> Access \<Rightarrow> IndexExpr \<Rightarrow> IndexExpr \<Rightarrow> bool" where
  "loops_commute vs lhs rhs opn \<longleftrightarrow>
     tensor_of lhs \<notin> tensor_of ` set (reads_of rhs) \<and>
     ((\<exists>a b. opn = AddNode a b) \<or>
      acc_windowedModes lhs = [] \<and> acc_indexSetModes lhs = [] \<and> set vs \<subseteq> set (acc_indexVars lhs))"

lemma assign_commute:
  assumes "tensor_of lhs \<notin> tensor_of ` set (reads_of rhs)"
    and "(\<exists>a b. opn = AddNode a b) \<or> coords \<rho> lhs \<noteq> coords \<rho>' lhs \<or> \<rho> = \<rho>'"
  shows "assign_tensor T sz \<rho> lhs rhs opn \<circ> assign_tensor T sz \<rho>' lhs rhs opn =
    assign_tensor T sz \<rho>' lhs rhs opn \<circ> assign_tensor T sz \<rho> lhs rhs opn"
proof
  fix st
  have e: "expr_value T sz (write_tensor (tensor_of lhs) c x st) \<rho> rhs = expr_value T sz st \<rho> rhs" for c x st \<rho>
    by (rule expr_value_off [OF assms(1)]) simp
  show "(assign_tensor T sz \<rho> lhs rhs opn \<circ> assign_tensor T sz \<rho>' lhs rhs opn) st =
      (assign_tensor T sz \<rho>' lhs rhs opn \<circ> assign_tensor T sz \<rho> lhs rhs opn) st"
    using assms(2)
  proof (elim disjE exE)
    fix a b
    assume "opn = AddNode a b"
    then show ?thesis
      by (cases "coords \<rho> lhs = coords \<rho>' lhs")
        (simp_all add: assign_tensor_def Let_def e apply_operator_def, simp_all add: write_tensor_def fun_upd_twist add.commute add.left_commute)
  next
    assume "coords \<rho> lhs \<noteq> coords \<rho>' lhs"
    then show ?thesis
      by (simp add: assign_tensor_def Let_def e) (simp add: write_tensor_def fun_upd_twist)
  qed simp
qed

lemma nest_permute:
  assumes "distinct (map fst ls)" "mset (map fst ls') = mset (map fst ls)" "loops_commute (map fst ls) lhs rhs opn"
  shows "exec T sz (nest ls' (AssignmentNode lhs rhs opn)) = exec T sz (nest ls (AssignmentNode lhs rhs opn))"
proof (rule ext, rule ext)
  fix \<rho> st
  let ?f = "\<lambda>\<rho>. exec T sz (AssignmentNode lhs rhs opn) \<rho>" and ?vs = "map fst ls"
  have "?f x \<circ> ?f y = ?f y \<circ> ?f x" if x: "x \<in> set (loop_envs sz ?vs \<rho>)" "y \<in> set (loop_envs sz ?vs \<rho>)" for x y
  proof -
    have "x = y" if p: "acc_windowedModes lhs = []" "acc_indexSetModes lhs = []" "set ?vs \<subseteq> set (acc_indexVars lhs)"
      and c: "coords x lhs = coords y lhs"
    proof (rule ext)
      fix v
      have "map x (acc_indexVars lhs) = map y (acc_indexVars lhs)" using c p(1,2) by (simp add: coords_plain)
      then show "x v = y v" using x p(3) assms(1) by (cases "v \<in> set ?vs") (auto simp: loop_envs_set)
    qed
    then show ?thesis unfolding exec_assign
      by (intro assign_commute) (use assms(3) in \<open>auto simp: loops_commute_def\<close>)
  qed
  then have "fold ?f (loop_envs sz ?vs \<rho>) = fold ?f (loop_envs sz (map fst ls') \<rho>)"
    using loop_envs_permute [OF assms(1,2), of sz \<rho>] by (intro fold_multiset_equiv) auto
  then show "exec T sz (nest ls' (AssignmentNode lhs rhs opn)) \<rho> st = exec T sz (nest ls (AssignmentNode lhs rhs opn)) \<rho> st"
    by (simp add: exec_nest del: exec.simps)
qed

subsection \<open>Replacing loops in a nest\<close>

lemma is_forall_simps [simp]:
  "is_forall (ForallNode v s pu rs u)" "\<not> is_forall (AssignmentNode lhs rhs opn)" "is_forall (nest (l # ls) s)"
  by (simp_all add: is_forall_def nest_def split_beta)

text \<open>Statements the rewriters leave as they are.\<close>

definition leaf :: "IndexStmt \<Rightarrow> bool" where
  "leaf s \<longleftrightarrow> (\<exists>lhs rhs opn. s = AssignmentNode lhs rhs opn)"

lemma replace_after:
  "leaf s \<Longrightarrow> int (length pattern) \<le> m \<Longrightarrow> forall_replace pattern replacement (nest ls s) m = (nest ls s, m)"
  by (induction ls) (auto simp: leaf_def split_beta nest_def)

lemma replace_within:
  "leaf s \<Longrightarrow> pattern = pre @ map fst mid \<Longrightarrow> pre \<noteq> [] \<Longrightarrow>
   forall_replace pattern replacement (nest (mid @ ws) s) (int (length pre)) = (nest ws s, int (length pattern))"
proof (induction mid arbitrary: pre)
  case Nil
  then show ?case by (simp add: replace_after)
next
  case (Cons l mid)
  obtain v pu rs u where l: "l = (v, pu, rs, u)" by (cases l)
  have "forall_replace pattern replacement (nest (mid @ ws) s) (int (length (pre @ [v]))) = (nest ws s, int (length pattern))"
    by (rule Cons.IH) (use Cons.prems l in simp_all)
  then have IH: "forall_replace pattern replacement (nest (mid @ ws) s) (int (length pre) + 1) = (nest ws s, int (length pattern))"
    by (simp add: add.commute)
  have "is_forall (nest (mid @ ws) s)" if "int (length pre) + 1 < int (length pattern)"
    using that Cons.prems(2) by (cases mid) simp_all
  moreover have "pattern ! nat (int (length pre)) = v" using Cons.prems(2) l by simp
  ultimately show ?case using Cons.prems IH l by auto
qed

lemma replace_nest:
  assumes "leaf s" "pattern = map fst mid" "mid \<noteq> []" "set (map fst us) \<inter> set pattern = {}"
  shows "forall_replace pattern replacement (nest (us @ mid @ ws) s) 0 =
    (nest us (foldr forall_stmt replacement (nest ws s)), int (length pattern))"
  using assms(4)
proof (induction us)
  case Nil
  obtain v pu rs u mid' where m: "mid = (v, pu, rs, u) # mid'" using assms(3) by (metis list.exhaust prod_cases4)
  have "forall_replace pattern replacement (nest (mid' @ ws) s) (int (length [v])) = (nest ws s, int (length pattern))"
    by (rule replace_within) (use assms m in simp_all)
  moreover have "is_forall (nest (mid' @ ws) s)" if "1 < int (length pattern)"
    using that assms(2) m by (cases mid') simp_all
  ultimately show ?case using m assms(2) by auto
next
  case (Cons l us)
  obtain v pu rs u where l: "l = (v, pu, rs, u)" by (cases l)
  have "pattern \<noteq> []" using assms by simp
  then have "v \<noteq> pattern ! 0" using Cons.prems l by (metis (no_types) IntI emptyE fst_conv length_greater_0_conv list.set_intros(1) list.simps(9) nth_mem)
  then show ?case using Cons l \<open>pattern \<noteq> []\<close> by (simp add: split_beta)
qed

subsection \<open>Reordering\<close>

lemma forall_vars_nest: "leaf s \<Longrightarrow> forall_vars (nest ls s) = map fst ls"
  by (induction ls) (auto simp: leaf_def nest_def split_beta)

lemma scan_step:
  "v \<in> set pattern \<Longrightarrow> reorder_scan pattern v (cur, f) = (cur @ [v], f)"
  "v \<notin> set pattern \<Longrightarrow> reorder_scan pattern v (cur, f) = (cur, f \<or> cur \<noteq> [] \<and> length cur \<noteq> length pattern)"
  by (simp_all add: reorder_scan_def)

lemma scan_grows:
  "fold (reorder_scan pattern) vs (cur0, f) = (cur, g) \<Longrightarrow> length cur0 \<le> length cur \<and> (f \<longrightarrow> g)"
proof (induction vs arbitrary: cur0 f)
  case (Cons v vs)
  obtain cur1 f1 where s: "reorder_scan pattern v (cur0, f) = (cur1, f1)" by fastforce
  then have "length cur0 \<le> length cur1" "f \<longrightarrow> f1" by (auto simp: reorder_scan_def split: if_splits)
  moreover have "length cur1 \<le> length cur \<and> (f1 \<longrightarrow> g)" by (rule Cons.IH) (use Cons.prems s in simp)
  ultimately show ?case by auto
qed simp

lemma scan_started:
  "fold (reorder_scan pattern) vs (cur0, False) = (cur, False) \<Longrightarrow> cur0 \<noteq> [] \<Longrightarrow> length cur = length pattern \<Longrightarrow>
   \<exists>mid ws. vs = mid @ ws \<and> cur = cur0 @ mid \<and> set mid \<subseteq> set pattern"
proof (induction vs arbitrary: cur0)
  case (Cons v vs)
  show ?case
  proof (cases "v \<in> set pattern")
    case True
    then obtain mid ws where "vs = mid @ ws" "cur = (cur0 @ [v]) @ mid" "set mid \<subseteq> set pattern"
      using Cons.IH [of "cur0 @ [v]"] Cons.prems by (auto simp: scan_step)
    then have "v # vs = (v # mid) @ ws \<and> cur = cur0 @ (v # mid) \<and> set (v # mid) \<subseteq> set pattern" using True by simp
    then show ?thesis by blast
  next
    case False
    then have s: "fold (reorder_scan pattern) vs (cur0, length cur0 \<noteq> length pattern) = (cur, False)"
      using Cons.prems by (simp add: scan_step)
    then have "length cur0 = length pattern" using scan_grows [OF s] by auto
    then obtain mid ws where "vs = mid @ ws" "cur = cur0 @ mid" using Cons.IH [of cur0] Cons.prems s by auto
    then have "v # vs = [] @ (v # vs) \<and> cur = cur0 @ [] \<and> set [] \<subseteq> set pattern"
      using \<open>length cur0 = length pattern\<close> Cons.prems(3) by simp
    then show ?thesis by blast
  qed
qed simp

lemma scan_block:
  "fold (reorder_scan pattern) vs ([], False) = (cur, False) \<Longrightarrow> length cur = length pattern \<Longrightarrow> pattern \<noteq> [] \<Longrightarrow>
   \<exists>us ws. vs = us @ cur @ ws \<and> set us \<inter> set pattern = {} \<and> set cur \<subseteq> set pattern"
proof (induction vs)
  case (Cons v vs)
  show ?case
  proof (cases "v \<in> set pattern")
    case True
    then obtain mid ws where "vs = mid @ ws" "cur = [v] @ mid" "set mid \<subseteq> set pattern"
      using scan_started [of pattern vs "[v]" cur] Cons.prems by (auto simp: scan_step)
    then have "v # vs = [] @ cur @ ws \<and> set [] \<inter> set pattern = {} \<and> set cur \<subseteq> set pattern" using True by simp
    then show ?thesis by blast
  next
    case False
    then obtain us ws where "vs = us @ cur @ ws" "set us \<inter> set pattern = {}" "set cur \<subseteq> set pattern"
      using Cons by (auto simp: scan_step)
    then have "v # vs = (v # us) @ cur @ ws \<and> set (v # us) \<inter> set pattern = {} \<and> set cur \<subseteq> set pattern" using False by simp
    then show ?thesis by blast
  qed
qed simp

text \<open>The order that is put in: the one given, or its reverse for two loops that are in the order given.\<close>

definition new_order :: "IndexVar list \<Rightarrow> bool \<Rightarrow> IndexVar list \<Rightarrow> IndexVar list" where
  "new_order pattern pattern_ordered cur = (if \<not> pattern_ordered \<and> cur = pattern then rev pattern else pattern)"

lemma map_eq_append3:
  assumes "map f xs = us @ vs @ ws"
  shows "\<exists>as bs cs. xs = as @ bs @ cs \<and> map f as = us \<and> map f bs = vs \<and> map f cs = ws"
proof -
  have "take (length us) (map f xs) = us" "take (length vs) (drop (length us) (map f xs)) = vs"
    "drop (length vs) (drop (length us) (map f xs)) = ws" using assms by simp_all
  then have "map f (take (length us) xs) = us" "map f (take (length vs) (drop (length us) xs)) = vs"
    "map f (drop (length vs) (drop (length us) xs)) = ws" by (simp_all add: take_map drop_map)
  moreover have "xs = take (length us) xs @ take (length vs) (drop (length us) xs) @ drop (length vs) (drop (length us) xs)"
    by (simp only: append_take_drop_id)
  ultimately show ?thesis by blast
qed

lemma reorder_nest:
  assumes r: "apply_Reorder pattern pattern_ordered (nest ls s) = ok s'" and s': "s' \<noteq> NoStmt"
    and s: "leaf s" and d: "distinct (map fst ls)"
  obtains us mid ws where "ls = us @ mid @ ws" "mset (new_order pattern pattern_ordered (map fst mid)) = mset (map fst mid)"
    "s' = nest us (foldr forall_stmt (new_order pattern pattern_ordered (map fst mid)) (nest ws s))"
proof -
  obtain cur failed where f: "fold (reorder_scan pattern) (map fst ls) ([], False) = (cur, failed)" by fastforce
  have c: "isConcreteNotation (nest ls s) = ok True" "\<not> failed" "length cur = length pattern"
      "\<not> pattern_ordered \<and> cur = pattern \<Longrightarrow> length pattern = 2"
      "apply_ForAllReplace cur (new_order pattern pattern_ordered cur) (nest ls s) = ok s'"
  proof -
    obtain b where b: "isConcreteNotation (nest ls s) = ok b" using r by (auto simp: apply_Reorder_def ifR_def notR_def res_simps)
    then have "b" using r s' by (cases b) (auto simp: apply_Reorder_def ifR_def notR_def)
    then show "isConcreteNotation (nest ls s) = ok True" using b by simp
    define pat' where "pat' = (if \<not> pattern_ordered \<and> cur = pattern then assertR IAssert (length pattern = 2) (ok [pattern ! 1, pattern ! 0]) else ok pattern)"
    have r': "bindR pat' (\<lambda>p. if failed \<or> length cur \<noteq> length p then ok NoStmt else apply_ForAllReplace cur p (nest ls s)) = ok s'"
      using r b \<open>b\<close> by (simp add: apply_Reorder_def ifR_def notR_def forall_vars_nest [OF s] f pat'_def)
    then obtain p where p: "pat' = ok p" "\<not> failed" "length cur = length p" "apply_ForAllReplace cur p (nest ls s) = ok s'"
      using s' by (auto simp: bindR_eq_Inr split: if_splits)
    have two: "[pattern ! 1, pattern ! 0] = rev pattern" if "length pattern = 2"
      using that by (cases pattern; cases "tl pattern") auto
    then have "p = new_order pattern pattern_ordered cur" "length p = length pattern"
        "\<not> pattern_ordered \<and> cur = pattern \<Longrightarrow> length pattern = 2"
      using p(1) by (auto simp: pat'_def new_order_def assertR_eq_Inr split: if_splits)
    then show "\<not> failed" "length cur = length pattern" "\<not> pattern_ordered \<and> cur = pattern \<Longrightarrow> length pattern = 2"
        "apply_ForAllReplace cur (new_order pattern pattern_ordered cur) (nest ls s) = ok s'"
      using p by simp_all
  qed
  have ne: "cur \<noteq> []" using c(5) by (auto simp: apply_ForAllReplace_def assertR_eq_Inr)
  then have "pattern \<noteq> []" using c(3) by auto
  then obtain us ws where b: "map fst ls = us @ cur @ ws" "set us \<inter> set pattern = {}" "set cur \<subseteq> set pattern"
    using scan_block [of pattern "map fst ls" cur] f c(2,3) by auto
  obtain us' mid ws' where l: "ls = us' @ mid @ ws'" "map fst us' = us" "map fst mid = cur" "map fst ws' = ws"
    using map_eq_append3 [OF b(1)] by blast
  have "distinct cur" using d b(1) by simp
  moreover have "card (set pattern) \<le> length pattern" by (rule card_length)
  ultimately have e: "set cur = set pattern" "distinct pattern"
    using b(3) c(3) by (metis List.finite_set card_seteq distinct_card, metis List.finite_set card_distinct card_seteq distinct_card)
  then have "mset (new_order pattern pattern_ordered cur) = mset cur"
    using \<open>distinct cur\<close> by (simp add: new_order_def set_eq_iff_mset_eq_distinct)
  moreover have "forall_replace cur (new_order pattern pattern_ordered cur) (nest ls s) 0 =
      (nest us' (foldr forall_stmt (new_order pattern pattern_ordered cur) (nest ws' s)), int (length cur))"
    unfolding l(1) by (rule replace_nest) (use s l ne b d in auto)
  then have "s' = nest us' (foldr forall_stmt (new_order pattern pattern_ordered cur) (nest ws' s))"
    using c(1,5) ne by (auto simp: apply_ForAllReplace_def ifR_def notR_def)
  ultimately show thesis using that l by blast
qed

text \<open>(C10) Reordering the loops of a nest keeps what it computes, when its assignment accumulates or its loops are over
  free variables: the new statement has the loops of the pattern in the order asked for.\<close>

theorem reorder_preserves:
  assumes "apply_Reorder pattern pattern_ordered (nest ls (AssignmentNode lhs rhs opn)) = ok s'" "s' \<noteq> NoStmt"
    and "distinct (map fst ls)" "loops_commute (map fst ls) lhs rhs opn"
  shows "\<exists>us mid ws. ls = us @ mid @ ws \<and>
    s' = nest us (foldr forall_stmt (new_order pattern pattern_ordered (map fst mid)) (nest ws (AssignmentNode lhs rhs opn))) \<and>
    exec T sz s' = exec T sz (nest ls (AssignmentNode lhs rhs opn))"
proof -
  have "leaf (AssignmentNode lhs rhs opn)" by (simp add: leaf_def)
  from reorder_nest [OF assms(1,2) this assms(3)]
  obtain us mid ws where n: "ls = us @ mid @ ws"
      "mset (new_order pattern pattern_ordered (map fst mid)) = mset (map fst mid)"
      "s' = nest us (foldr forall_stmt (new_order pattern pattern_ordered (map fst mid)) (nest ws (AssignmentNode lhs rhs opn)))" .
  let ?new = "map (\<lambda>v. (v, NotParallel, IgnoreRaces, 0::nat)) (new_order pattern pattern_ordered (map fst mid))"
  have "s' = nest (us @ ?new @ ws) (AssignmentNode lhs rhs opn)" by (simp add: n(3) nest_plain nest_append)
  moreover have "exec T sz (nest (us @ ?new @ ws) (AssignmentNode lhs rhs opn)) = exec T sz (nest ls (AssignmentNode lhs rhs opn))"
    by (rule nest_permute) (use assms n(1,2) in \<open>simp_all add: comp_def\<close>)
  ultimately show ?thesis using n by metis
qed

subsection \<open>Reordering topologically\<close>

lemma add_level_fields:
  "add_level i p d = ok d' \<Longrightarrow> indexVarOriginalOrder d' = indexVarOriginalOrder d \<and>
   forallParallelUnit d' = forallParallelUnit d \<and> forallOutputRaceStrategy d' = forallOutputRaceStrategy d"
  by (auto simp: add_level_def res_simps split: option.splits)

lemma dag_loop_fields:
  assumes "dag_loop i pu rs lattice d = ok d'"
  shows "indexVarOriginalOrder d' = indexVarOriginalOrder d @ [i] \<and>
    forallParallelUnit d' = (forallParallelUnit d)(i \<mapsto> pu) \<and> forallOutputRaceStrategy d' = (forallOutputRaceStrategy d)(i \<mapsto> rs)"
proof -
  have "foldR (add_level i) ps d = ok d' \<Longrightarrow> indexVarOriginalOrder d' = indexVarOriginalOrder d \<and>
      forallParallelUnit d' = forallParallelUnit d \<and> forallOutputRaceStrategy d' = forallOutputRaceStrategy d" for ps d
  proof (induction ps arbitrary: d)
    case (Cons p ps)
    then obtain d1 where "add_level i p d = ok d1" "foldR (add_level i) ps d1 = ok d'" by (auto simp: res_simps)
    then show ?case using Cons.IH add_level_fields by metis
  qed simp
  then show ?thesis using assms by (fastforce simp: dag_loop_def res_simps)
qed

lemma dag_visit_nest:
  assumes "dag_visit F its (nest ls s) d b = ok (d', b')" "ls \<noteq> []" "leaf s"
  shows "indexVarOriginalOrder d' = indexVarOriginalOrder d @ map fst ls \<and> innerBody d' = s \<and>
    forallParallelUnit d' = fold (\<lambda>(v, pu, rs, u) m. m(v \<mapsto> pu)) ls (forallParallelUnit d) \<and>
    forallOutputRaceStrategy d' = fold (\<lambda>(v, pu, rs, u) m. m(v \<mapsto> rs)) ls (forallOutputRaceStrategy d)"
  using assms
proof (induction ls arbitrary: d b)
  case (Cons l ls)
  obtain v pu rs u where l: "l = (v, pu, rs, u)" by (cases l)
  from Cons.prems(1) obtain lattice b1 d1 where d1: "dag_loop v pu rs lattice d = ok d1"
      and rest: "(if is_forall (nest ls s) then dag_visit F its (nest ls s) d1 else retB (d1\<lparr>innerBody := nest ls s\<rparr>)) b1 = ok (d', b')"
    by (auto simp: l res_simps)
  note f = dag_loop_fields [OF d1]
  show ?case
  proof (cases ls)
    case Nil
    then have "d' = d1\<lparr>innerBody := s\<rparr>" using rest Cons.prems(3) by (auto simp: leaf_def res_simps)
    then show ?thesis using f l Nil by simp
  next
    case (Cons l' ls')
    then have "dag_visit F its (nest ls s) d1 b1 = ok (d', b')" using rest by simp
    from Cons.IH [OF this] Cons Cons.prems(3) f l show ?thesis by simp
  qed
qed simp

lemma sorted_loops_nest:
  "sorted_loops vs d u = ok s' \<Longrightarrow>
   s' = nest (map (\<lambda>v. (v, the (forallParallelUnit d v), the (forallOutputRaceStrategy d v), u)) vs) (innerBody d) \<and>
   (\<forall>v \<in> set vs. forallParallelUnit d v \<noteq> None \<and> forallOutputRaceStrategy d v \<noteq> None)"
proof (induction vs arbitrary: s')
  case (Cons v vs)
  then obtain s1 where "sorted_loops vs d u = ok s1"
      "(case (forallParallelUnit d v, forallOutputRaceStrategy d v) of
          (Some pu, Some rs) \<Rightarrow> ok (ForallNode v s1 pu rs u) | _ \<Rightarrow> err OutOfRange) = ok s'"
    by (auto simp: sorted_loops_def foldR_append res_simps)
  then show ?case using Cons.IH by (auto split: option.splits)
qed (simp add: sorted_loops_def)

lemma fold_annotation:
  assumes "distinct (map fst ls)" "(w, pu, rs, u) \<in> set ls"
  shows "fold (\<lambda>(v, pu, rs, u) m. m(v \<mapsto> f pu rs)) ls m w = Some (f pu rs)"
  using assms by (induction ls rule: rev_induct) (force split: if_splits)+

text \<open>(C9) Reordering topologically, with whatever iterators, permutes the loops of a nest, which keep their parallel units and race strategies but
  all get the unroll factor of the outermost one, and keeps what the nest computes.\<close>

theorem reorder_topologically_preserves:
  assumes "reorder_with F its (nest ls (AssignmentNode lhs rhs opn)) b = ok (s', b')"
    and "ls \<noteq> []" "distinct (map fst ls)" "loops_commute (map fst ls) lhs rhs opn"
  shows "\<exists>ls'. s' = nest ls' (AssignmentNode lhs rhs opn) \<and> mset (map fst ls') = mset (map fst ls) \<and>
    (\<forall>(v, pu, rs, u) \<in> set ls'. u = snd (snd (snd (hd ls))) \<and> (\<exists>u'. (v, pu, rs, u') \<in> set ls)) \<and>
    exec T sz s' = exec T sz (nest ls (AssignmentNode lhs rhs opn))"
proof -
  let ?A = "AssignmentNode lhs rhs opn"
  have A: "leaf ?A" by (simp add: leaf_def)
  from assms(1) obtain d softDeps vs where d: "dag_visit F its (nest ls ?A) dag_start b = ok (d, b')"
      and t: "topologicallySort (hard_deps d) softDeps (indexVarOriginalOrder d) = ok vs" "topo_reorder vs d (nest ls ?A) = ok s'"
    unfolding reorder_with_def bindB_ok liftB_ok bindR_eq_Inr by blast
  note f = dag_visit_nest [OF d assms(2) A]
  have m: "mset vs = mset (map fst ls)" using topologicallySort_sound [OF t(1)] f by (simp add: dag_start_def)
  obtain v pu rs u ls0 where ls: "ls = (v, pu, rs, u) # ls0" using assms(2) by (metis list.exhaust prod_cases4)
  then have "sorted_loops vs d u = ok s'" using t(2) by (auto simp: assertR_eq_Inr)
  from sorted_loops_nest [OF this]
  have s': "s' = nest (map (\<lambda>v. (v, the (forallParallelUnit d v), the (forallOutputRaceStrategy d v), u)) vs) ?A" (is "_ = nest ?ls' _")
    using f by simp
  have "\<exists>u'. (w, the (forallParallelUnit d w), the (forallOutputRaceStrategy d w), u') \<in> set ls" if w: "w \<in> set vs" for w
  proof -
    have "w \<in> set (map fst ls)" using w mset_eq_setD [OF m] by simp
    then obtain pu rs u' where "(w, pu, rs, u') \<in> set ls" by auto
    then show ?thesis
      using f fold_annotation [OF assms(3), of w pu rs u' "\<lambda>pu rs. pu"] fold_annotation [OF assms(3), of w pu rs u' "\<lambda>pu rs. rs"]
      by (auto simp: dag_start_def)
  qed
  moreover have "exec T sz (nest ?ls' ?A) = exec T sz (nest ls ?A)"
    by (rule nest_permute [OF assms(3) _ assms(4)]) (simp add: comp_def m)
  ultimately show ?thesis using s' m ls by (intro exI [of _ ?ls']) (auto simp: comp_def)
qed

end
