(* ===== verification/Reorder_Example.thy ===== *)
theory Reorder_Example
  imports Reorder_Sound
begin

text \<open>
  The loops of \<open>y() += A(i,j)\<close> with a compressed matrix, in the wrong order: instances of the theorems on
  reordering. And what reordering does not keep or cannot do.
\<close>

definition ro_i :: IndexVar where "ro_i = IndexVar 1 ''i''"

definition ro_j :: IndexVar where "ro_j = IndexVar 2 ''j''"

definition ro_tensor :: "nat \<Rightarrow> ModeFormat list \<Rightarrow> TensorVar" where
  "ro_tensor k fs = \<lparr>tv_addr = k, tv_id = int k, tv_name = ''A'',
     tv_type = \<lparr>dtype = Float64, shape = map (\<lambda>_. \<lparr>dim_size = 3, dim_indexVar = None\<rparr>) fs\<rparr>,
     tv_format = \<lparr>modeFormatPacks = map (\<lambda>f. [f]) fs, modeOrdering = map int [0..<length fs], levelArrayTypes = []\<rparr>\<rparr>"

definition ro_lhs :: Access where
  "ro_lhs = AccessNode_make 3 (ro_tensor 1 []) [] [] False"

definition ro_access :: Access where
  "ro_access = AccessNode_make 4 (ro_tensor 2 [Dense, Compressed]) [ro_i, ro_j] [] False"

definition ro_sum :: "loop list \<Rightarrow> IndexStmt" where
  "ro_sum ls = nest ls (AssignmentNode ro_lhs (AccessNode ro_access) Add_op)"

definition ro_serial :: "IndexVar \<Rightarrow> loop" where
  "ro_serial v = (v, NotParallel, IgnoreRaces, 0)"

definition ro_level :: "IndexVar \<Rightarrow> nat \<Rightarrow> ModeFormatImpl \<Rightarrow> Iterator \<Rightarrow> Iterator" where
  "ro_level v k f parent = Iterator ((blank_content (10 + k) v)\<lparr>ic_mode := Some
       \<lparr>m_tensor = Var 20 ''A'' Float64 True True False, m_size = \<lparr>dim_size = 3, dim_indexVar = None\<rparr>, m_level = k,
        m_format = Some f, m_pack = \<lparr>numModes = 1, pack_arrays = []\<rparr>, m_packLoc = 0, m_parent = None\<rparr>,
      ic_tensor := Some (Var 20 ''A'' Float64 True True False)\<rparr>) parent NoIterator"

definition ro_iterators :: Iterators where
  "ro_iterators =
     (let root = Iterator ((blank_content 10 (IndexVar 30 ''root''))\<lparr>ic_tensor := Some (Var 20 ''A'' Float64 True True False)\<rparr>) NoIterator NoIterator;
          row = ro_level ro_i 1 (DenseModeFormat True True False) root;
          column = ro_level ro_j 2 (CompressedModeFormat False True True False 0) row in
      \<lparr>levelIterators = [((ro_access, 0), root), ((ro_access, 1), row), ((ro_access, 2), column)],
       modeAccesses = [], modeIterators = [(ro_i, Iterator (blank_content 15 ro_i) NoIterator NoIterator),
         (ro_j, Iterator (blank_content 16 ro_j) NoIterator NoIterator)]\<rparr>)"

definition ro_builder :: builder where
  "ro_builder = \<lparr>next_addr = 50, num_vars_cached = 0\<rparr>"

lemma ro_commute: "loops_commute (map fst ls) ro_lhs (AccessNode ro_access) Add_op"
  by (simp add: loops_commute_def ro_lhs_def ro_access_def ro_tensor_def AccessNode_make_def Add_op_def)

lemma ro_reordered:
  "apply_Reorder [ro_j, ro_i] False (ro_sum [(ro_j, CPUThread, NoRaces, 4), (ro_i, NotParallel, IgnoreRaces, 2)]) =
   ok (ro_sum [ro_serial ro_i, ro_serial ro_j])"
  by code_simp

theorem reorder_preserves_witness:
  "\<forall>T sz. exec T sz (ro_sum [ro_serial ro_i, ro_serial ro_j]) =
   exec T sz (ro_sum [(ro_j, CPUThread, NoRaces, 4), (ro_i, NotParallel, IgnoreRaces, 2)])"
proof -
  have "ro_sum [ro_serial ro_i, ro_serial ro_j] \<noteq> NoStmt" by (simp add: ro_sum_def ro_serial_def)
  from reorder_preserves [OF ro_reordered [unfolded ro_sum_def] this [unfolded ro_sum_def] _ ro_commute]
  show ?thesis by (auto simp: ro_sum_def ro_i_def ro_j_def)
qed

lemma ro_topological:
  "reorder_with fpu_null ro_iterators (ro_sum [(ro_j, NotParallel, IgnoreRaces, 4), (ro_i, NotParallel, IgnoreRaces, 0)]) ro_builder =
   ok (ro_sum [(ro_i, NotParallel, IgnoreRaces, 4), (ro_j, NotParallel, IgnoreRaces, 4)], ro_builder)"
  by code_simp

theorem reorder_topologically_preserves_witness:
  "\<forall>T sz. exec T sz (ro_sum [(ro_i, NotParallel, IgnoreRaces, 4), (ro_j, NotParallel, IgnoreRaces, 4)]) =
   exec T sz (ro_sum [(ro_j, NotParallel, IgnoreRaces, 4), (ro_i, NotParallel, IgnoreRaces, 0)])"
  using reorder_topologically_preserves [OF ro_topological [unfolded ro_sum_def] _ _ ro_commute]
  by (auto simp: ro_sum_def ro_i_def ro_j_def)

definition ro_hard :: var_deps where
  "ro_hard v = (if v = ro_j then [ro_i] else [])"

theorem topologicallySort_correct_witness:
  "\<exists>vs. topologicallySort ro_hard (\<lambda>_. []) [ro_j, ro_i] = ok vs \<and> mset vs = mset [ro_j, ro_i] \<and> in_order ro_hard {} vs"
proof -
  have "mset [ro_i, ro_j] = mset [ro_j, ro_i]" "in_order ro_hard {} [ro_i, ro_j]"
    by (simp_all add: ro_hard_def ro_i_def ro_j_def)
  then show ?thesis using topologicallySort_correct [of ro_hard "\<lambda>_. []" "[ro_j, ro_i]"] by blast
qed

text \<open>The loops of \<open>A(i,j) * A(j,k)\<close> over one matrix with compressed rows: \<open>j\<close> is at both levels of the tensor, by
  whose name the levels are collected, and has to come before itself.\<close>

lemma one_tensor_twice:
  "topologicallySort
     (depsFromVarOrders [(''A'', varOrderFromTensorLevels
        [(ro_i, 1, False), (ro_j, 1, False), (ro_j, 2, True), (IndexVar 3 ''k'', 2, True)])])
     (\<lambda>_. []) [ro_i, ro_j, IndexVar 3 ''k''] = err IAssert"
  by (rule self_dependence_fails [of ro_j]) code_simp+

end
