(* ===== verification/Substitution.thy ===== *)
theory Substitution
  imports Notation_Semantics Notation_Queries
begin

text \<open>
  The rewriter of index notation and the substitutions built on it (src/index_notation/index_notation_rewriter.cpp).
  A rewriter answers a node with no rewritten operand as it is; as values the rebuilt node and the old one are
  equal. Substitutions are looked up by handle, here by the node itself: accesses carry their identity, and operators
  over the same operands count as one node.
\<close>

subsection \<open>Replacing expressions and statements\<close>

definition substituted :: "('a \<Rightarrow> 'a option) \<Rightarrow> 'a \<Rightarrow> 'a \<Rightarrow> 'a" where
  "substituted m x y = (case m x of Some x' \<Rightarrow> x' | None \<Rightarrow> y)"

text \<open>\<open>ReplaceRewriter\<close> looks up every expression but casts and calls of functions, whose operands it rewrites.\<close>

fun replace_expr :: "(IndexExpr \<Rightarrow> IndexExpr option) \<Rightarrow> IndexExpr \<Rightarrow> IndexExpr" where
  "replace_expr m NoExpr = NoExpr"
| "replace_expr m (AccessNode a) = substituted m (AccessNode a) (AccessNode a)"
| "replace_expr m (LiteralNode t u) = substituted m (LiteralNode t u) (LiteralNode t u)"
| "replace_expr m (NegNode e) = substituted m (NegNode e) (NegNode (replace_expr m e))"
| "replace_expr m (SqrtNode e) = substituted m (SqrtNode e) (SqrtNode (replace_expr m e))"
| "replace_expr m (AddNode a b) = substituted m (AddNode a b) (AddNode (replace_expr m a) (replace_expr m b))"
| "replace_expr m (SubNode a b) = substituted m (SubNode a b) (SubNode (replace_expr m a) (replace_expr m b))"
| "replace_expr m (MulNode a b) = substituted m (MulNode a b) (MulNode (replace_expr m a) (replace_expr m b))"
| "replace_expr m (DivNode a b) = substituted m (DivNode a b) (DivNode (replace_expr m a) (replace_expr m b))"
| "replace_expr m (CastNode t e) = CastNode t (replace_expr m e)"
| "replace_expr m (CallIntrinsicNode f es) = CallIntrinsicNode f (map (replace_expr m) es)"
| "replace_expr m (ReductionNode opn v e) = substituted m (ReductionNode opn v e) (ReductionNode opn v (replace_expr m e))"

text \<open>Left-hand sides and operators are part of the assignment and not rewritten.\<close>

fun replace_stmt :: "(IndexExpr \<Rightarrow> IndexExpr option) \<Rightarrow> (IndexStmt \<Rightarrow> IndexStmt option) \<Rightarrow> IndexStmt \<Rightarrow> IndexStmt" where
  "replace_stmt m n NoStmt = NoStmt"
| "replace_stmt m n (AssignmentNode lhs rhs opn) =
     substituted n (AssignmentNode lhs rhs opn) (AssignmentNode lhs (replace_expr m rhs) opn)"
| "replace_stmt m n (YieldNode vs e) = substituted n (YieldNode vs e) (YieldNode vs (replace_expr m e))"
| "replace_stmt m n (ForallNode v s pu rs u) =
     substituted n (ForallNode v s pu rs u) (ForallNode v (replace_stmt m n s) pu rs u)"
| "replace_stmt m n (WhereNode c p) = substituted n (WhereNode c p) (WhereNode (replace_stmt m n c) (replace_stmt m n p))"
| "replace_stmt m n (MultiNode s t) = substituted n (MultiNode s t) (MultiNode (replace_stmt m n s) (replace_stmt m n t))"
| "replace_stmt m n (SuchThatNode s rels) = substituted n (SuchThatNode s rels) (SuchThatNode (replace_stmt m n s) rels)"
| "replace_stmt m n (SequenceNode d s) = substituted n (SequenceNode d s) (SequenceNode (replace_stmt m n d) (replace_stmt m n s))"
| "replace_stmt m n (AssembleNode q c) = substituted n (AssembleNode q c) (AssembleNode (replace_stmt m n q) (replace_stmt m n c))"

subsection \<open>Replacing index variables\<close>

type_synonym renaming = "IndexVar \<Rightarrow> IndexVar option"

definition renamed :: "renaming \<Rightarrow> IndexVar \<Rightarrow> IndexVar" where
  "renamed m v = (case m v of Some v' \<Rightarrow> v' | None \<Rightarrow> v)"

text \<open>A rewritten access keeps its windows and index sets, and is not one to the structure of the tensor.\<close>

definition rename_access :: "renaming \<Rightarrow> Access \<Rightarrow> Access build" where
  "rename_access m a =
     (if \<exists>v \<in> set (acc_indexVars a). m v \<noteq> None
      then bindB fresh (\<lambda>addr.
             retB (AccessNode_make addr (acc_tensorVar a) (map (renamed m) (acc_indexVars a)) (packageModifiers a) False))
      else retB a)"

fun rename_expr :: "renaming \<Rightarrow> IndexExpr \<Rightarrow> IndexExpr build" where
  "rename_expr m (AccessNode a) = bindB (rename_access m a) (\<lambda>a. retB (AccessNode a))"
| "rename_expr m (NegNode e) = bindB (rename_expr m e) (\<lambda>e. retB (NegNode e))"
| "rename_expr m (SqrtNode e) = bindB (rename_expr m e) (\<lambda>e. retB (SqrtNode e))"
| "rename_expr m (AddNode a b) = bindB (rename_expr m a) (\<lambda>a. bindB (rename_expr m b) (\<lambda>b. retB (AddNode a b)))"
| "rename_expr m (SubNode a b) = bindB (rename_expr m a) (\<lambda>a. bindB (rename_expr m b) (\<lambda>b. retB (SubNode a b)))"
| "rename_expr m (MulNode a b) = bindB (rename_expr m a) (\<lambda>a. bindB (rename_expr m b) (\<lambda>b. retB (MulNode a b)))"
| "rename_expr m (DivNode a b) = bindB (rename_expr m a) (\<lambda>a. bindB (rename_expr m b) (\<lambda>b. retB (DivNode a b)))"
| "rename_expr m (CastNode t e) = bindB (rename_expr m e) (\<lambda>e. retB (CastNode t e))"
| "rename_expr m (CallIntrinsicNode f es) = bindB (mapB (rename_expr m) es) (\<lambda>es. retB (CallIntrinsicNode f es))"
| "rename_expr m (ReductionNode opn v e) = bindB (rename_expr m e) (\<lambda>e. retB (ReductionNode opn v e))"
| "rename_expr m e = retB e"

text \<open>The variables of yields and relations are not rewritten.\<close>

fun rename_stmt :: "renaming \<Rightarrow> IndexStmt \<Rightarrow> IndexStmt build" where
  "rename_stmt m (AssignmentNode lhs rhs opn) =
     bindB (rename_expr m rhs) (\<lambda>rhs. bindB (rename_access m lhs) (\<lambda>lhs. retB (AssignmentNode lhs rhs opn)))"
| "rename_stmt m (YieldNode vs e) = bindB (rename_expr m e) (\<lambda>e. retB (YieldNode vs e))"
| "rename_stmt m (ForallNode v s pu rs u) = bindB (rename_stmt m s) (\<lambda>s. retB (ForallNode (renamed m v) s pu rs u))"
| "rename_stmt m (WhereNode c p) = bindB (rename_stmt m p) (\<lambda>p. bindB (rename_stmt m c) (\<lambda>c. retB (WhereNode c p)))"
| "rename_stmt m (MultiNode s t) = bindB (rename_stmt m s) (\<lambda>s. bindB (rename_stmt m t) (\<lambda>t. retB (MultiNode s t)))"
| "rename_stmt m (SuchThatNode s rels) = bindB (rename_stmt m s) (\<lambda>s. retB (SuchThatNode s rels))"
| "rename_stmt m (SequenceNode d s) = bindB (rename_stmt m d) (\<lambda>d. bindB (rename_stmt m s) (\<lambda>s. retB (SequenceNode d s)))"
| "rename_stmt m (AssembleNode q c) = bindB (rename_stmt m q) (\<lambda>q. bindB (rename_stmt m c) (\<lambda>c. retB (AssembleNode q c)))"
| "rename_stmt m NoStmt = retB NoStmt"

subsection \<open>Replacing tensor variables\<close>

text \<open>A rewritten access has no windows and no index sets.\<close>

type_synonym retensoring = "TensorVar \<Rightarrow> TensorVar option"

definition retensor_access :: "retensoring \<Rightarrow> Access \<Rightarrow> Access build" where
  "retensor_access m a =
     (case m (acc_tensorVar a) of
        Some t \<Rightarrow> bindB fresh (\<lambda>addr. retB (AccessNode_make addr t (acc_indexVars a) [] False))
      | None \<Rightarrow> retB a)"

fun retensor_expr :: "retensoring \<Rightarrow> IndexExpr \<Rightarrow> IndexExpr build" where
  "retensor_expr m (AccessNode a) = bindB (retensor_access m a) (\<lambda>a. retB (AccessNode a))"
| "retensor_expr m (NegNode e) = bindB (retensor_expr m e) (\<lambda>e. retB (NegNode e))"
| "retensor_expr m (SqrtNode e) = bindB (retensor_expr m e) (\<lambda>e. retB (SqrtNode e))"
| "retensor_expr m (AddNode a b) = bindB (retensor_expr m a) (\<lambda>a. bindB (retensor_expr m b) (\<lambda>b. retB (AddNode a b)))"
| "retensor_expr m (SubNode a b) = bindB (retensor_expr m a) (\<lambda>a. bindB (retensor_expr m b) (\<lambda>b. retB (SubNode a b)))"
| "retensor_expr m (MulNode a b) = bindB (retensor_expr m a) (\<lambda>a. bindB (retensor_expr m b) (\<lambda>b. retB (MulNode a b)))"
| "retensor_expr m (DivNode a b) = bindB (retensor_expr m a) (\<lambda>a. bindB (retensor_expr m b) (\<lambda>b. retB (DivNode a b)))"
| "retensor_expr m (CastNode t e) = bindB (retensor_expr m e) (\<lambda>e. retB (CastNode t e))"
| "retensor_expr m (CallIntrinsicNode f es) = bindB (mapB (retensor_expr m) es) (\<lambda>es. retB (CallIntrinsicNode f es))"
| "retensor_expr m (ReductionNode opn v e) = bindB (retensor_expr m e) (\<lambda>e. retB (ReductionNode opn v e))"
| "retensor_expr m e = retB e"

fun retensor_stmt :: "retensoring \<Rightarrow> IndexStmt \<Rightarrow> IndexStmt build" where
  "retensor_stmt m (AssignmentNode lhs rhs opn) =
     bindB (retensor_expr m rhs) (\<lambda>rhs. bindB (retensor_access m lhs) (\<lambda>lhs. retB (AssignmentNode lhs rhs opn)))"
| "retensor_stmt m (YieldNode vs e) = bindB (retensor_expr m e) (\<lambda>e. retB (YieldNode vs e))"
| "retensor_stmt m (ForallNode v s pu rs u) = bindB (retensor_stmt m s) (\<lambda>s. retB (ForallNode v s pu rs u))"
| "retensor_stmt m (WhereNode c p) = bindB (retensor_stmt m p) (\<lambda>p. bindB (retensor_stmt m c) (\<lambda>c. retB (WhereNode c p)))"
| "retensor_stmt m (MultiNode s t) = bindB (retensor_stmt m s) (\<lambda>s. bindB (retensor_stmt m t) (\<lambda>t. retB (MultiNode s t)))"
| "retensor_stmt m (SuchThatNode s rels) = bindB (retensor_stmt m s) (\<lambda>s. retB (SuchThatNode s rels))"
| "retensor_stmt m (SequenceNode d s) = bindB (retensor_stmt m d) (\<lambda>d. bindB (retensor_stmt m s) (\<lambda>s. retB (SequenceNode d s)))"
| "retensor_stmt m (AssembleNode q c) = bindB (retensor_stmt m q) (\<lambda>q. bindB (retensor_stmt m c) (\<lambda>c. retB (AssembleNode q c)))"
| "retensor_stmt m NoStmt = retB NoStmt"


subsection \<open>Expressions keep their value\<close>

lemma substituted_cases: "(m x = None \<Longrightarrow> P y) \<Longrightarrow> (\<And>x'. m x = Some x' \<Longrightarrow> P x') \<Longrightarrow> P (substituted m x y)"
  by (simp add: substituted_def split: option.split)

text \<open>Substitutions of expressions by expressions of the same value.\<close>

lemma replace_expr_value:
  assumes "count_reductions e = 0" "\<And>x y. m x = Some y \<Longrightarrow> expr_value T sz st' \<rho> y = expr_value T sz st \<rho> x"
    and "\<And>a. a \<in> set (reads_of e) \<Longrightarrow> st' (tensor_of a) = st (tensor_of a)"
  shows "expr_value T sz st' \<rho> (replace_expr m e) = expr_value T sz st \<rho> e"
  using assms(1,3)
proof (induction e)
  case (CallIntrinsicNode f es)
  then have "map (expr_value T sz st' \<rho>) (map (replace_expr m) es) = map (expr_value T sz st \<rho>) es" by auto
  then show ?case by (simp only: replace_expr.simps expr_value.simps)
qed (auto simp: substituted_def read_tensor_def assms(2) split: option.split)

lemma expr_value_env:
  "(\<And>v. v \<in> set (access_vars (reads_of e)) \<Longrightarrow> \<rho> v = \<rho>' v) \<Longrightarrow> expr_value T sz st \<rho> e = expr_value T sz st \<rho>' e"
proof (induction e arbitrary: \<rho> \<rho>')
  case (AccessNode a)
  then have "coords \<rho> a = coords \<rho>' a" by (auto simp: coords_def access_vars_def in_set_enumerate_eq)
  then show ?case by (simp add: read_tensor_def)
next
  case (CallIntrinsicNode f es)
  have "expr_value T sz st \<rho> e = expr_value T sz st \<rho>' e" if "e \<in> set es" for e
    by (rule CallIntrinsicNode.IH [OF that]) (use CallIntrinsicNode.prems that in \<open>auto simp: access_vars_def\<close>)
  then have "map (expr_value T sz st \<rho>) es = map (expr_value T sz st \<rho>') es" by simp
  then show ?case by (simp only: expr_value.simps)
next
  case (ReductionNode opn v e)
  have "expr_value T sz st (\<rho>(v := x)) e = expr_value T sz st (\<rho>'(v := x)) e" for x
    by (rule ReductionNode.IH) (use ReductionNode.prems in auto)
  then show ?case by simp
next
  case (AddNode a b)
  have "expr_value T sz st \<rho> a = expr_value T sz st \<rho>' a" "expr_value T sz st \<rho> b = expr_value T sz st \<rho>' b"
    by (rule AddNode.IH; use AddNode.prems in \<open>simp add: access_vars_def\<close>)+
  then show ?case by simp
next
  case (SubNode a b)
  have "expr_value T sz st \<rho> a = expr_value T sz st \<rho>' a" "expr_value T sz st \<rho> b = expr_value T sz st \<rho>' b"
    by (rule SubNode.IH; use SubNode.prems in \<open>simp add: access_vars_def\<close>)+
  then show ?case by simp
next
  case (MulNode a b)
  have "expr_value T sz st \<rho> a = expr_value T sz st \<rho>' a" "expr_value T sz st \<rho> b = expr_value T sz st \<rho>' b"
    by (rule MulNode.IH; use MulNode.prems in \<open>simp add: access_vars_def\<close>)+
  then show ?case by simp
next
  case (DivNode a b)
  have "expr_value T sz st \<rho> a = expr_value T sz st \<rho>' a" "expr_value T sz st \<rho> b = expr_value T sz st \<rho>' b"
    by (rule DivNode.IH; use DivNode.prems in \<open>simp add: access_vars_def\<close>)+
  then show ?case by simp
next
  case (NegNode e)
  have "expr_value T sz st \<rho> e = expr_value T sz st \<rho>' e" by (rule NegNode.IH) (use NegNode.prems in simp)
  then show ?case by simp
next
  case (SqrtNode e)
  have "expr_value T sz st \<rho> e = expr_value T sz st \<rho>' e" by (rule SqrtNode.IH) (use SqrtNode.prems in simp)
  then show ?case by simp
next
  case (CastNode t e)
  have "expr_value T sz st \<rho> e = expr_value T sz st \<rho>' e" by (rule CastNode.IH) (use CastNode.prems in simp)
  then show ?case by simp
qed simp_all

subsection \<open>Renaming keeps meaning\<close>

text \<open>Accesses that a renaming keeps: not to the structure, at most one window or index set for a mode.\<close>

definition renamable :: "Access \<Rightarrow> bool" where
  "renamable a \<longleftrightarrow> \<not> acc_isAccessingStructure a \<and> distinct (map fst (acc_windowedModes a)) \<and>
     distinct (map fst (acc_indexSetModes a)) \<and> fst ` set (acc_windowedModes a) \<inter> fst ` set (acc_indexSetModes a) = {}"

lemma map_of_sort_key:
  assumes "distinct (map fst xs)"
  shows "map_of (sort_key fst xs) = map_of xs"
proof -
  have "distinct (map fst (sort_key fst xs))" using assms by (simp add: distinct_map)
  then show ?thesis using assms by (intro map_of_eqI) (auto simp: map_of_eq_Some_iff)
qed

lemma packaged_modes:
  assumes "renamable a"
  shows "map_of (acc_windowedModes (AccessNode_make addr t vs (packageModifiers a) f)) = map_of (acc_windowedModes a)"
    "map_of (acc_indexSetModes (AccessNode_make addr t vs (packageModifiers a) f)) = map_of (acc_indexSetModes a)"
proof -
  define ws where "ws = map (\<lambda>(k, w). (k, Window w)) (acc_windowedModes a)"
  define ss where "ss = map (\<lambda>(k, s). (k, Set s)) (acc_indexSetModes a)"
  have "map_of (acc_indexSetModes a) (fst kw) = None" if "kw \<in> set (acc_windowedModes a)" for kw
    using assms that by (auto simp: renamable_def map_of_eq_None_iff)
  then have p: "packageModifiers a = sort_key fst (ws @ ss)"
    by (simp add: packageModifiers_def ws_def ss_def cong: filter_cong)
  have fs: "map fst ws = map fst (acc_windowedModes a)" "map fst ss = map fst (acc_indexSetModes a)"
    by (simp_all add: ws_def ss_def comp_def split_beta)
  then have d: "distinct (map fst (ws @ ss))" using assms by (simp add: renamable_def)
  then have m: "map_of (packageModifiers a) = map_of (ws @ ss)" unfolding p by (rule map_of_sort_key)
  have dp: "distinct (map fst (packageModifiers a))"
    using d unfolding p distinct_map by simp
  have only: "map_of (concat (map (\<lambda>(k, x). case f x of None \<Rightarrow> [] | Some y \<Rightarrow> [(k, y)]) xs)) k =
      (case map_of xs k of None \<Rightarrow> None | Some x \<Rightarrow> f x)" if "distinct (map fst xs)" for f :: "'m \<Rightarrow> 'y option" and xs :: "(int \<times> 'm) list" and k
    using that
  proof (induction xs)
    case (Cons x xs)
    obtain k' x' where x: "x = (k', x')" by (cases x)
    have "map_of xs k' = None" using Cons.prems x by (simp add: map_of_eq_None_iff)
    then show ?case using Cons by (auto simp: x split: option.split)
  qed simp
  show "map_of (acc_windowedModes (AccessNode_make addr t vs (packageModifiers a) f)) = map_of (acc_windowedModes a)"
  proof
    fix k
    have "map_of (acc_windowedModes (AccessNode_make addr t vs (packageModifiers a) f)) k =
        (case map_of (ws @ ss) k of None \<Rightarrow> None | Some x \<Rightarrow> (case x of Window w \<Rightarrow> Some w | Set s \<Rightarrow> None))"
      using only [OF dp, of "\<lambda>x. case x of Window w \<Rightarrow> Some w | Set s \<Rightarrow> None" k]
      by (simp add: AccessNode_make_def m split_beta IndexVarIterationModifier.case_distrib cong: IndexVarIterationModifier.case_cong)
    also have "\<dots> = map_of (acc_windowedModes a) k"
      by (auto simp: ws_def ss_def map_add_def map_of_map split: option.split)
    finally show "map_of (acc_windowedModes (AccessNode_make addr t vs (packageModifiers a) f)) k = map_of (acc_windowedModes a) k" .
  qed
  show "map_of (acc_indexSetModes (AccessNode_make addr t vs (packageModifiers a) f)) = map_of (acc_indexSetModes a)"
  proof
    fix k
    have n: "map_of (acc_windowedModes a) k = None" if "map_of (acc_indexSetModes a) k = Some s" for s
      using assms that by (force simp: renamable_def map_of_eq_None_iff dest: map_of_SomeD)
    have "map_of (acc_indexSetModes (AccessNode_make addr t vs (packageModifiers a) f)) k =
        (case map_of (ws @ ss) k of None \<Rightarrow> None | Some x \<Rightarrow> (case x of Window w \<Rightarrow> None | Set s \<Rightarrow> Some s))"
      using only [OF dp, of "\<lambda>x. case x of Window w \<Rightarrow> None | Set s \<Rightarrow> Some s" k]
      by (simp add: AccessNode_make_def m split_beta IndexVarIterationModifier.case_distrib cong: IndexVarIterationModifier.case_cong)
    also have "\<dots> = map_of (acc_indexSetModes a) k"
      using n by (cases "map_of (acc_indexSetModes a) k") (auto simp: ws_def ss_def map_add_def map_of_map split: option.split)
    finally show "map_of (acc_indexSetModes (AccessNode_make addr t vs (packageModifiers a) f)) k = map_of (acc_indexSetModes a) k" .
  qed
qed

text \<open>What a renamed access and a renamed expression have in common with the original.\<close>

definition renames_access :: "renaming \<Rightarrow> Access \<Rightarrow> Access \<Rightarrow> bool" where
  "renames_access m a a' \<longleftrightarrow> acc_tensorVar a' = acc_tensorVar a \<and> acc_indexVars a' = map (renamed m) (acc_indexVars a) \<and>
     \<not> acc_isAccessingStructure a' \<and> mode_coord a' = mode_coord a"

definition renames_expr :: "renaming \<Rightarrow> IndexExpr \<Rightarrow> IndexExpr \<Rightarrow> bool" where
  "renames_expr m e e' \<longleftrightarrow> list_all2 (renames_access m) (reads_of e) (reads_of e') \<and>
     count_reductions e' = count_reductions e \<and>
     (count_reductions e = 0 \<longrightarrow>
        (\<forall>T sz st \<rho>. expr_value (T :: tensor_ops) sz st \<rho> e' = expr_value T sz st (\<lambda>v. \<rho> (renamed m v)) e))"

lemma rename_access_renames:
  assumes "renamable a"
  shows "\<exists>a' b'. rename_access m a b = ok (a', b') \<and> renames_access m a a'"
proof (cases "\<exists>v \<in> set (acc_indexVars a). m v \<noteq> None")
  case True
  let ?a = "AccessNode_make (next_addr b) (acc_tensorVar a) (map (renamed m) (acc_indexVars a)) (packageModifiers a) False"
  have "mode_coord ?a = mode_coord a"
    unfolding mode_coord_def fun_eq_iff packaged_modes [OF assms] by simp
  then have "renames_access m a ?a" by (simp add: renames_access_def AccessNode_make_def)
  then show ?thesis using True by (auto simp: rename_access_def bindB_def fresh_def retB_def)
next
  case False
  then have "map (renamed m) (acc_indexVars a) = acc_indexVars a" by (intro map_idI) (auto simp: renamed_def)
  then show ?thesis using False assms by (auto simp: rename_access_def retB_def renames_access_def renamable_def)
qed

lemma renames_coords:
  "renames_access m a a' \<Longrightarrow> coords \<rho> a' = coords (\<lambda>v. \<rho> (renamed m v)) a"
  by (intro nth_equalityI) (auto simp: coords_def renames_access_def nth_enumerate_eq)

lemma renames_value:
  "renames_expr m e e' \<Longrightarrow> count_reductions e = 0 \<Longrightarrow>
   expr_value (T :: tensor_ops) sz st \<rho> e' = expr_value T sz st (\<lambda>v. \<rho> (renamed m v)) e"
  by (simp add: renames_expr_def)

lemma renames_parts:
  assumes "renames_expr m e e'"
  shows "list_all2 (renames_access m) (reads_of e) (reads_of e')" "count_reductions e' = count_reductions e"
  using assms by (simp_all add: renames_expr_def)

lemma renames_unary:
  assumes "renames_expr m e e'"
  shows "renames_expr m (NegNode e) (NegNode e')" "renames_expr m (SqrtNode e) (SqrtNode e')"
    "renames_expr m (CastNode t e) (CastNode t e')"
  using assms by (simp_all add: renames_expr_def)

lemma renames_binary:
  assumes "renames_expr m a a'" "renames_expr m b b'"
  shows "renames_expr m (AddNode a b) (AddNode a' b')" "renames_expr m (SubNode a b) (SubNode a' b')"
    "renames_expr m (MulNode a b) (MulNode a' b')" "renames_expr m (DivNode a b) (DivNode a' b')"
  using assms by (simp_all add: renames_expr_def list_all2_appendI)

lemma renames_call:
  assumes "list_all2 (renames_expr m) es es'"
  shows "renames_expr m (CallIntrinsicNode f es) (CallIntrinsicNode f es')"
proof -
  have "list_all2 (renames_access m) (concat (map reads_of es)) (concat (map reads_of es'))"
    "map count_reductions es' = map count_reductions es"
    using assms by (induction rule: list_all2_induct) (auto dest: renames_parts intro!: list_all2_appendI)
  moreover have "map (expr_value T sz st \<rho>) es' = map (expr_value T sz st (\<lambda>v. \<rho> (renamed m v))) es"
    if "sum_list (map count_reductions es) = 0" for T :: tensor_ops and sz st \<rho>
    using assms that by (induction rule: list_all2_induct) (simp_all add: renames_value)
  ultimately show ?thesis by (simp add: renames_expr_def del: map_eq_conv)
qed

lemma bindB_step: "m b = ok (x, b') \<Longrightarrow> bindB m f b = f x b'"
  by (simp add: bindB_def)

lemma mapB_renames:
  assumes "\<And>e b. e \<in> set es \<Longrightarrow> \<exists>e' b'. f e b = ok (e', b') \<and> P e e'"
  shows "\<exists>es' b'. mapB f es b = ok (es', b') \<and> list_all2 P es es'"
  using assms
proof (induction es arbitrary: b)
  case (Cons e es)
  obtain e' b1 where 1: "f e b = ok (e', b1)" "P e e'" using Cons.prems by (meson list.set_intros(1))
  obtain es' b2 where 2: "mapB f es b1 = ok (es', b2)" "list_all2 P es es'" using Cons by (meson list.set_intros(2))
  then show ?case using 1 by (simp add: bindB_step retB_def)
qed (simp add: retB_def)

lemma rename_expr_renames:
  "list_all renamable (reads_of e) \<Longrightarrow> \<exists>e' b'. rename_expr m e b = ok (e', b') \<and> renames_expr m e e'"
proof (induction e arbitrary: b)
  case (AccessNode a)
  then obtain a' b' where r: "rename_access m a b = ok (a', b')" "renames_access m a a'"
    using rename_access_renames by fastforce
  have "renames_expr m (AccessNode a) (AccessNode a')"
    using r(2) AccessNode renames_coords [OF r(2)]
    by (simp add: renames_expr_def read_tensor_def renamable_def) (simp add: renames_access_def)
  then show ?case using r(1) by (simp add: bindB_step retB_def)
next
  case (CallIntrinsicNode f es)
  have "\<exists>es' b'. mapB (rename_expr m) es b = ok (es', b') \<and> list_all2 (renames_expr m) es es'"
    by (rule mapB_renames) (use CallIntrinsicNode in \<open>auto simp: list_all_iff\<close>)
  then show ?case using renames_call by (fastforce simp: bindB_step retB_def)
next
  case (AddNode x y)
  obtain x' b1 where 1: "rename_expr m x b = ok (x', b1)" "renames_expr m x x'" using AddNode by fastforce
  obtain y' b2 where 2: "rename_expr m y b1 = ok (y', b2)" "renames_expr m y y'" using AddNode by fastforce
  show ?case using 1 2 renames_binary(1) [OF 1(2) 2(2)] by (simp add: bindB_step retB_def)
next
  case (SubNode x y)
  obtain x' b1 where 1: "rename_expr m x b = ok (x', b1)" "renames_expr m x x'" using SubNode by fastforce
  obtain y' b2 where 2: "rename_expr m y b1 = ok (y', b2)" "renames_expr m y y'" using SubNode by fastforce
  show ?case using 1 2 renames_binary(2) [OF 1(2) 2(2)] by (simp add: bindB_step retB_def)
next
  case (MulNode x y)
  obtain x' b1 where 1: "rename_expr m x b = ok (x', b1)" "renames_expr m x x'" using MulNode by fastforce
  obtain y' b2 where 2: "rename_expr m y b1 = ok (y', b2)" "renames_expr m y y'" using MulNode by fastforce
  show ?case using 1 2 renames_binary(3) [OF 1(2) 2(2)] by (simp add: bindB_step retB_def)
next
  case (DivNode x y)
  obtain x' b1 where 1: "rename_expr m x b = ok (x', b1)" "renames_expr m x x'" using DivNode by fastforce
  obtain y' b2 where 2: "rename_expr m y b1 = ok (y', b2)" "renames_expr m y y'" using DivNode by fastforce
  show ?case using 1 2 renames_binary(4) [OF 1(2) 2(2)] by (simp add: bindB_step retB_def)
next
  case (NegNode x)
  then obtain x' b1 where 1: "rename_expr m x b = ok (x', b1)" "renames_expr m x x'" by fastforce
  show ?case using 1(1) renames_unary(1) [OF 1(2)] by (simp add: bindB_step retB_def)
next
  case (SqrtNode x)
  then obtain x' b1 where 1: "rename_expr m x b = ok (x', b1)" "renames_expr m x x'" by fastforce
  show ?case using 1(1) renames_unary(2) [OF 1(2)] by (simp add: bindB_step retB_def)
next
  case (CastNode t x)
  then obtain x' b1 where 1: "rename_expr m x b = ok (x', b1)" "renames_expr m x x'" by fastforce
  show ?case using 1(1) renames_unary(3) [OF 1(2)] by (simp add: bindB_step retB_def)
next
  case (ReductionNode opn v x)
  then obtain x' b1 where 1: "rename_expr m x b = ok (x', b1)" "renames_expr m x x'" by fastforce
  have "renames_expr m (ReductionNode opn v x) (ReductionNode opn v x')" using 1(2) by (simp add: renames_expr_def)
  then show ?case using 1(1) by (simp add: bindB_step retB_def)
qed (simp_all add: retB_def renames_expr_def)

lemma renames_expr_env:
  assumes "renames_expr m e e'" "count_reductions e = 0"
    and "\<And>v. v \<in> set (access_vars (reads_of e)) \<Longrightarrow> \<rho> (renamed m v) = \<rho>' v"
  shows "expr_value T sz st \<rho> e' = expr_value (T :: tensor_ops) sz st \<rho>' e"
  unfolding renames_value [OF assms(1,2)] by (rule expr_value_env) (rule assms(3))

text \<open>Statements without reductions whose accesses are kept.\<close>

fun renamable_stmt :: "IndexStmt \<Rightarrow> bool" where
  "renamable_stmt (AssignmentNode lhs rhs opn) \<longleftrightarrow> renamable lhs \<and> list_all renamable (reads_of rhs) \<and> count_reductions rhs = 0"
| "renamable_stmt (ForallNode v s pu rs u) \<longleftrightarrow> renamable_stmt s"
| "renamable_stmt (WhereNode c p) \<longleftrightarrow> renamable_stmt c \<and> renamable_stmt p"
| "renamable_stmt (MultiNode s t) \<longleftrightarrow> renamable_stmt s \<and> renamable_stmt t"
| "renamable_stmt (SequenceNode d s) \<longleftrightarrow> renamable_stmt d \<and> renamable_stmt s"
| "renamable_stmt _ \<longleftrightarrow> False"

definition renames_stmt :: "renaming \<Rightarrow> (IndexVar \<Rightarrow> nat) \<Rightarrow> IndexStmt \<Rightarrow> IndexStmt \<Rightarrow> bool" where
  "renames_stmt m sz s s' \<longleftrightarrow> defined_by s' = defined_by s \<and>
     (\<forall>T \<rho> \<rho>'. (\<forall>v \<in> set (stmt_vars s). \<rho> (renamed m v) = \<rho>' v) \<longrightarrow> exec T sz s' \<rho> = exec T sz s \<rho>')"

lemma renames_stmtD:
  "renames_stmt m sz s s' \<Longrightarrow> (\<And>v. v \<in> set (stmt_vars s) \<Longrightarrow> \<rho> (renamed m v) = \<rho>' v) \<Longrightarrow>
   exec T sz s' \<rho> = exec T sz s \<rho>'"
  by (simp add: renames_stmt_def)

lemma renames_stmtI:
  "defined_by s' = defined_by s \<Longrightarrow>
   (\<And>T \<rho> \<rho>'. (\<And>v. v \<in> set (stmt_vars s) \<Longrightarrow> \<rho> (renamed m v) = \<rho>' v) \<Longrightarrow> exec T sz s' \<rho> = exec T sz s \<rho>') \<Longrightarrow>
   renames_stmt m sz s s'"
  by (simp add: renames_stmt_def)

lemma renames_assignment:
  assumes "renames_access m lhs lhs'" "renames_expr m rhs rhs'" "count_reductions rhs = 0"
  shows "renames_stmt m sz (AssignmentNode lhs rhs opn) (AssignmentNode lhs' rhs' opn)"
proof (rule renames_stmtI)
  show "defined_by (AssignmentNode lhs' rhs' opn) = defined_by (AssignmentNode lhs rhs opn)"
    using assms(1) by (simp add: renames_access_def)
  fix T and \<rho> \<rho>' :: env
  assume v: "\<And>v. v \<in> set (stmt_vars (AssignmentNode lhs rhs opn)) \<Longrightarrow> \<rho> (renamed m v) = \<rho>' v"
  have "coords \<rho> lhs' = coords \<rho>' lhs"
    using v renames_coords [OF assms(1), of \<rho>] by (auto simp: coords_def in_set_enumerate_eq)
  moreover have "expr_value T sz st \<rho> rhs' = expr_value T sz st \<rho>' rhs" for st
    by (rule renames_expr_env [OF assms(2,3)]) (use v in simp)
  ultimately show "exec T sz (AssignmentNode lhs' rhs' opn) \<rho> = exec T sz (AssignmentNode lhs rhs opn) \<rho>'"
    using assms(1) by (simp add: fun_eq_iff [of "exec _ _ _ _"] assign_tensor_def renames_access_def Let_def)
qed

lemma renames_forall:
  assumes "renames_stmt m sz s s'" "inj_on (renamed m) (set (v # stmt_vars s))" "sz (renamed m v) = sz v"
  shows "renames_stmt m sz (ForallNode v s pu rs u) (ForallNode (renamed m v) s' pu rs u)"
proof (rule renames_stmtI)
  show "defined_by (ForallNode (renamed m v) s' pu rs u) = defined_by (ForallNode v s pu rs u)"
    using assms(1) by (simp add: renames_stmt_def)
  fix T and \<rho> \<rho>' :: env
  assume v: "\<And>w. w \<in> set (stmt_vars (ForallNode v s pu rs u)) \<Longrightarrow> \<rho> (renamed m w) = \<rho>' w"
  have "exec T sz s' (\<rho>(renamed m v := x)) = exec T sz s (\<rho>'(v := x))" for x
  proof (rule renames_stmtD [OF assms(1)])
    fix w
    assume w: "w \<in> set (stmt_vars s)"
    then have "renamed m w = renamed m v \<longleftrightarrow> w = v" using inj_on_eq_iff [OF assms(2)] by simp
    then show "(\<rho>(renamed m v := x)) (renamed m w) = (\<rho>'(v := x)) w" using v w by simp
  qed
  then show "exec T sz (ForallNode (renamed m v) s' pu rs u) \<rho> = exec T sz (ForallNode v s pu rs u) \<rho>'"
    by (simp add: fun_eq_iff [of "exec _ _ (ForallNode _ _ _ _ _) _"] assms(3) del: fun_upd_apply)
qed

lemma renames_pair:
  assumes "renames_stmt m sz s s'" "renames_stmt m sz t t'"
  shows "renames_stmt m sz (WhereNode s t) (WhereNode s' t')" "renames_stmt m sz (MultiNode s t) (MultiNode s' t')"
    "renames_stmt m sz (SequenceNode s t) (SequenceNode s' t')"
  by (rule renames_stmtI;
      use assms in \<open>simp add: fun_eq_iff [of "exec _ _ _ _"] renames_stmtD [OF assms(1)] renames_stmtD [OF assms(2)]\<close>;
      use assms in \<open>simp add: renames_stmt_def\<close>)+

lemma rename_stmt_renames:
  "renamable_stmt s \<Longrightarrow> inj_on (renamed m) (set (stmt_vars s)) \<Longrightarrow> (\<And>v. v \<in> set (stmt_vars s) \<Longrightarrow> sz (renamed m v) = sz v) \<Longrightarrow>
   \<exists>s' b'. rename_stmt m s b = ok (s', b') \<and> renames_stmt m sz s s'"
proof (induction s arbitrary: b)
  case (AssignmentNode lhs rhs opn)
  then obtain rhs' b1 where 1: "rename_expr m rhs b = ok (rhs', b1)" "renames_expr m rhs rhs'"
    using rename_expr_renames [of rhs m b] by auto
  obtain lhs' b2 where 2: "rename_access m lhs b1 = ok (lhs', b2)" "renames_access m lhs lhs'"
    using rename_access_renames [of lhs m b1] AssignmentNode by auto
  show ?case using renames_assignment [OF 2(2) 1(2)] AssignmentNode 1(1) 2(1) by (simp add: bindB_step retB_def)
next
  case (ForallNode v s pu rs u)
  obtain s' b1 where 1: "rename_stmt m s b = ok (s', b1)" "renames_stmt m sz s s'"
    using ForallNode.IH [of b] ForallNode.prems by (auto simp: inj_on_insert)
  have "renames_stmt m sz (ForallNode v s pu rs u) (ForallNode (renamed m v) s' pu rs u)"
    by (rule renames_forall [OF 1(2)]) (use ForallNode.prems in simp_all)
  then show ?case using 1(1) by (simp add: bindB_step retB_def)
next
  case (WhereNode c p)
  obtain p' b1 where 1: "rename_stmt m p b = ok (p', b1)" "renames_stmt m sz p p'"
    using WhereNode.IH(2) [of b] WhereNode.prems by (auto simp: inj_on_Un)
  obtain c' b2 where 2: "rename_stmt m c b1 = ok (c', b2)" "renames_stmt m sz c c'"
    using WhereNode.IH(1) [of b1] WhereNode.prems by (auto simp: inj_on_Un)
  show ?case using 1(1) 2(1) renames_pair(1) [OF 2(2) 1(2)] by (simp add: bindB_step retB_def)
next
  case (MultiNode s t)
  obtain s' b1 where 1: "rename_stmt m s b = ok (s', b1)" "renames_stmt m sz s s'"
    using MultiNode.IH(1) [of b] MultiNode.prems by (auto simp: inj_on_Un)
  obtain t' b2 where 2: "rename_stmt m t b1 = ok (t', b2)" "renames_stmt m sz t t'"
    using MultiNode.IH(2) [of b1] MultiNode.prems by (auto simp: inj_on_Un)
  show ?case using 1(1) 2(1) renames_pair(2) [OF 1(2) 2(2)] by (simp add: bindB_step retB_def)
next
  case (SequenceNode s t)
  obtain s' b1 where 1: "rename_stmt m s b = ok (s', b1)" "renames_stmt m sz s s'"
    using SequenceNode.IH(1) [of b] SequenceNode.prems by (auto simp: inj_on_Un)
  obtain t' b2 where 2: "rename_stmt m t b1 = ok (t', b2)" "renames_stmt m sz t t'"
    using SequenceNode.IH(2) [of b1] SequenceNode.prems by (auto simp: inj_on_Un)
  show ?case using 1(1) 2(1) renames_pair(3) [OF 1(2) 2(2)] by (simp add: bindB_step retB_def)
qed simp_all

text \<open>(C7) Renaming the index variables of a concrete statement (assignments without reductions, loops, where, multi and
  sequence statements; yields, relations of a schedule and assemble statements, whose variables the rewriter leaves, are
  not among them) always returns, and the renamed statement does in an environment what the original does in the
  environment renamed, whenever the renaming is injective on the variables of the statement, goes to variables of the same
  dimensions, and no access of the statement is one to the structure of a tensor or gives a mode two modifiers.\<close>

theorem rename_preserves:
  assumes "renamable_stmt s" "inj_on (renamed m) (set (stmt_vars s))"
    and "\<And>v. v \<in> set (stmt_vars s) \<Longrightarrow> sz (renamed m v) = sz v"
  shows "\<exists>s' b'. rename_stmt m s b = ok (s', b') \<and>
    (\<forall>T \<rho> st. exec T sz s' \<rho> st = exec T sz s (\<lambda>v. \<rho> (renamed m v)) st)"
proof -
  obtain s' b' where r: "rename_stmt m s b = ok (s', b')" "renames_stmt m sz s s'"
    using rename_stmt_renames [of s m sz b] assms by auto
  have "exec T sz s' \<rho> = exec T sz s (\<lambda>v. \<rho> (renamed m v))" for T \<rho> by (rule renames_stmtD [OF r(2)]) simp
  then show ?thesis using r(1) by auto
qed

end
