(* ===== verification/Workspaces.thy ===== *)
theory Workspaces
  imports Substitution Transformations
begin

text \<open>
  Transformations that bring in temporaries (src/index_notation/transformations.cpp): precomputing an expression into a
  workspace, and the workspace of sparse matrix products.
\<close>

subsection \<open>Looking for an expression\<close>

text \<open>Accesses, unary and binary operators are compared; a walk goes on after it has found the expression.\<close>

fun contains_expr :: "IndexExpr \<Rightarrow> IndexExpr \<Rightarrow> bool res" where
  "contains_expr e NoExpr = err BadMemory"
| "contains_expr e (AccessNode a) = expr_equals (AccessNode a) e"
| "contains_expr e (LiteralNode t u) = ok False"
| "contains_expr e (NegNode x) = ifR (expr_equals (NegNode x) e) (ok True) (contains_expr e x)"
| "contains_expr e (SqrtNode x) = ifR (expr_equals (SqrtNode x) e) (ok True) (contains_expr e x)"
| "contains_expr e (AddNode x y) =
     ifR (expr_equals (AddNode x y) e) (ok True) (bindR (contains_expr e x) (\<lambda>c. bindR (contains_expr e y) (\<lambda>d. ok (c \<or> d))))"
| "contains_expr e (SubNode x y) =
     ifR (expr_equals (SubNode x y) e) (ok True) (bindR (contains_expr e x) (\<lambda>c. bindR (contains_expr e y) (\<lambda>d. ok (c \<or> d))))"
| "contains_expr e (MulNode x y) =
     ifR (expr_equals (MulNode x y) e) (ok True) (bindR (contains_expr e x) (\<lambda>c. bindR (contains_expr e y) (\<lambda>d. ok (c \<or> d))))"
| "contains_expr e (DivNode x y) =
     ifR (expr_equals (DivNode x y) e) (ok True) (bindR (contains_expr e x) (\<lambda>c. bindR (contains_expr e y) (\<lambda>d. ok (c \<or> d))))"
| "contains_expr e (CastNode t x) = contains_expr e x"
| "contains_expr e (CallIntrinsicNode f es) = foldR (\<lambda>x c. bindR (contains_expr e x) (\<lambda>d. ok (c \<or> d))) es False"
| "contains_expr e (ReductionNode opn v x) = err IError"

text \<open>The assignments of a statement; of a where statement those of the producer or of the consumer come first.\<close>

type_synonym assignment = "Access \<times> IndexExpr \<times> IndexExpr"

fun stmt_assignments :: "bool \<Rightarrow> IndexStmt \<Rightarrow> assignment list" where
  "stmt_assignments consumerFirst (AssignmentNode lhs rhs opn) = [(lhs, rhs, opn)]"
| "stmt_assignments consumerFirst (ForallNode v s pu rs u) = stmt_assignments consumerFirst s"
| "stmt_assignments consumerFirst (WhereNode c p) =
     (if consumerFirst then stmt_assignments consumerFirst c @ stmt_assignments consumerFirst p
      else stmt_assignments consumerFirst p @ stmt_assignments consumerFirst c)"
| "stmt_assignments consumerFirst (MultiNode s t) = stmt_assignments consumerFirst s @ stmt_assignments consumerFirst t"
| "stmt_assignments consumerFirst (SuchThatNode s rels) = stmt_assignments consumerFirst s"
| "stmt_assignments consumerFirst (SequenceNode d s) = stmt_assignments consumerFirst d @ stmt_assignments consumerFirst s"
| "stmt_assignments consumerFirst (AssembleNode q c) = stmt_assignments consumerFirst q @ stmt_assignments consumerFirst c"
| "stmt_assignments consumerFirst _ = []"

definition getAssignmentContainingExpr :: "IndexStmt \<Rightarrow> IndexExpr \<Rightarrow> assignment option res" where
  "getAssignmentContainingExpr s e =
     foldR (\<lambda>(lhs, rhs, opn) found. ifR (contains_expr e rhs) (ok (Some (lhs, rhs, opn))) (ok found))
       (stmt_assignments False s) None"

subsection \<open>Precomputing\<close>

text \<open>The consumer is the last assignment of the statement. It accumulates when it has reduction variables, whatever
  its operator was.\<close>

definition consumer_assignment :: "IndexStmt \<Rightarrow> assignment res" where
  "consumer_assignment s =
     (case rev (stmt_assignments True s) of
        [] \<Rightarrow> err BadMemory
      | (lhs, rhs, opn) # as \<Rightarrow>
          bindR (assignment_getReductionVars lhs rhs) (\<lambda>vs. ok (lhs, rhs, if vs \<noteq> [] then Add_op else NoExpr)))"

definition workspace_access :: "TensorVar \<Rightarrow> IndexVar list \<Rightarrow> Access build" where
  "workspace_access ws vs = bindB fresh (\<lambda>addr. liftB (access_tensor addr ws vs))"

definition producer_assignment :: "TensorVar \<Rightarrow> IndexVar list \<Rightarrow> IndexExpr \<Rightarrow> renaming \<Rightarrow> assignment build" where
  "producer_assignment ws iw_vars e substitutions =
     bindB (rename_expr substitutions e) (\<lambda>rhs. bindB (workspace_access ws iw_vars) (\<lambda>lhs.
       liftB (bindR (isValid lhs rhs) (\<lambda>valid. assertR UError valid (
              bindR (assignment_getReductionVars lhs rhs) (\<lambda>vs. ok (lhs, rhs, if vs \<noteq> [] then Add_op else NoExpr)))))))"

definition assignment_vars :: "assignment \<Rightarrow> IndexVar list" where
  "assignment_vars a = (case a of (lhs, rhs, opn) \<Rightarrow> stmt_getIndexVars (AssignmentNode lhs rhs opn))"

text \<open>\<open>generateForalls\<close>: the first variable is that of the innermost loop.\<close>

definition generateForalls :: "IndexStmt \<Rightarrow> IndexVar list \<Rightarrow> IndexStmt" where
  "generateForalls s vs = fold forall_stmt vs s"

text \<open>A variable is among others, or fully derived from one of them that is not. (A third branch of the test has the
  condition of the second.)\<close>

definition containsIndexVarScheduled :: "ProvenanceGraph \<Rightarrow> IndexVar list \<Rightarrow> IndexVar \<Rightarrow> bool res" where
  "containsIndexVarScheduled g indexVars indexVar =
     foldR (\<lambda>i contains.
         if i = indexVar then ok True
         else if isFullyDerived g indexVar \<and> \<not> isFullyDerived g i
           then bindR (getFullyDerivedDescendants g i) (\<lambda>ds. ok (contains \<or> indexVar \<in> set ds))
         else ok contains) indexVars False"

text \<open>The loops, from the innermost on, are those of the producer, of the consumer or of both, until one is around the
  where statement. \<open>operator[]\<close> puts a new variable into the substitutions where there is none.\<close>

record loop_split =
  sp_substitutions :: renaming
  sp_producer :: "IndexVar list"
  sp_consumer :: "IndexVar list"
  sp_outer :: "IndexVar list"
  sp_stop :: bool

definition substitution_of :: "string \<Rightarrow> IndexVar \<Rightarrow> loop_split \<Rightarrow> (IndexVar \<times> loop_split) build" where
  "substitution_of defaultName i d =
     (case sp_substitutions d i of
        Some iw \<Rightarrow> retB (iw, d)
      | None \<Rightarrow> bindB fresh (\<lambda>addr. let iw = IndexVar addr defaultName in
                  retB (iw, d\<lparr>sp_substitutions := (sp_substitutions d)(i \<mapsto> iw)\<rparr>)))"

definition split_loop :: "string \<Rightarrow> ProvenanceGraph \<Rightarrow> IndexVar list \<Rightarrow> IndexVar list \<Rightarrow> IndexVar list \<Rightarrow>
    IndexVar \<Rightarrow> loop_split \<Rightarrow> loop_split build" where
  "split_loop defaultName g i_vars consumerIndexVars producerIndexVars i d =
     bindB (liftB (if sp_stop d then ok False else containsIndexVarScheduled g i_vars i)) (\<lambda>scheduled.
       if scheduled then
         bindB (substitution_of defaultName i d) (\<lambda>(iw, d).
           retB (d\<lparr>sp_producer := sp_producer d @ [iw], sp_consumer := sp_consumer d @ [i]\<rparr>))
       else
         bindB (liftB (containsIndexVarScheduled g consumerIndexVars i)) (\<lambda>consumerContains.
         bindB (liftB (containsIndexVarScheduled g producerIndexVars i)) (\<lambda>producerContains.
           retB (if sp_stop d \<or> producerContains \<and> consumerContains
                 then d\<lparr>sp_outer := sp_outer d @ [i], sp_stop := True\<rparr>
                 else if consumerContains then d\<lparr>sp_consumer := sp_consumer d @ [i]\<rparr>
                 else if producerContains then d\<lparr>sp_producer := sp_producer d @ [i]\<rparr>
                 else d))))"

fun contains_where :: "IndexStmt \<Rightarrow> bool" where
  "contains_where (ForallNode v s pu rs u) \<longleftrightarrow> contains_where s"
| "contains_where (WhereNode c p) \<longleftrightarrow> True"
| "contains_where (MultiNode s t) \<longleftrightarrow> contains_where s \<or> contains_where t"
| "contains_where (SuchThatNode s rels) \<longleftrightarrow> contains_where s"
| "contains_where (SequenceNode d s) \<longleftrightarrow> contains_where d \<or> contains_where s"
| "contains_where (AssembleNode q c) \<longleftrightarrow> contains_where q \<or> contains_where c"
| "contains_where _ \<longleftrightarrow> False"

record precompute =
  pc_expr :: IndexExpr
  pc_i_vars :: "IndexVar list"
  pc_iw_vars :: "IndexVar list"
  pc_workspace :: TensorVar

text \<open>The loops \<open>vs\<close> and the statement in the outermost one, where the expression has been replaced, become the where
  statement.\<close>

definition make_where :: "string \<Rightarrow> ProvenanceGraph \<Rightarrow> precompute \<Rightarrow> IndexVar list \<Rightarrow> IndexStmt \<Rightarrow> IndexStmt build" where
  "make_where defaultName g P vs replacedStmt =
     (let substitutions = map_of (rev (zip (pc_i_vars P) (pc_iw_vars P))) in
      bindB (liftB (consumer_assignment replacedStmt)) (\<lambda>c.
      bindB (producer_assignment (pc_workspace P) (pc_iw_vars P) (pc_expr P) substitutions) (\<lambda>p.
      bindB (foldB (split_loop defaultName g (pc_i_vars P) (assignment_vars c) (assignment_vars p)) (rev vs)
               \<lparr>sp_substitutions = substitutions, sp_producer = [], sp_consumer = [], sp_outer = [], sp_stop = False\<rparr>) (\<lambda>d.
        case (c, p) of ((clhs, crhs, cop), (plhs, prhs, pop)) \<Rightarrow>
          retB (generateForalls
                  (WhereNode (generateForalls (AssignmentNode clhs crhs cop) (sp_consumer d))
                             (generateForalls (AssignmentNode plhs prhs pop) (sp_producer d))) (sp_outer d))))))"

fun precompute_visit :: "string \<Rightarrow> ProvenanceGraph \<Rightarrow> precompute \<Rightarrow> IndexStmt \<Rightarrow> IndexStmt build" where
  "precompute_visit defaultName g P (ForallNode v s pu rs u) =
     (let default = bindB (precompute_visit defaultName g P s) (\<lambda>s. retB (ForallNode v s pu rs u)) in
      if contains_where s then default
      else bindB (liftB (assertR IAssert (length (pc_i_vars P) = length (pc_iw_vars P)) (ok ()))) (\<lambda>_.
           bindB (workspace_access (pc_workspace P) (pc_i_vars P)) (\<lambda>a.
             let replacedStmt = replace_stmt [pc_expr P \<mapsto> AccessNode a] (\<lambda>_. None) s in
             if replacedStmt \<noteq> s then make_where defaultName g P (v # forall_vars s) replacedStmt else default)))"
| "precompute_visit defaultName g P (WhereNode c p) =
     bindB (precompute_visit defaultName g P p) (\<lambda>p. bindB (precompute_visit defaultName g P c) (\<lambda>c. retB (WhereNode c p)))"
| "precompute_visit defaultName g P (MultiNode s t) =
     bindB (precompute_visit defaultName g P s) (\<lambda>s. bindB (precompute_visit defaultName g P t) (\<lambda>t. retB (MultiNode s t)))"
| "precompute_visit defaultName g P (SuchThatNode s rels) =
     bindB (precompute_visit defaultName g P s) (\<lambda>s. retB (SuchThatNode s rels))"
| "precompute_visit defaultName g P (SequenceNode d s) =
     bindB (precompute_visit defaultName g P d) (\<lambda>d. bindB (precompute_visit defaultName g P s) (\<lambda>s. retB (SequenceNode d s)))"
| "precompute_visit defaultName g P (AssembleNode q c) =
     bindB (precompute_visit defaultName g P q) (\<lambda>q. bindB (precompute_visit defaultName g P c) (\<lambda>c. retB (AssembleNode q c)))"
| "precompute_visit defaultName g P s = retB s"

definition apply_Precompute :: "string \<Rightarrow> precompute \<Rightarrow> IndexStmt \<Rightarrow> IndexStmt build" where
  "apply_Precompute defaultName P s =
     bindB (liftB (getAssignmentContainingExpr s (pc_expr P))) (\<lambda>found.
       if found = None then retB NoStmt
       else bindB (liftB (ProvenanceGraph_make s)) (\<lambda>g. precompute_visit defaultName g P s))"

text \<open>The command records the relation of each variable to that of the workspace.\<close>

definition stmt_precompute :: "string \<Rightarrow> precompute \<Rightarrow> IndexStmt \<Rightarrow> IndexStmt build" where
  "stmt_precompute defaultName P s =
     bindB (liftB (assertR UError (length (pc_i_vars P) = length (pc_iw_vars P)) (
              foldR (\<lambda>(i, iw) s. if i \<noteq> iw then bindR (apply_AddSuchThatPredicates [PrecomputeRel i iw] s) defined_or_error else ok s)
                (zip (pc_i_vars P) (pc_iw_vars P)) s))) (\<lambda>s.
     bindB (apply_Precompute defaultName P s) (\<lambda>s. liftB (defined_or_error s)))"

subsection \<open>The workspace of sparse matrix products\<close>

definition level_format :: "TensorVar \<Rightarrow> nat \<Rightarrow> ModeFormat res" where
  "level_format t n = vector_get (getModeFormats (tv_format t)) n"

definition level_mode :: "TensorVar \<Rightarrow> nat \<Rightarrow> int res" where
  "level_mode t n = vector_get (modeOrdering (tv_format t)) n"

definition named_format :: "TensorVar \<Rightarrow> nat \<Rightarrow> string \<Rightarrow> bool res" where
  "named_format t n nm = bindR (level_format t n) (\<lambda>f. ok (getName f = nm))"

definition ordered_format :: "TensorVar \<Rightarrow> nat \<Rightarrow> bool res" where
  "ordered_format t n = bindR (level_format t n) (\<lambda>f. holds_property f ORDERED)"

definition natural_order :: "TensorVar \<Rightarrow> bool res" where
  "natural_order t = andR (bindR (level_mode t 0) (\<lambda>o0. ok (o0 = 0))) (bindR (level_mode t 1) (\<lambda>o1. ok (o1 = 1)))"

text \<open>A loop nest \<open>A(i,j) = B(i,k) * C(k,j)\<close>, whatever the operator of the assignment and the loops' annotations are.\<close>

definition spmm_accesses :: "IndexStmt \<Rightarrow> (IndexVar \<times> IndexVar \<times> IndexVar \<times> Access \<times> Access \<times> Access) option" where
  "spmm_accesses s =
     (case s of ForallNode i (ForallNode k (ForallNode j (AssignmentNode a (MulNode (AccessNode b) (AccessNode c)) opn) _ _ _) _ _ _) _ _ _ \<Rightarrow>
        if acc_indexVars a = [i, j] \<and> acc_indexVars b = [i, k] \<and> acc_indexVars c = [k, j] then Some (i, k, j, a, b, c) else None
      | _ \<Rightarrow> None)"

definition spmm_formats :: "TensorVar \<Rightarrow> TensorVar \<Rightarrow> TensorVar \<Rightarrow> bool res" where
  "spmm_formats a b c =
     andR (named_format a 0 ''dense'') (andR (named_format a 1 ''compressed'') (andR (natural_order a)
      (andR (ordered_format b 0) (andR (ordered_format b 1) (andR (natural_order b)
       (andR (ordered_format c 0) (andR (ordered_format c 1) (natural_order c))))))))"

definition row_workspace :: "TensorVar \<Rightarrow> TensorVar build" where
  "row_workspace a =
     bindB (liftB (vector_get (shape (tv_type a)) 1)) (\<lambda>d. bindB fresh (\<lambda>addr. liftB (bindR (Format_mode Dense) (\<lambda>f.
       ok \<lparr>tv_addr = addr, tv_id = -1, tv_name = ''w'', tv_type = \<lparr>dtype = dtype (tv_type a), shape = [d]\<rparr>, tv_format = f\<rparr>))))"

text \<open>The rows of the result are accumulated in a dense vector. The accesses are new ones of the tensors, and so are the loops.\<close>

definition spmm_rows :: "IndexVar \<Rightarrow> IndexVar \<Rightarrow> IndexVar \<Rightarrow> TensorVar \<Rightarrow> TensorVar \<Rightarrow> TensorVar \<Rightarrow> IndexStmt build" where
  "spmm_rows i k j a b c =
     bindB (row_workspace a) (\<lambda>w.
     bindB (workspace_access a [i, j]) (\<lambda>lhs.
     bindB (workspace_access w [j]) (\<lambda>wr.
     bindB (liftB (bindR (isValid lhs (AccessNode wr)) (\<lambda>valid. assertR UError valid (ok ())))) (\<lambda>_.
     bindB (workspace_access w [j]) (\<lambda>wl.
     bindB (workspace_access b [i, k]) (\<lambda>b.
     bindB (workspace_access c [k, j]) (\<lambda>c.
       retB (forall_stmt i (WhereNode (forall_stmt j (AssignmentNode lhs (AccessNode wr) NoExpr))
         (forall_stmt k (forall_stmt j (AssignmentNode wl (MulNode (AccessNode b) (AccessNode c)) Add_op))))))))))))"

definition optimizeSpMM :: "IndexStmt \<Rightarrow> IndexStmt build" where
  "optimizeSpMM s =
     (case spmm_accesses s of None \<Rightarrow> retB s
      | Some (i, k, j, a, b, c) \<Rightarrow>
          bindB (liftB (spmm_formats (acc_tensorVar a) (acc_tensorVar b) (acc_tensorVar c))) (\<lambda>optimize.
            if optimize then spmm_rows i k j (acc_tensorVar a) (acc_tensorVar b) (acc_tensorVar c) else retB s))"

definition insertTemporaries :: "IndexStmt \<Rightarrow> IndexStmt build" where
  "insertTemporaries s = bindB (optimizeSpMM s) (\<lambda>spmm. if spmm \<noteq> s then retB spmm else retB s)"

end
