(* ===== verification/Workspace_Sound.thy ===== *)
theory Workspace_Sound
  imports Workspaces Reorder_Sound Concretize_Correct
begin

text \<open>
  A where statement that computes an expression into a workspace and uses the workspace in its place has the effect of
  the assignment it was made from, on all tensors but the workspace.
\<close>

subsection \<open>Loops over assignments\<close>

text \<open>The loops of a reduction are the assignment of its sum.\<close>

lemma reduction_nest:
  assumes "count_reductions rhs = 0" "vs = [] \<or> opn = Add_op" "set vs \<inter> set (acc_indexVars lhs) = {}"
    and "tensor_of lhs \<notin> tensor_of ` set (reads_of rhs)"
  shows "exec T sz (foldr forall_stmt vs (AssignmentNode lhs rhs opn)) = exec T sz (AssignmentNode lhs (foldr sum_expr vs rhs) opn)"
proof (cases "vs = []")
  case False
  let ?e = "foldr sum_expr vs rhs"
  have t: "top_level_reductions ?e = (vs, rhs)" "summed ?e" using sums_top_level assms(1) by blast+
  have "exec T sz (foldr forall_stmt vs (AssignmentNode lhs rhs Add_op)) \<rho> st =
      write_tensor (tensor_of lhs) (coords \<rho> lhs) (st (tensor_of lhs) (coords \<rho> lhs) + expr_value T sz st \<rho> ?e) st" for \<rho> st
    using reduction_loops [OF t(2), of lhs T sz \<rho> st] assms(3,4) by (simp add: t(1) sums_facts)
  then show ?thesis using False assms(2)
    by (intro ext) (simp add: assign_tensor_def Let_def apply_operator_def Add_op_def)
qed simp

lemma exec_foralls_cong: "exec T sz s = exec T sz s' \<Longrightarrow> exec T sz (foldr forall_stmt vs s) = exec T sz (foldr forall_stmt vs s')"
  by (induction vs) (simp_all add: forall_stmt_def fun_eq_iff [of "exec _ _ _ _"] fun_eq_iff [of "exec _ _ (ForallNode _ _ _ _ _)"])

lemma bind_vars_other: "v \<notin> set vs \<Longrightarrow> bind_vars \<rho> vs ks v = \<rho> v"
  by (induction \<rho> vs ks rule: bind_vars.induct) auto

lemma bind_vars_nth:
  "distinct vs \<Longrightarrow> length ks = length vs \<Longrightarrow> n < length vs \<Longrightarrow> bind_vars \<rho> vs ks (vs ! n) = int (ks ! n)"
proof (induction \<rho> vs ks arbitrary: n rule: bind_vars.induct)
  case (1 \<rho> v vs k ks)
  then show ?case by (cases n) (simp_all add: bind_vars_other del: fun_upd_apply, simp)
qed auto

lemma sum_over_cong:
  "(\<And>\<rho>'. (\<And>v. v \<notin> set vs \<Longrightarrow> \<rho>' v = \<rho> v) \<Longrightarrow> f \<rho>' = g \<rho>') \<Longrightarrow> sum_over sz vs f \<rho> = sum_over sz vs g \<rho>"
proof (induction vs arbitrary: \<rho>)
  case (Cons v vs)
  have "sum_over sz vs f (\<rho>(v := int k)) = sum_over sz vs g (\<rho>(v := int k))" for k
    by (rule Cons.IH) (use Cons.prems in auto)
  then show ?case by simp
qed simp

subsection \<open>The producer\<close>

text \<open>The loops of the producer, in any order, leave in the workspace the sum over \<open>P\<close> of the expression.\<close>

lemma producer_fills:
  assumes Q: "mset (map fst Q) = mset (J @ P)" "distinct (J @ P)"
    and pa: "acc_indexVars pa = J" "acc_windowedModes pa = []" "acc_indexSetModes pa = []"
    and e: "count_reductions e = 0" "tensor_of pa \<notin> tensor_of ` set (reads_of e)"
    and opn: "opn = Add_op \<or> opn = NoExpr \<and> P = []" and st: "st (tensor_of pa) = (\<lambda>_. 0)"
  shows "(\<forall>t. t \<noteq> tensor_of pa \<longrightarrow> exec T sz (nest Q (AssignmentNode pa e opn)) \<rho> st t = st t) \<and>
    (\<forall>ks. in_range sz J ks \<longrightarrow> exec T sz (nest Q (AssignmentNode pa e opn)) \<rho> st (tensor_of pa) (map int ks) =
       expr_value T sz st (bind_vars \<rho> J ks) (foldr sum_expr P e))"
proof -
  let ?t = "tensor_of pa" and ?E = "foldr sum_expr P e"
  let ?plain = "map (\<lambda>v. (v, NotParallel, IgnoreRaces, 0)) (J @ P) :: loop list"
  have "exec T sz (nest Q (AssignmentNode pa e opn)) = exec T sz (nest ?plain (AssignmentNode pa e opn))"
    by (rule nest_permute) (use Q pa e opn in \<open>auto simp: comp_def loops_commute_def Add_op_def\<close>)
  also have "\<dots> = exec T sz (foldr forall_stmt J (foldr forall_stmt P (AssignmentNode pa e opn)))"
    by (simp only: nest_plain [symmetric] foldr_append)
  also have "\<dots> = exec T sz (foldr forall_stmt J (AssignmentNode pa ?E opn))"
    by (rule exec_foralls_cong, rule reduction_nest) (use Q(2) pa e opn in auto)
  finally have 1: "exec T sz (nest Q (AssignmentNode pa e opn)) = exec T sz (foldr forall_stmt J (AssignmentNode pa ?E opn))" .
  define G where "G \<rho> x = (if opn = NoExpr then 0 else x) + expr_value T sz st \<rho> ?E" for \<rho> :: env and x :: int
  have "exec T sz (AssignmentNode pa ?E opn) \<rho>' st' =
      write_tensor ?t (map \<rho>' ([] @ J)) (G \<rho>' (st' ?t (map \<rho>' ([] @ J)))) st'" if "\<And>t'. t' \<noteq> ?t \<Longrightarrow> st' t' = st t'" for \<rho>' st'
  proof -
    have "expr_value T sz st' \<rho>' ?E = expr_value T sz st \<rho>' ?E"
      by (rule expr_value_off [of ?t]) (use e(2) that in \<open>auto simp: sums_facts\<close>)
    then show ?thesis using opn pa by (auto simp: assign_tensor_def G_def coords_plain apply_operator_def Add_op_def Let_def)
  qed
  then have "loop_writes ?t (loops_writes sz [] J G \<rho>) st (exec T sz (foldr forall_stmt J (AssignmentNode pa ?E opn)) \<rho> st)"
    by (rule free_loops) (use Q(2) in auto)
  then show ?thesis unfolding 1 using st by (auto simp: loop_writes_def loops_writes_def G_def)
qed

subsection \<open>The consumer\<close>

fun occurs :: "IndexExpr \<Rightarrow> IndexExpr \<Rightarrow> bool" where
  "occurs e (NegNode x) \<longleftrightarrow> e = NegNode x \<or> occurs e x"
| "occurs e (SqrtNode x) \<longleftrightarrow> e = SqrtNode x \<or> occurs e x"
| "occurs e (AddNode x y) \<longleftrightarrow> e = AddNode x y \<or> occurs e x \<or> occurs e y"
| "occurs e (SubNode x y) \<longleftrightarrow> e = SubNode x y \<or> occurs e x \<or> occurs e y"
| "occurs e (MulNode x y) \<longleftrightarrow> e = MulNode x y \<or> occurs e x \<or> occurs e y"
| "occurs e (DivNode x y) \<longleftrightarrow> e = DivNode x y \<or> occurs e x \<or> occurs e y"
| "occurs e (CastNode t x) \<longleftrightarrow> occurs e x"
| "occurs e (CallIntrinsicNode f xs) \<longleftrightarrow> list_ex (occurs e) xs"
| "occurs e (ReductionNode opn v x) \<longleftrightarrow> e = ReductionNode opn v x \<or> occurs e x"
| "occurs e x \<longleftrightarrow> e = x"

lemma substituted_single: "substituted [e \<mapsto> y] x z = (if x = e then y else z)"
  by (simp add: substituted_def)

lemma replace_no_occurrence: "e \<noteq> NoExpr \<Longrightarrow> \<not> occurs e x \<Longrightarrow> replace_expr [e \<mapsto> y] x = x"
  by (induction x) (auto simp: substituted_single list_ex_iff map_idI simp del: fun_upd_apply)

text \<open>The expression is a factor of the terms of the other: multiplying it multiplies all of it.\<close>

fun linear_in :: "IndexExpr \<Rightarrow> IndexExpr \<Rightarrow> bool" where
  "linear_in e (NegNode x) \<longleftrightarrow> e = NegNode x \<or> linear_in e x"
| "linear_in e (AddNode x y) \<longleftrightarrow> e = AddNode x y \<or> linear_in e x \<and> linear_in e y"
| "linear_in e (SubNode x y) \<longleftrightarrow> e = SubNode x y \<or> linear_in e x \<and> linear_in e y"
| "linear_in e (MulNode x y) \<longleftrightarrow> e = MulNode x y \<or> linear_in e x \<and> \<not> occurs e y \<or> \<not> occurs e x \<and> linear_in e y"
| "linear_in e (CastNode t x) \<longleftrightarrow> False"
| "linear_in e (CallIntrinsicNode f xs) \<longleftrightarrow> False"
| "linear_in e x \<longleftrightarrow> e = x"

lemma sum_list_negf: "(\<Sum>k\<leftarrow>ks. - f k) = - (\<Sum>k\<leftarrow>ks. f k :: int)"
  by (induction ks) simp_all

lemma sum_over_neg: "sum_over sz vs (\<lambda>\<rho>. - f \<rho>) \<rho> = - sum_over sz vs f \<rho>"
proof (induction vs arbitrary: \<rho>)
  case (Cons v vs)
  show ?case unfolding sum_over.simps Cons.IH sum_list_negf ..
qed simp

lemma sum_over_add: "sum_over sz vs (\<lambda>\<rho>. f \<rho> + g \<rho>) \<rho> = sum_over sz vs f \<rho> + sum_over sz vs g \<rho>"
proof (induction vs arbitrary: \<rho>)
  case (Cons v vs)
  show ?case unfolding sum_over.simps Cons.IH sum_list_addf ..
qed simp

lemma sum_over_sub: "sum_over sz vs (\<lambda>\<rho>. f \<rho> - g \<rho>) \<rho> = sum_over sz vs f \<rho> - sum_over sz vs g \<rho>"
proof (induction vs arbitrary: \<rho>)
  case (Cons v vs)
  show ?case unfolding sum_over.simps Cons.IH sum_list_subtractf ..
qed simp

lemma sum_over_scale: "sum_over sz vs (\<lambda>\<rho>. f \<rho> * c) \<rho> = sum_over sz vs f \<rho> * c"
proof (induction vs arbitrary: \<rho>)
  case (Cons v vs)
  show ?case unfolding sum_over.simps Cons.IH sum_list_mult_const ..
qed simp

lemma sum_over_const:
  assumes "\<And>\<rho>'. (\<And>v. v \<notin> set vs \<Longrightarrow> \<rho>' v = \<rho> v) \<Longrightarrow> c \<rho>' = c \<rho>"
  shows "sum_over sz vs (\<lambda>\<rho>'. f \<rho>' * c \<rho>') \<rho> = sum_over sz vs f \<rho> * c \<rho>"
proof -
  have "sum_over sz vs (\<lambda>\<rho>'. f \<rho>' * c \<rho>') \<rho> = sum_over sz vs (\<lambda>\<rho>'. f \<rho>' * c \<rho>) \<rho>"
  proof (rule sum_over_cong)
    fix \<rho>' :: env
    assume "\<And>v. v \<notin> set vs \<Longrightarrow> \<rho>' v = \<rho> v"
    then have "c \<rho>' = c \<rho>" by (rule assms)
    then show "f \<rho>' * c \<rho>' = f \<rho>' * c \<rho>" by simp
  qed
  then show ?thesis by (simp add: sum_over_scale)
qed

lemma access_vars_append: "access_vars (as @ bs) = access_vars as @ access_vars bs"
  by (simp add: access_vars_def)

text \<open>Replacing a factor by its sum sums the expression.\<close>

lemma replace_linear:
  assumes "linear_in e x" "e \<noteq> NoExpr" "set P \<inter> set (access_vars (reads_of (replace_expr [e \<mapsto> y] x))) = {}"
    and y: "expr_value T sz st' \<rho> y = sum_over sz P (\<lambda>\<rho>. expr_value T sz st \<rho> e) \<rho>"
    and st: "\<And>a. a \<in> set (reads_of x) \<Longrightarrow> st' (tensor_of a) = st (tensor_of a)"
  shows "expr_value T sz st' \<rho> (replace_expr [e \<mapsto> y] x) = sum_over sz P (\<lambda>\<rho>. expr_value T sz st \<rho> x) \<rho>"
  using assms(1,3) st
proof (induction x)
  case (MulNode a b)
  have factor: "expr_value T sz st' \<rho> (replace_expr [e \<mapsto> y] (MulNode a b)) = sum_over sz P (\<lambda>\<rho>. expr_value T sz st \<rho> (MulNode a b)) \<rho>"
    if n: "e \<noteq> MulNode a b" and c: "\<not> occurs e d" "c = a \<and> d = b \<or> c = b \<and> d = a"
      and IH: "expr_value T sz st' \<rho> (replace_expr [e \<mapsto> y] c) = sum_over sz P (\<lambda>\<rho>. expr_value T sz st \<rho> c) \<rho>" for c d
  proof -
    have d: "replace_expr [e \<mapsto> y] d = d" by (rule replace_no_occurrence [OF assms(2) c(1)])
    then have vd: "set P \<inter> set (access_vars (reads_of d)) = {}"
      using MulNode.prems(2) n c(2) by (auto simp: substituted_single access_vars_append Int_Un_distrib simp del: fun_upd_apply)
    have "expr_value T sz st \<rho>' d = expr_value T sz st \<rho> d" if "\<And>v. v \<notin> set P \<Longrightarrow> \<rho>' v = \<rho> v" for \<rho>'
      by (rule expr_value_env) (use that vd in auto)
    then have s: "sum_over sz P (\<lambda>\<rho>. expr_value T sz st \<rho> c * expr_value T sz st \<rho> d) \<rho> =
        sum_over sz P (\<lambda>\<rho>. expr_value T sz st \<rho> c) \<rho> * expr_value T sz st \<rho> d"
      by (rule sum_over_const)
    have "expr_value T sz st' \<rho> d = expr_value T sz st \<rho> d"
      by (rule expr_value_cong) (use MulNode.prems(3) c(2) in auto)
    then show ?thesis using s IH d n c(2) by (auto simp: substituted_single mult.commute simp del: fun_upd_apply)
  qed
  show ?case
  proof (cases "e = MulNode a b")
    case True
    then show ?thesis using y by (simp add: substituted_single del: fun_upd_apply)
  next
    case False
    have v: "set P \<inter> set (access_vars (reads_of (replace_expr [e \<mapsto> y] a))) = {}"
      "set P \<inter> set (access_vars (reads_of (replace_expr [e \<mapsto> y] b))) = {}"
      using MulNode.prems(2) False by (auto simp: substituted_single access_vars_append Int_Un_distrib simp del: fun_upd_apply)
    consider "linear_in e a" "\<not> occurs e b" | "\<not> occurs e a" "linear_in e b" using MulNode.prems(1) False by auto
    then show ?thesis
    proof cases
      case 1
      show ?thesis by (rule factor [OF False 1(2), of a]) (use MulNode 1 v in \<open>auto simp del: fun_upd_apply\<close>)
    next
      case 2
      show ?thesis by (rule factor [OF False 2(1), of b]) (use MulNode 2 v in \<open>auto simp del: fun_upd_apply\<close>)
    qed
  qed
qed (use y assms(2) in \<open>auto simp: substituted_single access_vars_append Int_Un_distrib sum_over_neg sum_over_add sum_over_sub simp del: fun_upd_apply\<close>)

lemma sum_over_renamed:
  assumes "distinct P" "\<And>v. v \<in> set P \<Longrightarrow> renamed m v = v"
    and "\<And>v. v \<in> set (access_vars (reads_of e)) \<Longrightarrow> v \<notin> set P \<Longrightarrow> renamed m v \<notin> set P \<and> \<rho> (renamed m v) = \<rho>' v"
  shows "sum_over sz P (\<lambda>\<rho>. expr_value T sz st (\<lambda>v. \<rho> (renamed m v)) e) \<rho> = sum_over sz P (\<lambda>\<rho>. expr_value T sz st \<rho> e) \<rho>'"
  using assms
proof (induction P arbitrary: \<rho> \<rho>')
  case Nil
  then show ?case by (simp, intro expr_value_env) simp
next
  case (Cons p P)
  have "sum_over sz P (\<lambda>\<rho>. expr_value T sz st (\<lambda>v. \<rho> (renamed m v)) e) (\<rho>(p := int k)) =
      sum_over sz P (\<lambda>\<rho>. expr_value T sz st \<rho> e) (\<rho>'(p := int k))" for k
  proof (rule Cons.IH)
    fix v
    assume v: "v \<in> set (access_vars (reads_of e))" "v \<notin> set P"
    show "renamed m v \<notin> set P \<and> (\<rho>(p := int k)) (renamed m v) = (\<rho>'(p := int k)) v"
    proof (cases "v = p")
      case True
      then show ?thesis using Cons.prems(1) Cons.prems(2) [of p] by simp
    next
      case False
      then show ?thesis using Cons.prems(3) [OF v(1)] v(2) by auto
    qed
  qed (use Cons.prems in auto)
  then show ?case by simp
qed

text \<open>How the variables of an expression and of its workspace go together.\<close>

definition renames_to :: "renaming \<Rightarrow> IndexVar list \<Rightarrow> IndexVar list \<Rightarrow> bool" where
  "renames_to m I J \<longleftrightarrow> length J = length I \<and> (\<forall>n < length I. renamed m (I ! n) = J ! n) \<and> (\<forall>v. v \<notin> set I \<longrightarrow> renamed m v = v)"

definition workspace_vars :: "(IndexVar \<Rightarrow> nat) \<Rightarrow> renaming \<Rightarrow> IndexVar list \<Rightarrow> IndexVar list \<Rightarrow> IndexVar list \<Rightarrow> IndexExpr \<Rightarrow> bool" where
  "workspace_vars sz m I J P e \<longleftrightarrow> renames_to m I J \<and> distinct (J @ P) \<and> set P \<inter> set I = {} \<and>
     (\<forall>n < length I. sz (J ! n) = sz (I ! n)) \<and> (\<forall>v \<in> set J - set I. v \<notin> set (access_vars (reads_of e)))"

lemma workspace_read:
  assumes fills: "\<And>ks. in_range sz J ks \<Longrightarrow> c (map int ks) = expr_value T sz st (bind_vars \<rho> J ks) (foldr sum_expr P e')"
    and e: "renames_expr m e e'" "count_reductions e = 0" and vars: "workspace_vars sz m I J P e"
    and I: "\<And>v. v \<in> set I \<Longrightarrow> \<exists>k < sz v. \<rho>' v = int k"
    and other: "\<And>v. v \<in> set (access_vars (reads_of e)) \<Longrightarrow> v \<notin> set I \<Longrightarrow> v \<notin> set P \<Longrightarrow> \<rho>' v = \<rho> v"
  shows "c (map \<rho>' I) = sum_over sz P (\<lambda>\<rho>. expr_value T sz st \<rho> e) \<rho>'"
proof -
  let ?ks = "map (nat \<circ> \<rho>') I"
  have len: "length J = length I" and d: "distinct J" "distinct P" and m: "\<And>n. n < length I \<Longrightarrow> renamed m (I ! n) = J ! n"
    "\<And>v. v \<notin> set I \<Longrightarrow> renamed m v = v" and sz: "\<And>n. n < length I \<Longrightarrow> sz (J ! n) = sz (I ! n)"
    using vars by (auto simp: workspace_vars_def renames_to_def)
  have k: "map int ?ks = map \<rho>' I" using I by fastforce
  have "?ks ! n < sz (J ! n)" if "n < length I" for n
    using I [of "I ! n"] sz [OF that] that by auto
  then have "in_range sz J ?ks" by (simp add: in_range_def list_all2_conv_all_nth len)
  from fills [OF this] have "c (map \<rho>' I) = sum_over sz P (\<lambda>\<rho>. expr_value T sz st \<rho> e') (bind_vars \<rho> J ?ks)"
    by (simp only: k sums_value)
  also have "\<dots> = sum_over sz P (\<lambda>\<rho>. expr_value T sz st (\<lambda>v. \<rho> (renamed m v)) e) (bind_vars \<rho> J ?ks)"
    by (simp only: renames_value [OF e])
  also have "\<dots> = sum_over sz P (\<lambda>\<rho>. expr_value T sz st \<rho> e) \<rho>'"
  proof (rule sum_over_renamed [OF d(2)])
    show "renamed m v = v" if "v \<in> set P" for v using that m(2) vars by (auto simp: workspace_vars_def)
    fix v
    assume v: "v \<in> set (access_vars (reads_of e))" "v \<notin> set P"
    show "renamed m v \<notin> set P \<and> bind_vars \<rho> J ?ks (renamed m v) = \<rho>' v"
    proof (cases "v \<in> set I")
      case True
      then obtain n where n: "n < length I" "v = I ! n" by (metis in_set_conv_nth)
      have "bind_vars \<rho> J ?ks (J ! n) = int (?ks ! n)" by (rule bind_vars_nth) (use d len n in simp_all)
      moreover have "J ! n \<in> set J" using n(1) len by simp
      then have "J ! n \<notin> set P" using vars unfolding workspace_vars_def distinct_append by blast
      ultimately show ?thesis using I [OF True] n m(1) by auto
    next
      case False
      then have "v \<notin> set J" using v(1) vars by (auto simp: workspace_vars_def)
      then show ?thesis using v False m(2) other by (simp add: bind_vars_other)
    qed
  qed
  finally show ?thesis .
qed

subsection \<open>The where statement\<close>

definition agree_off :: "nat \<Rightarrow> tensors \<Rightarrow> tensors \<Rightarrow> bool" where
  "agree_off w st st' \<longleftrightarrow> (\<forall>t. t \<noteq> w \<longrightarrow> st t = st' t)"

definition plain_modes :: "Access \<Rightarrow> bool" where
  "plain_modes a \<longleftrightarrow> acc_windowedModes a = [] \<and> acc_indexSetModes a = [] \<and> \<not> acc_isAccessingStructure a"

lemma plain_coords: "plain_modes a \<Longrightarrow> coords \<rho> a = map \<rho> (acc_indexVars a)"
  by (simp add: plain_modes_def coords_plain)

lemma defined_by_nest [simp]: "defined_by (nest ls s) = defined_by s"
  by (induction ls) (auto simp: nest_def split_beta)

lemma occurs_reads: "occurs e x \<Longrightarrow> set (reads_of e) \<subseteq> set (reads_of x)"
  by (induction x) (fastforce simp: list_ex_iff)+

lemma occurs_reductions: "occurs e x \<Longrightarrow> count_reductions x = 0 \<Longrightarrow> count_reductions e = 0"
  by (induction x) (auto simp: list_ex_iff)

text \<open>Assignments over the same environments agree when their values do.\<close>

lemma fold_assign_agree:
  assumes same: "\<And>\<rho> st st'. \<rho> \<in> set \<rho>s \<Longrightarrow> (\<And>t. t \<noteq> w \<Longrightarrow> st t = st' t) \<Longrightarrow> st w = c \<Longrightarrow> (\<And>t. t \<noteq> tensor_of lhs \<Longrightarrow> t \<noteq> w \<Longrightarrow> st' t = st0 t) \<Longrightarrow>
      expr_value T sz st \<rho> rhs' = expr_value T sz st' \<rho> rhs"
    and "tensor_of lhs \<noteq> w" "agree_off w st st'" "st w = c" "\<And>t. t \<noteq> tensor_of lhs \<Longrightarrow> t \<noteq> w \<Longrightarrow> st' t = st0 t"
  shows "agree_off w (fold (\<lambda>\<rho>. assign_tensor T sz \<rho> lhs rhs' opn) \<rho>s st) (fold (\<lambda>\<rho>. assign_tensor T sz \<rho> lhs rhs opn) \<rho>s st')"
  using assms(1,3-)
proof (induction \<rho>s arbitrary: st st')
  case (Cons \<rho> \<rho>s)
  have "expr_value T sz st \<rho> rhs' = expr_value T sz st' \<rho> rhs"
    by (rule Cons.prems(1)) (use Cons.prems in \<open>auto simp: agree_off_def\<close>)
  then have v: "agree_off w (assign_tensor T sz \<rho> lhs rhs' opn st) (assign_tensor T sz \<rho> lhs rhs opn st')"
    "assign_tensor T sz \<rho> lhs rhs' opn st w = st w"
    "\<And>t. t \<noteq> tensor_of lhs \<Longrightarrow> assign_tensor T sz \<rho> lhs rhs opn st' t = st' t"
    using Cons.prems(2) assms(2) by (auto simp: assign_tensor_def write_tensor_def agree_off_def Let_def)
  show ?case unfolding fold_simps o_apply by (rule Cons.IH) (use Cons.prems v in auto)
qed simp

lemma where_nest_effect:
  assumes C: "distinct (map fst C)" "set I \<subseteq> set (map fst C)" and Q: "mset (map fst Q) = mset (J @ P)"
    and wa: "plain_modes wa" "acc_indexVars wa = I" "tensor_of wa = w"
    and pa: "plain_modes pa" "acc_indexVars pa = J" "tensor_of pa = w"
    and lhs: "tensor_of lhs \<noteq> w" "tensor_of lhs \<notin> tensor_of ` set (reads_of rhs)" "w \<notin> tensor_of ` set (reads_of rhs)"
    and rhs: "count_reductions rhs = 0" "occurs e rhs" "e \<noteq> NoExpr" "renames_expr m e e'"
    and vars: "workspace_vars sz m I J P e" "set P \<inter> set (map fst C) = {}"
      "set (access_vars (reads_of e)) \<inter> set (map fst C) \<subseteq> set I"
    and rhs': "rhs' = replace_expr [e \<mapsto> AccessNode wa] rhs" "set P \<inter> set (access_vars (reads_of rhs')) = {}"
    and linear: "P = [] \<or> linear_in e rhs" and opn: "opn' = Add_op \<or> opn' = NoExpr \<and> P = []"
    and st: "agree_off w st st'"
  shows "agree_off w (exec T sz (WhereNode (nest C (AssignmentNode lhs rhs' opn)) (nest Q (AssignmentNode pa e' opn'))) \<rho> st)
    (exec T sz (nest C (AssignmentNode lhs (foldr sum_expr P rhs) opn)) \<rho> st')"
proof -
  let ?producer = "nest Q (AssignmentNode pa e' opn')"
  define st0 where "st0 = (\<lambda>t. if t \<in> defined_by ?producer then (\<lambda>_. 0) else st t)"
  define st1 where "st1 = exec T sz ?producer \<rho> st0"
  have ce: "count_reductions e = 0" using occurs_reductions rhs(1,2) by blast
  have re: "set (reads_of e) \<subseteq> set (reads_of rhs)" using occurs_reads [OF rhs(2)] .
  have "tensor_of ` set (reads_of e') = tensor_of ` set (reads_of e)"
    using renames_parts(1) [OF rhs(4)]
    by (induction rule: list_all2_induct) (auto simp: renames_access_def)
  then have e': "count_reductions e' = 0" "tensor_of pa \<notin> tensor_of ` set (reads_of e')"
    using renames_parts(2) [OF rhs(4)] ce lhs(3) re pa(3) by auto
  have f: "(\<forall>t. t \<noteq> w \<longrightarrow> st1 t = st0 t) \<and>
      (\<forall>ks. in_range sz J ks \<longrightarrow> st1 w (map int ks) = expr_value T sz st0 (bind_vars \<rho> J ks) (foldr sum_expr P e'))"
    unfolding st1_def pa(3) [symmetric]
    by (rule producer_fills) (use Q vars(1) pa e' opn in \<open>auto simp: workspace_vars_def plain_modes_def st0_def\<close>)
  have off: "st1 t = st' t" if "t \<noteq> w" for t using f st that pa(3) by (auto simp: st0_def agree_off_def)
  let ?envs = "loop_envs sz (map fst C) \<rho>"
  have "agree_off w (fold (\<lambda>\<rho>. assign_tensor T sz \<rho> lhs rhs' opn) ?envs st1)
      (fold (\<lambda>\<rho>. assign_tensor T sz \<rho> lhs (foldr sum_expr P rhs) opn) ?envs st')"
  proof (rule fold_assign_agree [where c = "st1 w" and ?st0.0 = st'])
    fix \<rho>' sa sb
    assume \<rho>': "\<rho>' \<in> set ?envs" and s: "\<And>t. t \<noteq> w \<Longrightarrow> sa t = sb t" "sa w = st1 w" "\<And>t. t \<noteq> tensor_of lhs \<Longrightarrow> t \<noteq> w \<Longrightarrow> sb t = st' t"
    have reads: "sa (tensor_of a) = sb (tensor_of a)" "sb (tensor_of a) = st0 (tensor_of a)" if "a \<in> set (reads_of rhs)" for a
    proof -
      have "tensor_of a \<noteq> w" "tensor_of a \<noteq> tensor_of lhs" using that lhs by (metis imageI)+
      then show "sa (tensor_of a) = sb (tensor_of a)" "sb (tensor_of a) = st0 (tensor_of a)"
        using s st pa(3) by (simp_all add: st0_def agree_off_def)
    qed
    have out: "v \<notin> set (map fst C)" if "v \<in> set (access_vars (reads_of e))" "v \<notin> set I" for v
      using vars(3) that by blast
    have env: "(\<forall>v \<in> set (map fst C). \<exists>k < sz v. \<rho>' v = int k) \<and> (\<forall>v. v \<notin> set (map fst C) \<longrightarrow> \<rho>' v = \<rho> v)"
      using \<rho>' C(1) by (simp only: loop_envs_set)
    have "st1 w (map \<rho>' I) = sum_over sz P (\<lambda>\<rho>. expr_value T sz st0 \<rho> e) \<rho>'"
    proof (rule workspace_read [OF _ rhs(4) ce vars(1)])
      show "st1 w (map int ks) = expr_value T sz st0 (bind_vars \<rho> J ks) (foldr sum_expr P e')" if "in_range sz J ks" for ks
        using f that by blast
    qed (use env out C(2) in blast)+
    moreover have "expr_value T sz st0 \<rho> e = expr_value T sz sb \<rho> e" for \<rho>
      by (rule expr_value_cong) (use reads re in auto)
    ultimately have y: "expr_value T sz sa \<rho>' (AccessNode wa) = sum_over sz P (\<lambda>\<rho>. expr_value T sz sb \<rho> e) \<rho>'"
      using wa s(2) by (simp add: read_tensor_def plain_coords) (simp add: plain_modes_def)
    show "expr_value T sz sa \<rho>' rhs' = expr_value T sz sb \<rho>' (foldr sum_expr P rhs)"
    proof (cases "P = []")
      case True
      show ?thesis unfolding rhs'(1) True foldr.simps id_apply
        by (rule replace_expr_value) (use rhs(1) reads y True in \<open>auto split: if_splits simp del: expr_value.simps\<close>)
    next
      case False
      then show ?thesis unfolding rhs'(1) sums_value
        by (intro replace_linear) (use linear rhs rhs' reads y in auto)
    qed
  qed (use lhs(1) off in \<open>auto simp: agree_off_def\<close>)
  then show ?thesis by (simp only: exec.simps(3) exec_nest exec_assign st1_def st0_def)
qed

subsection \<open>The loops around it\<close>

lemma agree_off_nest:
  assumes "\<And>\<rho> st st'. agree_off w st st' \<Longrightarrow> agree_off w (exec T sz s \<rho> st) (exec T sz s' \<rho> st')" "agree_off w st st'"
  shows "agree_off w (exec T sz (nest ls s) \<rho> st) (exec T sz (nest ls s') \<rho> st')"
proof -
  have "agree_off w (fold (exec T sz s) \<rho>s st) (fold (exec T sz s') \<rho>s st')" for \<rho>s
    using assms(2) by (induction \<rho>s arbitrary: st st') (simp_all add: assms(1) del: exec.simps)
  then show ?thesis by (simp only: exec_nest)
qed

text \<open>From a result that is zero, accumulating in each coordinate once is the same as assigning.\<close>

lemma zero_start:
  assumes "distinct (map fst ls)" "set (map fst ls) \<subseteq> set (acc_indexVars lhs)" "plain_modes lhs"
    and "st (tensor_of lhs) = (\<lambda>_. 0)"
  shows "exec T sz (nest ls (AssignmentNode lhs rhs Add_op)) \<rho> st = exec T sz (nest ls (AssignmentNode lhs rhs NoExpr)) \<rho> st"
proof -
  let ?envs = "loop_envs sz (map fst ls) \<rho>"
  have inj: "x = y" if xy: "x \<in> set ?envs" "y \<in> set ?envs" and c: "coords x lhs = coords y lhs" for x y
  proof
    fix v
    have "map x (acc_indexVars lhs) = map y (acc_indexVars lhs)" using c assms(3) by (simp add: plain_coords)
    then show "x v = y v" using xy assms(1,2) by (cases "v \<in> set (map fst ls)") (auto simp: loop_envs_set simp del: set_map)
  qed
  have "fold (\<lambda>\<rho>. assign_tensor T sz \<rho> lhs rhs Add_op) \<rho>s st = fold (\<lambda>\<rho>. assign_tensor T sz \<rho> lhs rhs NoExpr) \<rho>s st"
    if "distinct \<rho>s" "set \<rho>s \<subseteq> set ?envs" "\<forall>\<rho> \<in> set \<rho>s. st (tensor_of lhs) (coords \<rho> lhs) = 0" for \<rho>s
    using that
  proof (induction \<rho>s arbitrary: st)
    case (Cons \<rho>' \<rho>s)
    have e: "assign_tensor T sz \<rho>' lhs rhs Add_op st = assign_tensor T sz \<rho>' lhs rhs NoExpr st"
      using Cons.prems(3) by (simp add: assign_tensor_def Let_def apply_operator_def Add_op_def)
    have "coords x lhs \<noteq> coords \<rho>' lhs" if "x \<in> set \<rho>s" for x using inj [of x \<rho>'] that Cons.prems by auto
    then show ?case unfolding fold_simps o_apply e
      by (intro Cons.IH) (use Cons.prems in \<open>auto simp: assign_tensor_def Let_def\<close>)
  qed simp
  then show ?thesis using assms(1,4) by (simp add: exec_nest exec_assign loop_envs_distinct del: exec.simps)
qed

text \<open>The loops \<open>ls\<close> become those around the where statement and those of its consumer, and those of the sums.\<close>

definition loops_split :: "loop list \<Rightarrow> IndexVar list \<Rightarrow> IndexVar list \<Rightarrow> IndexVar list \<Rightarrow> bool" where
  "loops_split ls outer consumer P \<longleftrightarrow> distinct (map fst ls) \<and> mset (map fst ls) = mset (outer @ consumer @ P) \<and>
     (P = [] \<longrightarrow> map fst ls = outer @ consumer)"

lemma loops_split_effect:
  assumes "loops_split ls outer consumer P" "P = [] \<or> opn = Add_op" "set P \<inter> set (acc_indexVars lhs) = {}"
    and "count_reductions rhs = 0" "tensor_of lhs \<notin> tensor_of ` set (reads_of rhs)"
  shows "exec T sz (nest ls (AssignmentNode lhs rhs opn)) =
    exec T sz (foldr forall_stmt outer (foldr forall_stmt consumer (AssignmentNode lhs (foldr sum_expr P rhs) opn)))"
proof -
  have "exec T sz (nest ls (AssignmentNode lhs rhs opn)) = exec T sz (foldr forall_stmt (outer @ consumer @ P) (AssignmentNode lhs rhs opn))"
  proof (cases "P = []")
    case True
    then have v: "map fst ls = outer @ consumer @ P" using assms(1) by (simp add: loops_split_def)
    show ?thesis unfolding nest_plain fun_eq_iff [of "exec _ _ _"] fun_eq_iff [of "exec _ _ _ _"] exec_nest v [symmetric]
      by (simp add: comp_def del: exec.simps)
  next
    case False
    show ?thesis unfolding nest_plain
      by (rule nest_permute [symmetric])
        (use assms False in \<open>auto simp: loops_split_def loops_commute_def comp_def Add_op_def\<close>)
  qed
  also have "\<dots> = exec T sz (foldr forall_stmt (outer @ consumer) (foldr forall_stmt P (AssignmentNode lhs rhs opn)))"
    by simp
  also have "\<dots> = exec T sz (foldr forall_stmt (outer @ consumer) (AssignmentNode lhs (foldr sum_expr P rhs) opn))"
    by (rule exec_foralls_cong, rule reduction_nest) (use assms in auto)
  finally show ?thesis by simp
qed

text \<open>The operator of the consumer is that of the assignment, or it assigns where the assignment accumulates once in each
  coordinate of a result that is zero.\<close>

definition same_result :: "IndexVar list \<Rightarrow> Access \<Rightarrow> IndexExpr \<Rightarrow> IndexExpr \<Rightarrow> tensors \<Rightarrow> bool" where
  "same_result vs lhs opn opn' st \<longleftrightarrow> opn' = opn \<or>
     opn' = NoExpr \<and> opn = Add_op \<and> set vs \<subseteq> set (acc_indexVars lhs) \<and> plain_modes lhs \<and> st (tensor_of lhs) = (\<lambda>_. 0)"

lemma same_result_effect:
  assumes "same_result vs lhs opn opn' st" "distinct vs"
  shows "exec T sz (foldr forall_stmt vs (AssignmentNode lhs e opn)) \<rho> st = exec T sz (foldr forall_stmt vs (AssignmentNode lhs e opn')) \<rho> st"
proof (cases "opn' = opn")
  case False
  then show ?thesis
    using assms zero_start [of "map (\<lambda>v. (v, NotParallel, IgnoreRaces, 0)) vs" lhs st T sz e \<rho>]
    by (simp add: same_result_def nest_plain comp_def)
qed simp

lemma workspace_preserves:
  assumes split: "loops_split ls outer consumer P" "set I \<subseteq> set consumer" "mset producer = mset (J @ P)"
    and wa: "plain_modes wa" "acc_indexVars wa = I" "tensor_of wa = w"
    and pa: "plain_modes pa" "acc_indexVars pa = J" "tensor_of pa = w"
    and lhs: "tensor_of lhs \<noteq> w" "tensor_of lhs \<notin> tensor_of ` set (reads_of rhs)" "w \<notin> tensor_of ` set (reads_of rhs)"
    and rhs: "count_reductions rhs = 0" "occurs e rhs" "e \<noteq> NoExpr" "renames_expr m e e'"
    and vars: "workspace_vars sz m I J P e" "set (access_vars (reads_of e)) \<inter> set consumer \<subseteq> set I" "set P \<inter> set (acc_indexVars lhs) = {}"
    and rhs': "rhs' = replace_expr [e \<mapsto> AccessNode wa] rhs" "set P \<inter> set (access_vars (reads_of rhs')) = {}"
    and opn: "P = [] \<or> linear_in e rhs \<and> opn = Add_op" "opnp = Add_op \<or> opnp = NoExpr \<and> P = []"
      "same_result (outer @ consumer) lhs opn opn' st"
  shows "agree_off w
    (exec T sz (foldr forall_stmt outer (WhereNode (foldr forall_stmt consumer (AssignmentNode lhs rhs' opn'))
       (foldr forall_stmt producer (AssignmentNode pa e' opnp)))) \<rho> st)
    (exec T sz (nest ls (AssignmentNode lhs rhs opn)) \<rho> st)"
proof -
  let ?E = "foldr sum_expr P rhs"
  have "distinct (outer @ consumer @ P)"
    using split(1) mset_eq_imp_distinct_iff unfolding loops_split_def by blast
  then have d: "distinct (outer @ consumer)" "distinct consumer" "set P \<inter> set consumer = {}" by auto
  let ?where = "WhereNode (foldr forall_stmt consumer (AssignmentNode lhs rhs' opn')) (foldr forall_stmt producer (AssignmentNode pa e' opnp))"
  have "agree_off w (exec T sz (nest (map (\<lambda>v. (v, NotParallel, IgnoreRaces, 0)) outer) ?where) \<rho> st)
      (exec T sz (nest (map (\<lambda>v. (v, NotParallel, IgnoreRaces, 0)) outer) (foldr forall_stmt consumer (AssignmentNode lhs ?E opn'))) \<rho> st)"
  proof (rule agree_off_nest)
    fix \<rho> st st'
    assume "agree_off w st st'"
    then show "agree_off w (exec T sz ?where \<rho> st) (exec T sz (foldr forall_stmt consumer (AssignmentNode lhs ?E opn')) \<rho> st')"
      unfolding nest_plain
      by (intro where_nest_effect [where I = I and J = J and e = e and wa = wa and m = m])
        (use assms d in \<open>auto simp: comp_def\<close>)
  qed (simp add: agree_off_def)
  then have 1: "agree_off w (exec T sz (foldr forall_stmt outer ?where) \<rho> st)
      (exec T sz (foldr forall_stmt (outer @ consumer) (AssignmentNode lhs ?E opn')) \<rho> st)"
    by (simp add: nest_plain)
  have "exec T sz (nest ls (AssignmentNode lhs rhs opn)) \<rho> st =
      exec T sz (foldr forall_stmt (outer @ consumer) (AssignmentNode lhs ?E opn)) \<rho> st"
    using loops_split_effect [OF split(1), of opn lhs rhs T sz] opn(1) vars(3) rhs(1) lhs(2) by auto
  also have "\<dots> = exec T sz (foldr forall_stmt (outer @ consumer) (AssignmentNode lhs ?E opn')) \<rho> st"
    by (rule same_result_effect [OF opn(3) d(1)])
  finally show ?thesis using 1 by simp
qed

end
