(* ===== verification/Precompute_Sound.thy ===== *)
theory Precompute_Sound
  imports Workspace_Sound
begin

text \<open>
  Precomputing an expression of a nest of loops keeps what the nest computes.
\<close>

subsection \<open>The relations of the schedule\<close>

definition with_relations :: "IndexStmt \<Rightarrow> IndexVarRel list \<Rightarrow> IndexStmt" where
  "with_relations s rels = (if rels = [] then s else SuchThatNode s rels)"

definition precompute_relations :: "(IndexVar \<times> IndexVar) list \<Rightarrow> IndexVarRel list" where
  "precompute_relations ps = map (\<lambda>(i, iw). PrecomputeRel i iw) (filter (\<lambda>(i, iw). i \<noteq> iw) ps)"

definition relating :: "IndexVar \<times> IndexVar \<Rightarrow> IndexStmt \<Rightarrow> IndexStmt res" where
  "relating p s = (case p of (i, iw) \<Rightarrow>
     if i \<noteq> iw then bindR (apply_AddSuchThatPredicates [PrecomputeRel i iw] s) defined_or_error else ok s)"

lemma exec_with_relations [simp]: "exec T sz (with_relations s rels) \<rho> st = exec T sz s \<rho> st"
  by (simp add: with_relations_def)

lemma relations_added:
  assumes "foldR relating ps (with_relations (nest ls (AssignmentNode lhs rhs opn)) rels) = ok s'"
  shows "s' = with_relations (nest ls (AssignmentNode lhs rhs opn)) (rels @ precompute_relations ps)"
  using assms
proof (induction ps arbitrary: rels)
  case (Cons p ps)
  let ?s = "nest ls (AssignmentNode lhs rhs opn)"
  obtain i iw where p: "p = (i, iw)" by (cases p)
  have n: "?s \<noteq> SuchThatNode s r" for s r by (cases ls) (auto simp: nest_def split_beta)
  then have c: "(case ?s of SuchThatNode s' q \<Rightarrow> X s' q | _ \<Rightarrow> Y) = Y" for X Y by (cases ?s) auto
  show ?case
  proof (cases "i = iw")
    case True
    then show ?thesis using Cons p by (simp add: relating_def precompute_relations_def)
  next
    case False
    obtain s1 where s1: "relating p (with_relations ?s rels) = ok s1" "foldR relating ps s1 = ok s'"
      using Cons.prems by (auto simp: res_simps)
    then have "s1 = with_relations ?s (rels @ [PrecomputeRel i iw])"
      using False c by (auto simp: relating_def p apply_AddSuchThatPredicates_def defined_or_error_def ifR_def with_relations_def
        stmt_defined_def res_simps split: if_splits)
    then show ?thesis using Cons.IH [of "rels @ [PrecomputeRel i iw]"] s1(2) False p by (simp add: precompute_relations_def)
  qed
qed (simp add: precompute_relations_def)

text \<open>In the graph of these relations a variable has the variable of the workspace as its child.\<close>

lemma precompute_graph:
  assumes "foldR add_relation (precompute_relations ps) g = ok g'" "distinct (map fst ps)"
  shows "childrenMap g' v = (case map_of ps v of Some iw \<Rightarrow> if v = iw then childrenMap g v else Some [iw] | None \<Rightarrow> childrenMap g v)"
    "set (pg_nodes g) \<subseteq> set (pg_nodes g')" "\<And>i iw. (i, iw) \<in> set ps \<Longrightarrow> i \<noteq> iw \<Longrightarrow> i \<in> set (pg_nodes g')"
proof -
  have "(childrenMap g' v = (case map_of ps v of Some iw \<Rightarrow> if v = iw then childrenMap g v else Some [iw] | None \<Rightarrow> childrenMap g v)) \<and>
      set (pg_nodes g) \<subseteq> set (pg_nodes g') \<and> (\<forall>i iw. (i, iw) \<in> set ps \<longrightarrow> i \<noteq> iw \<longrightarrow> i \<in> set (pg_nodes g'))"
    using assms
  proof (induction ps arbitrary: g)
    case (Cons p ps)
    obtain i iw where p: "p = (i, iw)" by (cases p)
    have i: "map_of ps i = None" using Cons.prems(2) p by (simp add: map_of_eq_None_iff)
    show ?case
    proof (cases "i = iw")
      case True
      then show ?thesis using Cons p i by (auto simp: precompute_relations_def)
    next
      case False
      let ?g = "add_child (PrecomputeRel i iw) [i] iw (add_parent (PrecomputeRel i iw) [iw] i g)"
      have g: "childrenMap ?g = (childrenMap g)(i \<mapsto> [iw])" "set (pg_nodes ?g) = insert iw (insert i (set (pg_nodes g)))"
        by (simp_all add: add_child_def add_parent_def add_node_def)
      have "add_relation (PrecomputeRel i iw) g = ok ?g" by (simp add: add_relation_def)
      then have "foldR add_relation (precompute_relations ps) ?g = ok g'"
        using Cons.prems(1) False by (simp add: p precompute_relations_def)
      from Cons.IH [OF this] show ?thesis using Cons.prems(2) g p i False by (auto split: option.split)
    qed
  qed (simp add: precompute_relations_def)
  then show "childrenMap g' v = (case map_of ps v of Some iw \<Rightarrow> if v = iw then childrenMap g v else Some [iw] | None \<Rightarrow> childrenMap g v)"
    "set (pg_nodes g) \<subseteq> set (pg_nodes g')" "\<And>i iw. (i, iw) \<in> set ps \<Longrightarrow> i \<noteq> iw \<Longrightarrow> i \<in> set (pg_nodes g')"
    by blast+
qed

lemma nodes_children: "childrenMap (fold add_node vs g) = childrenMap g"
  by (induction vs arbitrary: g) (simp_all add: add_node_def)

text \<open>Loops over variables that are not those of the workspace are the loops the variables name.\<close>

lemma scheduled_is_member:
  assumes g: "ProvenanceGraph_make (with_relations (nest ls (AssignmentNode lhs rhs opn)) (precompute_relations ps)) = ok g"
    and ps: "distinct (map fst ps)" "\<And>i iw. (i, iw) \<in> set ps \<Longrightarrow> i \<noteq> iw \<Longrightarrow> iw \<noteq> v \<and> iw \<notin> fst ` set ps"
  shows "containsIndexVarScheduled g vs v = ok (v \<in> set vs)"
proof -
  let ?s = "nest ls (AssignmentNode lhs rhs opn)"
  let ?g0 = "fold add_node (forall_vars ?s) empty_graph"
  have "foldR add_relation (precompute_relations ps) ?g0 = ok g"
    using g by (cases ls) (auto simp: ProvenanceGraph_make_def with_relations_def nest_def split_beta Let_def split: if_splits)
  from precompute_graph [OF this ps(1)]
  have children: "getChildren g u = (case map_of ps u of Some iw \<Rightarrow> if u = iw then [] else [iw] | None \<Rightarrow> [])"
    and nodes: "\<And>i iw. (i, iw) \<in> set ps \<Longrightarrow> i \<noteq> iw \<Longrightarrow> i \<in> set (pg_nodes g)" for u
    by (auto simp: getChildren_def nodes_children empty_graph_def split: option.split)
  have desc: "\<exists>iw. getFullyDerivedDescendants g i = ok [iw] \<and> iw \<noteq> v" if nd: "\<not> isFullyDerived g i" for i
  proof -
    obtain iw where iw: "map_of ps i = Some iw" "i \<noteq> iw" "getChildren g i = [iw]"
      using nd children [of i] by (auto simp: isFullyDerived_def split: option.splits if_splits)
    then have m: "(i, iw) \<in> set ps" using map_of_SomeD by metis
    then have "map_of ps iw = None" using ps(2) iw(2) by (auto simp: map_of_eq_None_iff)
    then have "getChildren g iw = []" using children [of iw] by simp
    moreover obtain n where "depth g = Suc (Suc n)"
      using nodes [OF m iw(2)] by (cases "pg_nodes g") (auto simp: depth_def)
    ultimately show ?thesis using iw ps(2) [OF m iw(2)] by (simp add: getFullyDerivedDescendants_def concatR_def)
  qed
  have "foldR (\<lambda>i contains. if i = v then ok True
      else if isFullyDerived g v \<and> \<not> isFullyDerived g i
        then bindR (getFullyDerivedDescendants g i) (\<lambda>ds. ok (contains \<or> v \<in> set ds)) else ok contains) vs c = ok (c \<or> v \<in> set vs)" for c
  proof (induction vs arbitrary: c)
    case (Cons i vs)
    show ?case
    proof (cases "i = v \<or> isFullyDerived g i")
      case True
      then show ?thesis using Cons by auto
    next
      case False
      then obtain iw where "getFullyDerivedDescendants g i = ok [iw]" "iw \<noteq> v" using desc by blast
      then show ?thesis using False Cons by auto
    qed
  qed simp
  then show ?thesis by (simp add: containsIndexVarScheduled_def)
qed

subsection \<open>The split of the loops\<close>

definition inner_loops :: "IndexVar list \<Rightarrow> IndexVar set \<Rightarrow> IndexVar set \<Rightarrow> IndexVar list \<Rightarrow> IndexVar list" where
  "inner_loops I cv pv vs = rev (takeWhile (\<lambda>v. v \<in> set I \<or> v \<notin> cv \<or> v \<notin> pv) (rev vs))"

definition outer_loops :: "IndexVar list \<Rightarrow> IndexVar set \<Rightarrow> IndexVar set \<Rightarrow> IndexVar list \<Rightarrow> IndexVar list" where
  "outer_loops I cv pv vs = rev (dropWhile (\<lambda>v. v \<in> set I \<or> v \<notin> cv \<or> v \<notin> pv) (rev vs))"

lemma loops_appended: "vs = outer_loops I cv pv vs @ inner_loops I cv pv vs"
  by (simp add: inner_loops_def outer_loops_def flip: rev_append)

lemma split_stopped:
  assumes "\<And>v us. v \<in> set vs \<Longrightarrow> containsIndexVarScheduled g us v = ok (v \<in> set us)"
  shows "foldB (split_loop d g I cv pv) vs (D\<lparr>sp_stop := True\<rparr>) b = ok (D\<lparr>sp_outer := sp_outer D @ vs, sp_stop := True\<rparr>, b)"
  using assms
proof (induction vs arbitrary: D)
  case (Cons v vs)
  have "split_loop d g I cv pv v (D\<lparr>sp_stop := True\<rparr>) b = ok (D\<lparr>sp_outer := sp_outer D @ [v], sp_stop := True\<rparr>, b)"
    using Cons.prems by (simp add: split_loop_def bindB_def liftB_def retB_def)
  then show ?case using Cons.IH [of "D\<lparr>sp_outer := sp_outer D @ [v]\<rparr>"] Cons.prems by (simp add: bindB_def)
qed (simp add: retB_def)

lemma split_loops:
  fixes cv pv
  assumes g: "\<And>v us. v \<in> set vs \<Longrightarrow> containsIndexVarScheduled g us v = ok (v \<in> set us)"
    and D: "\<And>v. v \<in> set I \<Longrightarrow> sp_substitutions D v = Some (renamed m v)" "\<not> sp_stop D"
    and m: "\<And>v. v \<notin> set I \<Longrightarrow> renamed m v = v"
  defines "inner \<equiv> takeWhile (\<lambda>v. v \<in> set I \<or> v \<notin> set cv \<or> v \<notin> set pv) vs"
    and "outer \<equiv> dropWhile (\<lambda>v. v \<in> set I \<or> v \<notin> set cv \<or> v \<notin> set pv) vs"
  shows "foldB (split_loop d g I cv pv) vs D b =
    ok (D\<lparr>sp_producer := sp_producer D @ map (renamed m) (filter (\<lambda>v. v \<in> set I \<or> v \<notin> set cv \<and> v \<in> set pv) inner),
          sp_consumer := sp_consumer D @ filter (\<lambda>v. v \<in> set I \<or> v \<in> set cv) inner,
          sp_outer := sp_outer D @ outer, sp_stop := outer \<noteq> []\<rparr>, b)"
  using g D unfolding inner_def outer_def
proof (induction vs arbitrary: D)
  case (Cons v vs)
  have c: "containsIndexVarScheduled g us v = ok (v \<in> set us)" for us using Cons.prems(1) by simp
  consider "v \<in> set I" | "v \<notin> set I" "v \<in> set cv" "v \<in> set pv" | "v \<notin> set I" "v \<notin> set cv \<or> v \<notin> set pv" by blast
  then show ?case
  proof cases
    case 1
    have "split_loop d g I cv pv v D b = ok (D\<lparr>sp_producer := sp_producer D @ [renamed m v], sp_consumer := sp_consumer D @ [v]\<rparr>, b)"
      using 1 Cons.prems(2) [OF 1] Cons.prems(3) c by (simp add: split_loop_def substitution_of_def bindB_def liftB_def retB_def)
    then show ?thesis
      using 1 Cons.prems Cons.IH [of "D\<lparr>sp_producer := sp_producer D @ [renamed m v], sp_consumer := sp_consumer D @ [v]\<rparr>"]
      by (simp add: bindB_def)
  next
    case 2
    have "split_loop d g I cv pv v D b = ok (D\<lparr>sp_outer := sp_outer D @ [v], sp_stop := True\<rparr>, b)"
      using 2 Cons.prems(3) c by (simp add: split_loop_def bindB_def liftB_def retB_def)
    then show ?thesis
      using 2 Cons.prems(1) split_stopped [of vs g d I cv pv "D\<lparr>sp_outer := sp_outer D @ [v]\<rparr>" b] by (simp add: bindB_def)
  next
    case 3
    let ?D = "D\<lparr>sp_producer := sp_producer D @ (if v \<notin> set cv \<and> v \<in> set pv then [v] else []),
      sp_consumer := sp_consumer D @ (if v \<in> set cv then [v] else [])\<rparr>"
    have "split_loop d g I cv pv v D b = ok (?D, b)"
      using 3 Cons.prems(3) c by (auto simp: split_loop_def bindB_def liftB_def retB_def)
    then show ?thesis using 3 m Cons.prems Cons.IH [of ?D] by (auto simp: bindB_def)
  qed
qed (simp add: retB_def)

subsection \<open>The statement that is made\<close>

lemma generateForalls_foldr: "generateForalls s vs = foldr forall_stmt (rev vs) s"
  by (simp add: generateForalls_def foldr_conv_fold)

lemma set_assignment_vars: "set (assignment_vars (lhs, rhs, opn)) = set (acc_indexVars lhs) \<union> set (access_vars (reads_of rhs))"
  by (simp add: assignment_vars_def stmt_getIndexVars_def set_unseen)

lemma assignments_nest: "stmt_assignments f (nest ls (AssignmentNode lhs rhs opn)) = [(lhs, rhs, opn)]"
  by (induction ls) (simp_all add: nest_def split_beta)

lemma no_where_nest: "\<not> contains_where (nest ls (AssignmentNode lhs rhs opn))"
  by (induction ls) (simp_all add: nest_def split_beta)

lemma replace_nest_stmt:
  "replace_stmt m (\<lambda>_. None) (nest ls (AssignmentNode lhs rhs opn)) = nest ls (AssignmentNode lhs (replace_expr m rhs) opn)"
  by (induction ls) (simp_all add: nest_def split_beta substituted_def)

lemma nest_inject: "nest ls (AssignmentNode lhs rhs opn) = nest ls (AssignmentNode lhs rhs' opn) \<longleftrightarrow> rhs = rhs'"
  by (induction ls) (simp_all add: nest_def split_beta)

definition reduction_operator :: "Access \<Rightarrow> IndexExpr \<Rightarrow> IndexExpr" where
  "reduction_operator lhs rhs = (if set (access_vars (reads_of rhs)) \<subseteq> set (acc_indexVars lhs) then NoExpr else Add_op)"

lemma reduction_operator_vars:
  assumes "assignment_getReductionVars lhs rhs = ok vs"
  shows "(if vs \<noteq> [] then Add_op else NoExpr) = reduction_operator lhs rhs"
proof -
  have "set vs = set (access_vars (reads_of rhs)) - set (acc_indexVars lhs)"
    using assms by (auto simp: assignment_getReductionVars_def match_accesses_def getFreeVars_def res_simps set_unseen access_vars_def split: if_splits)
  then have "vs = [] \<longleftrightarrow> set (access_vars (reads_of rhs)) \<subseteq> set (acc_indexVars lhs)" by (metis Diff_eq_empty_iff set_empty)
  then show ?thesis by (simp add: reduction_operator_def)
qed

lemma map_of_rev: "distinct (map fst xs) \<Longrightarrow> map_of (rev xs) = map_of xs"
proof (induction xs)
  case (Cons x xs)
  then have "map_of xs (fst x) = None" by (simp add: map_of_eq_None_iff)
  then show ?case using Cons by (auto simp: map_add_def fun_eq_iff split: option.split)
qed simp

lemma zip_renames_to:
  assumes "length J = length I" "distinct I"
  shows "renames_to (map_of (rev (zip I J))) I J"
proof -
  have m: "map_of (rev (zip I J)) = map_of (zip I J)"
    using assms by (intro map_of_rev) simp
  have "map_of (zip I J) (I ! n) = Some (J ! n)" if "n < length I" for n
    using assms that by (simp add: map_of_zip_nth)
  moreover have "map_of (zip I J) v = None" if "v \<notin> set I" for v using assms that by simp
  ultimately show ?thesis using assms(1)
    by (auto simp: renames_to_def renamed_def m split: option.split dest: map_of_SomeD set_zip_leftD)
qed

lemma producer_shape:
  assumes "producer_assignment ws J e m b = ok (p, b')" "list_all renamable (reads_of e)"
  shows "\<exists>pa e'. p = (pa, e', reduction_operator pa e') \<and> plain_modes pa \<and> acc_indexVars pa = J \<and> acc_tensorVar pa = ws \<and>
    renames_expr m e e'"
proof -
  obtain e' b1 where e': "rename_expr m e b = ok (e', b1)" "renames_expr m e e'"
    using rename_expr_renames [OF assms(2)] by blast
  then obtain pa b2 vs where w: "workspace_access ws J b1 = ok (pa, b2)" "assignment_getReductionVars pa e' = ok vs"
    "p = (pa, e', if vs \<noteq> [] then Add_op else NoExpr)"
    using assms(1) by (auto simp: producer_assignment_def bindB_step liftB_def res_simps)
  moreover have "plain_modes pa \<and> acc_indexVars pa = J \<and> acc_tensorVar pa = ws"
    using w by (auto simp: workspace_access_def bindB_def fresh_def liftB_def access_tensor_def res_simps plain_modes_def AccessNode_make_def)
  ultimately show ?thesis using e'(2) reduction_operator_vars by simp
qed

lemma consumer_shape:
  assumes "consumer_assignment (nest ls (AssignmentNode lhs rhs opn)) = ok c"
  shows "c = (lhs, rhs, reduction_operator lhs rhs)"
  using assms reduction_operator_vars [of lhs rhs] by (auto simp: consumer_assignment_def assignments_nest res_simps)

lemma make_where_shape:
  assumes ok: "make_where d g P vs (nest ls (AssignmentNode lhs rhs opn)) b = ok (s', b')"
    and P: "length (pc_iw_vars P) = length (pc_i_vars P)" "distinct (pc_i_vars P)" "list_all renamable (reads_of (pc_expr P))"
    and g: "\<And>v us. v \<in> set vs \<Longrightarrow> containsIndexVarScheduled g us v = ok (v \<in> set us)"
  defines "m \<equiv> map_of (rev (zip (pc_i_vars P) (pc_iw_vars P)))" and "I \<equiv> pc_i_vars P"
  obtains pa e' pv where "plain_modes pa" "acc_indexVars pa = pc_iw_vars P" "acc_tensorVar pa = pc_workspace P"
    "renames_expr m (pc_expr P) e'" "pv = set (pc_iw_vars P) \<union> set (access_vars (reads_of e'))"
    "s' = foldr forall_stmt (outer_loops I (set (acc_indexVars lhs) \<union> set (access_vars (reads_of rhs))) pv vs)
       (WhereNode
         (foldr forall_stmt (filter (\<lambda>v. v \<in> set I \<or> v \<in> set (acc_indexVars lhs) \<union> set (access_vars (reads_of rhs)))
             (inner_loops I (set (acc_indexVars lhs) \<union> set (access_vars (reads_of rhs))) pv vs))
           (AssignmentNode lhs rhs (reduction_operator lhs rhs)))
         (foldr forall_stmt (map (renamed m) (filter (\<lambda>v. v \<in> set I \<or> v \<notin> set (acc_indexVars lhs) \<union> set (access_vars (reads_of rhs)) \<and> v \<in> pv)
             (inner_loops I (set (acc_indexVars lhs) \<union> set (access_vars (reads_of rhs))) pv vs)))
           (AssignmentNode pa e' (reduction_operator pa e'))))"
proof -
  obtain c p D b1 b2 where c: "consumer_assignment (nest ls (AssignmentNode lhs rhs opn)) = ok c"
    and p: "producer_assignment (pc_workspace P) (pc_iw_vars P) (pc_expr P) m b = ok (p, b1)"
    and D: "foldB (split_loop d g I (assignment_vars c) (assignment_vars p)) (rev vs)
        \<lparr>sp_substitutions = m, sp_producer = [], sp_consumer = [], sp_outer = [], sp_stop = False\<rparr> b1 = ok (D, b2)"
    and s': "s' = (case (c, p) of ((clhs, crhs, cop), (plhs, prhs, pop)) \<Rightarrow> generateForalls
                  (WhereNode (generateForalls (AssignmentNode clhs crhs cop) (sp_consumer D))
                             (generateForalls (AssignmentNode plhs prhs pop) (sp_producer D))) (sp_outer D))"
    using ok by (auto simp: make_where_def Let_def m_def I_def res_simps split_beta)
  note c = consumer_shape [OF c]
  obtain pa e' where pe: "p = (pa, e', reduction_operator pa e')" "renames_expr m (pc_expr P) e'"
    and pa: "plain_modes pa" "acc_indexVars pa = pc_iw_vars P" "acc_tensorVar pa = pc_workspace P"
    using producer_shape [OF p P(3)] by blast
  have r: "renames_to m I (pc_iw_vars P)" unfolding m_def I_def by (rule zip_renames_to) (use P in simp_all)
  have sub: "m v = Some (renamed m v)" if "v \<in> set I" for v
  proof -
    have "map_of (zip I (pc_iw_vars P)) v \<noteq> None" using that P(1) by (simp add: map_of_zip_is_None I_def)
    moreover have "map_of (rev (zip I (pc_iw_vars P))) v \<noteq> None \<longleftrightarrow> map_of (zip I (pc_iw_vars P)) v \<noteq> None"
      by (simp add: map_of_eq_None_iff)
    ultimately show ?thesis by (auto simp: m_def I_def renamed_def)
  qed
  have o: "v \<notin> set I \<Longrightarrow> renamed m v = v" for v using r by (simp add: renames_to_def)
  let ?cv = "assignment_vars (lhs, rhs, reduction_operator lhs rhs)" and ?pv = "assignment_vars (pa, e', reduction_operator pa e')"
  let ?D = "\<lparr>sp_substitutions = m, sp_producer = [], sp_consumer = [], sp_outer = [], sp_stop = False\<rparr>"
  have "foldB (split_loop d g I ?cv ?pv) (rev vs) ?D b1 =
    ok (?D\<lparr>sp_producer := map (renamed m) (filter (\<lambda>v. v \<in> set I \<or> v \<notin> set ?cv \<and> v \<in> set ?pv) (rev (inner_loops I (set ?cv) (set ?pv) vs))),
          sp_consumer := filter (\<lambda>v. v \<in> set I \<or> v \<in> set ?cv) (rev (inner_loops I (set ?cv) (set ?pv) vs)),
          sp_outer := rev (outer_loops I (set ?cv) (set ?pv) vs), sp_stop := outer_loops I (set ?cv) (set ?pv) vs \<noteq> []\<rparr>, b1)"
    using split_loops [of "rev vs" g I ?D m d ?cv ?pv b1] g sub o by (simp add: inner_loops_def outer_loops_def)
  then have "sp_producer D = map (renamed m) (filter (\<lambda>v. v \<in> set I \<or> v \<notin> set ?cv \<and> v \<in> set ?pv) (rev (inner_loops I (set ?cv) (set ?pv) vs)))"
    "sp_consumer D = filter (\<lambda>v. v \<in> set I \<or> v \<in> set ?cv) (rev (inner_loops I (set ?cv) (set ?pv) vs))"
    "sp_outer D = rev (outer_loops I (set ?cv) (set ?pv) vs)"
    using D by (auto simp: c pe(1))
  then show thesis
    by (intro that [OF pa pe(2) refl]) (simp add: s' c pe(1) generateForalls_foldr rev_map rev_filter set_assignment_vars pa(2))
qed

subsection \<open>Precomputing keeps the result\<close>

text \<open>The right-hand side with the workspace in place of the expression.\<close>

definition with_workspace :: "precompute \<Rightarrow> IndexExpr \<Rightarrow> IndexExpr" where
  "with_workspace P rhs =
     replace_expr [pc_expr P \<mapsto> AccessNode (AccessNode_make 0 (pc_workspace P) (pc_i_vars P) [] False)] rhs"

definition consumer_vars :: "precompute \<Rightarrow> Access \<Rightarrow> IndexExpr \<Rightarrow> IndexVar set" where
  "consumer_vars P lhs rhs = set (acc_indexVars lhs) \<union> set (access_vars (reads_of (with_workspace P rhs)))"

definition precompute_inner :: "precompute \<Rightarrow> IndexVar list \<Rightarrow> Access \<Rightarrow> IndexExpr \<Rightarrow> IndexVar list" where
  "precompute_inner P vs lhs rhs =
     inner_loops (pc_i_vars P) (consumer_vars P lhs rhs) (set (access_vars (reads_of (pc_expr P)))) vs"

text \<open>The loops that only the producer has.\<close>

definition precompute_sums :: "precompute \<Rightarrow> IndexVar list \<Rightarrow> Access \<Rightarrow> IndexExpr \<Rightarrow> IndexVar list" where
  "precompute_sums P vs lhs rhs =
     filter (\<lambda>v. v \<notin> set (pc_i_vars P) \<and> v \<notin> consumer_vars P lhs rhs) (precompute_inner P vs lhs rhs)"

text \<open>The variables of the workspace: new ones of the same dimensions, or those they stand for.\<close>

definition workspace_vars_ok :: "(IndexVar \<Rightarrow> nat) \<Rightarrow> precompute \<Rightarrow> IndexVar list \<Rightarrow> bool" where
  "workspace_vars_ok sz P vs \<longleftrightarrow>
     distinct (pc_i_vars P) \<and> distinct (pc_iw_vars P) \<and> length (pc_iw_vars P) = length (pc_i_vars P) \<and>
     (\<forall>n < length (pc_i_vars P). sz (pc_iw_vars P ! n) = sz (pc_i_vars P ! n) \<and>
        (pc_iw_vars P ! n = pc_i_vars P ! n \<or> pc_iw_vars P ! n \<notin> set vs \<union> set (access_vars (reads_of (pc_expr P)))))"

text \<open>What the result, the expression and the loops have to be: the workspace is a new tensor, the result is not read; the
  loops over the variables of the workspace are inside those that the consumer and the producer share, and each loop inside
  is one of the consumer or of the producer; the loops that are summed in the producer were summed in a product.\<close>

definition precomputable :: "(IndexVar \<Rightarrow> nat) \<Rightarrow> precompute \<Rightarrow> IndexVar list \<Rightarrow> Access \<Rightarrow> IndexExpr \<Rightarrow> IndexExpr \<Rightarrow> bool" where
  "precomputable sz P vs lhs rhs opn \<longleftrightarrow>
     distinct vs \<and> workspace_vars_ok sz P vs \<and>
     occurs (pc_expr P) rhs \<and> pc_expr P \<noteq> NoExpr \<and> count_reductions rhs = 0 \<and> list_all renamable (reads_of (pc_expr P)) \<and>
     tensor_of lhs \<noteq> tv_addr (pc_workspace P) \<and>
     tensor_of lhs \<notin> tensor_of ` set (reads_of rhs) \<and> tv_addr (pc_workspace P) \<notin> tensor_of ` set (reads_of rhs) \<and>
     set (pc_i_vars P) \<subseteq> set (precompute_inner P vs lhs rhs) \<and>
     (\<forall>v \<in> set (precompute_inner P vs lhs rhs).
        v \<in> set (pc_i_vars P) \<or> v \<in> consumer_vars P lhs rhs \<or> v \<in> set (access_vars (reads_of (pc_expr P)))) \<and>
     (precompute_sums P vs lhs rhs = [] \<or> linear_in (pc_expr P) rhs \<and> opn = Add_op)"

lemma with_workspace_vars:
  assumes "acc_indexVars a = pc_i_vars P"
  shows "access_vars (reads_of (replace_expr [pc_expr P \<mapsto> AccessNode a] rhs)) = access_vars (reads_of (with_workspace P rhs))"
proof -
  have vars: "access_vars (reads_of (replace_expr [e \<mapsto> AccessNode a] x)) = access_vars (reads_of (replace_expr [e \<mapsto> AccessNode a'] x))"
    if a: "acc_indexVars a' = acc_indexVars a" for e a' x
  proof (induction x)
    case (CallIntrinsicNode f xs)
    then have "map (access_vars \<circ> reads_of \<circ> replace_expr [e \<mapsto> AccessNode a]) xs =
        map (access_vars \<circ> reads_of \<circ> replace_expr [e \<mapsto> AccessNode a']) xs" by (simp del: fun_upd_apply)
    moreover have "access_vars (concat (map reads_of (map (replace_expr m) xs))) =
        concat (map (access_vars \<circ> reads_of \<circ> replace_expr m) xs)" for m
      by (induction xs) (simp_all add: access_vars_def)
    ultimately show ?case by (simp only: replace_expr.simps reads_of.simps)
  qed (simp_all add: substituted_single access_vars_append access_vars_def [of "[_]"] a del: fun_upd_apply)
  show ?thesis unfolding with_workspace_def by (rule vars) (simp add: AccessNode_make_def assms)
qed

lemma workspace_vars_facts:
  assumes "precomputable sz P vs lhs rhs opn"
  shows "workspace_vars sz (map_of (rev (zip (pc_i_vars P) (pc_iw_vars P)))) (pc_i_vars P) (pc_iw_vars P)
      (precompute_sums P vs lhs rhs) (pc_expr P)"
    "set (pc_iw_vars P) \<inter> set vs \<subseteq> set (pc_i_vars P)"
proof -
  have v: "workspace_vars_ok sz P vs" "distinct vs" using assms by (simp_all add: precomputable_def)
  have iw: "u \<in> set (pc_i_vars P) \<or> u \<notin> set vs \<union> set (access_vars (reads_of (pc_expr P)))" if "u \<in> set (pc_iw_vars P)" for u
    using that v(1) by (auto simp: workspace_vars_ok_def in_set_conv_nth) (metis nth_mem)+
  show "set (pc_iw_vars P) \<inter> set vs \<subseteq> set (pc_i_vars P)" using iw by blast
  have s: "set (precompute_inner P vs lhs rhs) \<subseteq> set vs" "distinct (precompute_inner P vs lhs rhs)"
    using v(2) by (auto simp: precompute_inner_def inner_loops_def dest: set_takeWhileD)
  then have d: "distinct (precompute_sums P vs lhs rhs)" "set (precompute_sums P vs lhs rhs) \<subseteq> set vs - set (pc_i_vars P)"
    by (auto simp: precompute_sums_def)
  show "workspace_vars sz (map_of (rev (zip (pc_i_vars P) (pc_iw_vars P)))) (pc_i_vars P) (pc_iw_vars P)
      (precompute_sums P vs lhs rhs) (pc_expr P)"
    using v(1) d iw zip_renames_to [of "pc_iw_vars P" "pc_i_vars P"]
    by (auto simp: workspace_vars_def workspace_vars_ok_def)
qed

lemma inner_loops_cong:
  assumes "\<And>v. v \<in> set vs \<Longrightarrow> v \<notin> set I \<Longrightarrow> v \<in> pv \<longleftrightarrow> v \<in> pv'"
  shows "inner_loops I cv pv vs = inner_loops I cv pv' vs" "outer_loops I cv pv vs = outer_loops I cv pv' vs"
proof -
  have "takeWhile (\<lambda>v. v \<in> set I \<or> v \<notin> cv \<or> v \<notin> pv) (rev vs) = takeWhile (\<lambda>v. v \<in> set I \<or> v \<notin> cv \<or> v \<notin> pv') (rev vs)"
    by (rule takeWhile_cong) (use assms in auto)
  then show "inner_loops I cv pv vs = inner_loops I cv pv' vs" by (simp add: inner_loops_def)
  have "dropWhile (\<lambda>v. v \<in> set I \<or> v \<notin> cv \<or> v \<notin> pv) (rev vs) = dropWhile (\<lambda>v. v \<in> set I \<or> v \<notin> cv \<or> v \<notin> pv') (rev vs)"
    by (rule dropWhile_cong) (use assms in auto)
  then show "outer_loops I cv pv vs = outer_loops I cv pv' vs" by (simp add: outer_loops_def)
qed

text \<open>The variables the producer reads are those of the expression, renamed.\<close>

lemma renamed_vars:
  assumes "renames_expr m e e'"
  shows "set (access_vars (reads_of e')) = renamed m ` set (access_vars (reads_of e))"
proof -
  have "access_vars bs = map (renamed m) (access_vars as)" if "list_all2 (renames_access m) as bs" for as bs
    using that by (induction rule: list_all2_induct) (simp_all add: access_vars_def renames_access_def)
  then show ?thesis using renames_parts(1) [OF assms] by simp
qed

lemma precompute_loops:
  assumes p: "precomputable sz P vs lhs rhs opn" and e': "renames_expr (map_of (rev (zip (pc_i_vars P) (pc_iw_vars P)))) (pc_expr P) e'"
    and v: "v \<in> set vs" "v \<notin> set (pc_i_vars P)"
  shows "v \<in> set (pc_iw_vars P) \<union> set (access_vars (reads_of e')) \<longleftrightarrow> v \<in> set (access_vars (reads_of (pc_expr P)))"
proof -
  let ?m = "map_of (rev (zip (pc_i_vars P) (pc_iw_vars P)))"
  have r: "renames_to ?m (pc_i_vars P) (pc_iw_vars P)" and iw: "set (pc_iw_vars P) \<inter> set vs \<subseteq> set (pc_i_vars P)"
    using workspace_vars_facts [OF p] by (simp_all add: workspace_vars_def)
  have "renamed ?m u \<in> set (pc_iw_vars P)" if u: "u \<in> set (pc_i_vars P)" for u
  proof -
    obtain n where "n < length (pc_i_vars P)" "pc_i_vars P ! n = u" using u unfolding in_set_conv_nth by blast
    then show ?thesis using r by (auto simp: renames_to_def dest: nth_mem)
  qed
  moreover have o: "renamed ?m u = u" if "u \<notin> set (pc_i_vars P)" for u using r that by (simp add: renames_to_def)
  ultimately have "u \<notin> set (pc_i_vars P)" if "renamed ?m u = v" for u using that v iw by blast
  then have "u = v" if "renamed ?m u = v" for u using that o by metis
  then have "v \<in> renamed ?m ` set (access_vars (reads_of (pc_expr P))) \<longleftrightarrow> v \<in> set (access_vars (reads_of (pc_expr P)))"
    using o [OF v(2)] by force
  then show ?thesis using v iw by (auto simp: renamed_vars [OF e'])
qed

lemma precompute_visit_nest:
  assumes "precompute_visit d g P (nest ls (AssignmentNode lhs rhs opn)) b = ok (s', b')" "ls \<noteq> []" "occurs (pc_expr P) rhs"
    and "pc_expr P \<noteq> NoExpr" "tv_addr (pc_workspace P) \<notin> tensor_of ` set (reads_of rhs)"
  shows "\<exists>wa b1. plain_modes wa \<and> acc_indexVars wa = pc_i_vars P \<and> acc_tensorVar wa = pc_workspace P \<and>
    make_where d g P (map fst ls) (nest (tl ls) (AssignmentNode lhs (replace_expr [pc_expr P \<mapsto> AccessNode wa] rhs) opn)) b1 = ok (s', b')"
proof -
  obtain v pu rs u ls' where ls: "ls = (v, pu, rs, u) # ls'" using assms(2) by (metis list.exhaust prod_cases4)
  obtain wa b1 where wa: "workspace_access (pc_workspace P) (pc_i_vars P) b = ok (wa, b1)"
    using assms(1) by (auto simp: ls no_where_nest Let_def bindB_def liftB_def res_simps)
  have w: "plain_modes wa" "acc_indexVars wa = pc_i_vars P" "acc_tensorVar wa = pc_workspace P"
    using wa by (auto simp: workspace_access_def bindB_def fresh_def liftB_def access_tensor_def res_simps plain_modes_def AccessNode_make_def)
  have "occurs e x \<Longrightarrow> e \<noteq> NoExpr \<Longrightarrow> wa \<in> set (reads_of (replace_expr [e \<mapsto> AccessNode wa] x))" for e x
    by (induction x) (auto simp: substituted_single list_ex_iff simp del: fun_upd_apply)
  then have "replace_expr [pc_expr P \<mapsto> AccessNode wa] rhs \<noteq> rhs" using assms(3-5) w(3) by (metis imageI)
  then have "make_where d g P (map fst ls) (nest ls' (AssignmentNode lhs (replace_expr [pc_expr P \<mapsto> AccessNode wa] rhs) opn)) b1 = ok (s', b')"
    using assms(1) wa forall_vars_nest [of "AssignmentNode lhs rhs opn" ls']
    by (simp add: ls no_where_nest replace_nest_stmt nest_inject bindB_step leaf_def assertR_def bindB_def liftB_def split: if_splits del: fun_upd_apply)
  then show ?thesis using w ls by auto
qed

text \<open>How the loops are shared out.\<close>

definition precompute_outer :: "precompute \<Rightarrow> IndexVar list \<Rightarrow> Access \<Rightarrow> IndexExpr \<Rightarrow> IndexVar list" where
  "precompute_outer P vs lhs rhs =
     outer_loops (pc_i_vars P) (consumer_vars P lhs rhs) (set (access_vars (reads_of (pc_expr P)))) vs"

definition precompute_consumer :: "precompute \<Rightarrow> IndexVar list \<Rightarrow> Access \<Rightarrow> IndexExpr \<Rightarrow> IndexVar list" where
  "precompute_consumer P vs lhs rhs =
     filter (\<lambda>v. v \<in> set (pc_i_vars P) \<or> v \<in> consumer_vars P lhs rhs) (precompute_inner P vs lhs rhs)"

lemma precompute_split:
  assumes p: "precomputable sz P (map fst ls) lhs rhs opn"
  defines "vs \<equiv> map fst ls"
  shows "loops_split ls (precompute_outer P vs lhs rhs) (precompute_consumer P vs lhs rhs) (precompute_sums P vs lhs rhs)"
    "filter (\<lambda>v. v \<notin> set (precompute_sums P vs lhs rhs)) vs = precompute_outer P vs lhs rhs @ precompute_consumer P vs lhs rhs"
    "set (pc_i_vars P) \<subseteq> set (precompute_consumer P vs lhs rhs)"
    "set (access_vars (reads_of (pc_expr P))) \<inter> set (precompute_consumer P vs lhs rhs) \<subseteq> set (pc_i_vars P)"
    "set (precompute_sums P vs lhs rhs) \<subseteq> set vs \<inter> set (access_vars (reads_of (pc_expr P))) - set (pc_i_vars P) - consumer_vars P lhs rhs"
proof -
  let ?i = "precompute_inner P vs lhs rhs" and ?o = "precompute_outer P vs lhs rhs"
  have d: "distinct vs" using p by (simp add: precomputable_def vs_def)
  have vs: "vs = ?o @ ?i" unfolding precompute_inner_def precompute_outer_def by (rule loops_appended)
  then have di: "distinct ?i" "set ?o \<inter> set ?i = {}" using d by (metis distinct_append)+
  have sums: "precompute_sums P vs lhs rhs = filter (\<lambda>v. \<not> (v \<in> set (pc_i_vars P) \<or> v \<in> consumer_vars P lhs rhs)) ?i"
    by (simp add: precompute_sums_def)
  have m: "mset ?i = mset (precompute_consumer P vs lhs rhs @ precompute_sums P vs lhs rhs)"
    unfolding sums precompute_consumer_def mset_append mset_filter by (rule multiset_partition)
  have all: "precompute_consumer P vs lhs rhs = ?i" if "precompute_sums P vs lhs rhs = []"
    using that unfolding sums precompute_consumer_def filter_empty_conv by (intro filter_True) blast
  have "mset vs = mset (?o @ ?i)" using vs by simp
  then have "mset vs = mset (?o @ precompute_consumer P vs lhs rhs @ precompute_sums P vs lhs rhs)" using m by simp
  then show "loops_split ls ?o (precompute_consumer P vs lhs rhs) (precompute_sums P vs lhs rhs)"
    unfolding loops_split_def vs_def [symmetric] using d vs all by metis
  have "filter (\<lambda>v. v \<notin> set (precompute_sums P vs lhs rhs)) ?o = ?o"
    using di(2) by (intro filter_True) (auto simp: sums)
  moreover have "filter (\<lambda>v. v \<notin> set (precompute_sums P vs lhs rhs)) ?i = precompute_consumer P vs lhs rhs"
    unfolding precompute_consumer_def sums by (rule filter_cong) auto
  ultimately show "filter (\<lambda>v. v \<notin> set (precompute_sums P vs lhs rhs)) vs = ?o @ precompute_consumer P vs lhs rhs"
    using vs by (metis filter_append)
  show "set (pc_i_vars P) \<subseteq> set (precompute_consumer P vs lhs rhs)"
    using p by (auto simp: precomputable_def precompute_consumer_def vs_def)
  have inner: "v \<in> set (pc_i_vars P) \<or> v \<notin> consumer_vars P lhs rhs \<or> v \<notin> set (access_vars (reads_of (pc_expr P)))"
    if "v \<in> set ?i" for v
    using that by (auto simp: precompute_inner_def inner_loops_def dest: set_takeWhileD)
  then show "set (access_vars (reads_of (pc_expr P))) \<inter> set (precompute_consumer P vs lhs rhs) \<subseteq> set (pc_i_vars P)"
    by (auto simp: precompute_consumer_def)
  have "\<forall>v \<in> set ?i. v \<in> set (pc_i_vars P) \<or> v \<in> consumer_vars P lhs rhs \<or> v \<in> set (access_vars (reads_of (pc_expr P)))"
    using p unfolding precomputable_def vs_def by blast
  moreover have "set ?i \<subseteq> set vs" using vs by (metis set_append Un_upper2)
  ultimately show "set (precompute_sums P vs lhs rhs) \<subseteq>
      set vs \<inter> set (access_vars (reads_of (pc_expr P))) - set (pc_i_vars P) - consumer_vars P lhs rhs"
    unfolding sums by auto
qed

text \<open>The loops of the producer: those of the workspace, under their new names, and those of the sums.\<close>

lemma producer_loops:
  assumes p: "precomputable sz P vs lhs rhs opn" and e': "renames_expr m (pc_expr P) e'"
    and m: "m = map_of (rev (zip (pc_i_vars P) (pc_iw_vars P)))"
    and pv: "pv = set (pc_iw_vars P) \<union> set (access_vars (reads_of e'))"
  shows "mset (map (renamed m) (filter (\<lambda>v. v \<in> set (pc_i_vars P) \<or> v \<notin> consumer_vars P lhs rhs \<and> v \<in> pv) (precompute_inner P vs lhs rhs)))
    = mset (pc_iw_vars P @ precompute_sums P vs lhs rhs)"
proof -
  let ?I = "pc_i_vars P" and ?i = "precompute_inner P vs lhs rhs"
  have d: "distinct ?i" "set ?i \<subseteq> set vs" "distinct ?I" "set ?I \<subseteq> set ?i"
    using p by (auto simp: precomputable_def precompute_inner_def inner_loops_def workspace_vars_ok_def dest: set_takeWhileD)
  have r: "renames_to m ?I (pc_iw_vars P)"
    using workspace_vars_facts [OF p] by (simp add: m workspace_vars_def)
  have len: "length (pc_iw_vars P) = length ?I" using p by (simp add: precomputable_def workspace_vars_ok_def)
  have J: "map (renamed m) ?I = pc_iw_vars P" using r len by (auto intro!: nth_equalityI simp: renames_to_def)
  have "mset (filter (\<lambda>v. v \<in> set ?I) ?i) = mset ?I"
    using d by (intro set_eq_iff_mset_eq_distinct [THEN iffD1]) auto
  then have a: "mset (map (renamed m) (filter (\<lambda>v. v \<in> set ?I) ?i)) = mset (pc_iw_vars P)" using J by (metis mset_map)
  have "filter (\<lambda>v. v \<notin> set ?I \<and> v \<notin> consumer_vars P lhs rhs \<and> v \<in> pv) ?i = precompute_sums P vs lhs rhs"
    unfolding precompute_sums_def
  proof (rule filter_cong [OF refl])
    fix v assume v: "v \<in> set ?i"
    then have "v \<in> set ?I \<or> v \<in> consumer_vars P lhs rhs \<or> v \<in> set (access_vars (reads_of (pc_expr P)))"
      using p by (auto simp: precomputable_def)
    then show "(v \<notin> set ?I \<and> v \<notin> consumer_vars P lhs rhs \<and> v \<in> pv) = (v \<notin> set ?I \<and> v \<notin> consumer_vars P lhs rhs)"
      using precompute_loops [OF p, of e' v] e' v d(2) by (auto simp: pv m)
  qed
  moreover have "map (renamed m) (precompute_sums P vs lhs rhs) = precompute_sums P vs lhs rhs"
    using r by (auto intro!: map_idI simp: precompute_sums_def renames_to_def)
  ultimately have b: "map (renamed m) (filter (\<lambda>v. v \<notin> set ?I \<and> v \<notin> consumer_vars P lhs rhs \<and> v \<in> pv) ?i) = precompute_sums P vs lhs rhs"
    by simp
  have "mset (filter (\<lambda>v. v \<in> set ?I \<or> v \<notin> consumer_vars P lhs rhs \<and> v \<in> pv) xs) =
      mset (filter (\<lambda>v. v \<in> set ?I) xs) + mset (filter (\<lambda>v. v \<notin> set ?I \<and> v \<notin> consumer_vars P lhs rhs \<and> v \<in> pv) xs)" for xs
    by (induction xs) auto
  then show ?thesis using a arg_cong [OF b, of mset] by simp
qed

text \<open>The statement a call of \<open>precompute\<close> answers.\<close>

lemma stmt_precompute_visit:
  assumes "stmt_precompute d P (nest ls (AssignmentNode lhs rhs opn)) b = ok (s', b')"
  shows "\<exists>g s1 b1. ProvenanceGraph_make (with_relations (nest ls (AssignmentNode lhs rhs opn))
        (precompute_relations (zip (pc_i_vars P) (pc_iw_vars P)))) = ok g \<and>
      precompute_visit d g P (nest ls (AssignmentNode lhs rhs opn)) b = ok (s1, b1) \<and>
      s' = with_relations s1 (precompute_relations (zip (pc_i_vars P) (pc_iw_vars P)))"
proof -
  let ?s = "nest ls (AssignmentNode lhs rhs opn)" and ?r = "precompute_relations (zip (pc_i_vars P) (pc_iw_vars P))"
  have f: "(\<lambda>(i, iw) s. if i \<noteq> iw then bindR (apply_AddSuchThatPredicates [PrecomputeRel i iw] s) defined_or_error else ok s) = relating"
    by (simp add: fun_eq_iff relating_def)
  obtain s1 s2 where s1: "foldR relating (zip (pc_i_vars P) (pc_iw_vars P)) ?s = ok s1"
    and s2: "apply_Precompute d P s1 b = ok (s2, b')" "defined_or_error s2 = ok s'"
    using assms by (auto simp: stmt_precompute_def f bindB_def liftB_def assertR_def res_simps split: if_splits)
  have "s1 = with_relations ?s ?r" using relations_added [of "zip (pc_i_vars P) (pc_iw_vars P)" ls lhs rhs opn "[]"] s1
    by (simp add: with_relations_def)
  moreover have "s' = s2" "s2 \<noteq> NoStmt" using s2(2)
    by (auto simp: defined_or_error_def ifR_def stmt_defined_def res_simps split: if_splits)
  ultimately show ?thesis using s2(1)
    by (auto simp: apply_Precompute_def bindB_def liftB_def retB_def with_relations_def res_simps split: if_splits)
qed

text \<open>(C6) Precomputing an expression of a nest of loops into a workspace keeps what the nest computes: when the scheduling
  command answers a statement, its execution leaves every tensor but the workspace as the execution of the nest does. The
  conditions on the workspace, its variables and the loops are \<open>precomputable\<close>; where the operator of the assignment is
  replaced, the loops other than those of the producer have to write each coordinate once, on a result that is zero.\<close>

theorem precompute_preserves:
  assumes ok: "stmt_precompute d P (nest ls (AssignmentNode lhs rhs opn)) b = ok (s', b')" and ls: "ls \<noteq> []"
    and p: "precomputable sz P (map fst ls) lhs rhs opn"
    and same: "same_result (filter (\<lambda>v. v \<notin> set (precompute_sums P (map fst ls) lhs rhs)) (map fst ls)) lhs opn
      (reduction_operator lhs (with_workspace P rhs)) st"
  shows "agree_off (tv_addr (pc_workspace P)) (exec T sz s' \<rho> st) (exec T sz (nest ls (AssignmentNode lhs rhs opn)) \<rho> st)"
proof -
  let ?vs = "map fst ls" and ?I = "pc_i_vars P" and ?J = "pc_iw_vars P"
  let ?m = "map_of (rev (zip ?I ?J))" and ?sums = "precompute_sums P ?vs lhs rhs"
  let ?outer = "precompute_outer P ?vs lhs rhs" and ?consumer = "precompute_consumer P ?vs lhs rhs"
  note P = p [unfolded precomputable_def workspace_vars_ok_def]
  note split = precompute_split [OF p]
  obtain g s1 b1 where g: "ProvenanceGraph_make (with_relations (nest ls (AssignmentNode lhs rhs opn)) (precompute_relations (zip ?I ?J))) = ok g"
    and s1: "precompute_visit d g P (nest ls (AssignmentNode lhs rhs opn)) b = ok (s1, b1)"
    and s': "s' = with_relations s1 (precompute_relations (zip ?I ?J))"
    using stmt_precompute_visit [OF ok] by blast
  obtain wa b2 where wa: "plain_modes wa" "acc_indexVars wa = ?I" "acc_tensorVar wa = pc_workspace P"
    and mk: "make_where d g P ?vs (nest (tl ls) (AssignmentNode lhs (replace_expr [pc_expr P \<mapsto> AccessNode wa] rhs) opn)) b2 = ok (s1, b1)"
    using precompute_visit_nest [OF s1 ls] P by blast
  let ?rhs = "replace_expr [pc_expr P \<mapsto> AccessNode wa] rhs"
  have vars: "access_vars (reads_of ?rhs) = access_vars (reads_of (with_workspace P rhs))" by (rule with_workspace_vars [OF wa(2)])
  then have cv: "set (acc_indexVars lhs) \<union> set (access_vars (reads_of ?rhs)) = consumer_vars P lhs rhs"
    by (simp add: consumer_vars_def)
  have scheduled: "containsIndexVarScheduled g us v = ok (v \<in> set us)" if "v \<in> set ?vs" for v us
  proof (rule scheduled_is_member [OF g])
    show "distinct (map fst (zip ?I ?J))" using P by simp
    fix i iw assume i: "(i, iw) \<in> set (zip ?I ?J)" "i \<noteq> iw"
    then obtain n where n: "n < length ?I" "?I ! n = i" "?J ! n = iw" using P by (auto simp: set_zip)
    then have "?J ! n = ?I ! n \<or> ?J ! n \<notin> set ?vs" using P by blast
    then have "iw \<notin> set ?vs" using i(2) n by metis
    moreover have "set ?consumer \<subseteq> set ?vs" using arg_cong [OF split(2), of set] by auto
    then have "set ?I \<subseteq> set ?vs" using split(3) by blast
    ultimately show "iw \<noteq> v \<and> iw \<notin> fst ` set (zip ?I ?J)" using that by (metis imageE prod.collapse set_zip_leftD subsetD)
  qed
  obtain pa e' pv where pa: "plain_modes pa" "acc_indexVars pa = ?J" "acc_tensorVar pa = pc_workspace P"
    and e': "renames_expr ?m (pc_expr P) e'" and pv: "pv = set ?J \<union> set (access_vars (reads_of e'))"
    and s1': "s1 = foldr forall_stmt (outer_loops ?I (consumer_vars P lhs rhs) pv ?vs)
       (WhereNode
         (foldr forall_stmt (filter (\<lambda>v. v \<in> set ?I \<or> v \<in> consumer_vars P lhs rhs) (inner_loops ?I (consumer_vars P lhs rhs) pv ?vs))
           (AssignmentNode lhs ?rhs (reduction_operator lhs ?rhs)))
         (foldr forall_stmt (map (renamed ?m) (filter (\<lambda>v. v \<in> set ?I \<or> v \<notin> consumer_vars P lhs rhs \<and> v \<in> pv)
             (inner_loops ?I (consumer_vars P lhs rhs) pv ?vs)))
           (AssignmentNode pa e' (reduction_operator pa e'))))"
    by (rule make_where_shape [OF mk _ _ _ scheduled, unfolded cv]) (use P in auto)
  have loops: "inner_loops ?I (consumer_vars P lhs rhs) pv ?vs = precompute_inner P ?vs lhs rhs"
    "outer_loops ?I (consumer_vars P lhs rhs) pv ?vs = ?outer"
    unfolding precompute_inner_def precompute_outer_def
    by (rule inner_loops_cong, use precompute_loops [OF p e'] pv in blast)+
  have op: "reduction_operator lhs ?rhs = reduction_operator lhs (with_workspace P rhs)" by (simp add: reduction_operator_def vars)
  have opnp: "reduction_operator pa e' = Add_op \<or> reduction_operator pa e' = NoExpr \<and> ?sums = []"
  proof (cases ?sums)
    case (Cons v us)
    then have v: "v \<in> set ?vs" "v \<in> set (access_vars (reads_of (pc_expr P)))" "v \<notin> set ?I" using split(5) by auto
    then have "v \<in> pv" "v \<notin> set ?J" using precompute_loops [OF p e'] pv workspace_vars_facts(2) [OF p] by blast+
    then show ?thesis using pv pa(2) by (auto simp: reduction_operator_def)
  qed (simp add: reduction_operator_def)
  have "agree_off (tv_addr (pc_workspace P))
    (exec T sz (foldr forall_stmt ?outer (WhereNode (foldr forall_stmt ?consumer (AssignmentNode lhs ?rhs (reduction_operator lhs ?rhs)))
       (foldr forall_stmt (map (renamed ?m) (filter (\<lambda>v. v \<in> set ?I \<or> v \<notin> consumer_vars P lhs rhs \<and> v \<in> pv) (precompute_inner P ?vs lhs rhs)))
         (AssignmentNode pa e' (reduction_operator pa e'))))) \<rho> st)
    (exec T sz (nest ls (AssignmentNode lhs rhs opn)) \<rho> st)"
  proof (rule workspace_preserves [OF split(1,3) producer_loops [OF p e' refl pv] wa(1,2) _ pa(1,2)])
    show "workspace_vars sz ?m ?I ?J ?sums (pc_expr P)" by (rule workspace_vars_facts [OF p])
    show "same_result (?outer @ ?consumer) lhs opn (reduction_operator lhs ?rhs) st" using same by (simp add: op split(2))
    show "set ?sums \<inter> set (acc_indexVars lhs) = {}" "set ?sums \<inter> set (access_vars (reads_of ?rhs)) = {}"
      using split(5) cv by blast+
  qed (use P split(4) opnp e' in \<open>auto simp: wa(3) pa(3)\<close>)
  then show ?thesis by (simp add: s' s1' loops precompute_consumer_def del: exec.simps)
qed

end
