(* ===== verification/Sparse_Products.thy ===== *)
theory Sparse_Products
  imports Workspace_Sound
begin

text \<open>
  The temporaries that are inserted before a kernel is lowered: the workspace of a product of sparse matrices keeps what
  the loops compute.
\<close>

lemma workspace_access_plain:
  assumes "workspace_access t vs b = ok (a, b')"
  shows "plain_modes a" "acc_indexVars a = vs" "acc_tensorVar a = t" "next_addr b < next_addr b'"
  using assms by (auto simp: workspace_access_def bindB_def fresh_def liftB_def access_tensor_def res_simps plain_modes_def AccessNode_make_def
    assertR_def split: if_splits)

lemma row_workspace_fresh:
  assumes "row_workspace a b = ok (w, b')" shows "tv_addr w = next_addr b" "next_addr b < next_addr b'"
  using assms by (auto simp: row_workspace_def bindB_def liftB_def fresh_def res_simps)

text \<open>An access that is made anew reads and writes what the old one did.\<close>

lemma coords_again:
  "plain_modes a \<Longrightarrow> plain_modes a' \<Longrightarrow> acc_indexVars a' = acc_indexVars a \<Longrightarrow> coords \<rho> a' = coords \<rho> a"
  by (simp add: plain_coords)

lemma renames_access_again:
  assumes "plain_modes a" "plain_modes a'" "acc_indexVars a' = acc_indexVars a" "acc_tensorVar a' = acc_tensorVar a"
  shows "renames_access (\<lambda>_. None) a a'"
  using assms by (auto simp: renames_access_def renamed_def plain_modes_def mode_coord_def fun_eq_iff intro!: map_idI [symmetric])

lemma renames_access_expr:
  assumes "renames_access m a a'" "plain_modes a" shows "renames_expr m (AccessNode a) (AccessNode a')"
  using assms renames_coords [OF assms(1)]
  by (simp add: renames_expr_def read_tensor_def plain_modes_def) (simp add: renames_access_def)

text \<open>What the loops that are replaced have to be: accesses without windows and index sets to three tensors of which the
  result and the workspace are not read, that accumulate into a result that is zero.\<close>

definition spmm_product :: "nat \<Rightarrow> IndexStmt \<Rightarrow> tensors \<Rightarrow> bool" where
  "spmm_product N s st \<longleftrightarrow>
     (\<forall>i k j a b c. spmm_accesses s = Some (i, k, j, a, b, c) \<longrightarrow>
        distinct [i, k, j] \<and> plain_modes a \<and> plain_modes b \<and> plain_modes c \<and>
        tensor_of a < N \<and> tensor_of b < N \<and> tensor_of c < N \<and> tensor_of a \<noteq> tensor_of b \<and> tensor_of a \<noteq> tensor_of c \<and>
        st (tensor_of a) = (\<lambda>_. 0) \<and>
        (\<exists>l1 l2 l3. s = nest [(i, l1), (k, l2), (j, l3)] (AssignmentNode a (MulNode (AccessNode b) (AccessNode c)) Add_op)))"

lemma spmm_accesses_nest:
  assumes "spmm_accesses s = Some (i, k, j, a, b, c)"
  shows "acc_indexVars a = [i, j]" "acc_indexVars b = [i, k]" "acc_indexVars c = [k, j]"
  using assms by (auto simp: spmm_accesses_def split: IndexStmt.splits IndexExpr.splits if_splits)

text \<open>An assignment to an access that is made anew is the same assignment.\<close>

lemma assign_again:
  assumes "plain_modes a" "plain_modes a'" "acc_indexVars a' = acc_indexVars a" "acc_tensorVar a' = acc_tensorVar a"
  shows "exec T sz (nest ls (AssignmentNode a' e opn)) = exec T sz (nest ls (AssignmentNode a e opn))"
proof -
  have "exec T sz (AssignmentNode a' e opn) = exec T sz (AssignmentNode a e opn)"
    using assms by (simp add: fun_eq_iff exec_assign assign_tensor_def Let_def coords_again [of a a'] del: exec.simps)
  then show ?thesis by (intro ext) (simp only: exec_nest)
qed

lemma spmm_rows_effect:
  assumes rows: "spmm_rows i k j (acc_tensorVar a) (acc_tensorVar b) (acc_tensorVar c) bu = ok (s', bu')"
    and vars: "acc_indexVars a = [i, j]" "acc_indexVars b = [i, k]" "acc_indexVars c = [k, j]" "distinct [i, k, j]"
    and plain: "plain_modes a" "plain_modes b" "plain_modes c"
    and tensors: "tensor_of a < next_addr bu" "tensor_of b < next_addr bu" "tensor_of c < next_addr bu"
      "tensor_of a \<noteq> tensor_of b" "tensor_of a \<noteq> tensor_of c"
    and zero: "st (tensor_of a) = (\<lambda>_. 0)"
  shows "agree_off (next_addr bu) (exec T sz s' \<rho> st)
    (exec T sz (nest [(i, l1), (k, l2), (j, l3)] (AssignmentNode a (MulNode (AccessNode b) (AccessNode c)) Add_op)) \<rho> st)"
proof -
  obtain w b0 lhs b1 wr b2 wl b3 bb b4 cc where w: "row_workspace (acc_tensorVar a) bu = ok (w, b0)"
    and 1: "workspace_access (acc_tensorVar a) [i, j] b0 = ok (lhs, b1)" "workspace_access w [j] b1 = ok (wr, b2)"
      "workspace_access w [j] b2 = ok (wl, b3)" "workspace_access (acc_tensorVar b) [i, k] b3 = ok (bb, b4)"
      "workspace_access (acc_tensorVar c) [k, j] b4 = ok (cc, bu')"
    and s': "s' = forall_stmt i (WhereNode (forall_stmt j (AssignmentNode lhs (AccessNode wr) NoExpr))
         (forall_stmt k (forall_stmt j (AssignmentNode wl (MulNode (AccessNode bb) (AccessNode cc)) Add_op))))"
    using rows by (auto simp: spmm_rows_def bindB_def liftB_def retB_def assertR_def res_simps split: if_splits)
  note acc = workspace_access_plain [OF 1(1)] workspace_access_plain [OF 1(2)] workspace_access_plain [OF 1(3)]
    workspace_access_plain [OF 1(4)] workspace_access_plain [OF 1(5)]
  have wa: "tv_addr w = next_addr bu" using row_workspace_fresh [OF w] by simp
  let ?e = "MulNode (AccessNode b) (AccessNode c)"
  have e': "renames_expr (\<lambda>_. None) ?e (MulNode (AccessNode bb) (AccessNode cc))"
    by (intro renames_binary renames_access_expr renames_access_again) (use acc plain vars in simp_all)
  have "agree_off (next_addr bu)
    (exec T sz (foldr forall_stmt [i] (WhereNode (foldr forall_stmt [j] (AssignmentNode lhs (AccessNode wr) NoExpr))
       (foldr forall_stmt [k, j] (AssignmentNode wl (MulNode (AccessNode bb) (AccessNode cc)) Add_op)))) \<rho> st)
    (exec T sz (nest [(i, l1), (k, l2), (j, l3)] (AssignmentNode lhs ?e Add_op)) \<rho> st)"
  proof (rule workspace_preserves [where I = "[j]" and J = "[j]" and P = "[k]" and e = ?e and m = "\<lambda>_. None" and wa = wr])
    show "loops_split [(i, l1), (k, l2), (j, l3)] [i] [j] [k]" using vars(4) by (auto simp: loops_split_def)
    show "workspace_vars sz (\<lambda>_. None) [j] [j] [k] ?e" using vars(4) by (auto simp: workspace_vars_def renames_to_def renamed_def)
    show "same_result ([i] @ [j]) lhs Add_op NoExpr st" using acc(1-3) vars(1) zero by (simp add: same_result_def)
    show "renames_expr (\<lambda>_. None) ?e (MulNode (AccessNode bb) (AccessNode cc))" by (rule e')
    show "AccessNode wr = replace_expr [?e \<mapsto> AccessNode wr] ?e" by (simp add: substituted_def)
    show "set (access_vars (reads_of ?e)) \<inter> set [j] \<subseteq> set [j]" "set [k] \<inter> set (acc_indexVars lhs) = {}"
      "set [k] \<inter> set (access_vars (reads_of (AccessNode wr))) = {}"
      using acc vars by (auto simp: access_vars_def)
    show "[k] = [] \<or> linear_in ?e ?e \<and> Add_op = Add_op" by simp
    show "tensor_of lhs \<noteq> next_addr bu" "tensor_of lhs \<notin> tensor_of ` set (reads_of ?e)" "next_addr bu \<notin> tensor_of ` set (reads_of ?e)"
      using acc tensors by auto
  qed (use acc wa in \<open>simp_all\<close>)
  moreover have "exec T sz (nest [(i, l1), (k, l2), (j, l3)] (AssignmentNode lhs ?e Add_op)) =
      exec T sz (nest [(i, l1), (k, l2), (j, l3)] (AssignmentNode a ?e Add_op))"
    by (rule assign_again) (use acc plain vars in simp_all)
  ultimately show ?thesis by (simp add: s' del: exec.simps nest_simps)
qed

text \<open>(C8) Inserting temporaries into a kernel, which gives products \<open>A(i,j) += B(i,k) * C(k,j)\<close> of matrices a dense workspace for
  the rows of the result, keeps what the loops leave in every tensor there was before, when the loops of such a product start from a result that is zero and
  their accesses have no windows and index sets, which the new accesses would not have, and do not read the result.\<close>

theorem insertTemporaries_preserves:
  assumes "insertTemporaries s b = ok (s', b')" "spmm_product (next_addr b) s st"
  shows "agree_below (next_addr b) (exec T sz s' \<rho> st) (exec T sz s \<rho> st)"
proof -
  have o: "optimizeSpMM s b = ok (s', b')"
    using assms(1) by (auto simp: insertTemporaries_def bindB_def retB_def res_simps split: if_splits)
  show ?thesis
  proof (cases "s' = s")
    case False
    then obtain i k j x y z where m: "spmm_accesses s = Some (i, k, j, x, y, z)"
      and rows: "spmm_rows i k j (acc_tensorVar x) (acc_tensorVar y) (acc_tensorVar z) b = ok (s', b')"
      using o by (auto simp: optimizeSpMM_def bindB_def liftB_def retB_def res_simps split: option.splits if_splits)
    from assms(2) m obtain l1 l2 l3 where p: "distinct [i, k, j]" "plain_modes x" "plain_modes y" "plain_modes z"
        "tensor_of x < next_addr b" "tensor_of y < next_addr b" "tensor_of z < next_addr b"
        "tensor_of x \<noteq> tensor_of y" "tensor_of x \<noteq> tensor_of z" "st (tensor_of x) = (\<lambda>_. 0)"
      and s: "s = nest [(i, l1), (k, l2), (j, l3)] (AssignmentNode x (MulNode (AccessNode y) (AccessNode z)) Add_op)"
      unfolding spmm_product_def by blast
    have "agree_off (next_addr b) (exec T sz s' \<rho> st) (exec T sz s \<rho> st)"
      unfolding s by (rule spmm_rows_effect [OF rows spmm_accesses_nest [OF m] p(1-9)]) (rule p(10))
    then show ?thesis by (simp add: agree_off_def agree_below_def)
  qed simp
qed

end
