(* ===== verification/Precompute_Example.thy ===== *)
theory Precompute_Example
  imports Precompute_Sound Sparse_Products Concretize_Example
begin

text \<open>
  The product of two matrices by rows, with a workspace for a row of the result; and a schedule whose workspace loses a sum.
\<close>

definition pc_k :: IndexVar where "pc_k = IndexVar 3 ''k''"

definition pc_jw :: IndexVar where "pc_jw = IndexVar 4 ''jw''"

definition pc_A :: Access where "pc_A = nt_access 10 ''A'' [3, 2] [nt_i, nt_j]"

definition pc_B :: IndexExpr where "pc_B = AccessNode (nt_access 11 ''B'' [3, 2] [nt_i, pc_k])"

definition pc_C :: IndexExpr where "pc_C = AccessNode (nt_access 12 ''C'' [2, 2] [pc_k, nt_j])"

definition pc_w :: TensorVar where "pc_w = nt_tensor 40 ''w'' [2]"

definition pc_product :: precompute where
  "pc_product = \<lparr>pc_expr = MulNode pc_B pc_C, pc_i_vars = [nt_j], pc_iw_vars = [pc_jw], pc_workspace = pc_w\<rparr>"

definition pc_serial :: "IndexVar \<Rightarrow> loop" where
  "pc_serial v = (v, NotParallel, IgnoreRaces, 0)"

lemmas pc_simps = nt_simps pc_k_def pc_jw_def pc_A_def pc_B_def pc_C_def pc_w_def pc_product_def pc_serial_def

definition pc_multiply :: IndexStmt where
  "pc_multiply = nest [pc_serial nt_i, pc_serial pc_k, pc_serial nt_j] (AssignmentNode pc_A (MulNode pc_B pc_C) Add_op)"

definition pc_rows :: IndexStmt where
  "pc_rows = SuchThatNode (forall_stmt nt_i (WhereNode
       (forall_stmt nt_j (AssignmentNode pc_A (AccessNode (AccessNode_make 50 pc_w [nt_j] [] False)) NoExpr))
       (forall_stmt pc_k (forall_stmt pc_jw
         (AssignmentNode (AccessNode_make 52 pc_w [pc_jw] [] False)
            (MulNode pc_B (AccessNode (AccessNode_make 51 (nt_tensor 12 ''C'' [2, 2]) [pc_k, pc_jw] [] False))) Add_op)))))
     [PrecomputeRel nt_j pc_jw]"

lemma pc_precomputed:
  "\<exists>b. stmt_precompute ''i0'' pc_product pc_multiply nt_builder = ok (pc_rows, b)"
proof -
  have "(case stmt_precompute ''i0'' pc_product pc_multiply nt_builder of Inr (s, b) \<Rightarrow> s = pc_rows | _ \<Rightarrow> False)" by code_simp
  then show ?thesis by (auto split: sum.splits)
qed

lemma pc_precomputable:
  "precomputable nt_sizes pc_product [nt_i, pc_k, nt_j] pc_A (MulNode pc_B pc_C) Add_op"
  by (simp add: precomputable_def workspace_vars_ok_def precompute_inner_def inner_loops_def precompute_sums_def consumer_vars_def
    with_workspace_def substituted_def access_vars_def pc_simps Add_op_def nt_sizes_def renamable_def)

text \<open>From a result that is zero the loops by rows compute the product.\<close>

theorem precompute_preserves_witness:
  "(\<exists>b. stmt_precompute ''i0'' pc_product pc_multiply nt_builder = ok (pc_rows, b)) \<and>
   agree_off 40 (exec nt_ops nt_sizes pc_rows (\<lambda>_. 0) nt_ones) (exec nt_ops nt_sizes pc_multiply (\<lambda>_. 0) nt_ones)"
proof -
  obtain b where b: "stmt_precompute ''i0'' pc_product pc_multiply nt_builder = ok (pc_rows, b)" using pc_precomputed by blast
  have vs: "map fst [pc_serial nt_i, pc_serial pc_k, pc_serial nt_j] = [nt_i, pc_k, nt_j]" by (simp add: pc_serial_def)
  have "same_result (filter (\<lambda>v. v \<notin> set (precompute_sums pc_product [nt_i, pc_k, nt_j] pc_A (MulNode pc_B pc_C))) [nt_i, pc_k, nt_j])
      pc_A Add_op (reduction_operator pc_A (with_workspace pc_product (MulNode pc_B pc_C))) nt_ones"
    by (simp add: same_result_def precompute_sums_def precompute_inner_def inner_loops_def consumer_vars_def reduction_operator_def
      with_workspace_def substituted_def access_vars_def plain_modes_def pc_simps Add_op_def nt_ones_def fun_eq_iff)
  from precompute_preserves [OF b [unfolded pc_multiply_def] _ pc_precomputable [folded vs] this [folded vs], of nt_ops "\<lambda>_. 0"]
  have "agree_off (tv_addr (pc_workspace pc_product)) (exec nt_ops nt_sizes pc_rows (\<lambda>_. 0) nt_ones)
      (exec nt_ops nt_sizes pc_multiply (\<lambda>_. 0) nt_ones)"
    by (simp add: pc_multiply_def del: exec.simps)
  moreover have "tv_addr (pc_workspace pc_product) = 40" by (simp add: pc_simps)
  ultimately show ?thesis using b by (simp del: exec.simps)
qed

text \<open>Other names for the loops of a product with a vector.\<close>

definition pc_rename :: renaming where
  "pc_rename = [nt_i \<mapsto> pc_k, nt_j \<mapsto> pc_jw]"

theorem rename_preserves_witness:
  "\<exists>s' b'. rename_stmt pc_rename (nest [pc_serial nt_i, pc_serial nt_j] (AssignmentNode nt_y (MulNode nt_A nt_x) Add_op)) nt_builder = ok (s', b') \<and>
     s' \<noteq> nest [pc_serial nt_i, pc_serial nt_j] (AssignmentNode nt_y (MulNode nt_A nt_x) Add_op) \<and>
     (\<forall>T \<rho> st. exec T (\<lambda>v. 2) s' \<rho> st =
        exec T (\<lambda>v. 2) (nest [pc_serial nt_i, pc_serial nt_j] (AssignmentNode nt_y (MulNode nt_A nt_x) Add_op)) (\<lambda>v. \<rho> (renamed pc_rename v)) st)"
proof -
  let ?s = "nest [pc_serial nt_i, pc_serial nt_j] (AssignmentNode nt_y (MulNode nt_A nt_x) Add_op)"
  have "renamable_stmt ?s" "inj_on (renamed pc_rename) (set (stmt_vars ?s))"
    by (simp_all add: nest_def renamable_def renamed_def pc_rename_def pc_simps access_vars_def inj_on_def)
  from rename_preserves [OF this, of "\<lambda>v. 2" nt_builder]
  obtain s' b' where r: "rename_stmt pc_rename ?s nt_builder = ok (s', b')"
    "\<forall>T \<rho> st. exec T (\<lambda>v. 2) s' \<rho> st = exec T (\<lambda>v. 2) ?s (\<lambda>v. \<rho> (renamed pc_rename v)) st" by auto
  have "(case rename_stmt pc_rename ?s nt_builder of Inr (s', b') \<Rightarrow> s' \<noteq> ?s | _ \<Rightarrow> False)" by code_simp
  then show ?thesis using r by auto
qed

subsection \<open>A schedule that loses a sum\<close>

text \<open>In the loops \<open>k\<close>, \<open>j\<close>, \<open>i\<close> over \<open>D(i,j) += B(i,k) * x(j)\<close> only the workspace reads \<open>k\<close>: the consumer has no
  reduction variable left, assigns, and keeps only the last value of \<open>k\<close>.\<close>

definition pc_loses :: "tensors \<Rightarrow> (int \<times> int) res" where
  "pc_loses st =
     (let s = nest [pc_serial pc_k, pc_serial nt_j, pc_serial nt_i] (AssignmentNode pc_A (MulNode (MulNode pc_B pc_C) nt_x) Add_op) in
      bindR (stmt_precompute ''i0''
        \<lparr>pc_expr = MulNode pc_B pc_C, pc_i_vars = [nt_i], pc_iw_vars = [nt_i], pc_workspace = nt_tensor 40 ''w'' [3]\<rparr> s nt_builder) (\<lambda>(s', b).
      ok (exec nt_ops nt_sizes s (\<lambda>_. 0) st 10 [0, 0], exec nt_ops nt_sizes s' (\<lambda>_. 0) st 10 [0, 0])))"

lemma precompute_loses_sum: "pc_loses nt_ones = ok (2, 1)"
  by code_simp

subsection \<open>Sparse matrices\<close>

definition sp_matrix :: "nat \<Rightarrow> string \<Rightarrow> nat list \<Rightarrow> ModeFormat list \<Rightarrow> TensorVar" where
  "sp_matrix k nm dims fs = (nt_tensor k nm dims)\<lparr>tv_format :=
     \<lparr>modeFormatPacks = map (\<lambda>f. [f]) fs, modeOrdering = map int [0..<length fs], levelArrayTypes = []\<rparr>\<rparr>"

definition sp_access :: "nat \<Rightarrow> string \<Rightarrow> nat list \<Rightarrow> IndexVar list \<Rightarrow> (int \<times> IndexVarIterationModifier) list \<Rightarrow> Access" where
  "sp_access k nm dims vs ms = AccessNode_make (20 + k) (sp_matrix k nm dims [Dense, Compressed]) vs ms False"

definition sp_A :: Access where "sp_A = sp_access 10 ''A'' [3, 2] [nt_i, nt_j] []"

definition sp_C :: Access where "sp_C = sp_access 12 ''C'' [2, 2] [pc_k, nt_j] []"

definition sp_loops :: "Access \<Rightarrow> IndexStmt" where
  "sp_loops b = nest [pc_serial nt_i, pc_serial pc_k, pc_serial nt_j]
     (AssignmentNode sp_A (MulNode (AccessNode b) (AccessNode sp_C)) Add_op)"

definition sp_B :: Access where "sp_B = sp_access 11 ''B'' [3, 2] [nt_i, pc_k] []"

lemmas sp_simps = nt_simps pc_simps sp_matrix_def sp_access_def sp_A_def sp_B_def sp_C_def sp_loops_def

text \<open>Where statements are put into the loops over two matrices with compressed rows.\<close>

theorem insertTemporaries_preserves_witness:
  "\<exists>s' b'. insertTemporaries (sp_loops sp_B) nt_builder = ok (s', b') \<and> contains_where s' \<and>
     agree_below 50 (exec nt_ops nt_sizes s' (\<lambda>_. 0) nt_ones) (exec nt_ops nt_sizes (sp_loops sp_B) (\<lambda>_. 0) nt_ones)"
proof -
  have "(case insertTemporaries (sp_loops sp_B) nt_builder of Inr (s', b') \<Rightarrow> contains_where s' | _ \<Rightarrow> False)" by code_simp
  then obtain s' b' where s': "insertTemporaries (sp_loops sp_B) nt_builder = ok (s', b')" "contains_where s'"
    by (auto split: sum.splits)
  have "spmm_product (next_addr nt_builder) (sp_loops sp_B) nt_ones"
    by (auto simp: spmm_product_def spmm_accesses_def sp_simps nt_builder_def plain_modes_def nt_ones_def nest_def fun_eq_iff)
  from insertTemporaries_preserves [OF s'(1) this, of nt_ops nt_sizes "\<lambda>_. 0"] s' show ?thesis
    by (auto simp: nt_builder_def)
qed

text \<open>The new accesses have no windows: with a window on \<open>B\<close> other elements are read.\<close>

definition sp_window :: Access where
  "sp_window = sp_access 11 ''B'' [3, 2] [nt_i, pc_k]
     [(1, Window \<lparr>aw_lo = 1, aw_hi = 3, aw_stride = 1\<rparr>)]"

definition sp_column :: tensors where
  "sp_column t c = (if t = 10 then 0 else if t = 11 then (if c = [0, 1] then 5 else 0) else 1)"

definition sp_results :: "(int \<times> int) res" where
  "sp_results = bindR (insertTemporaries (sp_loops sp_window) nt_builder) (\<lambda>(s', b).
     ok (exec nt_ops (\<lambda>_. 1) (sp_loops sp_window) (\<lambda>_. 0) sp_column 10 [0, 0], exec nt_ops (\<lambda>_. 1) s' (\<lambda>_. 0) sp_column 10 [0, 0]))"

lemma spmm_drops_window: "sp_results = ok (5, 0)"
  by code_simp

end
