(* ===== verification/Spec2Isabelle.thy ===== *)
theory Spec2Isabelle
  imports TypedIndex IR_Verifier Simplify_Sound Stmt_Sound For_Bound Copy_Propagation Redundant_Loops Util Level_Insertion Bounds_Example
    Lattice_Example Concretize_Example Reorder_Example Precompute_Example
begin

text \<open>
  A verification library for the core of the TACO tensor-algebra compiler (zoomzoomtaco, the fork with
  the PochiVM backend).

  The compiler turns tensor index notation into loops over the levels of tensor storage. The loops are
  an imperative intermediate representation (the IR), which is simplified, checked and printed as C or
  CUDA, or handed to PochiVM. The library models the data types and the IR with everything that is done
  to it.

  \<^bold>\<open>Theories and the code they model.\<close>

  \<^item> \<open>Prelude\<close>: failures as values (\<open>taco_error\<close>), their sequencing, wrap-around integers, decimals.
  \<^item> \<open>Datatypes\<close>: src/type.cpp, include/taco/type.h. Kinds, their predicates and widths, promotion
    (\<open>max_type\<close>), dimensions, shapes, tensor types.
  \<^item> \<open>TypedValue\<close>: src/storage/typed_value.cpp. The 128-bit union of a component as a word, its
    arithmetic and comparisons at every type; signed arithmetic out of the range in which C++ computes it, which is
    undefined there, is the failure \<open>Overflow\<close>. The locale \<open>wrap_arith\<close> is what constant folding needs
    of wrap-around, interpreted on the conversion \<open>conv\<close> to a type.
  \<^item> \<open>TypedIndex\<close>: src/storage/typed_index.cpp, the same for the 8-byte union of an index, and that
    the two agree.
  \<^item> \<open>IR\<close>, \<open>IR_Visitor\<close>, \<open>IR_Verifier\<close>: src/ir/ir.cpp and include/taco/ir/ir.h (nodes and their make
    functions), src/ir/ir_visitor.cpp (the default traversal), src/ir/ir_verifier.cpp.
  \<^item> \<open>IR_Semantics\<close>, \<open>Stmt_Semantics\<close>: the reference semantics: what the C code that
    src/codegen/codegen_c.cpp prints for a node means. Expressions evaluate in a state of scalars and
    arrays, signed integers wrapping around at their width (the generated code is taken to be compiled so); statements are a big-step relation with the outcomes fall-through, break and continue, and an
    interpreter \<open>run\<close> with fuel that computes executions for the examples (\<open>run_sound\<close>).
  \<^item> \<open>Simplify\<close>, \<open>Simplify_Sound\<close>: the expression simplifier of src/ir/simplify.cpp with the
    expression part of src/ir/ir_rewriter.cpp, and its correctness.
  \<^item> \<open>IR_Rewriter\<close>, \<open>Stmt_Sound\<close>, \<open>For_Bound\<close>: \<open>For::make\<close> and the statement part of
    src/ir/ir_rewriter.cpp, with the methods a subclass overrides as a record \<open>rewriter\<close>; the locale
    \<open>expr_rewriter\<close> states what a rewriting of expressions has to promise for the rewritten statement
    to keep every execution.
  \<^item> \<open>Simplify_Stmt\<close>, \<open>Copy_Propagation\<close>, \<open>Redundant_Loops\<close>: the statement simplifier of
    src/ir/simplify.cpp: its four passes, and for copy propagation and the elimination of loops the
    conditions under which they are right and programs for which they are not.
  \<^item> \<open>Mode_Format\<close>: src/format.cpp and the properties of the level formats. \<open>Level_Functions\<close>: what the
    dense, compressed and singleton levels emit (src/lower/mode_format_dense.cpp, mode_format_compressed.cpp,
    mode_format_singleton.cpp, mode_format_impl.cpp), with src/lower/mode.cpp and src/ir/ir_generators.cpp.
  \<^item> \<open>Counted_Loops\<close>, \<open>Level_Sound\<close>, \<open>Level_Assembly\<close>, \<open>Level_Insertion\<close>: executing the emitted code. The
    locale \<open>coordinate_level\<close> is the contract of a level that can be iterated over (bounds and access),
    interpreted on the compressed and the singleton format; \<open>assembles\<close> and \<open>inserts\<close> are the steps of the two
    assembly protocols, interleaved with any code that leaves the level alone.
  \<^item> \<open>Index_Notation\<close>, \<open>Intrinsics\<close>: the nodes of index notation (include/taco/index_notation), equality of
    expressions, and the 33 intrinsic functions of src/index_notation/intrinsic.cpp.
  \<^item> \<open>Vectors\<close>: include/taco/util/collections.h, with tests that may fail.
  \<^item> \<open>Provenance\<close>, \<open>Provenance_Walks\<close>: the graph of derived index variables and its queries
    (src/index_notation/provenance_graph.cpp). \<open>Iterators\<close>: src/lower/iterator.cpp.
  \<^item> \<open>Provenance_Bounds\<close>, \<open>Bounds_Sound\<close>, \<open>Bounds_Example\<close>: the bounds of the loops over split, divided,
    fused, bounded, precomputed and position variables and the recovery of variables from each other, in the
    same file; the nests that are lowered from them visit what the original loops visit.
  \<^item> \<open>Merge_Lattice\<close>: src/lower/merge_lattice.cpp, from the points and their iterators to the builder over
    expressions and statements. \<open>Lattice_Points\<close>, \<open>Lattice_Algebra\<close>, \<open>Lattice_Union\<close>, \<open>Lattice_Sound\<close> and
    \<open>Lattice_Loops\<close> show that the loops of a lattice compute the expression at every coordinate where it is
    not zero; \<open>Lattice_Queries\<close> is about its rangers, mergers and exactness, \<open>Lattice_Example\<close> has examples and
    a lattice that loses coordinates.
  \<^item> \<open>Notation\<close>, \<open>Notation_Queries\<close>: src/index_notation/index_notation.cpp and src/error/error_checks.cpp:
    the tests of the three dialects (\<open>isEinsumNotation\<close>, \<open>isReductionNotation\<close>, \<open>isConcreteNotation\<close>), the
    checks of transposition, distribution and dimensions, \<open>makeReductionNotation\<close> and
    \<open>makeConcreteNotation\<close>; the queries that the transformations and the lowerer ask of a statement.
    \<open>Notation_Semantics\<close> is the reference semantics: what a statement does to the dense tensors it names.
    \<open>Concretize_Sound\<close>, \<open>Concretize_Loops\<close>, \<open>Concretize_Correct\<close>, \<open>Concretize_Example\<close>: the loops that
    concretization makes compute the sums that einsum notation stands for.
  \<^item> \<open>Loop_Order\<close>, \<open>Transformations\<close>: src/index_notation/transformations.cpp (the topological sort,
    \<open>reorderLoopsTopologically\<close>, \<open>Reorder\<close>, \<open>ForAllReplace\<close>, \<open>AddSuchThatPredicates\<close>) and the scheduling
    commands of \<open>IndexStmt\<close>. \<open>Reorder_Sound\<close>, \<open>Reorder_Example\<close>: permuting the loops of a nest keeps what
    the statement computes, when the assignment in it is one for which the order cannot matter.
  \<^item> \<open>Substitution\<close>: src/index_notation/index_notation_rewriter.cpp, the default rewriter and the replacement of
    expressions, statements, index variables and tensors; renaming variables keeps the meaning of a statement.
  \<^item> \<open>Workspaces\<close>: \<open>Precompute\<close> with the scheduling command, and the workspace of sparse matrix products, of
    src/index_notation/transformations.cpp. \<open>Workspace_Sound\<close> has the argument they share (a where statement whose
    producer fills a workspace does what the loops did), \<open>Precompute_Sound\<close> and \<open>Sparse_Products\<close> apply it,
    \<open>Precompute_Example\<close> has instances, and schedules and products whose result changes.
  \<^item> \<open>Util\<close>: include/taco/util/scopedmap.h, src/util/name_generator.cpp.

  \<^bold>\<open>Correspondence.\<close> A class of nodes is a constructor of the datatypes \<open>expr\<close> and \<open>stmt\<close> (binary and
  unary operators share one constructor with an operator name). A node whose identity matters (variables,
  properties) carries its address. A \<open>make\<close> function is a definition \<open>X_make\<close> that fails with
  \<open>IAssert\<close> where the code asserts. Handles to other nodes are compared by structure: two nodes of one operator over the same
  accesses are one. Floating-point
  arithmetic is a parameter of the model, the record \<open>fpu\<close>; no theorem assumes anything of it.

  \<^bold>\<open>Loops and fuel.\<close> The simplifier is a total function (each re-simplification has fewer nodes). The work
  list of copy propagation is a \<open>partial_function\<close>; it is proved to end when dependencies are not
  circular. The interpreter \<open>run\<close> takes a bound on the depth of the execution, 20 in the examples;
  running out of it is an error value, so an example that computes a value had enough.

  The reductions of an expression become one where statement each: \<open>assignment_wheres\<close> has as many rounds
  as the expression has reductions and one more, which is enough (\<open>assignment_wheres_total\<close>).

  \<^bold>\<open>Not modelled.\<close> Of the transformations of index notation: \<open>Parallelize\<close>,
  \<open>SetAssembleStrategy\<close>, \<open>scalarPromote\<close> and the branches for CUDA. The lowering to the IR, the parsers,
  tensors and their files, the printers for C and CUDA and the PochiVM backend; PochiVM itself and gtest
  are vendored. In the modelled files: \<open>rewriteForLoops\<close> of simplify.cpp, which returns its argument before it
  does anything, and the accessors of float and complex literals.
\<close>

end
